(* ===== verification/Prelude.thy ===== *)
theory Prelude
  imports Main "HOL-Library.Signed_Division" "HOL-Library.Char_ord"
begin

text \<open>
  Shared vocabulary of the development: results as sums, the JavaScript library
  functions the backend uses on strings and numbers, and the lemmas about them
  that every component shares.

  JavaScript strings are lists of code units; the model uses HOL's \<open>char\<close>, so it
  covers the code points 0 to 255. A JavaScript number that the code uses as an
  integer is an \<open>int\<close>; \<open>NaN\<close> is the value \<open>None\<close> of an \<open>option\<close>. A \<open>bigint\<close> is
  an \<open>int\<close>. Dates are milliseconds since the epoch, as \<open>getTime\<close> gives them.
\<close>

named_theorems js_simps \<open>evaluation rules for the JavaScript library functions\<close>
named_theorems result_simps \<open>rules for results in a sum type\<close>

type_synonym ms = int
type_synonym seconds = int
type_synonym ledger = int
type_synonym key = string

section \<open>Results\<close>

definition and_then :: "'e + 'a \<Rightarrow> ('a \<Rightarrow> 'e + 'b) \<Rightarrow> 'e + 'b" where
  "and_then r f = (case r of Inl e \<Rightarrow> Inl e | Inr a \<Rightarrow> f a)"

lemma and_then_Inl [simp, result_simps]: "and_then (Inl e) f = Inl e"
  by (simp add: and_then_def)

lemma and_then_Inr [simp, result_simps]: "and_then (Inr a) f = f a"
  by (simp add: and_then_def)

lemma and_then_eq_Inr: "and_then r f = Inr b \<longleftrightarrow> (\<exists>a. r = Inr a \<and> f a = Inr b)"
  by (cases r) auto

lemma and_then_eq_Inl:
  "and_then r f = Inl e \<longleftrightarrow> r = Inl e \<or> (\<exists>a. r = Inr a \<and> f a = Inl e)"
  by (cases r) auto

fun is_ok :: "'e + 'a \<Rightarrow> bool" where
  "is_ok (Inr _) = True"
| "is_ok (Inl _) = False"

lemma is_okE: "is_ok r \<Longrightarrow> (\<And>a. r = Inr a \<Longrightarrow> P) \<Longrightarrow> P"
  by (cases r) auto

section \<open>Strings\<close>

definition is_digit :: "char \<Rightarrow> bool" where
  "is_digit c \<longleftrightarrow> 48 \<le> (of_char c :: nat) \<and> (of_char c :: nat) \<le> 57"

definition digit_val :: "char \<Rightarrow> nat" where
  "digit_val c = of_char c - 48"

definition digit_char :: "nat \<Rightarrow> char" where
  "digit_char d = char_of (48 + d)"

text \<open>White space in the sense of \<open>String.prototype.trim\<close>, among the code points 0 to 255.\<close>

definition is_space :: "char \<Rightarrow> bool" where
  "is_space c \<longleftrightarrow> (of_char c :: nat) \<in> {9, 10, 11, 12, 13, 32, 160}"

definition js_trim_start :: "string \<Rightarrow> string" where
  "js_trim_start s = dropWhile is_space s"

definition js_trim :: "string \<Rightarrow> string" where
  "js_trim s = rev (dropWhile is_space (rev (dropWhile is_space s)))"

text \<open>\<open>s.split(c)\<close> for a separator of one character.\<close>

fun js_split :: "char \<Rightarrow> string \<Rightarrow> string list" where
  "js_split c [] = [[]]"
| "js_split c (x # xs) =
     (if x = c then [] # js_split c xs
      else (case js_split c xs of [] \<Rightarrow> [[x]] | w # ws \<Rightarrow> (x # w) # ws))"

fun js_join :: "string \<Rightarrow> string list \<Rightarrow> string" where
  "js_join sep [] = []"
| "js_join sep [w] = w"
| "js_join sep (w # v # ws) = w @ sep @ js_join sep (v # ws)"

definition js_pad_end :: "nat \<Rightarrow> char \<Rightarrow> string \<Rightarrow> string" where
  "js_pad_end n c s = s @ replicate (n - length s) c"

definition js_pad_start :: "nat \<Rightarrow> char \<Rightarrow> string \<Rightarrow> string" where
  "js_pad_start n c s = replicate (n - length s) c @ s"

fun starts_with :: "string \<Rightarrow> string \<Rightarrow> bool" where
  "starts_with [] s = True"
| "starts_with (p # ps) [] = False"
| "starts_with (p # ps) (x # xs) = (p = x \<and> starts_with ps xs)"

definition digits_val :: "string \<Rightarrow> nat" where
  "digits_val s = foldl (\<lambda>acc c. 10 * acc + digit_val c) 0 s"

fun show_nat :: "nat \<Rightarrow> string" where
  "show_nat n =
     (if n < 10 then [digit_char n] else show_nat (n div 10) @ [digit_char (n mod 10)])"

declare show_nat.simps [simp del]

definition show_int :: "int \<Rightarrow> string" where
  "show_int i = (if i < 0 then ''-'' @ show_nat (nat (- i)) else show_nat (nat i))"

text \<open>\<open>parseInt(s, 10)\<close>: the longest integer prefix, \<open>None\<close> for \<open>NaN\<close>.\<close>

definition js_parseInt :: "string \<Rightarrow> int option" where
  "js_parseInt s =
     (let t = js_trim_start s;
          neg = starts_with ''-'' t;
          body = (if neg \<or> starts_with ''+'' t then tl t else t);
          ds = takeWhile is_digit body
      in if ds = [] then None
         else Some (if neg then - int (digits_val ds) else int (digits_val ds)))"

text \<open>\<open>BigInt(s)\<close> on a string: decimal with an optional sign; \<open>None\<close> for a
  \<open>SyntaxError\<close>. The prefixed radixes \<open>0x\<close>, \<open>0o\<close>, \<open>0b\<close> are the last case.\<close>

fun hex_val :: "char \<Rightarrow> nat option" where
  "hex_val c =
     (let n = of_char c :: nat in
      if 48 \<le> n \<and> n \<le> 57 then Some (n - 48)
      else if 97 \<le> n \<and> n \<le> 102 then Some (n - 87)
      else if 65 \<le> n \<and> n \<le> 70 then Some (n - 55)
      else None)"

fun radix_val :: "nat \<Rightarrow> nat \<Rightarrow> string \<Rightarrow> nat option" where
  "radix_val r acc [] = Some acc"
| "radix_val r acc (c # cs) =
     (case hex_val c of
        None \<Rightarrow> None
      | Some d \<Rightarrow> if d < r then radix_val r (acc * r + d) cs else None)"

definition radix_prefix :: "string \<Rightarrow> nat option" where
  "radix_prefix s =
     (if starts_with ''0x'' s \<or> starts_with ''0X'' s then Some 16
      else if starts_with ''0o'' s \<or> starts_with ''0O'' s then Some 8
      else if starts_with ''0b'' s \<or> starts_with ''0B'' s then Some 2
      else None)"

definition js_BigInt :: "string \<Rightarrow> int option" where
  "js_BigInt s =
     (let t = js_trim s in
      if t = [] then Some 0
      else (case radix_prefix t of
              Some r \<Rightarrow>
                (let body = drop 2 t in
                 if body = [] then None else map_option int (radix_val r 0 body))
            | None \<Rightarrow>
                (let neg = starts_with ''-'' t;
                     body = (if neg \<or> starts_with ''+'' t then tl t else t)
                 in if body \<noteq> [] \<and> list_all is_digit body
                    then Some (if neg then - int (digits_val body) else int (digits_val body))
                    else None)))"

subsection \<open>Digits\<close>

lemma of_char_digit_char [simp]: "d < 10 \<Longrightarrow> (of_char (digit_char d) :: nat) = 48 + d"
  by (simp add: digit_char_def)

lemma is_digit_digit_char [simp]: "d < 10 \<Longrightarrow> is_digit (digit_char d)"
  by (simp add: is_digit_def)

lemma digit_val_digit_char [simp]: "d < 10 \<Longrightarrow> digit_val (digit_char d) = d"
  by (simp add: digit_val_def)

lemma digits_val_Nil [simp]: "digits_val [] = 0"
  by (simp add: digits_val_def)

lemma digits_val_snoc [simp]: "digits_val (s @ [c]) = 10 * digits_val s + digit_val c"
  by (simp add: digits_val_def)

lemma digits_val_append: "digits_val (s @ t) = digits_val s * 10 ^ length t + digits_val t"
proof (induction t rule: rev_induct)
  case Nil
  then show ?case by simp
next
  case (snoc c t)
  have "digits_val (s @ t @ [c]) = 10 * digits_val (s @ t) + digit_val c"
    by (metis append_assoc digits_val_snoc)
  with snoc show ?case by (simp add: algebra_simps)
qed

lemma digits_val_zeros [simp]: "digits_val (replicate n CHR ''0'') = 0"
proof (induction n)
  case (Suc n)
  have "replicate (Suc n) CHR ''0'' = replicate n CHR ''0'' @ [CHR ''0'']"
    by (simp add: replicate_append_same)
  with Suc show ?case by (simp add: digit_val_def)
qed simp

lemma digits_val_pad_start [simp]: "digits_val (js_pad_start n CHR ''0'' s) = digits_val s"
  by (simp add: js_pad_start_def digits_val_append)

lemma digits_val_pad_end:
  "digits_val (js_pad_end n CHR ''0'' s) = digits_val s * 10 ^ (n - length s)"
  by (simp add: js_pad_end_def digits_val_append)

lemma length_pad_start [simp]: "length (js_pad_start n c s) = max n (length s)"
  by (simp add: js_pad_start_def)

lemma set_pad_start: "set (js_pad_start n c s) \<subseteq> insert c (set s)"
  by (auto simp: js_pad_start_def)

lemma show_nat_not_Nil [simp]: "show_nat n \<noteq> []"
  by (subst show_nat.simps) simp

lemma show_int_not_Nil [simp]: "show_int i \<noteq> []"
  by (simp add: show_int_def)

lemma show_nat_digits [simp]: "list_all is_digit (show_nat n)"
proof (induction n rule: show_nat.induct)
  case (1 n)
  then show ?case by (cases "n < 10") (simp_all add: show_nat.simps [of n])
qed

lemma digits_val_show_nat [simp]: "digits_val (show_nat n) = n"
proof (induction n rule: show_nat.induct)
  case (1 n)
  then show ?case
    by (cases "n < 10")
       (simp_all add: show_nat.simps [of n] digits_val_def flip: div_mult_mod_eq)
qed

lemma length_show_nat_le: "n < 10 ^ Suc k \<Longrightarrow> length (show_nat n) \<le> Suc k"
proof (induction k arbitrary: n)
  case 0
  then show ?case by (simp add: show_nat.simps)
next
  case (Suc k)
  show ?case
  proof (cases "n < 10")
    case True
    then show ?thesis by (simp add: show_nat.simps)
  next
    case False
    have "n div 10 < 10 ^ Suc k" using Suc.prems by (simp add: less_mult_imp_div_less)
    with Suc.IH False show ?thesis by (simp add: show_nat.simps [of n])
  qed
qed

lemma is_digit_not_special [simp]:
  "\<not> is_digit CHR ''.''" "\<not> is_digit CHR ''-''" "\<not> is_digit CHR '':''" "\<not> is_digit CHR '',''"
  "\<not> is_digit CHR ''+''" "\<not> is_digit CHR ''x''" "\<not> is_digit CHR ''X''"
  "\<not> is_digit CHR ''o''" "\<not> is_digit CHR ''O''" "\<not> is_digit CHR ''b''" "\<not> is_digit CHR ''B''"
  by (simp_all add: is_digit_def)

lemma is_digit_zero [simp]: "is_digit CHR ''0''"
  by (simp add: is_digit_def)

lemma digit_not_space [simp]: "is_digit c \<Longrightarrow> \<not> is_space c"
  by (auto simp: is_digit_def is_space_def)

subsection \<open>Trimming and splitting\<close>

lemma dropWhile_id: "(xs = [] \<or> \<not> P (hd xs)) \<Longrightarrow> dropWhile P xs = xs"
  by (cases xs) auto

lemma js_trim_id:
  "(s = [] \<or> (\<not> is_space (hd s) \<and> \<not> is_space (last s))) \<Longrightarrow> js_trim s = s"
  by (auto simp: js_trim_def dropWhile_id hd_rev)

lemma js_trim_start_id: "(s = [] \<or> \<not> is_space (hd s)) \<Longrightarrow> js_trim_start s = s"
  by (auto simp: js_trim_start_def dropWhile_id)

lemma js_split_not_Nil [simp]: "js_split c s \<noteq> []"
  by (induction s) (auto split: list.splits)

lemma js_split_none: "c \<notin> set s \<Longrightarrow> js_split c s = [s]"
  by (induction s) auto

lemma js_split_append:
  "c \<notin> set s \<Longrightarrow> js_split c (s @ c # t) = s # js_split c t"
  by (induction s) auto

lemma js_split_parts: "w \<in> set (js_split c s) \<Longrightarrow> c \<notin> set w"
  by (induction s arbitrary: w) (fastforce split: list.splits if_splits)+

lemma js_join_split: "js_join [c] (js_split c s) = s"
proof (induction s)
  case (Cons x xs)
  obtain w ws where w: "js_split c xs = w # ws"
    by (metis js_split_not_Nil neq_Nil_conv)
  with Cons show ?case by (cases ws) auto
qed simp

lemma list_all_digit_notin: "list_all is_digit s \<Longrightarrow> \<not> is_digit c \<Longrightarrow> c \<notin> set s"
  by (auto simp: list_all_iff)

lemma foldl_plus_sum_list: "foldl (+) a xs = a + sum_list (xs :: int list)"
  by (induction xs arbitrary: a) (auto simp: algebra_simps)

lemma count_list_replicate [simp]: "count_list (replicate n x) x = n"
  by (induction n) auto

subsection \<open>Parsing what was printed\<close>

lemma starts_with_Cons1 [simp]: "starts_with [c] s \<longleftrightarrow> s \<noteq> [] \<and> hd s = c"
  by (cases s) auto

lemma hd_digits: "list_all is_digit s \<Longrightarrow> s \<noteq> [] \<Longrightarrow> is_digit (hd s)"
  by (cases s) auto

lemma last_digits: "list_all is_digit s \<Longrightarrow> s \<noteq> [] \<Longrightarrow> is_digit (last s)"
  by (auto simp: list_all_iff)

lemma hd_show_nat_not_minus [simp]: "hd (show_nat n) \<noteq> CHR ''-''" "hd (show_nat n) \<noteq> CHR ''+''"
  using hd_digits [OF show_nat_digits show_nat_not_Nil] by (metis is_digit_not_special)+

lemma takeWhile_all: "list_all P s \<Longrightarrow> takeWhile P s = s"
  by (induction s) auto

theorem js_parseInt_show_int: "js_parseInt (show_int i) = Some i"
proof -
  have d: "\<not> is_space (hd (show_nat n))" for n by (simp add: hd_digits)
  have sp: "js_trim_start (show_int i) = show_int i"
    by (rule js_trim_start_id) (simp add: show_int_def d, simp add: is_space_def)
  show ?thesis
    unfolding js_parseInt_def sp
    by (auto simp: show_int_def Let_def takeWhile_all)
qed

lemma starts_with_Cons2 [simp]:
  "starts_with [c, d] s \<longleftrightarrow> (\<exists>t. s = c # d # t)"
  by (cases s; cases "tl s") auto

lemma radix_prefix_digits: "list_all is_digit s \<Longrightarrow> radix_prefix s = None"
  by (auto simp: radix_prefix_def)

lemma js_BigInt_digits:
  assumes "list_all is_digit s" and "s \<noteq> []"
  shows "js_BigInt s = Some (int (digits_val s))"
proof -
  have "\<not> is_space (hd s)" "\<not> is_space (last s)"
    using assms by (simp_all add: hd_digits last_digits)
  then have "js_trim s = s" by (simp add: js_trim_id)
  moreover have "hd s \<noteq> CHR ''-''" "hd s \<noteq> CHR ''+''"
    using hd_digits [OF assms] by auto
  ultimately show ?thesis
    using assms by (simp add: js_BigInt_def Let_def radix_prefix_digits)
qed

lemma js_BigInt_show_int: "js_BigInt (show_int i) = Some i"
proof (cases "i < 0")
  case True
  let ?s = "show_nat (nat (- i))"
  have l: "\<not> is_space (last ?s)" by (simp add: last_digits)
  have t: "js_trim (''-'' @ ?s) = ''-'' @ ?s"
    by (rule js_trim_id) (use l in \<open>simp add: is_space_def\<close>)
  have r: "radix_prefix (''-'' @ ?s) = None" by (simp add: radix_prefix_def)
  show ?thesis using True t r by (simp add: show_int_def js_BigInt_def Let_def)
next
  case False
  then show ?thesis by (simp add: show_int_def js_BigInt_digits)
qed


section \<open>Maps in insertion order\<close>

text \<open>A JavaScript \<open>Map\<close>, and a table with a unique key, as an association list in insertion order:
  \<open>set\<close> keeps the place of a key that is present.\<close>

fun js_map_set :: "'k \<Rightarrow> 'v \<Rightarrow> ('k \<times> 'v) list \<Rightarrow> ('k \<times> 'v) list" where
  "js_map_set k v [] = [(k, v)]"
| "js_map_set k v ((k', v') # m) = (if k' = k then (k, v) # m else (k', v') # js_map_set k v m)"

lemma map_of_js_map_set [simp]: "map_of (js_map_set k v m) = (map_of m)(k \<mapsto> v)"
  by (induction m) auto

lemma keys_js_map_set: "set (map fst (js_map_set k v m)) = insert k (set (map fst m))"
proof (induction m)
  case (Cons p m)
  then show ?case by (cases p; cases "fst p = k") auto
qed simp

lemma distinct_js_map_set: "distinct (map fst m) \<Longrightarrow> distinct (map fst (js_map_set k v m))"
proof (induction m)
  case (Cons p m)
  then show ?case using keys_js_map_set [of k v m] by (cases p; cases "fst p = k") auto
qed simp

lemma js_map_set_not_Nil [simp]: "js_map_set k v m \<noteq> []"
  by (cases m rule: list.exhaust; cases "hd m") auto

section \<open>Chunks\<close>

text \<open>The loop \<open>for (i = 0; i < items.length; i += size) out.push(items.slice(i, i + size))\<close>.\<close>

function chunk :: "nat \<Rightarrow> 'a list \<Rightarrow> 'a list list" where
  "chunk sz items =
     (if sz = 0 then [items]
      else if items = [] then []
      else take sz items # chunk sz (drop sz items))"
  by pat_completeness auto
termination by (relation "measure (\<lambda>(n, xs). length xs)") auto

declare chunk.simps [simp del]

lemma concat_chunk: "concat (chunk n xs) = xs"
proof (induction n xs rule: chunk.induct)
  case (1 n xs)
  then show ?case by (subst chunk.simps) auto
qed

lemma chunk_bound: "0 < n \<Longrightarrow> c \<in> set (chunk n xs) \<Longrightarrow> 0 < length c \<and> length c \<le> n"
proof (induction n xs rule: chunk.induct)
  case (1 n xs)
  then show ?case by (subst (asm) chunk.simps) (auto split: if_splits)
qed

section \<open>Environment variables\<close>

definition parsePositiveInt :: "string option \<Rightarrow> int \<Rightarrow> int" where
  "parsePositiveInt value fallback =
     (case js_parseInt (case value of None \<Rightarrow> [] | Some s \<Rightarrow> s) of
        None \<Rightarrow> fallback
      | Some n \<Rightarrow> if n > 0 then n else fallback)"

definition parseNonNegativeInt :: "string option \<Rightarrow> int \<Rightarrow> int" where
  "parseNonNegativeInt value fallback =
     (case js_parseInt (case value of None \<Rightarrow> [] | Some s \<Rightarrow> s) of
        None \<Rightarrow> fallback
      | Some n \<Rightarrow> if n \<ge> 0 then n else fallback)"

definition js_lower :: "string \<Rightarrow> string" where
  "js_lower s =
     map (\<lambda>c. let n = of_char c :: nat in
            if (65 \<le> n \<and> n \<le> 90) \<or> (192 \<le> n \<and> n \<le> 222 \<and> n \<noteq> 215) then char_of (n + 32) else c) s"

definition parseBoolean :: "string option \<Rightarrow> bool \<Rightarrow> bool" where
  "parseBoolean value fallback =
     (case value of None \<Rightarrow> fallback
      | Some v \<Rightarrow>
          (let normalized = js_lower (js_trim v) in
           if normalized \<in> {''1'', ''true'', ''yes'', ''on''} then True
           else if normalized \<in> {''0'', ''false'', ''no'', ''off''} then False
           else fallback))"

lemma parsePositiveInt_pos: "0 < fallback \<Longrightarrow> 0 < parsePositiveInt value fallback"
  by (auto simp: parsePositiveInt_def split: option.splits)

end
