(* ===== verification/MoneyDecimal.thy ===== *)
theory MoneyDecimal
  imports Prelude
begin

text \<open>
  The money policy of the backend: \<open>src/backend/src/money/decimal.ts\<close> with the
  constants of \<open>policy.generated.ts\<close>. Every settlement amount is a \<open>bigint\<close> number
  of stroops, hence an \<open>int\<close> here; a thrown \<open>MoneyError\<close> is an \<open>Inl\<close>.

  The first part holds the definitions; the second shows that \<open>roundDiv\<close> meets the
  textbook specification of each rounding mode, that decimal strings survive a round
  trip, and that \<open>splitProRata\<close> is a largest-remainder allocation.
\<close>

section \<open>Definitions\<close>

definition SCALE_DECIMALS :: nat where "SCALE_DECIMALS = 7"
definition SCALE :: int where "SCALE = 10000000"

datatype RoundingMode = HalfEven | HalfUp | Floor | Ceil

definition DEFAULT_MODE :: RoundingMode where "DEFAULT_MODE = HalfEven"

datatype MoneyError =
    DivisionByZero
  | InvalidDecimalAmount string
  | BigIntSyntaxError string
  | NegativeTotal
  | NoWeights
  | NegativeWeight
  | ZeroTotalWeight
  | DriftDetected
  | UndefinedShare
  | FractionalStroops string

text \<open>\<open>sdiv\<close> and \<open>smod\<close> truncate towards zero, as \<open>/\<close> and \<open>%\<close> do on \<open>bigint\<close>.\<close>

definition roundDiv :: "int \<Rightarrow> int \<Rightarrow> RoundingMode \<Rightarrow> MoneyError + int" where
  "roundDiv num den mode =
     (if den = 0 then Inl DivisionByZero
      else
        (let n = (if den < 0 then - num else num);
             d = (if den < 0 then - den else den);
             quotient = n sdiv d;
             remainder = n smod d
         in if remainder = 0 then Inr quotient
            else
              (let remainderIsNegative = remainder < 0;
                   absRemainder = (if remainderIsNegative then - remainder else remainder);
                   roundAwayFromZero =
                     (case mode of
                        Floor \<Rightarrow> remainderIsNegative
                      | Ceil \<Rightarrow> \<not> remainderIsNegative
                      | HalfUp \<Rightarrow> absRemainder * 2 \<ge> d
                      | HalfEven \<Rightarrow>
                          (let doubled = absRemainder * 2
                           in if doubled > d then True
                              else if doubled < d then False
                              else quotient smod 2 \<noteq> 0))
               in if \<not> roundAwayFromZero then Inr quotient
                  else if remainderIsNegative then Inr (quotient - 1)
                  else Inr (quotient + 1))))"

text \<open>The regular expression \<open>DECIMAL_STRING\<close>: a sign, digits, and a fraction, the sign and the
  fraction being optional.\<close>

definition decimal_string :: "string \<Rightarrow> bool" where
  "decimal_string s =
     (let u = (if starts_with ''-'' s then tl s else s) in
      case js_split CHR ''.'' u of
        [w] \<Rightarrow> w \<noteq> [] \<and> list_all is_digit w
      | [w, f] \<Rightarrow> w \<noteq> [] \<and> list_all is_digit w \<and> f \<noteq> [] \<and> list_all is_digit f
      | _ \<Rightarrow> False)"

definition BigInt :: "string \<Rightarrow> MoneyError + int" where
  "BigInt s = (case js_BigInt s of None \<Rightarrow> Inl (BigIntSyntaxError s) | Some i \<Rightarrow> Inr i)"

definition toStroops :: "string \<Rightarrow> RoundingMode \<Rightarrow> MoneyError + int" where
  "toStroops input mode =
     (let trimmed = js_trim input in
      if \<not> decimal_string trimmed then Inl (InvalidDecimalAmount input)
      else
        (let negative = starts_with ''-'' trimmed;
             unsigned = (if negative then tl trimmed else trimmed);
             pieces = js_split CHR ''.'' unsigned;
             wholeRaw = hd pieces;
             fractionRaw = (case tl pieces of [] \<Rightarrow> [] | f # _ \<Rightarrow> f);
             whole = (if wholeRaw \<noteq> [] then wholeRaw else ''0'');
             magnitude =
               (if length fractionRaw \<le> SCALE_DECIMALS then
                  (let paddedFraction = js_pad_end SCALE_DECIMALS CHR ''0'' fractionRaw in
                   and_then (BigInt whole) (\<lambda>w.
                   and_then (BigInt (if paddedFraction = [] then ''0'' else paddedFraction)) (\<lambda>f.
                     Inr (w * SCALE + f))))
                else
                  (let extraDigits = length fractionRaw - SCALE_DECIMALS;
                       den = 10 ^ extraDigits in
                   and_then (BigInt whole) (\<lambda>w.
                   and_then (BigInt fractionRaw) (\<lambda>f.
                     roundDiv (w * 10 ^ length fractionRaw + f) den mode))))
         in and_then magnitude (\<lambda>m. Inr (if negative then - m else m))))"

definition fromStroops :: "int \<Rightarrow> string" where
  "fromStroops v =
     (let negative = v < 0;
          magnitude = (if negative then - v else v);
          whole = magnitude sdiv SCALE;
          fraction = js_pad_start SCALE_DECIMALS CHR ''0'' (show_int (magnitude smod SCALE))
      in (if negative then ''-'' else []) @ show_int whole @ ''.'' @ fraction)"

text \<open>The first loop of \<open>splitProRata\<close>: the floor shares, their remainders, and their sum.\<close>

fun floor_alloc ::
  "int \<Rightarrow> int \<Rightarrow> int list \<Rightarrow> int list \<Rightarrow> int list \<Rightarrow> int
     \<Rightarrow> MoneyError + int list \<times> int list \<times> int" where
  "floor_alloc tot weightSum [] parts remainders allocated =
     Inr (parts, remainders, allocated)"
| "floor_alloc tot weightSum (w # ws) parts remainders allocated =
     (let numerator = tot * w in
      and_then (roundDiv numerator weightSum Floor) (\<lambda>part.
        floor_alloc tot weightSum ws (parts @ [part])
          (remainders @ [numerator - part * weightSum]) (allocated + part)))"

text \<open>The inner \<open>for\<close> loop: the first unused index with the largest remainder, \<open>- 1\<close> for none.\<close>

fun best_index :: "nat \<Rightarrow> (int \<times> bool) list \<Rightarrow> int \<Rightarrow> int \<Rightarrow> int" where
  "best_index i [] bestIdx bestRemainder = bestIdx"
| "best_index i ((r, u) # rs) bestIdx bestRemainder =
     (if u then best_index (Suc i) rs bestIdx bestRemainder
      else if r > bestRemainder then best_index (Suc i) rs (int i) r
      else best_index (Suc i) rs bestIdx bestRemainder)"

text \<open>The \<open>while (remaining > 0n)\<close> loop; \<open>parts[-1] + 1n\<close> would throw a \<open>TypeError\<close>.\<close>

fun hand_out :: "int list \<Rightarrow> nat \<Rightarrow> bool list \<Rightarrow> int list \<Rightarrow> MoneyError + int list" where
  "hand_out remainders 0 used parts = Inr parts"
| "hand_out remainders (Suc remaining) used parts =
     (let b = best_index 0 (zip remainders used) (- 1) (- 1) in
      if b < 0 then Inl UndefinedShare
      else hand_out remainders remaining (used[nat b := True])
             (parts[nat b := parts ! nat b + 1]))"

definition splitProRata :: "int \<Rightarrow> int list \<Rightarrow> MoneyError + int list" where
  "splitProRata tot weights =
     (if tot < 0 then Inl NegativeTotal
      else if weights = [] then (if tot = 0 then Inr [] else Inl NoWeights)
      else if list_ex (\<lambda>w. w < 0) weights then Inl NegativeWeight
      else
        (let weightSum = foldl (+) 0 weights in
         if weightSum = 0 then
           (if tot = 0 then Inr (map (\<lambda>_. 0) weights) else Inl ZeroTotalWeight)
         else
           and_then (floor_alloc tot weightSum weights [] [] 0) (\<lambda>(parts, remainders, allocated).
             (let leftover = tot - allocated in
              if leftover < 0 \<or> leftover \<ge> int (length weights) then Inl DriftDetected
              else hand_out remainders (nat leftover) (replicate (length weights) False) parts))))"

section \<open>Rounding division\<close>

lemma sdiv_nonneg: "0 \<le> n \<Longrightarrow> 0 < d \<Longrightarrow> n sdiv d = n div (d::int)"
  by (cases "n = 0") (auto simp: signed_divide_int_def sgn_if)

lemma sdiv_neg: "n < 0 \<Longrightarrow> 0 < d \<Longrightarrow> n sdiv d = - ((- n) div (d::int))"
  by (auto simp: signed_divide_int_def sgn_if)

lemma smod_eq: "n smod d = n - (n sdiv d) * (d::int)"
  using sdiv_mult_smod_eq [of n d] by linarith

definition rounds_up :: "RoundingMode \<Rightarrow> bool \<Rightarrow> int \<Rightarrow> int \<Rightarrow> int \<Rightarrow> bool" where
  "rounds_up mode neg q r d =
     (case mode of
        Floor \<Rightarrow> neg
      | Ceil \<Rightarrow> \<not> neg
      | HalfUp \<Rightarrow> d \<le> 2 * r
      | HalfEven \<Rightarrow> d < 2 * r \<or> (d = 2 * r \<and> odd q))"

lemma smod_2: "(q::int) smod 2 \<noteq> 0 \<longleftrightarrow> odd q"
  by (simp add: smod_int_alt_def sgn_if odd_iff_mod_2_eq_one) presburger

text \<open>\<open>roundDiv\<close> on a dividend written as magnitude times divisor plus remainder: what the
  case analysis of every later proof uses.\<close>

lemma roundDiv_core:
  assumes "0 < d" "n sdiv d = Q" "n smod d = R"
  shows "roundDiv n d mode =
           Inr (if R \<noteq> 0 \<and> rounds_up mode (R < 0) Q \<bar>R\<bar> d
                then (if R < 0 then Q - 1 else Q + 1) else Q)"
proof -
  have "roundDiv n d mode =
      (if R = 0 then Inr Q
       else if \<not> rounds_up mode (R < 0) Q \<bar>R\<bar> d then Inr Q
       else if R < 0 then Inr (Q - 1) else Inr (Q + 1))"
    using assms(1) unfolding roundDiv_def
    by (cases mode; cases "R < 0"; cases "2 * \<bar>R\<bar>" d rule: linorder_cases)
       (simp_all add: Let_def assms(2,3) rounds_up_def smod_2)
  then show ?thesis by simp
qed

lemma roundDiv_nonneg:
  assumes "0 < d" "0 \<le> q" "0 \<le> r" "r < d"
  shows "roundDiv (q * d + r) d mode =
           Inr (if r \<noteq> 0 \<and> rounds_up mode False q r d then q + 1 else q)"
proof -
  have sd: "(q * d + r) sdiv d = q"
    using assms by (simp add: sdiv_nonneg div_add1_eq)
  then have sm: "(q * d + r) smod d = r" by (simp add: smod_eq)
  show ?thesis using assms by (simp add: roundDiv_core [OF _ sd sm])
qed

lemma roundDiv_neg:
  assumes "0 < d" "0 \<le> q" "0 \<le> r" "r < d" "0 < q * d + r"
  shows "roundDiv (- (q * d + r)) d mode =
           Inr (if r \<noteq> 0 \<and> rounds_up mode True q r d then - q - 1 else - q)"
proof -
  have sd: "(- (q * d + r)) sdiv d = - q"
    using assms by (subst sdiv_neg) (auto simp: div_add1_eq)
  then have sm: "(- (q * d + r)) smod d = - r" by (simp add: smod_eq)
  have "rounds_up mode True (- q) r d = rounds_up mode True q r d"
    by (simp add: rounds_up_def split: RoundingMode.splits)
  with assms show ?thesis
    using roundDiv_core [OF assms(1) sd sm, of mode] by (cases "r = 0") simp_all
qed

lemma dividend_cases [consumes 1, case_names nonneg neg]:
  fixes n d :: int
  assumes d: "0 < d"
    and "\<And>q r. n = q * d + r \<Longrightarrow> 0 \<le> q \<Longrightarrow> 0 \<le> r \<Longrightarrow> r < d \<Longrightarrow> P"
    and "\<And>q r. n = - (q * d + r) \<Longrightarrow> 0 \<le> q \<Longrightarrow> 0 \<le> r \<Longrightarrow> r < d \<Longrightarrow> 0 < q * d + r \<Longrightarrow> P"
  shows P
proof (cases "0 \<le> n")
  case True
  then show ?thesis using d
    by (intro assms(2) [of "n div d" "n mod d"]) (auto simp: pos_imp_zdiv_nonneg_iff)
next
  case False
  then show ?thesis using d
    by (intro assms(3) [of "(- n) div d" "(- n) mod d"]) (auto simp: pos_imp_zdiv_nonneg_iff)
qed

lemma roundDiv_minus_den: "den < 0 \<Longrightarrow> roundDiv n den mode = roundDiv (- n) (- den) mode"
  by (simp add: roundDiv_def)

text \<open>The same result relative to the floor of the quotient: whether a mode goes up from it.\<close>

definition goes_up :: "RoundingMode \<Rightarrow> int \<Rightarrow> int \<Rightarrow> bool" where
  "goes_up mode n d =
     (case mode of
        Floor \<Rightarrow> False
      | Ceil \<Rightarrow> n mod d \<noteq> 0
      | HalfUp \<Rightarrow> d < 2 * (n mod d) \<or> (d = 2 * (n mod d) \<and> 0 \<le> n)
      | HalfEven \<Rightarrow> d < 2 * (n mod d) \<or> (d = 2 * (n mod d) \<and> odd (n div d)))"

lemma roundDiv_floor_form:
  assumes d: "0 < d"
  shows "roundDiv n d mode = Inr (n div d + of_bool (goes_up mode n d))"
  using d
proof (cases rule: dividend_cases [where n = n])
  case (nonneg q r)
  have "0 \<le> n" using nonneg d by simp
  moreover have "n div d = q" "n mod d = r" using nonneg d by (simp_all add: div_add1_eq)
  ultimately show ?thesis
    using roundDiv_nonneg [OF d nonneg(2-4), of mode] nonneg(3) d unfolding nonneg(1)
    by (cases mode) (auto simp: goes_up_def rounds_up_def)
next
  case (neg q r)
  have n0: "n < 0" using neg by simp
  have dv: "n div d = (if r = 0 then - q else - q - 1)"
    by (rule int_div_pos_eq [where r = "if r = 0 then 0 else d - r"])
       (use neg d in \<open>auto simp: algebra_simps\<close>)
  then have md: "n mod d = (if r = 0 then 0 else d - r)"
    using minus_div_mult_eq_mod [of n d] unfolding dv neg(1) by (auto simp: algebra_simps)
  have "roundDiv n d mode = Inr (if r \<noteq> 0 \<and> rounds_up mode True q r d then - q - 1 else - q)"
    using roundDiv_neg [OF d neg(2-5), of mode] neg(1) by simp
  then show ?thesis
    using n0 d neg(3,4) unfolding goes_up_def dv md
    by (cases mode) (auto simp: rounds_up_def)
qed

lemma goes_up_mod: "0 < d \<Longrightarrow> goes_up mode n d \<Longrightarrow> 0 < n mod d"
  using pos_mod_sign [of d n] by (auto simp: goes_up_def less_le split: RoundingMode.splits)

lemma roundDiv_Floor: "0 < d \<Longrightarrow> roundDiv n d Floor = Inr (n div d)"
  by (simp add: roundDiv_floor_form goes_up_def)

lemma roundDiv_Ceil: "0 < d \<Longrightarrow> roundDiv n d Ceil = Inr (- ((- n) div d))"
  by (auto simp: roundDiv_floor_form goes_up_def zdiv_zminus1_eq_if)

text \<open>The contract of a rounding division by a positive divisor: it returns, it is exact on
  multiples, it is monotone, and it is less than one unit away from the true quotient.\<close>

locale rounding_division =
  fixes rdiv :: "int \<Rightarrow> int \<Rightarrow> 'e + int"
  assumes rdiv_returns: "0 < d \<Longrightarrow> \<exists>q. rdiv n d = Inr q"
    and rdiv_exact: "0 < d \<Longrightarrow> rdiv (q * d) d = Inr q"
    and rdiv_near: "0 < d \<Longrightarrow> rdiv n d = Inr q \<Longrightarrow> \<bar>q * d - n\<bar> < d"
    and rdiv_mono: "0 < d \<Longrightarrow> rdiv n d = Inr q \<Longrightarrow> rdiv m d = Inr p \<Longrightarrow> n \<le> m \<Longrightarrow> q \<le> p"
begin

lemma rdiv_nonneg: "0 < d \<Longrightarrow> 0 \<le> n \<Longrightarrow> rdiv n d = Inr q \<Longrightarrow> 0 \<le> q"
  using rdiv_mono [of d 0 0 n q] rdiv_exact [of d 0] by simp

lemma rdiv_le: "0 < d \<Longrightarrow> n \<le> b * d \<Longrightarrow> rdiv n d = Inr q \<Longrightarrow> q \<le> b"
  using rdiv_mono [of d n q "b * d" b] rdiv_exact [of d b] by simp

end

text \<open>A floor division never gives more than the true quotient; so shares that are floors of
  parts of a whole never exceed the whole.\<close>

locale floor_division = rounding_division +
  assumes rdiv_under: "0 < d \<Longrightarrow> rdiv n d = Inr q \<Longrightarrow> q * d \<le> n"
begin

lemma rdiv_add_le:
  assumes d: "0 < d" and "rdiv m d = Inr p" "rdiv n d = Inr q" "rdiv (m + n) d = Inr r"
  shows "p + q \<le> r \<and> r \<le> p + q + 1"
proof -
  have "p * d \<le> m" "q * d \<le> n" "r * d \<le> m + n"
    using assms by (auto dest: rdiv_under)
  moreover have "m < p * d + d" "n < q * d + d" "m + n < r * d + d"
    using assms by (auto dest!: rdiv_near [OF d])
  ultimately have "(p + q) * d < (r + 1) * d" "r * d < (p + q + 2) * d"
    by (simp_all add: algebra_simps)
  with d show ?thesis by (simp add: mult_less_cancel_right)
qed

end

lemma roundDiv_near:
  assumes d: "0 < d" and q: "roundDiv n d mode = Inr q"
  shows "\<bar>q * d - n\<bar> < d"
proof -
  have "0 \<le> n mod d" "n mod d < d" using d by simp_all
  moreover have "q * d - n = of_bool (goes_up mode n d) * d - n mod d"
    using q roundDiv_floor_form [OF d, of n mode] minus_div_mult_eq_mod [of n d]
    by (auto simp: distrib_right)
  ultimately show ?thesis
    using goes_up_mod [OF d, of mode n] by (cases "goes_up mode n d") auto
qed

lemma roundDiv_exact: "0 < d \<Longrightarrow> roundDiv (q * d) d mode = Inr q"
  using goes_up_mod [of d mode "q * d"] by (auto simp: roundDiv_floor_form)

text \<open>Out of order results would need two dividends with the same floor, and there the mode
  decides by the size of the remainder.\<close>

lemma goes_up_mono:
  assumes "0 < d" "n \<le> m" "n div d = m div d" "goes_up mode n d"
  shows "goes_up mode m d"
proof -
  have "n mod d \<le> m mod d"
    using assms(2) div_mult_mod_eq [of n d] div_mult_mod_eq [of m d]
    unfolding assms(3) by linarith
  moreover have "0 < n mod d" using assms(1,4) by (rule goes_up_mod)
  ultimately show ?thesis
    using assms by (cases mode) (auto simp: goes_up_def simp del: mod_0_imp_dvd)
qed

lemma roundDiv_mono:
  assumes d: "0 < d" and q: "roundDiv n d mode = Inr q" and p: "roundDiv m d mode = Inr p"
    and le: "n \<le> m"
  shows "q \<le> p"
proof -
  have "n div d < m div d \<or> n div d = m div d"
    using le d zdiv_mono1 [of n m d] by linarith
  then show ?thesis
    using q p goes_up_mono [OF d le] by (auto simp: roundDiv_floor_form [OF d])
qed

interpretation rd: rounding_division "\<lambda>n d. roundDiv n d mode" for mode
  by unfold_locales
     (simp add: roundDiv_floor_form, (erule roundDiv_exact roundDiv_near roundDiv_mono; assumption)+)

interpretation fd: floor_division "\<lambda>n d. roundDiv n d Floor"
proof unfold_locales
  fix d n q :: int
  assume "0 < d" "roundDiv n d Floor = Inr q"
  then show "q * d \<le> n"
    using pos_mod_sign [of d n] by (auto simp: roundDiv_Floor minus_mod_eq_div_mult [symmetric])
qed

section \<open>Decimal strings\<close>

definition sign_str :: "bool \<Rightarrow> string" where
  "sign_str neg = (if neg then ''-'' else [])"

definition sign_val :: "bool \<Rightarrow> int \<Rightarrow> int" where
  "sign_val neg i = (if neg then - i else i)"

text \<open>The two shapes the regular expression accepts.\<close>

lemma js_split_digits:
  assumes "list_all is_digit w"
  shows "js_split CHR ''.'' w = [w]" and "js_split CHR ''.'' (w @ CHR ''.'' # t) = w # js_split CHR ''.'' t"
  using assms by (simp_all add: js_split_none js_split_append list_all_digit_notin)

lemma unsign_digits:
  assumes "list_all is_digit w" "w \<noteq> []"
  shows "starts_with ''-'' (sign_str neg @ w @ t) = neg"
    and "(if neg then tl (sign_str neg @ w @ t) else sign_str neg @ w @ t) = w @ t"
  using hd_digits [OF assms] assms(2) by (auto simp: sign_str_def)

lemma decimal_string_iff:
  "decimal_string s \<longleftrightarrow>
     (\<exists>neg w. s = sign_str neg @ w \<and> w \<noteq> [] \<and> list_all is_digit w) \<or>
     (\<exists>neg w f. s = sign_str neg @ w @ CHR ''.'' # f \<and> w \<noteq> [] \<and> list_all is_digit w
        \<and> f \<noteq> [] \<and> list_all is_digit f)" (is "_ \<longleftrightarrow> ?R")
proof
  assume ok: "decimal_string s"
  define neg where "neg = starts_with ''-'' s"
  define u where "u = (if neg then tl s else s)"
  have s: "s = sign_str neg @ u"
    by (cases s) (auto simp: neg_def u_def sign_str_def)
  have j: "js_join [CHR ''.''] (js_split CHR ''.'' u) = u" by (rule js_join_split)
  from ok have "case js_split CHR ''.'' u of
        [w] \<Rightarrow> w \<noteq> [] \<and> list_all is_digit w
      | [w, f] \<Rightarrow> w \<noteq> [] \<and> list_all is_digit w \<and> f \<noteq> [] \<and> list_all is_digit f
      | _ \<Rightarrow> False"
    unfolding decimal_string_def Let_def by (simp add: u_def neg_def)
  then show ?R using j s
    by (auto split: list.splits) (metis append.assoc append_Cons append_Nil)+
next
  assume ?R
  then show "decimal_string s"
  proof (elim disjE exE conjE)
    fix neg w assume a: "s = sign_str neg @ w" "w \<noteq> []" "list_all is_digit w"
    then show ?thesis
      using unsign_digits [of w neg "[]", unfolded append_Nil2] by (simp add: decimal_string_def js_split_digits)
  next
    fix neg w f
    assume a: "s = sign_str neg @ w @ CHR ''.'' # f" "w \<noteq> []" "list_all is_digit w" "f \<noteq> []"
      "list_all is_digit f"
    then show ?thesis
      using unsign_digits [of w neg "CHR ''.'' # f"]
      by (simp add: decimal_string_def js_split_digits)
  qed
qed

lemma decimal_stringI:
  "w \<noteq> [] \<Longrightarrow> list_all is_digit w \<Longrightarrow> decimal_string (sign_str neg @ w)"
  "w \<noteq> [] \<Longrightarrow> list_all is_digit w \<Longrightarrow> f \<noteq> [] \<Longrightarrow> list_all is_digit f \<Longrightarrow>
     decimal_string (sign_str neg @ w @ CHR ''.'' # f)"
  unfolding decimal_string_iff by blast+

lemma hd_signed:
  "list_all is_digit w \<Longrightarrow> w \<noteq> [] \<Longrightarrow> \<not> is_space (hd (sign_str neg @ w @ t))"
  by (cases neg) (simp_all add: sign_str_def hd_digits, simp add: is_space_def)

lemma js_trim_decimal:
  assumes "decimal_string s"
  shows "js_trim s = s"
proof (rule js_trim_id)
  from assms have "\<not> is_space (hd s) \<and> \<not> is_space (last s)"
    unfolding decimal_string_iff
  proof (elim disjE exE conjE)
    fix neg w assume "s = sign_str neg @ w" "w \<noteq> []" "list_all is_digit w"
    then show ?thesis using hd_signed [of w neg "[]", unfolded append_Nil2] by (simp add: last_digits)
  next
    fix neg w f
    assume "s = sign_str neg @ w @ CHR ''.'' # f" "w \<noteq> []" "list_all is_digit w" "f \<noteq> []"
      "list_all is_digit f"
    then show ?thesis using hd_signed [of w neg "CHR ''.'' # f"] by (simp add: last_digits)
  qed
  then show "s = [] \<or> \<not> is_space (hd s) \<and> \<not> is_space (last s)" by simp
qed

lemma BigInt_digits:
  "list_all is_digit s \<Longrightarrow> s \<noteq> [] \<Longrightarrow> BigInt s = Inr (int (digits_val s))"
  by (simp add: BigInt_def js_BigInt_digits)

text \<open>What a decimal string denotes: an exact number of stroops when it has at most seven
  fractional digits, a rounded one when it has more.\<close>

lemma toStroops_short:
  assumes s: "js_trim input = sign_str neg @ w @ CHR ''.'' # f"
    and w: "w \<noteq> []" "list_all is_digit w" and f: "f \<noteq> []" "list_all is_digit f"
    and len: "length f \<le> 7"
  shows "toStroops input mode =
           Inr (sign_val neg (int (digits_val w) * 10 ^ 7 + int (digits_val f) * 10 ^ (7 - length f)))"
proof -
  have ok: "decimal_string (js_trim input)"
    using s w f by (simp add: decimal_stringI)
  have pad: "list_all is_digit (js_pad_end 7 CHR ''0'' f)" "js_pad_end 7 CHR ''0'' f \<noteq> []"
    using f by (auto simp: js_pad_end_def list_all_iff)
  show ?thesis
    using ok w f len unsign_digits [OF w(2) w(1), of neg "CHR ''.'' # f"]
    by (simp add: toStroops_def s Let_def js_split_digits SCALE_DECIMALS_def SCALE_def
        BigInt_digits pad digits_val_pad_end sign_val_def)
qed

lemma toStroops_whole:
  assumes s: "js_trim input = sign_str neg @ w" and w: "w \<noteq> []" "list_all is_digit w"
  shows "toStroops input mode = Inr (sign_val neg (int (digits_val w) * 10 ^ 7))"
proof -
  have ok: "decimal_string (js_trim input)"
    using s w by (simp add: decimal_stringI)
  have pad: "list_all is_digit (js_pad_end 7 CHR ''0'' [])" "js_pad_end 7 CHR ''0'' [] \<noteq> []"
    by (auto simp: js_pad_end_def list_all_iff)
  show ?thesis
    using ok w unsign_digits [OF w(2) w(1), of neg "[]", unfolded append_Nil2]
    by (simp add: toStroops_def s Let_def js_split_digits SCALE_DECIMALS_def SCALE_def
        BigInt_digits pad digits_val_pad_end sign_val_def)
qed

lemma toStroops_long:
  assumes s: "js_trim input = sign_str neg @ w @ CHR ''.'' # f"
    and w: "w \<noteq> []" "list_all is_digit w" and f: "list_all is_digit f"
    and len: "7 < length f"
  shows "\<exists>m. roundDiv (int (digits_val (w @ f))) (10 ^ (length f - 7)) mode = Inr m
           \<and> toStroops input mode = Inr (sign_val neg m)"
proof -
  have f0: "f \<noteq> []" using len by auto
  have ok: "decimal_string (js_trim input)"
    using s w f f0 by (simp add: decimal_stringI)
  obtain m where "roundDiv (int (digits_val (w @ f))) (10 ^ (length f - 7)) mode = Inr m"
    using rd.rdiv_returns [of "10 ^ (length f - 7)"] by fastforce
  moreover have "int (digits_val (w @ f)) = int (digits_val w) * 10 ^ length f + int (digits_val f)"
    by (simp add: digits_val_append)
  ultimately show ?thesis
    using ok w f f0 len unsign_digits [OF w(2) w(1), of neg "CHR ''.'' # f"]
    by (simp add: toStroops_def s Let_def js_split_digits SCALE_DECIMALS_def
        BigInt_digits sign_val_def)
qed

lemma toStroops_ok_iff: "is_ok (toStroops input mode) \<longleftrightarrow> decimal_string (js_trim input)"
proof
  show "is_ok (toStroops input mode) \<Longrightarrow> decimal_string (js_trim input)"
    by (auto simp: toStroops_def Let_def split: if_splits)
next
  assume "decimal_string (js_trim input)"
  then show "is_ok (toStroops input mode)"
    unfolding decimal_string_iff
  proof (elim disjE exE conjE)
    fix neg w f
    assume *: "js_trim input = sign_str neg @ w @ CHR ''.'' # f" "w \<noteq> []" "list_all is_digit w"
      "f \<noteq> []" "list_all is_digit f"
    then show ?thesis
      using toStroops_short [OF *, of mode] toStroops_long [OF *(1-3,5), of mode]
      by (cases "length f \<le> 7") auto
  qed (simp add: toStroops_whole)
qed

text \<open>\<open>fromStroops\<close> prints the sign, the whole part and seven fractional digits.\<close>

lemma fromStroops_form:
  "fromStroops v =
     sign_str (v < 0) @ show_nat (nat \<bar>v\<bar> div 10 ^ 7) @ CHR ''.'' #
       js_pad_start 7 CHR ''0'' (show_nat (nat \<bar>v\<bar> mod 10 ^ 7))"
proof -
  have "\<bar>v\<bar> sdiv SCALE = int (nat \<bar>v\<bar> div 10 ^ 7)" "\<bar>v\<bar> smod SCALE = int (nat \<bar>v\<bar> mod 10 ^ 7)"
    by (simp_all add: smod_eq sdiv_nonneg SCALE_def zdiv_int zmod_int minus_div_mult_eq_mod)
  moreover have "(if v < 0 then - v else v) = \<bar>v\<bar>" by simp
  ultimately show ?thesis
    unfolding fromStroops_def Let_def
    by (simp add: sign_str_def show_int_def SCALE_DECIMALS_def)
qed

lemma length_fraction: "length (js_pad_start 7 CHR ''0'' (show_nat (n mod 10 ^ 7))) = 7"
  using length_show_nat_le [of "n mod 10 ^ 7" 6] by simp

lemma fraction_digits: "list_all is_digit (js_pad_start 7 CHR ''0'' (show_nat n))"
  using show_nat_digits [of n] by (auto simp: js_pad_start_def list_all_iff)

lemma toStroops_fromStroops: "toStroops (fromStroops v) mode = Inr v"
proof -
  let ?w = "show_nat (nat \<bar>v\<bar> div 10 ^ 7)"
  let ?f = "js_pad_start 7 CHR ''0'' (show_nat (nat \<bar>v\<bar> mod 10 ^ 7))"
  have f: "?f \<noteq> []" by (simp add: js_pad_start_def)
  have "decimal_string (fromStroops v)"
    unfolding fromStroops_form using f fraction_digits by (intro decimal_stringI) simp_all
  then have form: "js_trim (fromStroops v) = sign_str (v < 0) @ ?w @ CHR ''.'' # ?f"
    by (simp add: js_trim_decimal fromStroops_form)
  have len: "length ?f = 7" by (rule length_fraction)
  from toStroops_short [OF form show_nat_not_Nil show_nat_digits f fraction_digits
      eq_refl [OF len], of mode]
  have "toStroops (fromStroops v) mode =
      Inr (sign_val (v < 0) (int (nat \<bar>v\<bar> div 10 ^ 7) * 10 ^ 7 + int (nat \<bar>v\<bar> mod 10 ^ 7)))"
    by (simp only: len diff_self_eq_0 power_0 mult_1_right digits_val_pad_start digits_val_show_nat)
  also have "int (nat \<bar>v\<bar> div 10 ^ 7) * 10 ^ 7 + int (nat \<bar>v\<bar> mod 10 ^ 7) = \<bar>v\<bar>"
    by (simp add: zdiv_int zmod_int)
  finally show ?thesis by (auto simp: sign_val_def)
qed

section \<open>Pro-rata allocation\<close>

text \<open>The inner loop returns the first unused entry with the largest remainder.\<close>

definition best_of :: "(int \<times> bool) list \<Rightarrow> nat \<Rightarrow> bool" where
  "best_of xs k \<longleftrightarrow>
     k < length xs \<and> \<not> snd (xs ! k) \<and>
     (\<forall>j < length xs. \<not> snd (xs ! j) \<longrightarrow>
        fst (xs ! j) < fst (xs ! k) \<or> (fst (xs ! j) = fst (xs ! k) \<and> k \<le> j))"

lemma best_index_spec:
  "(best_index i xs bi br = bi \<and> (\<forall>j < length xs. \<not> snd (xs ! j) \<longrightarrow> fst (xs ! j) \<le> br)) \<or>
   (\<exists>k. best_index i xs bi br = int (i + k) \<and> best_of xs k \<and> br < fst (xs ! k))"
proof (induction i xs bi br rule: best_index.induct)
  case (1 i bi br)
  then show ?case by simp
next
  case (2 i r u rs bi br)
  let ?bi = "if u \<or> r \<le> br then bi else int i"
  let ?br = "if u \<or> r \<le> br then br else r"
  have eq: "best_index i ((r, u) # rs) bi br = best_index (Suc i) rs ?bi ?br"
    by simp
  have IH: "(best_index (Suc i) rs ?bi ?br = ?bi \<and>
      (\<forall>j < length rs. \<not> snd (rs ! j) \<longrightarrow> fst (rs ! j) \<le> ?br)) \<or>
     (\<exists>k. best_index (Suc i) rs ?bi ?br = int (Suc i + k) \<and> best_of rs k \<and> ?br < fst (rs ! k))"
    using "2.IH" by (cases u; cases "br < r") auto
  then show ?case
  proof (elim disjE exE conjE)
    assume a: "best_index (Suc i) rs ?bi ?br = ?bi"
      "\<forall>j < length rs. \<not> snd (rs ! j) \<longrightarrow> fst (rs ! j) \<le> ?br"
    show ?thesis
    proof (cases "u \<or> r \<le> br")
      case True
      with a show ?thesis unfolding eq by (auto simp: All_less_Suc2)
    next
      case False
      with a have "best_of ((r, u) # rs) 0"
        by (auto simp: best_of_def All_less_Suc2 order_le_less)
      with a False show ?thesis unfolding eq by (intro disjI2 exI [of _ 0]) auto
    qed
  next
    fix k assume a: "best_index (Suc i) rs ?bi ?br = int (Suc i + k)" "best_of rs k"
      "?br < fst (rs ! k)"
    then have "best_of ((r, u) # rs) (Suc k) \<and> br < fst (rs ! k)"
      by (cases "u \<or> r \<le> br") (auto simp: best_of_def All_less_Suc2)
    with a show ?thesis unfolding eq by (intro disjI2 exI [of _ "Suc k"]) auto
  qed
qed

lemma best_index_found:
  assumes "\<forall>j < length xs. 0 \<le> fst (xs ! j)" "\<exists>j < length xs. \<not> snd (xs ! j)"
  shows "\<exists>k. best_index 0 xs (- 1) (- 1) = int k \<and> best_of xs k"
  using best_index_spec [of 0 xs "- 1" "- 1"] assms by force

text \<open>The loop marks one more entry per turn; its result is the floor shares plus one for each
  mark, and the marks are always the best entries.\<close>

definition bonus :: "int list \<Rightarrow> bool list \<Rightarrow> int list" where
  "bonus base used = map2 (\<lambda>b u. b + of_bool u) base used"

definition marks_best :: "int list \<Rightarrow> bool list \<Rightarrow> bool" where
  "marks_best rems used \<longleftrightarrow>
     (\<forall>i < length rems. \<forall>j < length rems. used ! i \<and> \<not> used ! j \<longrightarrow>
        rems ! j < rems ! i \<or> (rems ! j = rems ! i \<and> i < j))"

lemma length_bonus [simp]: "length (bonus base used) = min (length base) (length used)"
  by (simp add: bonus_def)

lemma bonus_nth:
  "i < length base \<Longrightarrow> length used = length base \<Longrightarrow> bonus base used ! i = base ! i + of_bool (used ! i)"
  by (simp add: bonus_def)

lemma bonus_mark:
  assumes "length used = length base" "k < length base" "\<not> used ! k"
  shows "(bonus base used)[k := bonus base used ! k + 1] = bonus base (used[k := True])"
  using assms by (intro nth_equalityI) (auto simp: bonus_nth nth_list_update)

lemma count_mark:
  "k < length used \<Longrightarrow> \<not> used ! k \<Longrightarrow>
     count_list (used[k := True]) False = count_list used False - 1 \<and> 0 < count_list used False"
proof (induction used arbitrary: k)
  case (Cons u us)
  show ?case
  proof (cases k)
    case (Suc j)
    then show ?thesis using Cons.IH [of j] Cons.prems by auto
  qed (use Cons.prems in auto)
qed simp

lemma sum_list_bonus:
  "length used = length base \<Longrightarrow>
     sum_list (bonus base used) = sum_list base + int (length used) - int (count_list used False)"
  by (induction used base rule: list_induct2) (auto simp: bonus_def)

lemma marks_best_step:
  assumes "marks_best rems used" "best_of (zip rems used) k" "length used = length rems"
  shows "marks_best rems (used[k := True])"
  using assms unfolding marks_best_def best_of_def
  by (auto simp: nth_list_update order_le_less)

lemma hand_out_correct:
  assumes "length used = length rems" "length base = length rems" "\<forall>r \<in> set rems. 0 \<le> r"
    and "n \<le> count_list used False" "marks_best rems used"
  shows "\<exists>used'. hand_out rems n used (bonus base used) = Inr (bonus base used')
           \<and> length used' = length rems \<and> count_list used' False = count_list used False - n
           \<and> marks_best rems used'"
  using assms
proof (induction n arbitrary: used)
  case 0
  then show ?case by auto
next
  case (Suc n)
  have "False \<in> set used" using Suc.prems(4) by (metis count_list_0_iff not_less_eq_eq zero_le)
  then have "\<exists>j < length (zip rems used). \<not> snd (zip rems used ! j)"
    using Suc.prems(1) by (auto simp: in_set_conv_nth)
  then obtain k where k: "best_index 0 (zip rems used) (- 1) (- 1) = int k" "best_of (zip rems used) k"
    using best_index_found [of "zip rems used"] Suc.prems(1,3) by auto
  let ?u = "used[k := True]"
  have kl: "k < length used" "\<not> used ! k" using k(2) Suc.prems(1) by (auto simp: best_of_def)
  have step: "hand_out rems (Suc n) used (bonus base used) = hand_out rems n ?u (bonus base ?u)"
    using kl Suc.prems(1,2) by (simp add: k(1) bonus_mark)
  have "n \<le> count_list ?u False" "marks_best rems ?u"
    using Suc.prems kl k(2) count_mark [of k used] by (auto intro: marks_best_step)
  with Suc.IH [of ?u] Suc.prems(1-3) obtain u' where
    "hand_out rems n ?u (bonus base ?u) = Inr (bonus base u')" "length u' = length rems"
    "count_list u' False = count_list ?u False - n" "marks_best rems u'"
    by auto
  with step count_mark [OF kl] show ?case by auto
qed

text \<open>The floor shares and their remainders.\<close>

lemma floor_alloc_eq:
  assumes "0 < W"
  shows "floor_alloc tot W ws parts rems alloc =
           Inr (parts @ map (\<lambda>w. tot * w div W) ws, rems @ map (\<lambda>w. tot * w mod W) ws,
                alloc + (\<Sum>w\<leftarrow>ws. tot * w div W))"
proof (induction ws arbitrary: parts rems alloc)
  case (Cons w ws)
  then show ?case
    using assms by (simp add: roundDiv_Floor minus_div_mult_eq_mod Let_def)
qed simp

lemma leftover_eq:
  "(\<Sum>w\<leftarrow>ws. tot * w mod W) = tot * sum_list ws - (\<Sum>w\<leftarrow>ws. tot * w div W) * (W::int)"
  by (induction ws) (auto simp: algebra_simps simp flip: minus_div_mult_eq_mod)

lemma sum_mod_bounds:
  "0 < (W::int) \<Longrightarrow> 0 \<le> (\<Sum>w\<leftarrow>ws. f w mod W) \<and> (ws \<noteq> [] \<longrightarrow> (\<Sum>w\<leftarrow>ws. f w mod W) < int (length ws) * W)"
proof (induction ws)
  case (Cons w ws)
  have "0 \<le> f w mod W" "f w mod W < W" using Cons.prems by simp_all
  with Cons show ?case by (cases ws) (auto simp: distrib_right)
qed simp

lemma leftover_bounds:
  fixes tot :: int
  assumes "0 < sum_list ws" "ws \<noteq> []"
  defines "W \<equiv> sum_list ws"
  defines "left \<equiv> tot - (\<Sum>w\<leftarrow>ws. tot * w div W)"
  shows "0 \<le> left \<and> left < int (length ws)"
proof -
  have "left * W = (\<Sum>w\<leftarrow>ws. tot * w mod W)"
    unfolding leftover_eq by (simp add: left_def W_def algebra_simps)
  moreover have "0 < W" using assms(1) by (simp add: W_def)
  ultimately have "0 \<le> left * W" "left * W < int (length ws) * W"
    using sum_mod_bounds [of W "\<lambda>w. tot * w" ws] assms(2) by auto
  with \<open>0 < W\<close> show ?thesis by (auto simp: zero_le_mult_iff mult_less_cancel_right)
qed

lemma splitProRata_spec:
  assumes "0 \<le> tot" "\<forall>w \<in> set ws. 0 \<le> w" "0 < sum_list ws"
  shows "\<exists>used. splitProRata tot ws = Inr (bonus (map (\<lambda>w. tot * w div sum_list ws) ws) used)
           \<and> length used = length ws
           \<and> sum_list (bonus (map (\<lambda>w. tot * w div sum_list ws) ws) used) = tot
           \<and> marks_best (map (\<lambda>w. tot * w mod sum_list ws) ws) used"
proof -
  let ?W = "sum_list ws"
  let ?base = "map (\<lambda>w. tot * w div ?W) ws"
  let ?rems = "map (\<lambda>w. tot * w mod ?W) ws"
  let ?n = "length ws"
  let ?left = "tot - sum_list ?base"
  have ne: "ws \<noteq> []" using assms(3) by auto
  have fold: "foldl (+) 0 ws = ?W" by (simp add: foldl_plus_sum_list)
  have left: "0 \<le> ?left" "?left < int ?n" using leftover_bounds [OF assms(3) ne] by auto
  have b0: "bonus ?base (replicate ?n False) = ?base"
    by (rule nth_equalityI) (auto simp: bonus_nth)
  have c0: "count_list (replicate ?n False) False = ?n" by simp
  have "\<exists>used'. hand_out ?rems (nat ?left) (replicate ?n False) (bonus ?base (replicate ?n False))
      = Inr (bonus ?base used') \<and> length used' = length ?rems
      \<and> count_list used' False = count_list (replicate ?n False) False - nat ?left
      \<and> marks_best ?rems used'"
    by (rule hand_out_correct)
       (use assms(3) left c0 in \<open>auto simp: marks_best_def\<close>)
  then obtain used where u: "hand_out ?rems (nat ?left) (replicate ?n False) ?base
      = Inr (bonus ?base used)" "length used = ?n" "count_list used False = ?n - nat ?left"
      "marks_best ?rems used"
    unfolding b0 c0 by auto
  have "splitProRata tot ws = Inr (bonus ?base used)"
    using assms ne left u(1) unfolding splitProRata_def
    by (simp add: fold floor_alloc_eq list_ex_iff Let_def not_less)
  moreover have "sum_list (bonus ?base used) = tot"
    using u(2,3) left by (simp add: sum_list_bonus of_nat_diff)
  ultimately show ?thesis using u(2,4) by auto
qed

section \<open>Properties\<close>

text \<open>An error of less than one unit determines the quotient up to the choice between the floor
  and its successor.\<close>

lemma half_unit_cases:
  assumes d: "0 < (d::int)" and h: "2 * \<bar>q * d - n\<bar> \<le> d"
  shows "q = n div d \<or> q = n div d + 1"
proof -
  let ?k = "q - n div d" and ?b = "n mod d"
  have b: "0 \<le> ?b" "?b < d" using d by simp_all
  have eq: "q * d - n = ?k * d - ?b"
    using minus_div_mult_eq_mod [of n d] by (simp add: algebra_simps)
  have bound: "2 * \<bar>x - b\<bar> \<le> d \<Longrightarrow> 0 \<le> b \<Longrightarrow> b < d \<Longrightarrow> x < 2 * d \<and> - 1 * d < x" for x b :: int
    by arith
  have "?k * d < 2 * d" "- 1 * d < ?k * d" using bound [OF h [unfolded eq] b] by blast+
  moreover note d
  ultimately have "?k < 2 \<and> - 1 < ?k" by (simp only: mult_less_cancel_right)
  then show ?thesis by linarith
qed

lemma half_unit_dist:
  assumes "0 < (d::int)"
  shows "\<bar>n div d * d - n\<bar> = n mod d" "\<bar>(n div d + 1) * d - n\<bar> = d - n mod d"
proof -
  have e: "n div d * d - n = - (n mod d)" "(n div d + 1) * d - n = d - n mod d"
    using minus_div_mult_eq_mod [of n d] by (simp_all add: distrib_right)
  have b: "0 \<le> n mod d" "n mod d < d" using assms by simp_all
  show "\<bar>n div d * d - n\<bar> = n mod d" unfolding e using b by linarith
  show "\<bar>(n div d + 1) * d - n\<bar> = d - n mod d" unfolding e using b by linarith
qed

lemma roundDiv_HalfEven_pos:
  assumes d: "0 < d"
  shows "roundDiv n d HalfEven = Inr q \<longleftrightarrow>
      (2 * \<bar>q * d - n\<bar> < d \<or> (2 * \<bar>q * d - n\<bar> = d \<and> even q))" (is "?L \<longleftrightarrow> ?R q")
proof -
  have "?R q \<Longrightarrow> q = n div d \<or> q = n div d + 1"
    by (rule half_unit_cases [OF d]) auto
  moreover have "?L \<Longrightarrow> q = n div d \<or> q = n div d + 1"
    by (auto simp: roundDiv_floor_form [OF d])
  moreover have "q = n div d \<Longrightarrow> ?L = ?R q" "q = n div d + 1 \<Longrightarrow> ?L = ?R q"
    by (auto simp: roundDiv_floor_form [OF d] goes_up_def half_unit_dist [OF d])
  ultimately show ?thesis by blast
qed

lemma half_up_above:
  fixes n d b :: int
  assumes "0 \<le> b" "b < d" "0 \<le> n \<Longrightarrow> b \<le> n" "n < 0 \<Longrightarrow> n - b + d \<le> 0"
  shows "(d < 2 * b \<or> d = 2 * b \<and> 0 \<le> n) \<longleftrightarrow>
        (2 * \<bar>n - b + d - n\<bar> < d \<or> 2 * \<bar>n - b + d - n\<bar> = d \<and> \<bar>n\<bar> < \<bar>n - b + d\<bar>)"
  using assms by (cases "0 \<le> n"; simp; arith)

lemma half_up_below:
  fixes n d b :: int
  assumes "0 \<le> b" "b < d" "0 \<le> n \<Longrightarrow> b \<le> n" "n < 0 \<Longrightarrow> n - b + d \<le> 0"
  shows "\<not> (d < 2 * b \<or> d = 2 * b \<and> 0 \<le> n) \<longleftrightarrow>
        (2 * \<bar>n - b - n\<bar> < d \<or> 2 * \<bar>n - b - n\<bar> = d \<and> \<bar>n\<bar> < \<bar>n - b\<bar>)"
  using assms by (cases "0 \<le> n"; simp; arith)

lemma roundDiv_HalfUp_pos:
  assumes d: "0 < d"
  shows "roundDiv n d HalfUp = Inr q \<longleftrightarrow>
      (2 * \<bar>q * d - n\<bar> < d \<or> (2 * \<bar>q * d - n\<bar> = d \<and> \<bar>n\<bar> < \<bar>q * d\<bar>))" (is "?L \<longleftrightarrow> ?R q")
proof -
  have b: "0 \<le> n mod d" "n mod d < d" using d by simp_all
  have e: "n div d * d = n - n mod d" by (simp add: minus_mod_eq_div_mult)
  then have e2: "(n div d + 1) * d = n - n mod d + d" by (simp add: distrib_right)
  have "0 \<le> n \<Longrightarrow> 0 \<le> n div d * d" "n < 0 \<Longrightarrow> (n div d + 1) * d \<le> 0"
    using d by (simp_all add: pos_imp_zdiv_nonneg_iff mult_le_0_iff pos_imp_zdiv_neg_iff zless_imp_add1_zle)
  then have s: "0 \<le> n \<Longrightarrow> n mod d \<le> n" "n < 0 \<Longrightarrow> n - n mod d + d \<le> 0"
    by (simp_all add: distrib_right e)
  have near: "?R q \<Longrightarrow> q = n div d \<or> q = n div d + 1"
    by (rule half_unit_cases [OF d]) auto
  have L: "?L \<longleftrightarrow> q = n div d + of_bool (d < 2 * (n mod d) \<or> d = 2 * (n mod d) \<and> 0 \<le> n)"
    by (auto simp: roundDiv_floor_form [OF d] goes_up_def)
  have R0: "?R (n div d) \<longleftrightarrow> \<not> (d < 2 * (n mod d) \<or> d = 2 * (n mod d) \<and> 0 \<le> n)"
    unfolding e using half_up_below [OF b s] by blast
  have R1: "?R (n div d + 1) \<longleftrightarrow> d < 2 * (n mod d) \<or> d = 2 * (n mod d) \<and> 0 \<le> n"
    unfolding e2 using half_up_above [OF b s] by blast
  consider "q = n div d" | "q = n div d + 1" | "\<not> (q = n div d \<or> q = n div d + 1)" by blast
  then show ?thesis
  proof cases
    case 1
    show ?thesis unfolding L unfolding 1 R0 by simp
  next
    case 2
    show ?thesis unfolding L unfolding 2 R1 by auto
  next
    case 3
    moreover have "\<not> ?L" unfolding L using 3 by (simp split: split_of_bool)
    ultimately show ?thesis using near by blast
  qed
qed

lemma roundDiv_zero: "roundDiv n 0 mode = Inl DivisionByZero"
  by (simp add: roundDiv_def)

lemma abs_flip: "\<bar>q * - d + n\<bar> = \<bar>q * d - (n::int)\<bar>"
  by (simp add: abs_minus_commute)

text \<open>In its default mode \<open>roundDiv\<close> returns the quotient nearest to \<open>num / den\<close>, the even one of two
  that are equally near, for every sign of the operands; it returns nothing else, and it fails
  only on a zero divisor.\<close>

theorem roundDiv_half_even:
  "roundDiv num den HalfEven = Inr q \<longleftrightarrow>
     den \<noteq> 0 \<and> (2 * \<bar>q * den - num\<bar> < \<bar>den\<bar> \<or> (2 * \<bar>q * den - num\<bar> = \<bar>den\<bar> \<and> even q))"
proof (cases den "0::int" rule: linorder_cases)
  case less
  then show ?thesis
    using roundDiv_HalfEven_pos [of "- den" "- num" q]
    by (simp add: roundDiv_minus_den abs_flip del: mult_minus_right)
qed (simp_all add: roundDiv_zero roundDiv_HalfEven_pos)

text \<open>The directed modes and the half-up mode meet their own specifications for every sign of
  the operands: floor and ceiling of the quotient, and nearest with ties away from zero.\<close>

theorem roundDiv_directed:
  "(roundDiv num den Floor = Inr q \<longleftrightarrow> den \<noteq> 0 \<and> q = num div den) \<and>
   (roundDiv num den Ceil = Inr q \<longleftrightarrow> den \<noteq> 0 \<and> q = - ((- num) div den)) \<and>
   (roundDiv num den HalfUp = Inr q \<longleftrightarrow>
      den \<noteq> 0 \<and> (2 * \<bar>q * den - num\<bar> < \<bar>den\<bar> \<or>
                  (2 * \<bar>q * den - num\<bar> = \<bar>den\<bar> \<and> \<bar>num\<bar> < \<bar>q * den\<bar>)))"
proof (cases den "0::int" rule: linorder_cases)
  case less
  have "roundDiv num den Floor = Inr (num div den)"
    using roundDiv_Floor [of "- den" "- num"] less by (simp add: roundDiv_minus_den)
  moreover have "roundDiv num den Ceil = Inr (- ((- num) div den))"
    using roundDiv_Ceil [of "- den" "- num"] less
      div_minus_minus [of "- num" den] by (simp add: roundDiv_minus_den)
  moreover have "roundDiv num den HalfUp = Inr q \<longleftrightarrow>
      (2 * \<bar>q * den - num\<bar> < \<bar>den\<bar> \<or>
        (2 * \<bar>q * den - num\<bar> = \<bar>den\<bar> \<and> \<bar>num\<bar> < \<bar>q * den\<bar>))"
    using roundDiv_HalfUp_pos [of "- den" "- num" q] less
    by (simp add: roundDiv_minus_den abs_flip del: mult_minus_right) (simp add: abs_mult)
  ultimately show ?thesis using less by auto
qed (auto simp: roundDiv_zero roundDiv_HalfUp_pos roundDiv_Floor roundDiv_Ceil)

text \<open>Printing an amount in stroops and parsing it back gives the same amount, in every rounding
  mode.\<close>

theorem stroops_roundtrip: "toStroops (fromStroops v) mode = Inr v"
  by (rule toStroops_fromStroops)

text \<open>\<open>toStroops\<close> fails exactly on the inputs that are not decimal numbers after trimming, and then with the
  invalid-amount error: neither the \<open>BigInt\<close> conversions nor the rounding can fail.\<close>

theorem toStroops_error:
  "(toStroops input mode = Inl e) \<longleftrightarrow>
     (\<not> decimal_string (js_trim input) \<and> e = InvalidDecimalAmount input)"
proof (cases "decimal_string (js_trim input)")
  case True
  then have "is_ok (toStroops input mode)" by (simp add: toStroops_ok_iff)
  with True show ?thesis by (auto elim: is_okE)
qed (auto simp: toStroops_def Let_def)

text \<open>A decimal number is converted to stroops with the precision of the asset: the result is
  within half a stroop of the exact value in the default mode, whatever the number of fractional
  digits. (The exact value is the digits without the point, divided by \<open>10 ^ length f\<close>, times
  \<open>10 ^ 7\<close>.)\<close>

theorem toStroops_accuracy:
  assumes "js_trim input = sign_str neg @ w @ CHR ''.'' # f"
    and "w \<noteq> []" "list_all is_digit w" "f \<noteq> []" "list_all is_digit f"
  shows "\<exists>m. toStroops input DEFAULT_MODE = Inr (sign_val neg m) \<and>
           2 * \<bar>m * 10 ^ length f - int (digits_val (w @ f)) * 10 ^ 7\<bar> \<le> 10 ^ length f"
proof (cases "length f \<le> 7")
  case True
  then have p: "(10::int) ^ (7 - length f) * 10 ^ length f = 10 ^ 7"
    using power_add [of "10::int" "7 - length f" "length f"] by simp
  let ?m = "int (digits_val w) * 10 ^ 7 + int (digits_val f) * 10 ^ (7 - length f)"
  have "?m * 10 ^ length f =
      int (digits_val w) * 10 ^ length f * 10 ^ 7
      + int (digits_val f) * (10 ^ (7 - length f) * 10 ^ length f)"
    by (simp add: algebra_simps)
  also have "\<dots> = int (digits_val (w @ f)) * 10 ^ 7"
    unfolding p by (simp add: digits_val_append algebra_simps)
  finally show ?thesis using toStroops_short [OF assms True, of DEFAULT_MODE] by auto
next
  case False
  then have p: "(10::int) ^ length f = 10 ^ (length f - 7) * 10 ^ 7"
    using power_add [of "10::int" "length f - 7" 7] by simp
  obtain m where m: "roundDiv (int (digits_val (w @ f))) (10 ^ (length f - 7)) HalfEven = Inr m"
    "toStroops input DEFAULT_MODE = Inr (sign_val neg m)"
    using toStroops_long [OF assms(1-3,5), of DEFAULT_MODE] False by (auto simp: DEFAULT_MODE_def)
  from m(1) have "2 * \<bar>m * 10 ^ (length f - 7) - int (digits_val (w @ f))\<bar> \<le> 10 ^ (length f - 7)"
    by (auto simp: roundDiv_HalfEven_pos)
  then have "2 * \<bar>m * 10 ^ (length f - 7) - int (digits_val (w @ f))\<bar> * 10 ^ 7
      \<le> 10 ^ (length f - 7) * 10 ^ 7"
    by (rule mult_right_mono) simp
  moreover have "\<bar>m * 10 ^ length f - int (digits_val (w @ f)) * 10 ^ 7\<bar>
      = \<bar>(m * 10 ^ (length f - 7) - int (digits_val (w @ f))) * 10 ^ 7\<bar>"
    unfolding p by (simp add: algebra_simps)
  ultimately have "2 * \<bar>m * 10 ^ length f - int (digits_val (w @ f)) * 10 ^ 7\<bar> \<le> 10 ^ length f"
    by (simp only: abs_mult abs_power2 abs_numeral power_abs p mult.assoc)
  then show ?thesis using m(2) by blast
qed

theorem toStroops_accuracy_witness:
  "\<exists>m. toStroops ''-0.00000015'' DEFAULT_MODE = Inr (sign_val True m) \<and>
     2 * \<bar>m * 10 ^ 8 - 15 * 10 ^ 7\<bar> \<le> 10 ^ 8"
  using toStroops_accuracy [of "''-0.00000015''" True "''0''" "''00000015''"]
  by (simp add: js_trim_def is_space_def sign_str_def is_digit_def digits_val_def digit_val_def)

text \<open>(C34) A pro-rata split hands out exactly the total: it succeeds on every non-negative total and
  non-negative weights with a positive sum, keeps one part per weight, never loses or creates a
  stroop, and every part is the floor of its exact share or one more.\<close>

theorem splitProRata_exact:
  assumes "0 \<le> tot" "\<forall>w \<in> set ws. 0 \<le> w" "0 < sum_list ws"
  shows "\<exists>parts. splitProRata tot ws = Inr parts \<and> length parts = length ws \<and> sum_list parts = tot
      \<and> (\<forall>i < length ws. parts ! i - tot * ws ! i div sum_list ws \<in> {0, 1})"
  using splitProRata_spec [OF assms] by (auto simp: bonus_nth)

theorem splitProRata_exact_witness:
  "\<exists>parts. splitProRata 100 [1, 1, 1] = Inr parts \<and> length parts = 3 \<and> sum_list parts = 100
      \<and> (\<forall>i < length [1, 1, 1 :: int].
            parts ! i - 100 * [1, 1, 1] ! i div sum_list [1, 1, 1] \<in> {0, 1})"
  using splitProRata_exact [of 100 "[1, 1, 1]"] by (simp add: numeral_3_eq_3)

text \<open>The leftover stroops of a split go to the largest remainders, ties to the lowest index: a part
  that was rounded up has a larger remainder than every part that was not, or the same one and an
  earlier position.\<close>

theorem splitProRata_largest_remainder:
  assumes "0 \<le> tot" "\<forall>w \<in> set ws. 0 \<le> w" "0 < sum_list ws" "splitProRata tot ws = Inr parts"
    and "i < length ws" "j < length ws"
    and "parts ! i = tot * ws ! i div sum_list ws + 1" "parts ! j = tot * ws ! j div sum_list ws"
  shows "tot * ws ! j mod sum_list ws < tot * ws ! i mod sum_list ws \<or>
         (tot * ws ! j mod sum_list ws = tot * ws ! i mod sum_list ws \<and> i < j)"
proof -
  let ?base = "map (\<lambda>w. tot * w div sum_list ws) ws"
  from splitProRata_spec [OF assms(1-3)] assms(4) obtain used
    where u: "parts = bonus ?base used" "length used = length ws"
      "marks_best (map (\<lambda>w. tot * w mod sum_list ws) ws) used"
    by auto
  then have "used ! i" "\<not> used ! j"
    using assms(5-8) by (auto simp: bonus_nth)
  with u(3) assms(5,6) show ?thesis unfolding marks_best_def by auto
qed

theorem splitProRata_largest_remainder_witness:
  "10 * [1, 2] ! 0 mod sum_list [1, 2] < 10 * [1, 2] ! 1 mod sum_list [1, 2 :: int] \<or>
   (10 * [1, 2] ! 0 mod sum_list [1, 2] = 10 * [1, 2] ! 1 mod sum_list [1, 2 :: int] \<and> (1::nat) < 0)"
  by (rule splitProRata_largest_remainder [of 10 "[1, 2]" "[3, 7]" 1 0])
     (simp_all add: splitProRata_def Let_def roundDiv_Floor numeral_2_eq_2)

end
