(* ===== verification/EventStore.thy ===== *)
theory EventStore
  imports Prelude
begin

text \<open>
  The \<open>contract_events\<close> table that the indexer writes and every other service reads: its rows,
  and the effect of \<open>INSERT ... ON CONFLICT DO NOTHING\<close> under the table's unique constraints
  (\<open>src/backend/migrations\<close>: the event id, the triple of loan, type and ledger, and one
  approval and one default per loan). A table is the list of its rows in insertion order.
\<close>

record event_row =
  event_id :: string
  event_type :: string
  loan_id :: "int option"
  address :: "string option"
  amount :: "int option"
  ledger :: int
  ledger_closed_at :: ms
  tx_hash :: string
  contract_id :: string
  interest_rate_bps :: "int option"
  term_ledgers :: "int option"

definition conflicts :: "event_row \<Rightarrow> event_row \<Rightarrow> bool" where
  "conflicts r r' \<longleftrightarrow>
     event_id r = event_id r' \<or>
     (loan_id r \<noteq> None \<and> loan_id r = loan_id r' \<and> event_type r = event_type r' \<and>
        (ledger r = ledger r' \<or> event_type r \<in> {''LoanApproved'', ''LoanDefaulted''}))"

definition unique_rows :: "event_row list \<Rightarrow> bool" where
  "unique_rows tbl \<longleftrightarrow> (\<forall>i < length tbl. \<forall>j < i. \<not> conflicts (tbl ! i) (tbl ! j))"

text \<open>The statement returns the new row, or no row when a constraint already holds it.\<close>

definition insert_event :: "event_row \<Rightarrow> event_row list \<Rightarrow> bool \<times> event_row list" where
  "insert_event r tbl = (if list_ex (conflicts r) tbl then (False, tbl) else (True, tbl @ [r]))"

lemma conflicts_sym: "conflicts r r' = conflicts r' r"
  by (auto simp: conflicts_def)

lemma conflicts_refl [simp]: "conflicts r r"
  by (simp add: conflicts_def)

lemma insert_event_unique:
  assumes "unique_rows tbl" "insert_event r tbl = (b, tbl')"
  shows "unique_rows tbl'"
  using assms unfolding insert_event_def unique_rows_def
  by (auto split: if_splits simp: nth_append list_ex_iff less_Suc_eq)

lemma insert_event_extends: "insert_event r tbl = (b, tbl') \<Longrightarrow> \<exists>ext. tbl' = tbl @ ext"
  by (auto simp: insert_event_def split: if_splits)

lemma insert_event_present: "insert_event r tbl = (b, tbl') \<Longrightarrow> list_ex (conflicts r) tbl'"
  by (auto simp: insert_event_def split: if_splits)

text \<open>Inserting twice is inserting once.\<close>

lemma insert_event_again:
  "insert_event r tbl = (b, tbl') \<Longrightarrow> insert_event r tbl' = (False, tbl')"
  by (auto simp: insert_event_def split: if_splits)

subsection \<open>Queries\<close>

definition rows_of :: "int \<Rightarrow> string \<Rightarrow> event_row list \<Rightarrow> event_row list" where
  "rows_of l t tbl = filter (\<lambda>r. loan_id r = Some l \<and> event_type r = t) tbl"

definition exists_event :: "int \<Rightarrow> string list \<Rightarrow> event_row list \<Rightarrow> bool" where
  "exists_event l ts tbl \<longleftrightarrow> list_ex (\<lambda>r. loan_id r = Some l \<and> event_type r \<in> set ts) tbl"

text \<open>\<open>MAX(...)\<close> of a column over a group: \<open>NULL\<close> when every value is \<open>NULL\<close>.\<close>

definition sql_max :: "int option list \<Rightarrow> int option" where
  "sql_max vs = (case List.map_filter id vs of [] \<Rightarrow> None | v # ws \<Rightarrow> Some (foldl max v ws))"

definition sql_min :: "int option list \<Rightarrow> int option" where
  "sql_min vs = (case List.map_filter id vs of [] \<Rightarrow> None | v # ws \<Rightarrow> Some (foldl min v ws))"

definition sql_sum :: "int option list \<Rightarrow> int" where
  "sql_sum vs = sum_list (List.map_filter id vs)"

lemma foldl_max_ge: "(v::int) \<le> foldl max v ws \<and> (\<forall>w \<in> set ws. w \<le> foldl max v ws)"
proof (induction ws arbitrary: v)
  case (Cons w ws)
  then have "max v w \<le> foldl max (max v w) ws" "\<forall>u \<in> set ws. u \<le> foldl max (max v w) ws" by blast+
  then show ?case by auto
qed simp

lemma foldl_max_in: "foldl max (v::int) ws \<in> insert v (set ws)"
proof (induction ws arbitrary: v)
  case (Cons w ws)
  have "foldl max (max v w) ws \<in> insert (max v w) (set ws)" by (rule Cons)
  then show ?case by (cases "v \<le> w") auto
qed simp

lemma sql_max_singleton [simp]: "sql_max [v] = v"
  by (cases v) (simp_all add: sql_max_def map_filter_simps)

lemma sql_max_Nil [simp]: "sql_max [] = None"
  by (simp add: sql_max_def map_filter_simps)

end
