(* ===== verification/LoanAccrual.thy ===== *)
theory LoanAccrual
  imports MoneyDecimal EventStore
begin

text \<open>
  Accrued interest and the two views of a loan that the API serves:
  \<open>src/backend/src/money/loanAccrual.ts\<close>, and from
  \<open>src/backend/src/controllers/loanController.ts\<close> the detail endpoint \<open>getLoanDetails\<close> and the
  SQL of the list endpoint \<open>getBorrowerLoans\<close>, both as functions of the indexed events.
\<close>

section \<open>Definitions\<close>

definition parseStroopAmount :: "string option \<Rightarrow> MoneyError + int" where
  "parseStroopAmount raw =
     (case raw of
        None \<Rightarrow> Inr 0
      | Some s \<Rightarrow>
          (if s = [] then Inr 0
           else
             (let pieces = js_split CHR ''.'' s;
                  wholeRaw = hd pieces;
                  fraction = (case tl pieces of [] \<Rightarrow> [] | f # _ \<Rightarrow> f);
                  whole = (if wholeRaw \<noteq> [] then wholeRaw else ''0'')
              in if fraction \<noteq> [] \<and> list_ex (\<lambda>c. is_digit c \<and> c \<noteq> CHR ''0'') fraction
                 then Inl (FractionalStroops s)
                 else BigInt whole)))"

definition remainingPrincipal :: "int \<Rightarrow> int \<Rightarrow> int" where
  "remainingPrincipal principalStroops totalRepaidStroops =
     (if principalStroops > totalRepaidStroops then principalStroops - totalRepaidStroops else 0)"

record accrual_params =
  remainingPrincipalStroops :: int
  interestRateBps :: int
  elapsedLedgers :: int
  termLedgers :: int

definition accrueInterest :: "accrual_params \<Rightarrow> MoneyError + int" where
  "accrueInterest p =
     (if remainingPrincipalStroops p \<le> 0 \<or> interestRateBps p \<le> 0 \<or> elapsedLedgers p \<le> 0
         \<or> termLedgers p \<le> 0
      then Inr 0
      else
        (let numerator = remainingPrincipalStroops p * interestRateBps p * elapsedLedgers p;
             denominator = 10000 * termLedgers p
         in roundDiv numerator denominator Floor))"

definition DEFAULT_TERM_LEDGERS :: int where "DEFAULT_TERM_LEDGERS = 17280"
definition DEFAULT_INTEREST_RATE_BPS :: int where "DEFAULT_INTEREST_RATE_BPS = 1200"

datatype loan_status = pending_indexing | defaulted | active | repaid

datatype view_error = LoanNotFound | Money MoneyError | SqlDivisionByZero

record loan_summary =
  sumPrincipal :: int
  sumAccrued :: "int option"
  sumRepaid :: int
  sumOwed :: "int option"
  sumRateBps :: int
  sumTermLedgers :: int
  sumElapsed :: int
  sumStatus :: loan_status
  disputeFrozen :: bool

text \<open>\<open>String(event.amount ?? '')\<close>: the driver returns a \<open>NUMERIC\<close> as its decimal digits.\<close>

definition amount_string :: "event_row \<Rightarrow> string" where
  "amount_string e = (case amount e of None \<Rightarrow> [] | Some a \<Rightarrow> show_int a)"

text \<open>\<open>x || d\<close> on a nullable number: zero is falsy too.\<close>

definition or_default :: "int option \<Rightarrow> int \<Rightarrow> int" where
  "or_default x d = (case x of None \<Rightarrow> d | Some v \<Rightarrow> if v = 0 then d else v)"

fun sum_amounts :: "event_row list \<Rightarrow> int \<Rightarrow> MoneyError + int" where
  "sum_amounts [] acc = Inr acc"
| "sum_amounts (e # es) acc =
     and_then (parseStroopAmount (Some (amount_string e))) (\<lambda>a. sum_amounts es (acc + a))"

text \<open>The ledger at which an open dispute froze accrual: that of the last event closed no later than
  the dispute. Events are in the order of the endpoint's \<open>ORDER BY\<close>.\<close>

definition freeze_ledger :: "event_row list \<Rightarrow> ms option \<Rightarrow> int option" where
  "freeze_ledger events dispute =
     (case dispute of
        None \<Rightarrow> None
      | Some created \<Rightarrow>
          (case filter (\<lambda>e. ledger_closed_at e \<le> created) events of
             [] \<Rightarrow> None
           | es \<Rightarrow> Some (ledger (last es))))"

definition getLoanDetails ::
  "event_row list \<Rightarrow> int \<Rightarrow> ms option \<Rightarrow> view_error + loan_summary" where
  "getLoanDetails events currentLedger dispute =
     (if events = [] then Inl LoanNotFound
      else
        (let requestEvent = find (\<lambda>e. event_type e = ''LoanRequested'') events;
             approvalEvents = filter (\<lambda>e. event_type e = ''LoanApproved'') events;
             approvalEvent = (if approvalEvents = [] then None else Some (last approvalEvents));
             repaymentEvents = filter (\<lambda>e. event_type e = ''LoanRepaid'') events;
             principalRaw = (case requestEvent of None \<Rightarrow> [] | Some e \<Rightarrow> amount_string e);
             rateBps = (case approvalEvent of None \<Rightarrow> DEFAULT_INTEREST_RATE_BPS
                          | Some e \<Rightarrow> or_default (interest_rate_bps e) DEFAULT_INTEREST_RATE_BPS);
             term = (case approvalEvent of None \<Rightarrow> DEFAULT_TERM_LEDGERS
                       | Some e \<Rightarrow> or_default (term_ledgers e) DEFAULT_TERM_LEDGERS);
             approvedLedger = (case approvalEvent of None \<Rightarrow> 0 | Some e \<Rightarrow> ledger e);
             freezeLedger = freeze_ledger events dispute;
             elapsed = (case freezeLedger of
                          Some l \<Rightarrow> max 0 (l - approvedLedger)
                        | None \<Rightarrow> max 0 (currentLedger - approvedLedger));
             isDefaulted = list_ex (\<lambda>e. event_type e = ''LoanDefaulted'') events;
             isPending = approvedLedger \<le> 0 \<or> currentLedger < approvedLedger
         in case parseStroopAmount (Some principalRaw) of Inl e \<Rightarrow> Inl (Money e)
          | Inr principalStroops \<Rightarrow>
            (case sum_amounts repaymentEvents 0 of Inl e \<Rightarrow> Inl (Money e)
             | Inr totalRepaidStroops \<Rightarrow>
               (let remaining = remainingPrincipal principalStroops totalRepaidStroops in
                case (if isPending then Inr 0
                      else accrueInterest \<lparr>remainingPrincipalStroops = remaining,
                             interestRateBps = rateBps, elapsedLedgers = elapsed,
                             termLedgers = term\<rparr>) of
                  Inl e \<Rightarrow> Inl (Money e)
                | Inr accrued \<Rightarrow>
                    (let totalOwed = remaining + accrued in
                     Inr \<lparr>sumPrincipal = principalStroops,
                          sumAccrued = (if isPending then None else Some accrued),
                          sumRepaid = totalRepaidStroops,
                          sumOwed = (if isPending then None else Some totalOwed),
                          sumRateBps = rateBps, sumTermLedgers = term, sumElapsed = elapsed,
                          sumStatus = (if isPending then pending_indexing
                                       else if isDefaulted then defaulted
                                       else if totalOwed > 0 then active else repaid),
                          disputeFrozen = (freezeLedger \<noteq> None)\<rparr>)))))"

text \<open>The row that the common table expressions of \<open>getBorrowerLoans\<close> compute for one group
  of events. An SQL \<open>NULL\<close> is \<open>None\<close>; \<open>GREATEST\<close> ignores it, arithmetic propagates it.\<close>

record loan_list_row =
  rowPrincipal :: "int option"
  rowAccrued :: int
  rowRepaid :: int
  rowOwed :: "int option"
  rowStatus :: loan_status

definition column :: "string \<Rightarrow> (event_row \<Rightarrow> int option) \<Rightarrow> event_row list \<Rightarrow> int option" where
  "column t f events = sql_max (map f (filter (\<lambda>e. event_type e = t) events))"

definition loan_list_view :: "event_row list \<Rightarrow> int \<Rightarrow> view_error + loan_list_row" where
  "loan_list_view events currentLedger =
     (let principal = column ''LoanRequested'' amount events;
          approved_ledger = column ''LoanApproved'' (\<lambda>e. Some (ledger e)) events;
          effective_rate_bps = (case column ''LoanApproved'' interest_rate_bps events of
                                  None \<Rightarrow> DEFAULT_INTEREST_RATE_BPS | Some r \<Rightarrow> r);
          effective_term_ledgers = (case column ''LoanApproved'' term_ledgers events of
                                      None \<Rightarrow> DEFAULT_TERM_LEDGERS | Some t \<Rightarrow> t);
          effective_approved_ledger = (case approved_ledger of None \<Rightarrow> 0 | Some l \<Rightarrow> l);
          total_repaid = sql_sum (map amount (filter (\<lambda>e. event_type e = ''LoanRepaid'') events));
          is_defaulted = list_ex (\<lambda>e. event_type e = ''LoanDefaulted'') events;
          base = (case principal of None \<Rightarrow> 0 | Some p \<Rightarrow> max 0 (p - total_repaid))
      in if effective_term_ledgers = 0 then Inl SqlDivisionByZero
         else
           (let accrued = base * effective_rate_bps * max 0 (currentLedger - effective_approved_ledger)
                            div (10000 * effective_term_ledgers);
                owed = map_option (\<lambda>p. p + accrued - total_repaid) principal
            in Inr \<lparr>rowPrincipal = principal, rowAccrued = accrued, rowRepaid = total_repaid,
                    rowOwed = owed,
                    rowStatus =
                      (if approved_ledger = None \<or> approved_ledger = Some 0
                          \<or> currentLedger < effective_approved_ledger then pending_indexing
                       else if is_defaulted then defaulted
                       else if (case owed of None \<Rightarrow> False | Some v \<Rightarrow> v > 0) then active
                       else repaid)\<rparr>))"

text \<open>The entry of the response that the endpoint makes of a row.\<close>

record borrower_loan =
  blPrincipal :: int
  blAccrued :: "int option"
  blRepaid :: int
  blOwed :: "int option"
  blStatus :: loan_status

definition borrower_loan_of :: "loan_list_row \<Rightarrow> borrower_loan" where
  "borrower_loan_of row =
     (let isPending = rowStatus row = pending_indexing in
      \<lparr>blPrincipal = (case rowPrincipal row of None \<Rightarrow> 0 | Some p \<Rightarrow> p),
       blAccrued = (if isPending then None else Some (rowAccrued row)),
       blRepaid = rowRepaid row,
       blOwed = (if isPending then None
                 else Some (case rowOwed row of None \<Rightarrow> 0 | Some v \<Rightarrow> v)),
       blStatus = rowStatus row\<rparr>)"

section \<open>Amounts\<close>

lemma show_int_no_point [simp]: "CHR ''.'' \<notin> set (show_int i)"
  using list_all_digit_notin [OF show_nat_digits] by (auto simp: show_int_def)

lemma parseStroopAmount_show: "parseStroopAmount (Some (show_int i)) = Inr i"
  by (simp add: parseStroopAmount_def js_split_none BigInt_def js_BigInt_show_int)

lemma parseStroopAmount_amount:
  "parseStroopAmount (Some (amount_string e)) = Inr (case amount e of None \<Rightarrow> 0 | Some a \<Rightarrow> a)"
  by (cases "amount e") (simp_all add: amount_string_def parseStroopAmount_show, simp add: parseStroopAmount_def)

lemma sum_amounts_eq: "sum_amounts es acc = Inr (acc + sql_sum (map amount es))"
  by (induction es arbitrary: acc)
     (auto simp: sql_sum_def map_filter_simps parseStroopAmount_amount split: option.splits)

text \<open>Every amount the table can hold parses, so the detail view never fails on an indexed loan.\<close>

lemma accrueInterest_eq:
  "accrueInterest p =
     Inr (if 0 < remainingPrincipalStroops p \<and> 0 < interestRateBps p \<and> 0 < elapsedLedgers p
             \<and> 0 < termLedgers p
          then remainingPrincipalStroops p * interestRateBps p * elapsedLedgers p
                 div (10000 * termLedgers p)
          else 0)"
  by (auto simp: accrueInterest_def roundDiv_Floor)

definition accrued :: "int \<Rightarrow> int \<Rightarrow> int \<Rightarrow> int \<Rightarrow> int" where
  "accrued prin rate elapsed term =
     (if 0 < prin \<and> 0 < rate \<and> 0 < elapsed \<and> 0 < term
      then prin * rate * elapsed div (10000 * term) else 0)"

lemma accrueInterest_accrued:
  "accrueInterest \<lparr>remainingPrincipalStroops = p, interestRateBps = r, elapsedLedgers = e,
                   termLedgers = t\<rparr> = Inr (accrued p r e t)"
  by (simp add: accrueInterest_eq accrued_def)

lemma accrued_nonneg: "0 \<le> accrued p r e t"
  by (simp add: accrued_def pos_imp_zdiv_nonneg_iff)

text \<open>Every amount the table can hold parses, so the detail view fails only on a loan without
  events.\<close>

lemma getLoanDetails_ok:
  assumes "events \<noteq> []"
  shows "\<exists>s. getLoanDetails events now d = Inr s"
proof -
  have p: "\<exists>a. parseStroopAmount (Some (case r of None \<Rightarrow> [] | Some e \<Rightarrow> amount_string e)) = Inr a" for r
    by (cases r) (simp_all add: parseStroopAmount_amount, simp add: parseStroopAmount_def)
  show ?thesis
    using assms p [of "find (\<lambda>e. event_type e = ''LoanRequested'') events"]
    unfolding getLoanDetails_def Let_def
    by (auto simp: sum_amounts_eq accrueInterest_accrued split: if_splits)
qed


section \<open>Properties\<close>

lemma accrued_roundDiv:
  "0 < p \<Longrightarrow> 0 < r \<Longrightarrow> 0 < e \<Longrightarrow> 0 < t \<Longrightarrow>
     roundDiv (p * r * e) (10000 * t) Floor = Inr (accrued p r e t)"
  by (simp add: accrued_def roundDiv_Floor)

lemma accrued_add:
  assumes "0 \<le> e1" "0 \<le> e2"
  shows "accrued p r e1 t + accrued p r e2 t \<le> accrued p r (e1 + e2) t \<and>
         accrued p r (e1 + e2) t \<le> accrued p r e1 t + accrued p r e2 t + 1"
proof (cases "0 < p \<and> 0 < r \<and> 0 < t \<and> 0 < e1 \<and> 0 < e2")
  case True
  then have "roundDiv (p * r * e1 + p * r * e2) (10000 * t) Floor = Inr (accrued p r (e1 + e2) t)"
    using accrued_roundDiv [of p r "e1 + e2" t] by (simp add: distrib_left)
  from fd.rdiv_add_le [OF _ accrued_roundDiv accrued_roundDiv this] True show ?thesis by simp
next
  case False
  then consider "\<not> (0 < p \<and> 0 < r \<and> 0 < t)" | "e1 = 0" | "e2 = 0" using assms by linarith
  then show ?thesis by cases (auto simp: accrued_def)
qed

text \<open>Interest accrues additively in time: what accrues over two consecutive periods is what accrues
  over their sum, up to one stroop that rounding down may withhold, never in the borrower's
  disfavour; so how often a balance is read never inflates it.\<close>

theorem accrual_additive:
  assumes "0 \<le> e1" "0 \<le> e2"
  shows "\<exists>a b c. accrueInterest \<lparr>remainingPrincipalStroops = p, interestRateBps = r,
              elapsedLedgers = e1, termLedgers = t\<rparr> = Inr a \<and>
            accrueInterest \<lparr>remainingPrincipalStroops = p, interestRateBps = r,
              elapsedLedgers = e2, termLedgers = t\<rparr> = Inr b \<and>
            accrueInterest \<lparr>remainingPrincipalStroops = p, interestRateBps = r,
              elapsedLedgers = e1 + e2, termLedgers = t\<rparr> = Inr c \<and>
            a + b \<le> c \<and> c \<le> a + b + 1"
  using accrued_add [OF assms] by (simp add: accrueInterest_accrued)

theorem accrual_additive_witness:
  "\<exists>a b c. accrueInterest \<lparr>remainingPrincipalStroops = 1000, interestRateBps = 1200,
              elapsedLedgers = 100, termLedgers = 17280\<rparr> = Inr a \<and>
            accrueInterest \<lparr>remainingPrincipalStroops = 1000, interestRateBps = 1200,
              elapsedLedgers = 200, termLedgers = 17280\<rparr> = Inr b \<and>
            accrueInterest \<lparr>remainingPrincipalStroops = 1000, interestRateBps = 1200,
              elapsedLedgers = 100 + 200, termLedgers = 17280\<rparr> = Inr c \<and>
            a + b \<le> c \<and> c \<le> a + b + 1"
  by (rule accrual_additive) simp_all

lemma find_filter: "find P xs = (case filter P xs of [] \<Rightarrow> None | x # _ \<Rightarrow> Some x)"
  by (induction xs) auto

lemma last_filter_mem: "filter P xs = [a] \<Longrightarrow> a \<in> set xs \<and> P a"
  by (metis filter_eq_Cons_iff in_set_conv_decomp)

lemma detail_closed_form:
  assumes "filter (\<lambda>e. event_type e = ''LoanRequested'') events = [q]" "amount q = Some p"
    and "filter (\<lambda>e. event_type e = ''LoanApproved'') events = [a]" "0 < ledger a"
  shows "getLoanDetails events now None = Inr
    (let rep = sql_sum (map amount (filter (\<lambda>e. event_type e = ''LoanRepaid'') events));
         rem = remainingPrincipal p rep;
         rate = or_default (interest_rate_bps a) DEFAULT_INTEREST_RATE_BPS;
         term = or_default (term_ledgers a) DEFAULT_TERM_LEDGERS;
         el = max 0 (now - ledger a); pend = now < ledger a;
         acc = (if pend then 0 else accrued rem rate el term)
     in \<lparr>sumPrincipal = p, sumAccrued = (if pend then None else Some acc), sumRepaid = rep,
         sumOwed = (if pend then None else Some (rem + acc)),
         sumRateBps = rate, sumTermLedgers = term, sumElapsed = el,
         sumStatus = (if pend then pending_indexing
                      else if list_ex (\<lambda>e. event_type e = ''LoanDefaulted'') events then defaulted
                      else if rem + acc > 0 then active else repaid),
         disputeFrozen = False\<rparr>)"
proof -
  have ne: "events \<noteq> []" using assms(1) by auto
  have f: "find (\<lambda>e. event_type e = ''LoanRequested'') events = Some q"
    by (simp add: find_filter assms(1))
  show ?thesis
    using assms(2,4) ne
    by (simp add: getLoanDetails_def Let_def f assms(3) parseStroopAmount_amount sum_amounts_eq
        accrueInterest_accrued freeze_ledger_def split del: if_split)
       (simp add: accrueInterest_accrued not_less split: if_split)
qed

lemma list_closed_form:
  assumes "filter (\<lambda>e. event_type e = ''LoanRequested'') events = [q]" "amount q = Some p"
    and "filter (\<lambda>e. event_type e = ''LoanApproved'') events = [a]" "0 < ledger a"
    and "interest_rate_bps a = None \<or> (\<exists>r. interest_rate_bps a = Some r \<and> 0 < r)"
    and "term_ledgers a = None \<or> (\<exists>t. term_ledgers a = Some t \<and> 0 < t)"
    and "sql_sum (map amount (filter (\<lambda>e. event_type e = ''LoanRepaid'') events)) \<le> p"
  shows "loan_list_view events now = Inr
    (let rep = sql_sum (map amount (filter (\<lambda>e. event_type e = ''LoanRepaid'') events));
         acc = accrued (p - rep) (or_default (interest_rate_bps a) DEFAULT_INTEREST_RATE_BPS)
                 (max 0 (now - ledger a)) (or_default (term_ledgers a) DEFAULT_TERM_LEDGERS)
     in \<lparr>rowPrincipal = Some p, rowAccrued = acc, rowRepaid = rep,
         rowOwed = Some (p - rep + acc),
         rowStatus = (if now < ledger a then pending_indexing
                      else if list_ex (\<lambda>e. event_type e = ''LoanDefaulted'') events then defaulted
                      else if p - rep + acc > 0 then active else repaid)\<rparr>)"
proof -
  have r: "(case interest_rate_bps a of None \<Rightarrow> DEFAULT_INTEREST_RATE_BPS | Some r \<Rightarrow> r)
      = or_default (interest_rate_bps a) DEFAULT_INTEREST_RATE_BPS"
    "0 < or_default (interest_rate_bps a) DEFAULT_INTEREST_RATE_BPS"
    using assms(5) by (auto simp: or_default_def DEFAULT_INTEREST_RATE_BPS_def)
  have t: "(case term_ledgers a of None \<Rightarrow> DEFAULT_TERM_LEDGERS | Some t \<Rightarrow> t)
      = or_default (term_ledgers a) DEFAULT_TERM_LEDGERS"
    "0 < or_default (term_ledgers a) DEFAULT_TERM_LEDGERS"
    using assms(6) by (auto simp: or_default_def DEFAULT_TERM_LEDGERS_def)
  have c: "column ''LoanRequested'' amount events = Some p"
    "column ''LoanApproved'' (\<lambda>e. Some (ledger e)) events = Some (ledger a)"
    "column ''LoanApproved'' interest_rate_bps events = interest_rate_bps a"
    "column ''LoanApproved'' term_ledgers events = term_ledgers a"
    by (simp_all add: column_def assms(1-3))
  have m: "max 0 (p - x) * y * max 0 z div (10000 * w) = accrued (p - x) y (max 0 z) w"
    if "x \<le> p" "0 < y" "0 < w" for x y z w
    using that by (auto simp: accrued_def max_def)
  show ?thesis
    using assms(4) t(2)
    unfolding loan_list_view_def Let_def c option.case r(1) t(1) m [OF assms(7) r(2) t(2)]
    by simp
qed


definition demo_event :: "string \<Rightarrow> int option \<Rightarrow> ledger \<Rightarrow> event_row" where
  "demo_event t amt l =
     \<lparr>event_id = t, event_type = t, loan_id = Some 1, address = Some ''GB'', amount = amt, ledger = l,
      ledger_closed_at = 5000 * l, tx_hash = [], contract_id = [],
      interest_rate_bps = (if t = ''LoanApproved'' then Some 900 else None), term_ledgers = None\<rparr>"


text \<open>An open dispute stops the clock: once an event of the loan precedes the dispute, the summary
  that the detail endpoint shows no longer depends on the current ledger, as long as the approval is
  already in the past; interest, amount owed and status stay what they were at the frozen ledger.\<close>

theorem dispute_freezes_accrual:
  assumes "freeze_ledger events (Some created) \<noteq> None"
    and "\<forall>e \<in> set events. event_type e = ''LoanApproved'' \<longrightarrow> ledger e \<le> now1 \<and> ledger e \<le> now2"
    and "0 \<le> now1" "0 \<le> now2"
  shows "getLoanDetails events now1 (Some created) = getLoanDetails events now2 (Some created)"
proof -
  obtain l where l: "freeze_ledger events (Some created) = Some l" using assms(1) by auto
  let ?as = "filter (\<lambda>e. event_type e = ''LoanApproved'') events"
  have a: "ledger (last ?as) \<le> now1 \<and> ledger (last ?as) \<le> now2" if "?as \<noteq> []"
    using assms(2) last_in_set [OF that] by auto
  then have "(case (if ?as = [] then None else Some (last ?as)) of None \<Rightarrow> 0 | Some e \<Rightarrow> ledger e) \<le> n"
    if "n \<in> {now1, now2}" for n
    using that assms(3,4) by auto
  then have p: "(n < (case (if ?as = [] then None else Some (last ?as)) of None \<Rightarrow> 0 | Some e \<Rightarrow> ledger e))
      = False"
    if "n \<in> {now1, now2}" for n
    using that by (meson leD)
  have "(now1 < (case (if ?as = [] then None else Some (last ?as)) of None \<Rightarrow> 0 | Some e \<Rightarrow> ledger e)) = False"
    "(now2 < (case (if ?as = [] then None else Some (last ?as)) of None \<Rightarrow> 0 | Some e \<Rightarrow> ledger e)) = False"
    using p by blast+
  then show ?thesis
    unfolding getLoanDetails_def Let_def l option.case by (simp only:)
qed

theorem dispute_freezes_accrual_witness:
  "getLoanDetails [demo_event ''LoanRequested'' (Some 5000) 10, demo_event ''LoanApproved'' None 12]
     9000 (Some 70000) =
   getLoanDetails [demo_event ''LoanRequested'' (Some 5000) 10, demo_event ''LoanApproved'' None 12]
     900000 (Some 70000)"
  by (rule dispute_freezes_accrual) (simp_all add: demo_event_def freeze_ledger_def)

end
