(* ===== verification/Json.thy ===== *)
theory Json
  imports Prelude "HOL-Library.List_Lexorder"
begin

text \<open>
  JSON values and \<open>JSON.stringify\<close>: what the fingerprints of requests, the payloads of webhooks and the
  parameters of queries are made of. The text of a value determines the value, even when it is the
  prefix of a longer text.
\<close>

section \<open>Definitions\<close>

datatype json =
    JNull
  | JBool bool
  | JNum int
  | JStr string
  | JArr "json list"
  | JObj "(string \<times> json) list"

definition hex_char :: "nat \<Rightarrow> char" where
  "hex_char d = (if d < 10 then char_of (48 + d) else char_of (87 + d))"

definition json_escape :: "char \<Rightarrow> string" where
  "json_escape c =
     (if c = CHR 0x22 then [CHR 0x5C, CHR 0x22]
      else if c = CHR 0x5C then [CHR 0x5C, CHR 0x5C]
      else if c = CHR 0x08 then [CHR 0x5C, CHR ''b'']
      else if c = CHR 0x0C then [CHR 0x5C, CHR ''f'']
      else if c = CHR 0x0A then [CHR 0x5C, CHR ''n'']
      else if c = CHR 0x0D then [CHR 0x5C, CHR ''r'']
      else if c = CHR 0x09 then [CHR 0x5C, CHR ''t'']
      else if (of_char c :: nat) < 32 then
        [CHR 0x5C, CHR ''u'', CHR ''0'', CHR ''0'', hex_char (of_char c div 16), hex_char (of_char c mod 16)]
      else [c])"

definition json_quote :: "string \<Rightarrow> string" where
  "json_quote s = CHR 0x22 # concat (map json_escape s) @ [CHR 0x22]"

fun stringify :: "json \<Rightarrow> string" where
  "stringify JNull = ''null''"
| "stringify (JBool b) = (if b then ''true'' else ''false'')"
| "stringify (JNum n) = show_int n"
| "stringify (JStr s) = json_quote s"
| "stringify (JArr vs) = ''['' @ js_join '','' (map stringify vs) @ '']''"
| "stringify (JObj kvs) =
     ''{'' @ js_join '','' (map (\<lambda>(k, v). json_quote k @ '':'' @ stringify v) kvs) @ ''}''"

fun js_truthy :: "json \<Rightarrow> bool" where
  "js_truthy JNull = False"
| "js_truthy (JBool b) = b"
| "js_truthy (JNum n) = (n \<noteq> 0)"
| "js_truthy (JStr s) = (s \<noteq> [])"
| "js_truthy (JArr vs) = True"
| "js_truthy (JObj kvs) = True"

definition field :: "string \<Rightarrow> json \<Rightarrow> json option" where
  "field k v = (case v of JObj kvs \<Rightarrow> map_of kvs k | _ \<Rightarrow> None)"

text \<open>The keys of an object are distinct.\<close>

fun wf_json :: "json \<Rightarrow> bool" where
  "wf_json (JArr vs) = list_all wf_json vs"
| "wf_json (JObj kvs) = (distinct (map fst kvs) \<and> list_all (\<lambda>(k, v). wf_json v) kvs)"
| "wf_json _ = True"

section \<open>Strings\<close>

text \<open>Reading one escaped character back.\<close>

definition hex_digit :: "char \<Rightarrow> nat" where
  "hex_digit c = (if (of_char c :: nat) < 58 then of_char c - 48 else of_char c - 87)"

definition short_escape :: "char \<Rightarrow> char" where
  "short_escape x =
     (if x = CHR ''b'' then CHR 0x08 else if x = CHR ''f'' then CHR 0x0C
      else if x = CHR ''n'' then CHR 0x0A else if x = CHR ''r'' then CHR 0x0D
      else if x = CHR ''t'' then CHR 0x09 else x)"

fun unescape :: "string \<Rightarrow> char \<times> string" where
  "unescape [] = (CHR 0x00, [])"
| "unescape (c # r) =
     (if c \<noteq> CHR 0x5C then (c, r)
      else if hd r = CHR ''u''
      then (char_of (16 * hex_digit (r ! 3) + hex_digit (r ! 4)), drop 5 r)
      else (short_escape (hd r), tl r))"

lemma hex_digit_char [simp]: assumes "d < 16" shows "hex_digit (hex_char d) = d"
proof (cases "d < 10")
  case True
  then have "(of_char (hex_char d) :: nat) = 48 + d" unfolding hex_char_def by simp
  with True show ?thesis unfolding hex_digit_def by simp
next
  case False
  then have "(of_char (hex_char d) :: nat) = 87 + d" unfolding hex_char_def using assms by simp
  with False show ?thesis unfolding hex_digit_def by simp
qed
lemma unescape_escape: "unescape (json_escape c @ r) = (c, r)"
proof (cases "c \<in> {CHR 0x22, CHR 0x5C, CHR 0x08, CHR 0x0C, CHR 0x0A, CHR 0x0D, CHR 0x09}")
  case True
  then show ?thesis
    by (elim insertE) (simp_all add: json_escape_def short_escape_def)
next
  case False
  then have e: "json_escape c = (if (of_char c :: nat) < 32 then
        [CHR 0x5C, CHR ''u'', CHR ''0'', CHR ''0'', hex_char (of_char c div 16), hex_char (of_char c mod 16)]
      else [c])" unfolding json_escape_def by simp
  show ?thesis
  proof (cases "(of_char c :: nat) < 32")
    case True
    then have l: "(of_char c :: nat) div 16 < 16" by simp
    have "unescape (json_escape c @ r) =
       (char_of (16 * hex_digit (hex_char (of_char c div 16)) + hex_digit (hex_char (of_char c mod 16))), r)"
      unfolding e using True by (simp del: of_char_of char_of_eq_iff)
    then show ?thesis using l by simp
  next
    case f: False
    with False show ?thesis unfolding e by simp
  qed
qed

lemma escape_inject:
  assumes "json_escape c @ r = json_escape d @ s"
  shows "c = d \<and> r = s"
  by (metis assms prod.inject unescape_escape)

lemma escape_hd: "\<exists>x xs. json_escape c = x # xs \<and> x \<noteq> CHR 0x22"
proof (cases "c \<in> {CHR 0x22, CHR 0x5C, CHR 0x08, CHR 0x0C, CHR 0x0A, CHR 0x0D, CHR 0x09}")
  case True
  then show ?thesis by (elim insertE) (simp_all add: json_escape_def)
next
  case False
  then have "json_escape c = (if (of_char c :: nat) < 32 then
        [CHR 0x5C, CHR ''u'', CHR ''0'', CHR ''0'', hex_char (of_char c div 16), hex_char (of_char c mod 16)]
      else [c])" unfolding json_escape_def by simp
  moreover have "CHR 0x5C \<noteq> CHR 0x22" "c \<noteq> CHR 0x22" using False by simp_all
  ultimately show ?thesis by metis
qed

lemma quote_not_escape: "CHR 0x22 # r \<noteq> json_escape c @ s"
  using escape_hd [of c] by auto

lemma concat_escape_inject:
  "concat (map json_escape k) @ CHR 0x22 # r = concat (map json_escape l) @ CHR 0x22 # s \<Longrightarrow>
     k = l \<and> r = s"
proof (induction k arbitrary: l)
  case Nil
  then show ?case
    by (cases l) (simp_all add: quote_not_escape)
next
  case (Cons c k)
  show ?case
  proof (cases l)
    case Nil
    with Cons.prems quote_not_escape [symmetric] show ?thesis by simp
  next
    case l: (Cons d l')
    with Cons.prems have "json_escape c @ concat (map json_escape k) @ CHR 0x22 # r
        = json_escape d @ concat (map json_escape l') @ CHR 0x22 # s" by simp
    from escape_inject [OF this] Cons.IH [of l'] l show ?thesis by auto
  qed
qed

lemma quote_inject: "json_quote k @ r = json_quote l @ s \<Longrightarrow> k = l \<and> r = s"
  unfolding json_quote_def using concat_escape_inject [of k r l s] by simp

section \<open>Numbers\<close>

text \<open>What can follow a value inside a larger text.\<close>

definition follows :: "string \<Rightarrow> bool" where
  "follows r \<longleftrightarrow> r = [] \<or> hd r \<in> {CHR '','', CHR '']'', CHR ''}''}"

lemma follows_simps [simp]:
  "follows []" "follows (CHR '','' # r)" "follows (CHR '']'' # r)" "follows (CHR ''}'' # r)"
  by (simp_all add: follows_def)

lemma follows_not_digit: "follows r \<Longrightarrow> r = [] \<or> \<not> is_digit (hd r)"
  by (auto simp: follows_def is_digit_def)

lemma takeWhile_prefix:
  "list_all P xs \<Longrightarrow> (r = [] \<or> \<not> P (hd r)) \<Longrightarrow> takeWhile P (xs @ r) = xs"
  by (induction xs) (cases r; auto)+

lemma digits_prefix:
  assumes "list_all is_digit a" "list_all is_digit b" "a @ r = b @ s" "follows r" "follows s"
  shows "a = b \<and> r = s"
proof -
  have "a = takeWhile is_digit (a @ r)" "b = takeWhile is_digit (b @ s)"
    using takeWhile_prefix [OF assms(1)] takeWhile_prefix [OF assms(2)]
      follows_not_digit [OF assms(4)] follows_not_digit [OF assms(5)] by simp_all
  with assms(3) show ?thesis by (metis same_append_eq)
qed

lemma show_nat_inject [simp]: "show_nat m = show_nat n \<longleftrightarrow> m = n"
  by (metis digits_val_show_nat)

lemma show_nat_hd: "\<exists>c cs. show_nat n = c # cs \<and> is_digit c"
  using show_nat_digits [of n] show_nat_not_Nil [of n]
  by (cases "show_nat n") (auto simp del: show_nat_digits)

lemma show_int_hd: "\<exists>c cs. show_int n = c # cs \<and> (is_digit c \<or> c = CHR ''-'')"
  using show_nat_hd [of "nat n"] by (cases "n < 0") (auto simp: show_int_def)

lemma show_nat_not_minus: "show_nat k @ t \<noteq> CHR ''-'' # u"
  using show_nat_hd [of k] by auto

lemma show_int_inject:
  assumes "show_int m @ r = show_int n @ s" "follows r" "follows s"
  shows "m = n \<and> r = s"
proof -
  have sgn: "m < 0 \<longleftrightarrow> n < 0"
    using assms(1) show_nat_not_minus show_nat_not_minus [symmetric]
    by (simp add: show_int_def split: if_splits)
  then have "show_nat (nat \<bar>m\<bar>) @ r = show_nat (nat \<bar>n\<bar>) @ s"
    using assms(1) by (simp add: show_int_def split: if_splits)
  from digits_prefix [OF show_nat_digits show_nat_digits this assms(2,3)]
  have "nat \<bar>m\<bar> = nat \<bar>n\<bar>" "r = s" by simp_all
  with sgn show ?thesis by (simp add: eq_nat_nat_iff) linarith
qed

section \<open>Texts of values\<close>

fun starts :: "json \<Rightarrow> char \<Rightarrow> bool" where
  "starts JNull c \<longleftrightarrow> c = CHR ''n''"
| "starts (JBool b) c \<longleftrightarrow> c = (if b then CHR ''t'' else CHR ''f'')"
| "starts (JNum n) c \<longleftrightarrow> is_digit c \<or> c = CHR ''-''"
| "starts (JStr s) c \<longleftrightarrow> c = CHR 0x22"
| "starts (JArr vs) c \<longleftrightarrow> c = CHR ''[''"
| "starts (JObj kvs) c \<longleftrightarrow> c = CHR ''{''"

lemma stringify_hd: "\<exists>c cs. stringify v = c # cs \<and> starts v c"
  using show_int_hd by (cases v) (auto simp: json_quote_def)

lemma not_digit_mark [simp]:
  "\<not> is_digit CHR ''n''" "\<not> is_digit CHR ''t''" "\<not> is_digit CHR ''f''" "\<not> is_digit CHR 0x22"
  "\<not> is_digit CHR ''[''" "\<not> is_digit CHR ''{''" "\<not> is_digit CHR '']''" "\<not> is_digit CHR ''}''"
  by (simp_all add: is_digit_def)

fun kind :: "json \<Rightarrow> nat" where
  "kind JNull = 0" | "kind (JBool b) = (if b then 1 else 2)" | "kind (JNum n) = 3"
| "kind (JStr s) = 4" | "kind (JArr vs) = 5" | "kind (JObj kvs) = 6"

lemma starts_kind: "starts v c \<Longrightarrow> starts w c \<Longrightarrow> kind v = kind w"
  by (cases v; cases w) (auto split: if_splits)

lemma starts_no_end: "starts v c \<Longrightarrow> c \<notin> {CHR '','', CHR '']'', CHR ''}''}"
  by (cases v) (auto simp: is_digit_def)

lemma stringify_kind: assumes "stringify v @ r = stringify w @ s" shows "kind v = kind w"
proof -
  obtain c cs d ds where "stringify v = c # cs" "starts v c" "stringify w = d # ds" "starts w d"
    using stringify_hd by blast
  moreover from this assms have "c = d" by (metis append_Cons list.inject)
  ultimately show ?thesis using starts_kind by blast
qed

lemma js_join_Cons: "js_join [c] (x # xs) = x @ concat (map (Cons c) xs)"
  by (induction xs arbitrary: x) auto

text \<open>A printer whose texts can be told apart inside a list.\<close>

definition separable :: "('a \<Rightarrow> string) \<Rightarrow> 'a set \<Rightarrow> bool" where
  "separable f A \<longleftrightarrow>
     (\<forall>a \<in> A. \<forall>b r s. f a @ r = f b @ s \<longrightarrow> follows r \<longrightarrow> follows s \<longrightarrow> a = b \<and> r = s) \<and>
     (\<forall>a. \<exists>c cs. f a = c # cs \<and> c \<notin> {CHR '','', CHR '']'', CHR ''}''})"

lemma separable_subset: "separable f A \<Longrightarrow> B \<subseteq> A \<Longrightarrow> separable f B"
  unfolding separable_def by (meson subsetD)

lemma separable_tail:
  assumes "separable f (set vs)" "e \<in> {CHR '']'', CHR ''}''}"
    and "concat (map (\<lambda>v. CHR '','' # f v) vs) @ e # r = concat (map (\<lambda>v. CHR '','' # f v) ws) @ e # s"
  shows "vs = ws \<and> r = s"
  using assms
proof (induction vs arbitrary: ws)
  case Nil
  then show ?case by (cases ws) auto
next
  case (Cons v vs)
  obtain w ws' where w: "ws = w # ws'" using Cons.prems(2,3) by (cases ws) auto
  let ?r = "concat (map (\<lambda>v. CHR '','' # f v) vs) @ e # r"
  let ?s = "concat (map (\<lambda>v. CHR '','' # f v) ws') @ e # s"
  have "follows ?r" "follows ?s" using Cons.prems(2) by (cases vs; cases ws'; auto)+
  moreover have "f v @ ?r = f w @ ?s" using Cons.prems(3) w by simp
  moreover have "\<forall>b r s. f v @ r = f b @ s \<longrightarrow> follows r \<longrightarrow> follows s \<longrightarrow> v = b \<and> r = s"
    using Cons.prems(1) unfolding separable_def by (meson list.set_intros(1))
  ultimately have "v = w \<and> ?r = ?s" by blast
  moreover have "separable f (set vs)" using Cons.prems(1) by (rule separable_subset) auto
  ultimately show ?case using Cons.IH [of ws'] Cons.prems(2) w by simp
qed

lemma separable_join:
  assumes "separable f (set vs)" "e \<in> {CHR '']'', CHR ''}''}"
    and "js_join '','' (map f vs) @ e # r = js_join '','' (map f ws) @ e # s"
  shows "vs = ws \<and> r = s"
proof -
  have hd: "\<exists>c cs. f a = c # cs \<and> c \<noteq> e" for a
    using assms(1,2) unfolding separable_def by (metis insertCI)
  have m: "concat (map (Cons CHR '','') (map f us)) = concat (map (\<lambda>v. CHR '','' # f v) us)" for us
    by (simp add: comp_def)
  show ?thesis
  proof (cases vs)
    case Nil
    with assms(3) hd show ?thesis
      by (cases ws) (auto simp: js_join_Cons, metis Cons_eq_append_conv list.inject)
  next
    case (Cons v vs')
    show ?thesis
    proof (cases ws)
      case Nil
      with assms(3) Cons hd [of v] show ?thesis by (auto simp: js_join_Cons)
    next
      case w: (Cons w ws')
      have "concat (map (\<lambda>v. CHR '','' # f v) vs) @ e # r = concat (map (\<lambda>v. CHR '','' # f v) ws) @ e # s"
        using assms(3) unfolding Cons w by (simp add: js_join_Cons comp_def)
      then show ?thesis by (rule separable_tail [OF assms(1,2)])
    qed
  qed
qed

definition entry_text :: "string \<times> json \<Rightarrow> string" where
  "entry_text p = json_quote (fst p) @ '':'' @ stringify (snd p)"

lemma stringify_inject:
  "stringify v @ r = stringify w @ s \<Longrightarrow> follows r \<Longrightarrow> follows s \<Longrightarrow> v = w \<and> r = s"
proof (induction v arbitrary: w r s)
  case JNull
  with stringify_kind [OF JNull(1)] show ?case by (cases w) (auto split: if_splits)
next
  case (JBool b)
  with stringify_kind [OF JBool(1)] show ?case by (cases w) (auto split: if_splits)
next
  case (JNum n)
  obtain m where w: "w = JNum m" using stringify_kind [OF JNum(1)] by (cases w) (auto split: if_splits)
  have "n = m \<and> r = s"
    by (rule show_int_inject [OF _ JNum(2,3)]) (use JNum(1) w in \<open>simp only: stringify.simps\<close>)
  with w show ?case by blast
next
  case (JStr k)
  obtain l where w: "w = JStr l" using stringify_kind [OF JStr(1)] by (cases w) (auto split: if_splits)
  have "k = l \<and> r = s" by (rule quote_inject) (use JStr(1) w in \<open>simp only: stringify.simps\<close>)
  with w show ?case by blast
next
  case (JArr vs)
  obtain ws where w: "w = JArr ws" using stringify_kind [OF JArr(2)] by (cases w) (auto split: if_splits)
  have "separable stringify (set vs)"
    unfolding separable_def using JArr.IH stringify_hd starts_no_end by blast
  moreover have "js_join '','' (map stringify vs) @ CHR '']'' # r
      = js_join '','' (map stringify ws) @ CHR '']'' # s"
    using JArr.prems(1) w by simp
  ultimately show ?case using separable_join w by blast
next
  case (JObj kvs)
  obtain ws where w: "w = JObj ws" using stringify_kind [OF JObj(2)] by (cases w) (auto split: if_splits)
  have "separable entry_text (set kvs)"
    unfolding separable_def
  proof (intro conjI ballI allI impI)
    fix p q r s
    assume p: "p \<in> set kvs" and e: "entry_text p @ r = entry_text q @ s" and "follows r" "follows s"
    have pq: "fst p = fst q \<and> CHR '':'' # stringify (snd p) @ r = CHR '':'' # stringify (snd q) @ s"
      by (rule quote_inject) (use e in \<open>simp only: entry_text_def append_assoc append_Cons append_Nil\<close>)
    have f: "fst p = fst q" using pq by (rule conjunct1)
    have t: "stringify (snd p) @ r = stringify (snd q) @ s"
      using conjunct2 [OF pq] by (rule list.inject [THEN iffD1, THEN conjunct2])
    have "snd p \<in> Basic_BNFs.snds p" by (cases p) simp
    from JObj.IH [OF p this t \<open>follows r\<close> \<open>follows s\<close>] f show "p = q" "r = s"
      by (simp_all add: prod_eq_iff)
  qed (simp add: entry_text_def json_quote_def)
  moreover have "js_join '','' (map entry_text kvs) @ CHR ''}'' # r
      = js_join '','' (map entry_text ws) @ CHR ''}'' # s"
    using JObj.prems(1) w by (simp add: entry_text_def [abs_def] case_prod_unfold)
  ultimately show ?case using separable_join w by blast
qed

lemma stringify_eq [simp]: "stringify v = stringify w \<longleftrightarrow> v = w"
  using stringify_inject [of v "[]" w "[]"] by auto

text \<open>In particular a text array of \<open>JSON.stringify\<close> starts with a bracket and a quote or bracket.\<close>

lemma stringify_strings:
  "\<exists>c cs. stringify (JArr (map JStr ss)) = CHR ''['' # c # cs \<and> c \<in> {CHR 0x22, CHR '']''}"
  by (cases ss; cases "tl ss") (auto simp: json_quote_def)

end
