(* ===== verification/CacheService.thy ===== *)
theory CacheService
  imports Json
begin

text \<open>
  \<open>src/backend/src/services/cacheService.ts\<close>: the cache over Redis that the locks, the login
  challenges, the revoked tokens and the idempotency records are kept in.

  Redis itself is not part of the repository: its commands are the fields of a record \<open>'s redis\<close>
  that every operation takes, and the locale \<open>redis_server\<close> states the documented behaviour of
  those commands over an abstraction of the server's state, a map from keys to values with an
  optional expiry. Whether the server answers during a call is the argument \<open>srv\<close>.
  \<open>JSON.parse\<close> inverts \<open>JSON.stringify\<close> and stringification is injective, so the model keeps a
  stored value as the \<open>json\<close> value it encodes.
\<close>

section \<open>Commands\<close>

record 's redis =
  GET :: "ms \<Rightarrow> key \<Rightarrow> 's \<Rightarrow> json option"
  SETEX :: "ms \<Rightarrow> key \<Rightarrow> seconds \<Rightarrow> json \<Rightarrow> 's \<Rightarrow> 's option"
  SETNX :: "ms \<Rightarrow> key \<Rightarrow> json \<Rightarrow> seconds \<Rightarrow> 's \<Rightarrow> 's option"
  DEL :: "key \<Rightarrow> 's \<Rightarrow> 's"
  INCR :: "ms \<Rightarrow> key \<Rightarrow> 's \<Rightarrow> (int \<times> 's) option"
  EXPIRE :: "ms \<Rightarrow> key \<Rightarrow> seconds \<Rightarrow> 's \<Rightarrow> 's"
  TTL :: "ms \<Rightarrow> key \<Rightarrow> 's \<Rightarrow> int"
  KEYS :: "ms \<Rightarrow> string \<Rightarrow> 's \<Rightarrow> key list"

datatype server = Up | Down

record 's cache =
  client :: 's
  isConnected :: bool

section \<open>Operations\<close>

text \<open>A command of a connected client fails when the server does not answer; the client's
  \<open>error\<close> event then resets \<open>isConnected\<close>. Every public operation catches the failure.\<close>

definition ensureConnected :: "server \<Rightarrow> 's cache \<Rightarrow> 's cache option" where
  "ensureConnected srv c =
     (if isConnected c then Some c
      else (case srv of Up \<Rightarrow> Some (c\<lparr>isConnected := True\<rparr>) | Down \<Rightarrow> None))"

definition connected_call ::
  "server \<Rightarrow> 's cache \<Rightarrow> 'a \<Rightarrow> ('s cache \<Rightarrow> 'a \<times> 's cache) \<Rightarrow> 'a \<times> 's cache" where
  "connected_call srv c onError body =
     (case ensureConnected srv c of
        None \<Rightarrow> (onError, c\<lparr>isConnected := False\<rparr>)
      | Some c' \<Rightarrow> (case srv of Up \<Rightarrow> body c' | Down \<Rightarrow> (onError, c'\<lparr>isConnected := False\<rparr>)))"

definition cache_set ::
  "'s redis \<Rightarrow> server \<Rightarrow> ms \<Rightarrow> key \<Rightarrow> json \<Rightarrow> seconds \<Rightarrow> 's cache \<Rightarrow> 's cache" where
  "cache_set R srv now k v ttlSeconds c =
     snd (connected_call srv c () (\<lambda>c.
       (case SETEX R now k ttlSeconds v (client c) of
          None \<Rightarrow> ((), c)
        | Some s \<Rightarrow> ((), c\<lparr>client := s\<rparr>))))"

definition cache_get :: "'s redis \<Rightarrow> server \<Rightarrow> ms \<Rightarrow> key \<Rightarrow> 's cache \<Rightarrow> json option \<times> 's cache" where
  "cache_get R srv now k c = connected_call srv c None (\<lambda>c. (GET R now k (client c), c))"

definition setNotExists ::
  "'s redis \<Rightarrow> server \<Rightarrow> ms \<Rightarrow> key \<Rightarrow> json \<Rightarrow> seconds \<Rightarrow> 's cache \<Rightarrow> bool \<times> 's cache" where
  "setNotExists R srv now k v ttlSeconds c =
     connected_call srv c False (\<lambda>c.
       (if \<not> isConnected c then (False, c)
        else (case SETNX R now k v ttlSeconds (client c) of
                None \<Rightarrow> (False, c)
              | Some s \<Rightarrow> (True, c\<lparr>client := s\<rparr>))))"

definition cache_delete :: "'s redis \<Rightarrow> server \<Rightarrow> key \<Rightarrow> 's cache \<Rightarrow> 's cache" where
  "cache_delete R srv k c =
     snd (connected_call srv c () (\<lambda>c. ((), c\<lparr>client := DEL R k (client c)\<rparr>)))"

definition COMPARE_AND_DELETE_SCRIPT ::
  "'s redis \<Rightarrow> ms \<Rightarrow> key \<Rightarrow> json \<Rightarrow> 's \<Rightarrow> int \<times> 's" where
  "COMPARE_AND_DELETE_SCRIPT R now k arg s =
     (case GET R now k s of
        None \<Rightarrow> (0, s)
      | Some stored \<Rightarrow> if stored = arg then (1, DEL R k s) else (0, s))"

definition deleteIfMatch ::
  "'s redis \<Rightarrow> server \<Rightarrow> ms \<Rightarrow> key \<Rightarrow> string \<Rightarrow> 's cache \<Rightarrow> bool \<times> 's cache" where
  "deleteIfMatch R srv now k expectedValue c =
     connected_call srv c False (\<lambda>c.
       (case COMPARE_AND_DELETE_SCRIPT R now k (JStr expectedValue) (client c) of
          (result, s) \<Rightarrow> (result = 1, c\<lparr>client := s\<rparr>)))"

definition invalidatePattern ::
  "'s redis \<Rightarrow> server \<Rightarrow> ms \<Rightarrow> string \<Rightarrow> 's cache \<Rightarrow> 's cache" where
  "invalidatePattern R srv now pattern c =
     snd (connected_call srv c () (\<lambda>c.
       ((), c\<lparr>client := fold (DEL R) (KEYS R now pattern (client c)) (client c)\<rparr>)))"

definition ping :: "server \<Rightarrow> 's cache \<Rightarrow> bool \<times> 's cache" where
  "ping srv c = connected_call srv c False (\<lambda>c. (True, c))"

definition cache_close :: "'s cache \<Rightarrow> 's cache" where
  "cache_close c = (if isConnected c then c\<lparr>isConnected := False\<rparr> else c)"

section \<open>The server\<close>

text \<open>The value of a key at a moment: an entry whose expiry has come counts as absent.\<close>

definition live :: "ms \<Rightarrow> (json \<times> ms option) option \<Rightarrow> json option" where
  "live now x =
     (case x of None \<Rightarrow> None
      | Some (v, e) \<Rightarrow> (case e of None \<Rightarrow> Some v | Some t \<Rightarrow> if now < t then Some v else None))"

lemma live_None [simp]: "live now None = None"
  by (simp add: live_def)

lemma live_persistent [simp]: "live now (Some (v, None)) = Some v"
  by (simp add: live_def)

lemma live_expiring [simp]: "live now (Some (v, Some t)) = (if now < t then Some v else None)"
  by (simp add: live_def)

lemma live_later: "live t x = None \<Longrightarrow> t \<le> t' \<Longrightarrow> live t' x = None"
  by (auto simp: live_def split: option.splits if_splits)

lemma live_earlier: "live t' x = Some v \<Longrightarrow> t \<le> t' \<Longrightarrow> live t x = Some v"
  by (auto simp: live_def split: option.splits if_splits)

text \<open>The documented behaviour of the commands, over the abstraction \<open>view\<close> of the server's state.\<close>

locale redis_server =
  fixes R :: "'s redis"
    and view :: "'s \<Rightarrow> key \<Rightarrow> (json \<times> ms option) option"
  assumes get_law: "GET R now k s = live now (view s k)"
    and setex_law: "0 < ttl \<Longrightarrow>
      \<exists>s'. SETEX R now k ttl v s = Some s' \<and> view s' = (view s)(k \<mapsto> (v, Some (now + 1000 * ttl)))"
    and setex_invalid: "ttl \<le> 0 \<Longrightarrow> SETEX R now k ttl v s = None"
    and setnx_law: "0 < ttl \<Longrightarrow> live now (view s k) = None \<Longrightarrow>
      \<exists>s'. SETNX R now k v ttl s = Some s' \<and> view s' = (view s)(k \<mapsto> (v, Some (now + 1000 * ttl)))"
    and setnx_held: "live now (view s k) = Some w \<Longrightarrow> SETNX R now k v ttl s = None"
    and setnx_invalid: "ttl \<le> 0 \<Longrightarrow> SETNX R now k v ttl s = None"
    and del_law: "view (DEL R k s) = (view s)(k := None)"
    and incr_fresh: "live now (view s k) = None \<Longrightarrow>
      \<exists>s'. INCR R now k s = Some (1, s') \<and> view s' = (view s)(k \<mapsto> (JNum 1, None))"
    and incr_count: "view s k = Some (JNum n, e) \<Longrightarrow> live now (view s k) = Some (JNum n) \<Longrightarrow>
      \<exists>s'. INCR R now k s = Some (n + 1, s') \<and> view s' = (view s)(k \<mapsto> (JNum (n + 1), e))"
    and expire_law: "0 < ttl \<Longrightarrow> live now (view s k) = Some v \<Longrightarrow>
      view (EXPIRE R now k ttl s) = (view s)(k \<mapsto> (v, Some (now + 1000 * ttl)))"
    and ttl_law: "view s k = Some (v, Some t) \<Longrightarrow> now < t \<Longrightarrow>
      \<bar>1000 * TTL R now k s - (t - now)\<bar> \<le> 1000"
begin

lemma setnx_iff: "(\<exists>s'. SETNX R now k v ttl s = Some s') \<longleftrightarrow> 0 < ttl \<and> live now (view s k) = None"
  using setnx_law setnx_held setnx_invalid by (metis not_le option.distinct(1) option.exhaust)

lemma setnx_view:
  "SETNX R now k v ttl s = Some s' \<Longrightarrow>
     0 < ttl \<and> live now (view s k) = None \<and>
     view s' = (view s)(k \<mapsto> (v, Some (now + 1000 * ttl)))"
  using setnx_law setnx_iff by (metis option.inject)

end

section \<open>Leases\<close>

text \<open>What the clients that use the cache for mutual exclusion rely on: a lease is granted only while
  nobody holds the key, it lasts for its time to live, and only its own token releases it.\<close>

locale lease_store =
  fixes acquire :: "ms \<Rightarrow> key \<Rightarrow> json \<Rightarrow> seconds \<Rightarrow> 'c \<Rightarrow> bool \<times> 'c"
    and release :: "ms \<Rightarrow> key \<Rightarrow> string \<Rightarrow> 'c \<Rightarrow> bool \<times> 'c"
    and holder :: "ms \<Rightarrow> key \<Rightarrow> 'c \<Rightarrow> json option"
  assumes acquire_iff: "fst (acquire now k v ttl c) \<longleftrightarrow> 0 < ttl \<and> holder now k c = None"
    and acquire_holds: "fst (acquire now k v ttl c) \<Longrightarrow>
      holder t k (snd (acquire now k v ttl c)) = (if t < now + 1000 * ttl then Some v else None)"
    and acquire_refused: "\<not> fst (acquire now k v ttl c) \<Longrightarrow>
      holder t j (snd (acquire now k v ttl c)) = holder t j c"
    and acquire_frame: "j \<noteq> k \<Longrightarrow> holder t j (snd (acquire now k v ttl c)) = holder t j c"
    and release_iff: "fst (release now k w c) \<longleftrightarrow> holder now k c = Some (JStr w)"
    and release_frees: "fst (release now k w c) \<Longrightarrow> holder t k (snd (release now k w c)) = None"
    and release_refused: "\<not> fst (release now k w c) \<Longrightarrow>
      holder t j (snd (release now k w c)) = holder t j c"
    and release_frame: "j \<noteq> k \<Longrightarrow> holder t j (snd (release now k w c)) = holder t j c"
    and holder_later: "holder t k c = None \<Longrightarrow> t \<le> t' \<Longrightarrow> holder t' k c = None"
begin

text \<open>Two acquisitions of one key within the time to live: the second is refused.\<close>

lemma mutual_exclusion:
  assumes "acquire t k v ttl c = (True, c')" "t' < t + 1000 * ttl"
  shows "\<not> fst (acquire t' k v' ttl' c')"
  using assms acquire_holds [of t k v ttl c t'] acquire_iff by simp

text \<open>A holder whose lease has run out cannot release the lease of its successor.\<close>

lemma stale_release_refused:
  assumes "acquire t k (JStr v) ttl c = (True, c')" "w \<noteq> v"
  shows "\<not> fst (release t' k w c')"
  using assms acquire_holds [of t k "JStr v" ttl c t'] release_iff by simp

lemma release_own:
  assumes "acquire t k (JStr v) ttl c = (True, c')" "t' < t + 1000 * ttl"
  shows "fst (release t' k v c') \<and> holder u k (snd (release t' k v c')) = None"
proof -
  have "holder t' k c' = Some (JStr v)"
    using assms acquire_holds [of t k "JStr v" ttl c t'] by simp
  then show ?thesis using release_iff release_frees by blast
qed

lemma release_once:
  assumes "release t k w c = (True, c')"
  shows "\<not> fst (release t' k w c')"
  using assms release_frees [of t k w c t'] release_iff by simp

end

definition held :: "('s \<Rightarrow> key \<Rightarrow> (json \<times> ms option) option) \<Rightarrow> ms \<Rightarrow> key \<Rightarrow> 's cache \<Rightarrow> json option" where
  "held view now k c = live now (view (client c) k)"

lemma connected_call_Up [simp]:
  "connected_call Up c e body = body (c\<lparr>isConnected := True\<rparr>)"
  by (cases c) (simp add: connected_call_def ensureConnected_def)

lemma connected_call_Down [simp]:
  "connected_call Down c e body = (e, c\<lparr>isConnected := False\<rparr>)"
  by (simp add: connected_call_def ensureConnected_def)

sublocale redis_server \<subseteq> lease: lease_store "setNotExists R Up" "deleteIfMatch R Up" "held view"
proof
  fix now k v ttl and c :: "'s cache" and t j w t'
  show "fst (setNotExists R Up now k v ttl c) \<longleftrightarrow> 0 < ttl \<and> held view now k c = None"
    using setnx_iff [of now k v ttl "client c"]
    by (auto simp: setNotExists_def held_def split: option.splits)
  show "held view t k (snd (setNotExists R Up now k v ttl c)) =
      (if t < now + 1000 * ttl then Some v else None)"
    if "fst (setNotExists R Up now k v ttl c)"
    using that setnx_view [of now k v ttl "client c"]
    by (auto simp: setNotExists_def held_def split: option.splits)
  show "held view t j (snd (setNotExists R Up now k v ttl c)) = held view t j c"
    if "\<not> fst (setNotExists R Up now k v ttl c)"
    using that by (auto simp: setNotExists_def held_def split: option.splits)
  show "held view t j (snd (setNotExists R Up now k v ttl c)) = held view t j c" if "j \<noteq> k"
    using that setnx_view [of now k v ttl "client c"]
    by (auto simp: setNotExists_def held_def split: option.splits)
  show "fst (deleteIfMatch R Up now k w c) \<longleftrightarrow> held view now k c = Some (JStr w)"
    by (auto simp: deleteIfMatch_def COMPARE_AND_DELETE_SCRIPT_def held_def get_law
             split: option.splits)
  show "held view t k (snd (deleteIfMatch R Up now k w c)) = None"
    if "fst (deleteIfMatch R Up now k w c)"
    using that by (auto simp: deleteIfMatch_def COMPARE_AND_DELETE_SCRIPT_def held_def del_law
                        split: option.splits if_splits)
  show "held view t j (snd (deleteIfMatch R Up now k w c)) = held view t j c"
    if "\<not> fst (deleteIfMatch R Up now k w c)"
    using that by (auto simp: deleteIfMatch_def COMPARE_AND_DELETE_SCRIPT_def held_def
                        split: option.splits if_splits)
  show "held view t j (snd (deleteIfMatch R Up now k w c)) = held view t j c" if "j \<noteq> k"
    using that by (auto simp: deleteIfMatch_def COMPARE_AND_DELETE_SCRIPT_def held_def del_law
                        split: option.splits if_splits)
  show "held view t' k c = None" if "held view t k c = None" "t \<le> t'"
    using that live_later unfolding held_def by blast
qed

context redis_server
begin

lemma is_lease_store: "lease_store (setNotExists R Up) (deleteIfMatch R Up) (held view)"
  by (rule lease.lease_store_axioms)

end

text \<open>An in-memory server with these commands: the concrete parameter of the witnesses.\<close>

type_synonym mem_state = "key \<Rightarrow> (json \<times> ms option) option"

definition mem_redis :: "mem_state redis" where
  "mem_redis =
     \<lparr>GET = (\<lambda>now k s. live now (s k)),
      SETEX = (\<lambda>now k ttl v s.
        if ttl \<le> 0 then None else Some (s(k \<mapsto> (v, Some (now + 1000 * ttl))))),
      SETNX = (\<lambda>now k v ttl s.
        if ttl \<le> 0 \<or> live now (s k) \<noteq> None then None
        else Some (s(k \<mapsto> (v, Some (now + 1000 * ttl))))),
      DEL = (\<lambda>k s. s(k := None)),
      INCR = (\<lambda>now k s.
        case live now (s k) of
          None \<Rightarrow> Some (1, s(k \<mapsto> (JNum 1, None)))
        | Some v \<Rightarrow> (case v of JNum n \<Rightarrow> Some (n + 1, s(k \<mapsto> (JNum (n + 1), snd (the (s k)))))
                   | _ \<Rightarrow> None)),
      EXPIRE = (\<lambda>now k ttl s.
        case live now (s k) of None \<Rightarrow> s
        | Some v \<Rightarrow> if ttl \<le> 0 then s(k := None) else s(k \<mapsto> (v, Some (now + 1000 * ttl)))),
      TTL = (\<lambda>now k s.
        case s k of None \<Rightarrow> - 2
        | Some (v, e) \<Rightarrow> (case e of None \<Rightarrow> - 1
                        | Some t \<Rightarrow> if now < t then (t - now + 500) div 1000 else - 2)),
      KEYS = (\<lambda>now pattern s. if live now (s pattern) = None then [] else [pattern])\<rparr>"

definition mem_view :: "mem_state \<Rightarrow> key \<Rightarrow> (json \<times> ms option) option" where
  "mem_view s = s"

interpretation mem: redis_server mem_redis mem_view
  by unfold_locales (auto simp: mem_redis_def mem_view_def split: option.splits)

lemma redis_server_mem: "redis_server mem_redis mem_view"
  by (rule mem.redis_server_axioms)

section \<open>Reading back\<close>

lemma cache_get_Up:
  assumes "redis_server R view"
  shows "fst (cache_get R Up now k c) = held view now k c"
proof -
  have "GET R now k (client c) = live now (view (client c) k)" for k
    using assms by (rule redis_server.get_law)
  then show ?thesis by (simp add: cache_get_def held_def)
qed

end
