(* ===== verification/RateLimit.thy ===== *)
theory RateLimit
  imports CacheService
begin

text \<open>
  \<open>src/backend/src/services/rateLimitService.ts\<close> and
  \<open>src/backend/src/middleware/rateLimitMiddleware.ts\<close>: fixed-window counters in Redis and the
  middleware that blocks a request or lets it pass. The service has a Redis client of its own,
  with the same connection flag as the cache.
\<close>

section \<open>Definitions\<close>

record rl_config =
  maxRequests :: int
  windowSeconds :: seconds

record rl_result =
  allowed :: bool
  remaining :: int
  resetTime :: ms
  currentCount :: int

definition DEFAULT_CONFIG :: rl_config where
  "DEFAULT_CONFIG = \<lparr>maxRequests = 10, windowSeconds = 86400\<rparr>"

definition SCORE_UPDATE_RATE_LIMIT :: rl_config where
  "SCORE_UPDATE_RATE_LIMIT = \<lparr>maxRequests = 5, windowSeconds = 86400\<rparr>"

text \<open>The Lua script: the counter starts its window with the first request.\<close>

definition INCR_AND_EXPIRE_SCRIPT ::
  "'s redis \<Rightarrow> ms \<Rightarrow> key \<Rightarrow> seconds \<Rightarrow> 's \<Rightarrow> ((int \<times> int) \<times> 's) option" where
  "INCR_AND_EXPIRE_SCRIPT R now k window s =
     (case INCR R now k s of
        None \<Rightarrow> None
      | Some (count, s1) \<Rightarrow>
          (let s2 = (if count = 1 then EXPIRE R now k window s1 else s1)
           in Some ((count, TTL R now k s2), s2)))"

definition rate_key :: "string \<Rightarrow> key" where
  "rate_key identifier = ''rate_limit:'' @ identifier"

definition reset_time :: "ms \<Rightarrow> int \<Rightarrow> rl_config \<Rightarrow> ms" where
  "reset_time now ttlSeconds cfg =
     now + (if ttlSeconds > 0 then ttlSeconds else windowSeconds cfg) * 1000"

definition checkRateLimit ::
  "'s redis \<Rightarrow> server \<Rightarrow> ms \<Rightarrow> string \<Rightarrow> rl_config \<Rightarrow> 's cache \<Rightarrow> rl_result \<times> 's cache" where
  "checkRateLimit R srv now identifier cfg c =
     (let failOpen = \<lparr>allowed = True, remaining = maxRequests cfg - 1,
                      resetTime = now + windowSeconds cfg * 1000, currentCount = 1\<rparr>
      in connected_call srv c failOpen (\<lambda>c.
           (case INCR_AND_EXPIRE_SCRIPT R now (rate_key identifier) (windowSeconds cfg) (client c) of
              None \<Rightarrow> (failOpen, c)
            | Some ((count, ttlSeconds), s) \<Rightarrow>
                (\<lparr>allowed = count < maxRequests cfg,
                  remaining = max 0 (maxRequests cfg - count),
                  resetTime = reset_time now ttlSeconds cfg,
                  currentCount = count\<rparr>, c\<lparr>client := s\<rparr>))))"

definition resetRateLimit :: "'s redis \<Rightarrow> server \<Rightarrow> string \<Rightarrow> 's cache \<Rightarrow> 's cache" where
  "resetRateLimit R srv identifier c =
     snd (connected_call srv c () (\<lambda>c. ((), c\<lparr>client := DEL R (rate_key identifier) (client c)\<rparr>)))"

text \<open>The status carries no \<open>currentCount\<close>: the triple is allowed, remaining, reset time.\<close>

definition getRateLimitStatus ::
  "'s redis \<Rightarrow> server \<Rightarrow> ms \<Rightarrow> string \<Rightarrow> rl_config \<Rightarrow> 's cache \<Rightarrow> (bool \<times> int \<times> ms) \<times> 's cache" where
  "getRateLimitStatus R srv now identifier cfg c =
     (let fresh = (True, maxRequests cfg, now + windowSeconds cfg * 1000)
      in connected_call srv c fresh (\<lambda>c.
           (case GET R now (rate_key identifier) (client c) of
              Some (JNum count) \<Rightarrow>
                ((count < maxRequests cfg, max 0 (maxRequests cfg - count),
                  reset_time now (TTL R now (rate_key identifier) (client c)) cfg), c)
            | _ \<Rightarrow> (fresh, c))))"

datatype rl_outcome =
    Skipped
  | Proceed rl_result
  | RateLimitExceeded string rl_result
  | FailedOpen

definition createRateLimitMiddleware ::
  "'s redis \<Rightarrow> server \<Rightarrow> ms \<Rightarrow> bool \<Rightarrow> string option \<Rightarrow> rl_config \<Rightarrow> string \<Rightarrow> 's cache
     \<Rightarrow> rl_outcome \<times> 's cache" where
  "createRateLimitMiddleware R srv now skip identifier cfg errorMessage c =
     (if skip then (Skipped, c)
      else (case identifier of
              None \<Rightarrow> (FailedOpen, c)
            | Some i \<Rightarrow>
                (case checkRateLimit R srv now i cfg c of
                   (result, c') \<Rightarrow>
                     (if \<not> allowed result then (RateLimitExceeded errorMessage result, c')
                      else (Proceed result, c')))))"

text \<open>The default extractor takes a non-empty \<open>userId\<close> from the body.\<close>

definition body_identifier :: "string option \<Rightarrow> string option" where
  "body_identifier userId = (case userId of None \<Rightarrow> None | Some u \<Rightarrow> if u = [] then None else Some u)"

definition scoreUpdateRateLimit ::
  "'s redis \<Rightarrow> server \<Rightarrow> ms \<Rightarrow> string option \<Rightarrow> 's cache \<Rightarrow> rl_outcome \<times> 's cache" where
  "scoreUpdateRateLimit R srv now userId c =
     createRateLimitMiddleware R srv now False (body_identifier userId) SCORE_UPDATE_RATE_LIMIT
       ''Too many score updates. Maximum 5 updates allowed per user per day.'' c"

definition createIpRateLimitMiddleware ::
  "'s redis \<Rightarrow> server \<Rightarrow> ms \<Rightarrow> string option \<Rightarrow> rl_config \<Rightarrow> 's cache \<Rightarrow> rl_outcome \<times> 's cache" where
  "createIpRateLimitMiddleware R srv now ip cfg c =
     createRateLimitMiddleware R srv now False (map_option ((@) ''ip:'') (body_identifier ip)) cfg
       (''Too many requests. Maximum '' @ show_int (maxRequests cfg) @ '' requests allowed per hour.'') c"

text \<open>Requests of one identifier at the given times, in order.\<close>

fun run_checks ::
  "'s redis \<Rightarrow> string \<Rightarrow> rl_config \<Rightarrow> ms list \<Rightarrow> 's cache \<Rightarrow> rl_result list \<times> 's cache" where
  "run_checks R i cfg [] c = ([], c)"
| "run_checks R i cfg (t # ts) c =
     (case checkRateLimit R Up t i cfg c of
        (r, c') \<Rightarrow> (case run_checks R i cfg ts c' of (rs, c'') \<Rightarrow> (r # rs, c'')))"

section \<open>Counting within a window\<close>

context redis_server
begin

lemma check_first:
  assumes "live t (view (client c) (rate_key i)) = None" "0 < windowSeconds cfg"
  shows "\<exists>r c'. checkRateLimit R Up t i cfg c = (r, c') \<and> currentCount r = 1 \<and>
           allowed r = (1 < maxRequests cfg) \<and>
           view (client c') = (view (client c))
             (rate_key i \<mapsto> (JNum 1, Some (t + 1000 * windowSeconds cfg)))"
proof -
  obtain s1 where s1: "INCR R t (rate_key i) (client c) = Some (1, s1)"
    "view s1 = (view (client c))(rate_key i \<mapsto> (JNum 1, None))"
    using incr_fresh [OF assms(1)] by blast
  have "view (EXPIRE R t (rate_key i) (windowSeconds cfg) s1) = (view (client c))
      (rate_key i \<mapsto> (JNum 1, Some (t + 1000 * windowSeconds cfg)))"
    using expire_law [OF assms(2), of t s1 "rate_key i" "JNum 1"] s1(2) by simp
  then show ?thesis
    by (simp add: checkRateLimit_def INCR_AND_EXPIRE_SCRIPT_def s1(1) Let_def)
qed

lemma check_next:
  assumes "view (client c) (rate_key i) = Some (JNum n, Some e)" "t < e" "0 < n"
  shows "\<exists>r c'. checkRateLimit R Up t i cfg c = (r, c') \<and> currentCount r = n + 1 \<and>
           allowed r = (n + 1 < maxRequests cfg) \<and>
           view (client c') = (view (client c))(rate_key i \<mapsto> (JNum (n + 1), Some e))"
proof -
  have l: "live t (view (client c) (rate_key i)) = Some (JNum n)" using assms by simp
  obtain s1 where "INCR R t (rate_key i) (client c) = Some (n + 1, s1)"
    "view s1 = (view (client c))(rate_key i \<mapsto> (JNum (n + 1), Some e))"
    using incr_count [OF assms(1) l] by blast
  then show ?thesis
    using assms(3) by (simp add: checkRateLimit_def INCR_AND_EXPIRE_SCRIPT_def Let_def)
qed

lemma run_checks_counts:
  assumes "view (client c) (rate_key i) = Some (JNum n, Some e)" "0 < n" "\<forall>t \<in> set ts. t < e"
  shows "map currentCount (fst (run_checks R i cfg ts c)) = map (\<lambda>j. n + 1 + int j) [0..<length ts] \<and>
         map allowed (fst (run_checks R i cfg ts c))
           = map (\<lambda>j. n + 1 + int j < maxRequests cfg) [0..<length ts]"
  using assms
proof (induction ts arbitrary: c n)
  case (Cons t ts)
  obtain r c' where r: "checkRateLimit R Up t i cfg c = (r, c')" "currentCount r = n + 1"
    "allowed r = (n + 1 < maxRequests cfg)"
    "view (client c') = (view (client c))(rate_key i \<mapsto> (JNum (n + 1), Some e))"
    using check_next [of c i n e t cfg] Cons.prems by auto
  have u: "[0..<length (t # ts)] = 0 # map Suc [0..<length ts]"
    by (simp add: upt_conv_Cons map_Suc_upt del: upt_Suc)
  have "map currentCount (fst (run_checks R i cfg ts c'))
          = map (\<lambda>j. n + 1 + 1 + int j) [0..<length ts] \<and>
        map allowed (fst (run_checks R i cfg ts c'))
          = map (\<lambda>j. n + 1 + 1 + int j < maxRequests cfg) [0..<length ts]"
    by (rule Cons.IH) (use r(4) Cons.prems in auto)
  then show ?case unfolding u by (simp add: r split_def add.commute add.left_commute)
qed simp

lemma run_checks_window:
  assumes "live t (view (client c) (rate_key i)) = None" "0 < windowSeconds cfg"
    and "\<forall>u \<in> set ts. u < t + 1000 * windowSeconds cfg"
  shows "map currentCount (fst (run_checks R i cfg (t # ts) c))
           = map (\<lambda>j. int (Suc j)) [0..<length (t # ts)] \<and>
         map allowed (fst (run_checks R i cfg (t # ts) c))
           = map (\<lambda>j. int (Suc j) < maxRequests cfg) [0..<length (t # ts)]"
proof -
  obtain r c' where r: "checkRateLimit R Up t i cfg c = (r, c')" "currentCount r = 1"
    "allowed r = (1 < maxRequests cfg)"
    "view (client c') = (view (client c))(rate_key i \<mapsto> (JNum 1, Some (t + 1000 * windowSeconds cfg)))"
    using check_first [OF assms(1,2)] by blast
  have u: "[0..<length (t # ts)] = 0 # map Suc [0..<length ts]"
    by (simp add: upt_conv_Cons map_Suc_upt del: upt_Suc)
  show ?thesis
    using run_checks_counts [of c' i 1 "t + 1000 * windowSeconds cfg" ts cfg] r(4) assms(3)
    unfolding u by (simp add: r(1-3) split_def)
qed

end

section \<open>Properties\<close>

text \<open>In one window of a live Redis the limiter counts every request of an identifier exactly once,
  and the \<open>j\<close>-th request passes exactly while \<open>j < maxRequests\<close>: of \<open>n\<close> requests the first
  \<open>maxRequests - 1\<close> pass and all later ones are blocked until the window ends. The comparison is
  strict, so one request fewer passes than the documented maximum.\<close>

theorem rate_limit_window:
  assumes "redis_server R view" "live t (view (client c) (rate_key i)) = None"
    and "0 < windowSeconds cfg" "\<forall>u \<in> set ts. u < t + 1000 * windowSeconds cfg"
  shows "map currentCount (fst (run_checks R i cfg (t # ts) c))
           = map (\<lambda>j. int (Suc j)) [0..<length (t # ts)] \<and>
         map allowed (fst (run_checks R i cfg (t # ts) c))
           = map (\<lambda>j. int (Suc j) < maxRequests cfg) [0..<length (t # ts)]"
  by (rule redis_server.run_checks_window [OF assms(1)]) (use assms in auto)

theorem rate_limit_window_witness:
  "map allowed (fst (run_checks mem_redis ''G1'' SCORE_UPDATE_RATE_LIMIT [0, 1, 2, 3, 4]
     \<lparr>client = (\<lambda>_. None), isConnected = True\<rparr>)) = [True, True, True, True, False]"
  using rate_limit_window [OF redis_server_mem, of 0 "\<lparr>client = (\<lambda>_. None), isConnected = True\<rparr>" "''G1''"
      SCORE_UPDATE_RATE_LIMIT "[1, 2, 3, 4]"]
  by (simp add: mem_view_def SCORE_UPDATE_RATE_LIMIT_def upt_rec)

text \<open>The limiter fails open: while Redis does not answer, every score update with a user id
  passes, whatever the counter holds, and the counter is left alone; with Redis up, the middleware
  blocks a request exactly when the counter has reached the maximum.\<close>

theorem rate_limit_fail_open:
  "(\<exists>r. createRateLimitMiddleware R Down now False (Some i) cfg msg c
          = (Proceed r, c\<lparr>isConnected := False\<rparr>)) \<and>
   (\<forall>r c'. createRateLimitMiddleware R Up now False (Some i) cfg msg c = (RateLimitExceeded msg r, c')
      \<longleftrightarrow> checkRateLimit R Up now i cfg c = (r, c') \<and> maxRequests cfg \<le> currentCount r
           \<and> INCR R now (rate_key i) (client c) \<noteq> None)"
  by (auto simp: createRateLimitMiddleware_def checkRateLimit_def INCR_AND_EXPIRE_SCRIPT_def Let_def
           split: option.splits prod.splits)

end
