(* ===== verification/AppErrors.thy ===== *)
theory AppErrors
  imports Prelude
begin

text \<open>
  The errors that handlers and middleware raise: \<open>src/backend/src/errors/AppError.ts\<close>, with the
  default error codes of its factory methods, and \<open>Thrown\<close> for a plain \<open>Error\<close>. The environment
  variables that the modelled code reads are the fields of the record \<open>env\<close>.
\<close>

datatype http_error =
    AppError nat string string "string option"
  | Thrown string

fun statusCode :: "http_error \<Rightarrow> nat" where
  "statusCode (AppError s m c f) = s"
| "statusCode (Thrown m) = 500"

definition badRequest :: "string \<Rightarrow> string option \<Rightarrow> string option \<Rightarrow> http_error" where
  "badRequest m code fld =
     AppError 400 m (case code of None \<Rightarrow> ''INVALID_AMOUNT'' | Some c \<Rightarrow> c) fld"

definition unauthorized :: "string \<Rightarrow> string option \<Rightarrow> http_error" where
  "unauthorized m code = AppError 401 m (case code of None \<Rightarrow> ''UNAUTHORIZED'' | Some c \<Rightarrow> c) None"

definition forbidden :: "string \<Rightarrow> string option \<Rightarrow> http_error" where
  "forbidden m code = AppError 403 m (case code of None \<Rightarrow> ''FORBIDDEN'' | Some c \<Rightarrow> c) None"

definition notFound :: "string \<Rightarrow> string option \<Rightarrow> string option \<Rightarrow> http_error" where
  "notFound m code fld = AppError 404 m (case code of None \<Rightarrow> ''NOT_FOUND'' | Some c \<Rightarrow> c) fld"

definition conflict :: "string \<Rightarrow> string option \<Rightarrow> http_error" where
  "conflict m code = AppError 409 m (case code of None \<Rightarrow> ''CONFLICT'' | Some c \<Rightarrow> c) None"

definition internal :: "string \<Rightarrow> string option \<Rightarrow> http_error" where
  "internal m code = AppError 500 m (case code of None \<Rightarrow> ''INTERNAL_ERROR'' | Some c \<Rightarrow> c) None"

definition serviceUnavailable :: "string \<Rightarrow> string option \<Rightarrow> http_error" where
  "serviceUnavailable m code =
     AppError 503 m (case code of None \<Rightarrow> ''SERVICE_UNAVAILABLE'' | Some c \<Rightarrow> c) None"

lemmas app_error_defs =
  badRequest_def unauthorized_def forbidden_def notFound_def conflict_def internal_def
  serviceUnavailable_def

record env =
  ADMIN_WALLETS :: "string option"
  LENDER_WALLETS :: "string option"
  INTERNAL_API_KEY :: "string option"
  JWT_SECRET :: "string option"
  JWT_COOKIE_NAME :: "string option"
  NODE_ENV :: "string option"

text \<open>An unset variable and an empty one are both falsy.\<close>

definition env_set :: "string option \<Rightarrow> string option" where
  "env_set v = (case v of None \<Rightarrow> None | Some s \<Rightarrow> if s = [] then None else Some s)"

definition is_test :: "env \<Rightarrow> bool" where
  "is_test E \<longleftrightarrow> NODE_ENV E = Some ''test''"

end
