(* ===== verification/Rbac.thy ===== *)
theory Rbac
  imports AppErrors
begin

text \<open>
  Roles, scopes and access checks: \<open>src/backend/src/auth/rbac.ts\<close>, the guards of
  \<open>src/backend/src/middleware/jwtAuth.ts\<close> that look at an authenticated user, the API keys of
  \<open>src/backend/src/middleware/auth.ts\<close>, and the loan ownership checks of
  \<open>src/backend/src/middleware/loanAccess.ts\<close>. A guard returns the error it throws, or \<open>Inr\<close> when it
  calls \<open>next()\<close>.
\<close>

section \<open>Roles and scopes\<close>

datatype user_role = admin | borrower | lender

fun ROLE_SCOPES :: "user_role \<Rightarrow> string list" where
  "ROLE_SCOPES admin = [''admin:all'']"
| "ROLE_SCOPES borrower =
     [''read:loans'', ''write:loans'', ''read:score'', ''read:notifications'',
      ''write:notifications'', ''read:remittances'', ''write:remittances'']"
| "ROLE_SCOPES lender = [''read:loans'', ''read:pool'', ''write:loans'']"

definition parseWalletSet :: "string option \<Rightarrow> string set" where
  "parseWalletSet wallets =
     (case env_set wallets of None \<Rightarrow> {}
      | Some s \<Rightarrow> set (filter (\<lambda>w. length w > 0) (map js_trim (js_split CHR '','' s))))"

definition resolveRoleForWallet :: "env \<Rightarrow> string \<Rightarrow> user_role" where
  "resolveRoleForWallet E publicKey =
     (if publicKey \<in> parseWalletSet (ADMIN_WALLETS E) then admin
      else if publicKey \<in> parseWalletSet (LENDER_WALLETS E) then lender
      else borrower)"

definition resolveScopesForRole :: "user_role \<Rightarrow> string list" where
  "resolveScopesForRole r = (if r = admin then ROLE_SCOPES r else ROLE_SCOPES r)"

section \<open>Tokens' contents and guards\<close>

record jwt_claims =
  publicKey :: string
  role :: user_role
  scopes :: "string list"
  jti :: string

record jwt_payload = jwt_claims +
  iat :: seconds
  expires :: seconds

definition capPayloadToCurrentRole :: "env \<Rightarrow> jwt_payload \<Rightarrow> jwt_payload" where
  "capPayloadToCurrentRole E payload =
     (let currentRole = resolveRoleForWallet E (publicKey payload);
          currentRoleScopes = set (resolveScopesForRole currentRole)
      in payload\<lparr>role := currentRole,
                 scopes := filter (\<lambda>s. s \<in> currentRoleScopes) (scopes payload)\<rparr>)"

type_synonym request_user = "jwt_payload option"

text \<open>\<open>req.user?.publicKey\<close>, when it is truthy.\<close>

definition wallet_of :: "request_user \<Rightarrow> string option" where
  "wallet_of u = (case u of None \<Rightarrow> None | Some p \<Rightarrow> env_set (Some (publicKey p)))"

definition auth_required :: http_error where
  "auth_required = unauthorized ''Authentication required'' None"

text \<open>\<open>a ?? b\<close>\<close>

definition js_nullish :: "'a option \<Rightarrow> 'a option \<Rightarrow> 'a option" where
  "js_nullish a b = (case a of None \<Rightarrow> b | Some x \<Rightarrow> Some x)"

definition requireWalletOwnership ::
  "request_user \<Rightarrow> string option \<Rightarrow> string option \<Rightarrow> string option \<Rightarrow> http_error + unit" where
  "requireWalletOwnership user paramBorrower paramWallet bodyWallet =
     (case wallet_of user of
        None \<Rightarrow> Inl auth_required
      | Some authenticated \<Rightarrow>
          (case env_set (js_nullish paramBorrower (js_nullish paramWallet bodyWallet)) of
             None \<Rightarrow> Inl (badRequest ''Wallet address is required'' None None)
           | Some requested \<Rightarrow>
               (if requested \<noteq> authenticated
                then Inl (forbidden ''You are not authorized to access this wallet'' None)
                else Inr ())))"

definition requireWalletParamMatchesJwt ::
  "string \<Rightarrow> request_user \<Rightarrow> string option \<Rightarrow> http_error + unit" where
  "requireWalletParamMatchesJwt paramName user param =
     (case wallet_of user of
        None \<Rightarrow> Inl auth_required
      | Some authenticated \<Rightarrow>
          (case env_set param of
             None \<Rightarrow> Inl (badRequest (paramName @ '' is required'') None None)
           | Some requested \<Rightarrow>
               (if requested \<noteq> authenticated
                then Inl (forbidden ''You are not authorized to access this resource'' None)
                else Inr ())))"

definition requireBorrower :: "request_user \<Rightarrow> http_error + unit" where
  "requireBorrower user =
     (case wallet_of user of None \<Rightarrow> Inl auth_required
      | Some _ \<Rightarrow>
          (if role (the user) \<noteq> borrower \<and> role (the user) \<noteq> admin
           then Inl (forbidden ''Borrower role required'' None) else Inr ()))"

definition requireLender :: "request_user \<Rightarrow> http_error + unit" where
  "requireLender user =
     (case wallet_of user of None \<Rightarrow> Inl auth_required
      | Some _ \<Rightarrow>
          (if role (the user) \<noteq> lender \<and> role (the user) \<noteq> admin
           then Inl (forbidden ''Lender role required'' None) else Inr ()))"

definition requireRoles :: "user_role list \<Rightarrow> request_user \<Rightarrow> http_error + unit" where
  "requireRoles rs user =
     (case wallet_of user of None \<Rightarrow> Inl auth_required
      | Some _ \<Rightarrow>
          (if role (the user) \<notin> set rs
           then Inl (forbidden ''Insufficient role permissions'' None) else Inr ()))"

text \<open>An empty scope name would be falsy in \<open>if (missingScope)\<close>.\<close>

definition requireScopes :: "string list \<Rightarrow> request_user \<Rightarrow> http_error + unit" where
  "requireScopes requiredScopes user =
     (case wallet_of user of None \<Rightarrow> Inl auth_required
      | Some _ \<Rightarrow>
          (let grantedScopes = set (scopes (the user)) in
           if ''admin:all'' \<in> grantedScopes then Inr ()
           else (case env_set (find (\<lambda>s. s \<notin> grantedScopes) requiredScopes) of
                   Some missing \<Rightarrow> Inl (forbidden (''Missing required scope: '' @ missing) None)
                 | None \<Rightarrow> Inr ())))"

section \<open>API keys\<close>

record parsed_key =
  keyScope :: "string option"
  keyValue :: string

text \<open>\<open>entry.indexOf(':', from)\<close>: \<open>None\<close> for \<open>-1\<close>.\<close>

fun index_of :: "char \<Rightarrow> string \<Rightarrow> nat \<Rightarrow> nat option" where
  "index_of c [] i = None"
| "index_of c (x # xs) i = (if x = c then Some i else index_of c xs (Suc i))"

definition parse_key :: "string \<Rightarrow> parsed_key" where
  "parse_key entry =
     (case index_of CHR '':'' entry 0 of
        None \<Rightarrow> \<lparr>keyScope = None, keyValue = entry\<rparr>
      | Some firstColon \<Rightarrow>
          (case index_of CHR '':'' (drop (Suc firstColon) entry) (Suc firstColon) of
             None \<Rightarrow> \<lparr>keyScope = None, keyValue = entry\<rparr>
           | Some secondColon \<Rightarrow>
               \<lparr>keyScope = Some (take secondColon entry), keyValue = drop (Suc secondColon) entry\<rparr>))"

definition parseConfiguredKeys :: "env \<Rightarrow> parsed_key list" where
  "parseConfiguredKeys E =
     (case env_set (INTERNAL_API_KEY E) of None \<Rightarrow> []
      | Some raw \<Rightarrow> map parse_key (filter (\<lambda>e. e \<noteq> []) (map js_trim (js_split CHR '','' raw))))"

text \<open>The result is the request's \<open>apiKeyScope\<close>, set only for an endpoint with a scope.\<close>

definition requireApiKey ::
  "env \<Rightarrow> string option \<Rightarrow> string option \<Rightarrow> http_error + string option" where
  "requireApiKey E requiredScope providedKey =
     (let configuredKeys = parseConfiguredKeys E in
      if configuredKeys = [] then
        Inl (internal ''Server misconfiguration: INTERNAL_API_KEY is not set'' None)
      else
        (case env_set providedKey of
           None \<Rightarrow> Inl (unauthorized ''Unauthorised: missing API key'' None)
         | Some key \<Rightarrow>
             (case find (\<lambda>k. length (keyValue k) = length key \<and> keyValue k = key) configuredKeys of
                None \<Rightarrow> Inl (unauthorized ''Unauthorised: invalid API key'' None)
              | Some matched \<Rightarrow>
                  (case requiredScope of
                     Some required \<Rightarrow>
                       (if keyScope matched \<noteq> None \<and> keyScope matched \<noteq> Some required
                        then Inl (forbidden
                               (''Unauthorised: API key lacks required scope '' @ required) None)
                        else Inr (Some (case keyScope matched of None \<Rightarrow> required | Some s \<Rightarrow> s)))
                   | None \<Rightarrow>
                       (if keyScope matched \<noteq> None
                        then Inl (forbidden
                               ''Unauthorised: scoped API keys cannot access this endpoint'' None)
                        else Inr None)))))"

section \<open>Loan access\<close>

text \<open>The argument \<open>rows\<close> is the query result: the \<open>address\<close> column of one event of the loan.\<close>

definition requireLoanBorrowerAccess ::
  "request_user \<Rightarrow> string option \<Rightarrow> (string \<Rightarrow> string list) \<Rightarrow> http_error + unit" where
  "requireLoanBorrowerAccess user loanId rows =
     (case wallet_of user of None \<Rightarrow> Inl auth_required
      | Some pk \<Rightarrow>
          (case env_set loanId of None \<Rightarrow> Inl (badRequest ''Loan ID is required'' None None)
           | Some l \<Rightarrow>
               (if role (the user) = admin \<or> role (the user) = lender then Inr ()
                else (case rows l of
                        [] \<Rightarrow> Inl (notFound ''Loan not found'' None None)
                      | address # _ \<Rightarrow>
                          (if address \<noteq> pk
                           then Inl (forbidden ''You are not authorized to access this loan''
                                  (Some ''ACCESS_DENIED''))
                           else Inr ())))))"

definition requireLoanOwner ::
  "request_user \<Rightarrow> string option \<Rightarrow> string option \<Rightarrow> (string \<Rightarrow> string list) \<Rightarrow> http_error + unit" where
  "requireLoanOwner user loanId paramId rows =
     (case wallet_of user of None \<Rightarrow> Inl auth_required
      | Some pk \<Rightarrow>
          (case (case env_set loanId of Some l \<Rightarrow> Some l | None \<Rightarrow> env_set paramId) of
             None \<Rightarrow> Inl (badRequest ''Loan ID is required'' None None)
           | Some l \<Rightarrow>
               (case rows l of
                  [] \<Rightarrow> Inl (notFound ''Loan not found'' None None)
                | loanOwner # _ \<Rightarrow>
                    (if loanOwner \<noteq> pk
                     then Inl (forbidden ''You are not authorized to access this loan''
                            (Some ''ACCESS_DENIED''))
                     else Inr ()))))"

section \<open>Lemmas\<close>

lemma env_set_Some [simp]: "env_set (Some s) = Some t \<longleftrightarrow> t = s \<and> s \<noteq> []"
  by (auto simp: env_set_def)

lemma env_set_None [simp]: "env_set None = None" "env_set (Some s) = None \<longleftrightarrow> s = []"
  by (simp_all add: env_set_def)

lemma env_set_eq_Some: "env_set x = Some t \<longleftrightarrow> x = Some t \<and> t \<noteq> []"
  by (cases x) (auto simp: env_set_def)

lemma wallet_of_eq_Some: "wallet_of u = Some w \<longleftrightarrow> (\<exists>p. u = Some p \<and> publicKey p = w \<and> w \<noteq> [])"
  by (auto simp: wallet_of_def env_set_eq_Some split: option.splits)

lemma find_None_all: "find P xs = None \<longleftrightarrow> (\<forall>x \<in> set xs. \<not> P x)"
  by (auto simp: find_None_iff)

lemma resolveScopes [simp]: "resolveScopesForRole r = ROLE_SCOPES r"
  by (simp add: resolveScopesForRole_def)

lemma admin_all_only_admin [simp]: "''admin:all'' \<in> set (ROLE_SCOPES r) \<longleftrightarrow> r = admin"
  by (cases r) auto

lemma role_scope_not_Nil: "s \<in> set (ROLE_SCOPES r) \<Longrightarrow> s \<noteq> []"
  by (cases r) auto

lemma capped_scopes:
  "set (scopes (capPayloadToCurrentRole E p))
     = set (scopes p) \<inter> set (ROLE_SCOPES (resolveRoleForWallet E (publicKey p)))"
  by (auto simp: capPayloadToCurrentRole_def Let_def)

lemma capped_role [simp]:
  "role (capPayloadToCurrentRole E p) = resolveRoleForWallet E (publicKey p)"
  "publicKey (capPayloadToCurrentRole E p) = publicKey p"
  by (simp_all add: capPayloadToCurrentRole_def Let_def)

lemma requireScopes_ok:
  assumes "[] \<notin> set req"
  shows "requireScopes req u = Inr () \<longleftrightarrow>
    (\<exists>p. u = Some p \<and> publicKey p \<noteq> [] \<and> (''admin:all'' \<in> set (scopes p) \<or> set req \<subseteq> set (scopes p)))"
proof (cases "wallet_of u")
  case None
  then have "\<nexists>p. u = Some p \<and> publicKey p \<noteq> []" by (metis wallet_of_eq_Some option.distinct(1))
  with None show ?thesis by (auto simp: requireScopes_def auth_required_def)
next
  case (Some w)
  then obtain p where p: "u = Some p" "publicKey p \<noteq> []" by (auto simp: wallet_of_eq_Some)
  have "env_set (find (\<lambda>s. s \<notin> set (scopes p)) req) = None \<longleftrightarrow> set req \<subseteq> set (scopes p)"
  proof (cases "find (\<lambda>s. s \<notin> set (scopes p)) req")
    case None
    then have "set req \<subseteq> set (scopes p)" by (auto simp: find_None_all)
    with None show ?thesis by simp
  next
    case (Some s)
    then have "s \<in> set req" "s \<notin> set (scopes p)" by (auto simp: find_Some_iff)
    moreover from this assms have "s \<noteq> []" by metis
    ultimately show ?thesis using Some by (auto simp: env_set_def)
  qed
  with Some p show ?thesis
    by (auto simp: requireScopes_def Let_def split: option.splits)
qed

lemma find_eq_SomeD: "find P xs = Some x \<Longrightarrow> x \<in> set xs \<and> P x"
  by (auto simp: find_Some_iff)

section \<open>Properties\<close>

text \<open>A token never grants more than the wallet's current role: after the payload of a token is
  capped, a scope check passes exactly when the token carries every required scope, or the
  administrator scope, and the wallet's role of this moment grants it. So a wallet that is removed from
  the configured lists loses the privilege at once, whatever its token says.\<close>

theorem capped_token_authority:
  assumes "[] \<notin> set req"
  shows "requireScopes req (Some (capPayloadToCurrentRole E p)) = Inr () \<longleftrightarrow>
    publicKey p \<noteq> [] \<and>
    (let r = resolveRoleForWallet E (publicKey p) in
     (r = admin \<and> ''admin:all'' \<in> set (scopes p)) \<or>
     set req \<subseteq> set (scopes p) \<inter> set (ROLE_SCOPES r))"
  by (auto simp: requireScopes_ok [OF assms] capped_scopes Let_def)

theorem capped_token_authority_witness:
  "requireScopes [''read:pool'']
     (Some (capPayloadToCurrentRole
       \<lparr>ADMIN_WALLETS = None, LENDER_WALLETS = None, INTERNAL_API_KEY = None, JWT_SECRET = None,
        JWT_COOKIE_NAME = None, NODE_ENV = None\<rparr>
       \<lparr>publicKey = ''GA'', role = admin, scopes = [''admin:all'', ''read:pool''], jti = ''j'',
        iat = 0, expires = 86400\<rparr>)) \<noteq> Inr ()"
  by (subst capped_token_authority)
     (simp_all add: resolveRoleForWallet_def parseWalletSet_def env_set_def Let_def)

text \<open>An API key opens an endpoint exactly when its value is configured and the first configured key
  with that value is unscoped or has the scope that the endpoint requires; an endpoint without a scope
  accepts only unscoped keys. In particular a scoped key never opens an endpoint of another scope.\<close>

theorem requireApiKey_ok:
  "requireApiKey E required provided = Inr granted \<longleftrightarrow>
     (\<exists>key k. provided = Some key \<and> key \<noteq> [] \<and>
        find (\<lambda>k. keyValue k = key) (parseConfiguredKeys E) = Some k \<and>
        keyScope k \<in> {None, required} \<and> granted = required)"
proof -
  have f: "(\<lambda>k. length (keyValue k) = length key \<and> keyValue k = key) = (\<lambda>k. keyValue k = key)" for key
    by auto
  show ?thesis
    by (auto simp: requireApiKey_def Let_def f env_set_eq_Some split: option.splits)
qed

text \<open>Only the owner of a loan passes the ownership check, administrators included, while the
  borrower-access check also lets administrators and lenders view any loan; both refuse an
  unauthenticated caller, and neither ever lets a borrower reach the loan of another wallet.\<close>

theorem loan_access:
  "(requireLoanOwner u loanId paramId rows = Inr () \<longleftrightarrow>
      (\<exists>p l rest. u = Some p \<and> publicKey p \<noteq> [] \<and>
         (env_set loanId = Some l \<or> (env_set loanId = None \<and> env_set paramId = Some l)) \<and>
         rows l = publicKey p # rest)) \<and>
   (requireLoanBorrowerAccess u loanId rows = Inr () \<longleftrightarrow>
      (\<exists>p l. u = Some p \<and> publicKey p \<noteq> [] \<and> env_set loanId = Some l \<and>
         (role p \<in> {admin, lender} \<or> (\<exists>rest. rows l = publicKey p # rest))))"
proof (cases "wallet_of u")
  case None
  then have "\<nexists>p. u = Some p \<and> publicKey p \<noteq> []" by (metis wallet_of_eq_Some option.distinct(1))
  with None show ?thesis
    by (auto simp: requireLoanOwner_def requireLoanBorrowerAccess_def)
next
  case (Some w)
  then obtain p where p: "u = Some p" "publicKey p = w" "w \<noteq> []" by (auto simp: wallet_of_eq_Some)
  then have w: "wallet_of (Some p) = Some w" by (simp add: wallet_of_eq_Some)
  show ?thesis
    using p by (auto simp: requireLoanOwner_def requireLoanBorrowerAccess_def w
             split: option.splits list.splits)
qed

end
