(* ===== verification/AuthService.thy ===== *)
theory AuthService
  imports CacheService Rbac
begin

text \<open>
  Wallet login: \<open>src/backend/src/services/authService.ts\<close>, the handlers of
  \<open>src/backend/src/controllers/authController.ts\<close>, and the token checks of
  \<open>src/backend/src/middleware/jwtAuth.ts\<close>. The state is the cache and the challenge map of the test
  mode. Key and signature checks, base64, percent decoding and the token format belong to libraries:
  they are the fields of the record \<open>platform\<close>. Random values are arguments.
\<close>

section \<open>Definitions\<close>

record platform =
  isValidEd25519PublicKey :: "string \<Rightarrow> bool"
  base64_bytes :: "string \<Rightarrow> nat list"
  keypair_verify :: "string \<Rightarrow> string \<Rightarrow> nat list \<Rightarrow> bool option"
  jwt_sign :: "jwt_claims \<Rightarrow> string \<Rightarrow> ms \<Rightarrow> string"
  jwt_verify :: "ms \<Rightarrow> string \<Rightarrow> string \<Rightarrow> jwt_payload option"
  decodeURIComponent :: "string \<Rightarrow> string option"

record 's auth =
  acache :: "'s cache"
  testChallengeStore :: "key \<Rightarrow> (string \<times> ms) option"

definition CHALLENGE_EXPIRES_IN_MS :: ms where "CHALLENGE_EXPIRES_IN_MS = 5 * 60 * 1000"
definition CHALLENGE_EXPIRES_IN_SECONDS :: seconds where
  "CHALLENGE_EXPIRES_IN_SECONDS = CHALLENGE_EXPIRES_IN_MS div 1000"
definition CLOCK_SKEW_TOLERANCE_MS :: ms where "CLOCK_SKEW_TOLERANCE_MS = 5 * 1000"

definition getJwtSecret :: "env \<Rightarrow> http_error + string" where
  "getJwtSecret E =
     (case env_set (JWT_SECRET E) of
        None \<Rightarrow> Inl (Thrown ''JWT_SECRET environment variable is not set'')
      | Some s \<Rightarrow> Inr s)"

definition challengeNonceKey :: "string \<Rightarrow> string \<Rightarrow> key" where
  "challengeNonceKey pk nonce = ''auth-challenge:'' @ pk @ '':'' @ nonce"

definition is_hex_lower :: "char \<Rightarrow> bool" where
  "is_hex_lower c \<longleftrightarrow> is_digit c \<or> (97 \<le> (of_char c :: nat) \<and> (of_char c :: nat) \<le> 102)"

definition is_nonce :: "string \<Rightarrow> bool" where
  "is_nonce n \<longleftrightarrow> length n = 64 \<and> list_all is_hex_lower n"

text \<open>\<open>message.match(/Nonce: ([a-f0-9]{64})/)\<close>: the leftmost match.\<close>

fun parseChallengeNonce :: "string \<Rightarrow> string option" where
  "parseChallengeNonce [] = None"
| "parseChallengeNonce (c # cs) =
     (if starts_with ''Nonce: '' (c # cs) \<and> is_nonce (take 64 (drop 7 (c # cs)))
      then Some (take 64 (drop 7 (c # cs)))
      else parseChallengeNonce cs)"

text \<open>\<open>message.match(/Timestamp: (\d+)/)\<close>: the leftmost match, with all its digits.\<close>

fun match_timestamp :: "string \<Rightarrow> string option" where
  "match_timestamp [] = None"
| "match_timestamp (c # cs) =
     (if starts_with ''Timestamp: '' (c # cs) \<and> takeWhile is_digit (drop 11 (c # cs)) \<noteq> []
      then Some (takeWhile is_digit (drop 11 (c # cs)))
      else match_timestamp cs)"

definition storeChallengeNonce ::
  "env \<Rightarrow> 's redis \<Rightarrow> server \<Rightarrow> ms \<Rightarrow> string \<Rightarrow> string \<Rightarrow> string \<Rightarrow> ms \<Rightarrow> 's auth \<Rightarrow> bool \<times> 's auth" where
  "storeChallengeNonce E R srv now pk nonce message timestamp a =
     (let k = challengeNonceKey pk nonce in
      if is_test E then
        (True, a\<lparr>testChallengeStore :=
          (testChallengeStore a)(k \<mapsto> (message, timestamp + CHALLENGE_EXPIRES_IN_MS))\<rparr>)
      else
        (case setNotExists R srv now k (JStr message) CHALLENGE_EXPIRES_IN_SECONDS (acache a) of
           (stored, c) \<Rightarrow> (stored, a\<lparr>acache := c\<rparr>)))"

definition nl :: string where "nl = [CHR 0x0A, CHR 0x0A]"

definition challenge_message :: "string \<Rightarrow> ms \<Rightarrow> string" where
  "challenge_message nonce timestamp =
     ''Sign this message to authenticate with Lend.'' @ nl @ ''Nonce: '' @ nonce @ [CHR 0x0A]
     @ ''Timestamp: '' @ show_int timestamp @ nl @ ''This request will expire in 5 minutes.''"

record challenge =
  message :: string
  nonce :: string
  timestamp :: ms
  expiresIn :: ms

definition generateChallenge ::
  "env \<Rightarrow> platform \<Rightarrow> 's redis \<Rightarrow> server \<Rightarrow> ms \<Rightarrow> string \<Rightarrow> string \<Rightarrow> 's auth
     \<Rightarrow> (http_error + challenge) \<times> 's auth" where
  "generateChallenge E P R srv now pk random a =
     (if \<not> isValidEd25519PublicKey P pk then (Inl (Thrown ''Invalid Stellar public key''), a)
      else
        (let msg = challenge_message random now in
         case storeChallengeNonce E R srv now pk random msg now a of
           (stored, a') \<Rightarrow>
             (if \<not> stored then (Inl (Thrown ''Failed to store challenge nonce''), a')
              else (Inr \<lparr>message = msg, nonce = random, timestamp = now,
                         expiresIn = CHALLENGE_EXPIRES_IN_MS\<rparr>, a'))))"

definition verifyAndConsumeChallenge ::
  "env \<Rightarrow> platform \<Rightarrow> 's redis \<Rightarrow> server \<Rightarrow> ms \<Rightarrow> string \<Rightarrow> string \<Rightarrow> 's auth \<Rightarrow> bool \<times> 's auth" where
  "verifyAndConsumeChallenge E P R srv now pk msg a =
     (if \<not> isValidEd25519PublicKey P pk then (False, a)
      else (case parseChallengeNonce msg of
              None \<Rightarrow> (False, a)
            | Some n \<Rightarrow>
                (let k = challengeNonceKey pk n in
                 if is_test E then
                   (case testChallengeStore a k of
                      None \<Rightarrow> (False, a)
                    | Some (stored, expiresAt) \<Rightarrow>
                        (if stored \<noteq> msg \<or> expiresAt < now then (False, a)
                         else (True, a\<lparr>testChallengeStore := (testChallengeStore a)(k := None)\<rparr>)))
                 else (case deleteIfMatch R srv now k msg (acache a) of
                         (ok, c) \<Rightarrow> (ok, a\<lparr>acache := c\<rparr>)))))"

definition base64_char :: "char \<Rightarrow> bool" where
  "base64_char c \<longleftrightarrow>
     (let n = of_char c :: nat in
      is_digit c \<or> (65 \<le> n \<and> n \<le> 90) \<or> (97 \<le> n \<and> n \<le> 122) \<or> c \<in> set ''+/='')"

definition verifySignature :: "platform \<Rightarrow> string \<Rightarrow> string \<Rightarrow> string \<Rightarrow> bool" where
  "verifySignature P pk msg signature =
     (if \<not> isValidEd25519PublicKey P pk then False
      else if \<not> (signature \<noteq> [] \<and> list_all base64_char signature) then False
      else
        (let signatureBytes = base64_bytes P signature in
         if length signatureBytes \<noteq> 64 then False
         else (case keypair_verify P pk msg signatureBytes of None \<Rightarrow> False | Some b \<Rightarrow> b)))"

definition verifyChallengeTimestamp :: "ms \<Rightarrow> ms \<Rightarrow> ms \<Rightarrow> bool" where
  "verifyChallengeTimestamp now ts maxAgeMs =
     (if ts \<le> 0 then False
      else
        (let age = now - ts in
         if age < - CLOCK_SKEW_TOLERANCE_MS then False else age \<le> maxAgeMs))"

definition generateJwtToken :: "env \<Rightarrow> platform \<Rightarrow> ms \<Rightarrow> string \<Rightarrow> string \<Rightarrow> http_error + string" where
  "generateJwtToken E P now pk uuid =
     and_then (getJwtSecret E) (\<lambda>secret.
       (let r = resolveRoleForWallet E pk in
        Inr (jwt_sign P \<lparr>publicKey = pk, role = r, scopes = resolveScopesForRole r, jti = uuid\<rparr>
               secret now)))"

definition verifyJwtToken :: "env \<Rightarrow> platform \<Rightarrow> ms \<Rightarrow> string \<Rightarrow> jwt_payload option" where
  "verifyJwtToken E P now token =
     (case getJwtSecret E of Inl _ \<Rightarrow> None | Inr secret \<Rightarrow> jwt_verify P now secret token)"

definition revoked_key :: "string \<Rightarrow> key" where "revoked_key j = ''revoked-jti:'' @ j"

definition revokeToken ::
  "'s redis \<Rightarrow> server \<Rightarrow> ms \<Rightarrow> string \<Rightarrow> seconds \<Rightarrow> 's cache \<Rightarrow> 's cache" where
  "revokeToken R srv now j expiry c =
     (let ttlSeconds = expiry - now div 1000 in
      if ttlSeconds \<le> 0 then c else cache_set R srv now (revoked_key j) (JBool True) ttlSeconds c)"

text \<open>The lookup races a timer; \<open>timely\<close> says that the lookup wins.\<close>

definition isTokenRevoked ::
  "'s redis \<Rightarrow> server \<Rightarrow> bool \<Rightarrow> ms \<Rightarrow> string \<Rightarrow> 's cache \<Rightarrow> bool \<times> 's cache" where
  "isTokenRevoked R srv timely now j c =
     (case cache_get R srv now (revoked_key j) c of
        (v, c') \<Rightarrow> ((if timely then v else None) = Some (JBool True), c'))"

definition extractBearerToken :: "string option \<Rightarrow> string option" where
  "extractBearerToken authHeader =
     (case env_set authHeader of None \<Rightarrow> None
      | Some h \<Rightarrow>
          (case js_split CHR '' '' h of
             [scheme, token] \<Rightarrow> if scheme \<noteq> ''Bearer'' then None else Some token
           | _ \<Rightarrow> None))"

fun cookie_pairs :: "platform \<Rightarrow> string \<Rightarrow> string list \<Rightarrow> string option" where
  "cookie_pairs P cookieName [] = None"
| "cookie_pairs P cookieName (pair # pairs) =
     (case js_split CHR ''='' pair of
        [] \<Rightarrow> cookie_pairs P cookieName pairs
      | rawKey # rawValueParts \<Rightarrow>
          (if js_trim rawKey \<noteq> cookieName then cookie_pairs P cookieName pairs
           else
             (let rawValue = js_trim (js_join ''='' rawValueParts) in
              if rawValue = [] then None
              else (case decodeURIComponent P rawValue of Some v \<Rightarrow> Some v | None \<Rightarrow> Some rawValue))))"

definition extractCookieToken :: "env \<Rightarrow> platform \<Rightarrow> string option \<Rightarrow> string option" where
  "extractCookieToken E P cookieHeader =
     (case env_set cookieHeader of None \<Rightarrow> None
      | Some h \<Rightarrow>
          cookie_pairs P (case JWT_COOKIE_NAME E of None \<Rightarrow> ''lend_jwt'' | Some n \<Rightarrow> n)
            (js_split CHR '';'' h))"

definition requireJwtAuth ::
  "env \<Rightarrow> platform \<Rightarrow> 's redis \<Rightarrow> server \<Rightarrow> bool \<Rightarrow> ms \<Rightarrow> string option \<Rightarrow> string option \<Rightarrow> 's cache
     \<Rightarrow> (http_error + jwt_payload) \<times> 's cache" where
  "requireJwtAuth E P R srv timely now authHeader cookieHeader c =
     (case env_set (js_nullish (extractBearerToken authHeader) (extractCookieToken E P cookieHeader)) of
        None \<Rightarrow> (Inl (unauthorized ''Missing or invalid Authorization header'' None), c)
      | Some token \<Rightarrow>
          (case verifyJwtToken E P now token of
             None \<Rightarrow> (Inl (unauthorized ''Invalid or expired token'' None), c)
           | Some payload \<Rightarrow>
               (if jti payload = [] then (Inr (capPayloadToCurrentRole E payload), c)
                else (case isTokenRevoked R srv timely now (jti payload) c of
                        (revoked, c') \<Rightarrow>
                          (if revoked then (Inl (unauthorized ''Token has been revoked'' None), c')
                           else (Inr (capPayloadToCurrentRole E payload), c'))))))"

definition optionalJwtAuth ::
  "env \<Rightarrow> platform \<Rightarrow> 's redis \<Rightarrow> server \<Rightarrow> bool \<Rightarrow> ms \<Rightarrow> string option \<Rightarrow> 's cache
     \<Rightarrow> request_user \<times> 's cache" where
  "optionalJwtAuth E P R srv timely now authHeader c =
     (case env_set (extractBearerToken authHeader) of
        None \<Rightarrow> (None, c)
      | Some token \<Rightarrow>
          (case verifyJwtToken E P now token of
             None \<Rightarrow> (None, c)
           | Some payload \<Rightarrow>
               (if jti payload = [] then (Some (capPayloadToCurrentRole E payload), c)
                else (case isTokenRevoked R srv timely now (jti payload) c of
                        (revoked, c') \<Rightarrow>
                          (if revoked then None else Some (capPayloadToCurrentRole E payload), c')))))"

subsection \<open>Handlers\<close>

definition requestChallenge ::
  "env \<Rightarrow> platform \<Rightarrow> 's redis \<Rightarrow> server \<Rightarrow> ms \<Rightarrow> string option \<Rightarrow> string \<Rightarrow> 's auth
     \<Rightarrow> (http_error + challenge) \<times> 's auth" where
  "requestChallenge E P R srv now pk random a =
     (case env_set pk of
        None \<Rightarrow> (Inl (badRequest ''Public key is required'' (Some ''MISSING_FIELD'')
                   (Some ''publicKey'')), a)
      | Some k \<Rightarrow>
          (case generateChallenge E P R srv now k random a of
             (Inr ch, a') \<Rightarrow> (Inr ch, a')
           | (Inl err, a') \<Rightarrow>
               (if err = Thrown ''Invalid Stellar public key''
                then (Inl (badRequest ''Invalid Stellar public key'' (Some ''INVALID_PUBLIC_KEY'')
                        (Some ''publicKey'')), a')
                else (Inl err, a'))))"

definition login ::
  "env \<Rightarrow> platform \<Rightarrow> 's redis \<Rightarrow> server \<Rightarrow> ms \<Rightarrow> string option \<Rightarrow> string option \<Rightarrow> string option \<Rightarrow> string
     \<Rightarrow> 's auth \<Rightarrow> (http_error + string) \<times> 's auth" where
  "login E P R srv now pkBody msgBody sigBody uuid a =
     (case env_set pkBody of
        None \<Rightarrow> (Inl (badRequest ''Public key is required'' (Some ''MISSING_FIELD'')
                   (Some ''publicKey'')), a)
      | Some pk \<Rightarrow>
     (case env_set msgBody of
        None \<Rightarrow> (Inl (badRequest ''Message is required'' (Some ''MISSING_FIELD'') (Some ''message'')), a)
      | Some msg \<Rightarrow>
     (case env_set sigBody of
        None \<Rightarrow> (Inl (badRequest ''Signature is required'' (Some ''MISSING_FIELD'')
                   (Some ''signature'')), a)
      | Some signature \<Rightarrow>
     (case match_timestamp msg of
        None \<Rightarrow> (Inl (badRequest ''Invalid challenge message format'' (Some ''INVALID_CHALLENGE'') None), a)
      | Some digits \<Rightarrow>
          (if \<not> verifyChallengeTimestamp now (int (digits_val digits)) CHALLENGE_EXPIRES_IN_MS then
             (Inl (unauthorized ''Challenge has expired'' (Some ''CHALLENGE_EXPIRED'')), a)
           else if \<not> verifySignature P pk msg signature then
             (Inl (unauthorized ''Invalid signature'' (Some ''INVALID_SIGNATURE'')), a)
           else
             (case verifyAndConsumeChallenge E P R srv now pk msg a of
                (False, a') \<Rightarrow>
                  (Inl (unauthorized ''Invalid or already used challenge''
                     (Some ''INVALID_CHALLENGE'')), a')
              | (True, a') \<Rightarrow> (generateJwtToken E P now pk uuid, a')))))))"

definition logout :: "'s redis \<Rightarrow> server \<Rightarrow> ms \<Rightarrow> request_user \<Rightarrow> 's auth \<Rightarrow> 's auth" where
  "logout R srv now user a =
     (case user of None \<Rightarrow> a
      | Some p \<Rightarrow>
          (if jti p \<noteq> [] \<and> expires p \<noteq> 0
           then a\<lparr>acache := revokeToken R srv now (jti p) (expires p) (acache a)\<rparr> else a))"


section \<open>Runs of the authentication operations\<close>

text \<open>Any interleaving of the handlers, at any times and with the server up or down at each call.
  A challenge's nonce comes from \<open>randomBytes(32)\<close> in hexadecimal.\<close>

datatype auth_event =
    Issued string string
  | LoginAttempt string string bool
  | LoggedOut string seconds
  | Ignored

definition event_of_user :: "request_user \<Rightarrow> auth_event" where
  "event_of_user u = (case u of None \<Rightarrow> Ignored | Some p \<Rightarrow> LoggedOut (jti p) (expires p))"

inductive auth_step ::
  "env \<Rightarrow> platform \<Rightarrow> 's redis \<Rightarrow> 's auth \<Rightarrow> auth_event \<Rightarrow> 's auth \<Rightarrow> bool"
  for E :: env and P :: platform and R :: "'s redis" where
  challenge: "is_nonce n \<Longrightarrow> generateChallenge E P R srv now pk n a = (r, a') \<Longrightarrow>
    auth_step E P R a (Issued pk n) a'"
| attempt: "login E P R srv now (Some pk) (Some m) sig uuid a = (r, a') \<Longrightarrow>
    auth_step E P R a (LoginAttempt pk m (is_ok r)) a'"
| logout: "auth_step E P R a (event_of_user u) (logout R srv now u a)"

inductive auth_run ::
  "env \<Rightarrow> platform \<Rightarrow> 's redis \<Rightarrow> 's auth \<Rightarrow> auth_event list \<Rightarrow> 's auth \<Rightarrow> bool"
  for E :: env and P :: platform and R :: "'s redis" where
  stop: "auth_run E P R a [] a"
| more: "auth_step E P R a e a' \<Longrightarrow> auth_run E P R a' es a'' \<Longrightarrow> auth_run E P R a (e # es) a''"

inductive_cases auth_runE: "auth_run E P R a (e # es) a''"
inductive_cases auth_stepE: "auth_step E P R a e a'"

text \<open>An invariant of single steps holds along a run.\<close>

lemma auth_run_invariant:
  assumes "auth_run E P R a es a'" "I a"
    and "\<And>a e a'. auth_step E P R a e a' \<Longrightarrow> e \<in> set es \<Longrightarrow> I a \<Longrightarrow> I a'"
  shows "I a'"
  using assms by (induction rule: auth_run.induct) auto

section \<open>Keys and messages\<close>

lemma hex_not_special [simp]:
  "\<not> is_hex_lower CHR '':''" "\<not> is_hex_lower CHR ''T''" "\<not> is_hex_lower CHR ''N''"
  by (simp_all add: is_hex_lower_def is_digit_def)

lemma nonce_chars: "is_nonce n \<Longrightarrow> \<not> is_hex_lower c \<Longrightarrow> c \<notin> set n"
  by (auto simp: is_nonce_def list_all_iff)

lemma challenge_key_inject:
  assumes "is_nonce n" "is_nonce m"
  shows "challengeNonceKey p n = challengeNonceKey q m \<longleftrightarrow> p = q \<and> n = m"
proof -
  have "length n = length m" using assms by (simp add: is_nonce_def)
  then show ?thesis by (auto simp: challengeNonceKey_def)
qed

lemma revoked_key_challenge [simp]: "revoked_key j \<noteq> challengeNonceKey p n"
  by (simp add: revoked_key_def challengeNonceKey_def)

lemma revoked_key_inject [simp]: "revoked_key i = revoked_key j \<longleftrightarrow> i = j"
  by (simp add: revoked_key_def)

lemma parse_nonce_skip: "CHR ''N'' \<notin> set xs \<Longrightarrow> parseChallengeNonce (xs @ ys) = parseChallengeNonce ys"
  by (induction xs) auto

lemma match_timestamp_skip: "CHR ''T'' \<notin> set xs \<Longrightarrow> match_timestamp (xs @ ys) = match_timestamp ys"
  by (induction xs) auto

lemma parse_nonce_here:
  "is_nonce n \<Longrightarrow> parseChallengeNonce (''Nonce: '' @ n @ rest) = Some n"
  by (simp add: is_nonce_def)

lemma parse_nonce_message:
  assumes "is_nonce n"
  shows "parseChallengeNonce (challenge_message n t) = Some n"
  unfolding challenge_message_def
  using parse_nonce_skip [of "''Sign this message to authenticate with Lend.'' @ nl"]
    parse_nonce_here [OF assms]
  by (simp add: nl_def del: parseChallengeNonce.simps)

lemma parse_nonce_is_nonce: "parseChallengeNonce m = Some n \<Longrightarrow> is_nonce n"
  by (induction m rule: parseChallengeNonce.induct) (auto split: if_splits)

lemma takeWhile_digits:
  "list_all is_digit ds \<Longrightarrow> \<not> is_digit c \<Longrightarrow> takeWhile is_digit (ds @ c # rest) = ds"
  by (induction ds) auto

lemma newline_not_digit [simp]: "\<not> is_digit CHR 0x0A"
  by (simp add: is_digit_def)

lemma match_timestamp_here:
  "match_timestamp (''Timestamp: '' @ show_nat t @ CHR 0x0A # rest) = Some (show_nat t)"
  by (simp add: takeWhile_digits)

lemma match_timestamp_message:
  assumes "is_nonce n" "0 \<le> t"
  shows "match_timestamp (challenge_message n t) = Some (show_nat (nat t))"
proof -
  have "CHR ''T'' \<notin> set (''Sign this message to authenticate with Lend.'' @ nl @ ''Nonce: '' @ n @ [CHR 0x0A])"
    using nonce_chars [OF assms(1)] by (simp add: nl_def)
  from match_timestamp_skip [OF this] show ?thesis
    using match_timestamp_here [of "nat t" "CHR 0x0A # ''This request will expire in 5 minutes.''"] assms(2)
    by (simp add: challenge_message_def nl_def show_int_def del: match_timestamp.simps)
qed

section \<open>Challenges\<close>

definition pending ::
  "env \<Rightarrow> ('s \<Rightarrow> key \<Rightarrow> (json \<times> ms option) option) \<Rightarrow> 's auth \<Rightarrow> key \<Rightarrow> bool" where
  "pending E view a k \<longleftrightarrow>
     (if is_test E then testChallengeStore a k \<noteq> None else view (client (acache a)) k \<noteq> None)"

lemma login_ok_iff:
  "is_ok (fst (login E P R srv now (Some pk) (Some m) (Some sig) uuid a)) \<longleftrightarrow>
     pk \<noteq> [] \<and> m \<noteq> [] \<and> sig \<noteq> [] \<and>
     (\<exists>ds. match_timestamp m = Some ds \<and>
        verifyChallengeTimestamp now (int (digits_val ds)) CHALLENGE_EXPIRES_IN_MS) \<and>
     verifySignature P pk m sig \<and> fst (verifyAndConsumeChallenge E P R srv now pk m a) \<and>
     env_set (JWT_SECRET E) \<noteq> None"
proof -
  have "env_set (Some x) = (if x = [] then None else Some x)" for x by (simp add: env_set_def)
  then show ?thesis
    by (auto simp: login_def generateJwtToken_def getJwtSecret_def Let_def
             split: option.splits prod.splits bool.splits sum.splits if_splits)
qed

context redis_server
begin

lemma consume_Down: "fst (verifyAndConsumeChallenge E P R Down now pk m a) \<Longrightarrow> is_test E"
  by (auto simp: verifyAndConsumeChallenge_def deleteIfMatch_def Let_def
           split: option.splits if_splits prod.splits)

lemma consume_pending:
  assumes "fst (verifyAndConsumeChallenge E P R srv now pk m a)"
  shows "\<exists>n. parseChallengeNonce m = Some n \<and> pending E view a (challengeNonceKey pk n) \<and>
    \<not> pending E view (snd (verifyAndConsumeChallenge E P R srv now pk m a)) (challengeNonceKey pk n)"
proof (cases "is_test E")
  case True
  with assms show ?thesis
    by (auto simp: verifyAndConsumeChallenge_def Let_def pending_def split: option.splits if_splits)
next
  case False
  with assms have srv: "srv = Up" using consume_Down by (cases srv) auto
  with assms False show ?thesis
    by (auto simp: verifyAndConsumeChallenge_def Let_def pending_def deleteIfMatch_def
        COMPARE_AND_DELETE_SCRIPT_def get_law del_law live_def
        split: option.splits if_splits prod.splits)
qed

lemma consume_frame:
  assumes "\<not> pending E view a k"
  shows "\<not> pending E view (snd (verifyAndConsumeChallenge E P R srv now pk m a)) k"
proof (cases srv)
  case Up
  with assms show ?thesis
    by (auto simp: verifyAndConsumeChallenge_def Let_def pending_def deleteIfMatch_def
        COMPARE_AND_DELETE_SCRIPT_def del_law split: option.splits prod.splits if_splits)
next
  case Down
  with assms show ?thesis
    by (auto simp: verifyAndConsumeChallenge_def Let_def pending_def deleteIfMatch_def
        split: option.splits prod.splits if_splits)
qed

lemma login_state:
  "snd (login E P R srv now pk m sig uuid a) = a \<or>
   (\<exists>p x. snd (login E P R srv now pk m sig uuid a) = snd (verifyAndConsumeChallenge E P R srv now p x a))"
proof -
  have "snd (case verifyAndConsumeChallenge E P R srv now p x a of
      (False, a') \<Rightarrow> (e, a') | (True, a') \<Rightarrow> (r, a')) = snd (verifyAndConsumeChallenge E P R srv now p x a)"
    for p x e and r :: "http_error + string"
    by (simp split: prod.splits bool.splits)
  then show ?thesis
    unfolding login_def by (auto split: option.splits)
qed

lemma set_other:
  "j \<noteq> k \<Longrightarrow> view (client (cache_set R srv now j v ttl c)) k = view (client c) k"
  using setex_law [of ttl now j v "client c"] setex_invalid [of ttl now j v "client c"]
  by (cases srv; cases "0 < ttl") (auto simp: cache_set_def split: option.splits)

lemma setnx_other:
  "j \<noteq> k \<Longrightarrow> view (client (snd (setNotExists R srv now j v ttl c))) k = view (client c) k"
  using setnx_view [of now j v ttl "client c"]
  by (cases srv) (auto simp: setNotExists_def split: option.splits)

lemma generate_frame:
  assumes "challengeNonceKey pk n \<noteq> k" "\<not> pending E view a k"
  shows "\<not> pending E view (snd (generateChallenge E P R srv now pk n a)) k"
  using assms setnx_other [OF assms(1)]
  by (auto simp: generateChallenge_def storeChallengeNonce_def pending_def Let_def split: prod.splits)
     (metis snd_conv)+

lemma logout_frame:
  assumes "\<not> pending E view a (challengeNonceKey pk n)"
  shows "\<not> pending E view (logout R srv now u a) (challengeNonceKey pk n)"
  using assms by (auto simp: logout_def revokeToken_def pending_def Let_def set_other split: option.splits)

lemma not_pending_run:
  assumes "auth_run E P R a es a'" "\<not> pending E view a (challengeNonceKey pk n)" "is_nonce n"
    and "Issued pk n \<notin> set es"
  shows "\<not> pending E view a' (challengeNonceKey pk n)"
proof (rule auth_run_invariant [OF assms(1), where I = "\<lambda>a. \<not> pending E view a (challengeNonceKey pk n)"])
  fix b e b'
  assume s: "auth_step E P R b e b'" and e: "e \<in> set es"
    and i: "\<not> pending E view b (challengeNonceKey pk n)"
  from s show "\<not> pending E view b' (challengeNonceKey pk n)"
  proof cases
    case (challenge m srv now q r)
    then have "challengeNonceKey q m \<noteq> challengeNonceKey pk n"
      using challenge_key_inject assms(3,4) e by metis
    from generate_frame [OF this i] challenge show ?thesis by (metis snd_conv)
  next
    case (attempt srv now q m sig uuid r)
    with login_state [of E P srv now "Some q" "Some m" sig uuid b] i consume_frame show ?thesis
      by (metis snd_conv)
  next
    case (logout u srv now)
    with i logout_frame show ?thesis by simp
  qed
qed (rule assms(2))

lemma consumed_run_refused:
  assumes "fst (verifyAndConsumeChallenge E P R srv now pk m a)"
    and "auth_run E P R (snd (verifyAndConsumeChallenge E P R srv now pk m a)) es a'"
    and "\<And>n. parseChallengeNonce m = Some n \<Longrightarrow> Issued pk n \<notin> set es"
  shows "\<not> fst (verifyAndConsumeChallenge E P R srv' now' pk m a')"
proof
  assume again: "fst (verifyAndConsumeChallenge E P R srv' now' pk m a')"
  obtain n where n: "parseChallengeNonce m = Some n"
    "\<not> pending E view (snd (verifyAndConsumeChallenge E P R srv now pk m a)) (challengeNonceKey pk n)"
    using consume_pending [OF assms(1)] by blast
  from not_pending_run [OF assms(2) n(2) parse_nonce_is_nonce [OF n(1)] assms(3) [OF n(1)]]
  show False using consume_pending [OF again] n(1) by auto
qed

end

lemma login_ok_state:
  assumes "login E P R srv now (Some pk) (Some m) sig uuid a = (Inr token, a')"
  shows "fst (verifyAndConsumeChallenge E P R srv now pk m a) \<and>
         a' = snd (verifyAndConsumeChallenge E P R srv now pk m a)"
  using assms unfolding login_def
  by (auto split: option.splits if_splits prod.splits bool.splits simp: env_set_eq_Some)


subsection \<open>Issuing and answering\<close>

context redis_server
begin

lemma generate_ok:
  assumes "isValidEd25519PublicKey P pk"
    and "is_test E \<or> held view now (challengeNonceKey pk n) (acache a) = None"
  shows "\<exists>a'. generateChallenge E P R Up now pk n a =
      (Inr \<lparr>message = challenge_message n now, nonce = n, timestamp = now,
            expiresIn = CHALLENGE_EXPIRES_IN_MS\<rparr>, a') \<and>
    (if is_test E
     then testChallengeStore a' (challengeNonceKey pk n)
            = Some (challenge_message n now, now + CHALLENGE_EXPIRES_IN_MS)
     else \<forall>t. t < now + CHALLENGE_EXPIRES_IN_MS \<longrightarrow>
            held view t (challengeNonceKey pk n) (acache a') = Some (JStr (challenge_message n now)))"
proof (cases "is_test E")
  case True
  with assms(1) show ?thesis by (simp add: generateChallenge_def storeChallengeNonce_def Let_def)
next
  case False
  let ?k = "challengeNonceKey pk n" and ?m = "JStr (challenge_message n now)"
  have f: "fst (setNotExists R Up now ?k ?m CHALLENGE_EXPIRES_IN_SECONDS (acache a))"
    using assms(2) False lease.acquire_iff
    by (simp add: CHALLENGE_EXPIRES_IN_SECONDS_def CHALLENGE_EXPIRES_IN_MS_def)
  then obtain c where c: "setNotExists R Up now ?k ?m CHALLENGE_EXPIRES_IN_SECONDS (acache a) = (True, c)"
    by (metis (full_types) prod.collapse)
  have "held view t ?k c = Some ?m" if "t < now + CHALLENGE_EXPIRES_IN_MS" for t
    using lease.acquire_holds [OF f, of t] that unfolding c
    by (simp add: CHALLENGE_EXPIRES_IN_SECONDS_def CHALLENGE_EXPIRES_IN_MS_def)
  with c False assms(1) show ?thesis
    by (simp add: generateChallenge_def storeChallengeNonce_def Let_def)
qed

lemma consume_ok:
  assumes "isValidEd25519PublicKey P pk" "parseChallengeNonce m = Some n"
    and "if is_test E then \<exists>e. testChallengeStore a (challengeNonceKey pk n) = Some (m, e) \<and> now \<le> e
         else held view now (challengeNonceKey pk n) (acache a) = Some (JStr m)"
  shows "fst (verifyAndConsumeChallenge E P R Up now pk m a)"
proof (cases "is_test E")
  case True
  with assms show ?thesis by (auto simp: verifyAndConsumeChallenge_def Let_def)
next
  case False
  with assms have "fst (deleteIfMatch R Up now (challengeNonceKey pk n) m (acache a))"
    by (simp add: lease.release_iff)
  with False assms(1,2) show ?thesis
    by (auto simp: verifyAndConsumeChallenge_def Let_def split: prod.splits)
qed

end

section \<open>Revocation\<close>

text \<open>What the token library documents: a verified token has not reached its \<open>exp\<close> second.\<close>

definition jwt_expiry_law :: "platform \<Rightarrow> bool" where
  "jwt_expiry_law P \<longleftrightarrow>
     (\<forall>now secret token p. jwt_verify P now secret token = Some p \<longrightarrow> now div 1000 < expires p)"

definition revoked_until ::
  "('s \<Rightarrow> key \<Rightarrow> (json \<times> ms option) option) \<Rightarrow> string \<Rightarrow> seconds \<Rightarrow> 's auth \<Rightarrow> bool" where
  "revoked_until view j x a \<longleftrightarrow>
     (\<exists>e. view (client (acache a)) (revoked_key j) = Some (JBool True, Some e) \<and> 1000 * x \<le> e)"

context redis_server
begin

lemma deleteIfMatch_other:
  "j \<noteq> k \<Longrightarrow> view (client (snd (deleteIfMatch R srv now j m c))) k = view (client c) k"
  by (cases srv)
     (auto simp: deleteIfMatch_def COMPARE_AND_DELETE_SCRIPT_def del_law split: option.splits)

lemma revoke_sets:
  assumes "now div 1000 < x"
  shows "\<exists>e. view (client (revokeToken R Up now j x c)) (revoked_key j) = Some (JBool True, Some e) \<and>
           1000 * x \<le> e"
proof -
  let ?e = "now + 1000 * (x - now div 1000)"
  have "1000 * (now div 1000) \<le> now" by simp
  then have "1000 * x \<le> ?e" by simp
  moreover obtain s' where "SETEX R now (revoked_key j) (x - now div 1000) (JBool True) (client c) = Some s'"
    "view s' = (view (client c))(revoked_key j \<mapsto> (JBool True, Some ?e))"
    using setex_law [of "x - now div 1000" now "revoked_key j" "JBool True" "client c"] assms by auto
  ultimately show ?thesis
    using assms by (simp add: revokeToken_def cache_set_def Let_def)
qed

lemma revoke_frame:
  assumes "revoked_until view j x a" "i = j \<Longrightarrow> y = x"
  shows "revoked_until view j x (a\<lparr>acache := revokeToken R srv now i y (acache a)\<rparr>)"
proof (cases "i = j \<and> now div 1000 < y \<and> srv = Up")
  case True
  with assms(2) revoke_sets [of now x j "acache a"] show ?thesis by (simp add: revoked_until_def)
next
  case False
  then have "view (client (revokeToken R srv now i y (acache a))) (revoked_key j)
      = view (client (acache a)) (revoked_key j)"
    by (cases srv) (auto simp: revokeToken_def Let_def set_other, simp_all add: cache_set_def)
  with assms(1) show ?thesis by (simp add: revoked_until_def)
qed

lemma revoked_run:
  assumes "auth_run E P R a es a'" "revoked_until view j x a"
    and "\<forall>y. LoggedOut j y \<in> set es \<longrightarrow> y = x"
  shows "revoked_until view j x a'"
proof (rule auth_run_invariant [OF assms(1), where I = "revoked_until view j x"])
  fix b e b'
  assume s: "auth_step E P R b e b'" and e: "e \<in> set es" and i: "revoked_until view j x b"
  from s show "revoked_until view j x b'"
  proof cases
    case (challenge n srv now pk r)
    have "view (client (acache (snd (generateChallenge E P R srv now pk n b)))) (revoked_key j)
        = view (client (acache b)) (revoked_key j)"
      using setnx_other [of "challengeNonceKey pk n" "revoked_key j" srv now
          "JStr (challenge_message n now)" CHALLENGE_EXPIRES_IN_SECONDS "acache b"]
        revoked_key_challenge [of j pk n]
      by (auto simp: generateChallenge_def storeChallengeNonce_def Let_def split: prod.splits)
    with challenge i show ?thesis by (simp add: revoked_until_def)
  next
    case (attempt srv now q m sig uuid r)
    have "view (client (acache (snd (verifyAndConsumeChallenge E P R srv now p y b)))) (revoked_key j)
        = view (client (acache b)) (revoked_key j)" for p y
      by (simp add: verifyAndConsumeChallenge_def Let_def split_def deleteIfMatch_other
               revoked_key_challenge [symmetric] split: option.splits)
    then show ?thesis
      using login_state [of E P srv now "Some q" "Some m" sig uuid b] attempt i
      by (auto simp: revoked_until_def)
  next
    case (logout u srv now)
    then show ?thesis
    proof (cases u)
      case (Some p)
      have "jti p = j \<Longrightarrow> expires p = x"
        using logout(1) e assms(3) Some by (auto simp: event_of_user_def)
      then show ?thesis
        using revoke_frame [OF i, of "jti p" "expires p"] i logout Some
        by (auto simp: logout_def)
    qed (use i in \<open>simp add: logout_def\<close>)
  qed
qed (rule assms(2))

lemma revoked_refused:
  assumes "jwt_expiry_law P" "revoked_until view j x a" "j \<noteq> []"
    and "\<And>p tok. verifyJwtToken E P now tok = Some p \<Longrightarrow>
           env_set (js_nullish (extractBearerToken h) (extractCookieToken E P ck)) = Some tok \<Longrightarrow>
           jti p = j \<and> expires p = x"
  shows "\<not> is_ok (fst (requireJwtAuth E P R Up True now h ck (acache a)))"
proof (cases "env_set (js_nullish (extractBearerToken h) (extractCookieToken E P ck))")
  case None
  then show ?thesis by (simp add: requireJwtAuth_def)
next
  case (Some tok)
  show ?thesis
  proof (cases "verifyJwtToken E P now tok")
    case None
    with Some show ?thesis by (simp add: requireJwtAuth_def)
  next
    case (Some p)
    with assms(4) \<open>env_set _ = Some tok\<close> have p: "jti p = j" "expires p = x" by auto
    have "now div 1000 < x"
      using Some assms(1) p by (auto simp: verifyJwtToken_def jwt_expiry_law_def split: sum.splits)
    then have "now < 1000 * x" by linarith
    then have "held view now (revoked_key j) (acache a) = Some (JBool True)"
      using assms(2) by (auto simp: revoked_until_def held_def)
    then have "fst (isTokenRevoked R Up True now j (acache a))"
      using cache_get_Up [OF redis_server_axioms, of now "revoked_key j" "acache a"]
      by (auto simp: isTokenRevoked_def split: prod.splits)
    with Some p \<open>env_set _ = Some tok\<close> assms(3) show ?thesis
      by (auto simp: requireJwtAuth_def split: prod.splits)
  qed
qed

end

section \<open>Properties\<close>

text \<open>(C7) A login challenge is answered at most once: after a login with a message has been accepted, no
  later run of challenges, login attempts (of anyone) and logouts, with Redis up or down at any call,
  leads to a state in which the same wallet and message are accepted again, unless the same random
  nonce is issued to that wallet again.\<close>

theorem login_single_use:
  assumes "redis_server R view"
    and "login E P R srv now (Some pk) (Some m) sig uuid a = (Inr token, a1)"
    and "auth_run E P R a1 events a2"
    and "\<forall>n. parseChallengeNonce m = Some n \<longrightarrow> Issued pk n \<notin> set events"
  shows "\<not> is_ok (fst (login E P R srv' now' (Some pk) (Some m) sig' uuid' a2))"
proof
  assume ok: "is_ok (fst (login E P R srv' now' (Some pk) (Some m) sig' uuid' a2))"
  then obtain tok where "login E P R srv' now' (Some pk) (Some m) sig' uuid' a2
      = (Inr tok, snd (login E P R srv' now' (Some pk) (Some m) sig' uuid' a2))"
    by (metis is_okE prod.collapse)
  then have "fst (verifyAndConsumeChallenge E P R srv' now' pk m a2)" using login_ok_state by blast
  moreover have "\<not> fst (verifyAndConsumeChallenge E P R srv' now' pk m a2)"
    by (rule redis_server.consumed_run_refused [OF assms(1)])
       (use login_ok_state [OF assms(2)] assms(3,4) in auto)
  ultimately show False by simp
qed

definition demo_env :: env where
  "demo_env = \<lparr>ADMIN_WALLETS = Some ''GADMIN'', LENDER_WALLETS = None, INTERNAL_API_KEY = None,
     JWT_SECRET = Some ''secret'', JWT_COOKIE_NAME = None, NODE_ENV = None\<rparr>"

text \<open>A platform whose token is the wallet's name, good for a day from the epoch.\<close>

definition demo_platform :: platform where
  "demo_platform =
     \<lparr>isValidEd25519PublicKey = (\<lambda>pk. pk \<noteq> []),
      base64_bytes = (\<lambda>s. replicate 64 (length s)),
      keypair_verify = (\<lambda>pk m sig. Some (hd sig = 4)),
      jwt_sign = (\<lambda>c s t. ''t.'' @ publicKey c),
      jwt_verify = (\<lambda>now s tok.
        if now div 1000 < 86400 \<and> starts_with ''t.'' tok
        then Some \<lparr>publicKey = drop 2 tok, role = borrower, scopes = [''read:loans''], jti = ''j1'',
                   iat = 0, expires = 86400\<rparr>
        else None),
      decodeURIComponent = Some\<rparr>"

definition demo_nonce :: string where "demo_nonce = replicate 64 CHR ''a''"

definition demo_auth :: "mem_state auth" where
  "demo_auth = \<lparr>acache = \<lparr>client = (\<lambda>_. None), isConnected = True\<rparr>, testChallengeStore = (\<lambda>_. None)\<rparr>"

lemma demo_nonce_ok [simp]: "is_nonce demo_nonce"
  by (simp add: is_nonce_def demo_nonce_def is_hex_lower_def list_all_iff)

lemma demo_env_simps [simp]:
  "\<not> is_test demo_env" "env_set (JWT_SECRET demo_env) = Some ''secret''"
  by (simp_all add: demo_env_def is_test_def)

lemma demo_signature: "pk \<noteq> [] \<Longrightarrow> verifySignature demo_platform pk m ''AAAA''"
  by (simp add: verifySignature_def demo_platform_def base64_char_def is_digit_def Let_def hd_replicate)

text \<open>(C8) A wallet that signs its challenge in time is logged in: with Redis up, a challenge is issued for
  every valid key (with a fresh nonce), the nonce and the timestamp that the login reads back from the
  signed message are the ones that were issued, and any login within five minutes of the issue, with a
  valid signature, returns a token for the role the wallet has at that moment.\<close>

theorem challenge_login:
  assumes "redis_server R view" "isValidEd25519PublicKey P pk" "pk \<noteq> []" "is_nonce n" "0 < t"
    and "is_test E \<or> held view t (challengeNonceKey pk n) (acache a) = None"
    and "t \<le> u" "u < t + CHALLENGE_EXPIRES_IN_MS"
    and "verifySignature P pk (challenge_message n t) sig" "env_set (JWT_SECRET E) = Some secret"
  shows "\<exists>a1 a2. requestChallenge E P R Up t (Some pk) n a =
      (Inr \<lparr>message = challenge_message n t, nonce = n, timestamp = t,
            expiresIn = CHALLENGE_EXPIRES_IN_MS\<rparr>, a1) \<and>
    login E P R Up u (Some pk) (Some (challenge_message n t)) (Some sig) uuid a1 =
      (Inr (jwt_sign P \<lparr>publicKey = pk, role = resolveRoleForWallet E pk,
              scopes = ROLE_SCOPES (resolveRoleForWallet E pk), jti = uuid\<rparr> secret u), a2)"
proof -
  let ?m = "challenge_message n t" and ?k = "challengeNonceKey pk n"
  obtain a1 where a1: "generateChallenge E P R Up t pk n a =
      (Inr \<lparr>message = ?m, nonce = n, timestamp = t, expiresIn = CHALLENGE_EXPIRES_IN_MS\<rparr>, a1)"
    "if is_test E then testChallengeStore a1 ?k = Some (?m, t + CHALLENGE_EXPIRES_IN_MS)
     else \<forall>u. u < t + CHALLENGE_EXPIRES_IN_MS \<longrightarrow> held view u ?k (acache a1) = Some (JStr ?m)"
    using redis_server.generate_ok [OF assms(1,2,6)] by blast
  have "fst (verifyAndConsumeChallenge E P R Up u pk ?m a1)"
    by (rule redis_server.consume_ok [OF assms(1,2) parse_nonce_message [OF assms(4)]])
       (use a1(2) assms(8) in \<open>auto split: if_splits\<close>)
  then obtain a2 where c: "verifyAndConsumeChallenge E P R Up u pk ?m a1 = (True, a2)"
    by (metis (full_types) prod.collapse)
  have m: "?m \<noteq> []" by (simp add: challenge_message_def)
  have s: "sig \<noteq> []" using assms(9) by (auto simp: verifySignature_def split: if_splits)
  have v: "verifyChallengeTimestamp u t CHALLENGE_EXPIRES_IN_MS"
    using assms(5,7,8) by (simp add: verifyChallengeTimestamp_def CLOCK_SKEW_TOLERANCE_MS_def Let_def)
  have e: "env_set (Some x) = (if x = [] then None else Some x)" for x by (simp add: env_set_def)
  have "login E P R Up u (Some pk) (Some ?m) (Some sig) uuid a1 = (generateJwtToken E P u pk uuid, a2)"
    using assms(3,5,9) m s v c match_timestamp_message [OF assms(4), of t]
    by (simp add: login_def e)
  then show ?thesis
    using a1(1) assms(3,10) by (simp add: requestChallenge_def e generateJwtToken_def getJwtSecret_def Let_def)
qed

theorem challenge_login_witness:
  "\<exists>a1 a2. requestChallenge demo_env demo_platform mem_redis Up 1000 (Some ''GADMIN'') demo_nonce demo_auth =
      (Inr \<lparr>message = challenge_message demo_nonce 1000, nonce = demo_nonce, timestamp = 1000,
            expiresIn = CHALLENGE_EXPIRES_IN_MS\<rparr>, a1) \<and>
    login demo_env demo_platform mem_redis Up 2000 (Some ''GADMIN'')
      (Some (challenge_message demo_nonce 1000)) (Some ''AAAA'') ''j1'' a1 = (Inr ''t.GADMIN'', a2)"
proof -
  have "isValidEd25519PublicKey demo_platform ''GADMIN''" by (simp add: demo_platform_def)
  then show ?thesis
    using challenge_login [OF redis_server_mem, of demo_platform "''GADMIN''" demo_nonce 1000 demo_env demo_auth
        2000 "''AAAA''" "''secret''" "''j1''"]
    by (simp add: demo_signature demo_auth_def held_def mem_view_def CHALLENGE_EXPIRES_IN_MS_def)
       (simp add: demo_platform_def)
qed

theorem login_single_use_witness:
  "\<exists>a1. login demo_env demo_platform mem_redis Up 2000 (Some ''GADMIN'')
      (Some (challenge_message demo_nonce 1000)) (Some ''AAAA'') ''j1''
      (snd (generateChallenge demo_env demo_platform mem_redis Up 1000 ''GADMIN'' demo_nonce demo_auth))
      = (Inr ''t.GADMIN'', a1) \<and>
    \<not> is_ok (fst (login demo_env demo_platform mem_redis Up 3000 (Some ''GADMIN'')
      (Some (challenge_message demo_nonce 1000)) (Some ''AAAA'') ''j2'' a1))"
proof -
  let ?m = "challenge_message demo_nonce 1000"
  let ?a = "snd (generateChallenge demo_env demo_platform mem_redis Up 1000 ''GADMIN'' demo_nonce demo_auth)"
  let ?k = "challengeNonceKey ''GADMIN'' demo_nonce"
  have v: "isValidEd25519PublicKey demo_platform ''GADMIN''" by (simp add: demo_platform_def)
  have h: "held mem_view 2000 ?k (acache ?a) = Some (JStr ?m)"
    using mem.generate_ok [OF v, of demo_env 1000 demo_nonce demo_auth]
    by (auto simp: demo_auth_def held_def mem_view_def CHALLENGE_EXPIRES_IN_MS_def)
  have c: "fst (verifyAndConsumeChallenge demo_env demo_platform mem_redis Up 2000 ''GADMIN'' ?m ?a)"
    by (rule mem.consume_ok [OF v parse_nonce_message [OF demo_nonce_ok]]) (simp add: h)
  then obtain a1 where a1: "verifyAndConsumeChallenge demo_env demo_platform mem_redis Up 2000 ''GADMIN'' ?m ?a
      = (True, a1)"
    by (metis (full_types) prod.collapse)
  have e: "env_set (Some x) = (if x = [] then None else Some x)" for x by (simp add: env_set_def)
  have m: "?m \<noteq> []" by (simp add: challenge_message_def)
  have l: "login demo_env demo_platform mem_redis Up 2000 (Some ''GADMIN'') (Some ?m) (Some ''AAAA'') ''j1'' ?a
      = (Inr ''t.GADMIN'', a1)"
    using a1 m match_timestamp_message [OF demo_nonce_ok, of 1000] demo_signature [of "''GADMIN''" ?m]
    by (simp add: login_def e verifyChallengeTimestamp_def CLOCK_SKEW_TOLERANCE_MS_def
        CHALLENGE_EXPIRES_IN_MS_def generateJwtToken_def getJwtSecret_def Let_def)
       (simp add: demo_platform_def)
  moreover have "\<not> is_ok (fst (login demo_env demo_platform mem_redis Up 3000 (Some ''GADMIN'')
      (Some ?m) (Some ''AAAA'') ''j2'' a1))"
    by (rule login_single_use [OF redis_server_mem l auth_run.stop]) simp
  ultimately show ?thesis by blast
qed

text \<open>(C13) A revoked token stays revoked: after a logout with Redis up, through any later run of
  challenges, logins and other logouts, a request whose token verifies to the same token id and expiry
  is refused at every moment, as long as Redis answers the lookup in time; the revocation never lapses
  before the token itself expires.\<close>

theorem logout_revokes:
  assumes "redis_server R view" "jwt_expiry_law P"
    and "jti p \<noteq> []" "now div 1000 < expires p" "0 < expires p"
    and "auth_run E P R (logout R Up now (Some p) a) events a'"
    and "\<forall>x. LoggedOut (jti p) x \<in> set events \<longrightarrow> x = expires p"
    and "\<forall>q tok. verifyJwtToken E P later tok = Some q \<longrightarrow>
           env_set (js_nullish (extractBearerToken h) (extractCookieToken E P ck)) = Some tok \<longrightarrow>
           jti q = jti p \<and> expires q = expires p"
  shows "\<not> is_ok (fst (requireJwtAuth E P R Up True later h ck (acache a')))"
proof -
  have "revoked_until view (jti p) (expires p) (logout R Up now (Some p) a)"
    using redis_server.revoke_sets [OF assms(1,4), of "jti p" "acache a"] assms(3,5)
    by (simp add: logout_def revoked_until_def)
  from redis_server.revoked_run [OF assms(1,6) this assms(7)]
  show ?thesis by (rule redis_server.revoked_refused [OF assms(1,2)]) (use assms(3,8) in auto)
qed

theorem logout_revokes_witness:
  "\<not> is_ok (fst (requireJwtAuth demo_env demo_platform mem_redis Up True 5000
     (Some ''Bearer t.GADMIN'') None
     (acache (logout mem_redis Up 2000 (Some \<lparr>publicKey = ''GADMIN'', role = admin,
        scopes = [''admin:all''], jti = ''j1'', iat = 0, expires = 86400\<rparr>) demo_auth))))"
  by (rule logout_revokes [OF redis_server_mem _ _ _ _ auth_run.stop])
     (auto simp: jwt_expiry_law_def demo_platform_def verifyJwtToken_def split: sum.splits if_splits)

end
