(* ===== verification/Idempotency.thy ===== *)
theory Idempotency
  imports CacheService "HOL-Library.Multiset"
begin

text \<open>
  \<open>src/backend/src/middleware/idempotency.ts\<close>: the canonical text of a request body, the request
  fingerprint, and the middleware with its lookup, its in-flight reservation and its finish handler.
  The hash \<open>sha\<close> is a parameter. The finish handler runs in two steps, as the code awaits between
  them: it releases the reservation, then it stores the response.
\<close>


section \<open>Bodies and fingerprints\<close>

text \<open>Sorting the entries by key gives the order in which the code visits the sorted keys, since the
  keys of an object are distinct.\<close>

fun canonicalStringify :: "json \<Rightarrow> string" where
  "canonicalStringify (JArr vs) = ''['' @ js_join '','' (map canonicalStringify vs) @ '']''"
| "canonicalStringify (JObj kvs) =
     ''{'' @ js_join '','' (map snd (sort_key fst
        (map (\<lambda>(k, v). (k, json_quote k @ '':'' @ canonicalStringify v)) kvs))) @ ''}''"
| "canonicalStringify v = stringify v"

section \<open>The middleware\<close>

definition IDEMPOTENCY_TTL :: seconds where "IDEMPOTENCY_TTL = 24 * 60 * 60"
definition LOCK_TTL_SECONDS :: seconds where "LOCK_TTL_SECONDS = 30"

record idem_request =
  reqMethod :: string
  originalUrl :: "string option"
  baseUrl :: "string option"
  reqPath :: "string option"
  reqBody :: "json option"
  idemKey :: "string option"

definition hashBody :: "(string \<Rightarrow> string) \<Rightarrow> json option \<Rightarrow> string" where
  "hashBody sha body = sha (canonicalStringify (case body of None \<Rightarrow> JNull | Some v \<Rightarrow> v))"

definition request_path :: "idem_request \<Rightarrow> string" where
  "request_path req =
     hd (js_split CHR ''?''
       (case originalUrl req of
          Some u \<Rightarrow> u
        | None \<Rightarrow> (case baseUrl req of None \<Rightarrow> [] | Some b \<Rightarrow> b) @ (case reqPath req of None \<Rightarrow> [] | Some p \<Rightarrow> p)))"

definition computeFingerprint :: "(string \<Rightarrow> string) \<Rightarrow> idem_request \<Rightarrow> string" where
  "computeFingerprint sha req =
     reqMethod req @ '' '' @ request_path req @ ''#'' @ hashBody sha (reqBody req)"

datatype idem_answer =
    NoKey
  | Replayed "json option" "json option"
  | KeyReused
  | InProgress
  | Fresh

definition cache_key :: "string \<Rightarrow> key" where "cache_key k = ''idemp:'' @ k"
definition lock_key :: "string \<Rightarrow> key" where "lock_key k = ''idemp:'' @ k @ '':lock''"

text \<open>The cache hit: \<open>None\<close> when the middleware goes on to the reservation.\<close>

definition idem_lookup ::
  "'s redis \<Rightarrow> server \<Rightarrow> ms \<Rightarrow> string \<Rightarrow> string \<Rightarrow> 's cache \<Rightarrow> idem_answer option \<times> 's cache" where
  "idem_lookup R srv now k fp c =
     (case cache_get R srv now (cache_key k) c of
        (None, c') \<Rightarrow> (None, c')
      | (Some cached, c') \<Rightarrow>
          (if \<not> js_truthy cached then (None, c')
           else if field ''fingerprint'' cached \<noteq> Some (JStr fp) then (Some KeyReused, c')
           else (Some (Replayed (field ''status'' cached) (field ''body'' cached)), c')))"

definition idem_reserve ::
  "'s redis \<Rightarrow> server \<Rightarrow> ms \<Rightarrow> string \<Rightarrow> int \<Rightarrow> 's cache \<Rightarrow> bool \<times> 's cache" where
  "idem_reserve R srv now k pid c =
     setNotExists R srv now (lock_key k) (JObj [(''pid'', JNum pid), (''startedAt'', JNum now)])
       LOCK_TTL_SECONDS c"

definition idempotencyMiddleware ::
  "(string \<Rightarrow> string) \<Rightarrow> 's redis \<Rightarrow> server \<Rightarrow> ms \<Rightarrow> int \<Rightarrow> idem_request \<Rightarrow> 's cache
     \<Rightarrow> idem_answer \<times> 's cache" where
  "idempotencyMiddleware sha R srv now pid req c =
     (case idemKey req of
        None \<Rightarrow> (NoKey, c)
      | Some k \<Rightarrow>
          (if k = [] then (NoKey, c)
           else
             (case idem_lookup R srv now k (computeFingerprint sha req) c of
                (Some answer, c') \<Rightarrow> (answer, c')
              | (None, c') \<Rightarrow>
                  (case idem_reserve R srv now k pid c' of
                     (False, c'') \<Rightarrow> (InProgress, c'')
                   | (True, c'') \<Rightarrow> (Fresh, c'')))))"

definition idem_release :: "'s redis \<Rightarrow> server \<Rightarrow> string \<Rightarrow> 's cache \<Rightarrow> 's cache" where
  "idem_release R srv k c = cache_delete R srv (lock_key k) c"

definition idem_persist ::
  "'s redis \<Rightarrow> server \<Rightarrow> ms \<Rightarrow> string \<Rightarrow> int \<Rightarrow> json option \<Rightarrow> string \<Rightarrow> 's cache \<Rightarrow> 's cache" where
  "idem_persist R srv now k status responseBody fp c =
     (case responseBody of
        None \<Rightarrow> c
      | Some body \<Rightarrow>
          (if 200 \<le> status \<and> status < 500 \<and> js_truthy body
           then cache_set R srv now (cache_key k)
                  (JObj [(''status'', JNum status), (''body'', body), (''fingerprint'', JStr fp)])
                  IDEMPOTENCY_TTL c
           else c))"

definition on_finish ::
  "'s redis \<Rightarrow> server \<Rightarrow> ms \<Rightarrow> string \<Rightarrow> int \<Rightarrow> json option \<Rightarrow> string \<Rightarrow> 's cache \<Rightarrow> 's cache" where
  "on_finish R srv now k status responseBody fp c =
     idem_persist R srv now k status responseBody fp (idem_release R srv k c)"

section \<open>Canonical texts\<close>

text \<open>Equality of values up to the order of object keys.\<close>

fun same_value :: "json \<Rightarrow> json \<Rightarrow> bool" where
  "same_value (JArr vs) (JArr ws) \<longleftrightarrow> list_all2 same_value vs ws"
| "same_value (JObj a) (JObj b) \<longleftrightarrow>
     length a = length b \<and>
     list_all (\<lambda>(k, v). case map_of b k of None \<Rightarrow> False | Some w \<Rightarrow> same_value v w) a"
| "same_value v w \<longleftrightarrow> v = w"

fun sort_keys :: "json \<Rightarrow> json" where
  "sort_keys (JArr vs) = JArr (map sort_keys vs)"
| "sort_keys (JObj kvs) = JObj (sort_key fst (map (\<lambda>(k, v). (k, sort_keys v)) kvs))"
| "sort_keys v = v"

lemma sort_keys_atom [simp]:
  "sort_keys w = JNull \<longleftrightarrow> w = JNull" "JNull = sort_keys w \<longleftrightarrow> w = JNull"
  "sort_keys w = JBool b \<longleftrightarrow> w = JBool b" "JBool b = sort_keys w \<longleftrightarrow> w = JBool b"
  "sort_keys w = JNum n \<longleftrightarrow> w = JNum n" "JNum n = sort_keys w \<longleftrightarrow> w = JNum n"
  "sort_keys w = JStr s \<longleftrightarrow> w = JStr s" "JStr s = sort_keys w \<longleftrightarrow> w = JStr s"
  by (cases w; force)+

lemma insort_key_map:
  "(\<And>x. fst (h x) = fst x) \<Longrightarrow> map h (insort_key fst x xs) = insort_key fst (h x) (map h xs)"
  by (induction xs) auto

lemma sort_key_map: "(\<And>x. fst (h x) = fst x) \<Longrightarrow> sort_key fst (map h xs) = map h (sort_key fst xs)"
  by (induction xs) (auto simp: insort_key_map)

lemma canonical_eq: "canonicalStringify v = stringify (sort_keys v)"
proof (induction v rule: canonicalStringify.induct)
  case (1 vs)
  then show ?case by (simp add: comp_def cong: map_cong)
next
  case (2 kvs)
  have a: "map (\<lambda>(k, v). (k, json_quote k @ '':'' @ canonicalStringify v)) kvs
      = map (\<lambda>(k, v). (k, json_quote k @ '':'' @ stringify v)) (map (\<lambda>(k, v). (k, sort_keys v)) kvs)"
    using 2 by (auto simp: comp_def)
  show ?case
    by (simp only: canonicalStringify.simps a sort_keys.simps stringify.simps)
       (subst sort_key_map; auto simp: comp_def case_prod_unfold)
qed simp_all

lemma map_of_sort_keys:
  "map_of (map (\<lambda>(k, v). (k, f v)) kvs) k = map_option f (map_of kvs k)"
  by (induction kvs) auto

lemma sort_key_eq_iff:
  assumes "distinct (map fst a)" "distinct (map fst b)"
  shows "sort_key fst a = sort_key fst b \<longleftrightarrow> map_of a = map_of b"
proof
  assume "sort_key fst a = sort_key fst b"
  then have "set a = set b" by (metis set_sort)
  with assms show "map_of a = map_of b" by (simp add: map_of_inject_set)
next
  assume "map_of a = map_of b"
  then have "set a = set b" using assms by (simp add: map_of_inject_set)
  then have m: "mset a = mset b" using assms by (metis distinct_map set_eq_iff_mset_eq_distinct)
  have "inj_on fst (set a)" using assms(1) by (simp add: distinct_map)
  with m show "sort_key fst a = sort_key fst b"
    by (intro sort_key_inj_key_eq) simp_all
qed

lemma same_value_iff: "wf_json v \<Longrightarrow> wf_json w \<Longrightarrow> same_value v w \<longleftrightarrow> sort_keys v = sort_keys w"
proof (induction v w rule: same_value.induct)
  case (1 vs ws)
  have "same_value (vs ! i) (ws ! i) \<longleftrightarrow> sort_keys (vs ! i) = sort_keys (ws ! i)"
    if "i < length vs" "length vs = length ws" for i
    by (rule 1(1)) (use 1(2,3) that in \<open>auto simp: list_all_length\<close>)
  then have "list_all2 same_value vs ws \<longleftrightarrow> map sort_keys vs = map sort_keys ws"
    unfolding list_all2_conv_all_nth list_eq_iff_nth_eq by auto
  then show ?case by simp
next
  case (2 a b)
  let ?f = "map (\<lambda>(k, v). (k, sort_keys v))"
  have d: "distinct (map fst a)" "distinct (map fst b)" using 2 by auto
  have fst_f: "map fst (?f xs) = map fst xs" for xs by (simp add: case_prod_unfold comp_def)
  have d': "distinct (map fst (?f a))" "distinct (map fst (?f b))" using d unfolding fst_f by simp_all
  have len: "length xs = card (dom (map_of xs))" if "distinct (map fst xs)" for xs :: "(string \<times> json) list"
    using that by (metis distinct_card dom_map_of_conv_image_fst length_map list.set_map)
  have "same_value (JObj a) (JObj b) \<longleftrightarrow>
      length a = length b \<and> (\<forall>k v. map_of a k = Some v \<longrightarrow>
         map_option sort_keys (map_of b k) = Some (sort_keys v))"
  proof -
    have e: "(case map_of b k of None \<Rightarrow> False | Some w \<Rightarrow> same_value v w)
        \<longleftrightarrow> map_option sort_keys (map_of b k) = Some (sort_keys v)" if "(k, v) \<in> set a" for k v
    proof (cases "map_of b k")
      case (Some w)
      then have "wf_json w" using 2(3) by (auto simp: list_all_iff dest!: map_of_SomeD)
      moreover have "wf_json v" using 2(2) that by (auto simp: list_all_iff)
      ultimately have "same_value v w = (sort_keys v = sort_keys w)" using 2(1) [OF that refl Some] by simp
      with Some show ?thesis by auto
    qed simp
    show ?thesis
      using e by (auto simp: list_all_iff map_of_eq_Some_iff [OF d(1)])
  qed
  also have "\<dots> \<longleftrightarrow> (\<forall>k. map_option sort_keys (map_of a k) = map_option sort_keys (map_of b k))"
  proof
    assume l: "length a = length b \<and> (\<forall>k v. map_of a k = Some v \<longrightarrow>
         map_option sort_keys (map_of b k) = Some (sort_keys v))"
    then have s: "dom (map_of a) \<subseteq> dom (map_of b)" by fastforce
    have "dom (map_of a) = dom (map_of b)"
      by (rule card_subset_eq [OF finite_dom_map_of s]) (use l len d in metis)
    then show "\<forall>k. map_option sort_keys (map_of a k) = map_option sort_keys (map_of b k)"
      using l by (metis (no_types, lifting) domIff not_None_eq option.map_disc_iff option.simps(9))
  next
    assume r: "\<forall>k. map_option sort_keys (map_of a k) = map_option sort_keys (map_of b k)"
    then have "dom (map_of a) = dom (map_of b)" by (metis (mono_tags) domIff option.map_disc_iff subsetI subset_antisym)
    then have "length a = length b" using len d by metis
    with r show "length a = length b \<and> (\<forall>k v. map_of a k = Some v \<longrightarrow>
         map_option sort_keys (map_of b k) = Some (sort_keys v))" by (metis option.simps(9))
  qed
  also have "\<dots> \<longleftrightarrow> map_of (?f a) = map_of (?f b)" by (auto simp: map_of_sort_keys fun_eq_iff)
  also have "\<dots> \<longleftrightarrow> sort_keys (JObj a) = sort_keys (JObj b)" by (simp add: sort_key_eq_iff [OF d'])
  finally show ?case .
qed auto

lemma canonical_same_value:
  "wf_json v \<Longrightarrow> wf_json w \<Longrightarrow> canonicalStringify v = canonicalStringify w \<longleftrightarrow> same_value v w"
  by (simp add: canonical_eq same_value_iff)

lemma append_first:
  "c \<notin> set a \<Longrightarrow> c \<notin> set b \<Longrightarrow> a @ c # r = b @ c # s \<Longrightarrow> a = b \<and> r = s"
proof (induction a arbitrary: b)
  case Nil
  then show ?case by (cases b) auto
next
  case (Cons x a)
  then show ?case by (cases b) auto
qed

lemma fingerprint_inject:
  assumes "CHR '' '' \<notin> set (reqMethod p)" "CHR '' '' \<notin> set (reqMethod q)"
    and "\<And>x. length (sha x) = n"
  shows "computeFingerprint sha p = computeFingerprint sha q \<longleftrightarrow>
    reqMethod p = reqMethod q \<and> request_path p = request_path q \<and>
    hashBody sha (reqBody p) = hashBody sha (reqBody q)"
proof
  assume "computeFingerprint sha p = computeFingerprint sha q"
  then have e: "reqMethod p @ CHR '' '' # request_path p @ ''#'' @ hashBody sha (reqBody p)
      = reqMethod q @ CHR '' '' # request_path q @ ''#'' @ hashBody sha (reqBody q)"
    by (simp only: computeFingerprint_def append_Cons append_Nil append_assoc)
  have m: "reqMethod p = reqMethod q \<and>
      request_path p @ ''#'' @ hashBody sha (reqBody p) = request_path q @ ''#'' @ hashBody sha (reqBody q)"
    by (rule append_first [OF assms(1,2) e])
  moreover have "length (hashBody sha b) = n" for b by (simp add: hashBody_def assms(3))
  ultimately show "reqMethod p = reqMethod q \<and> request_path p = request_path q \<and>
      hashBody sha (reqBody p) = hashBody sha (reqBody q)"
    using append_eq_append_conv [of "request_path p @ ''#''" "request_path q @ ''#''"
        "hashBody sha (reqBody p)" "hashBody sha (reqBody q)"]
    by (simp only: append_assoc same_append_eq append_same_eq) blast
qed (simp only: computeFingerprint_def)


section \<open>Concurrent requests\<close>

text \<open>Requests with one idempotency key, interleaved at the points where the middleware awaits.
  \<open>F\<close> gives the fingerprint and \<open>resp\<close> the status and body that the handler of a request produces;
  \<open>executed\<close> logs the handlers that have been started.\<close>

datatype idem_phase = Arrived | Missed | Holding ms | Released | Answered

record 's idem_sys =
  icache :: "'s cache"
  phase :: "nat \<Rightarrow> idem_phase"
  executed :: "nat list"

inductive idem_step ::
  "'s redis \<Rightarrow> string \<Rightarrow> (nat \<Rightarrow> string) \<Rightarrow> (nat \<Rightarrow> int \<times> json option)
     \<Rightarrow> ms \<Rightarrow> 's idem_sys \<Rightarrow> 's idem_sys \<Rightarrow> bool"
  for R :: "'s redis" and K :: string and F :: "nat \<Rightarrow> string" and resp :: "nat \<Rightarrow> int \<times> json option" where
  miss: "phase s i = Arrived \<Longrightarrow> idem_lookup R srv t K (F i) (icache s) = (None, c) \<Longrightarrow>
    idem_step R K F resp t s (s\<lparr>icache := c, phase := (phase s)(i := Missed)\<rparr>)"
| hit: "phase s i = Arrived \<Longrightarrow> idem_lookup R srv t K (F i) (icache s) = (Some answer, c) \<Longrightarrow>
    idem_step R K F resp t s (s\<lparr>icache := c, phase := (phase s)(i := Answered)\<rparr>)"
| reserve: "phase s i = Missed \<Longrightarrow> idem_reserve R srv t K pid (icache s) = (True, c) \<Longrightarrow>
    idem_step R K F resp t s
      (s\<lparr>icache := c, phase := (phase s)(i := Holding t), executed := executed s @ [i]\<rparr>)"
| busy: "phase s i = Missed \<Longrightarrow> idem_reserve R srv t K pid (icache s) = (False, c) \<Longrightarrow>
    idem_step R K F resp t s (s\<lparr>icache := c, phase := (phase s)(i := Answered)\<rparr>)"
| release: "phase s i = Holding u \<Longrightarrow>
    idem_step R K F resp t s
      (s\<lparr>icache := idem_release R srv K (icache s), phase := (phase s)(i := Released)\<rparr>)"
| persist: "phase s i = Released \<Longrightarrow>
    idem_step R K F resp t s
      (s\<lparr>icache := idem_persist R srv t K (fst (resp i)) (snd (resp i)) (F i) (icache s),
         phase := (phase s)(i := Answered)\<rparr>)"

text \<open>Runs in which no handler outlives its reservation: each step comes before every held
  reservation has run out.\<close>

inductive prompt_run ::
  "'s redis \<Rightarrow> string \<Rightarrow> (nat \<Rightarrow> string) \<Rightarrow> (nat \<Rightarrow> int \<times> json option) \<Rightarrow> 's idem_sys
     \<Rightarrow> 's idem_sys \<Rightarrow> bool"
  for R :: "'s redis" and K :: string and F :: "nat \<Rightarrow> string" and resp :: "nat \<Rightarrow> int \<times> json option"
    and s0 :: "'s idem_sys" where
  start: "prompt_run R K F resp s0 s0"
| step: "prompt_run R K F resp s0 s \<Longrightarrow> idem_step R K F resp t s s' \<Longrightarrow>
    (\<forall>i u. phase s i = Holding u \<longrightarrow> t < u + 1000 * LOCK_TTL_SECONDS) \<Longrightarrow>
    prompt_run R K F resp s0 s'"

lemma keys_differ [simp]: "cache_key k \<noteq> lock_key k" "lock_key k \<noteq> cache_key k"
  by (simp_all add: cache_key_def lock_key_def)

lemma lookup_client:
  "idem_lookup R srv t k fp c = (x, c') \<Longrightarrow> client c' = client c"
  by (cases srv) (auto simp: idem_lookup_def cache_get_def split: option.splits if_splits)

context redis_server
begin

definition lock_inv :: "string \<Rightarrow> 's idem_sys \<Rightarrow> bool" where
  "lock_inv k s \<longleftrightarrow>
     (\<forall>i j u w. phase s i = Holding u \<longrightarrow> phase s j = Holding w \<longrightarrow> i = j) \<and>
     (\<forall>i u. phase s i = Holding u \<longrightarrow>
        (\<exists>v. view (client (icache s)) (lock_key k) = Some (v, Some (u + 1000 * LOCK_TTL_SECONDS))))"

lemma lock_inv_frame:
  assumes "lock_inv k s" "client (icache s') = client (icache s)"
    and "\<And>j u. phase s' j = Holding u \<Longrightarrow> phase s j = Holding u"
  shows "lock_inv k s'"
  unfolding lock_inv_def using assms unfolding lock_inv_def by metis

lemma persist_lock:
  "view (client (idem_persist R srv t k status body fp c)) (lock_key k) = view (client c) (lock_key k)"
proof (cases srv)
  case Up
  then show ?thesis
    using setex_law [of IDEMPOTENCY_TTL t "cache_key k" _ "client c"]
    by (auto simp: idem_persist_def cache_set_def IDEMPOTENCY_TTL_def split: option.splits)
       (metis fun_upd_other keys_differ(2) option.inject option.distinct(1))+
qed (auto simp: idem_persist_def cache_set_def split: option.splits)

lemma lock_inv_step:
  assumes "idem_step R k F resp t s s'" "lock_inv k s"
    and "\<forall>i u. phase s i = Holding u \<longrightarrow> t < u + 1000 * LOCK_TTL_SECONDS"
  shows "lock_inv k s'"
  using assms(1)
proof cases
  case (miss i srv c)
  show ?thesis
    by (rule lock_inv_frame [OF assms(2)])
       (use miss lookup_client in \<open>auto split: if_splits\<close>)
next
  case (hit i srv a c)
  show ?thesis
    by (rule lock_inv_frame [OF assms(2)])
       (use hit lookup_client in \<open>auto split: if_splits\<close>)
next
  case (reserve i srv pid c)
  then have srv: "srv = Up" by (cases srv) (auto simp: idem_reserve_def setNotExists_def)
  let ?v = "JObj [(''pid'', JNum pid), (''startedAt'', JNum t)]"
  have "SETNX R t (lock_key k) ?v LOCK_TTL_SECONDS (client (icache s)) = Some (client c)"
    using reserve(3) srv by (auto simp: idem_reserve_def setNotExists_def split: option.splits)
  from setnx_view [OF this] have free: "live t (view (client (icache s)) (lock_key k)) = None"
    and set: "view (client c) (lock_key k) = Some (?v, Some (t + 1000 * LOCK_TTL_SECONDS))"
    by auto
  have none: "phase s j \<noteq> Holding u" for j u
  proof
    assume h: "phase s j = Holding u"
    with assms(2) obtain v where "view (client (icache s)) (lock_key k)
        = Some (v, Some (u + 1000 * LOCK_TTL_SECONDS))" unfolding lock_inv_def by blast
    with free assms(3) h show False by auto
  qed
  show ?thesis unfolding lock_inv_def reserve(1) using none set by auto
next
  case (busy i srv pid c)
  then have "client c = client (icache s)"
    by (cases srv) (auto simp: idem_reserve_def setNotExists_def split: option.splits)
  show ?thesis
    by (rule lock_inv_frame [OF assms(2)])
       (use busy \<open>client c = _\<close> in \<open>auto split: if_splits\<close>)
next
  case (release i u srv)
  then have "phase s' j \<noteq> Holding w" for j w
    using assms(2) unfolding lock_inv_def by (metis fun_upd_apply idem_phase.distinct(15)
        idem_sys.ext_inject idem_sys.surjective idem_sys.update_convs(1,2))
  then show ?thesis unfolding lock_inv_def by blast
next
  case (persist i srv)
  then have "phase s j = Holding u" if "phase s' j = Holding u" for j u
    using that by (auto split: if_splits)
  moreover have "view (client (icache s')) (lock_key k) = view (client (icache s)) (lock_key k)"
    using persist persist_lock by simp
  ultimately show ?thesis using assms(2) unfolding lock_inv_def by metis
qed

lemma lock_inv_run:
  "prompt_run R k F resp s0 s \<Longrightarrow> (\<And>i u. phase s0 i \<noteq> Holding u) \<Longrightarrow> lock_inv k s"
proof (induction rule: prompt_run.induct)
  case start
  then show ?case by (simp add: lock_inv_def)
next
  case (step s t s')
  then show ?case using lock_inv_step by blast
qed

lemma replay_after_finish:
  assumes "200 \<le> status" "status < 500" "js_truthy body" "k \<noteq> []" "idemKey req = Some k"
    and "u < t + 1000 * IDEMPOTENCY_TTL"
  shows "\<exists>c'. idempotencyMiddleware sha R Up u pid req (on_finish R Up t k status (Some body) fp c) =
      (if computeFingerprint sha req = fp then Replayed (Some (JNum status)) (Some body) else KeyReused, c')
    \<and> client c' = client (on_finish R Up t k status (Some body) fp c)"
proof -
  let ?c = "on_finish R Up t k status (Some body) fp c"
  let ?v = "JObj [(''status'', JNum status), (''body'', body), (''fingerprint'', JStr fp)]"
  let ?m = "client (idem_release R Up k c)"
  obtain s' where s': "SETEX R t (cache_key k) IDEMPOTENCY_TTL ?v ?m = Some s'"
    "view s' = (view ?m)(cache_key k \<mapsto> (?v, Some (t + 1000 * IDEMPOTENCY_TTL)))"
    using setex_law [of IDEMPOTENCY_TTL t "cache_key k" ?v ?m] by (auto simp: IDEMPOTENCY_TTL_def)
  then have "client ?c = s'"
    using assms(1-3) by (simp add: on_finish_def idem_persist_def cache_set_def)
  then have "GET R u (cache_key k) (client ?c) = Some ?v"
    using s'(2) assms(6) by (simp add: get_law)
  then show ?thesis
    using assms(4,5)
    by (simp add: idempotencyMiddleware_def idem_lookup_def cache_get_def field_def)
qed

end

section \<open>Properties\<close>

text \<open>A fingerprint binds the key to one operation: two requests have the same fingerprint exactly
  when their method, path without query and JSON body agree, where the order of object keys at any
  depth does not count (a hash of fixed length that does not collide on the two bodies).\<close>

theorem fingerprint_binds:
  assumes "CHR '' '' \<notin> set (reqMethod p)" "CHR '' '' \<notin> set (reqMethod q)"
    and "\<forall>x. length (sha x) = n" "reqBody p = Some v" "reqBody q = Some w" "wf_json v" "wf_json w"
    and "sha (canonicalStringify v) = sha (canonicalStringify w) \<longrightarrow>
           canonicalStringify v = canonicalStringify w"
  shows "computeFingerprint sha p = computeFingerprint sha q \<longleftrightarrow>
    reqMethod p = reqMethod q \<and> request_path p = request_path q \<and> same_value v w"
  using assms(3,8) canonical_same_value [OF assms(6,7)]
  by (auto simp: fingerprint_inject [OF assms(1,2)] hashBody_def assms(4,5))

definition demo_request :: "json \<Rightarrow> idem_request" where
  "demo_request body = \<lparr>reqMethod = ''POST'', originalUrl = Some ''/loans?x=1'', baseUrl = None,
     reqPath = None, reqBody = Some body, idemKey = Some ''k1''\<rparr>"

theorem fingerprint_binds_witness:
  "computeFingerprint (\<lambda>s. [last (butlast (butlast s))])
     (demo_request (JObj [(''b'', JNum 2), (''a'', JStr ''x'')]))
   = computeFingerprint (\<lambda>s. [last (butlast (butlast s))])
     (demo_request (JObj [(''a'', JStr ''x''), (''b'', JNum 2)]))"
  by (subst fingerprint_binds [where n = 1 and v = "JObj [(''b'', JNum 2), (''a'', JStr ''x'')]"
        and w = "JObj [(''a'', JStr ''x''), (''b'', JNum 2)]"])
     (auto simp: demo_request_def request_path_def canonical_same_value)

text \<open>(C11) A finished request is replayed and not executed again: for a day after its finish handler has
  stored a response with a status from 200 to 499, every request with the same key gets that status
  and body if its fingerprint is the same and is refused if it is not; no such request reaches its
  handler or changes the store.\<close>

theorem idempotent_replay:
  assumes "redis_server R view" "200 \<le> status" "status < 500" "js_truthy body" "k \<noteq> []"
    and "idemKey req = Some k" "u < t + 1000 * IDEMPOTENCY_TTL"
  shows "\<exists>c'. idempotencyMiddleware sha R Up u pid req (on_finish R Up t k status (Some body) fp c) =
      (if computeFingerprint sha req = fp then Replayed (Some (JNum status)) (Some body) else KeyReused, c')
    \<and> client c' = client (on_finish R Up t k status (Some body) fp c)"
  by (rule redis_server.replay_after_finish [OF assms])

theorem idempotent_replay_witness:
  "\<exists>c'. idempotencyMiddleware (\<lambda>s. ''h'') mem_redis Up 5000 7 (demo_request JNull)
      (on_finish mem_redis Up 1000 ''k1'' 201 (Some (JStr ''ok'')) ''POST /loans#h''
        \<lparr>client = (\<lambda>_. None), isConnected = True\<rparr>) =
      (Replayed (Some (JNum 201)) (Some (JStr ''ok'')), c')"
  using idempotent_replay [OF redis_server_mem, of 201 "JStr ''ok''" "''k1''" "demo_request JNull" 5000 1000
      "\<lambda>s. ''h''" 7 "''POST /loans#h''" "\<lparr>client = (\<lambda>_. None), isConnected = True\<rparr>"]
  by (auto simp: demo_request_def computeFingerprint_def request_path_def hashBody_def IDEMPOTENCY_TTL_def)


text \<open>A run of two requests with key \<open>k1\<close> on an empty store.\<close>

definition store_free :: "mem_state cache" where
  "store_free = \<lparr>client = (\<lambda>_. None), isConnected = True\<rparr>"

definition store_held :: "ms \<Rightarrow> mem_state cache" where
  "store_held t =
     \<lparr>client = (\<lambda>_. None)(lock_key ''k1'' \<mapsto>
        (JObj [(''pid'', JNum 7), (''startedAt'', JNum t)], Some (t + 30000))), isConnected = True\<rparr>"

definition demo_sys :: "idem_phase \<Rightarrow> idem_phase \<Rightarrow> nat list \<Rightarrow> mem_state cache \<Rightarrow> mem_state idem_sys" where
  "demo_sys p q ex c = \<lparr>icache = c, phase = (\<lambda>_. Arrived)(0 := p, 1 := q), executed = ex\<rparr>"

abbreviation demo_run :: "mem_state idem_sys \<Rightarrow> bool" where
  "demo_run \<equiv> prompt_run mem_redis ''k1'' (\<lambda>_. ''fp'') (\<lambda>_. (201, Some (JStr ''ok'')))
     (demo_sys Arrived Arrived [] store_free)"

lemma demo_lookup: "idem_lookup mem_redis Up t ''k1'' fp store_free = (None, store_free)"
  by (simp add: idem_lookup_def cache_get_def mem_redis_def store_free_def)

lemma demo_reserve: "idem_reserve mem_redis Up t ''k1'' 7 store_free = (True, store_held t)"
  by (simp add: idem_reserve_def setNotExists_def mem_redis_def store_free_def store_held_def
      LOCK_TTL_SECONDS_def)

lemma demo_release: "idem_release mem_redis Up ''k1'' (store_held t) = store_free"
  by (simp add: idem_release_def cache_delete_def mem_redis_def store_free_def store_held_def)

lemma demo_next:
  "demo_run s \<Longrightarrow> idem_step mem_redis ''k1'' (\<lambda>_. ''fp'') (\<lambda>_. (201, Some (JStr ''ok''))) t s s1 \<Longrightarrow>
     s1 = s' \<Longrightarrow> \<forall>i u. phase s i = Holding u \<longrightarrow> t < u + 1000 * LOCK_TTL_SECONDS \<Longrightarrow> demo_run s'"
  using prompt_run.step by metis

lemma demo_sys_simps [simp]:
  "phase (demo_sys p q ex c) 0 = p" "phase (demo_sys p q ex c) (Suc 0) = q" "icache (demo_sys p q ex c) = c"
  "executed (demo_sys p q ex c) = ex"
  "phase (demo_sys p q ex c) i = Holding u \<longleftrightarrow> i = 0 \<and> p = Holding u \<or> i = 1 \<and> q = Holding u"
  by (auto simp: demo_sys_def)

lemma demo_sys_update:
  "demo_sys p q ex c\<lparr>icache := c', phase := (phase (demo_sys p q ex c))(0 := p')\<rparr> = demo_sys p' q ex c'"
  "demo_sys p q ex c\<lparr>icache := c', phase := (phase (demo_sys p q ex c))(1 := q')\<rparr> = demo_sys p q' ex c'"
  "demo_sys p q ex c\<lparr>icache := c', phase := (phase (demo_sys p q ex c))(0 := p'), executed := ex'\<rparr>
     = demo_sys p' q ex' c'"
  "demo_sys p q ex c\<lparr>icache := c', phase := (phase (demo_sys p q ex c))(1 := q'), executed := ex'\<rparr>
     = demo_sys p q' ex' c'"
  "demo_sys p q ex c\<lparr>executed := ex'\<rparr> = demo_sys p q ex' c"
  by (auto simp: demo_sys_def)

lemma first_held_run: "demo_run (demo_sys (Holding 2) Arrived [0] (store_held 2))"
proof -
  have 1: "demo_run (demo_sys Missed Arrived [] store_free)"
    by (rule demo_next [OF prompt_run.start idem_step.miss [where i = 0 and srv = Up and t = 1]])
       (simp_all add: demo_lookup demo_sys_update)
  show ?thesis
    by (rule demo_next [OF 1 idem_step.reserve [where i = 0 and srv = Up and t = 2 and pid = 7]])
       (simp_all add: demo_reserve demo_sys_update)
qed


text \<open>Mutual exclusion is not single execution: the finish handler gives the reservation back before
  it stores the response, and the lookup precedes the reservation. So there is a run, with Redis up and
  every step within the first seconds, in which two requests with the same key and the same
  fingerprint both execute their handlers.\<close>

theorem idempotency_double_execution:
  "\<exists>s. prompt_run mem_redis ''k1'' (\<lambda>_. ''fp'') (\<lambda>_. (201, Some (JStr ''ok'')))
         (demo_sys Arrived Arrived [] store_free) s \<and> executed s = [0, 1]"
proof -
  have 3: "demo_run (demo_sys Released Arrived [0] store_free)"
    by (rule demo_next [OF first_held_run idem_step.release [where i = 0 and u = 2 and srv = Up and t = 3]])
       (simp_all add: demo_release demo_sys_update LOCK_TTL_SECONDS_def)
  have 4: "demo_run (demo_sys Released Missed [0] store_free)"
    by (rule demo_next [OF 3 idem_step.miss [where i = 1 and srv = Up and t = 4]])
       (simp_all add: demo_lookup demo_sys_update [unfolded One_nat_def])
  have 5: "demo_run (demo_sys Released (Holding 5) [0, 1] (store_held 5))"
    by (rule demo_next [OF 4 idem_step.reserve [where i = 1 and srv = Up and t = 5 and pid = 7]])
       (simp_all add: demo_reserve demo_sys_update [unfolded One_nat_def])
  have "executed (demo_sys Released (Holding 5) [0, 1] (store_held 5)) = [0, 1]"
    by (simp add: demo_sys_def)
  with 5 show ?thesis by blast
qed

end
