(* ===== verification/Scores.thy ===== *)
theory Scores
  imports CacheService AppErrors EventStore
begin

text \<open>
  Credit scores: the bulk writes of \<open>src/backend/src/services/scoresService.ts\<close>, the decay of
  \<open>scoreDecayService.ts\<close> with its job \<open>src/backend/src/cron/scoreDecayJob.ts\<close>, the reconciliation with
  the chain of \<open>scoreReconciliationService.ts\<close>, the score deltas of \<open>sorobanService.ts\<close>
  (\<open>getScoreConfig\<close>, \<open>validateScoreConfig\<close>) and \<open>src/backend/src/config/loanConfig.ts\<close>. The table
  \<open>scores\<close> is an association list with a key per borrower; the score cache is the Redis cache. The
  on-chain score of a borrower is the parameter \<open>chain\<close>, \<open>None\<close> for a lookup that fails.
\<close>

section \<open>Bulk writes\<close>

type_synonym score_table = "(string \<times> int) list"

record 's score_sys =
  scores :: score_table
  score_cache :: "'s cache"

definition clamp :: "int \<Rightarrow> int" where "clamp x = min 850 (max 300 x)"

text \<open>One row of the upsert: \<open>EXCLUDED.score\<close> is the clamped value of the insert.\<close>

definition upsert_delta :: "string \<times> int \<Rightarrow> score_table \<Rightarrow> score_table" where
  "upsert_delta upd tbl =
     (case upd of (userId, delta) \<Rightarrow>
        (let excluded = clamp (500 - delta) in
         case map_of tbl userId of
           None \<Rightarrow> js_map_set userId excluded tbl
         | Some s \<Rightarrow> js_map_set userId (clamp (s + excluded - 500)) tbl))"

definition invalidate_scores ::
  "'s redis \<Rightarrow> server \<Rightarrow> string list \<Rightarrow> 's cache \<Rightarrow> 's cache" where
  "invalidate_scores R srv userIds c =
     fold (\<lambda>u c. cache_delete R srv (''score:breakdown:'' @ u)
                   (cache_delete R srv (''score:userId:'' @ u) c)) userIds c"

definition updateUserScoresBulk ::
  "'s redis \<Rightarrow> server \<Rightarrow> bool \<Rightarrow> (string \<times> int) list \<Rightarrow> 's score_sys \<Rightarrow> (http_error + unit) \<times> 's score_sys" where
  "updateUserScoresBulk R srv db_up updates s =
     (if updates = [] then (Inr (), s)
      else
        (let rows = filter (\<lambda>(userId, delta). userId \<noteq> []) updates in
         if rows = [] then (Inr (), s)
         else if \<not> db_up then (Inl (Thrown ''database error''), s)
         else (Inr (), s\<lparr>scores := fold upsert_delta rows (scores s),
                         score_cache := invalidate_scores R srv (map fst rows) (score_cache s)\<rparr>)))"

definition setAbsoluteUserScoresBulk ::
  "'s redis \<Rightarrow> server \<Rightarrow> bool \<Rightarrow> (string \<times> int) list \<Rightarrow> 's score_sys \<Rightarrow> (http_error + unit) \<times> 's score_sys" where
  "setAbsoluteUserScoresBulk R srv db_up new s =
     (if new = [] then (Inr (), s)
      else
        (let rows = filter (\<lambda>(userId, score). userId \<noteq> []) new in
         if rows = [] then (Inr (), s)
         else if \<not> db_up then (Inl (Thrown ''database error''), s)
         else (Inr (), s\<lparr>scores := fold (\<lambda>(u, v). js_map_set u v) rows (scores s),
                         score_cache := invalidate_scores R srv (map fst rows) (score_cache s)\<rparr>)))"

section \<open>Decay\<close>

definition DECAY_PER_MONTH :: int where "DECAY_PER_MONTH = 5"
definition MIN_SCORE :: int where "MIN_SCORE = 300"

record inactive_borrower =
  ibBorrower :: string
  ibScore :: int
  last_repayment :: "ms option"

text \<open>The moment \<open>NOW() - INTERVAL '1 month'\<close> is an argument.\<close>

definition getInactiveBorrowers :: "ms \<Rightarrow> event_row list \<Rightarrow> score_table \<Rightarrow> inactive_borrower list" where
  "getInactiveBorrowers month_ago events tbl =
     filter (\<lambda>b. case last_repayment b of None \<Rightarrow> True | Some t \<Rightarrow> t < month_ago)
       (map (\<lambda>(u, s). \<lparr>ibBorrower = u, ibScore = s,
               last_repayment = sql_max (map (\<lambda>e. Some (ledger_closed_at e))
                 (filter (\<lambda>e. address e = Some u \<and> event_type e = ''LoanRepaid'') events))\<rparr>) tbl)"

definition applyScoreDecay :: "ms \<Rightarrow> inactive_borrower \<Rightarrow> score_table \<Rightarrow> int \<times> score_table" where
  "applyScoreDecay now b tbl =
     (let monthsInactive =
            (case last_repayment b of None \<Rightarrow> 1
             | Some t \<Rightarrow> max 1 ((now - t) div (30 * 24 * 60 * 60 * 1000)));
          decay = monthsInactive * DECAY_PER_MONTH;
          newScore = max MIN_SCORE (ibScore b - decay)
      in (newScore,
          case map_of tbl (ibBorrower b) of
            None \<Rightarrow> tbl | Some _ \<Rightarrow> js_map_set (ibBorrower b) newScore tbl))"

text \<open>One run of the job when no other is running; \<open>fails b\<close> says that the update of a borrower
  throws, which the job logs and skips.\<close>

definition runScoreDecayJob ::
  "ms \<Rightarrow> ms \<Rightarrow> (string \<Rightarrow> bool) \<Rightarrow> event_row list \<Rightarrow> bool \<times> score_table \<Rightarrow> bool \<times> score_table" where
  "runScoreDecayJob now month_ago fails events st =
     (case st of (isRunning, tbl) \<Rightarrow>
        (if isRunning then st
         else (False,
               fold (\<lambda>b tbl. if fails (ibBorrower b) then tbl else snd (applyScoreDecay now b tbl))
                 (getInactiveBorrowers month_ago events tbl) tbl)))"

section \<open>Reconciliation with the chain\<close>

record active_row =
  arAddress :: string
  dbScore :: "int option"

record divergence =
  dvAddress :: string
  dvDbScore :: "int option"
  contractScore :: int
  absoluteDifference :: "int option"

record reconciliation =
  activeBorrowerCount :: nat
  checkedBorrowerCount :: nat
  failedBorrowerCount :: nat
  divergences :: "divergence list"
  corrections :: "(string \<times> int) list"

record reconcile_config =
  batchSize :: nat
  maxBorrowersPerRun :: nat
  autoCorrectEnabled :: bool
  autoCorrectThreshold :: int

definition getReconcileConfig :: "(string \<Rightarrow> string option) \<Rightarrow> reconcile_config" where
  "getReconcileConfig getenv =
     \<lparr>batchSize = nat (parsePositiveInt (getenv ''SCORE_RECONCILIATION_BATCH_SIZE'') 25),
      maxBorrowersPerRun = nat (parsePositiveInt (getenv ''SCORE_RECONCILIATION_MAX_BORROWERS_PER_RUN'') 500),
      autoCorrectEnabled = parseBoolean (getenv ''SCORE_RECONCILIATION_AUTOCORRECT_ENABLED'') False,
      autoCorrectThreshold = parseNonNegativeInt (getenv ''SCORE_RECONCILIATION_AUTOCORRECT_THRESHOLD'') 50\<rparr>"

definition active_address :: "event_row list \<Rightarrow> event_row \<Rightarrow> bool" where
  "active_address events r \<longleftrightarrow>
     event_type r = ''LoanApproved'' \<and> loan_id r \<noteq> None \<and> address r \<noteq> None \<and> address r \<noteq> Some [] \<and>
     \<not> list_ex (\<lambda>e. loan_id e = loan_id r \<and> event_type e \<in> {''LoanRepaid'', ''LoanDefaulted''}) events"

definition fetchActiveBorrowerScores :: "nat \<Rightarrow> event_row list \<Rightarrow> score_table \<Rightarrow> active_row list" where
  "fetchActiveBorrowerScores lim events tbl =
     map (\<lambda>a. \<lparr>arAddress = a, dbScore = map_of tbl a\<rparr>)
       (take lim (sort (remdups (map (\<lambda>r. the (address r)) (filter (active_address events) events)))))"

text \<open>The handling of one settled lookup.\<close>

definition settle_borrower ::
  "reconcile_config \<Rightarrow> (string \<Rightarrow> int option) \<Rightarrow> active_row \<Rightarrow> reconciliation \<Rightarrow> reconciliation" where
  "settle_borrower cfg chain row acc =
     (case chain (arAddress row) of
        None \<Rightarrow> acc\<lparr>failedBorrowerCount := failedBorrowerCount acc + 1\<rparr>
      | Some onChain \<Rightarrow>
          (let acc1 = acc\<lparr>checkedBorrowerCount := checkedBorrowerCount acc + 1\<rparr>;
               difference = map_option (\<lambda>d. \<bar>onChain - d\<bar>) (dbScore row);
               isDivergent = (dbScore row = None \<or> dbScore row \<noteq> Some onChain)
           in if \<not> isDivergent then acc1
              else
                (let acc2 = acc1\<lparr>divergences := divergences acc1 @
                       [\<lparr>dvAddress = arAddress row, dvDbScore = dbScore row, contractScore = onChain,
                         absoluteDifference = difference\<rparr>]\<rparr>;
                     exceedsThreshold =
                       (case difference of None \<Rightarrow> True | Some d \<Rightarrow> d \<ge> autoCorrectThreshold cfg)
                 in if autoCorrectEnabled cfg \<and> exceedsThreshold
                    then acc2\<lparr>corrections := js_map_set (arAddress row) onChain (corrections acc2)\<rparr>
                    else acc2)))"

definition reconcileActiveBorrowerScores ::
  "'s redis \<Rightarrow> server \<Rightarrow> bool \<Rightarrow> reconcile_config \<Rightarrow> (string \<Rightarrow> int option) \<Rightarrow> event_row list \<Rightarrow> 's score_sys
     \<Rightarrow> (http_error + reconciliation) \<times> 's score_sys" where
  "reconcileActiveBorrowerScores R srv db_up cfg chain events s =
     (if \<not> db_up then (Inl (Thrown ''database error''), s)
      else
        (let activeBorrowers = fetchActiveBorrowerScores (maxBorrowersPerRun cfg) events (scores s);
             start = \<lparr>activeBorrowerCount = length activeBorrowers, checkedBorrowerCount = 0,
                      failedBorrowerCount = 0, divergences = [], corrections = []\<rparr>;
             result = fold (fold (settle_borrower cfg chain))
                        (chunk (batchSize cfg) activeBorrowers) start
         in if corrections result \<noteq> []
            then (case setAbsoluteUserScoresBulk R srv db_up (corrections result) s of
                    (Inl e, s') \<Rightarrow> (Inl e, s') | (Inr _, s') \<Rightarrow> (Inr result, s'))
            else (Inr result, s)))"

section \<open>Configuration\<close>

record score_config =
  repaymentDelta :: "int option"
  defaultPenalty :: "int option"
  latePenalty :: "int option"

definition env_or :: "string option \<Rightarrow> string \<Rightarrow> string" where
  "env_or v d = (case v of None \<Rightarrow> d | Some s \<Rightarrow> s)"

definition getScoreConfig :: "(string \<Rightarrow> string option) \<Rightarrow> score_config" where
  "getScoreConfig getenv =
     \<lparr>repaymentDelta = js_parseInt (env_or (getenv ''SCORE_DELTA_REPAY'') ''15''),
      defaultPenalty = js_parseInt (env_or (getenv ''SCORE_DELTA_DEFAULT'') ''50''),
      latePenalty = js_parseInt (env_or (getenv ''SCORE_DELTA_LATE'') ''5'')\<rparr>"

fun check_deltas :: "(string \<times> string) list \<Rightarrow> http_error + unit" where
  "check_deltas [] = Inr ()"
| "check_deltas ((name, v) # rest) =
     (case js_parseInt v of
        None \<Rightarrow> Inl (internal (name @ '' must be a valid integer: '' @ [CHR 0x22] @ v @ [CHR 0x22]) None)
      | Some num \<Rightarrow>
          (if num \<le> 0 then Inl (internal (name @ '' must be a positive integer: '' @ show_int num) None)
           else check_deltas rest))"

definition validateScoreConfig :: "(string \<Rightarrow> string option) \<Rightarrow> http_error + unit" where
  "validateScoreConfig getenv =
     check_deltas
       [(''SCORE_DELTA_REPAY'', env_or (getenv ''SCORE_DELTA_REPAY'') ''15''),
        (''SCORE_DELTA_DEFAULT'', env_or (getenv ''SCORE_DELTA_DEFAULT'') ''50''),
        (''SCORE_DELTA_LATE'', env_or (getenv ''SCORE_DELTA_LATE'') ''5'')]"

definition parseRequiredInteger ::
  "(string \<Rightarrow> string option) \<Rightarrow> string \<Rightarrow> int \<Rightarrow> int \<Rightarrow> http_error + int" where
  "parseRequiredInteger getenv envKey lo hi =
     (case getenv envKey of
        None \<Rightarrow> Inl (Thrown (envKey @ '' is required but missing''))
      | Some rawValue \<Rightarrow>
          (let trimmed = js_trim rawValue in
           if trimmed = [] then Inl (Thrown (envKey @ '' is required but missing''))
           else
             (case js_parseInt trimmed of
                None \<Rightarrow> Inl (Thrown (envKey @ '' must be a valid integer, got '' @ json_quote rawValue))
              | Some parsed \<Rightarrow>
                  (if show_int parsed \<noteq> trimmed 
                   then Inl (Thrown (envKey @ '' must be a valid integer, got '' @ json_quote rawValue))
                   else if parsed < lo \<or> parsed > hi
                   then Inl (Thrown (envKey @ '' must be between '' @ show_int lo @ '' and '' @ show_int hi
                               @ '' (inclusive), got '' @ show_int parsed))
                   else Inr parsed))))"


section \<open>The bulk writes\<close>

definition delta_score :: "int option \<Rightarrow> int \<Rightarrow> int" where
  "delta_score old d =
     (case old of None \<Rightarrow> clamp (500 - d) | Some x \<Rightarrow> clamp (x + clamp (500 - d) - 500))"

lemma clamp_band: "300 \<le> clamp x" "clamp x \<le> 850"
  by (auto simp: clamp_def)

lemma delta_score_band: "300 \<le> delta_score x d \<and> delta_score x d \<le> 850"
  by (cases x) (simp_all add: delta_score_def clamp_band)

lemma map_of_upsert_delta:
  "map_of (upsert_delta (u, d) tbl) = (map_of tbl)(u \<mapsto> delta_score (map_of tbl u) d)"
  by (simp add: upsert_delta_def delta_score_def Let_def split: option.splits)

lemma fold_upsert_delta:
  "distinct (map fst rows) \<Longrightarrow>
     map_of (fold upsert_delta rows tbl) u =
       (case map_of rows u of None \<Rightarrow> map_of tbl u | Some d \<Rightarrow> Some (delta_score (map_of tbl u) d))"
proof (induction rows arbitrary: tbl)
  case (Cons p rows)
  obtain v d where p: "p = (v, d)" by (cases p)
  have "v \<notin> set (map fst rows)" using Cons.prems p by simp
  then have n: "map_of rows v = None" by (simp add: map_of_eq_None_iff)
  show ?case using Cons n p by (simp add: map_of_upsert_delta split: option.splits)
qed simp

lemma fold_absolute:
  "distinct (map fst rows) \<Longrightarrow>
     map_of (fold (\<lambda>(u, v). js_map_set u v) rows tbl) u =
       (case map_of rows u of None \<Rightarrow> map_of tbl u | Some v \<Rightarrow> Some v)"
proof (induction rows arbitrary: tbl)
  case (Cons p rows)
  obtain v d where p: "p = (v, d)" by (cases p)
  have "v \<notin> set (map fst rows)" using Cons.prems p by simp
  then have n: "map_of rows v = None" by (simp add: map_of_eq_None_iff)
  show ?case using Cons n p by (auto split: option.splits)
qed simp

lemma map_of_nonempty_keys:
  "map_of (filter (\<lambda>(u, d). u \<noteq> []) rows) u = (if u = [] then None else map_of rows u)"
  by (induction rows) auto

lemma distinct_filter_keys: "distinct (map fst rows) \<Longrightarrow> distinct (map fst (filter P rows))"
  by (simp add: distinct_map_filter)

lemma absolute_update:
  assumes "distinct (map fst rows)" "map_of rows [] = None"
  shows "map_of (fold (\<lambda>(u, v). js_map_set u v) (filter (\<lambda>(u, v). u \<noteq> []) rows) tbl) u =
    (case map_of rows u of None \<Rightarrow> map_of tbl u | Some v \<Rightarrow> Some v)"
  using assms(2)
  by (simp add: fold_absolute [OF distinct_filter_keys [OF assms(1)]] map_of_nonempty_keys split: option.splits)

section \<open>The decay job\<close>

definition decayed :: "ms \<Rightarrow> ms option \<Rightarrow> int \<Rightarrow> int" where
  "decayed now lastRepay x =
     max MIN_SCORE (x - (case lastRepay of None \<Rightarrow> 1
        | Some t \<Rightarrow> max 1 ((now - t) div (30 * 24 * 60 * 60 * 1000))) * DECAY_PER_MONTH)"

definition last_repaid :: "event_row list \<Rightarrow> string \<Rightarrow> ms option" where
  "last_repaid events u =
     sql_max (map (\<lambda>e. Some (ledger_closed_at e))
       (filter (\<lambda>e. address e = Some u \<and> event_type e = ''LoanRepaid'') events))"

definition inactive :: "ms \<Rightarrow> event_row list \<Rightarrow> string \<Rightarrow> bool" where
  "inactive month_ago events u \<longleftrightarrow>
     (case last_repaid events u of None \<Rightarrow> True | Some t \<Rightarrow> t < month_ago)"

lemma inactive_list:
  "getInactiveBorrowers month_ago events tbl =
     map (\<lambda>(u, s). \<lparr>ibBorrower = u, ibScore = s, last_repayment = last_repaid events u\<rparr>)
       (filter (\<lambda>(u, s). inactive month_ago events u) tbl)"
  by (induction tbl) (auto simp: getInactiveBorrowers_def inactive_def last_repaid_def)

lemma apply_decay:
  "map_of (snd (applyScoreDecay now b tbl)) u =
     (if u = ibBorrower b \<and> map_of tbl u \<noteq> None then Some (decayed now (last_repayment b) (ibScore b))
      else map_of tbl u)"
  by (auto simp: applyScoreDecay_def decayed_def Let_def split: option.splits)

lemma fold_decay:
  assumes "distinct (map fst rows)"
  shows "map_of (fold (\<lambda>b tbl. if fails (ibBorrower b) then tbl else snd (applyScoreDecay now b tbl))
      (map (\<lambda>(u, s). \<lparr>ibBorrower = u, ibScore = s, last_repayment = last_repaid events u\<rparr>) rows) tbl) u =
    (case map_of rows u of
       None \<Rightarrow> map_of tbl u
     | Some x \<Rightarrow> if fails u \<or> map_of tbl u = None then map_of tbl u
                else Some (decayed now (last_repaid events u) x))"
  using assms
proof (induction rows arbitrary: tbl)
  case (Cons p rows)
  obtain v x where p: "p = (v, x)" by (cases p)
  have "v \<notin> set (map fst rows)" using Cons.prems p by simp
  then have n: "map_of rows v = None" by (simp add: map_of_eq_None_iff)
  show ?case using Cons n p by (auto simp: apply_decay split: option.splits)
qed simp

lemma map_of_filter_key: "map_of (filter (\<lambda>(u, s). P u) tbl) u = (if P u then map_of tbl u else None)"
  by (induction tbl) auto

lemma decay_job_effect:
  assumes "distinct (map fst tbl)"
  shows "map_of (snd (runScoreDecayJob now month_ago fails events (False, tbl))) u =
    (case map_of tbl u of
       None \<Rightarrow> None
     | Some x \<Rightarrow> Some (if inactive month_ago events u \<and> \<not> fails u
                      then decayed now (last_repaid events u) x else x))"
  using distinct_filter_keys [OF assms, of "\<lambda>(u, s). inactive month_ago events u"]
  by (simp add: runScoreDecayJob_def inactive_list fold_decay map_of_filter_key split: option.splits)

lemma fst_decay_job [simp]: "fst (runScoreDecayJob now m fails events (False, tbl)) = False"
  by (simp add: runScoreDecayJob_def)

lemma keys_decay: "map fst (snd (applyScoreDecay now b tbl)) = map fst tbl"
proof -
  have "map_of tbl k \<noteq> None \<Longrightarrow> map fst (js_map_set k v tbl) = map fst tbl" for k v
  proof (induction tbl)
    case (Cons p tbl)
    then show ?case by (cases p) (auto split: if_splits)
  qed simp
  then show ?thesis by (auto simp: applyScoreDecay_def Let_def split: option.splits)
qed

lemma keys_decay_job: "map fst (snd (runScoreDecayJob now m fails events (False, tbl))) = map fst tbl"
proof -
  have "map fst (fold (\<lambda>b tbl. if fails (ibBorrower b) then tbl else snd (applyScoreDecay now b tbl)) bs t)
      = map fst t" for bs t
    by (induction bs arbitrary: t) (auto simp: keys_decay)
  then show ?thesis by (simp add: runScoreDecayJob_def)
qed

section \<open>The reconciliation\<close>

definition needs_correction :: "reconcile_config \<Rightarrow> int option \<Rightarrow> int \<Rightarrow> bool" where
  "needs_correction cfg db onChain \<longleftrightarrow>
     autoCorrectEnabled cfg \<and>
     (case db of None \<Rightarrow> True | Some d \<Rightarrow> d \<noteq> onChain \<and> autoCorrectThreshold cfg \<le> \<bar>onChain - d\<bar>)"

lemma settle_corrections:
  "map_of (corrections (settle_borrower cfg chain row acc)) u =
     (case chain (arAddress row) of
        None \<Rightarrow> map_of (corrections acc) u
      | Some v \<Rightarrow> if u = arAddress row \<and> needs_correction cfg (dbScore row) v then Some v
                 else map_of (corrections acc) u)"
  by (auto simp: settle_borrower_def needs_correction_def Let_def split: option.splits)

lemma settle_counts:
  "checkedBorrowerCount (settle_borrower cfg chain row acc) + failedBorrowerCount (settle_borrower cfg chain row acc)
     = Suc (checkedBorrowerCount acc + failedBorrowerCount acc) \<and>
   activeBorrowerCount (settle_borrower cfg chain row acc) = activeBorrowerCount acc"
  by (auto simp: settle_borrower_def Let_def split: option.splits)

lemma settle_distinct:
  "distinct (map fst (corrections acc)) \<Longrightarrow> distinct (map fst (corrections (settle_borrower cfg chain row acc)))"
  by (auto simp: settle_borrower_def Let_def distinct_js_map_set split: option.splits)

lemma fold_settle_counts:
  "checkedBorrowerCount (fold (settle_borrower cfg chain) rows acc)
     + failedBorrowerCount (fold (settle_borrower cfg chain) rows acc)
     = length rows + (checkedBorrowerCount acc + failedBorrowerCount acc) \<and>
   activeBorrowerCount (fold (settle_borrower cfg chain) rows acc) = activeBorrowerCount acc"
proof (induction rows arbitrary: acc)
  case (Cons row rows)
  show ?case using Cons [of "settle_borrower cfg chain row acc"] settle_counts [of cfg chain row acc] by simp
qed simp

lemma fold_settle_distinct:
  "distinct (map fst (corrections acc)) \<Longrightarrow>
     distinct (map fst (corrections (fold (settle_borrower cfg chain) rows acc)))"
  by (induction rows arbitrary: acc) (simp_all add: settle_distinct)

lemma fold_settle_corrections:
  "distinct (map arAddress rows) \<Longrightarrow>
   map_of (corrections (fold (settle_borrower cfg chain) rows acc)) u =
     (case find (\<lambda>r. arAddress r = u) rows of
        None \<Rightarrow> map_of (corrections acc) u
      | Some r \<Rightarrow> (case chain u of
                    None \<Rightarrow> map_of (corrections acc) u
                  | Some v \<Rightarrow> if needs_correction cfg (dbScore r) v then Some v
                             else map_of (corrections acc) u))"
proof (induction rows arbitrary: acc)
  case (Cons row rows)
  have "r \<in> set rows \<Longrightarrow> arAddress r \<noteq> arAddress row" for r
    using Cons.prems by (metis distinct.simps(2) image_eqI list.set_map list.simps(9))
  then have "arAddress row = u \<Longrightarrow> find (\<lambda>r. arAddress r = u) rows = None"
    by (auto simp: find_None_iff)
  with Cons show ?case by (auto simp: settle_corrections split: option.splits)
qed simp

lemma fold_fold_chunk: "fold (fold f) (chunk n xs) = fold f xs"
proof -
  have "fold (fold f) yss = fold f (concat yss)" for yss by (induction yss) auto
  then show ?thesis by (simp add: concat_chunk)
qed

lemma fetched_find:
  "find (\<lambda>r. arAddress r = u) (map (\<lambda>a. \<lparr>arAddress = a, dbScore = g a\<rparr>) as) =
     (if u \<in> set as then Some \<lparr>arAddress = u, dbScore = g u\<rparr> else None)"
  by (induction as) auto

definition fetched :: "reconcile_config \<Rightarrow> event_row list \<Rightarrow> string set" where
  "fetched cfg events =
     set (take (maxBorrowersPerRun cfg)
       (sort (remdups (map (\<lambda>r. the (address r)) (filter (active_address events) events)))))"

lemma fetched_not_Nil: "u \<in> fetched cfg events \<Longrightarrow> u \<noteq> []"
  by (auto simp: fetched_def active_address_def dest!: in_set_takeD)


section \<open>Properties\<close>

text \<open>A bulk update reaches exactly the named borrowers: with the database up it succeeds, every
  borrower of the map gets one clamped step from its old score (or an initial score), all others keep
  theirs, every score that was written lies in the band from 300 to 850, and if all scores did before,
  all do after; with the database down nothing changes.\<close>

theorem bulk_update_effect:
  assumes "distinct (map fst updates)" "updateUserScoresBulk R srv True updates s = (r, s')"
  shows "r = Inr () \<and>
    (\<forall>u. map_of (scores s') u =
      (if u = [] then map_of (scores s) u
       else (case map_of updates u of None \<Rightarrow> map_of (scores s) u
             | Some d \<Rightarrow> Some (delta_score (map_of (scores s) u) d)))) \<and>
    (ran (map_of (scores s)) \<subseteq> {300..850} \<longrightarrow> ran (map_of (scores s')) \<subseteq> {300..850})"
proof -
  let ?rows = "filter (\<lambda>(u, d). u \<noteq> []) updates"
  have e: "r = Inr ()" "map_of (scores s') u = map_of (fold upsert_delta ?rows (scores s)) u" for u
    using assms(2) by (auto simp: updateUserScoresBulk_def Let_def split: if_splits)
  have m: "map_of (scores s') u =
      (if u = [] then map_of (scores s) u
       else (case map_of updates u of None \<Rightarrow> map_of (scores s) u
             | Some d \<Rightarrow> Some (delta_score (map_of (scores s) u) d)))" for u
    by (simp add: e(2) fold_upsert_delta [OF distinct_filter_keys [OF assms(1)]] map_of_nonempty_keys)
  have "v \<in> {300..850}" if "ran (map_of (scores s)) \<subseteq> {300..850}" "map_of (scores s') u = Some v" for u v
    using that(2) delta_score_band [of "map_of (scores s) u"] subsetD [OF that(1) ranI, of u]
    by (auto simp: m split: if_splits option.splits)
  then have "ran (map_of (scores s')) \<subseteq> {300..850}" if "ran (map_of (scores s)) \<subseteq> {300..850}"
    using that unfolding ran_def by blast
  then show ?thesis using e(1) m by blast
qed

theorem bulk_update_effect_witness:
  "map_of (scores (snd (updateUserScoresBulk mem_redis Up True [(''GA'', 15), ([], 3), (''GB'', - 50)]
      \<lparr>scores = [(''GA'', 600)], score_cache = \<lparr>client = (\<lambda>_. None), isConnected = True\<rparr>\<rparr>))) ''GB'' = Some 550"
  using bulk_update_effect [of "[(''GA'', 15), ([], 3), (''GB'', - 50)]" mem_redis Up
      "\<lparr>scores = [(''GA'', 600)], score_cache = \<lparr>client = (\<lambda>_. None), isConnected = True\<rparr>\<rparr>"]
  by (simp add: delta_score_def clamp_def prod_eq_iff)

text \<open>The sign of a delta is inverted: applied to an existing score within the band, a positive delta
  of at most 200 lowers the score by it (down to 300), and a negative one of at most 350 raises it (up
  to 850). So a repayment, whose configured delta is positive, costs the borrower points, and a default,
  whose penalty is passed as a negative delta, earns them.\<close>

theorem delta_sign_inverted:
  assumes "map_of (scores s) u = Some x" "x \<in> {300..850}" "u \<noteq> []" "d \<in> {-350..200}"
  shows "map_of (scores (snd (updateUserScoresBulk R srv True [(u, d)] s))) u
    = Some (min 850 (max 300 (x - d)))"
  using assms
  by (auto simp: updateUserScoresBulk_def map_of_upsert_delta delta_score_def clamp_def)

theorem delta_sign_inverted_witness:
  "map_of (scores (snd (updateUserScoresBulk mem_redis Up True [(''GA'', 15)]
     \<lparr>scores = [(''GA'', 600)], score_cache = \<lparr>client = (\<lambda>_. None), isConnected = True\<rparr>\<rparr>))) ''GA'' = Some 585"
  using delta_sign_inverted [of "\<lparr>scores = [(''GA'', 600)], score_cache = \<lparr>client = (\<lambda>_. None), isConnected = True\<rparr>\<rparr>"
      "''GA''" 600 15 mem_redis Up] by simp

text \<open>The monthly decay is applied at every run: a borrower who has never repaid loses five points per
  run of the job, down to 300, however close together the runs are, so with the default daily schedule
  about 150 points a month instead of five. A borrower who has repaid since \<open>month_ago\<close> of every run
  keeps the score.\<close>

theorem decay_per_run:
  assumes "distinct (map fst tbl)" "map_of tbl u = Some x" "300 \<le> x"
  shows "(last_repaid events u = None \<longrightarrow>
      map_of (snd (fold (\<lambda>(now, m). runScoreDecayJob now m (\<lambda>_. False) events) runs (False, tbl))) u
        = Some (max 300 (x - 5 * int (length runs)))) \<and>
    ((\<exists>t. last_repaid events u = Some t \<and> (\<forall>(now, m) \<in> set runs. m \<le> t)) \<longrightarrow>
      map_of (snd (fold (\<lambda>(now, m). runScoreDecayJob now m (\<lambda>_. False) events) runs (False, tbl))) u
        = Some x)"
  using assms
proof (induction runs arbitrary: tbl x)
  case (Cons run runs)
  obtain now m where run: "run = (now, m)" by (cases run)
  obtain tbl' where st: "runScoreDecayJob now m (\<lambda>_. False) events (False, tbl) = (False, tbl')"
    by (metis fst_decay_job prod.collapse)
  have d: "distinct (map fst tbl')"
    using Cons.prems(1) keys_decay_job [of now m "\<lambda>_. False" events tbl] by (simp add: st)
  have e: "map_of tbl' u = Some (if inactive m events u then decayed now (last_repaid events u) x else x)"
    using decay_job_effect [OF Cons.prems(1), of now m "\<lambda>_. False" events u] Cons.prems(2) by (simp add: st)
  show ?case
  proof (intro conjI impI)
    assume n: "last_repaid events u = None"
    then have "map_of tbl' u = Some (max 300 (x - 5))"
      using e by (simp add: inactive_def decayed_def MIN_SCORE_def DECAY_PER_MONTH_def)
    from Cons.IH [OF d this] n
    have "map_of (snd (fold (\<lambda>(now, m). runScoreDecayJob now m (\<lambda>_. False) events) runs (False, tbl'))) u
        = Some (max 300 (max 300 (x - 5) - 5 * int (length runs)))" by simp
    moreover have "max 300 (max 300 (x - 5) - 5 * int (length runs)) = max 300 (x - 5 * int (length (run # runs)))"
      by simp
    ultimately
    show "map_of (snd (fold (\<lambda>(now, m). runScoreDecayJob now m (\<lambda>_. False) events) (run # runs) (False, tbl))) u
        = Some (max 300 (x - 5 * int (length (run # runs))))"
      by (simp only: fold_simps comp_apply run case_prod_conv st)
  next
    assume "\<exists>t. last_repaid events u = Some t \<and> (\<forall>(now, m) \<in> set (run # runs). m \<le> t)"
    then obtain t where t: "last_repaid events u = Some t" "m \<le> t" "\<forall>(now, m) \<in> set runs. m \<le> t"
      by (auto simp: run)
    then have "map_of tbl' u = Some x" using e by (simp add: inactive_def)
    from Cons.IH [OF d this Cons.prems(3)] t
    show "map_of (snd (fold (\<lambda>(now, m). runScoreDecayJob now m (\<lambda>_. False) events) (run # runs) (False, tbl))) u
        = Some x"
      by (auto simp: run st)
  qed
qed simp

theorem decay_per_run_witness:
  "map_of (snd (fold (\<lambda>(now, m). runScoreDecayJob now m (\<lambda>_. False) []) [(86400000, 0), (172800000, 0), (259200000, 0)]
     (False, [(''GA'', 600), (''GB'', 310)]))) ''GA'' = Some 585"
  using decay_per_run [of "[(''GA'', 600), (''GB'', 310)]" "''GA''" 600 "[]"
      "[(86400000, 0), (172800000, 0), (259200000, 0)]"]
  by (simp add: last_repaid_def)

text \<open>A reconciliation run checks every fetched borrower once and corrects exactly the divergent ones
  among them: a score is overwritten with the on-chain score when automatic correction is on, the lookup
  succeeded and the score is missing or differs by at least the threshold; every other score, in
  particular that of a borrower beyond the per-run limit of the sorted list, keeps its value. How the
  borrowers are cut into batches does not matter.\<close>

theorem reconcile_effect:
  assumes "reconcileActiveBorrowerScores R srv True cfg chain events s = (Inr result, s')"
  shows "checkedBorrowerCount result + failedBorrowerCount result = activeBorrowerCount result \<and>
    activeBorrowerCount result = card (fetched cfg events) \<and>
    (\<forall>u. map_of (scores s') u =
      (if u \<in> fetched cfg events
       then (case chain u of
               None \<Rightarrow> map_of (scores s) u
             | Some v \<Rightarrow> if needs_correction cfg (map_of (scores s) u) v then Some v
                        else map_of (scores s) u)
       else map_of (scores s) u))"
proof -
  let ?as = "take (maxBorrowersPerRun cfg)
       (sort (remdups (map (\<lambda>r. the (address r)) (filter (active_address events) events))))"
  let ?rows = "map (\<lambda>a. \<lparr>arAddress = a, dbScore = map_of (scores s) a\<rparr>) ?as"
  let ?start = "\<lparr>activeBorrowerCount = length ?rows, checkedBorrowerCount = 0,
                 failedBorrowerCount = 0, divergences = [], corrections = []\<rparr>"
  let ?res = "fold (settle_borrower cfg chain) ?rows ?start"
  have d: "distinct ?as" by simp
  have rows: "fetchActiveBorrowerScores (maxBorrowersPerRun cfg) events (scores s) = ?rows"
    by (simp add: fetchActiveBorrowerScores_def)
  have res: "result = ?res" and sc: "scores s' =
      fold (\<lambda>(u, v). js_map_set u v) (filter (\<lambda>(u, v). u \<noteq> []) (corrections ?res)) (scores s)"
    using assms unfolding reconcileActiveBorrowerScores_def Let_def rows fold_fold_chunk
    by (auto simp: setAbsoluteUserScoresBulk_def Let_def split: if_splits)
  have dc: "distinct (map fst (corrections ?res))" by (rule fold_settle_distinct) simp
  have c: "map_of (corrections ?res) u =
      (if u \<in> fetched cfg events
       then (case chain u of None \<Rightarrow> None
             | Some v \<Rightarrow> if needs_correction cfg (map_of (scores s) u) v then Some v else None)
       else None)" for u
    using d by (subst fold_settle_corrections)
      (auto simp: comp_def fetched_find fetched_def split: option.splits)
  have "map_of (corrections ?res) [] = None" using c [of "[]"] fetched_not_Nil by auto
  from absolute_update [OF dc this] c have "map_of (scores s') u =
      (if u \<in> fetched cfg events
       then (case chain u of
               None \<Rightarrow> map_of (scores s) u
             | Some v \<Rightarrow> if needs_correction cfg (map_of (scores s) u) v then Some v
                        else map_of (scores s) u)
       else map_of (scores s) u)" for u
    unfolding sc by (simp split: option.splits)
  moreover have "length ?rows = card (fetched cfg events)"
    using distinct_card [OF d] unfolding fetched_def by (simp only: length_map)
  ultimately show ?thesis
    using fold_settle_counts [of cfg chain ?rows ?start] unfolding res by simp
qed

theorem reconcile_effect_witness:
  "\<exists>r s'. reconcileActiveBorrowerScores mem_redis Up True
      \<lparr>batchSize = 25, maxBorrowersPerRun = 500, autoCorrectEnabled = True, autoCorrectThreshold = 50\<rparr>
      (\<lambda>_. Some 700) [] \<lparr>scores = [(''GA'', 600)], score_cache = \<lparr>client = (\<lambda>_. None), isConnected = True\<rparr>\<rparr>
      = (Inr r, s') \<and> map_of (scores s') ''GA'' = Some 600"
proof -
  let ?cfg = "\<lparr>batchSize = 25, maxBorrowersPerRun = 500, autoCorrectEnabled = True, autoCorrectThreshold = 50\<rparr>"
  let ?s = "\<lparr>scores = [(''GA'', 600)], score_cache = \<lparr>client = (\<lambda>_. None), isConnected = True\<rparr>\<rparr> :: mem_state score_sys"
  obtain r s' where e: "reconcileActiveBorrowerScores mem_redis Up True ?cfg (\<lambda>_. Some 700) [] ?s = (Inr r, s')"
    by (simp add: reconcileActiveBorrowerScores_def Let_def fold_fold_chunk fetchActiveBorrowerScores_def)
  from reconcile_effect [OF this] have "map_of (scores s') ''GA'' = Some 600"
    by (simp add: fetched_def)
  with e show ?thesis by blast
qed

end
