(* ===== verification/CrossReconciler.thy ===== *)
theory CrossReconciler
  imports Scores
begin

text \<open>
  \<open>src/backend/src/services/crossContractReconciler.ts\<close>: the ledger of custody events that wait for
  their score event. The table \<open>cross_contract_reconciliation\<close> is a list of rows in the order of
  their ids; its unique key is the intent key.
\<close>

section \<open>Definitions\<close>

datatype custody_op = OpApprove | OpRepay | OpDefault
datatype recon_state = Pending | HalfApplied | Reconciled

record recon_row =
  rowId :: int
  intentKey :: string
  rrLoan :: "int option"
  rrBorrower :: string
  operation :: custody_op
  disbursementLedger :: "int option"
  disbursementTxHash :: "string option"
  expectedScoreDelta :: int
  attempts :: int
  state :: recon_state
  scoreApplied :: bool
  scoreLedger :: "int option"

record recon_config =
  maxRowsPerRun :: nat
  staleAttempts :: int
  ccAutoCorrect :: bool

definition getReconConfig :: "(string \<Rightarrow> string option) \<Rightarrow> recon_config" where
  "getReconConfig getenv =
     \<lparr>maxRowsPerRun = nat (parsePositiveInt (getenv ''CROSS_RECONCILE_MAX_ROWS_PER_RUN'') 500),
      staleAttempts = parsePositiveInt (getenv ''CROSS_RECONCILE_STALE_ATTEMPTS'') 3,
      ccAutoCorrect = parseBoolean (getenv ''CROSS_RECONCILE_AUTOCORRECT_ENABLED'') False\<rparr>"

definition SCORE_EVENT_TYPES :: "string list" where
  "SCORE_EVENT_TYPES = [''ScoreUpdated'', ''ScoreDecreased'']"

definition intent_key :: "event_row \<Rightarrow> string" where
  "intent_key e =
     event_type e @ '':'' @ (case loan_id e of None \<Rightarrow> ''-'' | Some l \<Rightarrow> show_int l) @ '':'' @ event_id e"

text \<open>The cast \<open>::int\<close> fails outside of 32 bits.\<close>

definition int4 :: "int \<Rightarrow> int option" where
  "int4 x = (if - 2147483648 \<le> x \<and> x \<le> 2147483647 then Some x else None)"

definition expected_delta :: "event_row \<Rightarrow> int option" where
  "expected_delta e =
     (if event_type e = ''LoanRepaid''
      then int4 (max 0 ((case amount e of None \<Rightarrow> 0 | Some a \<Rightarrow> a) div 100))
      else if event_type e = ''LoanDefaulted'' then Some (- 50)
      else Some 0)"

definition custody_operation :: "event_row \<Rightarrow> custody_op" where
  "custody_operation e =
     (if event_type e = ''LoanApproved'' then OpApprove
      else if event_type e = ''LoanRepaid'' then OpRepay else OpDefault)"

definition custody_event :: "event_row \<Rightarrow> bool" where
  "custody_event e \<longleftrightarrow>
     event_type e \<in> {''LoanApproved'', ''LoanRepaid'', ''LoanDefaulted''} \<and>
     address e \<noteq> None \<and> address e \<noteq> Some []"

definition next_id :: "recon_row list \<Rightarrow> int" where
  "next_id rows = 1 + foldl max 0 (map rowId rows)"

definition pending_row :: "int \<Rightarrow> event_row \<Rightarrow> int \<Rightarrow> recon_row" where
  "pending_row i e d =
     \<lparr>rowId = i, intentKey = intent_key e, rrLoan = loan_id e,
      rrBorrower = the (address e), operation = custody_operation e,
      disbursementLedger = Some (ledger e), disbursementTxHash = Some (tx_hash e),
      expectedScoreDelta = d, attempts = 0, state = Pending, scoreApplied = False,
      scoreLedger = None\<rparr>"

text \<open>The rows of the \<open>SELECT\<close>, inserted one by one with \<open>ON CONFLICT DO NOTHING\<close>; \<open>None\<close> when the
  statement fails, which inserts nothing.\<close>

fun insert_rows :: "event_row list \<Rightarrow> recon_row list \<Rightarrow> recon_row list option" where
  "insert_rows [] rows = Some rows"
| "insert_rows (e # es) rows =
     (case expected_delta e of
        None \<Rightarrow> None
      | Some d \<Rightarrow>
          (if list_ex (\<lambda>r. intentKey r = intent_key e) rows then insert_rows es rows
           else insert_rows es (rows @ [pending_row (next_id rows) e d])))"

definition backfillPendingRows :: "event_row list \<Rightarrow> recon_row list \<Rightarrow> (nat \<times> recon_row list) option" where
  "backfillPendingRows events rows =
     (let candidates = filter (\<lambda>e. custody_event e \<and>
            \<not> list_ex (\<lambda>r. intentKey r = intent_key e) rows) events
      in map_option (\<lambda>rows'. (length rows' - length rows, rows')) (insert_rows candidates rows))"

definition fetchUnresolvedRows :: "nat \<Rightarrow> recon_row list \<Rightarrow> recon_row list" where
  "fetchUnresolvedRows lim rows = take lim (filter (\<lambda>r. state r \<noteq> Reconciled) rows)"

definition findMatchingScoreLedger ::
  "event_row list \<Rightarrow> string \<Rightarrow> int option \<Rightarrow> string option \<Rightarrow> int option" where
  "findMatchingScoreLedger events borrower sinceLedger txHash =
     map_option ledger
       (find (\<lambda>e. address e = Some borrower \<and> event_type e \<in> set SCORE_EVENT_TYPES \<and>
          (case env_set txHash of
             Some h \<Rightarrow> tx_hash e = h
           | None \<Rightarrow> ledger e = (case sinceLedger of None \<Rightarrow> 0 | Some l \<Rightarrow> l))) events)"

definition markReconciled :: "int \<Rightarrow> int option \<Rightarrow> bool \<Rightarrow> recon_row list \<Rightarrow> recon_row list" where
  "markReconciled i l applied rows =
     map (\<lambda>r. if rowId r = i
              then r\<lparr>state := Reconciled, scoreApplied := applied, scoreLedger := l,
                     attempts := attempts r + 1\<rparr> else r) rows"

definition markState :: "int \<Rightarrow> recon_state \<Rightarrow> recon_row list \<Rightarrow> recon_row list" where
  "markState i st rows =
     map (\<lambda>r. if rowId r = i then r\<lparr>state := st, attempts := attempts r + 1\<rparr> else r) rows"

record recon_result =
  backfilledRows :: nat
  processedRows :: nat
  reconciledCount :: nat
  halfAppliedCount :: nat
  stillPendingCount :: nat
  correctedCount :: nat

text \<open>The body of the loop over the fetched rows; the accumulator is the result, the corrections and
  the table.\<close>

definition process_row ::
  "recon_config \<Rightarrow> (string \<Rightarrow> int option) \<Rightarrow> event_row list \<Rightarrow> recon_row
     \<Rightarrow> recon_result \<times> (string \<times> int) list \<times> recon_row list
     \<Rightarrow> recon_result \<times> (string \<times> int) list \<times> recon_row list" where
  "process_row cfg chain events row acc =
     (case acc of (res0, corr, rows) \<Rightarrow>
        (let res = res0\<lparr>processedRows := processedRows res0 + 1\<rparr> in
         if expectedScoreDelta row = 0 then
           (res\<lparr>reconciledCount := reconciledCount res + 1\<rparr>, corr,
            markReconciled (rowId row) None False rows)
         else
           (case findMatchingScoreLedger events (rrBorrower row) (disbursementLedger row)
                   (disbursementTxHash row) of
              Some l \<Rightarrow>
                (res\<lparr>reconciledCount := reconciledCount res + 1\<rparr>, corr,
                 markReconciled (rowId row) (Some l) True rows)
            | None \<Rightarrow>
                (if attempts row + 1 \<ge> staleAttempts cfg then
                   (res\<lparr>halfAppliedCount := halfAppliedCount res + 1\<rparr>,
                    (if ccAutoCorrect cfg
                     then (case chain (rrBorrower row) of None \<Rightarrow> corr
                           | Some v \<Rightarrow> js_map_set (rrBorrower row) v corr)
                     else corr),
                    markState (rowId row) HalfApplied rows)
                 else
                   (res\<lparr>stillPendingCount := stillPendingCount res + 1\<rparr>, corr,
                    markState (rowId row) Pending rows)))))"

definition reconciler_run ::
  "'s redis \<Rightarrow> server \<Rightarrow> recon_config \<Rightarrow> (string \<Rightarrow> int option) \<Rightarrow> event_row list
     \<Rightarrow> recon_row list \<times> 's score_sys
     \<Rightarrow> (http_error + recon_result) \<times> recon_row list \<times> 's score_sys" where
  "reconciler_run R srv cfg chain events st =
     (case st of (rows0, sc) \<Rightarrow>
        (case backfillPendingRows events rows0 of
           None \<Rightarrow> (Inl (Thrown ''integer out of range''), rows0, sc)
         | Some (n, rows) \<Rightarrow>
             (let start = \<lparr>backfilledRows = n, processedRows = 0, reconciledCount = 0,
                           halfAppliedCount = 0, stillPendingCount = 0, correctedCount = 0\<rparr>
              in case fold (process_row cfg chain events)
                        (fetchUnresolvedRows (maxRowsPerRun cfg) rows) (start, [], rows) of
                   (res, corr, rows') \<Rightarrow>
                     (if corr \<noteq> []
                      then (case setAbsoluteUserScoresBulk R srv True corr sc of
                              (Inl e, sc') \<Rightarrow> (Inl e, rows', sc')
                            | (Inr _, sc') \<Rightarrow> (Inr (res\<lparr>correctedCount := length corr\<rparr>), rows', sc'))
                      else (Inr res, rows', sc)))))"

section \<open>The table\<close>

definition wf_rows :: "recon_row list \<Rightarrow> bool" where
  "wf_rows rows \<longleftrightarrow> distinct (map intentKey rows) \<and> distinct (map rowId rows)"

lemma next_id_fresh: "r \<in> set rows \<Longrightarrow> rowId r < next_id rows"
  using foldl_max_ge [of 0 "map rowId rows"] by (auto simp: next_id_def)

lemma insert_rows_wf: "insert_rows es rows = Some rows' \<Longrightarrow> wf_rows rows \<Longrightarrow> wf_rows rows'"
proof (induction es arbitrary: rows)
  case (Cons e es)
  show ?case
  proof (cases "list_ex (\<lambda>r. intentKey r = intent_key e) rows")
    case True
    with Cons show ?thesis by (auto split: option.splits)
  next
    case False
    then have k: "intent_key e \<notin> intentKey ` set rows" by (auto simp: list_ex_iff)
    have i: "next_id rows \<notin> rowId ` set rows" using next_id_fresh by fastforce
    obtain d where "expected_delta e = Some d" using Cons.prems(1) by (cases "expected_delta e") auto
    with Cons.prems(1) False have "insert_rows es (rows @ [pending_row (next_id rows) e d]) = Some rows'"
      by simp
    then show ?thesis
      by (rule Cons.IH) (use k i Cons.prems(2) in \<open>auto simp: wf_rows_def pending_row_def\<close>)
  qed
qed simp

lemma insert_rows_keys:
  "insert_rows es rows = Some rows' \<Longrightarrow>
     intentKey ` set rows' = intentKey ` set rows \<union> intent_key ` set es \<and> (\<exists>new. rows' = rows @ new)"
proof (induction es arbitrary: rows)
  case (Cons e es)
  obtain d where d: "expected_delta e = Some d" using Cons.prems by (cases "expected_delta e") auto
  show ?case
  proof (cases "list_ex (\<lambda>r. intentKey r = intent_key e) rows")
    case True
    then have "intent_key e \<in> intentKey ` set rows" by (auto simp: list_ex_iff image_iff) metis
    with True Cons.IH [of rows] Cons.prems d show ?thesis by auto
  next
    case False
    with Cons.IH [of "rows @ [pending_row (next_id rows) e d]"] Cons.prems d show ?thesis
      by (auto simp: pending_row_def)
  qed
qed simp

lemma insert_rows_fails: "(\<exists>e \<in> set es. expected_delta e = None) \<Longrightarrow> insert_rows es rows = None"
  by (induction es arbitrary: rows) (auto split: option.splits)

lemma backfill_keys:
  assumes "backfillPendingRows events rows = Some (n, rows')"
  shows "intentKey ` set rows' = intentKey ` set rows \<union> intent_key ` {e \<in> set events. custody_event e} \<and>
    (\<exists>new. rows' = rows @ new \<and> n = length new)"
proof -
  have "insert_rows (filter (\<lambda>e. custody_event e \<and> \<not> list_ex (\<lambda>r. intentKey r = intent_key e) rows) events) rows
      = Some rows'" and n: "n = length rows' - length rows"
    using assms by (auto simp: backfillPendingRows_def Let_def)
  from insert_rows_keys [OF this(1)]
  have "intentKey ` set rows' = intentKey ` set rows \<union>
      intent_key ` {e \<in> set events. custody_event e \<and> (\<forall>r \<in> set rows. intentKey r \<noteq> intent_key e)}"
    and new: "\<exists>new. rows' = rows @ new"
    by (auto simp: list_ex_iff)
  moreover have "intentKey ` set rows \<union>
      intent_key ` {e \<in> set events. custody_event e \<and> (\<forall>r \<in> set rows. intentKey r \<noteq> intent_key e)}
      = intentKey ` set rows \<union> intent_key ` {e \<in> set events. custody_event e}"
    by (auto simp: image_def) metis
  ultimately show ?thesis using n by auto
qed

lemma backfill_wf: "backfillPendingRows events rows = Some (n, rows') \<Longrightarrow> wf_rows rows \<Longrightarrow> wf_rows rows'"
  by (auto simp: backfillPendingRows_def Let_def intro: insert_rows_wf)

section \<open>One run\<close>

text \<open>What a run makes of a row that it processes.\<close>

definition settled :: "recon_config \<Rightarrow> event_row list \<Rightarrow> recon_row \<Rightarrow> recon_row" where
  "settled cfg events r =
     (if expectedScoreDelta r = 0
      then r\<lparr>state := Reconciled, scoreApplied := False, scoreLedger := None, attempts := attempts r + 1\<rparr>
      else
        (case findMatchingScoreLedger events (rrBorrower r) (disbursementLedger r) (disbursementTxHash r) of
           Some l \<Rightarrow> r\<lparr>state := Reconciled, scoreApplied := True, scoreLedger := Some l,
                       attempts := attempts r + 1\<rparr>
         | None \<Rightarrow> r\<lparr>state := (if attempts r + 1 \<ge> staleAttempts cfg then HalfApplied else Pending),
                     attempts := attempts r + 1\<rparr>))"

lemma settled_id [simp]: "rowId (settled cfg events r) = rowId r" "intentKey (settled cfg events r) = intentKey r"
  by (simp_all add: settled_def split: option.splits)

lemma process_row_table:
  assumes "distinct (map rowId rows)" "row \<in> set rows"
  shows "snd (snd (process_row cfg chain events row (res, corr, rows)))
    = map (\<lambda>r. if rowId r = rowId row then settled cfg events r else r) rows"
proof -
  have u: "r = row" if "r \<in> set rows" "rowId r = rowId row" for r
    using that assms by (metis distinct_map inj_onD)
  then have "map (\<lambda>r. if rowId r = rowId row then settled cfg events r else r) rows
      = map (\<lambda>r. if rowId r = rowId row then settled cfg events row else r) rows" by auto
  then show ?thesis
    by (auto simp: process_row_def settled_def markReconciled_def markState_def Let_def
             split: option.splits dest!: u)
qed

lemma fold_process_table:
  assumes "distinct (map rowId rows)" "set todo \<subseteq> set rows" "distinct (map rowId todo)"
  shows "snd (snd (fold (process_row cfg chain events) todo (res, corr, rows)))
    = map (\<lambda>r. if rowId r \<in> rowId ` set todo then settled cfg events r else r) rows"
  using assms
proof (induction todo arbitrary: res corr rows)
  case (Cons row todo)
  obtain res' corr' rows' where p: "process_row cfg chain events row (res, corr, rows) = (res', corr', rows')"
    by (metis prod.exhaust)
  have rows': "rows' = map (\<lambda>r. if rowId r = rowId row then settled cfg events r else r) rows"
    using process_row_table [OF Cons.prems(1), of row cfg chain events res corr] Cons.prems(2) p by simp
  have ids: "map rowId rows' = map rowId rows" by (simp add: rows')
  have nt: "rowId row \<notin> rowId ` set todo" using Cons.prems(3) by simp
  have sub: "set todo \<subseteq> set rows'"
  proof
    fix t assume t: "t \<in> set todo"
    then have "rowId t \<noteq> rowId row" "t \<in> set rows" using nt Cons.prems(2) by (metis image_eqI, auto)
    then show "t \<in> set rows'" unfolding rows' by force
  qed
  have "snd (snd (fold (process_row cfg chain events) todo (res', corr', rows')))
      = map (\<lambda>r. if rowId r \<in> rowId ` set todo then settled cfg events r else r) rows'"
    by (rule Cons.IH) (use ids sub Cons.prems in auto)
  then show ?case using nt by (auto simp: p rows')
qed simp

lemma run_table:
  assumes "wf_rows rows0" "backfillPendingRows events rows0 = Some (n, rows)"
  shows "fst (snd (reconciler_run R srv cfg chain events (rows0, sc))) =
    map (\<lambda>r. if rowId r \<in> rowId ` set (fetchUnresolvedRows (maxRowsPerRun cfg) rows)
             then settled cfg events r else r) rows"
proof -
  have wf: "wf_rows rows" using assms backfill_wf by blast
  let ?start = "\<lparr>backfilledRows = n, processedRows = 0, reconciledCount = 0,
                 halfAppliedCount = 0, stillPendingCount = 0, correctedCount = 0\<rparr>"
  let ?todo = "fetchUnresolvedRows (maxRowsPerRun cfg) rows"
  have "set ?todo \<subseteq> set rows" by (auto simp: fetchUnresolvedRows_def dest: in_set_takeD)
  moreover have "distinct (map rowId ?todo)"
    using wf by (simp add: fetchUnresolvedRows_def wf_rows_def distinct_map_filter flip: take_map)
  ultimately have "snd (snd (fold (process_row cfg chain events) ?todo (?start, [], rows)))
      = map (\<lambda>r. if rowId r \<in> rowId ` set ?todo then settled cfg events r else r) rows"
    by (intro fold_process_table) (use wf in \<open>auto simp: wf_rows_def\<close>)
  moreover obtain res corr rows' where
    f: "fold (process_row cfg chain events) ?todo (?start, [], rows) = (res, corr, rows')"
    by (metis prod.exhaust)
  ultimately have "rows' = map (\<lambda>r. if rowId r \<in> rowId ` set ?todo then settled cfg events r else r) rows"
    by simp
  moreover have "fst (snd (reconciler_run R srv cfg chain events (rows0, sc))) = rows'"
    unfolding reconciler_run_def case_prod_conv assms(2) option.case Let_def f
    by (simp split: prod.splits sum.splits)
  ultimately show ?thesis by simp
qed

lemma run_row:
  assumes "wf_rows rows0" "backfillPendingRows events rows0 = Some (n, rows)"
    and "length rows \<le> maxRowsPerRun cfg" "r \<in> set rows0" "state r \<noteq> Reconciled"
  shows "settled cfg events r \<in> set (fst (snd (reconciler_run R srv cfg chain events (rows0, sc))))"
proof -
  have r: "r \<in> set rows" using backfill_keys [OF assms(2)] assms(4) by auto
  have "length (filter (\<lambda>r. state r \<noteq> Reconciled) rows) \<le> maxRowsPerRun cfg"
    using length_filter_le [of "\<lambda>r. state r \<noteq> Reconciled" rows] assms(3) by linarith
  then have "r \<in> set (fetchUnresolvedRows (maxRowsPerRun cfg) rows)"
    using r assms(5) by (simp add: fetchUnresolvedRows_def)
  with r show ?thesis unfolding run_table [OF assms(1,2)] by force
qed

lemma run_keeps_reconciled:
  assumes "wf_rows rows0" "backfillPendingRows events rows0 = Some (n, rows)"
    and "r \<in> set rows0" "state r = Reconciled"
  shows "r \<in> set (fst (snd (reconciler_run R srv cfg chain events (rows0, sc))))"
proof -
  have wf: "wf_rows rows" using assms backfill_wf by blast
  have r: "r \<in> set rows" using backfill_keys [OF assms(2)] assms(3) by auto
  have "rowId r \<notin> rowId ` set (fetchUnresolvedRows (maxRowsPerRun cfg) rows)"
  proof
    assume "rowId r \<in> rowId ` set (fetchUnresolvedRows (maxRowsPerRun cfg) rows)"
    then obtain q where q: "rowId q = rowId r" "q \<in> set rows" "state q \<noteq> Reconciled"
      by (auto simp: fetchUnresolvedRows_def dest!: in_set_takeD)
    then have "q = r" using wf r unfolding wf_rows_def by (metis distinct_map inj_onD)
    with q assms(4) show False by simp
  qed
  with r show ?thesis unfolding run_table [OF assms(1,2)] by force
qed

lemma run_wf_keys:
  assumes "wf_rows rows0" "backfillPendingRows events rows0 = Some (n, rows)"
  shows "wf_rows (fst (snd (reconciler_run R srv cfg chain events (rows0, sc)))) \<and>
    intentKey ` set (fst (snd (reconciler_run R srv cfg chain events (rows0, sc))))
      = intentKey ` set rows0 \<union> intent_key ` {e \<in> set events. custody_event e} \<and>
    length (fst (snd (reconciler_run R srv cfg chain events (rows0, sc)))) = length rows"
proof -
  let ?g = "\<lambda>r. if rowId r \<in> rowId ` set (fetchUnresolvedRows (maxRowsPerRun cfg) rows)
             then settled cfg events r else r"
  have m: "map intentKey (map ?g rows) = map intentKey rows" "map rowId (map ?g rows) = map rowId rows" by auto
  have k: "intentKey ` set (map ?g rows) = intentKey ` set rows" by (metis m(1) list.set_map)
  have "wf_rows (map ?g rows)" using backfill_wf [OF assms(2,1)] unfolding wf_rows_def m .
  then show ?thesis
    unfolding run_table [OF assms] k using backfill_keys [OF assms(2)] by simp
qed

lemma insert_rows_ok: "(\<forall>e \<in> set es. expected_delta e \<noteq> None) \<Longrightarrow> insert_rows es rows \<noteq> None"
  by (induction es arbitrary: rows) (auto split: option.splits)

lemma backfill_ok:
  "(\<forall>e \<in> set events. custody_event e \<longrightarrow> expected_delta e \<noteq> None) \<Longrightarrow>
     \<exists>n rows. backfillPendingRows events rows0 = Some (n, rows)"
  using insert_rows_ok [of "filter (\<lambda>e. custody_event e \<and> \<not> list_ex (\<lambda>r. intentKey r = intent_key e) rows0) events" rows0]
  by (auto simp: backfillPendingRows_def Let_def)

lemma wf_length: "wf_rows rows \<Longrightarrow> length rows = card (intentKey ` set rows)"
  using distinct_card [of "map intentKey rows"] by (simp add: wf_rows_def)

section \<open>Properties\<close>


definition demo_custody :: "string \<Rightarrow> int \<Rightarrow> event_row" where
  "demo_custody t amt =
     \<lparr>event_id = ''e1'', event_type = t, loan_id = Some 1, address = Some ''GB'', amount = Some amt,
      ledger = 10, ledger_closed_at = 0, tx_hash = ''t1'', contract_id = [], interest_rate_bps = None,
      term_ledgers = None\<rparr>"

definition demo_recon :: recon_config where
  "demo_recon = \<lparr>maxRowsPerRun = 500, staleAttempts = 3, ccAutoCorrect = False\<rparr>"

definition demo_scores :: "mem_state score_sys" where
  "demo_scores = \<lparr>scores = [], score_cache = \<lparr>client = (\<lambda>_. None), isConnected = True\<rparr>\<rparr>"


text \<open>A custody event whose score event is never indexed is reported, and only then: a pending row that
  expects a score change and has no matching score event stays pending for the configured number of
  attempts and is half-applied at every later run, with one attempt counted per run; it is never
  reconciled. (The table fits in one run, so no row waits for the limit.)\<close>

theorem unmatched_row_half_applied:
  assumes "wf_rows rows0" "\<forall>e \<in> set events. custody_event e \<longrightarrow> expected_delta e \<noteq> None"
    and "card (intentKey ` set rows0 \<union> intent_key ` {e \<in> set events. custody_event e}) \<le> maxRowsPerRun cfg"
    and "r \<in> set rows0" "state r = Pending" "attempts r = 0" "expectedScoreDelta r \<noteq> 0"
    and "findMatchingScoreLedger events (rrBorrower r) (disbursementLedger r) (disbursementTxHash r) = None"
  shows "r\<lparr>attempts := int n,
           state := (if staleAttempts cfg \<le> int n \<and> 0 < n then HalfApplied else Pending)\<rparr>
    \<in> set (fst (((\<lambda>st. snd (reconciler_run R srv cfg chain events st)) ^^ n) (rows0, sc)))"
proof -
  let ?K = "intentKey ` set rows0 \<union> intent_key ` {e \<in> set events. custody_event e}"
  let ?st = "\<lambda>n. ((\<lambda>st. snd (reconciler_run R srv cfg chain events st)) ^^ n) (rows0, sc)"
  let ?r = "\<lambda>n. r\<lparr>attempts := int n,
           state := (if staleAttempts cfg \<le> int n \<and> 0 < n then HalfApplied else Pending)\<rparr>"
  have "?r n \<in> set (fst (?st n)) \<and> wf_rows (fst (?st n)) \<and> intentKey ` set (fst (?st n)) \<subseteq> ?K"
  proof (induction n)
    case 0
    have "?r 0 = r" using assms(5,6) by simp
    then show ?case using assms(1,4) by simp
  next
    case (Suc n)
    obtain rows sc' where st: "?st n = (rows, sc')" by (metis prod.exhaust)
    obtain m rows' where b: "backfillPendingRows events rows = Some (m, rows')"
      using backfill_ok [OF assms(2)] by blast
    have wf: "wf_rows rows" and sub: "intentKey ` set rows \<subseteq> ?K" and mem: "?r n \<in> set rows"
      using Suc st by simp_all
    have fin: "finite ?K" by simp
    have "intentKey ` set rows' \<subseteq> ?K" using backfill_keys [OF b] sub by auto
    then have "card (intentKey ` set rows') \<le> card ?K" by (rule card_mono [OF fin])
    then have len: "length rows' \<le> maxRowsPerRun cfg"
      using assms(3) wf_length [OF backfill_wf [OF b wf]] by linarith
    have nr: "state (?r n) \<noteq> Reconciled" by simp
    have "settled cfg events (?r n) = ?r (Suc n)"
      using assms(7,8) by (simp add: settled_def add.commute)
    moreover have "?st (Suc n) = snd (reconciler_run R srv cfg chain events (rows, sc'))"
      using st by simp
    ultimately show ?case
      using run_row [OF wf b len mem nr, of R srv chain sc'] run_wf_keys [OF wf b, of R srv cfg chain sc'] sub
      by auto
  qed
  then show ?thesis by blast
qed

theorem unmatched_row_half_applied_witness:
  "(pending_row 1 (demo_custody ''LoanDefaulted'' 0) (- 50))\<lparr>attempts := 4, state := HalfApplied\<rparr>
   \<in> set (fst (((\<lambda>st. snd (reconciler_run mem_redis Up demo_recon (\<lambda>_. None)
       [demo_custody ''LoanDefaulted'' 0, demo_custody ''ScoreDecr'' 0] st)) ^^ 4)
       ([pending_row 1 (demo_custody ''LoanDefaulted'' 0) (- 50)], demo_scores)))"
  using unmatched_row_half_applied [of "[pending_row 1 (demo_custody ''LoanDefaulted'' 0) (- 50)]"
      "[demo_custody ''LoanDefaulted'' 0, demo_custody ''ScoreDecr'' 0]" demo_recon
      "pending_row 1 (demo_custody ''LoanDefaulted'' 0) (- 50)" 4 mem_redis Up "\<lambda>_. None" demo_scores]
proof -
  have c: "{e \<in> set [demo_custody ''LoanDefaulted'' 0, demo_custody ''ScoreDecr'' 0]. custody_event e}
      = {demo_custody ''LoanDefaulted'' 0}"
    by (auto simp: custody_event_def demo_custody_def)
  have "(pending_row 1 (demo_custody ''LoanDefaulted'' 0) (- 50))\<lparr>attempts := int 4,
      state := (if staleAttempts demo_recon \<le> int 4 \<and> 0 < (4::nat) then HalfApplied else Pending)\<rparr>
   \<in> set (fst (((\<lambda>st. snd (reconciler_run mem_redis Up demo_recon (\<lambda>_. None)
       [demo_custody ''LoanDefaulted'' 0, demo_custody ''ScoreDecr'' 0] st)) ^^ 4)
       ([pending_row 1 (demo_custody ''LoanDefaulted'' 0) (- 50)], demo_scores)))"
    by (rule unmatched_row_half_applied)
       (unfold c, auto simp: wf_rows_def pending_row_def demo_custody_def expected_delta_def demo_recon_def
          custody_event_def findMatchingScoreLedger_def SCORE_EVENT_TYPES_def)
  then show ?thesis by (simp add: demo_recon_def)
qed

text \<open>One large repayment stops the reconciler: as long as a repayment of more than 2147483647 hundreds
  of stroops has no row, the cast of its expected delta to 32 bits fails, the whole run fails, and
  neither the ledger nor any score changes.\<close>

theorem large_repayment_blocks:
  assumes "e \<in> set events" "custody_event e" "event_type e = ''LoanRepaid''" "amount e = Some a"
    and "2147483648 * 100 \<le> a" "intent_key e \<notin> intentKey ` set rows"
  shows "\<exists>err. reconciler_run R srv cfg chain events (rows, sc) = (Inl err, rows, sc)"
proof -
  have "2147483648 \<le> a div 100" using assms(5) by linarith
  then have "expected_delta e = None" using assms(3,4) by (simp add: expected_delta_def int4_def)
  moreover have "e \<in> set (filter (\<lambda>e. custody_event e \<and> \<not> list_ex (\<lambda>r. intentKey r = intent_key e) rows) events)"
    using assms(1,2,6) by (auto simp: list_ex_iff image_iff)
  ultimately have "insert_rows (filter (\<lambda>e. custody_event e \<and>
      \<not> list_ex (\<lambda>r. intentKey r = intent_key e) rows) events) rows = None"
    using insert_rows_fails by blast
  then show ?thesis by (simp add: reconciler_run_def backfillPendingRows_def Let_def)
qed

theorem large_repayment_blocks_witness:
  "\<exists>err. reconciler_run mem_redis Up demo_recon (\<lambda>_. None) [demo_custody ''LoanRepaid'' 300000000000]
     ([], demo_scores) = (Inl err, [], demo_scores)"
  by (rule large_repayment_blocks [of "demo_custody ''LoanRepaid'' 300000000000" _ 300000000000])
     (auto simp: demo_custody_def custody_event_def)

end
