(* ===== verification/Webhook.thy ===== *)
theory Webhook
  imports Json AppErrors
begin

text \<open>
  \<open>src/backend/src/services/webhookService.ts\<close>: the payloads of webhooks, their delivery to the
  subscribers and the retries, with the poll of \<open>webhookRetryProcessor.ts\<close>. What a subscriber answers
  is the parameter \<open>net\<close>, indexed by the delivery and the number of the attempt; the HMAC is the
  parameter \<open>hmac\<close>. Every request that is posted is logged in \<open>posted\<close>.
\<close>

section \<open>Payloads\<close>

definition byteLength :: "string \<Rightarrow> nat" where
  "byteLength s = sum_list (map (\<lambda>c. if (of_char c :: nat) < 128 then 1 else 2) s)"

definition passthroughKeys :: "string list" where
  "passthroughKeys = [''eventId'', ''eventType'', ''loanId'', ''address'', ''ledger'']"

definition truncation_fields :: "int \<Rightarrow> int \<Rightarrow> (string \<times> json) list" where
  "truncation_fields originalPayloadBytes maxPayloadBytes =
     [(''truncated'', JBool True), (''reason'', JStr ''payload_too_large''),
      (''originalPayloadBytes'', JNum originalPayloadBytes), (''maxPayloadBytes'', JNum maxPayloadBytes)]"

definition summarizeOversizedPayload :: "json \<Rightarrow> int \<Rightarrow> int \<Rightarrow> json" where
  "summarizeOversizedPayload payload original limit =
     JObj (truncation_fields original limit @
       List.map_filter (\<lambda>k. map_option (Pair k) (field k payload)) passthroughKeys @
       (case field ''topics'' payload of
          Some (JArr ts) \<Rightarrow> [(''topicsCount'', JNum (int (length ts)))] | _ \<Rightarrow> []))"

definition string_field :: "string \<Rightarrow> json \<Rightarrow> (string \<times> json) list" where
  "string_field k payload = (case field k payload of Some (JStr s) \<Rightarrow> [(k, JStr s)] | _ \<Rightarrow> [])"

definition summarizeOversizedPayloadMinimal :: "json \<Rightarrow> int \<Rightarrow> int \<Rightarrow> json" where
  "summarizeOversizedPayloadMinimal payload original limit =
     JObj (truncation_fields original limit @ string_field ''eventId'' payload @
           string_field ''eventType'' payload)"

definition getWebhookMaxPayloadBytes :: "(string \<Rightarrow> string option) \<Rightarrow> int" where
  "getWebhookMaxPayloadBytes getenv = parsePositiveInt (getenv ''WEBHOOK_MAX_PAYLOAD_BYTES'') (64 * 1024)"

record prepared =
  body :: string
  payload :: json

definition prepareWebhookPayload :: "int \<Rightarrow> json \<Rightarrow> http_error + prepared" where
  "prepareWebhookPayload maxPayloadBytes p =
     (let text = stringify p;
          payloadBytes = int (byteLength text)
      in if payloadBytes > maxPayloadBytes then
           (let full = summarizeOversizedPayload p payloadBytes maxPayloadBytes;
                summarized =
                  (if int (byteLength (stringify full)) > maxPayloadBytes
                   then summarizeOversizedPayloadMinimal p payloadBytes maxPayloadBytes else full)
            in if int (byteLength (stringify summarized)) > maxPayloadBytes
               then Inl (Thrown (''Webhook summary payload exceeds configured limit of '' @
                      show_int maxPayloadBytes @ '' bytes''))
               else Inr \<lparr>body = stringify summarized, payload = summarized\<rparr>)
         else Inr \<lparr>body = text, payload = p\<rparr>)"

section \<open>Deliveries\<close>

definition RETRY_DELAYS_MS :: "ms list" where
  "RETRY_DELAYS_MS = [5 * 60 * 1000, 15 * 60 * 1000, 45 * 60 * 1000]"

definition MAX_RETRY_ATTEMPTS :: int where
  "MAX_RETRY_ATTEMPTS = int (length RETRY_DELAYS_MS) + 1"

definition getRetryDelayMs :: "int \<Rightarrow> ms" where
  "getRetryDelayMs attemptNumber =
     RETRY_DELAYS_MS ! nat (max 0 (min (attemptNumber - 1) (int (length RETRY_DELAYS_MS) - 1)))"

record webhook_sub =
  subId :: int
  callbackUrl :: string
  eventTypes :: "string list"
  secret :: "string option"
  isActive :: bool

record delivery =
  deliveryId :: int
  subscription :: int
  dEventId :: "json option"
  dEventType :: "json option"
  dPayload :: json
  attemptCount :: int
  lastStatusCode :: "int option"
  lastError :: "string option"
  deliveredAt :: "ms option"
  nextRetryAt :: "ms option"

datatype http_result = Response int | NetworkError string

definition response_ok :: "int \<Rightarrow> bool" where "response_ok status \<longleftrightarrow> 200 \<le> status \<and> status \<le> 299"

definition status_error :: "int \<Rightarrow> string" where
  "status_error status = ''Webhook returned status '' @ show_int status"

record request =
  toUrl :: string
  reqText :: string
  signature :: "string option"
  forDelivery :: int

record webhooks =
  subs :: "webhook_sub list"
  deliveries :: "delivery list"
  posted :: "request list"
  nextSub :: int
  nextDelivery :: int

definition sign :: "(string \<Rightarrow> string \<Rightarrow> string) \<Rightarrow> string option \<Rightarrow> string \<Rightarrow> string option" where
  "sign hmac sec text = map_option (\<lambda>s. ''sha256='' @ hmac s text) (env_set sec)"

text \<open>The statement that records an attempt of a delivery that exists.\<close>

definition record_retry :: "ms \<Rightarrow> http_result \<Rightarrow> int \<Rightarrow> delivery \<Rightarrow> delivery" where
  "record_retry now result attempts0 d =
     (let newAttemptCount = attempts0 + 1;
          nextRetryTime = (if newAttemptCount < MAX_RETRY_ATTEMPTS
                           then Some (now + getRetryDelayMs newAttemptCount) else None)
      in case result of
           Response status \<Rightarrow>
             (if response_ok status
              then d\<lparr>attemptCount := newAttemptCount, lastStatusCode := Some status, lastError := None,
                     deliveredAt := Some now, nextRetryAt := None\<rparr>
              else d\<lparr>attemptCount := newAttemptCount, lastStatusCode := Some status,
                     lastError := Some (status_error status), nextRetryAt := nextRetryTime\<rparr>)
         | NetworkError msg \<Rightarrow>
             d\<lparr>attemptCount := newAttemptCount, lastError := Some msg, nextRetryAt := nextRetryTime\<rparr>)"

definition retryWebhookDelivery ::
  "(string \<Rightarrow> string \<Rightarrow> string) \<Rightarrow> int \<Rightarrow> (int \<Rightarrow> int \<Rightarrow> http_result) \<Rightarrow> ms \<Rightarrow> webhook_sub \<Rightarrow> delivery \<Rightarrow> webhooks
     \<Rightarrow> (http_error + unit) \<times> webhooks" where
  "retryWebhookDelivery hmac limit net now sub d w =
     (case prepareWebhookPayload limit (dPayload d) of
        Inl e \<Rightarrow> (Inl e, w)
      | Inr pr \<Rightarrow>
          (Inr (), w\<lparr>posted := posted w @ [\<lparr>toUrl = callbackUrl sub, reqText = body pr,
                        signature = sign hmac (secret sub) (body pr), forDelivery = deliveryId d\<rparr>],
                     deliveries := map (\<lambda>d'. if deliveryId d' = deliveryId d
                        then record_retry now (net (deliveryId d) (attemptCount d)) (attemptCount d) d'
                        else d') (deliveries w)\<rparr>))"

text \<open>The loop of \<open>processRetries\<close>: a throw leaves it, and the outer \<open>catch\<close> logs it.\<close>

fun retry_rows ::
  "(string \<Rightarrow> string \<Rightarrow> string) \<Rightarrow> int \<Rightarrow> (int \<Rightarrow> int \<Rightarrow> http_result) \<Rightarrow> ms \<Rightarrow> (webhook_sub \<times> delivery) list
     \<Rightarrow> webhooks \<Rightarrow> webhooks" where
  "retry_rows hmac limit net now [] w = w"
| "retry_rows hmac limit net now ((sub, d) # rows) w =
     (if attemptCount d \<ge> MAX_RETRY_ATTEMPTS then retry_rows hmac limit net now rows w
      else (case retryWebhookDelivery hmac limit net now sub d w of
              (Inl e, w') \<Rightarrow> w'
            | (Inr _, w') \<Rightarrow> retry_rows hmac limit net now rows w'))"

definition due :: "ms \<Rightarrow> delivery \<Rightarrow> bool" where
  "due now d \<longleftrightarrow> deliveredAt d = None \<and> nextRetryAt d \<noteq> None \<and> the (nextRetryAt d) \<le> now \<and>
     attemptCount d < MAX_RETRY_ATTEMPTS"

definition due_rows :: "ms \<Rightarrow> webhooks \<Rightarrow> (webhook_sub \<times> delivery) list" where
  "due_rows now w =
     List.map_filter (\<lambda>d. map_option (\<lambda>s. (s, d)) (find (\<lambda>s. subId s = subscription d) (subs w)))
       (sort_key (\<lambda>d. the (nextRetryAt d)) (filter (due now) (deliveries w)))"

definition processRetries ::
  "(string \<Rightarrow> string \<Rightarrow> string) \<Rightarrow> int \<Rightarrow> (int \<Rightarrow> int \<Rightarrow> http_result) \<Rightarrow> ms \<Rightarrow> webhooks \<Rightarrow> webhooks" where
  "processRetries hmac limit net now w =
     retry_rows hmac limit net now (take 100 (due_rows now w)) w"

text \<open>The first attempt: the row is inserted with its outcome.\<close>

definition sendToWebhook ::
  "(string \<Rightarrow> string \<Rightarrow> string) \<Rightarrow> (int \<Rightarrow> int \<Rightarrow> http_result) \<Rightarrow> ms \<Rightarrow> prepared \<Rightarrow> webhook_sub \<Rightarrow> webhooks
     \<Rightarrow> webhooks" where
  "sendToWebhook hmac net now pr sub w =
     (let i = nextDelivery w;
          row = \<lparr>deliveryId = i, subscription = subId sub, dEventId = field ''eventId'' (payload pr),
                 dEventType = field ''eventType'' (payload pr), dPayload = payload pr, attemptCount = 1,
                 lastStatusCode = None, lastError = None, deliveredAt = None, nextRetryAt = None\<rparr>;
          nextRetry = Some (now + getRetryDelayMs 1);
          row' = (case net i 0 of
                    Response status \<Rightarrow>
                      (if response_ok status
                       then row\<lparr>lastStatusCode := Some status, deliveredAt := Some now\<rparr>
                       else row\<lparr>lastStatusCode := Some status, lastError := Some (status_error status),
                                nextRetryAt := nextRetry\<rparr>)
                  | NetworkError msg \<Rightarrow> row\<lparr>lastError := Some msg, nextRetryAt := nextRetry\<rparr>)
      in w\<lparr>posted := posted w @ [\<lparr>toUrl = callbackUrl sub, reqText = body pr,
             signature = sign hmac (secret sub) (body pr), forDelivery = i\<rparr>],
           deliveries := deliveries w @ [row'], nextDelivery := i + 1\<rparr>)"

definition dispatch ::
  "(string \<Rightarrow> string \<Rightarrow> string) \<Rightarrow> int \<Rightarrow> (int \<Rightarrow> int \<Rightarrow> http_result) \<Rightarrow> ms \<Rightarrow> string \<Rightarrow> json \<Rightarrow> webhooks \<Rightarrow> webhooks" where
  "dispatch hmac limit net now eventType event w =
     (case prepareWebhookPayload limit event of
        Inl e \<Rightarrow> w
      | Inr pr \<Rightarrow>
          fold (sendToWebhook hmac net now pr)
            (filter (\<lambda>s. isActive s \<and> eventType \<in> set (eventTypes s)) (subs w)) w)"

definition registerSubscription :: "string \<Rightarrow> string list \<Rightarrow> string option \<Rightarrow> webhooks \<Rightarrow> webhook_sub \<times> webhooks" where
  "registerSubscription url types sec w =
     (let s = \<lparr>subId = nextSub w, callbackUrl = url, eventTypes = types, secret = sec, isActive = True\<rparr>
      in (s\<lparr>secret := env_set sec\<rparr>, w\<lparr>subs := subs w @ [s], nextSub := nextSub w + 1\<rparr>))"

text \<open>The deliveries of a deleted subscription go with it.\<close>

definition deleteSubscription :: "int \<Rightarrow> webhooks \<Rightarrow> bool \<times> webhooks" where
  "deleteSubscription i w =
     (list_ex (\<lambda>s. subId s = i) (subs w),
      w\<lparr>subs := filter (\<lambda>s. subId s \<noteq> i) (subs w),
        deliveries := filter (\<lambda>d. subscription d \<noteq> i) (deliveries w)\<rparr>)"

definition getSubscriptionDeliveries :: "int \<Rightarrow> nat \<Rightarrow> webhooks \<Rightarrow> delivery list" where
  "getSubscriptionDeliveries i limit w =
     take limit (rev (filter (\<lambda>d. subscription d = i) (deliveries w)))"


section \<open>The life of a delivery\<close>

inductive wh_step ::
  "(string \<Rightarrow> string \<Rightarrow> string) \<Rightarrow> int \<Rightarrow> webhooks \<Rightarrow> webhooks \<Rightarrow> bool"
  for hmac :: "string \<Rightarrow> string \<Rightarrow> string" and limit :: int where
  event: "wh_step hmac limit w (dispatch hmac limit net now t e w)"
| retries: "wh_step hmac limit w (processRetries hmac limit net now w)"
| subscribe: "wh_step hmac limit w (snd (registerSubscription url ts sec w))"
| unsubscribe: "wh_step hmac limit w (snd (deleteSubscription i w))"

definition no_webhooks :: webhooks where
  "no_webhooks = \<lparr>subs = [], deliveries = [], posted = [], nextSub = 1, nextDelivery = 1\<rparr>"

inductive wh_reach :: "(string \<Rightarrow> string \<Rightarrow> string) \<Rightarrow> int \<Rightarrow> webhooks \<Rightarrow> bool"
  for hmac :: "string \<Rightarrow> string \<Rightarrow> string" and limit :: int where
  start: "wh_reach hmac limit no_webhooks"
| step: "wh_reach hmac limit w \<Longrightarrow> wh_step hmac limit w w' \<Longrightarrow> wh_reach hmac limit w'"

definition requests_for :: "int \<Rightarrow> webhooks \<Rightarrow> nat" where
  "requests_for i w = length (filter (\<lambda>r. forDelivery r = i) (posted w))"

text \<open>Delivered and finished, given up after the last attempt, or waiting for a retry.\<close>

definition delivery_ok :: "delivery \<Rightarrow> bool" where
  "delivery_ok d \<longleftrightarrow>
     1 \<le> attemptCount d \<and> attemptCount d \<le> MAX_RETRY_ATTEMPTS \<and>
     (case deliveredAt d of
        Some _ \<Rightarrow> nextRetryAt d = None
      | None \<Rightarrow> nextRetryAt d = None \<longleftrightarrow> attemptCount d = MAX_RETRY_ATTEMPTS)"

definition wh_inv :: "webhooks \<Rightarrow> bool" where
  "wh_inv w \<longleftrightarrow>
     distinct (map deliveryId (deliveries w)) \<and>
     (\<forall>d \<in> set (deliveries w). deliveryId d < nextDelivery w \<and> delivery_ok d \<and>
        int (requests_for (deliveryId d) w) = attemptCount d) \<and>
     (\<forall>i. int (requests_for i w) \<le> MAX_RETRY_ATTEMPTS \<and> (nextDelivery w \<le> i \<longrightarrow> requests_for i w = 0))"

lemma max_attempts [simp]: "MAX_RETRY_ATTEMPTS = 4"
  by (simp add: MAX_RETRY_ATTEMPTS_def RETRY_DELAYS_MS_def)

lemma retry_delays:
  "getRetryDelayMs 1 = 300000" "getRetryDelayMs 2 = 900000" "getRetryDelayMs 3 = 2700000"
  by (simp_all add: getRetryDelayMs_def RETRY_DELAYS_MS_def)

lemma record_retry_ok:
  assumes "delivery_ok d" "deliveredAt d = None" "attemptCount d < 4"
  shows "delivery_ok (record_retry now result (attemptCount d) d)"
    and "attemptCount (record_retry now result (attemptCount d) d) = attemptCount d + 1"
  using assms by (auto simp: delivery_ok_def record_retry_def Let_def split: http_result.splits)

lemma record_retry_id [simp]: "deliveryId (record_retry now result n d) = deliveryId d"
  by (auto simp: record_retry_def Let_def split: http_result.splits)

lemma send_inv:
  assumes "wh_inv w"
  shows "wh_inv (sendToWebhook hmac net now pr sub w)"
proof -
  let ?w = "sendToWebhook hmac net now pr sub w"
  obtain row where row: "deliveries ?w = deliveries w @ [row]" "deliveryId row = nextDelivery w"
    "delivery_ok row" "attemptCount row = 1"
    by (cases "net (nextDelivery w) 0")
       (auto simp: sendToWebhook_def Let_def delivery_ok_def split: if_splits)
  have n: "nextDelivery ?w = nextDelivery w + 1" by (simp add: sendToWebhook_def Let_def)
  have r: "requests_for i ?w = requests_for i w + (if i = nextDelivery w then 1 else 0)" for i
    by (simp add: sendToWebhook_def Let_def requests_for_def)
  have z: "requests_for (nextDelivery w) w = 0" using assms by (simp add: wh_inv_def)
  show ?thesis
    unfolding wh_inv_def row n r using assms row(2-4) z
    by (auto simp: wh_inv_def)
qed

lemma dispatch_inv: "wh_inv w \<Longrightarrow> wh_inv (dispatch hmac limit net now t e w)"
proof -
  have "wh_inv w \<Longrightarrow> wh_inv (fold (sendToWebhook hmac net now pr) ss w)" for pr ss
    by (induction ss arbitrary: w) (auto simp: send_inv)
  then show "wh_inv w \<Longrightarrow> wh_inv (dispatch hmac limit net now t e w)"
    by (simp add: dispatch_def split: sum.splits)
qed

lemma retry_result:
  assumes "wh_inv w" "d \<in> set (deliveries w)" "due now d"
    and "retryWebhookDelivery hmac limit net now sub d w = (Inr (), w')"
  shows "wh_inv w' \<and>
    deliveries w' = map (\<lambda>d'. if deliveryId d' = deliveryId d
      then record_retry now (net (deliveryId d) (attemptCount d)) (attemptCount d) d else d') (deliveries w) \<and>
    (\<forall>i. requests_for i w' = requests_for i w + (if i = deliveryId d then 1 else 0)) \<and>
    nextDelivery w' = nextDelivery w \<and> subs w' = subs w"
proof -
  let ?d' = "record_retry now (net (deliveryId d) (attemptCount d)) (attemptCount d) d"
  have u: "x = d" if "x \<in> set (deliveries w)" "deliveryId x = deliveryId d" for x
    using that assms(1,2) unfolding wh_inv_def by (metis distinct_map inj_onD)
  have del: "deliveries w' = map (\<lambda>x. if deliveryId x = deliveryId d then ?d' else x) (deliveries w)"
    using assms(4) by (auto simp: retryWebhookDelivery_def dest: u split: sum.splits)
  have req: "requests_for i w' = requests_for i w + (if i = deliveryId d then 1 else 0)" for i
    using assms(4) by (auto simp: retryWebhookDelivery_def requests_for_def split: sum.splits)
  have nx: "nextDelivery w' = nextDelivery w" "subs w' = subs w"
    using assms(4) by (auto simp: retryWebhookDelivery_def split: sum.splits)
  have ids: "map deliveryId (deliveries w') = map deliveryId (deliveries w)" by (simp add: del)
  have dk: "delivery_ok d" "deliveredAt d = None" "attemptCount d < 4" "deliveryId d < nextDelivery w"
    "int (requests_for (deliveryId d) w) = attemptCount d"
    using assms(1-3) by (auto simp: wh_inv_def due_def)
  have "wh_inv w'"
    unfolding wh_inv_def ids nx req
    using assms(1) dk record_retry_ok [OF dk(1-3)] by (auto simp: wh_inv_def del dest: u)
  with del req nx show ?thesis by blast
qed

text \<open>The loop works on a snapshot; each row of it is still the row of the table when its turn comes.\<close>

definition fresh_rows :: "ms \<Rightarrow> (webhook_sub \<times> delivery) list \<Rightarrow> webhooks \<Rightarrow> bool" where
  "fresh_rows now rows w \<longleftrightarrow>
     distinct (map (\<lambda>p. deliveryId (snd p)) rows) \<and>
     (\<forall>(s, d) \<in> set rows. d \<in> set (deliveries w) \<and> due now d)"

lemma fresh_rows_step:
  assumes "wh_inv w" "fresh_rows now ((sub, d) # rows) w"
    and "retryWebhookDelivery hmac limit net now sub d w = (Inr (), w')"
  shows "fresh_rows now rows w'"
proof -
  have d: "d \<in> set (deliveries w)" "due now d" using assms(2) by (auto simp: fresh_rows_def)
  have del: "deliveries w' = map (\<lambda>d'. if deliveryId d' = deliveryId d
      then record_retry now (net (deliveryId d) (attemptCount d)) (attemptCount d) d else d') (deliveries w)"
    using retry_result [OF assms(1) d assms(3)] by blast
  have "y \<in> set (deliveries w')" if "(s, y) \<in> set rows" for s y
  proof -
    have "deliveryId y \<noteq> deliveryId d" "y \<in> set (deliveries w)"
      using assms(2) that by (auto simp: fresh_rows_def image_iff)
    then show ?thesis unfolding del by force
  qed
  with assms(2) show ?thesis by (auto simp: fresh_rows_def)
qed

lemma retry_rows_inv:
  "wh_inv w \<Longrightarrow> fresh_rows now rows w \<Longrightarrow> wh_inv (retry_rows hmac limit net now rows w)"
proof (induction rows arbitrary: w)
  case (Cons p rows)
  obtain sub d where p: "p = (sub, d)" by (cases p)
  have d: "d \<in> set (deliveries w)" "due now d" using Cons.prems(2) by (auto simp: fresh_rows_def p)
  have a: "\<not> MAX_RETRY_ATTEMPTS \<le> attemptCount d" using d(2) by (simp add: due_def)
  show ?case
  proof (cases "retryWebhookDelivery hmac limit net now sub d w")
    case (Pair r w')
    show ?thesis
    proof (cases r)
      case (Inl e)
      then have "w' = w" using Pair by (auto simp: retryWebhookDelivery_def split: sum.splits)
      with Inl Pair a Cons.prems show ?thesis by (simp add: p)
    next
      case (Inr x)
      then have ok: "retryWebhookDelivery hmac limit net now sub d w = (Inr (), w')" using Pair by simp
      have "wh_inv (retry_rows hmac limit net now rows w')"
        by (rule Cons.IH) (use retry_result [OF Cons.prems(1) d ok]
          fresh_rows_step [OF Cons.prems(1) _ ok] Cons.prems(2) p in auto)
      with a show ?thesis by (simp add: p ok)
    qed
  qed
qed simp

lemma map_filter_pairs:
  "map snd (List.map_filter (\<lambda>d. map_option (\<lambda>s. (s, d)) (f d)) ds) = filter (\<lambda>d. f d \<noteq> None) ds"
  by (induction ds) (auto simp: map_filter_simps split: option.splits)

lemma due_rows_fresh: "wh_inv w \<Longrightarrow> fresh_rows now (take n (due_rows now w)) w"
proof -
  assume inv: "wh_inv w"
  let ?ds = "sort_key (\<lambda>d. the (nextRetryAt d)) (filter (due now) (deliveries w))"
  have snd: "map snd (due_rows now w) = filter (\<lambda>d. find (\<lambda>s. subId s = subscription d) (subs w) \<noteq> None) ?ds"
    unfolding due_rows_def by (rule map_filter_pairs)
  have "distinct (map deliveryId (deliveries w))" using inv by (simp add: wh_inv_def)
  then have "distinct (map deliveryId (filter (due now) (deliveries w)))" by (simp add: distinct_map_filter)
  then have "distinct (map deliveryId ?ds)" by (simp add: distinct_map)
  then have "distinct (map deliveryId (map snd (due_rows now w)))"
    unfolding snd by (simp add: distinct_map_filter)
  then have "distinct (map (\<lambda>p. deliveryId (snd p)) (due_rows now w))" by (simp add: comp_def)
  moreover have "d \<in> set (deliveries w) \<and> due now d" if "(s, d) \<in> set (due_rows now w)" for s d
  proof -
    have "d \<in> set (map snd (due_rows now w))" using that by force
    then show ?thesis unfolding snd by simp
  qed
  ultimately show "fresh_rows now (take n (due_rows now w)) w"
    by (auto simp: fresh_rows_def take_map [symmetric] dest!: in_set_takeD)
qed

lemma processRetries_inv: "wh_inv w \<Longrightarrow> wh_inv (processRetries hmac limit net now w)"
  unfolding processRetries_def by (intro retry_rows_inv due_rows_fresh)

lemma wh_step_inv: "wh_step hmac limit w w' \<Longrightarrow> wh_inv w \<Longrightarrow> wh_inv w'"
proof (induction rule: wh_step.induct)
  case (subscribe w url ts sec)
  then show ?case by (simp add: registerSubscription_def Let_def wh_inv_def requests_for_def)
next
  case (unsubscribe w i)
  then show ?case
    by (auto simp: deleteSubscription_def wh_inv_def requests_for_def distinct_map_filter)
qed (auto intro: dispatch_inv processRetries_inv)

lemma wh_reach_inv: "wh_reach hmac limit w \<Longrightarrow> wh_inv w"
proof (induction rule: wh_reach.induct)
  case start
  show ?case by (simp add: no_webhooks_def wh_inv_def requests_for_def)
next
  case (step w w')
  then show ?case using wh_step_inv by blast
qed

section \<open>One poll\<close>

lemma retry_rows_effect:
  assumes "wh_inv w" "fresh_rows now rows w"
    and "\<forall>(s, d) \<in> set rows. \<exists>pr. prepareWebhookPayload limit (dPayload d) = Inr pr"
  shows "deliveries (retry_rows hmac limit net now rows w) =
      map (\<lambda>d. if deliveryId d \<in> (deliveryId \<circ> snd) ` set rows
               then record_retry now (net (deliveryId d) (attemptCount d)) (attemptCount d) d else d)
        (deliveries w) \<and>
    (\<forall>i. requests_for i (retry_rows hmac limit net now rows w)
       = requests_for i w + (if i \<in> (deliveryId \<circ> snd) ` set rows then 1 else 0))"
  using assms
proof (induction rows arbitrary: w)
  case (Cons p rows)
  obtain sub d where p: "p = (sub, d)" by (cases p)
  have d: "d \<in> set (deliveries w)" "due now d" using Cons.prems(2) by (auto simp: fresh_rows_def p)
  have a: "\<not> MAX_RETRY_ATTEMPTS \<le> attemptCount d" using d(2) by (simp add: due_def)
  obtain w' where ok: "retryWebhookDelivery hmac limit net now sub d w = (Inr (), w')"
    using Cons.prems(3) by (auto simp: p retryWebhookDelivery_def)
  note res = retry_result [OF Cons.prems(1) d ok]
  have nt: "deliveryId d \<notin> (deliveryId \<circ> snd) ` set rows"
    using Cons.prems(2) by (auto simp: fresh_rows_def p)
  have u: "x = d" if "x \<in> set (deliveries w)" "deliveryId x = deliveryId d" for x
    using that Cons.prems(1) d(1) unfolding wh_inv_def by (metis distinct_map inj_onD)
  have IH: "deliveries (retry_rows hmac limit net now rows w') =
      map (\<lambda>d. if deliveryId d \<in> (deliveryId \<circ> snd) ` set rows
               then record_retry now (net (deliveryId d) (attemptCount d)) (attemptCount d) d else d)
        (deliveries w') \<and>
    (\<forall>i. requests_for i (retry_rows hmac limit net now rows w')
       = requests_for i w' + (if i \<in> (deliveryId \<circ> snd) ` set rows then 1 else 0))"
    by (rule Cons.IH)
       (use res fresh_rows_step [OF Cons.prems(1) _ ok] Cons.prems(2,3) p in auto)
  have "retry_rows hmac limit net now (p # rows) w = retry_rows hmac limit net now rows w'"
    using a by (simp add: p ok)
  then show ?case using IH res nt by (auto simp: p dest: u)
qed (simp add: fresh_rows_def)


text \<open>What is stored was prepared within the limit, for a subscription that exists.\<close>

definition stored_ok :: "int \<Rightarrow> webhooks \<Rightarrow> bool" where
  "stored_ok limit w \<longleftrightarrow>
     (\<forall>d \<in> set (deliveries w). int (byteLength (stringify (dPayload d))) \<le> limit \<and>
        (\<exists>s \<in> set (subs w). subId s = subscription d))"

lemma prepare_within:
  "prepareWebhookPayload limit p = Inr pr \<Longrightarrow>
     body pr = stringify (payload pr) \<and> int (byteLength (stringify (payload pr))) \<le> limit"
  by (auto simp: prepareWebhookPayload_def Let_def split: if_splits)

lemma prepare_again:
  "int (byteLength (stringify p)) \<le> limit \<Longrightarrow>
     prepareWebhookPayload limit p = Inr \<lparr>body = stringify p, payload = p\<rparr>"
  by (simp add: prepareWebhookPayload_def Let_def)

lemma send_stored:
  assumes "stored_ok limit w" "int (byteLength (stringify (payload pr))) \<le> limit" "sub \<in> set (subs w)"
  shows "stored_ok limit (sendToWebhook hmac net now pr sub w)"
proof -
  obtain row where row: "deliveries (sendToWebhook hmac net now pr sub w) = deliveries w @ [row]"
    "dPayload row = payload pr" "subscription row = subId sub"
    by (cases "net (nextDelivery w) 0") (auto simp: sendToWebhook_def Let_def split: if_splits)
  have "subs (sendToWebhook hmac net now pr sub w) = subs w" by (simp add: sendToWebhook_def Let_def)
  with assms row show ?thesis by (auto simp: stored_ok_def)
qed

lemma fold_send_stored:
  assumes "stored_ok limit w" "int (byteLength (stringify (payload pr))) \<le> limit" "set ss \<subseteq> set (subs w)"
  shows "stored_ok limit (fold (sendToWebhook hmac net now pr) ss w)"
  using assms
proof (induction ss arbitrary: w)
  case (Cons s ss)
  have "subs (sendToWebhook hmac net now pr s w) = subs w" by (simp add: sendToWebhook_def Let_def)
  with Cons show ?case by (simp add: send_stored)
qed simp

lemma retry_rows_subs [simp]: "subs (retry_rows hmac limit net now rows w) = subs w"
proof (induction rows arbitrary: w)
  case (Cons p rows)
  then show ?case
    by (cases p) (auto simp: retryWebhookDelivery_def split: sum.splits prod.splits)
qed simp

lemma record_retry_same [simp]:
  "dPayload (record_retry now result n d) = dPayload d"
  "subscription (record_retry now result n d) = subscription d"
  by (auto simp: record_retry_def Let_def split: http_result.splits)

lemma retry_rows_stored: "stored_ok limit w \<Longrightarrow> stored_ok limit (retry_rows hmac limit net now rows w)"
proof (induction rows arbitrary: w)
  case (Cons p rows)
  obtain sub d where p: "p = (sub, d)" by (cases p)
  have "stored_ok limit w'" if "retryWebhookDelivery hmac limit net now sub d w = (r, w')" for r w'
    using that Cons.prems by (auto simp: retryWebhookDelivery_def stored_ok_def split: sum.splits)
  with Cons show ?case by (auto simp: p split: sum.splits prod.splits)
qed simp

lemma wh_step_stored: "wh_step hmac limit w w' \<Longrightarrow> stored_ok limit w \<Longrightarrow> stored_ok limit w'"
proof (induction rule: wh_step.induct)
  case (event w net now t e)
  then show ?case
    using fold_send_stored prepare_within unfolding dispatch_def
    by (auto split: sum.splits)
next
  case (retries w net now)
  then show ?case by (simp add: processRetries_def retry_rows_stored)
next
  case (subscribe w url ts sec)
  then show ?case by (auto simp: stored_ok_def registerSubscription_def Let_def)
next
  case (unsubscribe w i)
  then show ?case by (auto simp: stored_ok_def deleteSubscription_def) metis
qed

lemma wh_reach_stored: "wh_reach hmac limit w \<Longrightarrow> stored_ok limit w"
proof (induction rule: wh_reach.induct)
  case start
  show ?case by (simp add: no_webhooks_def stored_ok_def)
next
  case (step w w')
  then show ?case using wh_step_stored by blast
qed

section \<open>Properties\<close>

definition polled :: "ms \<Rightarrow> webhooks \<Rightarrow> int set" where
  "polled now w = deliveryId ` set (take 100
     (sort_key (\<lambda>d. the (nextRetryAt d)) (filter (due now) (deliveries w))))"

definition next_attempt :: "ms \<Rightarrow> http_result \<Rightarrow> delivery \<Rightarrow> delivery \<Rightarrow> bool" where
  "next_attempt now result d d' \<longleftrightarrow>
     attemptCount d' = attemptCount d + 1 \<and>
     (if \<exists>s. result = Response s \<and> response_ok s
      then deliveredAt d' = Some now \<and> nextRetryAt d' = None
      else deliveredAt d' = None \<and>
           nextRetryAt d' = (if attemptCount d = 1 then Some (now + 15 * 60 * 1000)
                             else if attemptCount d = 2 then Some (now + 45 * 60 * 1000) else None))"

lemma record_retry_next_attempt:
  assumes "deliveredAt d = None" "attemptCount d \<in> {1, 2, 3}"
  shows "next_attempt now result d (record_retry now result (attemptCount d) d)"
  using assms retry_delays
  by (auto simp: next_attempt_def record_retry_def Let_def split: http_result.splits)

lemma polled_rows:
  assumes "stored_ok limit w"
  shows "(deliveryId \<circ> snd) ` set (take 100 (due_rows now w)) = polled now w"
proof -
  let ?ds = "sort_key (\<lambda>d. the (nextRetryAt d)) (filter (due now) (deliveries w))"
  have "find (\<lambda>s. subId s = subscription d) (subs w) \<noteq> None" if "d \<in> set ?ds" for d
    using assms that unfolding stored_ok_def find_None_iff by force
  then have "map snd (due_rows now w) = ?ds"
    unfolding due_rows_def map_filter_pairs by (simp add: filter_id_conv)
  then have "map snd (take 100 (due_rows now w)) = take 100 ?ds" by (metis take_map)
  then show ?thesis unfolding polled_def by (metis image_comp list.set_map)
qed

lemma map_of_passthrough:
  "map_of (List.map_filter (\<lambda>k. map_option (Pair k) (f k)) ks) k = (if k \<in> set ks then f k else None)"
  by (induction ks) (auto simp: map_filter_simps split: option.splits)

lemma summary_keeps:
  assumes "k \<in> {''eventId'', ''eventType''}" "field k p = Some (JStr s)"
  shows "field k (summarizeOversizedPayload p n limit) = Some (JStr s)"
    and "field k (summarizeOversizedPayloadMinimal p n limit) = Some (JStr s)"
proof -
  have f: "map_of (truncation_fields n limit @ rest) k = map_of rest k" for rest
    using assms(1) by (auto simp: truncation_fields_def)
  have pass: "k \<in> set passthroughKeys" using assms(1) by (auto simp: passthroughKeys_def)
  show "field k (summarizeOversizedPayload p n limit) = Some (JStr s)"
    using assms(2) pass unfolding summarizeOversizedPayload_def field_def [of k "JObj _"] json.case f
    unfolding map_of_append
    by (auto simp: map_of_passthrough map_add_def split: option.splits json.splits)
  show "field k (summarizeOversizedPayloadMinimal p n limit) = Some (JStr s)"
    using assms unfolding summarizeOversizedPayloadMinimal_def field_def [of k "JObj _"] json.case f
    by (auto simp: string_field_def split: option.splits json.splits)
qed


definition first_event :: webhooks where
  "first_event =
     dispatch (\<lambda>_ _. ''mac'') 100 (\<lambda>_ _. NetworkError ''timeout'') 0 ''LoanApproved'' (JObj [])
       (snd (registerSubscription ''url'' [''LoanApproved''] None no_webhooks))"

lemma first_event_reach: "wh_reach (\<lambda>_ _. ''mac'') 100 first_event"
  unfolding first_event_def
  by (rule wh_reach.step [OF wh_reach.step [OF wh_reach.start wh_step.subscribe] wh_step.event])


text \<open>One poll of the retry queue posts every due delivery exactly once (the hundred that have
  waited longest when there are more) and nothing else. Each is recorded with its outcome: delivered,
  or to be retried 15 and then 45 minutes later, or given up. No stored payload can stop the poll.\<close>

theorem retry_poll:
  assumes "wh_reach hmac limit w"
  shows "(\<forall>i. requests_for i (processRetries hmac limit net now w)
             = requests_for i w + (if i \<in> polled now w then 1 else 0)) \<and>
    list_all2 (\<lambda>d d'. deliveryId d' = deliveryId d \<and>
        (if deliveryId d \<in> polled now w
         then next_attempt now (net (deliveryId d) (attemptCount d)) d d' else d' = d))
      (deliveries w) (deliveries (processRetries hmac limit net now w)) \<and>
    (length (filter (due now) (deliveries w)) \<le> 100 \<longrightarrow>
       polled now w = deliveryId ` {d \<in> set (deliveries w). due now d})"
proof -
  have inv: "wh_inv w" and st: "stored_ok limit w"
    using assms by (auto intro: wh_reach_inv wh_reach_stored)
  let ?rows = "take 100 (due_rows now w)"
  have fr: "fresh_rows now ?rows w" by (rule due_rows_fresh [OF inv])
  have "\<forall>(s, d) \<in> set ?rows. \<exists>pr. prepareWebhookPayload limit (dPayload d) = Inr pr"
    using fr st prepare_again unfolding fresh_rows_def stored_ok_def by blast
  note eff = retry_rows_effect [OF inv fr this, of hmac net, folded processRetries_def,
      unfolded polled_rows [OF st]]
  have u: "x = d" if "x \<in> set (deliveries w)" "d \<in> set (deliveries w)" "deliveryId x = deliveryId d" for x d
    using that inv unfolding wh_inv_def by (metis distinct_map inj_onD)
  have nx: "next_attempt now (net (deliveryId d) (attemptCount d)) d
      (record_retry now (net (deliveryId d) (attemptCount d)) (attemptCount d) d)"
    if d: "d \<in> set (deliveries w)" "deliveryId d \<in> polled now w" for d
  proof (rule record_retry_next_attempt)
    obtain x where x: "deliveryId x = deliveryId d" "x \<in> set (deliveries w)" "due now x"
      using d(2) unfolding polled_def by (fastforce dest: in_set_takeD)
    then have "due now d" using u [OF x(2) d(1) x(1)] by simp
    then show "deliveredAt d = None" "attemptCount d \<in> {1, 2, 3}"
      using inv d(1) by (auto simp: due_def wh_inv_def delivery_ok_def)
  qed
  have l2: "list_all2 (\<lambda>d d'. deliveryId d' = deliveryId d \<and>
        (if deliveryId d \<in> polled now w
         then next_attempt now (net (deliveryId d) (attemptCount d)) d d' else d' = d))
      (deliveries w) (deliveries (processRetries hmac limit net now w))"
    using nx by (auto simp: conjunct1 [OF eff] list_all2_conv_all_nth)
  show ?thesis using eff l2 by (auto simp: polled_def)
qed

theorem retry_poll_witness:
  "requests_for 1 (processRetries (\<lambda>_ _. ''mac'') 100 (\<lambda>_ _. NetworkError ''reset'') 300000 first_event)
     = requests_for 1 first_event + 1 \<and>
   map nextRetryAt (deliveries (processRetries (\<lambda>_ _. ''mac'') 100 (\<lambda>_ _. NetworkError ''reset'') 300000
     first_event)) = [Some (300000 + 900000)]"
proof -
  have p: "polled 300000 first_event = {1}" by code_simp
  have "map nextRetryAt (deliveries (processRetries (\<lambda>_ _. ''mac'') 100 (\<lambda>_ _. NetworkError ''reset'')
     300000 first_event)) = [Some (300000 + 900000)]" by code_simp
  with retry_poll [OF first_event_reach, of "\<lambda>_ _. NetworkError ''reset''" 300000]
  show ?thesis by (simp add: p)
qed

text \<open>The body that is posted never exceeds the limit. An event that fits is posted as it is; a
  larger one is replaced by a summary that says so, with its size, and that still carries the
  identifier and the type of the event.\<close>

theorem webhook_payload_limit:
  assumes "prepareWebhookPayload limit p = Inr pr"
  shows "body pr = stringify (payload pr) \<and> int (byteLength (body pr)) \<le> limit \<and>
    (if int (byteLength (stringify p)) \<le> limit then payload pr = p
     else field ''truncated'' (payload pr) = Some (JBool True) \<and>
          field ''originalPayloadBytes'' (payload pr) = Some (JNum (int (byteLength (stringify p)))) \<and>
          (\<forall>k \<in> {''eventId'', ''eventType''}. \<forall>s. field k p = Some (JStr s) \<longrightarrow>
             field k (payload pr) = Some (JStr s)))"
proof -
  have "body pr = stringify (payload pr) \<and> int (byteLength (body pr)) \<le> limit"
    using prepare_within [OF assms] by simp
  moreover have "field ''truncated'' (summarizeOversizedPayload p n limit) = Some (JBool True)"
    "field ''originalPayloadBytes'' (summarizeOversizedPayload p n limit) = Some (JNum n)"
    "field ''truncated'' (summarizeOversizedPayloadMinimal p n limit) = Some (JBool True)"
    "field ''originalPayloadBytes'' (summarizeOversizedPayloadMinimal p n limit) = Some (JNum n)" for n
    by (simp_all add: summarizeOversizedPayload_def summarizeOversizedPayloadMinimal_def
        truncation_fields_def field_def)
  moreover note summary_keeps
  ultimately show ?thesis
    using assms by (auto simp: prepareWebhookPayload_def Let_def split: if_splits)
qed

theorem webhook_payload_limit_witness:
  "int (byteLength (body \<lparr>body = ''{}'', payload = JObj []\<rparr>)) \<le> 100"
proof -
  have "prepareWebhookPayload 100 (JObj []) = Inr \<lparr>body = ''{}'', payload = JObj []\<rparr>" by code_simp
  from webhook_payload_limit [OF this] show ?thesis by blast
qed

end
