(* ===== verification/WorkerPool.thy ===== *)
theory WorkerPool
  imports Prelude
begin

text \<open>
  \<open>mapConcurrent\<close> of \<open>src/backend/src/services/defaultChecker.ts\<close>: a number of workers take the next
  index from a shared counter, await \<open>fn\<close> on its item and store the result at that index. The event loop
  runs one worker at a time between two awaits; which one goes on, and in which order the calls
  complete, is open. So a run is a sequence of steps of a relation.
\<close>

record ('a, 'r) pool =
  currentIndex :: nat
  busy :: "nat option list"
  results :: "'r option list"

definition start_pool :: "'a list \<Rightarrow> nat \<Rightarrow> ('a, 'r) pool" where
  "start_pool items limit =
     \<lparr>currentIndex = 0, busy = replicate (min limit (length items)) None,
      results = replicate (length items) None\<rparr>"

inductive pool_step :: "('a \<Rightarrow> 'r) \<Rightarrow> 'a list \<Rightarrow> ('a, 'r) pool \<Rightarrow> ('a, 'r) pool \<Rightarrow> bool"
  for fn :: "'a \<Rightarrow> 'r" and items :: "'a list" where
  take_item: "w < length (busy p) \<Longrightarrow> busy p ! w = None \<Longrightarrow> currentIndex p < length items \<Longrightarrow>
    pool_step fn items p (p\<lparr>currentIndex := currentIndex p + 1, busy := (busy p)[w := Some (currentIndex p)]\<rparr>)"
| finish_item: "w < length (busy p) \<Longrightarrow> busy p ! w = Some i \<Longrightarrow>
    pool_step fn items p (p\<lparr>busy := (busy p)[w := None], results := (results p)[i := Some (fn (items ! i))]\<rparr>)"

inductive pool_run :: "('a \<Rightarrow> 'r) \<Rightarrow> 'a list \<Rightarrow> nat \<Rightarrow> ('a, 'r) pool \<Rightarrow> bool"
  for fn :: "'a \<Rightarrow> 'r" and items :: "'a list" and limit :: nat where
  pool_start: "pool_run fn items limit (start_pool items limit)"
| pool_next: "pool_run fn items limit p \<Longrightarrow> pool_step fn items p p' \<Longrightarrow> pool_run fn items limit p'"

text \<open>\<open>Promise.all\<close> is settled when no worker is at an item and none is left.\<close>

definition settled :: "'a list \<Rightarrow> ('a, 'r) pool \<Rightarrow> bool" where
  "settled items p \<longleftrightarrow> currentIndex p \<ge> length items \<and> list_all (\<lambda>b. b = None) (busy p)"

definition in_flight :: "('a, 'r) pool \<Rightarrow> nat list" where
  "in_flight p = List.map_filter id (busy p)"

definition pool_inv :: "('a \<Rightarrow> 'r) \<Rightarrow> 'a list \<Rightarrow> nat \<Rightarrow> ('a, 'r) pool \<Rightarrow> bool" where
  "pool_inv fn items limit p \<longleftrightarrow>
     length (busy p) = min limit (length items) \<and> length (results p) = length items \<and>
     currentIndex p \<le> length items \<and>
     (\<forall>w i. w < length (busy p) \<and> busy p ! w = Some i \<longrightarrow> i < currentIndex p) \<and>
     (\<forall>w v i. w < length (busy p) \<and> v < length (busy p) \<and> busy p ! w = Some i \<and> busy p ! v = Some i \<longrightarrow> w = v) \<and>
     (\<forall>i < length items. results p ! i =
        (if i < currentIndex p \<and> (\<forall>w < length (busy p). busy p ! w \<noteq> Some i)
         then Some (fn (items ! i)) else None))"

lemma pool_step_inv: "pool_step fn items p p' \<Longrightarrow> pool_inv fn items limit p \<Longrightarrow> pool_inv fn items limit p'"
proof (induction rule: pool_step.induct)
  case (take_item w p)
  have "\<forall>v < length (busy p). busy p ! v \<noteq> Some (currentIndex p)"
    using take_item.prems unfolding pool_inv_def by (metis less_irrefl)
  with take_item show ?case
    unfolding pool_inv_def by (auto simp: nth_list_update less_Suc_eq)
next
  case (finish_item w p i)
  have i: "i < currentIndex p" "i < length items"
    using finish_item unfolding pool_inv_def by (blast, meson less_le_trans)
  have u: "\<forall>v < length (busy p). v \<noteq> w \<longrightarrow> busy p ! v \<noteq> Some i"
    using finish_item unfolding pool_inv_def by blast
  have inv: "length (busy p) = min limit (length items)" "length (results p) = length items"
    "currentIndex p \<le> length items"
    "\<And>v j. v < length (busy p) \<Longrightarrow> busy p ! v = Some j \<Longrightarrow> j < currentIndex p"
    "\<And>v v' j. v < length (busy p) \<Longrightarrow> v' < length (busy p) \<Longrightarrow> busy p ! v = Some j \<Longrightarrow> busy p ! v' = Some j \<Longrightarrow> v = v'"
    "\<And>j. j < length items \<Longrightarrow> results p ! j =
        (if j < currentIndex p \<and> (\<forall>w < length (busy p). busy p ! w \<noteq> Some j)
         then Some (fn (items ! j)) else None)"
    using finish_item.prems unfolding pool_inv_def by blast+
  let ?b = "(busy p)[w := None]"
  have b: "?b ! v = (if v = w then None else busy p ! v)" if "v < length (busy p)" for v
    using that by (simp add: nth_list_update)
  have free: "(\<forall>v < length (busy p). ?b ! v \<noteq> Some j) \<longleftrightarrow>
      j = i \<or> (\<forall>v < length (busy p). busy p ! v \<noteq> Some j)" for j
    using u b finish_item.hyps by (metis option.distinct(1) option.inject)
  have "(results p)[i := Some (fn (items ! i))] ! j =
      (if j < currentIndex p \<and> (\<forall>v < length (busy p). ?b ! v \<noteq> Some j) then Some (fn (items ! j)) else None)"
    if "j < length items" for j
    using inv(2) inv(6) [OF that] i that unfolding free by (cases "j = i") simp_all
  then show ?case
    unfolding pool_inv_def
    using inv(1-3) b inv(4) inv(5) by (auto split: if_splits)
qed

lemma pool_run_inv: "pool_run fn items limit p \<Longrightarrow> pool_inv fn items limit p"
proof (induction rule: pool_run.induct)
  case pool_start
  show ?case by (auto simp: pool_inv_def start_pool_def)
next
  case (pool_next p p')
  then show ?case using pool_step_inv by blast
qed

text \<open>Every step makes progress towards the end.\<close>

definition pool_measure :: "'a list \<Rightarrow> ('a, 'r) pool \<Rightarrow> nat" where
  "pool_measure items p = 2 * (length items - currentIndex p) + length (in_flight p)"

lemma in_flight_update:
  "w < length bs \<Longrightarrow> length (List.map_filter id (bs[w := b])) + (if bs ! w = None then 0 else 1)
     = length (List.map_filter id bs) + (if b = None then 0 else (1::nat))"
proof (induction bs arbitrary: w)
  case (Cons x xs)
  show ?case
  proof (cases w)
    case 0
    then show ?thesis by (auto simp: map_filter_simps split: option.splits)
  next
    case (Suc k)
    then show ?thesis using Cons.IH [of k] Cons.prems by (cases x) (simp_all add: map_filter_simps)
  qed
qed simp

lemma pool_step_measure: "pool_step fn items p p' \<Longrightarrow> pool_measure items p' < pool_measure items p"
proof (induction rule: pool_step.induct)
  case (take_item w p)
  then show ?case using in_flight_update [of w "busy p" "Some (currentIndex p)"]
    by (simp add: pool_measure_def in_flight_def)
next
  case (finish_item w p i)
  then show ?case using in_flight_update [of w "busy p" None]
    by (simp add: pool_measure_def in_flight_def)
qed

lemma in_flight_le: "length (List.map_filter id bs) \<le> length bs"
  by (simp add: map_filter_def)

lemma pool_not_stuck:
  assumes "pool_inv fn items limit p" "0 < limit" "\<not> settled items p"
  shows "\<exists>p'. pool_step fn items p p'"
proof (cases "\<exists>w i. w < length (busy p) \<and> busy p ! w = Some i")
  case True
  then show ?thesis using finish_item by blast
next
  case False
  then have idle: "\<forall>w < length (busy p). busy p ! w = None" by auto
  then have "list_all (\<lambda>b. b = None) (busy p)" by (simp add: list_all_length)
  then have c: "currentIndex p < length items" using assms(3) by (simp add: settled_def)
  then have "0 < length (busy p)" using assms(1,2) by (auto simp: pool_inv_def)
  with idle c show ?thesis using take_item by blast
qed

lemma settled_results:
  assumes "pool_inv fn items limit p" "settled items p"
  shows "results p = map (\<lambda>x. Some (fn x)) items"
proof (rule nth_equalityI)
  show "length (results p) = length (map (\<lambda>x. Some (fn x)) items)" using assms(1) by (simp add: pool_inv_def)
  fix i assume "i < length (results p)"
  with assms show "results p ! i = map (\<lambda>x. Some (fn x)) items ! i"
    by (auto simp: pool_inv_def settled_def list_all_length)
qed

section \<open>Properties\<close>

text \<open>(C17) Whatever the order in which the calls complete, at most \<open>limit\<close> of them are in flight at any time;
  while the run is not settled some worker can go on and every step brings it closer to its end, so it
  settles; and the settled results are those of mapping \<open>fn\<close> over the items, in the order of the items.\<close>

theorem mapConcurrent_correct:
  assumes "pool_run fn items limit p"
  shows "length (in_flight p) \<le> limit \<and>
    (settled items p \<longrightarrow> results p = map (\<lambda>x. Some (fn x)) items) \<and>
    (0 < limit \<and> \<not> settled items p \<longrightarrow> (\<exists>p'. pool_step fn items p p')) \<and>
    (\<forall>p'. pool_step fn items p p' \<longrightarrow> pool_measure items p' < pool_measure items p)"
proof -
  have inv: "pool_inv fn items limit p" using assms by (rule pool_run_inv)
  then have "length (in_flight p) \<le> limit"
    using in_flight_le [of "busy p"] by (simp add: in_flight_def pool_inv_def)
  then show ?thesis using settled_results [OF inv] pool_not_stuck [OF inv] pool_step_measure by blast
qed

text \<open>Two workers, the second item completing first.\<close>

theorem mapConcurrent_correct_witness:
  "\<exists>p. pool_run length [[1], [1, 2 :: nat]] 2 p \<and> settled [[1], [1, 2 :: nat]] p \<and> results p = [Some 1, Some 2]"
proof -
  let ?items = "[[1], [1, 2 :: nat]]"
  let ?mk = "\<lambda>i b r. \<lparr>currentIndex = i, busy = b, results = r\<rparr> :: (nat list, nat) pool"
  have 0: "pool_run length ?items 2 (?mk 0 [None, None] [None, None])"
    using pool_start [of length ?items 2] by (simp add: start_pool_def numeral_2_eq_2)
  have 1: "pool_run length ?items 2 (?mk 1 [Some 0, None] [None, None])"
    using pool_next [OF 0 take_item [of 0]] by simp
  have 2: "pool_run length ?items 2 (?mk 2 [Some 0, Some 1] [None, None])"
    using pool_next [OF 1 take_item [of 1]] by (simp add: numeral_2_eq_2)
  have 3: "pool_run length ?items 2 (?mk 2 [Some 0, None] [None, Some 2])"
    using pool_next [OF 2 finish_item [of 1 _ 1]] by (simp add: numeral_2_eq_2)
  have 4: "pool_run length ?items 2 (?mk 2 [None, None] [Some 1, Some 2])"
    using pool_next [OF 3 finish_item [of 0 _ 0]] by simp
  have "settled ?items (?mk 2 [None, None] [Some 1, Some 2])" by (simp add: settled_def)
  then show ?thesis using 4 mapConcurrent_correct [OF 4] by force
qed

end
