(* ===== verification/JsNumber.thy ===== *)
theory JsNumber
  imports Prelude
begin

text \<open>
  What \<open>Number(...)\<close> and \<open>String(...)\<close> of the JavaScript library give for the values that
  \<open>scValToNative\<close> returns. A number is \<open>Num\<close> of the integer it is; the numbers that are not integers
  are \<open>Frac\<close>, and \<open>Inf\<close> and \<open>NaN\<close> are themselves. An integer beyond 53 bits is rounded to the nearest
  double, ties to even.
\<close>

datatype js_number = Num int | Frac | Inf | NaN

datatype native =
    NBigInt int | NNumber int | NStr string | NBool bool | NNull | NArr "native list" | NObj string

fun bit_length :: "nat \<Rightarrow> nat" where
  "bit_length n = (if n = 0 then 0 else Suc (bit_length (n div 2)))"

declare bit_length.simps [simp del]

definition half_even :: "nat \<Rightarrow> nat \<Rightarrow> nat" where
  "half_even n d =
     (let q = n div d; r = n mod d
      in if 2 * r > d \<or> (2 * r = d \<and> odd q) then q + 1 else q)"

text \<open>The double nearest to \<open>num / den\<close>, as a significand of at most 53 bits and an exponent.\<close>

definition nearest_double :: "nat \<Rightarrow> nat \<Rightarrow> nat \<times> int" where
  "nearest_double num den =
     (let e0 = int (bit_length num) - int (bit_length den) - 53;
          at = (\<lambda>e. if 0 \<le> e then (num, den * 2 ^ nat e) else (num * 2 ^ nat (- e), den));
          e1 = (if fst (at e0) \<ge> 2 ^ 53 * snd (at e0) then e0 + 1 else e0);
          e = max (- 1074) e1
      in (half_even (fst (at e)) (snd (at e)), e))"

definition double_of_ratio :: "bool \<Rightarrow> nat \<Rightarrow> nat \<Rightarrow> js_number" where
  "double_of_ratio neg num den =
     (case nearest_double num den of
        (m, e) \<Rightarrow>
          if e \<ge> 0 then
            (let v = int (m * 2 ^ nat e)
             in if v \<ge> 2 ^ 1024 then Inf else Num (if neg then - v else v))
          else if m mod 2 ^ nat (- e) = 0
          then Num (let v = int (m div 2 ^ nat (- e)) in if neg then - v else v)
          else Frac)"

definition double_of_int :: "int \<Rightarrow> js_number" where
  "double_of_int n = double_of_ratio (n < 0) (nat \<bar>n\<bar>) 1"

text \<open>A decimal literal: digits with a point among or around them, and an exponent.\<close>

definition decimal_literal :: "bool \<Rightarrow> string \<Rightarrow> js_number" where
  "decimal_literal neg s =
     (let ip = takeWhile is_digit s;
          rest = drop (length ip) s;
          fp = (if starts_with ''.'' rest then takeWhile is_digit (tl rest) else []);
          rest2 = (if starts_with ''.'' rest then drop (length fp) (tl rest) else rest);
          digits = digits_val (ip @ fp);
          scaled = (\<lambda>x. let k = x - int (length fp)
                        in if k \<ge> 0 then double_of_ratio neg (digits * 10 ^ nat k) 1
                           else double_of_ratio neg digits (10 ^ nat (- k)))
      in if ip = [] \<and> fp = [] then NaN
         else if rest2 = [] then scaled 0
         else if starts_with ''e'' rest2 \<or> starts_with ''E'' rest2 then
           (let u = tl rest2;
                m = starts_with ''-'' u;
                ds = (if m \<or> starts_with ''+'' u then tl u else u)
            in if ds \<noteq> [] \<and> list_all is_digit ds
               then scaled (if m then - int (digits_val ds) else int (digits_val ds))
               else NaN)
         else NaN)"

definition str_number :: "string \<Rightarrow> js_number" where
  "str_number s =
     (let t = js_trim s in
      if t = [] then Num 0
      else (case radix_prefix t of
              Some r \<Rightarrow>
                (case (if drop 2 t = [] then None else radix_val r 0 (drop 2 t)) of
                   None \<Rightarrow> NaN | Some n \<Rightarrow> double_of_ratio False n 1)
            | None \<Rightarrow>
                (let neg = starts_with ''-'' t;
                     body = (if neg \<or> starts_with ''+'' t then tl t else t)
                 in if body = ''Infinity'' then Inf else decimal_literal neg body)))"

fun js_String :: "native \<Rightarrow> string" and js_join_elems :: "native list \<Rightarrow> string list" where
  "js_String (NBigInt n) = show_int n"
| "js_String (NNumber n) = show_int n"
| "js_String (NStr s) = s"
| "js_String (NBool b) = (if b then ''true'' else ''false'')"
| "js_String NNull = ''null''"
| "js_String (NArr vs) = js_join '','' (js_join_elems vs)"
| "js_String (NObj s) = s"
| "js_join_elems [] = []"
| "js_join_elems (v # vs) = (if v = NNull then [] else js_String v) # js_join_elems vs"

definition js_Number :: "native \<Rightarrow> js_number" where
  "js_Number v =
     (case v of
        NBigInt n \<Rightarrow> double_of_int n
      | NNumber n \<Rightarrow> Num n
      | NBool b \<Rightarrow> Num (if b then 1 else 0)
      | NNull \<Rightarrow> Num 0
      | _ \<Rightarrow> str_number (js_String v))"

definition is_finite :: "js_number \<Rightarrow> bool" where
  "is_finite n = (case n of Num _ \<Rightarrow> True | Frac \<Rightarrow> True | _ \<Rightarrow> False)"

definition js_typeof :: "native \<Rightarrow> string" where
  "js_typeof v =
     (case v of NBigInt _ \<Rightarrow> ''bigint'' | NNumber _ \<Rightarrow> ''number'' | NStr _ \<Rightarrow> ''string''
      | NBool _ \<Rightarrow> ''boolean'' | _ \<Rightarrow> ''object'')"

text \<open>\<open>v.toString()\<close>, which null does not have.\<close>

definition js_toString :: "native \<Rightarrow> string option" where
  "js_toString v = (if v = NNull then None else Some (js_String v))"

section \<open>Integers below 53 bits are exact\<close>

lemma bit_length_le: "n < 2 ^ k \<Longrightarrow> bit_length n \<le> k"
proof (induction k arbitrary: n)
  case 0
  then show ?case by (simp add: bit_length.simps)
next
  case (Suc k)
  have "bit_length (n div 2) \<le> k" by (rule Suc.IH) (use Suc.prems in auto)
  then show ?case by (subst bit_length.simps) simp
qed

lemma bit_length_1 [simp]: "bit_length (Suc 0) = 1"
  by (simp add: bit_length.simps)

lemma half_even_exact [simp]: "half_even n (Suc 0) = n"
  by (simp add: half_even_def)

lemma nearest_double_small:
  assumes "n < 2 ^ 53"
  shows "\<exists>k. nearest_double n (Suc 0) = (n * 2 ^ k, - int k)"
proof -
  let ?e = "int (bit_length n) - 1 - 53"
  have b: "bit_length n \<le> 53" using assms by (rule bit_length_le)
  define at where "at = (\<lambda>e. if 0 \<le> e then (n, Suc 0 * 2 ^ nat e) else (n * 2 ^ nat (- e), Suc 0))"
  define e where "e = (if fst (at ?e) \<ge> 2 ^ 53 * snd (at ?e) then ?e + 1 else ?e)"
  have e: "e \<le> 0" "- 1074 \<le> e" using b by (auto simp: e_def)
  have "nearest_double n (Suc 0) = (half_even (fst (at e)) (snd (at e)), e)"
    unfolding nearest_double_def Let_def bit_length_1 of_nat_1 at_def [symmetric] e_def [symmetric]
    using e by (simp add: max_def)
  moreover have "at e = (n * 2 ^ nat (- e), Suc 0)" using e by (cases "e = 0") (auto simp: at_def)
  ultimately have "nearest_double n (Suc 0) = (n * 2 ^ nat (- e), - int (nat (- e)))"
    using e by simp
  then show ?thesis by blast
qed

lemma double_of_small:
  assumes "n < 2 ^ 53"
  shows "double_of_ratio neg n (Suc 0) = Num (if neg then - int n else int n)"
proof -
  obtain k where k: "nearest_double n (Suc 0) = (n * 2 ^ k, - int k)"
    using nearest_double_small [OF assms] by blast
  have "int n < 2 ^ 53" using assms by (metis of_nat_less_iff of_nat_numeral of_nat_power)
  also have "(2::int) ^ 53 \<le> 2 ^ 1024" by (rule power_increasing) auto
  finally have "\<not> (2::int) ^ 1024 \<le> int n" by simp
  then show ?thesis by (cases "k = 0") (simp_all add: double_of_ratio_def k Let_def)
qed

lemma double_of_int_small: "\<bar>n\<bar> < 2 ^ 53 \<Longrightarrow> double_of_int n = Num n"
proof -
  assume "\<bar>n\<bar> < 2 ^ 53"
  then have "nat \<bar>n\<bar> < 2 ^ 53" by (simp add: nat_less_iff)
  then show ?thesis by (simp add: double_of_int_def double_of_small)
qed

end
