(* ===== verification/EventParser.thy ===== *)
theory EventParser
  imports JsNumber AppErrors
begin

text \<open>
  The decoding of contract events in \<open>src/backend/src/services/eventIndexer.ts\<close>: \<open>decodeEventType\<close>,
  the decoders of fields and \<open>parseEvent\<close>, whose chain of branches is split by the kinds of events.
  The values of the Stellar SDK (\<open>xdr.ScVal\<close>) are a type \<open>'v\<close>; the record \<open>codec\<close> holds the functions
  of the SDK that the code applies to them, each of which may throw. An event that is ignored is
  \<open>Inr None\<close>, a parse error is \<open>Inl\<close>.
\<close>

section \<open>Events\<close>

record 'v codec =
  sym :: "'v \<Rightarrow> string option"
  scValToNative :: "'v \<Rightarrow> http_error + native"
  toXDR :: "'v \<Rightarrow> http_error + string"

record 'v raw_event =
  rawId :: string
  pagingToken :: string
  topic :: "'v list"
  rawValue :: 'v
  rawLedger :: int
  rawClosedAt :: ms
  rawTxHash :: string
  rawContract :: string

record decoded =
  evLoanId :: "js_number option"
  evAddress :: "string option"
  evAmount :: "string option"
  evInterestRateBps :: "js_number option"
  evTermLedgers :: "js_number option"
  evBorrowerRefund :: "string option"

record contract_event = decoded +
  evId :: string
  evType :: string
  evLedger :: int
  evClosedAt :: ms
  evTxHash :: string
  evContract :: string
  evTopics :: "string list"
  evValue :: string
  evAdminAddress :: "string option"

definition undecoded :: decoded where
  "undecoded = \<lparr>evLoanId = None, evAddress = None, evAmount = None, evInterestRateBps = None,
     evTermLedgers = None, evBorrowerRefund = None\<rparr>"

definition SUPPORTED_WEBHOOK_EVENT_TYPES :: "string list" where
  "SUPPORTED_WEBHOOK_EVENT_TYPES =
     [''LoanRequested'', ''LoanApproved'', ''LoanRepaid'', ''LoanDefaulted'', ''CollateralLiquidated'',
      ''CollateralReturned'', ''CollateralDeposited'', ''CollateralReleased'', ''ColDep'', ''ColRel'',
      ''LateFeeCharged'', ''LoanExtended'', ''LoanCancelled'', ''LoanRejected'', ''LoanRefinanced'',
      ''InterestRateUpdated'', ''DefaultTermUpdated'', ''TermLimitsUpdated'', ''LateFeeRateUpdated'',
      ''GracePeriodUpdated'', ''DefaultWindowUpdated'', ''MaxLoanAmountUpdated'', ''MinRepaymentUpdated'',
      ''MaxLoansPerBorrower'', ''MinRateBpsUpdated'', ''MaxRateBpsUpdated'', ''RateOracleUpdated'',
      ''Deposit'', ''Withdraw'', ''YieldDistributed'', ''EmergencyWithdraw'', ''DepositCapUpdated'',
      ''WithdrawalCooldownUpdated'', ''NFTMinted'', ''ScoreUpdated'', ''NFTSeized'', ''NFTBurned'',
      ''ProposalCreated'', ''ProposalApproved'', ''ProposalFinalized'', ''ProposalCancelled'',
      ''LoanApprv'', ''LoanLiquidated'', ''Mint'', ''ScoreUpd'', ''ScoreDecr'', ''Seized'', ''NftBurned'',
      ''AdmRemint'', ''HashUpd'', ''GovProp'', ''GovAppr'', ''GovFin'', ''Transfer'', ''MntAuth'',
      ''MntRev'', ''Paused'', ''Unpaused'', ''MinScoreUpdated'', ''PoolPaused'', ''PoolUnpaused'',
      ''GovCncl'', ''GovEmerg'', ''GovExp'']"

definition EVENT_TYPE_ALIASES :: "(string \<times> string) list" where
  "EVENT_TYPE_ALIASES =
     [(''Mint'', ''NFTMinted''), (''AdmRemint'', ''NFTMinted''), (''ScoreUpd'', ''ScoreUpdated''),
      (''Seized'', ''NFTSeized''), (''NftBurned'', ''NFTBurned''), (''MinScore'', ''MinScoreUpdated''),
      (''GovProp'', ''ProposalCreated''), (''GovAppr'', ''ProposalApproved''),
      (''GovFin'', ''ProposalFinalized''), (''GovCncl'', ''ProposalCancelled''),
      (''GovEmerg'', ''ProposalCancelled''), (''GovExp'', ''ProposalCancelled''),
      (''ColDep'', ''CollateralDeposited''), (''ColRel'', ''CollateralReleased'')]"

definition ADMIN_CONFIG_EVENT_TYPES :: "string list" where
  "ADMIN_CONFIG_EVENT_TYPES =
     [''MinScoreUpdated'', ''InterestRateUpdated'', ''DefaultTermUpdated'', ''TermLimitsUpdated'',
      ''LateFeeRateUpdated'', ''GracePeriodUpdated'', ''DefaultWindowUpdated'', ''MaxLoanAmountUpdated'',
      ''MinRepaymentUpdated'', ''MaxLoansPerBorrower'', ''MinRateBpsUpdated'', ''MaxRateBpsUpdated'',
      ''RateOracleUpdated'']"

section \<open>Decoders\<close>

definition decodeEventType :: "'v codec \<Rightarrow> 'v option \<Rightarrow> string option" where
  "decodeEventType C v =
     (case v of
        None \<Rightarrow> None
      | Some v \<Rightarrow>
          (case sym C v of
             None \<Rightarrow> None
           | Some rawType \<Rightarrow>
               (let normalizedType = (case map_of EVENT_TYPE_ALIASES rawType of
                                        Some t \<Rightarrow> t | None \<Rightarrow> rawType)
                in if normalizedType \<in> set SUPPORTED_WEBHOOK_EVENT_TYPES
                   then Some normalizedType else None)))"

definition decodeAddress :: "'v codec \<Rightarrow> 'v \<Rightarrow> http_error + string" where
  "decodeAddress C v =
     and_then (scValToNative C v) (\<lambda>native.
       case native of
         NStr s \<Rightarrow> Inr s
       | _ \<Rightarrow> Inl (Thrown (''Expected address string, got '' @ js_typeof native @ '': '' @ js_String native)))"

definition decodeAmount :: "'v codec \<Rightarrow> 'v \<Rightarrow> http_error + string" where
  "decodeAmount C v =
     and_then (scValToNative C v) (\<lambda>native.
       case native of
         NBigInt n \<Rightarrow> Inr (show_int n)
       | NNumber n \<Rightarrow> Inr (show_int n)
       | _ \<Rightarrow> Inl (Thrown (''Expected integer stroop amount, got '' @ js_typeof native @ '': '' @
                   js_String native)))"

definition decodeLoanId :: "'v codec \<Rightarrow> 'v \<Rightarrow> js_number option" where
  "decodeLoanId C v = (case scValToNative C v of Inl e \<Rightarrow> None | Inr native \<Rightarrow> Some (js_Number native))"

definition numeric_element :: "nat \<Rightarrow> native \<Rightarrow> string option" where
  "numeric_element i native =
     (case native of
        NArr xs \<Rightarrow>
          (if length xs < i + 1 then None
           else (case xs ! i of NBigInt n \<Rightarrow> Some (show_int n) | NNumber n \<Rightarrow> Some (show_int n) | _ \<Rightarrow> None))
      | _ \<Rightarrow> None)"

definition decodeTupleFirstNumericValue :: "'v codec \<Rightarrow> 'v \<Rightarrow> http_error + string option" where
  "decodeTupleFirstNumericValue C v = and_then (scValToNative C v) (\<lambda>n. Inr (numeric_element 0 n))"

definition decodeTupleSecondNumericValue :: "'v codec \<Rightarrow> 'v \<Rightarrow> http_error + string option" where
  "decodeTupleSecondNumericValue C v = and_then (scValToNative C v) (\<lambda>n. Inr (numeric_element 1 n))"

definition decodeTupleThirdNumericValue :: "'v codec \<Rightarrow> 'v \<Rightarrow> http_error + string option" where
  "decodeTupleThirdNumericValue C v = and_then (scValToNative C v) (\<lambda>n. Inr (numeric_element 2 n))"

definition decodeTupleSecondAddress :: "'v codec \<Rightarrow> 'v \<Rightarrow> http_error + string option" where
  "decodeTupleSecondAddress C v =
     and_then (scValToNative C v) (\<lambda>native.
       Inr (case native of
              NArr xs \<Rightarrow> (if length xs < 2 then None
                          else (case xs ! 1 of NStr s \<Rightarrow> Some s | _ \<Rightarrow> None))
            | _ \<Rightarrow> None))"

text \<open>\<open>if (Array.isArray(data) && data.length >= 2) amount = data[1].toString()\<close>\<close>

definition second_toString :: "'v codec \<Rightarrow> 'v \<Rightarrow> http_error + string option" where
  "second_toString C v =
     and_then (scValToNative C v) (\<lambda>data.
       case data of
         NArr xs \<Rightarrow>
           (if length xs < 2 then Inr None
            else (case js_toString (xs ! 1) of
                    None \<Rightarrow> Inl (Thrown ''Cannot read properties of null'')
                  | Some s \<Rightarrow> Inr (Some s)))
       | _ \<Rightarrow> Inr None)"

definition topic_at :: "nat \<Rightarrow> 'v raw_event \<Rightarrow> 'v option" where
  "topic_at i ev = (if i < length (topic ev) then Some (topic ev ! i) else None)"

text \<open>The early returns \<open>if (!event.topic[i]) return null\<close>.\<close>

definition with_topic ::
  "nat \<Rightarrow> 'v raw_event \<Rightarrow> ('v \<Rightarrow> http_error + 'a option) \<Rightarrow> http_error + 'a option" where
  "with_topic i ev f = (case topic_at i ev of None \<Rightarrow> Inr None | Some v \<Rightarrow> f v)"

text \<open>\<open>if (event.topic[i]) address = this.decodeAddress(event.topic[i])\<close>\<close>

definition optional_address :: "'v codec \<Rightarrow> nat \<Rightarrow> 'v raw_event \<Rightarrow> http_error + string option" where
  "optional_address C i ev =
     (case topic_at i ev of None \<Rightarrow> Inr None | Some v \<Rightarrow> and_then (decodeAddress C v) (\<lambda>a. Inr (Some a)))"

section \<open>Branches of parseEvent\<close>

definition parse_LoanRequested :: "'v codec \<Rightarrow> 'v raw_event \<Rightarrow> http_error + decoded option" where
  "parse_LoanRequested C ev =
     with_topic 1 ev (\<lambda>t1. with_topic 2 ev (\<lambda>t2.
       case decodeLoanId C t1 of
         None \<Rightarrow> Inr None
       | Some l \<Rightarrow>
           and_then (decodeAddress C t2) (\<lambda>a.
           and_then (decodeAmount C (rawValue ev)) (\<lambda>m.
             Inr (Some (undecoded\<lparr>evLoanId := Some l, evAddress := Some a, evAmount := Some m\<rparr>))))))"

definition parse_LoanApproved :: "'v codec \<Rightarrow> 'v raw_event \<Rightarrow> http_error + decoded option" where
  "parse_LoanApproved C ev =
     with_topic 1 ev (\<lambda>t1. with_topic 2 ev (\<lambda>t2.
       case decodeLoanId C t1 of
         None \<Rightarrow> Inr None
       | Some l \<Rightarrow>
           and_then (decodeAddress C t2) (\<lambda>a.
           and_then (scValToNative C (rawValue ev)) (\<lambda>data.
             case data of
               NArr (d0 # d1 # ds) \<Rightarrow>
                 (if \<not> is_finite (js_Number d0) then
                    Inl (Thrown (''LoanApproved event has invalid interest_rate_bps: '' @ rawId ev))
                  else if \<not> is_finite (js_Number d1) then
                    Inl (Thrown (''LoanApproved event has invalid term_ledgers: '' @ rawId ev))
                  else Inr (Some (undecoded\<lparr>evLoanId := Some l, evAddress := Some a,
                         evInterestRateBps := Some (js_Number d0), evTermLedgers := Some (js_Number d1)\<rparr>)))
             | _ \<Rightarrow> Inl (Thrown (''LoanApproved event missing interest_rate_bps or term_ledgers: '' @
                          rawId ev))))))"

definition parse_LoanRepaid :: "'v codec \<Rightarrow> 'v raw_event \<Rightarrow> http_error + decoded option" where
  "parse_LoanRepaid C ev =
     with_topic 1 ev (\<lambda>t1. with_topic 2 ev (\<lambda>t2.
       and_then (decodeAddress C t1) (\<lambda>a.
       and_then (decodeAmount C (rawValue ev)) (\<lambda>m.
         Inr (Some (undecoded\<lparr>evAddress := Some a, evLoanId := decodeLoanId C t2, evAmount := Some m\<rparr>))))))"

definition parse_LoanDefaulted :: "'v codec \<Rightarrow> 'v raw_event \<Rightarrow> http_error + decoded option" where
  "parse_LoanDefaulted C ev =
     with_topic 1 ev (\<lambda>t1.
       case decodeLoanId C t1 of
         None \<Rightarrow> Inr None
       | Some l \<Rightarrow>
           and_then (decodeAddress C (rawValue ev)) (\<lambda>a.
             Inr (Some (undecoded\<lparr>evLoanId := Some l, evAddress := Some a\<rparr>))))"

definition parse_CollateralLiquidated :: "'v codec \<Rightarrow> 'v raw_event \<Rightarrow> http_error + decoded option" where
  "parse_CollateralLiquidated C ev =
     with_topic 1 ev (\<lambda>t1.
       case decodeLoanId C t1 of
         None \<Rightarrow> Inr None
       | Some l \<Rightarrow>
           and_then (decodeAmount C (rawValue ev)) (\<lambda>m.
             Inr (Some (undecoded\<lparr>evLoanId := Some l, evAmount := Some m\<rparr>))))"

text \<open>Pool deposits and withdrawals, with \<open>(amount, shares)\<close> in the value.\<close>

definition parse_pool :: "'v codec \<Rightarrow> 'v raw_event \<Rightarrow> http_error + decoded option" where
  "parse_pool C ev =
     with_topic 1 ev (\<lambda>t1.
       and_then (decodeAddress C t1) (\<lambda>a.
       and_then (decodeTupleFirstNumericValue C (rawValue ev)) (\<lambda>m.
         Inr (Some (undecoded\<lparr>evAddress := Some a, evAmount := m\<rparr>)))))"

definition parse_nft :: "'v codec \<Rightarrow> string \<Rightarrow> 'v raw_event \<Rightarrow> http_error + decoded option" where
  "parse_nft C type ev =
     with_topic 1 ev (\<lambda>t1.
       and_then (decodeAddress C t1) (\<lambda>a.
         if type = ''NFTMinted'' \<or> type = ''ScoreUpdated'' then
           and_then (decodeAmount C (rawValue ev)) (\<lambda>m.
             Inr (Some (undecoded\<lparr>evAddress := Some a, evAmount := Some m\<rparr>)))
         else Inr (Some (undecoded\<lparr>evAddress := Some a\<rparr>))))"

definition parse_proposal :: "'v codec \<Rightarrow> 'v raw_event \<Rightarrow> http_error + decoded option" where
  "parse_proposal C ev =
     with_topic 1 ev (\<lambda>t1.
       and_then (decodeAddress C t1) (\<lambda>a. Inr (Some (undecoded\<lparr>evAddress := Some a\<rparr>))))"

definition parse_Transfer :: "'v codec \<Rightarrow> 'v raw_event \<Rightarrow> http_error + decoded option" where
  "parse_Transfer C ev =
     and_then (optional_address C 2 ev) (\<lambda>a. Inr (Some (undecoded\<lparr>evAddress := a\<rparr>)))"

definition parse_LoanRefinanced :: "'v codec \<Rightarrow> 'v raw_event \<Rightarrow> http_error + decoded option" where
  "parse_LoanRefinanced C ev =
     with_topic 1 ev (\<lambda>t1. with_topic 2 ev (\<lambda>t2.
       and_then (decodeAddress C t2) (\<lambda>a.
       and_then (decodeTupleFirstNumericValue C (rawValue ev)) (\<lambda>m.
         Inr (Some (undecoded\<lparr>evLoanId := decodeLoanId C t1, evAddress := Some a, evAmount := m\<rparr>))))))"

definition parse_LoanExtended :: "'v codec \<Rightarrow> 'v raw_event \<Rightarrow> http_error + decoded option" where
  "parse_LoanExtended C ev =
     with_topic 1 ev (\<lambda>t1. with_topic 2 ev (\<lambda>t2.
       and_then (decodeAddress C t2) (\<lambda>a.
       and_then (second_toString C (rawValue ev)) (\<lambda>m.
         Inr (Some (undecoded\<lparr>evLoanId := decodeLoanId C t1, evAddress := Some a, evAmount := m\<rparr>))))))"

definition parse_LoanCancelled :: "'v codec \<Rightarrow> 'v raw_event \<Rightarrow> http_error + decoded option" where
  "parse_LoanCancelled C ev =
     with_topic 1 ev (\<lambda>t1.
       and_then (decodeAddress C t1) (\<lambda>a.
         Inr (Some (undecoded\<lparr>evAddress := Some a, evLoanId := decodeLoanId C (rawValue ev)\<rparr>))))"

definition parse_LoanRejected :: "'v codec \<Rightarrow> 'v raw_event \<Rightarrow> http_error + decoded option" where
  "parse_LoanRejected C ev =
     with_topic 1 ev (\<lambda>t1. Inr (Some (undecoded\<lparr>evLoanId := decodeLoanId C t1\<rparr>)))"

definition parse_LateFeeCharged :: "'v codec \<Rightarrow> 'v raw_event \<Rightarrow> http_error + decoded option" where
  "parse_LateFeeCharged C ev =
     with_topic 1 ev (\<lambda>t1.
       and_then (decodeAmount C (rawValue ev)) (\<lambda>m.
         Inr (Some (undecoded\<lparr>evLoanId := decodeLoanId C t1, evAmount := Some m\<rparr>))))"

definition parse_CollateralReturned :: "'v codec \<Rightarrow> 'v raw_event \<Rightarrow> http_error + decoded option" where
  "parse_CollateralReturned C ev =
     with_topic 1 ev (\<lambda>t1. with_topic 2 ev (\<lambda>t2.
       and_then (decodeAddress C t1) (\<lambda>a.
       and_then (decodeAmount C (rawValue ev)) (\<lambda>m.
         Inr (Some (undecoded\<lparr>evAddress := Some a, evLoanId := decodeLoanId C t2, evAmount := Some m\<rparr>))))))"

definition parse_token_event :: "'v codec \<Rightarrow> string \<Rightarrow> 'v raw_event \<Rightarrow> http_error + decoded option" where
  "parse_token_event C type ev =
     with_topic 1 ev (\<lambda>t1.
       and_then (decodeAddress C t1) (\<lambda>a.
       and_then (if type = ''YieldDistributed'' then and_then (decodeAmount C (rawValue ev)) (\<lambda>m. Inr (Some m))
                 else second_toString C (rawValue ev)) (\<lambda>m.
         Inr (Some (undecoded\<lparr>evAddress := Some a, evAmount := m\<rparr>)))))"

definition parse_WithdrawalCooldownUpdated :: "'v codec \<Rightarrow> 'v raw_event \<Rightarrow> http_error + decoded option" where
  "parse_WithdrawalCooldownUpdated C ev =
     and_then (second_toString C (rawValue ev)) (\<lambda>m. Inr (Some (undecoded\<lparr>evAmount := m\<rparr>)))"

text \<open>Configuration changes with an administrator in the topics, and those without.\<close>

definition parse_admin_config :: "'v codec \<Rightarrow> 'v raw_event \<Rightarrow> http_error + decoded option" where
  "parse_admin_config C ev =
     and_then (optional_address C 1 ev) (\<lambda>a.
     and_then (decodeTupleSecondNumericValue C (rawValue ev)) (\<lambda>m.
       Inr (Some (undecoded\<lparr>evAddress := a, evAmount := m\<rparr>))))"

definition parse_config :: "'v codec \<Rightarrow> 'v raw_event \<Rightarrow> http_error + decoded option" where
  "parse_config C ev =
     and_then (decodeTupleSecondNumericValue C (rawValue ev)) (\<lambda>m.
       Inr (Some (undecoded\<lparr>evAmount := m\<rparr>)))"

definition parse_RateOracleUpdated :: "'v codec \<Rightarrow> 'v raw_event \<Rightarrow> http_error + decoded option" where
  "parse_RateOracleUpdated C ev =
     and_then (decodeTupleSecondAddress C (rawValue ev)) (\<lambda>a. Inr (Some (undecoded\<lparr>evAddress := a\<rparr>)))"

definition parse_collateral :: "'v codec \<Rightarrow> string \<Rightarrow> 'v raw_event \<Rightarrow> http_error + decoded option" where
  "parse_collateral C type ev =
     and_then (optional_address C 1 ev) (\<lambda>a.
     and_then (if type = ''CollateralDeposited''
               then and_then (decodeAmount C (rawValue ev)) (\<lambda>m. Inr (Some m)) else Inr None) (\<lambda>m.
       Inr (Some (undecoded\<lparr>evAddress := a, evAmount := m,
         evLoanId := (case topic_at 2 ev of None \<Rightarrow> None | Some v \<Rightarrow> decodeLoanId C v)\<rparr>))))"

definition parse_ScoreDecr :: "'v codec \<Rightarrow> 'v raw_event \<Rightarrow> http_error + decoded option" where
  "parse_ScoreDecr C ev =
     with_topic 1 ev (\<lambda>t1.
       and_then (decodeAddress C t1) (\<lambda>a.
       and_then (second_toString C (rawValue ev)) (\<lambda>m.
         Inr (Some (undecoded\<lparr>evAddress := Some a, evAmount := m\<rparr>)))))"

definition parse_LoanApprv :: "'v codec \<Rightarrow> 'v raw_event \<Rightarrow> http_error + decoded option" where
  "parse_LoanApprv C ev =
     and_then (scValToNative C (rawValue ev)) (\<lambda>data.
       case data of
         NArr (d0 # d1 # ds) \<Rightarrow>
           (case js_toString d1 of
              None \<Rightarrow> Inl (Thrown ''Cannot read properties of null'')
            | Some a \<Rightarrow> Inr (Some (undecoded\<lparr>evLoanId := Some (js_Number d0), evAddress := Some a\<rparr>)))
       | _ \<Rightarrow> Inr (Some undecoded))"

definition parse_LoanLiquidated :: "'v codec \<Rightarrow> 'v raw_event \<Rightarrow> http_error + decoded option" where
  "parse_LoanLiquidated C ev =
     with_topic 1 ev (\<lambda>t1. with_topic 2 ev (\<lambda>t2.
       and_then (decodeAddress C t2) (\<lambda>a.
       and_then (decodeTupleFirstNumericValue C (rawValue ev)) (\<lambda>m.
       and_then (decodeTupleThirdNumericValue C (rawValue ev)) (\<lambda>r.
         Inr (Some (undecoded\<lparr>evLoanId := decodeLoanId C t1, evAddress := Some a, evAmount := m,
           evBorrowerRefund := r\<rparr>)))))))"

definition parse_fields :: "'v codec \<Rightarrow> string \<Rightarrow> 'v raw_event \<Rightarrow> http_error + decoded option" where
  "parse_fields C type ev =
     (if type = ''LoanRequested'' then parse_LoanRequested C ev
      else if type = ''LoanApproved'' then parse_LoanApproved C ev
      else if type = ''LoanRepaid'' then parse_LoanRepaid C ev
      else if type = ''LoanDefaulted'' then parse_LoanDefaulted C ev
      else if type = ''CollateralLiquidated'' then parse_CollateralLiquidated C ev
      else if type \<in> {''Deposit'', ''Withdraw'', ''EmergencyWithdraw''} then parse_pool C ev
      else if type \<in> {''NFTMinted'', ''ScoreUpdated'', ''NFTSeized'', ''NFTBurned''} then parse_nft C type ev
      else if type \<in> {''ProposalCreated'', ''ProposalApproved'', ''ProposalFinalized'', ''ProposalCancelled''}
      then parse_proposal C ev
      else if type = ''Transfer'' then parse_Transfer C ev
      else if type = ''LoanRefinanced'' then parse_LoanRefinanced C ev
      else if type = ''LoanExtended'' then parse_LoanExtended C ev
      else if type = ''LoanCancelled'' then parse_LoanCancelled C ev
      else if type = ''LoanRejected'' then parse_LoanRejected C ev
      else if type = ''LateFeeCharged'' then parse_LateFeeCharged C ev
      else if type = ''CollateralReturned'' then parse_CollateralReturned C ev
      else if type \<in> {''YieldDistributed'', ''DepositCapUpdated''} then parse_token_event C type ev
      else if type = ''WithdrawalCooldownUpdated'' then parse_WithdrawalCooldownUpdated C ev
      else if type = ''MinScoreUpdated'' then parse_admin_config C ev
      else if type \<in> {''InterestRateUpdated'', ''DefaultTermUpdated'', ''TermLimitsUpdated''}
      then parse_config C ev
      else if type \<in> {''LateFeeRateUpdated'', ''GracePeriodUpdated'', ''DefaultWindowUpdated'',
                       ''MaxLoanAmountUpdated'', ''MinRepaymentUpdated'', ''MaxLoansPerBorrower'',
                       ''MinRateBpsUpdated'', ''MaxRateBpsUpdated''} then parse_admin_config C ev
      else if type = ''RateOracleUpdated'' then parse_RateOracleUpdated C ev
      else if type \<in> {''PoolPaused'', ''PoolUnpaused''} then Inr (Some undecoded)
      else if type \<in> {''CollateralDeposited'', ''CollateralReleased''} then parse_collateral C type ev
      else if type = ''ScoreDecr'' then parse_ScoreDecr C ev
      else if type = ''LoanApprv'' then parse_LoanApprv C ev
      else if type = ''LoanLiquidated'' then parse_LoanLiquidated C ev
      else Inr (Some undecoded))"

text \<open>The address of the administrator of a \<open>LoanApprv\<close> event; a failure to decode it is swallowed.\<close>

definition admin_address :: "'v codec \<Rightarrow> string \<Rightarrow> 'v raw_event \<Rightarrow> string option" where
  "admin_address C type ev =
     (if type = ''LoanApprv'' then
        (case topic_at 1 ev of
           None \<Rightarrow> None
         | Some v \<Rightarrow> (case decodeAddress C v of Inl e \<Rightarrow> None | Inr a \<Rightarrow> Some a))
      else None)"

fun xdr_list :: "'v codec \<Rightarrow> 'v list \<Rightarrow> http_error + string list" where
  "xdr_list C [] = Inr []"
| "xdr_list C (v # vs) = and_then (toXDR C v) (\<lambda>s. and_then (xdr_list C vs) (\<lambda>ss. Inr (s # ss)))"

definition parseEvent :: "'v codec \<Rightarrow> 'v raw_event \<Rightarrow> http_error + contract_event option" where
  "parseEvent C ev =
     (case decodeEventType C (topic_at 0 ev) of
        None \<Rightarrow> Inr None
      | Some type \<Rightarrow>
          and_then (parse_fields C type ev) (\<lambda>r.
            case r of
              None \<Rightarrow> Inr None
            | Some d \<Rightarrow>
                and_then (xdr_list C (topic ev)) (\<lambda>ts.
                and_then (toXDR C (rawValue ev)) (\<lambda>v.
                  Inr (Some
                    \<lparr>evLoanId = evLoanId d, evAddress = evAddress d, evAmount = evAmount d,
                     evInterestRateBps = evInterestRateBps d, evTermLedgers = evTermLedgers d,
                     evBorrowerRefund = evBorrowerRefund d,
                     evId = rawId ev, evType = type, evLedger = rawLedger ev, evClosedAt = rawClosedAt ev,
                     evTxHash = rawTxHash ev, evContract = rawContract ev, evTopics = ts, evValue = v,
                     evAdminAddress = admin_address C type ev\<rparr>)))))"

definition isEventParseable :: "'v codec \<Rightarrow> 'v raw_event \<Rightarrow> bool" where
  "isEventParseable C ev = (case parseEvent C ev of Inr (Some e) \<Rightarrow> True | _ \<Rightarrow> False)"

end
