(* ===== verification/PauseGuard.thy ===== *)
theory PauseGuard
  imports Json AppErrors
begin

text \<open>
  \<open>src/backend/src/middleware/pauseGuard.ts\<close>: the emergency pause, kept in one row of the table
  \<open>pause_state\<close> and in a variable of the process. The column \<open>contracts\<close> has type \<open>TEXT[]\<close> (the
  statement of \<open>initializePauseState\<close> and the migration agree), and the upsert passes its value as the text
  that \<open>JSON.stringify\<close> gives. How PostgreSQL reads the text of an array is a parameter \<open>array_in\<close>;
  \<open>array_literal_law\<close> states what its documentation says of it.
\<close>

section \<open>Definitions\<close>

record pause_state =
  isPaused :: bool
  pausedAt :: "ms option"
  reason :: "string option"
  contracts :: "string list"

text \<open>The row of the table, whose array may be null, and the variable of the process.\<close>

record pause_row =
  is_paused :: bool
  paused_at :: "ms option"
  row_reason :: "string option"
  row_contracts :: "string list option"

record pause_sys =
  globalPauseState :: pause_state
  pause_table :: "pause_row option"

definition unpaused :: pause_state where
  "unpaused = \<lparr>isPaused = False, pausedAt = None, reason = None, contracts = []\<rparr>"

definition updatePauseStateFromDatabase :: "bool \<Rightarrow> pause_sys \<Rightarrow> pause_sys" where
  "updatePauseStateFromDatabase db_up s =
     (if \<not> db_up then s
      else (case pause_table s of
              None \<Rightarrow> s
            | Some row \<Rightarrow>
                s\<lparr>globalPauseState :=
                    \<lparr>isPaused = is_paused row, pausedAt = paused_at row, reason = row_reason row,
                     contracts = (case row_contracts row of None \<Rightarrow> [] | Some cs \<Rightarrow> cs)\<rparr>\<rparr>))"

definition pauseGuard :: "string \<Rightarrow> pause_sys \<Rightarrow> http_error + unit" where
  "pauseGuard method s =
     (if method = ''GET'' \<or> method = ''HEAD'' \<or> method = ''OPTIONS'' then Inr ()
      else
        (let p = globalPauseState s in
         if isPaused p then
           Inl (serviceUnavailable
             (''Contract operations are temporarily paused. Reason: '' @
              (case env_set (reason p) of None \<Rightarrow> ''Maintenance or security measure'' | Some r \<Rightarrow> r) @
              ''. '' @ ''Affected contracts: '' @ js_join '', '' (contracts p)) None)
         else Inr ()))"

definition getPauseState :: "bool \<Rightarrow> pause_sys \<Rightarrow> pause_state \<times> pause_sys" where
  "getPauseState db_up s =
     (let s' = updatePauseStateFromDatabase db_up s in (globalPauseState s', s'))"

definition setPauseState ::
  "(string \<Rightarrow> string list option) \<Rightarrow> bool \<Rightarrow> ms \<Rightarrow> bool \<Rightarrow> string list \<Rightarrow> string option \<Rightarrow> pause_sys
     \<Rightarrow> (http_error + unit) \<times> pause_sys" where
  "setPauseState array_in db_up now paused cs why s =
     (let at = (if paused then Some now else None) in
      if \<not> db_up then (Inl (Thrown ''database error''), s)
      else
        (case array_in (stringify (JArr (map JStr cs))) of
           None \<Rightarrow> (Inl (Thrown ''malformed array literal''), s)
         | Some stored \<Rightarrow>
             (Inr (),
              s\<lparr>pause_table := Some \<lparr>is_paused = paused, paused_at = at, row_reason = env_set why,
                                     row_contracts = Some stored\<rparr>,
                globalPauseState := \<lparr>isPaused = paused, pausedAt = at, reason = env_set why,
                                      contracts = cs\<rparr>\<rparr>)))"

definition initializePauseState :: "bool \<Rightarrow> pause_sys \<Rightarrow> (http_error + unit) \<times> pause_sys" where
  "initializePauseState db_up s =
     (if \<not> db_up then (Inl (Thrown ''database error''), s)
      else
        (let s1 = (case pause_table s of
                     Some _ \<Rightarrow> s
                   | None \<Rightarrow> s\<lparr>pause_table := Some \<lparr>is_paused = False, paused_at = None,
                                  row_reason = None, row_contracts = Some []\<rparr>\<rparr>)
         in (Inr (), updatePauseStateFromDatabase db_up s1)))"

definition getCurrentPauseState :: "pause_sys \<Rightarrow> pause_state" where
  "getCurrentPauseState s = globalPauseState s"

section \<open>Runs\<close>

datatype pause_op =
    OpSet bool "string list" "string option"
  | OpRefresh
  | OpInit

fun pause_step :: "(string \<Rightarrow> string list option) \<Rightarrow> bool \<times> ms \<times> pause_op \<Rightarrow> pause_sys \<Rightarrow> pause_sys" where
  "pause_step ain (up, now, OpSet p cs why) s = snd (setPauseState ain up now p cs why s)"
| "pause_step ain (up, now, OpRefresh) s = snd (getPauseState up s)"
| "pause_step ain (up, now, OpInit) s = snd (initializePauseState up s)"

definition start_state :: pause_sys where
  "start_state = \<lparr>globalPauseState = unpaused, pause_table = None\<rparr>"

text \<open>An array literal starts with a brace or with the bounds of a dimension.\<close>

definition array_literal_law :: "(string \<Rightarrow> string list option) \<Rightarrow> bool" where
  "array_literal_law array_in \<longleftrightarrow>
     (\<forall>c d r xs. array_in (c # d # r) = Some xs \<longrightarrow>
        c = CHR ''{'' \<or> is_space c \<or> (c = CHR ''['' \<and> (is_digit d \<or> is_space d \<or> d \<in> {CHR ''+'', CHR ''-''})))"

lemma json_array_rejected:
  assumes "array_literal_law array_in"
  shows "array_in (stringify (JArr (map JStr cs))) = None"
proof -
  obtain d r where d: "stringify (JArr (map JStr cs)) = CHR ''['' # d # r" "d \<in> {CHR 0x22, CHR '']''}"
    using stringify_strings by blast
  from d(2) have "\<not> is_digit d" "\<not> is_space d" "d \<notin> {CHR ''+'', CHR ''-''}"
    by (auto simp: is_digit_def is_space_def)
  moreover have "\<not> is_space CHR ''[''" by (simp add: is_space_def)
  ultimately have "array_in (CHR ''['' # d # r) \<noteq> Some xs" for xs
    using assms [unfolded array_literal_law_def, rule_format, of "CHR ''[''" d r xs] by auto
  then show ?thesis unfolding d(1) by (meson option.exhaust)
qed

definition not_paused :: "pause_sys \<Rightarrow> bool" where
  "not_paused s \<longleftrightarrow> \<not> isPaused (globalPauseState s) \<and>
     (case pause_table s of None \<Rightarrow> True | Some row \<Rightarrow> \<not> is_paused row)"

lemma set_rejected:
  assumes "array_literal_law array_in"
  shows "setPauseState array_in up now p cs why s =
    (Inl (Thrown (if up then ''malformed array literal'' else ''database error'')), s)"
  using json_array_rejected [OF assms] by (simp add: setPauseState_def Let_def)

lemma pause_step_not_paused:
  assumes "array_literal_law array_in" "not_paused s"
  shows "not_paused (pause_step array_in op s)"
  using assms(2)
  by (cases "(array_in, op, s)" rule: pause_step.cases)
     (auto simp: set_rejected [OF assms(1)] getPauseState_def initializePauseState_def Let_def
        updatePauseStateFromDatabase_def not_paused_def split: option.splits)

section \<open>Properties\<close>

text \<open>While the pause is in force exactly the mutating methods are refused, with 503; and a pause that
  is stored comes into force at once and survives a reload from the database: refreshing gives back
  the stored flag, so the guard refuses the same requests after a restart.\<close>

theorem pause_guard_refuses:
  assumes "setPauseState array_in db_up now p cs why s = (Inr (), s')"
  shows "(pauseGuard method s' = Inr () \<longleftrightarrow> method \<in> {''GET'', ''HEAD'', ''OPTIONS''} \<or> \<not> p) \<and>
    (pauseGuard method s' \<noteq> Inr () \<longrightarrow> (\<exists>e. pauseGuard method s' = Inl e \<and> statusCode e = 503)) \<and>
    isPaused (globalPauseState (snd (initializePauseState True
      \<lparr>globalPauseState = unpaused, pause_table = pause_table s'\<rparr>))) = p"
proof -
  have s': "isPaused (globalPauseState s') = p" "\<exists>row. pause_table s' = Some row \<and> is_paused row = p"
    using assms by (auto simp: setPauseState_def Let_def split: if_splits option.splits)
  then show ?thesis
    by (auto simp: pauseGuard_def Let_def serviceUnavailable_def initializePauseState_def
        updatePauseStateFromDatabase_def)
qed

theorem pause_guard_refuses_witness:
  "pauseGuard ''POST'' (snd (setPauseState (\<lambda>_. Some [''C1'']) True 5 True [''C1''] None start_state)) \<noteq> Inr ()"
proof -
  let ?s = "snd (setPauseState (\<lambda>_. Some [''C1'']) True 5 True [''C1''] None start_state)"
  have "setPauseState (\<lambda>_. Some [''C1'']) True 5 True [''C1''] None start_state = (Inr (), ?s)"
    by (simp add: setPauseState_def Let_def)
  from pause_guard_refuses [OF this, of "''POST''"] show ?thesis by simp
qed

text \<open>The pause never comes into force on PostgreSQL: the text of a JSON array is no literal of the
  column's array type, so every \<open>setPauseState\<close> throws and changes nothing, and after any sequence of
  pause and unpause events, refreshes and restarts the guard lets every request pass.\<close>

theorem pause_never_in_force:
  assumes "array_literal_law array_in"
  shows "(\<exists>e. setPauseState array_in db_up now p cs why s = (Inl e, s)) \<and>
    pauseGuard method (fold (pause_step array_in) ops start_state) = Inr ()"
proof -
  have "not_paused (fold (pause_step array_in) ops s)" if "not_paused s" for s
    using that by (induction ops arbitrary: s) (auto simp: pause_step_not_paused [OF assms])
  then have "not_paused (fold (pause_step array_in) ops start_state)"
    by (simp add: not_paused_def start_state_def unpaused_def)
  then show ?thesis by (simp add: set_rejected [OF assms] pauseGuard_def not_paused_def Let_def)
qed

theorem pause_never_in_force_witness:
  "pauseGuard ''POST'' (fold (pause_step (\<lambda>s. if starts_with ''{'' s then Some [] else None))
     [(True, 1, OpInit), (True, 2, OpSet True [''C1''] None), (True, 3, OpRefresh)] start_state) = Inr ()"
proof -
  have "array_literal_law (\<lambda>s. if starts_with ''{'' s then Some [] else None)"
    by (simp add: array_literal_law_def)
  from pause_never_in_force [OF this, THEN conjunct2] show ?thesis .
qed

end
