(* ===== verification/IndexerStore.thy ===== *)
theory IndexerStore
  imports EventParser EventStore Scores PauseGuard MoneyDecimal
begin

text \<open>
  \<open>storeEvents\<close> of \<open>src/backend/src/services/eventIndexer.ts\<close> with \<open>withTransaction\<close> of
  \<open>src/backend/src/db/connection.ts\<close>: the parsing of a batch and its quarantine, the transaction that
  inserts the rows, the audit rows and the scores, and what happens after the commit. A transaction is a
  sequence of statements; the environment says for each attempt after how many statements it fails and
  whether the failure is transient. The variables that the body of the transaction captures
  (\<open>insertedEvents\<close>, \<open>scoreUpdates\<close>) live outside it, so an attempt that is rolled back leaves its
  changes in them. The columns \<open>topics\<close> and \<open>value\<close> of a row are left out.
\<close>

section \<open>State\<close>

record audit =
  actor :: string
  action :: string
  target :: string
  details :: "(string \<times> json) list"
  ip_address :: "string option"

record quarantined =
  qId :: string
  qLedger :: int
  qTxHash :: string
  qContract :: string
  qTopics :: "string list"
  qValue :: string
  qError :: string

record notification =
  nUser :: string
  nType :: string
  nTitle :: string
  nMessage :: string
  nLoanId :: "js_number option"

datatype emission =
    Dispatched contract_event
  | Broadcast contract_event "string option"
  | Notified notification

record checkpoint =
  cpContract :: string
  range_start :: int
  range_end :: int
  suspect :: bool

record 's idx =
  contract_events :: "event_row list"
  audit_logs :: "audit list"
  quarantine_events :: "quarantined list"
  scoring :: "'s score_sys"
  pausing :: pause_sys
  indexer_state :: "(string \<times> int) list"
  ledger_checkpoints :: "checkpoint list"
  emitted :: "emission list"
  lastObservedQuarantineCount :: nat
  alerts :: nat

text \<open>What is fixed for a process, and what the environment does during one call.\<close>

record ('v, 's) idx_env =
  codec :: "'v codec"
  numeric_in :: "string \<Rightarrow> int option"
  text_array_in :: "string \<Rightarrow> string list option"
  redis_api :: "'s redis"
  score_config :: score_config
  quarantineAlertThreshold :: nat

record faults =
  now_ms :: ms
  redis_srv :: server
  quarantine_up :: bool
  pause_up :: bool
  tx_fault :: "nat \<Rightarrow> (nat \<times> bool) option"

section \<open>Quarantine\<close>

definition error_message :: "http_error \<Rightarrow> string" where
  "error_message e = (case e of Thrown m \<Rightarrow> m | AppError s m c f \<Rightarrow> m)"

definition quarantine_row :: "'v codec \<Rightarrow> 'v raw_event \<Rightarrow> http_error \<Rightarrow> quarantined" where
  "quarantine_row C ev e =
     (let rawTopics = (case xdr_list C (topic ev) of Inl _ \<Rightarrow> [] | Inr ts \<Rightarrow> ts);
          rawValue = (case xdr_list C (topic ev) of
                        Inl _ \<Rightarrow> []
                      | Inr _ \<Rightarrow> (case toXDR C (rawValue ev) of Inl _ \<Rightarrow> [] | Inr v \<Rightarrow> v))
      in \<lparr>qId = rawId ev, qLedger = rawLedger ev, qTxHash = rawTxHash ev, qContract = rawContract ev,
          qTopics = rawTopics, qValue = rawValue, qError = error_message e\<rparr>)"

definition quarantineEvent ::
  "('v, 's) idx_env \<Rightarrow> faults \<Rightarrow> 'v raw_event \<Rightarrow> http_error \<Rightarrow> 's idx \<Rightarrow> 's idx" where
  "quarantineEvent E F ev e s =
     (if quarantine_up F \<and> \<not> list_ex (\<lambda>q. qId q = rawId ev) (quarantine_events s)
      then s\<lparr>quarantine_events := quarantine_events s @ [quarantine_row (codec E) ev e]\<rparr> else s)"

definition logQuarantineGrowth :: "('v, 's) idx_env \<Rightarrow> faults \<Rightarrow> 's idx \<Rightarrow> 's idx" where
  "logQuarantineGrowth E F s =
     (if \<not> quarantine_up F then s
      else
        (let totalCount = length (quarantine_events s);
             previousCount = lastObservedQuarantineCount s;
             s1 = (if totalCount > previousCount \<and> previousCount < quarantineAlertThreshold E \<and>
                      totalCount \<ge> quarantineAlertThreshold E
                   then s\<lparr>alerts := alerts s + 1\<rparr> else s)
         in s1\<lparr>lastObservedQuarantineCount := max previousCount totalCount\<rparr>))"

fun parse_batch ::
  "('v, 's) idx_env \<Rightarrow> faults \<Rightarrow> 'v raw_event list \<Rightarrow> 's idx \<Rightarrow> contract_event list \<times> nat \<times> 's idx" where
  "parse_batch E F [] s = ([], 0, s)"
| "parse_batch E F (ev # evs) s =
     (case parseEvent (codec E) ev of
        Inr parsed \<Rightarrow>
          (case parse_batch E F evs s of
             (es, n, s') \<Rightarrow> ((case parsed of None \<Rightarrow> es | Some e \<Rightarrow> e # es), n, s'))
      | Inl err \<Rightarrow>
          (case parse_batch E F evs (quarantineEvent E F ev err s) of
             (es, n, s') \<Rightarrow> (es, n + 1, s')))"

section \<open>The transaction\<close>

definition int4 :: "int \<Rightarrow> bool" where "int4 n \<longleftrightarrow> - (2 ^ 31) \<le> n \<and> n < 2 ^ 31"

text \<open>The parameter of an \<open>INTEGER\<close> column: the inner \<open>None\<close> is \<open>NULL\<close>, the outer one an error of the
  statement.\<close>

definition int_column :: "js_number option \<Rightarrow> int option option" where
  "int_column v =
     (case v of
        None \<Rightarrow> Some None
      | Some (Num n) \<Rightarrow> if int4 n then Some (Some n) else None
      | Some _ \<Rightarrow> None)"

definition numeric_column :: "(string \<Rightarrow> int option) \<Rightarrow> string option \<Rightarrow> int option option" where
  "numeric_column num v =
     (case v of None \<Rightarrow> Some None | Some a \<Rightarrow> (case num a of None \<Rightarrow> None | Some n \<Rightarrow> Some (Some n)))"

definition row_of :: "('v, 's) idx_env \<Rightarrow> contract_event \<Rightarrow> event_row option" where
  "row_of E e =
     (case (int_column (evLoanId e), numeric_column (numeric_in E) (evAmount e),
            int_column (evInterestRateBps e), int_column (evTermLedgers e)) of
        (Some l, Some a, Some r, Some t) \<Rightarrow>
          if int4 (evLedger e) then
            Some \<lparr>event_id = evId e, event_type = evType e, loan_id = l, address = evAddress e, amount = a,
                  ledger = evLedger e, ledger_closed_at = evClosedAt e, tx_hash = evTxHash e,
                  contract_id = evContract e, interest_rate_bps = r, term_ledgers = t\<rparr>
          else None
      | _ \<Rightarrow> None)"

datatype tx_error = Fault | BadRow

record tx =
  tx_rows :: "event_row list"
  tx_audits :: "audit list"
  insertedEvents :: "contract_event list"
  scoreUpdates :: "(string \<times> int option) list"
  statements_left :: "nat option"

definition spend :: "tx \<Rightarrow> tx option" where
  "spend t = (case statements_left t of
                None \<Rightarrow> Some t
              | Some 0 \<Rightarrow> None
              | Some (Suc n) \<Rightarrow> Some (t\<lparr>statements_left := Some n\<rparr>))"

definition isAdminConfigEventType :: "string \<Rightarrow> bool" where
  "isAdminConfigEventType t \<longleftrightarrow> t \<in> set ADMIN_CONFIG_EVENT_TYPES"

definition nullable :: "('a \<Rightarrow> json) \<Rightarrow> 'a option \<Rightarrow> json" where
  "nullable f v = (case v of None \<Rightarrow> JNull | Some x \<Rightarrow> f x)"

definition admin_config_audit :: "contract_event \<Rightarrow> event_row \<Rightarrow> audit" where
  "admin_config_audit e r =
     \<lparr>actor = (case evAddress e of None \<Rightarrow> ''SYSTEM'' | Some a \<Rightarrow> a),
      action = ''ADMIN_CONFIG_'' @ evType e, target = ''contract:'' @ evContract e,
      details = [(''eventId'', JStr (evId e)), (''eventType'', JStr (evType e)),
                 (''loanId'', nullable JNum (loan_id r)), (''amount'', nullable JStr (evAmount e)),
                 (''ledger'', JNum (evLedger e)), (''txHash'', JStr (evTxHash e))],
      ip_address = Some ''internal-indexer''\<rparr>"

definition loan_approval_audit :: "contract_event \<Rightarrow> event_row \<Rightarrow> audit" where
  "loan_approval_audit e r =
     \<lparr>actor = (case evAdminAddress e of None \<Rightarrow> ''SYSTEM'' | Some a \<Rightarrow> a),
      action = ''loan_approved'',
      target = ''loan:'' @ (case loan_id r of None \<Rightarrow> ''unknown'' | Some l \<Rightarrow> show_int l),
      details = [(''eventId'', JStr (evId e)), (''loanId'', nullable JNum (loan_id r)),
                 (''borrower'', nullable JStr (evAddress e)), (''txHash'', JStr (evTxHash e))],
      ip_address = None\<rparr>"

text \<open>\<open>scoreUpdates.set(a, (scoreUpdates.get(a) ?? 0) + d)\<close>; \<open>None\<close> is \<open>NaN\<close>.\<close>

definition add_delta :: "string option \<Rightarrow> int option \<Rightarrow> (string \<times> int option) list \<Rightarrow> (string \<times> int option) list" where
  "add_delta addr d m =
     (case env_set addr of
        None \<Rightarrow> m
      | Some a \<Rightarrow>
          js_map_set a (case ((case map_of m a of None \<Rightarrow> Some 0 | Some v \<Rightarrow> v), d) of
                          (Some x, Some y) \<Rightarrow> Some (x + y) | _ \<Rightarrow> None) m)"

definition score_event :: "score_config \<Rightarrow> contract_event \<Rightarrow> (string \<times> int option) list \<Rightarrow> (string \<times> int option) list" where
  "score_event cfg e m =
     (if evType e = ''LoanRepaid'' then add_delta (evAddress e) (repaymentDelta cfg) m
      else if evType e = ''LoanDefaulted'' \<or> evType e = ''CollateralLiquidated''
      then add_delta (evAddress e) (map_option uminus (defaultPenalty cfg)) m
      else m)"

definition audit_event :: "contract_event \<Rightarrow> event_row \<Rightarrow> tx \<Rightarrow> tx option" where
  "audit_event e r t =
     (if isAdminConfigEventType (evType e) then
        map_option (\<lambda>t. t\<lparr>tx_audits := tx_audits t @ [admin_config_audit e r]\<rparr>) (spend t)
      else if evType e = ''LoanApprv'' then
        map_option (\<lambda>t. t\<lparr>tx_audits := tx_audits t @ [loan_approval_audit e r]\<rparr>) (spend t)
      else Some t)"

definition tx_event :: "('v, 's) idx_env \<Rightarrow> contract_event \<Rightarrow> tx \<Rightarrow> tx \<times> tx_error option" where
  "tx_event E e t =
     (case spend t of
        None \<Rightarrow> (t, Some Fault)
      | Some t1 \<Rightarrow>
          (case row_of E e of
             None \<Rightarrow> (t1, Some BadRow)
           | Some r \<Rightarrow>
               (case insert_event r (tx_rows t1) of
                  (False, _) \<Rightarrow> (t1, None)
                | (True, tbl) \<Rightarrow>
                    (let t2 = t1\<lparr>tx_rows := tbl, insertedEvents := insertedEvents t1 @ [e]\<rparr> in
                     case audit_event e r t2 of
                       None \<Rightarrow> (t2, Some Fault)
                     | Some t3 \<Rightarrow>
                         (t3\<lparr>scoreUpdates := score_event (score_config E) e (scoreUpdates t3)\<rparr>, None)))))"

fun tx_events :: "('v, 's) idx_env \<Rightarrow> contract_event list \<Rightarrow> tx \<Rightarrow> tx \<times> tx_error option" where
  "tx_events E [] t = (t, None)"
| "tx_events E (e # es) t =
     (case tx_event E e t of
        (t', None) \<Rightarrow> tx_events E es t'
      | (t', Some err) \<Rightarrow> (t', Some err))"

text \<open>The bulk update of the scores inside the transaction; a \<open>NaN\<close> is refused by the column.\<close>

definition tx_scores ::
  "('v, 's) idx_env \<Rightarrow> faults \<Rightarrow> tx \<Rightarrow> 's score_sys \<Rightarrow> (tx_error + tx) \<times> 's score_sys" where
  "tx_scores E F t sc =
     (if scoreUpdates t = [] then (Inr t, sc)
      else (case spend t of
              None \<Rightarrow> (Inl Fault, sc)
            | Some t1 \<Rightarrow>
                (if list_ex (\<lambda>p. snd p = None) (scoreUpdates t1) then (Inl BadRow, sc)
                 else (case updateUserScoresBulk (redis_api E) (redis_srv F) True
                          (map (\<lambda>(a, d). (a, the d)) (scoreUpdates t1)) sc of
                         (Inl err, sc') \<Rightarrow> (Inl BadRow, sc')
                       | (Inr _, sc') \<Rightarrow> (Inr t1, sc')))))"

text \<open>One attempt: the body, then \<open>COMMIT\<close>. The first component is the state of the captured variables
  with the rows of the transaction, the second whether it was committed.\<close>

definition tx_attempt ::
  "('v, 's) idx_env \<Rightarrow> faults \<Rightarrow> contract_event list \<Rightarrow> tx \<Rightarrow> 's score_sys \<Rightarrow>
     tx \<times> tx_error option \<times> 's score_sys" where
  "tx_attempt E F es t sc =
     (case tx_events E es t of
        (t1, Some err) \<Rightarrow> (t1, Some err, sc)
      | (t1, None) \<Rightarrow>
          (case tx_scores E F t1 sc of
             (Inl err, sc1) \<Rightarrow> (t1, Some err, sc1)
           | (Inr t2, sc1) \<Rightarrow>
               (case spend t2 of
                  None \<Rightarrow> (t2, Some Fault, sc1)
                | Some t3 \<Rightarrow> (t3, None, sc1))))"

text \<open>The rollback keeps the invalidations of the cache.\<close>

fun withTransaction ::
  "nat \<Rightarrow> nat \<Rightarrow> ('v, 's) idx_env \<Rightarrow> faults \<Rightarrow> contract_event list \<Rightarrow> contract_event list \<Rightarrow>
     (string \<times> int option) list \<Rightarrow> 's idx \<Rightarrow> (http_error + contract_event list) \<times> 's idx" where
  "withTransaction retries attempt E F es inserted updates s =
     (case tx_attempt E F es
        \<lparr>tx_rows = contract_events s, tx_audits = audit_logs s, insertedEvents = inserted,
         scoreUpdates = updates, statements_left = map_option fst (tx_fault F attempt)\<rparr> (scoring s) of
        (t, None, sc) \<Rightarrow>
          (Inr (insertedEvents t),
           s\<lparr>contract_events := tx_rows t, audit_logs := tx_audits t, scoring := sc\<rparr>)
      | (t, Some err, sc) \<Rightarrow>
          (let s1 = s\<lparr>scoring := (scoring s)\<lparr>score_cache := score_cache sc\<rparr>\<rparr> in
           case retries of
             0 \<Rightarrow> (Inl (Thrown ''database error''), s1)
           | Suc n \<Rightarrow>
               (if err = Fault \<and> map_option snd (tx_fault F attempt) = Some True
                then withTransaction n (attempt + 1) E F es (insertedEvents t) (scoreUpdates t) s1
                else (Inl (Thrown ''database error''), s1))))"

declare withTransaction.simps [simp del]

section \<open>After the commit\<close>

definition truthy_id :: "js_number option \<Rightarrow> string option" where
  "truthy_id l =
     (case l of Some (Num n) \<Rightarrow> if n = 0 then None else Some (show_int n)
      | Some Inf \<Rightarrow> Some ''Infinity'' | _ \<Rightarrow> None)"

definition notification_text :: "contract_event \<Rightarrow> (string \<times> string \<times> string) option" where
  "notification_text e =
     (let i = truthy_id (evLoanId e) in
      if evType e = ''LoanApproved'' then
        Some (''loan_approved'', ''Loan Approved'',
          (case i of Some n \<Rightarrow> ''Your loan #'' @ n @ '' has been approved.''
           | None \<Rightarrow> ''Your loan has been approved.''))
      else if evType e = ''LoanRepaid'' then
        Some (''repayment_confirmed'', ''Repayment Confirmed'',
          (case i of Some n \<Rightarrow> ''Repayment for loan #'' @ n @ '' has been confirmed.''
           | None \<Rightarrow> ''Your loan repayment has been confirmed.''))
      else if evType e = ''LoanDefaulted'' then
        Some (''loan_defaulted'', ''Loan Defaulted'',
          (case i of Some n \<Rightarrow> ''Loan #'' @ n @ '' has been marked as defaulted.''
           | None \<Rightarrow> ''A loan has been marked as defaulted.''))
      else if evType e = ''CollateralLiquidated'' then
        Some (''loan_defaulted'', ''Collateral Seized'',
          (case i of Some n \<Rightarrow> ''Collateral for loan #'' @ n @ '' has been seized due to default.''
           | None \<Rightarrow> ''Collateral has been seized due to a loan default.''))
      else if evType e = ''LoanLiquidated'' then
        (let refundPart =
           (case env_set (evBorrowerRefund e) of
              None \<Rightarrow> Some ''No refund is owed.''
            | Some r \<Rightarrow>
                map_option (\<lambda>n. if n > 0 then ''A refund of '' @ r @ '' has been returned to you.''
                                else ''No refund is owed.'') (js_BigInt r))
         in map_option (\<lambda>refundPart.
              (''loan_liquidated'', ''Loan Liquidated'',
               (case i of
                  Some n \<Rightarrow> ''Loan #'' @ n @ '' has been liquidated. Your debt has been cleared. '' @ refundPart
                | None \<Rightarrow> ''Your loan has been liquidated. Your debt has been cleared. '' @ refundPart)))
              refundPart)
      else None)"

definition triggerNotification :: "contract_event \<Rightarrow> notification option" where
  "triggerNotification e =
     (case env_set (evAddress e) of
        None \<Rightarrow> None
      | Some a \<Rightarrow>
          map_option (\<lambda>(ty, title, msg).
            \<lparr>nUser = a, nType = ty, nTitle = title, nMessage = msg, nLoanId = evLoanId e\<rparr>)
            (notification_text e))"

definition emit :: "emission list \<Rightarrow> 's idx \<Rightarrow> 's idx" where
  "emit xs s = s\<lparr>emitted := emitted s @ xs\<rparr>"

text \<open>\<open>fromStroops(BigInt(event.amount))\<close> when there is an amount; the conversion may throw.\<close>

definition amount_display :: "contract_event \<Rightarrow> http_error + string option" where
  "amount_display e =
     (case evAmount e of
        None \<Rightarrow> Inr None
      | Some a \<Rightarrow>
          (case js_BigInt a of
             None \<Rightarrow> Inl (Thrown (''Cannot convert '' @ a @ '' to a BigInt''))
           | Some n \<Rightarrow> Inr (Some (fromStroops n))))"

definition pause_event ::
  "('v, 's) idx_env \<Rightarrow> faults \<Rightarrow> contract_event \<Rightarrow> 's idx \<Rightarrow> (http_error + unit) \<times> 's idx" where
  "pause_event E F e s =
     (if evType e = ''PoolPaused'' then
        (case setPauseState (text_array_in E) (pause_up F) (now_ms F) True [evContract e]
                (Some ''Emergency pause triggered by contract'') (pausing s) of
           (r, p) \<Rightarrow> (r, s\<lparr>pausing := p\<rparr>))
      else if evType e = ''PoolUnpaused'' then
        (case setPauseState (text_array_in E) (pause_up F) (now_ms F) False []
                (Some ''Contract pause lifted'') (pausing s) of
           (r, p) \<Rightarrow> (r, s\<lparr>pausing := p\<rparr>))
      else (Inr (), s))"

fun post_commit ::
  "('v, 's) idx_env \<Rightarrow> faults \<Rightarrow> contract_event list \<Rightarrow> 's idx \<Rightarrow> (http_error + unit) \<times> 's idx" where
  "post_commit E F [] s = (Inr (), s)"
| "post_commit E F (e # es) s =
     (let s1 = emit [Dispatched e] s in
      case amount_display e of
        Inl err \<Rightarrow> (Inl err, s1)
      | Inr d \<Rightarrow>
          (let s2 = emit (Broadcast e d #
                 (case triggerNotification e of None \<Rightarrow> [] | Some n \<Rightarrow> [Notified n])) s1
           in case pause_event E F e s2 of
                (Inl err, s3) \<Rightarrow> (Inl err, s3)
              | (Inr _, s3) \<Rightarrow> post_commit E F es s3))"

definition storeEvents ::
  "('v, 's) idx_env \<Rightarrow> faults \<Rightarrow> 'v raw_event list \<Rightarrow> 's idx \<Rightarrow> (http_error + nat) \<times> 's idx" where
  "storeEvents E F evs s =
     (case parse_batch E F evs s of
        (parsedEvents, quarantineAttempts, s1) \<Rightarrow>
          (let s2 = (if quarantineAttempts > 0 then logQuarantineGrowth E F s1 else s1) in
           if parsedEvents = [] then (Inr 0, s2)
           else (case withTransaction 3 0 E F parsedEvents [] [] s2 of
                   (Inl err, s3) \<Rightarrow> (Inl err, s3)
                 | (Inr inserted, s3) \<Rightarrow>
                     (case post_commit E F inserted s3 of
                        (Inl err, s4) \<Rightarrow> (Inl err, s4)
                      | (Inr _, s4) \<Rightarrow> (Inr (length inserted), s4)))))"

definition ingestRawEvents ::
  "('v, 's) idx_env \<Rightarrow> faults \<Rightarrow> 'v raw_event list \<Rightarrow> 's idx \<Rightarrow> (http_error + nat) \<times> 's idx" where
  "ingestRawEvents = storeEvents"

section \<open>What is stored\<close>

definition stored :: "('v, 's) idx_env \<Rightarrow> event_row list \<Rightarrow> contract_event \<Rightarrow> bool" where
  "stored E tbl e \<longleftrightarrow> (\<exists>r. row_of E e = Some r \<and> list_ex (conflicts r) tbl)"

lemma stored_mono: "stored E tbl e \<Longrightarrow> stored E (tbl @ ext) e"
  by (auto simp: stored_def)

lemma spend_fields: "spend t = Some t' \<Longrightarrow>
    tx_rows t' = tx_rows t \<and> tx_audits t' = tx_audits t \<and> insertedEvents t' = insertedEvents t \<and>
    scoreUpdates t' = scoreUpdates t"
  by (auto simp: spend_def split: option.splits nat.splits)

lemma spend_free [simp]: "statements_left t = None \<Longrightarrow> spend t = Some t"
  by (simp add: spend_def)

lemma spend_left: "spend t = Some t' \<Longrightarrow> statements_left t = None \<Longrightarrow> t' = t"
  by (simp add: spend_def)

lemma audit_event_fields: "audit_event e r t = Some t' \<Longrightarrow>
    tx_rows t' = tx_rows t \<and> insertedEvents t' = insertedEvents t \<and> scoreUpdates t' = scoreUpdates t"
  by (auto simp: audit_event_def split: if_splits dest!: spend_fields)

lemma audit_event_free:
  "statements_left t = None \<Longrightarrow> \<exists>as. audit_event e r t = Some (t\<lparr>tx_audits := as\<rparr>)"
  by (auto simp: audit_event_def) (metis tx.surjective tx.update_convs(2))

lemma tx_event_stored: "tx_event E e t = (t', None) \<Longrightarrow> stored E (tx_rows t') e"
  by (auto simp: tx_event_def stored_def insert_event_def Let_def
      split: option.splits if_splits dest!: spend_fields audit_event_fields)

lemma tx_event_extends: "tx_event E e t = (t', err) \<Longrightarrow> \<exists>ext. tx_rows t' = tx_rows t @ ext"
  by (auto simp: tx_event_def insert_event_def Let_def
      split: option.splits if_splits dest!: spend_fields audit_event_fields)

lemma tx_events_extends: "tx_events E es t = (t', err) \<Longrightarrow> \<exists>ext. tx_rows t' = tx_rows t @ ext"
proof (induction es arbitrary: t)
  case (Cons e es)
  obtain t1 err1 where e: "tx_event E e t = (t1, err1)" by fastforce
  obtain ext1 where x1: "tx_rows t1 = tx_rows t @ ext1" using tx_event_extends [OF e] by blast
  show ?case
  proof (cases err1)
    case None
    then have "tx_events E es t1 = (t', err)" using Cons.prems e by simp
    from Cons.IH [OF this] x1 show ?thesis by auto
  qed (use Cons.prems e x1 in auto)
qed simp

lemma tx_events_stored: "tx_events E es t = (t', None) \<Longrightarrow> \<forall>e \<in> set es. stored E (tx_rows t') e"
proof (induction es arbitrary: t)
  case (Cons e es)
  obtain t1 where e: "tx_event E e t = (t1, None)" and es: "tx_events E es t1 = (t', None)"
    using Cons.prems by (auto split: prod.splits option.splits)
  have "stored E (tx_rows t') e"
    using tx_event_stored [OF e] tx_events_extends [OF es] stored_mono by metis
  with Cons.IH [OF es] show ?case by simp
qed simp

text \<open>Processing events that are stored changes nothing, and no event without a row gets through.\<close>

lemma tx_event_again:
  assumes "stored E (tx_rows t) e" "tx_event E e t = (t', err)"
  shows "tx_rows t' = tx_rows t \<and> tx_audits t' = tx_audits t \<and> insertedEvents t' = insertedEvents t \<and>
    scoreUpdates t' = scoreUpdates t"
  using assms
  by (auto simp: tx_event_def stored_def insert_event_def split: option.splits if_splits dest!: spend_fields)

lemma tx_events_again:
  assumes "\<forall>e \<in> set es. stored E (tx_rows t) e" "tx_events E es t = (t', err)"
  shows "tx_rows t' = tx_rows t \<and> tx_audits t' = tx_audits t \<and> insertedEvents t' = insertedEvents t \<and>
    scoreUpdates t' = scoreUpdates t"
  using assms
proof (induction es arbitrary: t)
  case (Cons e es)
  obtain t1 err1 where e: "tx_event E e t = (t1, err1)" by fastforce
  have "stored E (tx_rows t) e" using Cons.prems(1) by simp
  note same = tx_event_again [OF this e]
  show ?case
  proof (cases err1)
    case None
    then have "tx_events E es t1 = (t', err)" using Cons.prems(2) e by simp
    with Cons.IH [of t1] Cons.prems(1) same show ?thesis by simp
  qed (use Cons.prems e same in auto)
qed simp

lemma tx_attempt_stored:
  assumes "tx_attempt E F es t sc = (t', None, sc')"
  shows "(\<forall>e \<in> set es. stored E (tx_rows t') e) \<and> (\<exists>ext. tx_rows t' = tx_rows t @ ext)"
proof -
  obtain t1 where t1: "tx_events E es t = (t1, None)" and r: "tx_rows t' = tx_rows t1"
    using assms
    by (auto simp: tx_attempt_def tx_scores_def split: prod.splits option.splits sum.splits if_splits
        dest!: spend_fields)
  show ?thesis unfolding r using tx_events_stored [OF t1] tx_events_extends [OF t1] by blast
qed

lemma withTransaction_stored:
  "withTransaction retries att E F es ins upd s = (Inr ins', s') \<Longrightarrow>
     (\<forall>e \<in> set es. stored E (contract_events s') e) \<and>
     (\<exists>ext. contract_events s' = contract_events s @ ext)"
proof (induction retries arbitrary: att ins upd s)
  case 0
  then show ?case
    by (subst (asm) withTransaction.simps)
       (auto simp: Let_def split: prod.splits option.splits dest!: tx_attempt_stored)
next
  case (Suc n)
  show ?case
    using Suc.prems Suc.IH
    by (subst (asm) withTransaction.simps)
       (fastforce simp: Let_def split: prod.splits option.splits if_splits dest!: tx_attempt_stored)
qed

lemma withTransaction_rollback:
  "withTransaction retries att E F es ins upd s = (Inl err, s') \<Longrightarrow>
     \<exists>c. s' = s\<lparr>scoring := (scoring s)\<lparr>score_cache := c\<rparr>\<rparr>"
proof (induction retries arbitrary: att ins upd s)
  case 0
  then show ?case
    by (subst (asm) withTransaction.simps) (auto simp: Let_def split: prod.splits option.splits)
next
  case (Suc n)
  show ?case
    using Suc.prems Suc.IH
    by (subst (asm) withTransaction.simps)
       (fastforce simp: Let_def split: prod.splits option.splits if_splits)
qed

lemma parse_batch_rest:
  "parse_batch E F evs s = (es, n, s') \<Longrightarrow>
     es = List.map_filter (\<lambda>ev. case parseEvent (codec E) ev of Inr p \<Rightarrow> p | Inl _ \<Rightarrow> None) evs \<and>
     (\<exists>qs. s' = s\<lparr>quarantine_events := qs\<rparr> \<and> set (quarantine_events s) \<subseteq> set qs)"
proof (induction evs arbitrary: s es n)
  case Nil
  then show ?case by (auto simp: map_filter_simps) (metis idx.surjective idx.update_convs(3) order_refl)
next
  case (Cons ev evs)
  show ?case
  proof (cases "parseEvent (codec E) ev")
    case (Inr parsed)
    then show ?thesis using Cons
      by (auto simp: map_filter_simps split: prod.splits option.splits)
  next
    case (Inl err)
    obtain n1 where p: "parse_batch E F evs (quarantineEvent E F ev err s) = (es, n1, s')"
      using Cons.prems Inl by (auto split: prod.splits)
    from Cons.IH [OF p] Inl show ?thesis
      by (fastforce simp: map_filter_simps quarantineEvent_def split: if_splits)
  qed
qed

lemma withTransaction_keeps:
  "withTransaction retries att E F es ins upd s = (r, s') \<Longrightarrow>
     indexer_state s' = indexer_state s \<and> ledger_checkpoints s' = ledger_checkpoints s \<and>
     quarantine_events s' = quarantine_events s \<and> emitted s' = emitted s \<and> pausing s' = pausing s"
proof (induction retries arbitrary: att ins upd s)
  case 0
  then show ?case
    by (subst (asm) withTransaction.simps) (auto simp: Let_def split: prod.splits option.splits)
next
  case (Suc n)
  show ?case
    using Suc.prems Suc.IH
    by (subst (asm) withTransaction.simps)
       (fastforce simp: Let_def split: prod.splits option.splits if_splits)
qed

text \<open>The events of a batch that are neither ignored nor malformed.\<close>

definition parsed_of :: "('v, 's) idx_env \<Rightarrow> 'v raw_event list \<Rightarrow> contract_event list" where
  "parsed_of E evs =
     List.map_filter (\<lambda>ev. case parseEvent (codec E) ev of Inr p \<Rightarrow> p | Inl _ \<Rightarrow> None) evs"

lemma in_parsed_of: "e \<in> set (parsed_of E evs) \<longleftrightarrow> (\<exists>ev \<in> set evs. parseEvent (codec E) ev = Inr (Some e))"
  by (induction evs) (auto simp: parsed_of_def map_filter_simps split: sum.splits option.splits)

definition same_tables :: "'s idx \<Rightarrow> 's idx \<Rightarrow> bool" where
  "same_tables s s' \<longleftrightarrow>
     contract_events s' = contract_events s \<and> audit_logs s' = audit_logs s \<and>
     scores (scoring s') = scores (scoring s) \<and> emitted s' = emitted s \<and> pausing s' = pausing s"

lemma post_commit_keeps:
  "post_commit E F es s = (r, s') \<Longrightarrow>
     contract_events s' = contract_events s \<and> audit_logs s' = audit_logs s \<and> scoring s' = scoring s \<and>
     quarantine_events s' = quarantine_events s \<and> indexer_state s' = indexer_state s \<and>
     ledger_checkpoints s' = ledger_checkpoints s"
proof (induction es arbitrary: s)
  case (Cons e es)
  then show ?case
    by (fastforce simp: Let_def emit_def pause_event_def split: sum.splits prod.splits option.splits if_splits)
qed simp

lemma logQuarantineGrowth_keeps:
  "\<exists>a n. logQuarantineGrowth E F s = s\<lparr>alerts := a, lastObservedQuarantineCount := n\<rparr>"
proof -
  have "s = s\<lparr>alerts := alerts s, lastObservedQuarantineCount := lastObservedQuarantineCount s\<rparr>" by simp
  then show ?thesis unfolding logQuarantineGrowth_def Let_def
    by (auto simp del: idx.surjective intro: exI)
       (metis (no_types) idx.surjective idx.update_convs(9,10))+
qed

lemma parse_phase:
  assumes "parse_batch E F evs s = (es, n, s1)"
    and "s2 = (if n > 0 then logQuarantineGrowth E F s1 else s1)"
  shows "es = parsed_of E evs \<and> same_tables s s2 \<and> scoring s2 = scoring s \<and>
    indexer_state s2 = indexer_state s \<and> ledger_checkpoints s2 = ledger_checkpoints s \<and>
    set (quarantine_events s) \<subseteq> set (quarantine_events s2) \<and> quarantine_events s2 = quarantine_events s1"
proof -
  obtain qs where qs: "s1 = s\<lparr>quarantine_events := qs\<rparr>" "set (quarantine_events s) \<subseteq> set qs"
    and es: "es = parsed_of E evs"
    using parse_batch_rest [OF assms(1)] by (auto simp: parsed_of_def)
  obtain a m where "logQuarantineGrowth E F s1 = s1\<lparr>alerts := a, lastObservedQuarantineCount := m\<rparr>"
    using logQuarantineGrowth_keeps by blast
  with assms(2) qs es show ?thesis by (auto simp: same_tables_def)
qed

lemma storeEvents_cases:
  assumes "storeEvents E F evs s = (r, s')"
  shows "indexer_state s' = indexer_state s \<and> ledger_checkpoints s' = ledger_checkpoints s \<and>
    set (quarantine_events s) \<subseteq> set (quarantine_events s') \<and>
    (\<exists>ext. contract_events s' = contract_events s @ ext) \<and>
    (if \<forall>e \<in> set (parsed_of E evs). stored E (contract_events s') e then True
     else \<not> is_ok r \<and> same_tables s s')"
proof -
  obtain es n s1 where p: "parse_batch E F evs s = (es, n, s1)" by (metis prod_cases3)
  define s2 where "s2 = (if n > 0 then logQuarantineGrowth E F s1 else s1)"
  note ph = parse_phase [OF p s2_def]
  show ?thesis
  proof (cases "es = []")
    case True
    then show ?thesis using assms p ph by (auto simp: storeEvents_def s2_def [symmetric] same_tables_def)
  next
    case False
    obtain res s3 where w: "withTransaction 3 0 E F es [] [] s2 = (res, s3)" by fastforce
    show ?thesis
    proof (cases res)
      case (Inl err)
      obtain c where "s3 = s2\<lparr>scoring := (scoring s2)\<lparr>score_cache := c\<rparr>\<rparr>"
        using withTransaction_rollback w Inl by blast
      then show ?thesis using assms p ph w Inl False
        by (auto simp: storeEvents_def s2_def [symmetric] same_tables_def)
    next
      case (Inr inserted)
      obtain res4 where pc: "post_commit E F inserted s3 = (res4, s')"
        using assms p w Inr False
        by (auto simp: storeEvents_def s2_def [symmetric] split: prod.splits sum.splits)
      have k: "indexer_state s3 = indexer_state s2 \<and> ledger_checkpoints s3 = ledger_checkpoints s2 \<and>
          quarantine_events s3 = quarantine_events s2"
        using w Inr withTransaction_keeps by blast
      show ?thesis
        using withTransaction_stored [OF w [unfolded Inr]] post_commit_keeps [OF pc] k ph
        by (auto simp: same_tables_def)
    qed
  qed
qed

definition in_quarantine :: "'s idx \<Rightarrow> 'v raw_event \<Rightarrow> bool" where
  "in_quarantine s ev \<longleftrightarrow> rawId ev \<in> qId ` set (quarantine_events s)"

lemma quarantineEvent_in: "quarantine_up F \<Longrightarrow> in_quarantine (quarantineEvent E F ev e s) ev"
  by (auto simp: quarantineEvent_def in_quarantine_def quarantine_row_def Let_def list_ex_iff)
     (metis image_eqI)

lemma parse_batch_quarantines:
  "parse_batch E F evs s = (es, n, s') \<Longrightarrow> quarantine_up F \<Longrightarrow>
     \<forall>ev \<in> set evs. (\<exists>err. parseEvent (codec E) ev = Inl err) \<longrightarrow> in_quarantine s' ev"
proof (induction evs arbitrary: s es n)
  case (Cons ev evs)
  show ?case
  proof (cases "parseEvent (codec E) ev")
    case (Inr parsed)
    then show ?thesis using Cons by (auto split: prod.splits)
  next
    case (Inl err)
    obtain n1 where p: "parse_batch E F evs (quarantineEvent E F ev err s) = (es, n1, s')"
      using Cons.prems Inl by (auto split: prod.splits)
    have "in_quarantine s' ev"
      using quarantineEvent_in [OF Cons.prems(2), of E ev err s] parse_batch_rest [OF p]
      unfolding in_quarantine_def by auto
    with Cons.IH [OF p Cons.prems(2)] show ?thesis by auto
  qed
qed simp

lemma storeEvents_quarantines:
  assumes "storeEvents E F evs s = (r, s')" "quarantine_up F" "ev \<in> set evs"
    "parseEvent (codec E) ev = Inl err"
  shows "in_quarantine s' ev"
proof -
  obtain es n s1 where p: "parse_batch E F evs s = (es, n, s1)" by (metis prod_cases3)
  define s2 where "s2 = (if n > 0 then logQuarantineGrowth E F s1 else s1)"
  have q2: "quarantine_events s2 = quarantine_events s1" using parse_phase [OF p s2_def] by blast
  have "quarantine_events s' = quarantine_events s2"
    using assms(1) p
    by (auto simp: storeEvents_def s2_def [symmetric] split: prod.splits sum.splits if_splits
        dest!: withTransaction_keeps post_commit_keeps)
  then show ?thesis
    using parse_batch_quarantines [OF p assms(2)] assms(3,4) q2 unfolding in_quarantine_def by auto
qed

section \<open>The accounting of scores\<close>

fun fresh :: "('v, 's) idx_env \<Rightarrow> contract_event list \<Rightarrow> event_row list \<Rightarrow> contract_event list" where
  "fresh E [] tbl = []"
| "fresh E (e # es) tbl =
     (case row_of E e of
        None \<Rightarrow> fresh E es tbl
      | Some r \<Rightarrow>
          (if list_ex (conflicts r) tbl then fresh E es tbl else e # fresh E es (tbl @ [r])))"

lemma tx_events_free:
  assumes "statements_left t = None" "\<forall>e \<in> set es. row_of E e \<noteq> None"
  shows "\<exists>rows as. tx_events E es t = (t\<lparr>tx_rows := rows, tx_audits := as,
      insertedEvents := insertedEvents t @ fresh E es (tx_rows t),
      scoreUpdates := fold (score_event (score_config E)) (fresh E es (tx_rows t)) (scoreUpdates t)\<rparr>, None)"
  using assms
proof (induction es arbitrary: t)
  case Nil
  have "t = t\<lparr>tx_rows := tx_rows t, tx_audits := tx_audits t, insertedEvents := insertedEvents t,
      scoreUpdates := scoreUpdates t\<rparr>" by simp
  then show ?case by (metis append_Nil2 fold_simps(1) fresh.simps(1) tx_events.simps(1))
next
  case (Cons e es)
  obtain r where r: "row_of E e = Some r" using Cons.prems(2) by auto
  show ?case
  proof (cases "list_ex (conflicts r) (tx_rows t)")
    case True
    then have "tx_event E e t = (t, None)" using Cons.prems(1) by (simp add: tx_event_def r insert_event_def)
    with Cons.IH [of t] Cons.prems True r show ?thesis by simp
  next
    case False
    let ?t2 = "t\<lparr>tx_rows := tx_rows t @ [r], insertedEvents := insertedEvents t @ [e]\<rparr>"
    obtain as where "audit_event e r ?t2 = Some (?t2\<lparr>tx_audits := as\<rparr>)"
      using audit_event_free [of ?t2 e r] Cons.prems(1) by auto
    then have e: "tx_event E e t = (?t2\<lparr>tx_audits := as,
        scoreUpdates := score_event (score_config E) e (scoreUpdates t)\<rparr>, None)"
      using Cons.prems(1) False by (simp add: tx_event_def r insert_event_def Let_def)
    show ?thesis
      using Cons.IH [of "?t2\<lparr>tx_audits := as,
        scoreUpdates := score_event (score_config E) e (scoreUpdates t)\<rparr>"] Cons.prems False r
      by (auto simp: e)
  qed
qed

definition earns :: "string \<Rightarrow> contract_event \<Rightarrow> bool" where
  "earns u e \<longleftrightarrow> evType e = ''LoanRepaid'' \<and> env_set (evAddress e) = Some u"

definition loses :: "string \<Rightarrow> contract_event \<Rightarrow> bool" where
  "loses u e \<longleftrightarrow> evType e \<in> {''LoanDefaulted'', ''CollateralLiquidated''} \<and> env_set (evAddress e) = Some u"

text \<open>The delta that a list of new events means for a borrower.\<close>

definition net_delta :: "int \<Rightarrow> int \<Rightarrow> string \<Rightarrow> contract_event list \<Rightarrow> int" where
  "net_delta repay penalty u es =
     repay * int (length (filter (earns u) es)) - penalty * int (length (filter (loses u) es))"

definition touches :: "string \<Rightarrow> contract_event list \<Rightarrow> bool" where
  "touches u es \<longleftrightarrow> list_ex (\<lambda>e. earns u e \<or> loses u e) es"

definition int_deltas :: "(string \<times> int option) list \<Rightarrow> bool" where
  "int_deltas m \<longleftrightarrow> distinct (map fst m) \<and> (\<forall>(a, d) \<in> set m. a \<noteq> [] \<and> d \<noteq> None)"

definition delta_at :: "(string \<times> int option) list \<Rightarrow> string \<Rightarrow> int" where
  "delta_at m u = (case map_of m u of Some (Some d) \<Rightarrow> d | _ \<Rightarrow> 0)"

lemma env_set_not_Nil: "env_set v = Some a \<Longrightarrow> a \<noteq> []"
  by (auto simp: env_set_def split: option.splits if_splits)

lemma int_deltas_set: "int_deltas m \<Longrightarrow> a \<noteq> [] \<Longrightarrow> int_deltas (js_map_set a (Some d) m)"
proof -
  assume m: "int_deltas m" and a: "a \<noteq> []"
  have "\<forall>(b, x) \<in> set (js_map_set a (Some d) m). (b, x) \<in> set m \<or> (b = a \<and> x = Some d)"
    by (induction m) (auto split: if_splits)
  with m a show ?thesis unfolding int_deltas_def using distinct_js_map_set by fastforce
qed

lemma add_delta_int:
  assumes "int_deltas m" "env_set addr = Some a"
  shows "add_delta addr (Some d) m = js_map_set a (Some (delta_at m a + d)) m"
proof -
  have "map_of m a = None \<or> (\<exists>x. map_of m a = Some (Some x))"
    using assms(1) unfolding int_deltas_def
    by (metis (mono_tags, lifting) case_prodD map_of_SomeD not_Some_eq)
  then show ?thesis using assms(2) by (auto simp: add_delta_def delta_at_def)
qed

lemma score_event_int:
  assumes "int_deltas m" "repaymentDelta cfg = Some rd" "defaultPenalty cfg = Some dp"
  shows "int_deltas (score_event cfg e m) \<and>
    delta_at (score_event cfg e m) u = delta_at m u + net_delta rd dp u [e] \<and>
    (map_of (score_event cfg e m) u = None \<longleftrightarrow> map_of m u = None \<and> \<not> touches u [e])"
proof (cases "env_set (evAddress e)")
  case None
  then have "score_event cfg e m = m" by (simp add: score_event_def add_delta_def)
  with assms None show ?thesis by (simp add: net_delta_def touches_def earns_def loses_def)
next
  case (Some a)
  have add: "add_delta (evAddress e) (Some d) m = js_map_set a (Some (delta_at m a + d)) m" for d
    by (rule add_delta_int [OF assms(1) Some])
  show ?thesis
    using assms int_deltas_set [OF assms(1) env_set_not_Nil [OF Some]]
    by (auto simp: score_event_def add net_delta_def touches_def earns_def loses_def Some delta_at_def)
qed

lemma fold_score_events:
  assumes "int_deltas m" "repaymentDelta cfg = Some rd" "defaultPenalty cfg = Some dp"
  shows "int_deltas (fold (score_event cfg) es m) \<and>
    delta_at (fold (score_event cfg) es m) u = delta_at m u + net_delta rd dp u es \<and>
    (map_of (fold (score_event cfg) es m) u = None \<longleftrightarrow> map_of m u = None \<and> \<not> touches u es)"
  using assms(1)
proof (induction es arbitrary: m)
  case Nil
  then show ?case by (simp add: net_delta_def touches_def)
next
  case (Cons e es)
  note se = score_event_int [OF Cons.prems assms(2,3), of e]
  have "net_delta rd dp u (e # es) = net_delta rd dp u [e] + net_delta rd dp u es"
    by (simp add: net_delta_def algebra_simps)
  moreover have "touches u (e # es) \<longleftrightarrow> touches u [e] \<or> touches u es" by (simp add: touches_def)
  ultimately show ?case using Cons.IH [of "score_event cfg e m"] se [of u] by auto
qed

lemma int_deltas_Nil [simp]: "int_deltas []" by (simp add: int_deltas_def)

text \<open>What the bulk update does with such a map.\<close>

lemma bulk_deltas:
  assumes "int_deltas m"
    and "updateUserScoresBulk R srv True (map (\<lambda>(a, d). (a, the d)) m) sc = (r, sc')"
  shows "is_ok r \<and> map_of (scores sc') u =
    (if map_of m u = None then map_of (scores sc) u
     else Some (delta_score (map_of (scores sc) u) (delta_at m u)))"
proof -
  let ?m = "map (\<lambda>(a, d). (a, the d)) m"
  have fst: "map fst ?m = map fst m" by (induction m) auto
  have d: "distinct (map fst ?m)" using assms(1) unfolding fst by (simp add: int_deltas_def)
  have f: "filter (\<lambda>(userId, delta). userId \<noteq> []) ?m = ?m"
    using assms(1) by (auto simp: int_deltas_def filter_id_conv)
  have mo: "map_of ?m u = map_option the (map_of m u)" by (induction m) auto
  have da: "map_of m u \<noteq> None \<Longrightarrow> delta_at m u = the (the (map_of m u))"
    using assms(1) by (auto simp: delta_at_def int_deltas_def dest!: map_of_SomeD split: option.splits)
  show ?thesis
  proof (cases "m = []")
    case True
    then show ?thesis using assms(2) by (auto simp: updateUserScoresBulk_def)
  next
    case False
    then have "r = Inr ()" "scores sc' = fold upsert_delta ?m (scores sc)"
      using assms(2) by (auto simp: updateUserScoresBulk_def f)
    then show ?thesis
      using fold_upsert_delta [OF d, of "scores sc" u] mo da by (auto split: option.splits)
  qed
qed

lemma tx_attempt_free:
  assumes "statements_left t = None" "\<forall>e \<in> set es. row_of E e \<noteq> None" "int_deltas (scoreUpdates t)"
    and cfg: "repaymentDelta (score_config E) = Some rd" "defaultPenalty (score_config E) = Some dp"
  shows "\<exists>t' sc'. tx_attempt E F es t sc = (t', None, sc') \<and>
    insertedEvents t' = insertedEvents t @ fresh E es (tx_rows t) \<and>
    scoreUpdates t' = fold (score_event (score_config E)) (fresh E es (tx_rows t)) (scoreUpdates t) \<and>
    (\<forall>u. map_of (scores sc') u =
       (if map_of (scoreUpdates t') u = None then map_of (scores sc) u
        else Some (delta_score (map_of (scores sc) u) (delta_at (scoreUpdates t') u))))"
proof -
  let ?new = "fresh E es (tx_rows t)"
  let ?m = "fold (score_event (score_config E)) ?new (scoreUpdates t)"
  obtain rows as where ev: "tx_events E es t = (t\<lparr>tx_rows := rows, tx_audits := as,
      insertedEvents := insertedEvents t @ ?new, scoreUpdates := ?m\<rparr>, None)"
    using tx_events_free [OF assms(1,2)] by blast
  let ?t1 = "t\<lparr>tx_rows := rows, tx_audits := as, insertedEvents := insertedEvents t @ ?new, scoreUpdates := ?m\<rparr>"
  have im: "int_deltas ?m" using fold_score_events [OF assms(3) cfg] by blast
  show ?thesis
  proof (cases "?m = []")
    case True
    have "tx_attempt E F es t sc = (?t1, None, sc)"
      using assms(1) by (simp add: tx_attempt_def ev tx_scores_def True)
    then show ?thesis using True by force
  next
    case False
    obtain r sc' where b: "updateUserScoresBulk (redis_api E) (redis_srv F) True
        (map (\<lambda>(a, d). (a, the d)) ?m) sc = (r, sc')" by fastforce
    note bulk = bulk_deltas [OF im b]
    have "\<not> list_ex (\<lambda>p. snd p = None) ?m"
      using im unfolding int_deltas_def list_ex_iff by fastforce
    moreover obtain x where "r = Inr x" using bulk by (cases r) auto
    ultimately have "tx_attempt E F es t sc = (?t1, None, sc')"
      using assms(1) False by (simp add: tx_attempt_def ev tx_scores_def b)
    then show ?thesis using bulk by force
  qed
qed

section \<open>Announcements\<close>

definition dispatched :: "emission list \<Rightarrow> contract_event list" where
  "dispatched xs = List.map_filter (\<lambda>x. case x of Dispatched e \<Rightarrow> Some e | _ \<Rightarrow> None) xs"

lemma dispatched_append [simp]: "dispatched (xs @ ys) = dispatched xs @ dispatched ys"
  by (simp add: dispatched_def map_filter_def)

lemma dispatched_simps [simp]:
  "dispatched [] = []" "dispatched (Dispatched e # xs) = e # dispatched xs"
  "dispatched (Broadcast e d # xs) = dispatched xs" "dispatched (Notified n # xs) = dispatched xs"
  by (simp_all add: dispatched_def map_filter_simps)

lemma pause_event_emitted [simp]: "pause_event E F e s = (r, s') \<Longrightarrow> emitted s' = emitted s"
  by (auto simp: pause_event_def split: if_splits prod.splits)

lemma post_commit_dispatched:
  "post_commit E F es s = (Inr u, s') \<Longrightarrow> dispatched (emitted s') = dispatched (emitted s) @ es"
proof (induction es arbitrary: s)
  case (Cons e es)
  then show ?case
    by (fastforce simp: Let_def emit_def split: sum.splits prod.splits option.splits)
qed simp

lemma parsed_phase_store:
  assumes "storeEvents E F evs s = (r, s')" "parsed_of E evs \<noteq> []"
  obtains s2 where "same_tables s s2" "scoring s2 = scoring s"
    and "\<And>x s3. withTransaction 3 0 E F (parsed_of E evs) [] [] s2 = (Inr x, s3) \<Longrightarrow>
      scoring s' = scoring s3 \<and> contract_events s' = contract_events s3 \<and>
      (\<forall>n. r = Inr n \<longrightarrow> dispatched (emitted s') = dispatched (emitted s3) @ x \<and> n = length x)"
    and "\<And>err s3. withTransaction 3 0 E F (parsed_of E evs) [] [] s2 = (Inl err, s3) \<Longrightarrow> \<not> is_ok r \<and> s' = s3"
proof -
  obtain es n s1 where p: "parse_batch E F evs s = (es, n, s1)" by (metis prod_cases3)
  define s2 where "s2 = (if n > 0 then logQuarantineGrowth E F s1 else s1)"
  note ph = parse_phase [OF p s2_def]
  have st: "(case withTransaction 3 0 E F (parsed_of E evs) [] [] s2 of
                   (Inl err, s3) \<Rightarrow> (Inl err, s3)
                 | (Inr inserted, s3) \<Rightarrow>
                     (case post_commit E F inserted s3 of
                        (Inl err, s4) \<Rightarrow> (Inl err, s4)
                      | (Inr _, s4) \<Rightarrow> (Inr (length inserted), s4))) = (r, s')"
    using assms p ph by (simp add: storeEvents_def s2_def [symmetric])
  show ?thesis
  proof (rule that [of s2])
    show "same_tables s s2" "scoring s2 = scoring s" using ph by auto
    show "\<not> is_ok r \<and> s' = s3"
      if "withTransaction 3 0 E F (parsed_of E evs) [] [] s2 = (Inl err, s3)" for err s3
      using st that by auto
    show "scoring s' = scoring s3 \<and> contract_events s' = contract_events s3 \<and>
        (\<forall>n. r = Inr n \<longrightarrow> dispatched (emitted s') = dispatched (emitted s3) @ x \<and> n = length x)"
      if w: "withTransaction 3 0 E F (parsed_of E evs) [] [] s2 = (Inr x, s3)" for x s3
    proof (cases "post_commit E F x s3")
      case (Pair res s4)
      then show ?thesis using st w post_commit_keeps [OF Pair]
        by (cases res) (auto dest: post_commit_dispatched)
    qed
  qed
qed

lemma tx_attempt_again:
  assumes "\<forall>e \<in> set es. stored E (tx_rows t) e" "scoreUpdates t = []" "tx_attempt E F es t sc = (t', err, sc')"
  shows "tx_rows t' = tx_rows t \<and> tx_audits t' = tx_audits t \<and> insertedEvents t' = insertedEvents t \<and>
    scoreUpdates t' = [] \<and> sc' = sc"
proof -
  obtain t1 err1 where t1: "tx_events E es t = (t1, err1)" by fastforce
  have same: "tx_rows t1 = tx_rows t \<and> tx_audits t1 = tx_audits t \<and> insertedEvents t1 = insertedEvents t \<and>
    scoreUpdates t1 = []"
    using tx_events_again [OF assms(1) t1] assms(2) by simp
  show ?thesis
    using assms(3) same
    by (auto simp: tx_attempt_def t1 tx_scores_def split: option.splits dest!: spend_fields)
qed

lemma withTransaction_again:
  assumes "\<forall>e \<in> set es. stored E (contract_events s) e"
    "withTransaction retries att E F es [] [] s = (r, s')"
  shows "same_tables s s' \<and> (\<forall>x. r = Inr x \<longrightarrow> x = [])"
  using assms
proof (induction retries arbitrary: att s)
  case 0
  then show ?case
    by (subst (asm) withTransaction.simps)
       (auto simp: Let_def same_tables_def split: prod.splits option.splits dest!: tx_attempt_again [rotated 2])
next
  case (Suc n)
  obtain t err sc where a: "tx_attempt E F es
      \<lparr>tx_rows = contract_events s, tx_audits = audit_logs s, insertedEvents = [],
       scoreUpdates = [], statements_left = map_option fst (tx_fault F att)\<rparr> (scoring s) = (t, err, sc)"
    by (metis prod_cases3)
  have same: "tx_rows t = contract_events s \<and> tx_audits t = audit_logs s \<and> insertedEvents t = [] \<and>
      scoreUpdates t = [] \<and> sc = scoring s"
    using tx_attempt_again [OF _ _ a] Suc.prems(1) by simp
  show ?case
    using Suc.prems(2) Suc.IH [of s "att + 1"] Suc.prems(1) same
    by (subst (asm) withTransaction.simps)
       (auto simp: a Let_def same_tables_def split: option.splits if_splits)
qed

lemma same_tables_trans: "same_tables a b \<Longrightarrow> same_tables b c \<Longrightarrow> same_tables a c"
  by (simp add: same_tables_def)

lemma store_again:
  assumes "storeEvents E F evs s = (r, s')" "\<forall>e \<in> set (parsed_of E evs). stored E (contract_events s) e"
  shows "same_tables s s' \<and> (\<forall>n. r = Inr n \<longrightarrow> n = 0)"
proof -
  obtain es n s1 where p: "parse_batch E F evs s = (es, n, s1)" by (metis prod_cases3)
  define s2 where "s2 = (if n > 0 then logQuarantineGrowth E F s1 else s1)"
  note ph = parse_phase [OF p s2_def]
  show ?thesis
  proof (cases "es = []")
    case True
    then show ?thesis using assms p ph by (auto simp: storeEvents_def s2_def [symmetric])
  next
    case False
    obtain res s3 where w: "withTransaction 3 0 E F es [] [] s2 = (res, s3)" by fastforce
    have "\<forall>e \<in> set es. stored E (contract_events s2) e" using assms(2) ph by (simp add: same_tables_def)
    note wa = withTransaction_again [OF this w]
    have t: "same_tables s s3" using wa ph same_tables_trans by blast
    show ?thesis
    proof (cases res)
      case (Inl err)
      then show ?thesis using assms(1) p w t False by (auto simp: storeEvents_def s2_def [symmetric])
    next
      case (Inr x)
      then have "x = []" using wa by simp
      then show ?thesis using assms(1) p w Inr t False
        by (auto simp: storeEvents_def s2_def [symmetric])
    qed
  qed
qed

lemma store_nothing:
  assumes "storeEvents E F evs s = (r, s')" "parsed_of E evs = []"
  shows "same_tables s s' \<and> scoring s' = scoring s \<and> (\<forall>n. r = Inr n \<longrightarrow> n = 0)"
proof -
  obtain es n s1 where p: "parse_batch E F evs s = (es, n, s1)" by (metis prod_cases3)
  define s2 where "s2 = (if n > 0 then logQuarantineGrowth E F s1 else s1)"
  show ?thesis
    using assms p parse_phase [OF p s2_def] by (auto simp: storeEvents_def s2_def [symmetric])
qed

lemma commit_first:
  assumes "withTransaction (Suc n) 0 E F es [] [] s = (r, s')" "tx_fault F 0 = None"
    and "\<forall>e \<in> set es. row_of E e \<noteq> None"
    and cfg: "repaymentDelta (score_config E) = Some rd" "defaultPenalty (score_config E) = Some dp"
  shows "r = Inr (fresh E es (contract_events s)) \<and> emitted s' = emitted s \<and>
    map_of (scores (scoring s')) u =
      (if touches u (fresh E es (contract_events s))
       then Some (delta_score (map_of (scores (scoring s)) u)
              (net_delta rd dp u (fresh E es (contract_events s))))
       else map_of (scores (scoring s)) u)"
proof -
  let ?t = "\<lparr>tx_rows = contract_events s, tx_audits = audit_logs s, insertedEvents = [],
       scoreUpdates = [], statements_left = map_option fst (tx_fault F 0)\<rparr>"
  let ?new = "fresh E es (contract_events s)"
  obtain t' sc' where a: "tx_attempt E F es ?t (scoring s) = (t', None, sc')"
    and t': "insertedEvents t' = ?new" "scoreUpdates t' = fold (score_event (score_config E)) ?new []"
    and sc: "\<forall>u. map_of (scores sc') u =
       (if map_of (scoreUpdates t') u = None then map_of (scores (scoring s)) u
        else Some (delta_score (map_of (scores (scoring s)) u) (delta_at (scoreUpdates t') u)))"
    using tx_attempt_free [of ?t es E rd dp F "scoring s"] assms(2,3) cfg by auto
  have "delta_at (scoreUpdates t') u = net_delta rd dp u ?new"
    "map_of (scoreUpdates t') u = None \<longleftrightarrow> \<not> touches u ?new"
    using fold_score_events [OF int_deltas_Nil cfg, of ?new u] unfolding t' by (simp_all add: delta_at_def)
  with sc have fin: "map_of (scores sc') u =
      (if touches u ?new then Some (delta_score (map_of (scores (scoring s)) u) (net_delta rd dp u ?new))
       else map_of (scores (scoring s)) u)" by auto
  show ?thesis
    using assms(1) t'(1) fin by (subst (asm) withTransaction.simps) (auto simp: a)
qed

section \<open>Properties\<close>

text \<open>(C1) Storing a batch is all or nothing and can be repeated. Either every event of the batch that
  can be parsed is in the table afterwards, or the call fails and the events, the audit log, the scores
  and the announcements are as before, whatever statement the database failed at and however often the
  transaction was retried. After a success, storing the batch again, as a poll after a crash does,
  inserts nothing, moves no score and announces nothing.\<close>

theorem store_batch_atomic_idempotent:
  assumes "storeEvents E F evs s = (r, s')"
  shows "((\<forall>ev \<in> set evs. \<forall>e. parseEvent (codec E) ev = Inr (Some e) \<longrightarrow> stored E (contract_events s') e) \<or>
          (\<not> is_ok r \<and> same_tables s s')) \<and>
    (is_ok r \<longrightarrow> same_tables s' (snd (storeEvents E F2 evs s')) \<and>
       (\<forall>n. fst (storeEvents E F2 evs s') = Inr n \<longrightarrow> n = 0))"
proof -
  have 1: "(\<forall>ev \<in> set evs. \<forall>e. parseEvent (codec E) ev = Inr (Some e) \<longrightarrow> stored E (contract_events s') e) \<or>
          (\<not> is_ok r \<and> same_tables s s')"
    using storeEvents_cases [OF assms] by (auto simp: in_parsed_of split: if_splits)
  have "same_tables s' s'' \<and> (\<forall>n. r2 = Inr n \<longrightarrow> n = 0)"
    if ok: "is_ok r" and st: "storeEvents E F2 evs s' = (r2, s'')" for r2 s''
  proof -
    have all: "\<forall>e \<in> set (parsed_of E evs). stored E (contract_events s') e"
      using storeEvents_cases [OF assms] ok by (auto split: if_splits)
    show ?thesis using st all by (rule store_again)
  qed
  with 1 show ?thesis by (metis prod.collapse)
qed


text \<open>The variables that the transaction body fills are not reset when the transaction is retried.
  When \<open>COMMIT\<close> fails once with a transient error after a new repayment was inserted, the second attempt
  adds the repayment delta again: the borrower's score moves by twice the delta and the event is
  announced twice.\<close>

theorem retried_commit_counts_twice:
  assumes "parseEvent (codec E) ev = Inr (Some e)" "evType e = ''LoanRepaid''" "env_set (evAddress e) = Some u"
    and "row_of E e = Some row" "\<not> list_ex (conflicts row) (contract_events s)"
    and "repaymentDelta (score_config E) = Some rd" "defaultPenalty (score_config E) = Some dp"
    and "tx_fault F 0 = Some (2, True)" "tx_fault F 1 = None"
    and "storeEvents E F [ev] s = (r, s')"
  shows "map_of (scores (scoring s')) u = Some (delta_score (map_of (scores (scoring s)) u) (2 * rd)) \<and>
    (\<forall>n. r = Inr n \<longrightarrow> n = 2 \<and> dispatched (emitted s') = dispatched (emitted s) @ [e, e])"
proof -
  have pe: "parsed_of E [ev] = [e]" by (simp add: parsed_of_def map_filter_simps assms(1))
  then have ne: "parsed_of E [ev] \<noteq> []" by simp
  obtain s2 where s2: "same_tables s s2" "scoring s2 = scoring s"
    and ok: "\<And>x s3. withTransaction 3 0 E F [e] [] [] s2 = (Inr x, s3) \<Longrightarrow>
      scoring s' = scoring s3 \<and> contract_events s' = contract_events s3 \<and>
      (\<forall>n. r = Inr n \<longrightarrow> dispatched (emitted s') = dispatched (emitted s3) @ x \<and> n = length x)"
    using parsed_phase_store [OF assms(10) ne, unfolded pe] by metis
  let ?t = "\<lambda>s ins upd n. \<lparr>tx_rows = contract_events s, tx_audits = audit_logs s, insertedEvents = ins,
       scoreUpdates = upd, statements_left = n\<rparr>"
  have nr: "\<not> list_ex (conflicts row) (contract_events s2)" using assms(5) s2 by (simp add: same_tables_def)
  have na: "\<not> isAdminConfigEventType (evType e)"
    by (simp add: assms(2) isAdminConfigEventType_def ADMIN_CONFIG_EVENT_TYPES_def)
  have u: "u \<noteq> []" using assms(3) by (rule env_set_not_Nil)
  have sp: "spend (?t s2 [] [] (Some 2)) = Some (?t s2 [] [] (Some 1))"
    by (simp add: spend_def numeral_2_eq_2)
  let ?t3 = "\<lparr>tx_rows = contract_events s2 @ [row], tx_audits = audit_logs s2, insertedEvents = [e],
       scoreUpdates = [(u, Some rd)], statements_left = Some 1\<rparr>"
  have se: "score_event (score_config E) e [] = [(u, Some rd)]"
    by (simp add: score_event_def add_delta_def assms(2,3,6))
  have ev: "tx_event E e (?t s2 [] [] (Some 2)) = (?t3, None)"
    using nr na by (simp add: tx_event_def sp assms(2,4) insert_event_def Let_def audit_event_def se)
  have sp3: "spend ?t3 = Some (?t3\<lparr>statements_left := Some 0\<rparr>)" by (simp add: spend_def)
  have first: "\<exists>t sc. tx_attempt E F [e] (?t s2 [] [] (Some 2)) (scoring s2) = (t, Some Fault, sc) \<and>
      insertedEvents t = [e] \<and> scoreUpdates t = [(u, Some rd)]"
  proof -
    have idl: "int_deltas [(u, Some rd)]" using u by (simp add: int_deltas_def)
    obtain x sc1 where "updateUserScoresBulk (redis_api E) (redis_srv F) True [(u, rd)] (scoring s2) = (Inr x, sc1)"
    proof (cases "updateUserScoresBulk (redis_api E) (redis_srv F) True [(u, rd)] (scoring s2)")
      case (Pair res sc1)
      then have "is_ok res" using bulk_deltas [OF idl, of "redis_api E" "redis_srv F"] by force
      then show ?thesis using Pair that by (auto elim: is_okE)
    qed
    then show ?thesis by (simp add: tx_attempt_def ev tx_scores_def sp3) (simp add: spend_def)
  qed
  then obtain t sc where a: "tx_attempt E F [e] (?t s2 [] [] (Some 2)) (scoring s2) = (t, Some Fault, sc)"
    and t: "insertedEvents t = [e]" "scoreUpdates t = [(u, Some rd)]" by blast
  let ?s3 = "s2\<lparr>scoring := (scoring s2)\<lparr>score_cache := score_cache sc\<rparr>\<rparr>"
  have idl: "int_deltas [(u, Some rd)]" using u by (simp add: int_deltas_def)
  obtain t2 sc2 where b: "tx_attempt E F [e] (?t ?s3 [e] [(u, Some rd)] None) (scoring ?s3) = (t2, None, sc2)"
    and t2: "insertedEvents t2 = [e] @ fresh E [e] (contract_events s2)"
      "scoreUpdates t2 = fold (score_event (score_config E)) (fresh E [e] (contract_events s2)) [(u, Some rd)]"
    and sc2: "map_of (scores sc2) u =
       (if map_of (scoreUpdates t2) u = None then map_of (scores (scoring s2)) u
        else Some (delta_score (map_of (scores (scoring s2)) u) (delta_at (scoreUpdates t2) u)))"
    using tx_attempt_free [of "?t ?s3 [e] [(u, Some rd)] None" "[e]" E rd dp F "scoring ?s3"] idl assms(4,6,7)
    by auto
  have fr: "fresh E [e] (contract_events s2) = [e]" using assms(4) nr by simp
  have "scoreUpdates t2 = [(u, Some (rd + rd))]"
    unfolding t2 fr using u by (simp add: score_event_def add_delta_def assms(2,3,6))
  then have sc2': "map_of (scores sc2) u = Some (delta_score (map_of (scores (scoring s)) u) (2 * rd))"
    using sc2 s2 by (simp add: delta_at_def)
  have "withTransaction 2 1 E F [e] [e] [(u, Some rd)] ?s3 =
      (Inr [e, e], ?s3\<lparr>contract_events := tx_rows t2, audit_logs := tx_audits t2, scoring := sc2\<rparr>)"
    using b t2(1) fr assms(9) by (subst withTransaction.simps) simp
  then have "withTransaction 3 0 E F [e] [] [] s2 =
      (Inr [e, e], ?s3\<lparr>contract_events := tx_rows t2, audit_logs := tx_audits t2, scoring := sc2\<rparr>)"
    using a t by (subst withTransaction.simps) (simp add: assms(8) numeral_3_eq_3 numeral_2_eq_2)
  from ok [OF this] sc2' s2 show ?thesis by (auto simp: same_tables_def)
qed

definition plain_amount_types :: "string list" where
  "plain_amount_types =
     [''LoanRequested'', ''LoanRepaid'', ''CollateralLiquidated'', ''LateFeeCharged'', ''CollateralReturned'',
      ''YieldDistributed'', ''CollateralDeposited'', ''NFTMinted'', ''ScoreUpdated'']"

lemma parse_fields_amount:
  "parse_fields C ''LoanRequested'' ev = parse_LoanRequested C ev"
  "parse_fields C ''LoanRepaid'' ev = parse_LoanRepaid C ev"
  "parse_fields C ''CollateralLiquidated'' ev = parse_CollateralLiquidated C ev"
  "parse_fields C ''LateFeeCharged'' ev = parse_LateFeeCharged C ev"
  "parse_fields C ''CollateralReturned'' ev = parse_CollateralReturned C ev"
  "parse_fields C ''YieldDistributed'' ev = parse_token_event C ''YieldDistributed'' ev"
  "parse_fields C ''CollateralDeposited'' ev = parse_collateral C ''CollateralDeposited'' ev"
  "parse_fields C ''NFTMinted'' ev = parse_nft C ''NFTMinted'' ev"
  "parse_fields C ''ScoreUpdated'' ev = parse_nft C ''ScoreUpdated'' ev"
  by (simp_all add: parse_fields_def)

lemma plain_amount_branches:
  "parse_LoanRequested C ev = Inr (Some d) \<Longrightarrow> \<exists>m. decodeAmount C (rawValue ev) = Inr m \<and> evAmount d = Some m"
  "parse_LoanRepaid C ev = Inr (Some d) \<Longrightarrow> \<exists>m. decodeAmount C (rawValue ev) = Inr m \<and> evAmount d = Some m"
  "parse_CollateralLiquidated C ev = Inr (Some d) \<Longrightarrow> \<exists>m. decodeAmount C (rawValue ev) = Inr m \<and> evAmount d = Some m"
  "parse_LateFeeCharged C ev = Inr (Some d) \<Longrightarrow> \<exists>m. decodeAmount C (rawValue ev) = Inr m \<and> evAmount d = Some m"
  "parse_CollateralReturned C ev = Inr (Some d) \<Longrightarrow> \<exists>m. decodeAmount C (rawValue ev) = Inr m \<and> evAmount d = Some m"
  "parse_token_event C ''YieldDistributed'' ev = Inr (Some d) \<Longrightarrow>
     \<exists>m. decodeAmount C (rawValue ev) = Inr m \<and> evAmount d = Some m"
  "parse_collateral C ''CollateralDeposited'' ev = Inr (Some d) \<Longrightarrow>
     \<exists>m. decodeAmount C (rawValue ev) = Inr m \<and> evAmount d = Some m"
  "parse_nft C ''NFTMinted'' ev = Inr (Some d) \<Longrightarrow> \<exists>m. decodeAmount C (rawValue ev) = Inr m \<and> evAmount d = Some m"
  "parse_nft C ''ScoreUpdated'' ev = Inr (Some d) \<Longrightarrow> \<exists>m. decodeAmount C (rawValue ev) = Inr m \<and> evAmount d = Some m"
  by (auto simp: and_then_eq_Inr with_topic_def undecoded_def parse_LoanRequested_def parse_LoanRepaid_def
      parse_CollateralLiquidated_def parse_LateFeeCharged_def parse_CollateralReturned_def
      parse_token_event_def parse_collateral_def parse_nft_def split: option.splits)

lemma plain_amount_parsed:
  assumes "ty \<in> set plain_amount_types" "parse_fields C ty ev = Inr (Some d)"
  shows "\<exists>m. decodeAmount C (rawValue ev) = Inr m \<and> evAmount d = Some m"
  using assms(1) assms(2) plain_amount_branches [of C ev d] parse_fields_amount [of C ev]
  unfolding plain_amount_types_def set_simps by (elim insertE emptyE; metis)

text \<open>An amount of the chain reaches the table and the clients exactly: whenever an event of a kind with
  a plain amount is parsed, its value is an integer, the parsed amount is the decimal text of that integer,
  and the amount displayed to the clients converts back to the same number of stroops. An event of such a
  kind with any other value is never stored.\<close>

theorem event_amounts_exact:
  assumes "decodeEventType C (topic_at 0 ev) = Some ty" "ty \<in> set plain_amount_types"
    and "scValToNative C (rawValue ev) = Inr v" "parseEvent C ev = Inr (Some e)"
  shows "\<exists>n d. v \<in> {NBigInt n, NNumber n} \<and> evAmount e = Some (show_int n) \<and>
    amount_display e = Inr (Some d) \<and> toStroops d mode = Inr n"
proof -
  obtain d where d: "parse_fields C ty ev = Inr (Some d)" "evAmount e = evAmount d"
    using assms(1,4) by (auto simp: parseEvent_def and_then_eq_Inr split: option.splits)
  obtain m where m: "decodeAmount C (rawValue ev) = Inr m" "evAmount e = Some m"
    using plain_amount_parsed [OF assms(2) d(1)] d(2) by auto
  obtain n where n: "v \<in> {NBigInt n, NNumber n}" "m = show_int n"
    using m(1) assms(3) by (auto simp: decodeAmount_def split: native.splits)
  have "amount_display e = Inr (Some (fromStroops n))"
    by (simp add: amount_display_def m(2) n(2) js_BigInt_show_int)
  then show ?thesis using m(2) n toStroops_fromStroops by blast
qed

text \<open>A seizure of collateral is never attributed to a borrower: the parsed event has no address,
  so the penalty that \<open>storeEvents\<close> has for it moves no score and the notification that
  \<open>triggerNotification\<close> has for it is never sent.\<close>

theorem liquidation_without_borrower:
  assumes "parseEvent C ev = Inr (Some e)" "evType e = ''CollateralLiquidated''"
  shows "evAddress e = None \<and> score_event cfg e m = m \<and> triggerNotification e = None"
proof -
  have "evAddress e = None"
    using assms
    by (auto simp: parseEvent_def and_then_eq_Inr parse_fields_def parse_CollateralLiquidated_def with_topic_def
        undecoded_def split: option.splits)
  then show ?thesis by (simp add: score_event_def add_delta_def triggerNotification_def env_set_def)
qed

section \<open>A concrete repayment\<close>

definition native_codec :: "native codec" where
  "native_codec = \<lparr>sym = (\<lambda>v. case v of NStr s \<Rightarrow> Some s | _ \<Rightarrow> None), scValToNative = Inr,
     toXDR = (\<lambda>v. Inr ''AAAA'')\<rparr>"

definition demo_env :: "(native, mem_state) idx_env" where
  "demo_env = \<lparr>codec = native_codec, numeric_in = js_BigInt, text_array_in = (\<lambda>s. None),
     redis_api = mem_redis,
     score_config = \<lparr>repaymentDelta = Some 15, defaultPenalty = Some 50, latePenalty = Some 5\<rparr>,
     quarantineAlertThreshold = 25\<rparr>"

definition calm :: faults where
  "calm = \<lparr>now_ms = 0, redis_srv = Up, quarantine_up = True, pause_up = True, tx_fault = (\<lambda>_. None)\<rparr>"

definition unlucky :: faults where
  "unlucky = calm\<lparr>tx_fault := (\<lambda>n. if n = 0 then Some (2, True) else None)\<rparr>"

definition repayment :: "native raw_event" where
  "repayment = \<lparr>rawId = ''e1'', pagingToken = ''p1'',
     topic = [NStr ''LoanRepaid'', NStr ''GA'', NNumber 7], rawValue = NBigInt 500, rawLedger = 3,
     rawClosedAt = 0, rawTxHash = ''t'', rawContract = ''CA''\<rparr>"

definition empty_idx :: "mem_state idx" where
  "empty_idx = \<lparr>contract_events = [], audit_logs = [], quarantine_events = [],
     scoring = \<lparr>scores = [(''GA'', 600)], score_cache = \<lparr>client = (\<lambda>_. None), isConnected = True\<rparr>\<rparr>,
     pausing = start_state, indexer_state = [], ledger_checkpoints = [], emitted = [],
     lastObservedQuarantineCount = 0, alerts = 0\<rparr>"

definition repaid_event :: contract_event where
  "repaid_event = \<lparr>evLoanId = Some (Num 7), evAddress = Some ''GA'', evAmount = Some (show_int 500),
     evInterestRateBps = None, evTermLedgers = None, evBorrowerRefund = None, evId = ''e1'',
     evType = ''LoanRepaid'', evLedger = 3, evClosedAt = 0, evTxHash = ''t'', evContract = ''CA'',
     evTopics = [''AAAA'', ''AAAA'', ''AAAA''], evValue = ''AAAA'', evAdminAddress = None\<rparr>"

definition repaid_row :: event_row where
  "repaid_row = \<lparr>event_id = ''e1'', event_type = ''LoanRepaid'', loan_id = Some 7, address = Some ''GA'',
     amount = Some 500, ledger = 3, ledger_closed_at = 0, tx_hash = ''t'', contract_id = ''CA'',
     interest_rate_bps = None, term_ledgers = None\<rparr>"

lemma supported_LoanRepaid: "''LoanRepaid'' \<in> set SUPPORTED_WEBHOOK_EVENT_TYPES"
  by (simp add: SUPPORTED_WEBHOOK_EVENT_TYPES_def)

lemma repayment_type: "decodeEventType native_codec (topic_at 0 repayment) = Some ''LoanRepaid''"
  using supported_LoanRepaid
  by (simp add: decodeEventType_def topic_at_def repayment_def native_codec_def EVENT_TYPE_ALIASES_def)

lemma repayment_parsed: "parseEvent native_codec repayment = Inr (Some repaid_event)"
  unfolding parseEvent_def repayment_type
  by (simp add: parse_fields_def parse_LoanRepaid_def with_topic_def topic_at_def repayment_def native_codec_def
      decodeAddress_def decodeAmount_def decodeLoanId_def js_Number_def undecoded_def admin_address_def
      repaid_event_def)

lemma repaid_event_row: "row_of demo_env repaid_event = Some repaid_row"
  by (simp add: row_of_def repaid_event_def demo_env_def numeric_column_def js_BigInt_show_int int_column_def
      int4_def repaid_row_def)

lemma codec_demo [simp]: "codec demo_env = native_codec"
  by (simp add: demo_env_def)

lemma demo_config [simp]:
  "repaymentDelta (score_config demo_env) = Some 15" "defaultPenalty (score_config demo_env) = Some 50"
  "tx_fault calm n = None" "contract_events empty_idx = []" "scores (scoring empty_idx) = [(''GA'', 600)]"
  by (simp_all add: demo_env_def calm_def empty_idx_def)

lemma repayment_parsed_of: "parsed_of demo_env [repayment] = [repaid_event]"
  by (simp add: parsed_of_def map_filter_simps repayment_parsed)

lemma repayment_stored: "fst (storeEvents demo_env calm [repayment] empty_idx) = Inr 1"
proof -
  obtain res s3 where w: "withTransaction 3 0 demo_env calm [repaid_event] [] [] empty_idx = (res, s3)"
    by fastforce
  have "res = Inr (fresh demo_env [repaid_event] (contract_events empty_idx))"
    by (rule commit_first [OF w [unfolded numeral_3_eq_3], THEN conjunct1])
       (simp_all add: repaid_event_row)
  then have res: "res = Inr [repaid_event]" by (simp add: repaid_event_row)
  obtain s4 where pc: "post_commit demo_env calm [repaid_event] s3 = (Inr (), s4)"
    by (simp add: Let_def amount_display_def pause_event_def repaid_event_def js_BigInt_show_int)
  show ?thesis by (simp add: storeEvents_def repayment_parsed w res pc del: post_commit.simps)
qed

theorem store_batch_atomic_idempotent_witness:
  "same_tables (snd (storeEvents demo_env calm [repayment] empty_idx))
     (snd (storeEvents demo_env unlucky [repayment] (snd (storeEvents demo_env calm [repayment] empty_idx)))) \<and>
   stored demo_env (contract_events (snd (storeEvents demo_env calm [repayment] empty_idx))) repaid_event"
proof -
  obtain s' where st: "storeEvents demo_env calm [repayment] empty_idx = (Inr 1, s')"
    using repayment_stored by (metis prod.collapse)
  from store_batch_atomic_idempotent [OF st, of unlucky] show ?thesis
    by (simp add: st repayment_parsed prod.case_eq_if)
qed


theorem retried_commit_counts_twice_witness:
  "map_of (scores (scoring (snd (storeEvents demo_env unlucky [repayment] empty_idx)))) ''GA'' = Some 570"
proof -
  obtain r s' where st: "storeEvents demo_env unlucky [repayment] empty_idx = (r, s')" by fastforce
  have 1: "parseEvent (codec demo_env) repayment = Inr (Some repaid_event)" by (simp add: repayment_parsed)
  have 2: "evType repaid_event = ''LoanRepaid''" "env_set (evAddress repaid_event) = Some ''GA''"
    by (simp_all add: repaid_event_def env_set_def)
  have 3: "\<not> list_ex (conflicts repaid_row) (contract_events empty_idx)" by (simp add: empty_idx_def)
  have 4: "repaymentDelta (score_config demo_env) = Some 15" "defaultPenalty (score_config demo_env) = Some 50"
    by (simp_all add: demo_env_def)
  have 5: "tx_fault unlucky 0 = Some (2, True)" "tx_fault unlucky 1 = None" by (simp_all add: unlucky_def)
  from retried_commit_counts_twice [OF 1 2 repaid_event_row 3 4 5 st]
  show ?thesis by (simp add: st delta_score_def clamp_def)
qed

theorem event_amounts_exact_witness:
  "\<exists>n d. NBigInt 500 \<in> {NBigInt n, NNumber n} \<and> evAmount repaid_event = Some (show_int n) \<and>
    amount_display repaid_event = Inr (Some d) \<and> toStroops d HalfEven = Inr n"
proof -
  have "''LoanRepaid'' \<in> set plain_amount_types" by (simp add: plain_amount_types_def)
  moreover have "scValToNative native_codec (rawValue repayment) = Inr (NBigInt 500)"
    by (simp add: native_codec_def repayment_def)
  ultimately show ?thesis by (rule event_amounts_exact [OF repayment_type _ _ repayment_parsed])
qed

definition seizure :: "native raw_event" where
  "seizure = repayment\<lparr>topic := [NStr ''CollateralLiquidated'', NNumber 7]\<rparr>"

theorem liquidation_without_borrower_witness:
  "\<exists>e. parseEvent native_codec seizure = Inr (Some e) \<and> evType e = ''CollateralLiquidated'' \<and>
     triggerNotification e = None"
proof -
  have s: "''CollateralLiquidated'' \<in> set SUPPORTED_WEBHOOK_EVENT_TYPES"
    by (simp add: SUPPORTED_WEBHOOK_EVENT_TYPES_def)
  have ty: "decodeEventType native_codec (topic_at 0 seizure) = Some ''CollateralLiquidated''"
    using s by (simp add: decodeEventType_def topic_at_def seizure_def repayment_def native_codec_def
      EVENT_TYPE_ALIASES_def)
  have "\<exists>e. parseEvent native_codec seizure = Inr (Some e) \<and> evType e = ''CollateralLiquidated''"
    unfolding parseEvent_def ty
    by (simp add: parse_fields_def parse_CollateralLiquidated_def with_topic_def topic_at_def seizure_def
        repayment_def native_codec_def decodeAmount_def decodeLoanId_def)
  then show ?thesis using liquidation_without_borrower by blast
qed

end
