(* ===== verification/IndexerPoll.thy ===== *)
theory IndexerPoll
  imports IndexerStore
begin

text \<open>
  The polling loop of \<open>src/backend/src/services/eventIndexer.ts\<close>: fetching a range of ledgers page by
  page, processing it as a chunk, the cursor of each contract in \<open>indexer_state\<close> and the record of the
  scanned ranges in \<open>ledger_checkpoints\<close>, re-indexing, and the gate of \<open>ledgerCheckpoints.ts\<close>. The RPC
  server is the parameter \<open>get\<close>; a poll's own statements may fail from any point on (\<open>left\<close>
  counts the statements that still succeed).
\<close>

section \<open>Statements that may fail\<close>

type_synonym ('s, 'a) db = "'s idx \<Rightarrow> nat option \<Rightarrow> (http_error + 'a) \<times> 's idx \<times> nat option"

definition db_stmt :: "('s idx \<Rightarrow> 'a \<times> 's idx) \<Rightarrow> ('s, 'a) db" where
  "db_stmt f s left =
     (case left of
        Some 0 \<Rightarrow> (Inl (Thrown ''database error''), s, left)
      | Some (Suc n) \<Rightarrow> (case f s of (a, s') \<Rightarrow> (Inr a, s', Some n))
      | None \<Rightarrow> (case f s of (a, s') \<Rightarrow> (Inr a, s', None)))"

definition db_bind :: "('s, 'a) db \<Rightarrow> ('a \<Rightarrow> ('s, 'b) db) \<Rightarrow> ('s, 'b) db" where
  "db_bind m g s left =
     (case m s left of
        (Inl e, s', left') \<Rightarrow> (Inl e, s', left')
      | (Inr a, s', left') \<Rightarrow> g a s' left')"

definition db_return :: "'a \<Rightarrow> ('s, 'a) db" where
  "db_return a s left = (Inr a, s, left)"

section \<open>Fetching\<close>

text \<open>The pages of \<open>getEvents\<close>: the events and the next cursor, or a failure. The first argument bounds
  the number of calls; \<open>None\<close> is running out of it.\<close>

type_synonym 'v pages = "string option \<Rightarrow> http_error + 'v raw_event list \<times> string option"

fun fetch_pages ::
  "nat \<Rightarrow> 'v pages \<Rightarrow> int \<Rightarrow> int \<Rightarrow> string option \<Rightarrow> 'v raw_event list \<Rightarrow> (http_error + 'v raw_event list) option" where
  "fetch_pages 0 get a b cursor result = None"
| "fetch_pages (Suc n) get a b cursor result =
     (case get cursor of
        Inl e \<Rightarrow> Some (Inl e)
      | Inr (page, next) \<Rightarrow>
          (let events = filter (\<lambda>ev. rawLedger ev \<ge> a \<and> rawLedger ev \<le> b) page
           in if env_set next = None \<or> next = cursor \<or> events = [] then Some (Inr (result @ events))
              else fetch_pages n get a b next (result @ events)))"

type_synonym 'v rpc = "string \<Rightarrow> int \<Rightarrow> int \<Rightarrow> 'v pages"

definition fetchEventsInRange ::
  "nat \<Rightarrow> 'v rpc \<Rightarrow> int \<Rightarrow> int \<Rightarrow> string \<Rightarrow> (http_error + 'v raw_event list) option" where
  "fetchEventsInRange fuel getEvents startLedger endLedger contractId =
     map_option (map_sum id (sort_key rawLedger))
       (fetch_pages fuel (getEvents contractId startLedger endLedger) startLedger endLedger None [])"

record chunk_result =
  lastProcessedLedger :: int
  fetchedEvents :: nat
  insertedCount :: nat

definition processChunk ::
  "('v, 's) idx_env \<Rightarrow> nat \<Rightarrow> 'v rpc \<Rightarrow> faults \<Rightarrow> int \<Rightarrow> int \<Rightarrow> string \<Rightarrow> 's idx \<Rightarrow>
     ((http_error + chunk_result) \<times> 's idx) option" where
  "processChunk E fuel rpc F startLedger endLedger contractId s =
     (if endLedger < startLedger then
        Some (Inr \<lparr>lastProcessedLedger = max (startLedger - 1) 0, fetchedEvents = 0, insertedCount = 0\<rparr>, s)
      else
        (case fetchEventsInRange fuel rpc startLedger endLedger contractId of
           None \<Rightarrow> None
         | Some (Inl e) \<Rightarrow> Some (Inl e, s)
         | Some (Inr events) \<Rightarrow>
             (if events = [] then
                Some (Inr \<lparr>lastProcessedLedger = endLedger, fetchedEvents = 0, insertedCount = 0\<rparr>, s)
              else
                (case storeEvents E F events s of
                   (Inl e, s') \<Rightarrow> Some (Inl e, s')
                 | (Inr n, s') \<Rightarrow>
                     (let maxLedger = foldl (\<lambda>m ev. max m (rawLedger ev)) startLedger events
                      in Some (Inr \<lparr>lastProcessedLedger = max maxLedger endLedger,
                                 fetchedEvents = length events, insertedCount = n\<rparr>, s'))))))"

section \<open>Cursor and checkpoints\<close>

definition previous_end :: "string \<Rightarrow> checkpoint list \<Rightarrow> int option" where
  "previous_end c cps = sql_max (map (\<lambda>cp. Some (range_end cp)) (filter (\<lambda>cp. cpContract cp = c) cps))"

definition add_checkpoint :: "string \<Rightarrow> int \<Rightarrow> int \<Rightarrow> bool \<Rightarrow> ('s, unit) db" where
  "add_checkpoint c a b susp =
     (if b < a then (\<lambda>s left. (Inl (Thrown ''ledger_checkpoints_range_check''), s, left))
      else db_stmt (\<lambda>s. ((), s\<lparr>ledger_checkpoints := ledger_checkpoints s @
             [\<lparr>cpContract = c, range_start = a, range_end = b, suspect = susp\<rparr>]\<rparr>)))"

definition recordCheckpoint :: "string \<Rightarrow> int \<Rightarrow> int \<Rightarrow> ('s, unit) db" where
  "recordCheckpoint c rangeStart rangeEnd =
     db_bind (db_stmt (\<lambda>s. (previous_end c (ledger_checkpoints s), s))) (\<lambda>previousRangeEnd.
     db_bind (case previousRangeEnd of
                Some p \<Rightarrow> if rangeStart > p + 1 then add_checkpoint c (p + 1) (rangeStart - 1) True
                          else db_return ()
              | None \<Rightarrow> db_return ()) (\<lambda>_.
     add_checkpoint c rangeStart rangeEnd False))"

definition getSuspectRanges :: "string \<Rightarrow> 's idx \<Rightarrow> (int \<times> int) list" where
  "getSuspectRanges c s =
     map (\<lambda>cp. (range_start cp, range_end cp))
       (sort_key range_start (filter (\<lambda>cp. cpContract cp = c \<and> suspect cp) (ledger_checkpoints s)))"

text \<open>The gate of \<open>ledgerCheckpoints.ts\<close> fails open.\<close>

definition hasUnresolvedLedgerGaps :: "bool \<Rightarrow> string \<Rightarrow> checkpoint list \<Rightarrow> bool" where
  "hasUnresolvedLedgerGaps db_up c cps =
     (if db_up then list_ex (\<lambda>cp. cpContract cp = c \<and> suspect cp) cps else False)"

text \<open>\<open>None\<close> is a call that fails or answers no positive number.\<close>

definition getLatestLedgerSequence :: "int option \<Rightarrow> int" where
  "getLatestLedgerSequence answer = (case answer of None \<Rightarrow> 0 | Some n \<Rightarrow> if n > 0 then n else 0)"

definition getLastIndexedLedger :: "string \<Rightarrow> ('s, int) db" where
  "getLastIndexedLedger c =
     db_bind (db_stmt (\<lambda>s. (map_of (indexer_state s) c, s))) (\<lambda>row.
       case row of
         Some n \<Rightarrow> db_return n
       | None \<Rightarrow>
           db_bind (db_stmt (\<lambda>s. ((), s\<lparr>indexer_state := js_map_set c 0 (indexer_state s)\<rparr>)))
             (\<lambda>_. db_return 0))"

definition updateLastIndexedLedger :: "string \<Rightarrow> int \<Rightarrow> ('s, unit) db" where
  "updateLastIndexedLedger c l =
     db_bind (db_stmt (\<lambda>s.
       case map_of (indexer_state s) c of
         None \<Rightarrow> (False, s)
       | Some n \<Rightarrow> (True, s\<lparr>indexer_state := js_map_set c (max n l) (indexer_state s)\<rparr>))) (\<lambda>updated.
       if updated then db_return ()
       else db_stmt (\<lambda>s. ((), s\<lparr>indexer_state := js_map_set c l (indexer_state s)\<rparr>)))"

section \<open>Polling\<close>

definition poll_chunk ::
  "('v, 's) idx_env \<Rightarrow> nat \<Rightarrow> 'v rpc \<Rightarrow> faults \<Rightarrow> int \<Rightarrow> int \<Rightarrow> string \<Rightarrow> 's idx \<Rightarrow> nat option \<Rightarrow>
     ((http_error + unit) \<times> 's idx \<times> nat option) option" where
  "poll_chunk E fuel rpc F fromLedger toLedger c s left =
     (case processChunk E fuel rpc F fromLedger toLedger c s of
        None \<Rightarrow> None
      | Some (Inl e, s') \<Rightarrow> Some (Inl e, s', left)
      | Some (Inr r, s') \<Rightarrow>
          Some (db_bind (recordCheckpoint c fromLedger (lastProcessedLedger r))
            (\<lambda>_. updateLastIndexedLedger c (lastProcessedLedger r)) s' left))"

definition poll_contract ::
  "('v, 's) idx_env \<Rightarrow> nat \<Rightarrow> 'v rpc \<Rightarrow> faults \<Rightarrow> int \<Rightarrow> int \<Rightarrow> string \<Rightarrow> 's idx \<Rightarrow> nat option \<Rightarrow>
     ((http_error + unit) \<times> 's idx \<times> nat option) option" where
  "poll_contract E fuel rpc F batch latestLedger c s left =
     (case getLastIndexedLedger c s left of
        (Inl e, s1, left1) \<Rightarrow> Some (Inl e, s1, left1)
      | (Inr lastIndexedLedger, s1, left1) \<Rightarrow>
          (if latestLedger \<le> lastIndexedLedger then Some (Inr (), s1, left1)
           else
             (let fromLedger = lastIndexedLedger + 1;
                  toLedger = min (fromLedger + batch - 1) latestLedger
              in poll_chunk E fuel rpc F fromLedger toLedger c s1 left1)))"

text \<open>The environment of the storage may differ from contract to contract.\<close>

fun poll_contracts ::
  "('v, 's) idx_env \<Rightarrow> nat \<Rightarrow> 'v rpc \<Rightarrow> (string \<Rightarrow> faults) \<Rightarrow> int \<Rightarrow> int \<Rightarrow> string list \<Rightarrow> 's idx \<Rightarrow> nat option \<Rightarrow>
     ((http_error + unit) \<times> 's idx \<times> nat option) option" where
  "poll_contracts E fuel rpc F batch latest [] s left = Some (Inr (), s, left)"
| "poll_contracts E fuel rpc F batch latest (c # cs) s left =
     (case poll_contract E fuel rpc (F c) batch latest c s left of
        None \<Rightarrow> None
      | Some (Inl e, s', left') \<Rightarrow> Some (Inl e, s', left')
      | Some (Inr _, s', left') \<Rightarrow> poll_contracts E fuel rpc F batch latest cs s' left')"

definition pollOnce ::
  "('v, 's) idx_env \<Rightarrow> nat \<Rightarrow> 'v rpc \<Rightarrow> (string \<Rightarrow> faults) \<Rightarrow> int \<Rightarrow> string list \<Rightarrow> bool \<Rightarrow> int option \<Rightarrow>
     's idx \<Rightarrow> nat option \<Rightarrow> ((http_error + unit) \<times> 's idx \<times> nat option) option" where
  "pollOnce E fuel rpc F batch contractIds running answer s left =
     (if \<not> running then Some (Inr (), s, left)
      else
        (let latestLedger = getLatestLedgerSequence answer in
         if latestLedger = 0 then Some (Inr (), s, left)
         else poll_contracts E fuel rpc F batch latestLedger contractIds s left))"

record reindexed =
  totalFetched :: nat
  totalInserted :: nat
  lastReindexed :: int

text \<open>The loop of \<open>reindexRange\<close>, with a bound on its iterations.\<close>

fun reindex_loop ::
  "nat \<Rightarrow> ('v, 's) idx_env \<Rightarrow> nat \<Rightarrow> 'v rpc \<Rightarrow> faults \<Rightarrow> int \<Rightarrow> string \<Rightarrow> int \<Rightarrow> int \<Rightarrow> reindexed \<Rightarrow> 's idx \<Rightarrow>
     ((http_error + reindexed) \<times> 's idx) option" where
  "reindex_loop 0 E fuel rpc F batch c current toLedger acc s = None"
| "reindex_loop (Suc n) E fuel rpc F batch c current toLedger acc s =
     (if current \<le> toLedger then
        (let chunkEnd = min (current + batch - 1) toLedger in
         case processChunk E fuel rpc F current chunkEnd c s of
           None \<Rightarrow> None
         | Some (Inl e, s') \<Rightarrow> Some (Inl e, s')
         | Some (Inr r, s') \<Rightarrow>
             reindex_loop n E fuel rpc F batch c (chunkEnd + 1) toLedger
               \<lparr>totalFetched = totalFetched acc + fetchedEvents r,
                totalInserted = totalInserted acc + insertedCount r,
                lastReindexed = lastProcessedLedger r\<rparr> s')
      else Some (Inr acc, s))"

definition reindexRange ::
  "nat \<Rightarrow> ('v, 's) idx_env \<Rightarrow> nat \<Rightarrow> 'v rpc \<Rightarrow> faults \<Rightarrow> int \<Rightarrow> string \<Rightarrow> int \<Rightarrow> int \<Rightarrow> 's idx \<Rightarrow>
     ((http_error + reindexed) \<times> 's idx) option" where
  "reindexRange steps E fuel rpc F batch c fromLedger toLedger s =
     reindex_loop steps E fuel rpc F batch c fromLedger toLedger
       \<lparr>totalFetched = 0, totalInserted = 0, lastReindexed = fromLedger - 1\<rparr> s"

section \<open>A chain and the server in front of it\<close>

text \<open>The documented behaviour of \<open>getEvents\<close>: the events of the contract in the range, in the order of the chain,
  from the event after the cursor on and at most \<open>limit\<close> of them; the cursor returned is the paging
  token of the last event. A call may also fail.\<close>

definition matching :: "'v raw_event list \<Rightarrow> string \<Rightarrow> int \<Rightarrow> int \<Rightarrow> 'v raw_event list" where
  "matching ch c a b = filter (\<lambda>ev. rawContract ev = c \<and> a \<le> rawLedger ev \<and> rawLedger ev \<le> b) ch"

definition after_cursor :: "'v raw_event list \<Rightarrow> string option \<Rightarrow> 'v raw_event list" where
  "after_cursor evs cursor =
     (case cursor of None \<Rightarrow> evs | Some t \<Rightarrow> tl (dropWhile (\<lambda>ev. pagingToken ev \<noteq> t) evs))"

definition chain_page :: "nat \<Rightarrow> 'v raw_event list \<Rightarrow> string option \<Rightarrow> 'v raw_event list \<times> string option" where
  "chain_page limit evs cursor =
     (let page = take limit (after_cursor evs cursor)
      in (page, if page = [] then cursor else Some (pagingToken (last page))))"

definition serves :: "nat \<Rightarrow> 'v raw_event list \<Rightarrow> 'v rpc \<Rightarrow> bool" where
  "serves limit ch rpc \<longleftrightarrow>
     (\<forall>c a b cursor. (\<exists>e. rpc c a b cursor = Inl e) \<or>
        rpc c a b cursor = Inr (chain_page limit (matching ch c a b) cursor))"

definition wf_chain :: "'v raw_event list \<Rightarrow> int \<Rightarrow> bool" where
  "wf_chain ch l \<longleftrightarrow>
     distinct (map pagingToken ch) \<and> (\<forall>ev \<in> set ch. pagingToken ev \<noteq> [] \<and> 1 \<le> rawLedger ev \<and> rawLedger ev \<le> l)"

text \<open>Within \<open>length ch + 2\<close> calls the loop has seen every event of the range once, or failed.\<close>

lemma after_cursor_take:
  assumes "distinct (map pagingToken evs)" "0 < k" "k \<le> length evs"
  shows "after_cursor evs (Some (pagingToken (evs ! (k - 1)))) = drop k evs"
proof -
  let ?P = "\<lambda>ev. pagingToken ev \<noteq> pagingToken (evs ! (k - 1))"
  have split: "take (k - 1) evs @ evs ! (k - 1) # drop k evs = evs"
    using assms(2,3) id_take_nth_drop [of "k - 1" evs] by simp
  have "\<forall>x \<in> set (take (k - 1) evs). ?P x"
    using assms by (auto simp: in_set_conv_nth nth_eq_iff_index_eq distinct_conv_nth)
  then have "dropWhile ?P (take (k - 1) evs @ evs ! (k - 1) # drop k evs) = evs ! (k - 1) # drop k evs"
    by (subst dropWhile_append2) auto
  then show ?thesis unfolding split by (simp add: after_cursor_def)
qed

lemma fetch_pages_from:
  assumes srv: "serves limit ch rpc" "0 < limit" and wf: "wf_chain ch l"
    and evs: "evs = matching ch c a b" and k: "k \<le> length evs"
    and cur: "cursor = (if k = 0 then None else Some (pagingToken (evs ! (k - 1))))"
    and fuel: "length evs - k + 2 \<le> fuel"
  shows "\<exists>r. fetch_pages fuel (rpc c a b) a b cursor (take k evs) = Some r \<and> (\<forall>x. r = Inr x \<longrightarrow> x = evs)"
  using k cur fuel
proof (induction fuel arbitrary: k cursor)
  case 0
  then show ?case by simp
next
  case (Suc n)
  have d: "distinct (map pagingToken evs)"
    using wf unfolding wf_chain_def evs matching_def by (simp add: distinct_map_filter)
  have after: "after_cursor evs cursor = drop k evs"
    using after_cursor_take [OF d _ Suc.prems(1)] Suc.prems(2) by (auto simp: after_cursor_def)
  show ?case
  proof (cases "rpc c a b cursor")
    case (Inl e)
    then show ?thesis by simp
  next
    case (Inr res)
    then have page: "res = chain_page limit evs cursor"
      using srv(1) unfolding serves_def evs by (metis Inl_Inr_False Inr_inject)
    let ?page = "take limit (drop k evs)"
    have inr: "filter (\<lambda>ev. rawLedger ev \<ge> a \<and> rawLedger ev \<le> b) ?page = ?page"
      by (auto simp: filter_id_conv evs matching_def dest!: in_set_takeD in_set_dropD)
    show ?thesis
    proof (cases "k = length evs")
      case True
      then show ?thesis using Inr page by (simp add: chain_page_def after)
    next
      case False
      define k' where "k' = min (length evs) (k + limit)"
      have k': "k < k'" "k' \<le> length evs" using False Suc.prems(1) srv(2) by (auto simp: k'_def)
      have ne: "?page \<noteq> []" using False Suc.prems(1) srv(2) by simp
      have tk: "take k evs @ ?page = take k' evs"
        by (simp add: k'_def take_add min_def)
      have "length ?page = k' - k" using Suc.prems(1) by (auto simp: k'_def)
      then have lst: "last ?page = evs ! (k' - 1)"
        using ne k' by (simp add: last_conv_nth)
      let ?next = "Some (pagingToken (evs ! (k' - 1)))"
      have res: "res = (?page, ?next)" using ne lst by (simp add: page chain_page_def after)
      have "evs ! (k' - 1) \<in> set evs" using k' by simp
      then have "evs ! (k' - 1) \<in> set ch" by (simp add: evs matching_def)
      then have tn: "env_set ?next = ?next" using wf by (auto simp: wf_chain_def env_set_def)
      have nc: "?next \<noteq> cursor"
        using Suc.prems(2) d k' by (auto simp: distinct_conv_nth)
      have "\<exists>r. fetch_pages n (rpc c a b) a b ?next (take k' evs) = Some r \<and> (\<forall>x. r = Inr x \<longrightarrow> x = evs)"
        by (rule Suc.IH) (use k' Suc.prems(3) in auto)
      then show ?thesis
        using Inr res inr ne tn nc tk by (simp add: Let_def)
    qed
  qed
qed

lemma fetch_range:
  assumes "serves limit ch rpc" "0 < limit" "wf_chain ch l" "length ch + 2 \<le> fuel"
  shows "\<exists>r. fetchEventsInRange fuel rpc a b c = Some r \<and>
    (\<forall>x. r = Inr x \<longrightarrow> set x = set (matching ch c a b) \<and> sorted (map rawLedger x))"
proof -
  have "length (matching ch c a b) \<le> length ch" by (simp add: matching_def)
  then have "\<exists>r. fetch_pages fuel (rpc c a b) a b None (take 0 (matching ch c a b)) = Some r \<and>
      (\<forall>x. r = Inr x \<longrightarrow> x = matching ch c a b)"
    using assms(4) by (intro fetch_pages_from [OF assms(1-3) refl]) auto
  then obtain r where r: "fetch_pages fuel (rpc c a b) a b None [] = Some r"
    "\<forall>x. r = Inr x \<longrightarrow> x = matching ch c a b" by auto
  then show ?thesis by (cases r) (simp_all add: fetchEventsInRange_def)
qed

section \<open>What a chunk does\<close>

text \<open>An event is dealt with when it is ignored, or in the table, or a parse error that is in quarantine
  (when the quarantine table accepts writes).\<close>

definition handled :: "bool \<Rightarrow> ('v, 's) idx_env \<Rightarrow> 's idx \<Rightarrow> 'v raw_event \<Rightarrow> bool" where
  "handled q E s ev =
     (case parseEvent (codec E) ev of
        Inr None \<Rightarrow> True
      | Inr (Some e) \<Rightarrow> stored E (contract_events s) e
      | Inl err \<Rightarrow> q \<longrightarrow> in_quarantine s ev)"

definition grows :: "'s idx \<Rightarrow> 's idx \<Rightarrow> bool" where
  "grows s s' \<longleftrightarrow>
     (\<exists>ext. contract_events s' = contract_events s @ ext) \<and>
     set (quarantine_events s) \<subseteq> set (quarantine_events s')"

lemma grows_refl [simp]: "grows s s"
  by (simp add: grows_def)

lemma grows_trans: "grows a b \<Longrightarrow> grows b c \<Longrightarrow> grows a c"
  unfolding grows_def by (metis append_assoc subset_trans)

lemma handled_grows: "handled q E s ev \<Longrightarrow> grows s s' \<Longrightarrow> handled q E s' ev"
  by (auto simp: handled_def grows_def in_quarantine_def stored_mono split: sum.splits option.splits)

lemma store_grows: "storeEvents E F evs s = (r, s') \<Longrightarrow> grows s s'"
  using storeEvents_cases [of E F evs s r s'] by (auto simp: grows_def)

lemma store_handles:
  assumes "storeEvents E F evs s = (Inr n, s')" "q \<longrightarrow> quarantine_up F" "ev \<in> set evs"
  shows "handled q E s' ev"
proof (cases "parseEvent (codec E) ev")
  case (Inl err)
  then show ?thesis using storeEvents_quarantines [OF assms(1)] assms(2,3) by (auto simp: handled_def)
next
  case (Inr p)
  have "\<forall>e \<in> set (parsed_of E evs). stored E (contract_events s') e"
    using storeEvents_cases [OF assms(1)] by (auto split: if_splits)
  then show ?thesis using Inr assms(3) by (auto simp: handled_def in_parsed_of split: option.splits)
qed

lemma foldl_max_le: "(\<forall>x \<in> set xs. f x \<le> b) \<Longrightarrow> m \<le> b \<Longrightarrow> foldl (\<lambda>m x. max m (f x)) m xs \<le> (b::int)"
  by (induction xs arbitrary: m) auto

lemma processChunk_effect:
  assumes "serves limit ch rpc" "0 < limit" "wf_chain ch l" "length ch + 2 \<le> fuel" "q \<longrightarrow> quarantine_up F"
  shows "\<exists>r s'. processChunk E fuel rpc F a b c s = Some (r, s') \<and> grows s s' \<and>
    indexer_state s' = indexer_state s \<and> ledger_checkpoints s' = ledger_checkpoints s \<and>
    (a \<le> b \<longrightarrow> (\<forall>x. r = Inr x \<longrightarrow> lastProcessedLedger x = b \<and>
       (\<forall>ev \<in> set (matching ch c a b). handled q E s' ev)))"
proof (cases "b < a")
  case True
  then show ?thesis by (simp add: processChunk_def)
next
  case False
  obtain r where r: "fetchEventsInRange fuel rpc a b c = Some r"
    and x: "\<forall>x. r = Inr x \<longrightarrow> set x = set (matching ch c a b)"
    using fetch_range [OF assms(1-4)] by blast
  show ?thesis
  proof (cases r)
    case (Inl e)
    then show ?thesis using False r by (simp add: processChunk_def)
  next
    case (Inr evs)
    show ?thesis
    proof (cases "evs = []")
      case True
      then show ?thesis using False r Inr x by (simp add: processChunk_def)
    next
      case ne: False
      obtain res s' where st: "storeEvents E F evs s = (res, s')" by fastforce
      have keep: "indexer_state s' = indexer_state s \<and> ledger_checkpoints s' = ledger_checkpoints s"
        using storeEvents_cases [OF st] by blast
      have "foldl (\<lambda>m ev. max m (rawLedger ev)) a evs \<le> b"
        using False x Inr by (intro foldl_max_le) (auto simp: matching_def)
      then show ?thesis
        using False r Inr ne st keep store_grows [OF st] store_handles [of E F evs s _ s' q] assms(5) x
        by (cases res) (auto simp: processChunk_def)
    qed
  qed
qed

section \<open>The invariant of the poll\<close>

definition cursor_of :: "string \<Rightarrow> 's idx \<Rightarrow> int" where
  "cursor_of c s = (case map_of (indexer_state s) c of None \<Rightarrow> 0 | Some n \<Rightarrow> n)"

definition scanned :: "string \<Rightarrow> checkpoint list \<Rightarrow> int \<Rightarrow> bool" where
  "scanned c cps x \<longleftrightarrow>
     (\<exists>cp \<in> set cps. cpContract cp = c \<and> \<not> suspect cp \<and> range_start cp \<le> x \<and> x \<le> range_end cp)"

definition contiguous :: "string \<Rightarrow> checkpoint list \<Rightarrow> int \<Rightarrow> bool" where
  "contiguous c cps n \<longleftrightarrow>
     (\<forall>cp \<in> set cps. cpContract cp = c \<longrightarrow> \<not> suspect cp) \<and>
     (case previous_end c cps of
        None \<Rightarrow> n = 0
      | Some p \<Rightarrow> n \<le> p \<and> (\<forall>x. 1 \<le> x \<and> x \<le> p \<longrightarrow> scanned c cps x))"

definition idx_inv :: "bool \<Rightarrow> ('v, 's) idx_env \<Rightarrow> 'v raw_event list \<Rightarrow> int \<Rightarrow> 's idx \<Rightarrow> bool" where
  "idx_inv q E ch l s \<longleftrightarrow>
     wf_chain ch l \<and> 0 \<le> l \<and>
     (\<forall>c. 0 \<le> cursor_of c s \<and> cursor_of c s \<le> l \<and> contiguous c (ledger_checkpoints s) (cursor_of c s) \<and>
        (\<forall>ev \<in> set ch. rawContract ev = c \<and> rawLedger ev \<le> cursor_of c s \<longrightarrow> handled q E s ev))"

lemma idx_inv_grows:
  assumes "idx_inv q E ch l s" "grows s s'" "indexer_state s' = indexer_state s"
    "ledger_checkpoints s' = ledger_checkpoints s"
  shows "idx_inv q E ch l s'"
proof -
  have "cursor_of c s' = cursor_of c s" for c by (simp add: cursor_of_def assms(3))
  then show ?thesis using assms(1,4) handled_grows [OF _ assms(2)] unfolding idx_inv_def by metis
qed

lemma handled_bookkeeping [simp]:
  "handled q E (s\<lparr>indexer_state := st\<rparr>) ev = handled q E s ev"
  "handled q E (s\<lparr>ledger_checkpoints := cps\<rparr>) ev = handled q E s ev"
  "cursor_of c (s\<lparr>ledger_checkpoints := cps\<rparr>) = cursor_of c s"
  by (auto simp: handled_def in_quarantine_def cursor_of_def split: sum.splits option.splits)

lemma previous_end_append:
  "previous_end c (cps @ [cp]) =
     (if cpContract cp = c
      then Some (case previous_end c cps of None \<Rightarrow> range_end cp | Some p \<Rightarrow> max p (range_end cp))
      else previous_end c cps)"
proof -
  have "sql_max (xs @ [Some v]) = Some (case sql_max xs of None \<Rightarrow> v | Some p \<Rightarrow> max p v)" for xs v
    by (auto simp: sql_max_def map_filter_def split: list.splits)
  then show ?thesis by (simp add: previous_end_def)
qed

lemma scanned_append: "scanned c cps x \<Longrightarrow> scanned c (cps @ [cp]) x"
  by (auto simp: scanned_def)

lemma contiguous_add:
  assumes "contiguous c cps n" "0 \<le> n" "n < b"
  shows "contiguous c (cps @ [\<lparr>cpContract = c, range_start = n + 1, range_end = b, suspect = False\<rparr>]) b"
    and "contiguous c (cps @ [\<lparr>cpContract = c, range_start = n + 1, range_end = b, suspect = False\<rparr>]) n"
proof -
  let ?cp = "\<lparr>cpContract = c, range_start = n + 1, range_end = b, suspect = False\<rparr>"
  have new: "scanned c (cps @ [?cp]) x" if "n + 1 \<le> x" "x \<le> b" for x using that by (auto simp: scanned_def)
  have old: "scanned c (cps @ [?cp]) x" if "1 \<le> x" "x \<le> n" for x
    using that assms(1) scanned_append by (fastforce simp: contiguous_def split: option.splits)
  have old2: "scanned c (cps @ [?cp]) x" if "1 \<le> x" "previous_end c cps = Some p" "x \<le> p" for x p
    using that assms(1) scanned_append by (fastforce simp: contiguous_def)
  have cov: "scanned c (cps @ [?cp]) x"
    if "1 \<le> x" "x \<le> (case previous_end c cps of None \<Rightarrow> b | Some p \<Rightarrow> max p b)" for x
    using that new old old2 by (cases "x \<le> n"; cases "x \<le> b") (auto split: option.splits)
  have sus: "\<forall>cp \<in> set (cps @ [?cp]). cpContract cp = c \<longrightarrow> \<not> suspect cp"
    using assms(1) by (auto simp: contiguous_def)
  show "contiguous c (cps @ [?cp]) b" "contiguous c (cps @ [?cp]) n"
    using sus cov assms(3) unfolding contiguous_def previous_end_append by (auto split: option.splits)
qed

lemma contiguous_other:
  "cpContract cp \<noteq> c \<Longrightarrow> contiguous c (cps @ [cp]) n = contiguous c cps n"
  by (auto simp: contiguous_def previous_end_append scanned_def split: option.splits)

lemma idx_inv_checkpoint:
  assumes "idx_inv q E ch l s" "cursor_of c s < b"
  shows "idx_inv q E ch l (s\<lparr>ledger_checkpoints := ledger_checkpoints s @
    [\<lparr>cpContract = c, range_start = cursor_of c s + 1, range_end = b, suspect = False\<rparr>]\<rparr>)"
proof -
  let ?cps = "ledger_checkpoints s @
    [\<lparr>cpContract = c, range_start = cursor_of c s + 1, range_end = b, suspect = False\<rparr>]"
  have "contiguous c' ?cps (cursor_of c' s)" for c'
  proof (cases "c' = c")
    case True
    then show ?thesis using assms by (simp add: idx_inv_def contiguous_add(2))
  next
    case False
    then show ?thesis using assms(1) by (simp add: idx_inv_def contiguous_other)
  qed
  with assms(1) show ?thesis unfolding idx_inv_def handled_bookkeeping idx.select_convs
    by (auto simp del: handled_bookkeeping)
qed

lemma idx_inv_cursor:
  assumes "idx_inv q E ch l s" "s' = s\<lparr>indexer_state := st\<rparr>" "cursor_of c s' = b" "0 \<le> b" "b \<le> l"
    and "\<forall>c'. c' \<noteq> c \<longrightarrow> cursor_of c' s' = cursor_of c' s" "contiguous c (ledger_checkpoints s) b"
    and "\<forall>ev \<in> set ch. rawContract ev = c \<and> rawLedger ev \<le> b \<longrightarrow> handled q E s ev"
  shows "idx_inv q E ch l s'"
proof -
  have h: "handled q E s' ev = handled q E s ev" for ev by (simp add: assms(2))
  have cps: "ledger_checkpoints s' = ledger_checkpoints s" by (simp add: assms(2))
  have "0 \<le> cursor_of c' s' \<and> cursor_of c' s' \<le> l \<and> contiguous c' (ledger_checkpoints s) (cursor_of c' s') \<and>
      (\<forall>ev \<in> set ch. rawContract ev = c' \<and> rawLedger ev \<le> cursor_of c' s' \<longrightarrow> handled q E s ev)" for c'
    using assms(1,3-8) by (cases "c' = c") (auto simp: idx_inv_def)
  with assms(1) show ?thesis unfolding idx_inv_def h cps by blast
qed

lemma db_stmt_cases:
  "db_stmt f s left = (r, s', left') \<Longrightarrow> ((\<exists>e. r = Inl e) \<and> s' = s) \<or> (\<exists>a. r = Inr a \<and> f s = (a, s'))"
  by (auto simp: db_stmt_def split: option.splits nat.splits prod.splits)

lemma getLastIndexedLedger_effect:
  assumes "getLastIndexedLedger c s left = (r, s', left')"
  shows "(\<exists>st. s' = s\<lparr>indexer_state := st\<rparr>) \<and> (\<forall>c'. cursor_of c' s' = cursor_of c' s) \<and>
    (\<forall>n. r = Inr n \<longrightarrow> n = cursor_of c s)"
proof -
  have id: "\<exists>st. s = s\<lparr>indexer_state := st\<rparr>" by (metis idx.surjective idx.update_convs(6))
  show ?thesis
    using assms id
    by (auto simp: getLastIndexedLedger_def db_bind_def db_return_def cursor_of_def
        split: prod.splits sum.splits option.splits if_splits dest!: db_stmt_cases)
qed

lemma recordCheckpoint_effect:
  assumes "contiguous c (ledger_checkpoints s) n" "n < b"
    and "recordCheckpoint c (n + 1) b s left = (r, s', left')"
  shows "((\<exists>e. r = Inl e) \<and> s' = s) \<or>
    s' = s\<lparr>ledger_checkpoints := ledger_checkpoints s @
           [\<lparr>cpContract = c, range_start = n + 1, range_end = b, suspect = False\<rparr>]\<rparr>"
proof -
  have "\<not> n + 1 > p + 1" if "previous_end c (ledger_checkpoints s) = Some p" for p
    using assms(1) that by (simp add: contiguous_def)
  then show ?thesis
    using assms(2,3)
    by (auto simp: recordCheckpoint_def db_bind_def db_return_def add_checkpoint_def
        split: prod.splits sum.splits option.splits if_splits dest!: db_stmt_cases)
qed

lemma updateLastIndexedLedger_effect:
  assumes "updateLastIndexedLedger c b s left = (r, s', left')" "cursor_of c s \<le> b" "0 \<le> b"
  shows "((\<exists>e. r = Inl e) \<and> s' = s) \<or> ((\<exists>st. s' = s\<lparr>indexer_state := st\<rparr>) \<and> cursor_of c s' = b \<and>
    (\<forall>c'. c' \<noteq> c \<longrightarrow> cursor_of c' s' = cursor_of c' s))"
  using assms
  by (auto simp: updateLastIndexedLedger_def db_bind_def db_return_def cursor_of_def
      split: prod.splits sum.splits option.splits if_splits dest!: db_stmt_cases)

text \<open>A chunk and the bookkeeping after it keep the invariant, wherever the bookkeeping stops.\<close>

lemma poll_chunk_inv:
  assumes inv: "idx_inv q E ch l s" and srv: "serves limit ch rpc" "0 < limit" "length ch + 2 \<le> fuel"
    and q: "q \<longrightarrow> quarantine_up F" and b: "cursor_of c s < b" "b \<le> l"
  shows "\<exists>r s' left'. poll_chunk E fuel rpc F (cursor_of c s + 1) b c s left = Some (r, s', left') \<and>
    idx_inv q E ch l s' \<and> (\<forall>c'. cursor_of c' s \<le> cursor_of c' s') \<and> (r = Inr () \<longrightarrow> cursor_of c s' = b)"
proof -
  have wf: "wf_chain ch l" using inv by (simp add: idx_inv_def)
  let ?n = "cursor_of c s"
  obtain r s1 where pc: "processChunk E fuel rpc F (?n + 1) b c s = Some (r, s1)"
    and g: "grows s s1" and keep: "indexer_state s1 = indexer_state s"
      "ledger_checkpoints s1 = ledger_checkpoints s"
    and ok: "\<forall>x. r = Inr x \<longrightarrow> lastProcessedLedger x = b \<and>
       (\<forall>ev \<in> set (matching ch c (?n + 1) b). handled q E s1 ev)"
    using processChunk_effect [OF srv(1,2) wf srv(3) q, of E "?n + 1" b c s] b by auto
  have inv1: "idx_inv q E ch l s1" by (rule idx_inv_grows [OF inv g keep])
  have n1: "cursor_of c' s1 = cursor_of c' s" for c' by (simp add: cursor_of_def keep)
  show ?thesis
  proof (cases r)
    case (Inl e)
    then show ?thesis using pc inv1 n1 by (simp add: poll_chunk_def)
  next
    case (Inr x)
    have hand: "handled q E s1 ev" if "ev \<in> set ch" "rawContract ev = c" "rawLedger ev \<le> b" for ev
      using that ok Inr inv1 n1 by (cases "rawLedger ev \<le> ?n") (auto simp: idx_inv_def matching_def)
    have n0: "0 \<le> ?n" "contiguous c (ledger_checkpoints s1) ?n"
      using inv1 n1 by (simp_all add: idx_inv_def)
    obtain r2 s2 left2 where rc: "recordCheckpoint c (?n + 1) b s1 left = (r2, s2, left2)"
      by (metis prod_cases3)
    let ?cp = "\<lparr>cpContract = c, range_start = ?n + 1, range_end = b, suspect = False\<rparr>"
    note rce = recordCheckpoint_effect [OF n0(2) b(1) rc]
    have cpi: "idx_inv q E ch l (s1\<lparr>ledger_checkpoints := ledger_checkpoints s1 @ [?cp]\<rparr>)"
      using idx_inv_checkpoint [OF inv1, of c b] n1 b(1) by simp
    have inv2: "idx_inv q E ch l s2" using rce cpi inv1 by auto
    show ?thesis
    proof (cases r2)
      case (Inl e)
      moreover have "cursor_of c' s2 = cursor_of c' s" for c' using rce n1 by auto
      ultimately show ?thesis using pc \<open>r = Inr x\<close> ok rc inv2 by (simp add: poll_chunk_def db_bind_def)
    next
      case (Inr u)
      obtain r3 s3 left3 where up: "updateLastIndexedLedger c b s2 left2 = (r3, s3, left3)"
        by (metis prod_cases3)
      have s2: "s2 = s1\<lparr>ledger_checkpoints := ledger_checkpoints s1 @ [?cp]\<rparr>" using rce Inr by auto
      have n2: "cursor_of c' s2 = cursor_of c' s" for c' by (simp add: s2 cursor_of_def keep)
      have con: "contiguous c (ledger_checkpoints s2) b"
        using contiguous_add(1) [OF n0(2,1) b(1)] by (simp add: s2)
      have h2: "\<forall>ev \<in> set ch. rawContract ev = c \<and> rawLedger ev \<le> b \<longrightarrow> handled q E s2 ev"
        using hand by (simp add: s2)
      have b2: "cursor_of c s2 \<le> b" "0 \<le> b" using n2 b n0 by auto
      have "idx_inv q E ch l s3"
        using updateLastIndexedLedger_effect [OF up b2] idx_inv_cursor [OF inv2 _ _ b2(2) b(2) _ con h2] inv2
        by blast
      moreover have "cursor_of c' s \<le> cursor_of c' s3" for c'
        using updateLastIndexedLedger_effect [OF up b2] n2 [of c'] b(1)
        by (cases "c' = c") auto
      moreover have "r3 = Inr () \<longrightarrow> cursor_of c s3 = b"
        using updateLastIndexedLedger_effect [OF up b2] by auto
      ultimately show ?thesis
        using pc \<open>r = Inr x\<close> ok rc Inr up by (simp add: poll_chunk_def db_bind_def)
    qed
  qed
qed

lemma poll_contract_inv:
  assumes inv: "idx_inv q E ch l s" and srv: "serves limit ch rpc" "0 < limit" "length ch + 2 \<le> fuel"
    and q: "q \<longrightarrow> quarantine_up F" and b: "0 < batch" "latest \<le> l"
  shows "\<exists>r s' left'. poll_contract E fuel rpc F batch latest c s left = Some (r, s', left') \<and>
    idx_inv q E ch l s' \<and> (\<forall>c'. cursor_of c' s \<le> cursor_of c' s') \<and>
    (r = Inr () \<longrightarrow> min (cursor_of c s + batch) latest \<le> cursor_of c s')"
proof -
  obtain r1 s1 left1 where gl: "getLastIndexedLedger c s left = (r1, s1, left1)" by (metis prod_cases3)
  obtain st where s1: "s1 = s\<lparr>indexer_state := st\<rparr>" and n1: "\<forall>c'. cursor_of c' s1 = cursor_of c' s"
    and last: "\<forall>n. r1 = Inr n \<longrightarrow> n = cursor_of c s"
    using getLastIndexedLedger_effect [OF gl] by blast
  have cps: "ledger_checkpoints s1 = ledger_checkpoints s" by (simp add: s1)
  have h: "handled q E s1 ev = handled q E s ev" for ev by (simp add: s1)
  have inv1: "idx_inv q E ch l s1" using inv n1 unfolding idx_inv_def h cps by metis
  show ?thesis
  proof (cases "r1 = Inr (cursor_of c s) \<and> cursor_of c s < latest")
    case False
    then show ?thesis using gl inv1 n1 last by (cases r1) (auto simp: poll_contract_def)
  next
    case True
    let ?b = "min (cursor_of c s + 1 + batch - 1) latest"
    have "\<exists>r s' left'. poll_chunk E fuel rpc F (cursor_of c s1 + 1) ?b c s1 left1 = Some (r, s', left') \<and>
      idx_inv q E ch l s' \<and> (\<forall>c'. cursor_of c' s1 \<le> cursor_of c' s') \<and> (r = Inr () \<longrightarrow> cursor_of c s' = ?b)"
      by (rule poll_chunk_inv [OF inv1 srv q]) (use True b n1 in auto)
    then show ?thesis using gl True n1 by (auto simp: poll_contract_def Let_def)
  qed
qed

lemma poll_contracts_inv:
  assumes "idx_inv q E ch l s" "serves limit ch rpc" "0 < limit" "length ch + 2 \<le> fuel"
    and "\<forall>c. q \<longrightarrow> quarantine_up (F c)" "0 < batch" "latest \<le> l"
  shows "\<exists>r s' left'. poll_contracts E fuel rpc F batch latest cs s left = Some (r, s', left') \<and>
    idx_inv q E ch l s' \<and> (\<forall>c'. cursor_of c' s \<le> cursor_of c' s') \<and>
    (r = Inr () \<longrightarrow> (\<forall>c \<in> set cs. min (cursor_of c s + batch) latest \<le> cursor_of c s'))"
  using assms(1)
proof (induction cs arbitrary: s left)
  case (Cons c cs)
  obtain r1 s1 left1 where p: "poll_contract E fuel rpc (F c) batch latest c s left = Some (r1, s1, left1)"
    and inv1: "idx_inv q E ch l s1" and mono: "\<forall>c'. cursor_of c' s \<le> cursor_of c' s1"
    and adv: "r1 = Inr () \<longrightarrow> min (cursor_of c s + batch) latest \<le> cursor_of c s1"
    using poll_contract_inv [OF Cons.prems assms(2-4) _ assms(6,7), of "F c" c left] assms(5) by blast
  show ?case
  proof (cases r1)
    case (Inl e)
    then show ?thesis using p inv1 mono by simp
  next
    case (Inr u)
    obtain r2 s2 left2 where p2: "poll_contracts E fuel rpc F batch latest cs s1 left1 = Some (r2, s2, left2)"
      and inv2: "idx_inv q E ch l s2" and mono2: "\<forall>c'. cursor_of c' s1 \<le> cursor_of c' s2"
      and adv2: "r2 = Inr () \<longrightarrow> (\<forall>c \<in> set cs. min (cursor_of c s1 + batch) latest \<le> cursor_of c s2)"
      using Cons.IH [OF inv1, of left1] by blast
    have up: "min (cursor_of c' s + batch) latest \<le> min (cursor_of c' s1 + batch) latest" for c'
      using mono [rule_format, of c'] by (auto simp: min_def)
    have all: "min (cursor_of c' s + batch) latest \<le> cursor_of c' s2" if "r2 = Inr ()" "c' \<in> set (c # cs)" for c'
    proof (cases "c' \<in> set cs")
      case True
      then have "min (cursor_of c' s1 + batch) latest \<le> cursor_of c' s2" using adv2 that(1) by blast
      then show ?thesis by (rule order_trans [OF up])
    next
      case False
      then have "c' = c" using that(2) by simp
      moreover have "min (cursor_of c s + batch) latest \<le> cursor_of c s1" using adv Inr by simp
      ultimately show ?thesis using mono2 [rule_format, of c] by simp
    qed
    moreover have "cursor_of c' s \<le> cursor_of c' s2" for c'
      using mono [rule_format, of c'] mono2 [rule_format, of c'] by simp
    moreover have "poll_contracts E fuel rpc F batch latest (c # cs) s left = Some (r2, s2, left2)"
      using p p2 Inr by simp
    ultimately show ?thesis using inv2 all by blast
  qed
qed simp

section \<open>Reachable states\<close>

text \<open>The chain closes ledgers; polls run against a server that knows a part of it and may fail, with any
  failures of the database; other callers ingest events. With \<open>q\<close>, writes to the quarantine table succeed.\<close>

inductive idx_reach ::
  "bool \<Rightarrow> ('v, 's) idx_env \<Rightarrow> nat \<Rightarrow> int \<Rightarrow> string list \<Rightarrow> 'v raw_event list \<Rightarrow> int \<Rightarrow> 's idx \<Rightarrow> bool"
  for q :: bool and E :: "('v, 's) idx_env" and limit :: nat and batch :: int and contractIds :: "string list" where
  start: "wf_chain ch l \<Longrightarrow> 0 \<le> l \<Longrightarrow> indexer_state s = [] \<Longrightarrow> ledger_checkpoints s = [] \<Longrightarrow>
    idx_reach q E limit batch contractIds ch l s"
| ledger_close: "idx_reach q E limit batch contractIds ch l s \<Longrightarrow> wf_chain (ch @ evs) (l + 1) \<Longrightarrow>
    \<forall>ev \<in> set evs. rawLedger ev = l + 1 \<Longrightarrow>
    idx_reach q E limit batch contractIds (ch @ evs) (l + 1) s"
| poll: "idx_reach q E limit batch contractIds ch l s \<Longrightarrow> serves limit ch rpc \<Longrightarrow>
    (case answer of None \<Rightarrow> True | Some n \<Rightarrow> n \<le> l) \<Longrightarrow> \<forall>c. q \<longrightarrow> quarantine_up (F c) \<Longrightarrow>
    length ch + 2 \<le> fuel \<Longrightarrow>
    pollOnce E fuel rpc F batch contractIds running answer s left = Some (r, s', left') \<Longrightarrow>
    idx_reach q E limit batch contractIds ch l s'"
| ingest: "idx_reach q E limit batch contractIds ch l s \<Longrightarrow> ingestRawEvents E F evs s = (r, s') \<Longrightarrow>
    idx_reach q E limit batch contractIds ch l s'"

lemma pollOnce_inv:
  assumes "idx_inv q E ch l s" "serves limit ch rpc" "0 < limit" "length ch + 2 \<le> fuel"
    and "\<forall>c. q \<longrightarrow> quarantine_up (F c)" "0 < batch" "case answer of None \<Rightarrow> True | Some n \<Rightarrow> n \<le> l"
  shows "\<exists>r s' left'. pollOnce E fuel rpc F batch cs running answer s left = Some (r, s', left') \<and>
    idx_inv q E ch l s' \<and> (\<forall>c'. cursor_of c' s \<le> cursor_of c' s') \<and>
    (running \<and> r = Inr () \<longrightarrow>
       (\<forall>n. answer = Some n \<and> 0 < n \<longrightarrow> (\<forall>c \<in> set cs. min (cursor_of c s + batch) n \<le> cursor_of c s')))"
proof (cases "running \<and> getLatestLedgerSequence answer \<noteq> 0")
  case False
  then show ?thesis using assms(1) by (auto simp: pollOnce_def getLatestLedgerSequence_def)
next
  case True
  then obtain n where n: "answer = Some n" "0 < n"
    by (auto simp: getLatestLedgerSequence_def split: option.splits if_splits)
  have "n \<le> l" using assms(7) n by simp
  from poll_contracts_inv [OF assms(1-6) this, of cs left]
  show ?thesis using True n by (simp add: pollOnce_def getLatestLedgerSequence_def)
qed

lemma idx_reach_inv:
  assumes "idx_reach q E limit batch contractIds ch l s" "0 < limit" "0 < batch"
  shows "idx_inv q E ch l s"
  using assms(1)
proof (induction rule: idx_reach.induct)
  case (start ch l s)
  have "cursor_of c s = 0" for c using start by (simp add: cursor_of_def)
  moreover have "contiguous c [] 0" for c by (simp add: contiguous_def previous_end_def)
  ultimately show ?case using start by (auto simp: idx_inv_def wf_chain_def)
next
  case (ledger_close ch l s evs)
  have "cursor_of c s \<le> l" for c using ledger_close.IH by (simp add: idx_inv_def)
  then have "\<not> rawLedger ev \<le> cursor_of c s" if "ev \<in> set evs" for ev c
    using ledger_close.hyps(3) that by (metis zle_add1_eq_le linorder_not_le)
  then have "0 \<le> cursor_of c s \<and> cursor_of c s \<le> l + 1 \<and> contiguous c (ledger_checkpoints s) (cursor_of c s) \<and>
      (\<forall>ev \<in> set (ch @ evs). rawContract ev = c \<and> rawLedger ev \<le> cursor_of c s \<longrightarrow> handled q E s ev)" for c
    using ledger_close.IH unfolding idx_inv_def set_append by (meson UnE add_increasing2 zero_le_one)
  with ledger_close show ?case unfolding idx_inv_def by auto
next
  case (poll ch l s rpc answer F fuel running left r s' left')
  then show ?case
    using pollOnce_inv [OF poll.IH poll.hyps(2) assms(2) poll.hyps(5) poll.hyps(4) assms(3) poll.hyps(3),
      of contractIds running left] by auto
next
  case (ingest ch l s F evs r s')
  have st: "storeEvents E F evs s = (r, s')" using ingest.hyps(2) by (simp add: ingestRawEvents_def)
  show ?case
    using idx_inv_grows [OF ingest.IH store_grows [OF st]] storeEvents_cases [OF st] by blast
qed

section \<open>Properties\<close>

text \<open>(C3) The indexer misses nothing. In every reachable state, whatever statements, calls and transactions
  have failed in between, every event that a contract emitted up to its cursor is dealt with: it is in the
  table, or of no supported kind, or a parse error that is kept in quarantine as long as that table accepts
  writes. Every ledger up to the cursor lies in a range that was recorded as verified, so polling alone never
  leaves a gap, and the gate that other jobs consult stays open.\<close>

theorem indexer_complete:
  assumes "idx_reach q E limit batch contractIds ch l s" "0 < limit" "0 < batch"
  shows "cursor_of c s \<le> l \<and>
    (\<forall>ev \<in> set ch. rawContract ev = c \<and> rawLedger ev \<le> cursor_of c s \<longrightarrow> handled q E s ev) \<and>
    (\<forall>x. 1 \<le> x \<and> x \<le> cursor_of c s \<longrightarrow> scanned c (ledger_checkpoints s) x) \<and>
    getSuspectRanges c s = [] \<and> \<not> hasUnresolvedLedgerGaps db_up c (ledger_checkpoints s)"
proof -
  have inv: "idx_inv q E ch l s" using idx_reach_inv [OF assms] .
  then have con: "contiguous c (ledger_checkpoints s) (cursor_of c s)" by (simp add: idx_inv_def)
  then have "\<forall>x. 1 \<le> x \<and> x \<le> cursor_of c s \<longrightarrow> scanned c (ledger_checkpoints s) x"
    by (auto simp: contiguous_def split: option.splits)
  moreover have "filter (\<lambda>cp. cpContract cp = c \<and> suspect cp) (ledger_checkpoints s) = []"
    using con by (auto simp: contiguous_def filter_empty_conv)
  then have "getSuspectRanges c s = [] \<and> \<not> hasUnresolvedLedgerGaps db_up c (ledger_checkpoints s)"
    by (auto simp: getSuspectRanges_def hasUnresolvedLedgerGaps_def list_ex_iff filter_empty_conv)
  ultimately show ?thesis using inv unfolding idx_inv_def by blast
qed

text \<open>(C4) Every poll returns, and a poll that succeeds makes progress. Paging ends within two calls more than
  there are events on the chain; no poll moves a cursor back; and after a poll that does not fail every
  configured contract has advanced by a full batch or to the latest ledger that the server announced.\<close>

theorem poll_progress:
  assumes "idx_reach q E limit batch contractIds ch l s" "0 < limit" "0 < batch"
    and "serves limit ch rpc" "length ch + 2 \<le> fuel" "\<forall>c. q \<longrightarrow> quarantine_up (F c)" "0 < n" "n \<le> l"
  shows "\<exists>r s' left'. pollOnce E fuel rpc F batch contractIds True (Some n) s left = Some (r, s', left') \<and>
    (\<forall>c. cursor_of c s \<le> cursor_of c s') \<and>
    (r = Inr () \<longrightarrow> (\<forall>c \<in> set contractIds. min (cursor_of c s + batch) n \<le> cursor_of c s'))"
proof -
  have "case Some n of None \<Rightarrow> True | Some n \<Rightarrow> n \<le> l" using assms(8) by simp
  from pollOnce_inv [OF idx_reach_inv [OF assms(1-3)] assms(4,2,5,6,3) this, of contractIds True left]
  show ?thesis using assms(7) by auto
qed

text \<open>An event that parses but has no row stops its contract for good. A loan id that is not a number
  is no parse error, so such an event is not put in quarantine; the insert fails, the batch is rolled back, and in
  every reachable state the cursor is still before the ledger of the event.\<close>

theorem unstorable_event_blocks:
  assumes "idx_reach q E limit batch contractIds ch l s" "0 < limit" "0 < batch"
    and "ev \<in> set ch" "parseEvent (codec E) ev = Inr (Some e)" "row_of E e = None"
  shows "cursor_of (rawContract ev) s < rawLedger ev"
proof -
  have "\<not> handled q E s ev" using assms(5,6) by (simp add: handled_def stored_def)
  then show ?thesis using idx_reach_inv [OF assms(1-3)] assms(4) unfolding idx_inv_def by force
qed

lemma reindex_loop_effect:
  assumes "serves limit ch rpc" "0 < limit" "wf_chain ch l" "length ch + 2 \<le> fuel" "q \<longrightarrow> quarantine_up F"
    and "0 < batch" "nat (b + 1 - a) < steps" "lastReindexed acc = a - 1" "a \<le> b + 1"
  shows "\<exists>r s'. reindex_loop steps E fuel rpc F batch c a b acc s = Some (r, s') \<and> grows s s' \<and>
    indexer_state s' = indexer_state s \<and>
    (\<forall>x. r = Inr x \<longrightarrow> lastReindexed x = b \<and> (\<forall>ev \<in> set (matching ch c a b). handled q E s' ev))"
  using assms(7-9)
proof (induction steps arbitrary: a acc s)
  case 0
  then show ?case by simp
next
  case (Suc n)
  show ?case
  proof (cases "a \<le> b")
    case False
    then show ?thesis using Suc.prems by (auto simp: matching_def)
  next
    case True
    let ?e = "min (a + batch - 1) b"
    have ae: "a \<le> ?e" "?e \<le> b" "a \<le> ?e + 1" using True assms(6) by auto
    obtain r s1 where pc: "processChunk E fuel rpc F a ?e c s = Some (r, s1)" and g: "grows s s1"
      and st: "indexer_state s1 = indexer_state s"
      and ok: "\<forall>x. r = Inr x \<longrightarrow> lastProcessedLedger x = ?e \<and>
        (\<forall>ev \<in> set (matching ch c a ?e). handled q E s1 ev)"
      using processChunk_effect [OF assms(1-5), of E a ?e c s] ae(1) by blast
    show ?thesis
    proof (cases r)
      case (Inl e)
      then show ?thesis using True pc g st by (simp add: Let_def)
    next
      case (Inr x)
      let ?acc = "\<lparr>totalFetched = totalFetched acc + fetchedEvents x,
        totalInserted = totalInserted acc + IndexerPoll.insertedCount x, lastReindexed = lastProcessedLedger x\<rparr>"
      have "nat (b + 1 - (?e + 1)) < n" using Suc.prems(1) ae assms(6) by linarith
      moreover have "lastReindexed ?acc = ?e + 1 - 1" using ok Inr by simp
      moreover have "?e + 1 \<le> b + 1" using ae by simp
      ultimately obtain r2 s2
        where rl: "reindex_loop n E fuel rpc F batch c (?e + 1) b ?acc s1 = Some (r2, s2)"
          and g2: "grows s1 s2" and st2: "indexer_state s2 = indexer_state s1"
          and ok2: "\<forall>x. r2 = Inr x \<longrightarrow> lastReindexed x = b \<and>
            (\<forall>ev \<in> set (matching ch c (?e + 1) b). handled q E s2 ev)"
        using Suc.IH [of "?e + 1" ?acc s1] by blast
      have "handled q E s2 ev" if "r2 = Inr y" "ev \<in> set (matching ch c a b)" for y ev
      proof (cases "rawLedger ev \<le> ?e")
        case True
        then have "handled q E s1 ev" using that(2) ok Inr by (auto simp: matching_def)
        then show ?thesis using handled_grows g2 by blast
      next
        case False
        then show ?thesis using that ok2 by (auto simp: matching_def)
      qed
      moreover have "reindex_loop (Suc n) E fuel rpc F batch c a b acc s = Some (r2, s2)"
        using True pc Inr rl by (simp add: Let_def)
      ultimately show ?thesis using grows_trans [OF g g2] st st2 ok2 by auto
    qed
  qed
qed

text \<open>(C40) Re-indexing a range ends after at most one chunk per ledger of it, and when no chunk fails
  every event of the contract in the range is dealt with, however the range is cut into chunks; the
  cursor of the poll does not move.\<close>

theorem reindex_complete:
  assumes "serves limit ch rpc" "0 < limit" "wf_chain ch l" "length ch + 2 \<le> fuel" "q \<longrightarrow> quarantine_up F"
    and "0 < batch" "nat (b + 1 - a) < steps" "a \<le> b + 1"
  shows "\<exists>r s'. reindexRange steps E fuel rpc F batch c a b s = Some (r, s') \<and>
    indexer_state s' = indexer_state s \<and>
    (\<forall>x. r = Inr x \<longrightarrow> lastReindexed x = b \<and>
       (\<forall>ev \<in> set ch. rawContract ev = c \<and> a \<le> rawLedger ev \<and> rawLedger ev \<le> b \<longrightarrow> handled q E s' ev))"
  using reindex_loop_effect [OF assms(1-7), of "\<lparr>totalFetched = 0, totalInserted = 0, lastReindexed = a - 1\<rparr>" E c s]
    assms(8)
  by (auto simp: reindexRange_def matching_def)

section \<open>A concrete chain\<close>

definition demo_rpc :: "native raw_event list \<Rightarrow> native rpc" where
  "demo_rpc ch c a b cursor = Inr (chain_page 10 (matching ch c a b) cursor)"

lemma demo_rpc_serves: "serves 10 ch (demo_rpc ch)"
  by (simp add: serves_def demo_rpc_def)

lemma demo_chain: "wf_chain [repayment] 3"
  by (simp add: wf_chain_def repayment_def)

lemma demo_start: "idx_reach True demo_env 10 100 [''CB''] [repayment] 3 empty_idx"
  by (rule idx_reach.start [OF demo_chain]) (simp_all add: empty_idx_def)

text \<open>A poll of a contract without events scans the three ledgers.\<close>

lemma demo_poll:
  "\<exists>s'. pollOnce demo_env 3 (demo_rpc [repayment]) (\<lambda>_. calm) 100 [''CB''] True (Some 3) empty_idx None
      = Some (Inr (), s', None) \<and> cursor_of ''CB'' s' = 3"
proof -
  have m: "matching [repayment] ''CB'' 1 3 = []" by (simp add: matching_def repayment_def)
  have f: "fetchEventsInRange 3 (demo_rpc [repayment]) 1 3 ''CB'' = Some (Inr [])"
    by (simp add: fetchEventsInRange_def demo_rpc_def m chain_page_def after_cursor_def numeral_3_eq_3
        env_set_def id_def)
  show ?thesis
    by (simp add: pollOnce_def getLatestLedgerSequence_def poll_contract_def getLastIndexedLedger_def db_bind_def
        db_stmt_def db_return_def poll_chunk_def processChunk_def f recordCheckpoint_def add_checkpoint_def
        previous_end_def updateLastIndexedLedger_def empty_idx_def cursor_of_def Let_def)
qed

theorem indexer_complete_witness:
  "\<exists>s. idx_reach True demo_env 10 100 [''CB''] [repayment] 3 s \<and> cursor_of ''CB'' s = 3 \<and>
     scanned ''CB'' (ledger_checkpoints s) 2"
proof -
  obtain s' where p: "pollOnce demo_env 3 (demo_rpc [repayment]) (\<lambda>_. calm) 100 [''CB''] True (Some 3) empty_idx None
      = Some (Inr (), s', None)" and n: "cursor_of ''CB'' s' = 3"
    using demo_poll by blast
  have r: "idx_reach True demo_env 10 100 [''CB''] [repayment] 3 s'"
    by (rule idx_reach.poll [OF demo_start demo_rpc_serves _ _ _ p]) (simp_all add: calm_def)
  from indexer_complete [OF r, of "''CB''" True] r n show ?thesis by auto
qed

theorem poll_progress_witness:
  "\<exists>s'. pollOnce demo_env 3 (demo_rpc [repayment]) (\<lambda>_. calm) 100 [''CB''] True (Some 3) empty_idx None
      = Some (Inr (), s', None) \<and> 3 \<le> cursor_of ''CB'' s'"
proof -
  have "\<exists>r s' left'. pollOnce demo_env 3 (demo_rpc [repayment]) (\<lambda>_. calm) 100 [''CB''] True (Some 3) empty_idx None
      = Some (r, s', left') \<and> (\<forall>c. cursor_of c empty_idx \<le> cursor_of c s') \<and>
    (r = Inr () \<longrightarrow> (\<forall>c \<in> set [''CB'']. min (cursor_of c empty_idx + 100) 3 \<le> cursor_of c s'))"
    by (rule poll_progress [OF demo_start _ _ demo_rpc_serves]) (simp_all add: calm_def)
  then show ?thesis using demo_poll by (auto simp: cursor_of_def empty_idx_def)
qed

definition bad_repayment :: "native raw_event" where
  "bad_repayment = repayment\<lparr>topic := [NStr ''LoanRepaid'', NStr ''GA'', NStr ''x'']\<rparr>"

theorem unstorable_event_blocks_witness: "cursor_of ''CA'' empty_idx < 3"
proof -
  have ty: "decodeEventType native_codec (topic_at 0 bad_repayment) = Some ''LoanRepaid''"
    using supported_LoanRepaid
    by (simp add: decodeEventType_def topic_at_def bad_repayment_def repayment_def native_codec_def
        EVENT_TYPE_ALIASES_def)
  have nan: "js_Number (NStr ''x'') = NaN"
    by (simp add: js_Number_def str_number_def js_trim_def is_space_def radix_prefix_def decimal_literal_def
        is_digit_def Let_def)
  have "\<exists>e. parseEvent native_codec bad_repayment = Inr (Some e) \<and> evLoanId e = Some NaN"
    unfolding parseEvent_def ty
    by (simp add: parse_fields_def parse_LoanRepaid_def with_topic_def topic_at_def bad_repayment_def repayment_def
        native_codec_def decodeAddress_def decodeAmount_def decodeLoanId_def nan)
  then obtain e where e: "parseEvent (codec demo_env) bad_repayment = Inr (Some e)" "row_of demo_env e = None"
    by (auto simp: row_of_def int_column_def)
  have wf: "wf_chain [bad_repayment] 3" by (simp add: wf_chain_def bad_repayment_def repayment_def)
  have st: "idx_reach True demo_env 10 100 [''CA''] [bad_repayment] 3 empty_idx"
    by (rule idx_reach.start [OF wf]) (simp_all add: empty_idx_def)
  from unstorable_event_blocks [OF st _ _ _ e] show ?thesis by (simp add: bad_repayment_def repayment_def)
qed

theorem reindex_complete_witness:
  "\<exists>r s'. reindexRange 5 demo_env 3 (demo_rpc [repayment]) calm 2 ''CA'' 1 3 empty_idx = Some (r, s') \<and>
     indexer_state s' = []"
proof -
  have "\<exists>r s'. reindexRange 5 demo_env 3 (demo_rpc [repayment]) calm 2 ''CA'' 1 3 empty_idx = Some (r, s') \<and>
    indexer_state s' = indexer_state empty_idx \<and>
    (\<forall>x. r = Inr x \<longrightarrow> lastReindexed x = 3 \<and>
       (\<forall>ev \<in> set [repayment]. rawContract ev = ''CA'' \<and> 1 \<le> rawLedger ev \<and> rawLedger ev \<le> 3 \<longrightarrow>
          handled True demo_env s' ev))"
    by (rule reindex_complete [OF demo_rpc_serves _ demo_chain]) (simp_all add: calm_def)
  then show ?thesis by (auto simp: empty_idx_def)
qed

end
