(* ===== verification/DefaultChecker.thy ===== *)
theory DefaultChecker
  imports WorkerPool IndexerPoll
begin

text \<open>
  \<open>src/backend/src/services/defaultChecker.ts\<close>: which loans are overdue, the run that submits them to
  \<open>check_defaults\<close> in batches, the lock that keeps runs apart, and the reconciliation of what a loan owes with
  what was paid. Everything that the Stellar SDK and the network do with a batch is the parameter
  \<open>submit\<close>, an outcome and the time it took. A missing environment variable and an empty one are the
  same, as in the code.
\<close>

section \<open>Reconciliation of one loan\<close>

record loan_reconciliation =
  recLoanId :: int
  owedStroops :: int
  paidStroops :: int
  driftStroops :: int
  owedDisplay :: string
  paidDisplay :: string

definition amount_rows :: "int \<Rightarrow> event_row list \<Rightarrow> event_row list" where
  "amount_rows loan tbl =
     filter (\<lambda>r. loan_id r = Some loan \<and> event_type r \<in> {''LoanApproved'', ''LoanRepaid''} \<and> amount r \<noteq> None) tbl"

fun sum_rows :: "event_row list \<Rightarrow> int \<times> int \<Rightarrow> int \<times> int" where
  "sum_rows [] acc = acc"
| "sum_rows (r # rs) (owed, paid) =
     (let amt = the (amount r) in
      if event_type r = ''LoanApproved'' then sum_rows rs (owed + amt, paid)
      else sum_rows rs (owed, paid + amt))"

definition reconcileLoanStroops :: "int \<Rightarrow> event_row list \<Rightarrow> loan_reconciliation" where
  "reconcileLoanStroops loan tbl =
     (case sum_rows (amount_rows loan tbl) (0, 0) of
        (owed, paid) \<Rightarrow>
          (let principalPaid = (if paid > owed then owed else paid)
           in \<lparr>recLoanId = loan, owedStroops = owed, paidStroops = principalPaid,
               driftStroops = owed - principalPaid, owedDisplay = fromStroops owed,
               paidDisplay = fromStroops principalPaid\<rparr>))"

section \<open>Overdue loans\<close>

record checker_config =
  contractId :: string
  termLedgers :: int
  checkBatchSize :: nat
  batchTimeoutMs :: int
  maxLoansPerRun :: nat
  concurrency :: nat

definition DEFAULT_TERM_LEDGERS :: int where "DEFAULT_TERM_LEDGERS = 17280"
definition LOCK_KEY :: string where "LOCK_KEY = ''default_checker:running''"
definition CHECKER_LOCK_TTL :: seconds where "CHECKER_LOCK_TTL = 600"

definition checker_settings :: "(string \<Rightarrow> string option) \<Rightarrow> checker_config" where
  "checker_settings getenv =
     \<lparr>contractId = (case env_set (getenv ''LOAN_MANAGER_CONTRACT_ID'') of None \<Rightarrow> [] | Some c \<Rightarrow> c),
      termLedgers = parsePositiveInt (getenv ''LOAN_TERM_LEDGERS'') DEFAULT_TERM_LEDGERS,
      checkBatchSize = nat (parsePositiveInt (getenv ''DEFAULT_CHECK_BATCH_SIZE'') 25),
      batchTimeoutMs = parsePositiveInt (getenv ''DEFAULT_CHECK_BATCH_TIMEOUT_MS'') (5 * 60 * 1000),
      maxLoansPerRun = nat (parsePositiveInt (getenv ''DEFAULT_CHECK_MAX_LOANS_PER_RUN'') 500),
      concurrency = nat (parsePositiveInt (getenv ''DEFAULT_CHECK_CONCURRENCY'') 3)\<rparr>"

text \<open>The common table expressions \<open>approved\<close> and \<open>active\<close>: the loans with an approval and without
  a repayment or default, and the ledger each is due at.\<close>

definition approved_ledger :: "event_row list \<Rightarrow> int \<Rightarrow> int option" where
  "approved_ledger tbl l = sql_max (map (\<lambda>r. Some (ledger r)) (rows_of l ''LoanApproved'' tbl))"

definition approved_loans :: "event_row list \<Rightarrow> int list" where
  "approved_loans tbl = remdups (List.map_filter loan_id (filter (\<lambda>r. event_type r = ''LoanApproved'') tbl))"

definition active_loans :: "int \<Rightarrow> event_row list \<Rightarrow> (int \<times> int) list" where
  "active_loans term tbl =
     map (\<lambda>l. (l, (case approved_ledger tbl l of None \<Rightarrow> 0 | Some a \<Rightarrow> a) + term))
       (filter (\<lambda>l. \<not> exists_event l [''LoanRepaid'', ''LoanDefaulted''] tbl) (approved_loans tbl))"

definition overdue_loans :: "int \<Rightarrow> event_row list \<Rightarrow> int \<Rightarrow> (int \<times> int) list" where
  "overdue_loans term tbl currentLedger = filter (\<lambda>(l, due). due < currentLedger) (active_loans term tbl)"

text \<open>\<open>ORDER BY due_ledger, loan_id LIMIT\<close>; sorting is stable.\<close>

definition fetchOverdueLoanIds :: "checker_config \<Rightarrow> event_row list \<Rightarrow> int \<Rightarrow> int list" where
  "fetchOverdueLoanIds cfg tbl currentLedger =
     filter (\<lambda>i. i > 0) (map fst (take (maxLoansPerRun cfg)
       (sort_key snd (sort_key fst (overdue_loans (termLedgers cfg) tbl currentLedger)))))"

record overdue_stats =
  overdueCount :: nat
  oldestDueLedger :: "int option"
  ledgersPastOldestDue :: "int option"

definition fetchOverdueStats :: "checker_config \<Rightarrow> event_row list \<Rightarrow> int \<Rightarrow> overdue_stats" where
  "fetchOverdueStats cfg tbl currentLedger =
     (let overdue = overdue_loans (termLedgers cfg) tbl currentLedger;
          oldest = sql_min (map (\<lambda>p. Some (snd p)) overdue)
      in \<lparr>overdueCount = length overdue, oldestDueLedger = oldest,
          ledgersPastOldestDue = map_option (\<lambda>d. max 0 (currentLedger - d)) oldest\<rparr>)"

section \<open>Batches\<close>

record batch_result =
  brLoanIds :: "int list"
  txHash :: "string option"
  submitStatus :: "string option"
  txStatus :: "string option"
  brError :: "string option"
  timedOut :: bool

datatype submission =
    Rejected string
  | PrepareFailed string
  | SendFailed string
  | Sent "string option" "string option" "string option"

definition no_result :: "int list \<Rightarrow> batch_result" where
  "no_result loanIds = \<lparr>brLoanIds = loanIds, txHash = None, submitStatus = None, txStatus = None,
     brError = None, timedOut = False\<rparr>"

definition submitCheckDefaults :: "submission \<Rightarrow> int list \<Rightarrow> string + batch_result" where
  "submitCheckDefaults outcome loanIds =
     (case outcome of
        Rejected msg \<Rightarrow> Inl msg
      | PrepareFailed msg \<Rightarrow> Inr ((no_result loanIds)\<lparr>brError := Some (''prepareTransaction failed: '' @ msg)\<rparr>)
      | SendFailed msg \<Rightarrow> Inr ((no_result loanIds)\<lparr>brError := Some (''sendTransaction failed: '' @ msg)\<rparr>)
      | Sent hash status polled \<Rightarrow>
          (case env_set hash of
             None \<Rightarrow> Inr ((no_result loanIds)\<lparr>submitStatus := status,
                       brError := Some ''sendTransaction returned no hash''\<rparr>)
           | Some h \<Rightarrow> Inr ((no_result loanIds)\<lparr>txHash := Some h, submitStatus := status, txStatus := polled\<rparr>)))"

definition submitCheckDefaultsWithTimeout ::
  "checker_config \<Rightarrow> (int list \<Rightarrow> submission \<times> ms) \<Rightarrow> int list \<Rightarrow> batch_result" where
  "submitCheckDefaultsWithTimeout cfg submit loanIds =
     (case submit loanIds of
        (outcome, elapsed) \<Rightarrow>
          if elapsed \<ge> batchTimeoutMs cfg then
            (no_result loanIds)\<lparr>timedOut := True,
              brError := Some (''batch timed out after '' @ show_int (batchTimeoutMs cfg) @ ''ms'')\<rparr>
          else
            (case submitCheckDefaults outcome loanIds of
               Inl msg \<Rightarrow> (no_result loanIds)\<lparr>brError := Some (''default check batch failed: '' @ msg)\<rparr>
             | Inr r \<Rightarrow> r))"

section \<open>A run\<close>

record run_result =
  currentLedger :: int
  stats :: overdue_stats
  loansChecked :: nat
  successfulSubmissions :: nat
  failedSubmissions :: nat
  batches :: "batch_result list"
  skipped :: bool

text \<open>What a run finds: the environment, the gate of the indexer, the ledger the RPC announces (\<open>None\<close> for
  a failing call), whether the database answers, and the table.\<close>

record run_env =
  cfg :: checker_config
  adminSecret :: "string option"
  valid_secret :: "string \<Rightarrow> bool"
  gaps_db_up :: bool
  checkpoints :: "checkpoint list"
  announced :: "int option"
  events_db_up :: bool
  event_table :: "event_row list"
  submit :: "int list \<Rightarrow> submission \<times> ms"

definition assertConfigured :: "run_env \<Rightarrow> http_error + string" where
  "assertConfigured V =
     (if contractId (cfg V) = [] then
        Inl (internal ''Default checker misconfiguration: LOAN_MANAGER_CONTRACT_ID is not set'' None)
      else (case env_set (adminSecret V) of
              None \<Rightarrow> Inl (internal ''Default checker misconfiguration: LOAN_MANAGER_ADMIN_SECRET is not set'' None)
            | Some secret \<Rightarrow>
                (if valid_secret V secret then Inr secret
                 else Inl (internal ''Default checker misconfiguration: LOAN_MANAGER_ADMIN_SECRET is invalid'' None))))"

definition hasSuspectLedgerRanges :: "run_env \<Rightarrow> bool" where
  "hasSuspectLedgerRanges V =
     (if contractId (cfg V) = [] then False
      else hasUnresolvedLedgerGaps (gaps_db_up V) (contractId (cfg V)) (checkpoints V))"

definition explicit_ids :: "int list option \<Rightarrow> int list option" where
  "explicit_ids loanIds = map_option (\<lambda>is. rev (remdups (rev (filter (\<lambda>i. i > 0) is)))) loanIds"

definition target_ids :: "run_env \<Rightarrow> int \<Rightarrow> int list option \<Rightarrow> int list" where
  "target_ids V current loanIds =
     (case explicit_ids loanIds of
        Some (i # is) \<Rightarrow> i # is
      | _ \<Rightarrow> fetchOverdueLoanIds (cfg V) (event_table V) current)"

definition run_batches :: "run_env \<Rightarrow> int list \<Rightarrow> batch_result list" where
  "run_batches V targetIds =
     map (submitCheckDefaultsWithTimeout (cfg V) (submit V))
       (filter (\<lambda>b. b \<noteq> []) (chunk (checkBatchSize (cfg V)) targetIds))"

definition run_body :: "run_env \<Rightarrow> int list option \<Rightarrow> http_error + run_result" where
  "run_body V loanIds =
     and_then (assertConfigured V) (\<lambda>_.
       if hasSuspectLedgerRanges V then
         Inr \<lparr>currentLedger = 0,
              stats = \<lparr>overdueCount = 0, oldestDueLedger = None, ledgersPastOldestDue = None\<rparr>,
              loansChecked = 0, successfulSubmissions = 0, failedSubmissions = 0, batches = [], skipped = True\<rparr>
       else
         (case announced V of
            None \<Rightarrow> Inl (Thrown ''getLatestLedger failed'')
          | Some current \<Rightarrow>
              (if \<not> events_db_up V then Inl (Thrown ''database error'')
               else
                 (let ids = target_ids V current loanIds;
                      results = run_batches V ids
                  in Inr \<lparr>currentLedger = current, stats = fetchOverdueStats (cfg V) (event_table V) current,
                          loansChecked = length ids,
                          successfulSubmissions = length (filter (\<lambda>b. brError b = None \<and> txHash b \<noteq> None) results),
                          failedSubmissions = length (filter (\<lambda>b. brError b \<noteq> None \<or> txHash b = None) results),
                          batches = results, skipped = False\<rparr>))))"

text \<open>The lock is taken before the body and given back after it, whatever the body does. Each process keeps
  the value of the lock it holds in one field, \<open>currentLockValue\<close>; the state is that field and the
  cache. The argument \<open>lockValue\<close> is the random value of this run.\<close>

type_synonym 's locker = "string option \<times> 's cache"

definition acquireLock :: "'s redis \<Rightarrow> server \<Rightarrow> ms \<Rightarrow> string \<Rightarrow> 's locker \<Rightarrow> bool \<times> 's locker" where
  "acquireLock R srv now lockValue st =
     (case setNotExists R srv now LOCK_KEY (JStr lockValue) CHECKER_LOCK_TTL (snd st) of
        (acquired, c) \<Rightarrow> (acquired, (if acquired then Some lockValue else fst st), c))"

definition releaseLock :: "'s redis \<Rightarrow> server \<Rightarrow> ms \<Rightarrow> 's locker \<Rightarrow> 's locker" where
  "releaseLock R srv now st =
     (None, (case fst st of
               None \<Rightarrow> snd st
             | Some v \<Rightarrow> snd (deleteIfMatch R srv now LOCK_KEY v (snd st))))"

definition checkOverdueLoans ::
  "'s redis \<Rightarrow> server \<Rightarrow> server \<Rightarrow> ms \<Rightarrow> ms \<Rightarrow> string \<Rightarrow> run_env \<Rightarrow> int list option \<Rightarrow> 's locker \<Rightarrow>
     (http_error + run_result option) \<times> 's locker" where
  "checkOverdueLoans R srv srv' started ended lockValue V loanIds st =
     (case acquireLock R srv started lockValue st of
        (False, st1) \<Rightarrow> (Inr None, st1)
      | (True, st1) \<Rightarrow> (map_sum id Some (run_body V loanIds), releaseLock R srv' ended st1))"

section \<open>Which loans are overdue\<close>

definition overdue :: "int \<Rightarrow> event_row list \<Rightarrow> int \<Rightarrow> int \<Rightarrow> bool" where
  "overdue term tbl current l \<longleftrightarrow>
     (\<exists>r \<in> set tbl. loan_id r = Some l \<and> event_type r = ''LoanApproved'') \<and>
     (\<forall>r \<in> set tbl. loan_id r = Some l \<longrightarrow>
        event_type r \<notin> {''LoanRepaid'', ''LoanDefaulted''} \<and>
        (event_type r = ''LoanApproved'' \<longrightarrow> ledger r + term < current))"

lemma in_approved: "l \<in> set (approved_loans tbl) \<longleftrightarrow>
    (\<exists>r \<in> set tbl. loan_id r = Some l \<and> event_type r = ''LoanApproved'')"
  by (force simp: approved_loans_def map_filter_def)

lemma sql_max_some: "xs \<noteq> [] \<Longrightarrow> \<exists>m. sql_max (map Some xs) = Some m \<and> m \<in> set xs \<and> (\<forall>x \<in> set xs. x \<le> m)"
proof -
  assume "xs \<noteq> []"
  then obtain y ys where xs: "xs = y # ys" by (cases xs) auto
  have id: "List.map_filter id (map Some zs) = zs" for zs :: "int list"
    by (induction zs) (auto simp: map_filter_simps)
  have "sql_max (map Some xs) = Some (foldl max y ys)" unfolding sql_max_def id by (simp add: xs)
  then show ?thesis using foldl_max_in [of y ys] foldl_max_ge [of y ys] by (auto simp: xs)
qed

lemma approved_ledger_max:
  assumes "l \<in> set (approved_loans tbl)"
  shows "\<exists>m. approved_ledger tbl l = Some m \<and> m \<in> ledger ` set (rows_of l ''LoanApproved'' tbl) \<and>
    (\<forall>r \<in> set (rows_of l ''LoanApproved'' tbl). ledger r \<le> m)"
proof -
  have "rows_of l ''LoanApproved'' tbl \<noteq> []"
    using assms by (auto simp: in_approved rows_of_def filter_empty_conv)
  then show ?thesis
    using sql_max_some [of "map ledger (rows_of l ''LoanApproved'' tbl)"]
    by (auto simp: approved_ledger_def comp_def)
qed

lemma active_iff:
  "(l, d) \<in> set (active_loans term tbl) \<longleftrightarrow>
     l \<in> set (approved_loans tbl) \<and> \<not> exists_event l [''LoanRepaid'', ''LoanDefaulted''] tbl \<and>
     d = (case approved_ledger tbl l of None \<Rightarrow> 0 | Some a \<Rightarrow> a) + term"
  by (auto simp: active_loans_def)

lemma overdue_iff: "l \<in> fst ` set (overdue_loans term tbl current) \<longleftrightarrow> overdue term tbl current l"
proof (cases "l \<in> set (approved_loans tbl)")
  case False
  then show ?thesis by (auto simp: overdue_loans_def active_iff overdue_def in_approved)
next
  case True
  obtain m where m: "approved_ledger tbl l = Some m" "m \<in> ledger ` set (rows_of l ''LoanApproved'' tbl)"
    "\<forall>r \<in> set (rows_of l ''LoanApproved'' tbl). ledger r \<le> m"
    using approved_ledger_max [OF True] by blast
  have "(m + term < current) \<longleftrightarrow>
      (\<forall>r \<in> set tbl. loan_id r = Some l \<and> event_type r = ''LoanApproved'' \<longrightarrow> ledger r + term < current)"
    using m(2,3) by (auto simp: rows_of_def intro: order.strict_trans1)
  then show ?thesis
    using True m(1)
    by (auto simp: overdue_loans_def active_iff overdue_def in_approved exists_event_def list_ex_iff image_iff)
qed

lemma distinct_overdue: "distinct (map fst (overdue_loans term tbl current))"
proof -
  have "map fst (active_loans term tbl) =
      filter (\<lambda>l. \<not> exists_event l [''LoanRepaid'', ''LoanDefaulted''] tbl) (approved_loans tbl)"
    by (simp add: active_loans_def comp_def)
  then have "distinct (map fst (active_loans term tbl))" by (simp add: approved_loans_def)
  then show ?thesis unfolding overdue_loans_def by (rule distinct_map_filter)
qed

lemma take_drop_sorted:
  assumes "sorted (map f xs)" "x \<in> set (take n xs)" "y \<in> set xs" "y \<notin> set (take n xs)"
  shows "f x \<le> f y"
proof -
  have "y \<in> set (drop n xs)" using assms(3,4) by (metis Un_iff append_take_drop_id set_append)
  moreover have "sorted (map f (take n xs) @ map f (drop n xs))"
    using assms(1) by (metis append_take_drop_id map_append)
  ultimately show ?thesis using assms(2) by (auto simp: sorted_append)
qed

section \<open>Rows of approvals\<close>

definition approvals_unpriced :: "event_row list \<Rightarrow> bool" where
  "approvals_unpriced tbl \<longleftrightarrow> (\<forall>r \<in> set tbl. event_type r = ''LoanApproved'' \<longrightarrow> amount r = None)"

lemma native_pair:
  assumes "(case data of NArr (d0 # d1 # ds) \<Rightarrow> f d0 d1 ds | _ \<Rightarrow> Inl x) = Inr y"
  shows "\<exists>d0 d1 ds. data = NArr (d0 # d1 # ds) \<and> f d0 d1 ds = Inr y"
proof (cases data)
  case (NArr xs)
  with assms show ?thesis by (cases xs; cases "tl xs"; simp)
qed (use assms in simp_all)

lemma parse_LoanApproved_unpriced: "parse_LoanApproved C ev = Inr (Some d) \<Longrightarrow> evAmount d = None"
  by (auto simp: parse_LoanApproved_def and_then_eq_Inr with_topic_def undecoded_def
      dest!: native_pair split: option.split_asm if_split_asm)

lemma parsed_approval_unpriced:
  assumes "parseEvent C ev = Inr (Some e)" "evType e = ''LoanApproved''"
  shows "evAmount e = None"
proof -
  have pf: "parse_fields C ''LoanApproved'' ev = parse_LoanApproved C ev" by (simp add: parse_fields_def)
  obtain type where t: "decodeEventType C (topic_at 0 ev) = Some type"
    using assms(1) by (cases "decodeEventType C (topic_at 0 ev)") (auto simp: parseEvent_def)
  obtain d where d: "parse_fields C type ev = Inr (Some d)" "evType e = type" "evAmount e = evAmount d"
    using assms(1) unfolding parseEvent_def t by (auto simp: and_then_eq_Inr split: option.splits)
  show ?thesis using parse_LoanApproved_unpriced [of C ev d] d pf assms(2) by metis
qed

lemma row_of_approval:
  assumes "row_of E e = Some r" "evType e = ''LoanApproved'' \<longrightarrow> evAmount e = None"
  shows "event_type r = ''LoanApproved'' \<longrightarrow> amount r = None"
  using assms by (auto simp: row_of_def numeric_column_def split: option.splits if_splits)

lemma sum_rows_unpriced:
  "(\<forall>r \<in> set rs. event_type r \<noteq> ''LoanApproved'') \<Longrightarrow>
     sum_rows rs (owed, paid) = (owed, paid + sum_list (map (\<lambda>r. the (amount r)) rs))"
  by (induction rs arbitrary: paid) (auto simp: Let_def)

text \<open>The rows that a batch adds come from its parsed events.\<close>

lemma tx_event_rows: "tx_event E e t = (t', err) \<Longrightarrow>
    set (tx_rows t') \<subseteq> set (tx_rows t) \<union> {r. row_of E e = Some r}"
  by (auto simp: tx_event_def insert_event_def Let_def
      split: option.splits if_splits dest!: spend_fields audit_event_fields)

lemma tx_events_rows: "tx_events E es t = (t', err) \<Longrightarrow>
    set (tx_rows t') \<subseteq> set (tx_rows t) \<union> {r. \<exists>e \<in> set es. row_of E e = Some r}"
proof (induction es arbitrary: t)
  case (Cons e es)
  obtain t1 err1 where e: "tx_event E e t = (t1, err1)" by fastforce
  note r1 = tx_event_rows [OF e]
  show ?case
  proof (cases err1)
    case None
    then have "tx_events E es t1 = (t', err)" using Cons.prems e by simp
    from Cons.IH [OF this] r1 show ?thesis by auto
  qed (use Cons.prems e r1 in auto)
qed simp

lemma tx_attempt_rows:
  assumes "tx_attempt E F es t sc = (t', None, sc')"
  shows "set (tx_rows t') \<subseteq> set (tx_rows t) \<union> {r. \<exists>e \<in> set es. row_of E e = Some r}"
proof -
  obtain t1 where t1: "tx_events E es t = (t1, None)" and r: "tx_rows t' = tx_rows t1"
    using assms
    by (auto simp: tx_attempt_def tx_scores_def split: prod.splits option.splits sum.splits if_splits
        dest!: spend_fields)
  show ?thesis unfolding r by (rule tx_events_rows [OF t1])
qed

lemma withTransaction_rows:
  "withTransaction retries att E F es ins upd s = (Inr ins', s') \<Longrightarrow>
     set (contract_events s') \<subseteq> set (contract_events s) \<union> {r. \<exists>e \<in> set es. row_of E e = Some r}"
proof (induction retries arbitrary: att ins upd s)
  case 0
  then show ?case
    by (subst (asm) withTransaction.simps)
       (fastforce simp: Let_def split: prod.splits option.splits dest!: tx_attempt_rows)
next
  case (Suc n)
  show ?case
    using Suc.prems Suc.IH
    by (subst (asm) withTransaction.simps)
       (fastforce simp: Let_def split: prod.splits option.splits if_splits dest!: tx_attempt_rows)
qed

lemma store_rows:
  assumes "storeEvents E F evs s = (r, s')"
  shows "set (contract_events s') \<subseteq> set (contract_events s) \<union>
    {r. \<exists>e \<in> set (parsed_of E evs). row_of E e = Some r}"
proof -
  obtain es n s1 where p: "parse_batch E F evs s = (es, n, s1)" by (metis prod_cases3)
  define s2 where "s2 = (if n > 0 then logQuarantineGrowth E F s1 else s1)"
  note ph = parse_phase [OF p s2_def]
  show ?thesis
  proof (cases "es = []")
    case True
    then show ?thesis using assms p ph by (auto simp: storeEvents_def s2_def [symmetric] same_tables_def)
  next
    case False
    obtain res s3 where w: "withTransaction 3 0 E F es [] [] s2 = (res, s3)" by fastforce
    show ?thesis
    proof (cases res)
      case (Inl err)
      obtain c where "s3 = s2\<lparr>scoring := (scoring s2)\<lparr>score_cache := c\<rparr>\<rparr>"
        using withTransaction_rollback w Inl by blast
      then show ?thesis using assms p ph w Inl False
        by (auto simp: storeEvents_def s2_def [symmetric] same_tables_def)
    next
      case (Inr inserted)
      obtain res4 where pc: "post_commit E F inserted s3 = (res4, s')"
        using assms p w Inr False
        by (auto simp: storeEvents_def s2_def [symmetric] split: prod.splits sum.splits)
      show ?thesis
        using withTransaction_rows [OF w [unfolded Inr]] post_commit_keeps [OF pc] ph
        by (auto simp: same_tables_def)
    qed
  qed
qed

fun store_batches :: "('v, 's) idx_env \<Rightarrow> (faults \<times> 'v raw_event list) list \<Rightarrow> 's idx \<Rightarrow> 's idx" where
  "store_batches E [] s = s"
| "store_batches E ((F, evs) # bs) s = store_batches E bs (snd (storeEvents E F evs s))"

lemma store_batches_unpriced:
  "approvals_unpriced (contract_events s) \<Longrightarrow> approvals_unpriced (contract_events (store_batches E bs s))"
proof (induction E bs s rule: store_batches.induct)
  case (2 E F evs bs s)
  obtain r s' where st: "storeEvents E F evs s = (r, s')" by fastforce
  have "amount x = None"
    if x: "x \<in> set (contract_events s')" "event_type x = ''LoanApproved''" for x
  proof (cases "x \<in> set (contract_events s)")
    case True
    then show ?thesis using "2.prems" x by (simp add: approvals_unpriced_def)
  next
    case False
    then obtain e where e: "e \<in> set (parsed_of E evs)" "row_of E e = Some x"
      using store_rows [OF st] x(1) by blast
    then show ?thesis
      using row_of_approval [OF e(2)] parsed_approval_unpriced x(2) by (auto simp: in_parsed_of)
  qed
  then have "approvals_unpriced (contract_events (snd (storeEvents E F evs s)))"
    by (simp add: st approvals_unpriced_def)
  then show ?case using "2.IH" by simp
qed simp

section \<open>Properties\<close>



text \<open>(C16) Runs exclude each other for ten minutes. While the lock of a run is younger than that, a run of this or
  any other process does nothing; a run gives its lock back when it ends in time, whether its body fails or
  not; a run of another process that has outlived its lock does not take away that of its successor.
  But a run of the same process does: the process remembers one lock value only, so the end of the old run
  releases the lock of the new one, which then runs unprotected.\<close>

theorem runs_exclude_each_other:
  assumes R: "redis_server R view" and acq: "acquireLock R Up t v st = (True, cur, c1)"
  shows "(t' < t + 600000 \<longrightarrow>
      fst (checkOverdueLoans R Up srv t' e' v' V ids (cur', c1)) = Inr None \<and>
      held view u LOCK_KEY (snd (snd (checkOverdueLoans R Up srv t' e' v' V ids (cur', c1)))) =
        held view u LOCK_KEY c1) \<and>
    (e < t + 600000 \<longrightarrow> held view u LOCK_KEY (snd (snd (checkOverdueLoans R Up Up t e v V ids st))) = None) \<and>
    (w \<noteq> v \<longrightarrow> held view u LOCK_KEY (snd (releaseLock R Up e (Some w, c1))) = held view u LOCK_KEY c1) \<and>
    (acquireLock R Up t' v' (cur, c1) = (True, st2) \<and> e < t' + 600000 \<longrightarrow>
      held view u LOCK_KEY (snd (releaseLock R Up e st2)) = None)"
proof -
  note L = redis_server.is_lease_store [OF R]
  have got: "setNotExists R Up n LOCK_KEY (JStr x) CHECKER_LOCK_TTL (snd s) = (True, snd s') \<and> fst s' = Some x"
    if "acquireLock R Up n x s = (True, s')" for n x s s'
    using that by (auto simp: acquireLock_def split: prod.splits)
  have acq': "setNotExists R Up t LOCK_KEY (JStr v) CHECKER_LOCK_TTL (snd st) = (True, c1)" and cur: "cur = Some v"
    using got [OF acq] by simp_all
  have ttl: "1000 * CHECKER_LOCK_TTL = 600000" by (simp add: CHECKER_LOCK_TTL_def)
  have 1: "fst (checkOverdueLoans R Up srv t' e' v' V ids (cur', c1)) = Inr None \<and>
      held view u LOCK_KEY (snd (snd (checkOverdueLoans R Up srv t' e' v' V ids (cur', c1)))) = held view u LOCK_KEY c1"
    if "t' < t + 600000"
  proof -
    obtain b c2 where a2: "setNotExists R Up t' LOCK_KEY (JStr v') CHECKER_LOCK_TTL c1 = (b, c2)" by fastforce
    have nb: "\<not> b"
      using lease_store.mutual_exclusion [OF L acq', of t' "JStr v'" CHECKER_LOCK_TTL] that a2
      by (simp add: ttl)
    then have "held view u LOCK_KEY c2 = held view u LOCK_KEY c1"
      using lease_store.acquire_refused [OF L, of t' LOCK_KEY "JStr v'" CHECKER_LOCK_TTL c1 u LOCK_KEY] a2 by simp
    with nb show ?thesis by (simp add: checkOverdueLoans_def acquireLock_def a2)
  qed
  have own: "held view u LOCK_KEY (snd (releaseLock R Up d (Some x, c))) = None"
    if "setNotExists R Up n LOCK_KEY (JStr x) CHECKER_LOCK_TTL c0 = (True, c)" "d < n + 600000" for n x c0 c d
    using lease_store.release_own [OF L that(1), of d u] that(2) by (simp add: ttl releaseLock_def)
  have 2: "held view u LOCK_KEY (snd (snd (checkOverdueLoans R Up Up t e v V ids st))) = None" if "e < t + 600000"
    using own [OF acq' that] by (simp add: checkOverdueLoans_def acq cur)
  have 3: "held view u LOCK_KEY (snd (releaseLock R Up e (Some w, c1))) = held view u LOCK_KEY c1" if "w \<noteq> v"
    using lease_store.release_refused [OF L lease_store.stale_release_refused [OF L acq' that]]
    by (simp add: releaseLock_def)
  have 4: "held view u LOCK_KEY (snd (releaseLock R Up e st2)) = None"
    if "acquireLock R Up t' v' (cur, c1) = (True, st2)" "e < t' + 600000"
    using own [OF conjunct1 [OF got [OF that(1)]] that(2)] got [OF that(1)] by (metis prod.collapse)
  show ?thesis using 1 2 3 4 by blast
qed

text \<open>The reconciliation never sees what was lent. Whatever batches of chain events the indexer has stored,
  no \<open>LoanApproved\<close> row of the table has an amount, so the owed stroops of every loan come out as
  zero, the paid ones are capped at zero, and unless some repayment is negative the drift is zero for every loan, repaid
  or not.\<close>

theorem reconcile_no_drift:
  assumes "contract_events s = []" "tbl = contract_events (store_batches E bs s)"
  shows "owedStroops (reconcileLoanStroops l tbl) = 0 \<and> paidStroops (reconcileLoanStroops l tbl) \<le> 0 \<and>
    ((\<forall>r \<in> set (amount_rows l tbl). 0 \<le> the (amount r)) \<longrightarrow>
       paidStroops (reconcileLoanStroops l tbl) = 0 \<and> driftStroops (reconcileLoanStroops l tbl) = 0)"
proof -
  have "approvals_unpriced tbl" unfolding assms(2)
    by (rule store_batches_unpriced) (simp add: assms(1) approvals_unpriced_def)
  then have "\<forall>r \<in> set (amount_rows l tbl). event_type r \<noteq> ''LoanApproved''"
    by (auto simp: amount_rows_def approvals_unpriced_def)
  then have s: "sum_rows (amount_rows l tbl) (0, 0) = (0, sum_list (map (\<lambda>r. the (amount r)) (amount_rows l tbl)))"
    by (simp add: sum_rows_unpriced)
  have nn: "0 \<le> sum_list (map (\<lambda>r. the (amount r)) rs)" if "\<forall>r \<in> set rs. 0 \<le> the (amount r)" for rs
    using that by (intro sum_list_nonneg) auto
  show ?thesis using nn [of "amount_rows l tbl"] by (auto simp: reconcileLoanStroops_def s Let_def)
qed

section \<open>Witnesses\<close>

definition approval_row :: "string \<Rightarrow> int \<Rightarrow> int \<Rightarrow> event_row" where
  "approval_row i l n = \<lparr>event_id = i, event_type = ''LoanApproved'', loan_id = Some l, address = None,
     amount = None, ledger = n, ledger_closed_at = 0, tx_hash = ''t'', contract_id = ''CA'',
     interest_rate_bps = None, term_ledgers = None\<rparr>"

definition demo_cfg :: checker_config where
  "demo_cfg = \<lparr>contractId = ''CA'', termLedgers = 5, checkBatchSize = 2, batchTimeoutMs = 1000, maxLoansPerRun = 1,
     concurrency = 3\<rparr>"

definition demo_run :: run_env where
  "demo_run = \<lparr>cfg = demo_cfg, adminSecret = Some ''S'', valid_secret = (\<lambda>_. True), gaps_db_up = True,
     checkpoints = [], announced = Some 20, events_db_up = True,
     event_table = [approval_row ''a'' 9 4, approval_row ''b'' 8 3, approval_row ''c'' 7 19, repaid_row],
     submit = (\<lambda>b. (Sent (Some ''h'') None None, 10))\<rparr>"



theorem runs_exclude_each_other_witness:
  "\<exists>cur c1. acquireLock mem_redis Up 0 ''v'' (None, \<lparr>client = (\<lambda>_. None), isConnected = True\<rparr>) = (True, cur, c1) \<and>
     fst (checkOverdueLoans mem_redis Up Up 1000 2000 ''w'' demo_run None (None, c1)) = Inr None"
proof -
  let ?c = "\<lparr>client = (\<lambda>_. None), isConnected = True\<rparr> :: mem_state cache"
  have "fst (acquireLock mem_redis Up 0 ''v'' (None, ?c))" by code_simp
  then obtain cur c1 where c1: "acquireLock mem_redis Up 0 ''v'' (None, ?c) = (True, cur, c1)"
    by (metis (full_types) prod.collapse)
  show ?thesis using c1 runs_exclude_each_other [OF redis_server_mem c1, of 1000] by simp
qed

theorem reconcile_no_drift_witness:
  "driftStroops (reconcileLoanStroops 7 (contract_events (store_batches demo_env [(calm, [repayment])] empty_idx))) = 0"
proof -
  let ?tbl = "contract_events (store_batches demo_env [(calm, [repayment])] empty_idx)"
  obtain r s' where st: "storeEvents demo_env calm [repayment] empty_idx = (r, s')" by fastforce
  have e: "contract_events empty_idx = []" by (simp add: empty_idx_def)
  have "set ?tbl \<subseteq> {repaid_row}"
    using store_rows [OF st] by (auto simp: st repayment_parsed_of repaid_event_row e)
  then have "\<forall>r \<in> set (amount_rows 7 ?tbl). 0 \<le> the (amount r)"
    by (auto simp: amount_rows_def repaid_row_def)
  then show ?thesis
    using reconcile_no_drift [of empty_idx ?tbl demo_env "[(calm, [repayment])]" 7] by (simp only: e)
qed

end
