(* ===== verification/Pagination.thy ===== *)
theory Pagination
  imports Complex_Main AppErrors Json
begin

text \<open>
  \<open>src/backend/src/utils/pagination.ts\<close>: the parsing of the query parameters of a listing, the envelope
  of a page, and the opaque cursors of keyset pagination. What depends on the host is a parameter: reading and
  printing a date, \<open>parseFloat\<close>, and \<open>JSON.parse\<close> of UTF-8 text. A finite JavaScript number is
  the rational number that it is.
\<close>

section \<open>Query parameters\<close>

definition DEFAULT_LIMIT :: int where "DEFAULT_LIMIT = 50"
definition MAX_LIMIT :: int where "MAX_LIMIT = 100"

text \<open>A parameter is a string, a number that the validation has coerced (\<open>None\<close> when it is not finite),
  or something else.\<close>

datatype query_value = QStr string | QNum "rat option" | QOther

record host =
  date_of :: "string \<Rightarrow> ms option"
  iso :: "ms \<Rightarrow> string"
  float_of :: "string \<Rightarrow> rat option"
  json_of :: "string \<Rightarrow> string + json"

definition parsePositiveInteger :: "query_value \<Rightarrow> int \<Rightarrow> int option \<Rightarrow> int" where
  "parsePositiveInteger v fallback mx =
     (let parsed = (case v of
                      QNum q \<Rightarrow> q
                    | QStr s \<Rightarrow> map_option of_int (js_parseInt s)
                    | QOther \<Rightarrow> None)
      in case parsed of
           None \<Rightarrow> fallback
         | Some q \<Rightarrow>
             (if q < 0 then fallback
              else (case mx of None \<Rightarrow> \<lfloor>q\<rfloor> | Some m \<Rightarrow> min \<lfloor>q\<rfloor> m)))"

text \<open>The first two parts of a comma-separated value, when both are non-empty.\<close>

definition range_parts :: "query_value \<Rightarrow> (string \<times> string) option" where
  "range_parts v =
     (case v of
        QStr s \<Rightarrow>
          (case map js_trim (js_split CHR '','' s) of
             a # b # _ \<Rightarrow> if a = [] \<or> b = [] then None else Some (a, b)
           | _ \<Rightarrow> None)
      | _ \<Rightarrow> None)"

definition ordered_range :: "('a::linorder) option \<times> 'a option \<Rightarrow> ('a \<times> 'a) option" where
  "ordered_range p =
     (case p of (Some a, Some b) \<Rightarrow> Some (if a \<le> b then (a, b) else (b, a)) | _ \<Rightarrow> None)"

definition parseDateRange :: "host \<Rightarrow> query_value \<Rightarrow> (ms \<times> ms) option" where
  "parseDateRange H v =
     (case range_parts v of None \<Rightarrow> None | Some (a, b) \<Rightarrow> ordered_range (date_of H a, date_of H b))"

definition parseAmountRange :: "host \<Rightarrow> query_value \<Rightarrow> (rat \<times> rat) option" where
  "parseAmountRange H v =
     (case range_parts v of None \<Rightarrow> None | Some (a, b) \<Rightarrow> ordered_range (float_of H a, float_of H b))"

definition trimmed :: "query_value \<Rightarrow> string option" where
  "trimmed v = (case v of QStr s \<Rightarrow> if js_trim s = [] then None else Some (js_trim s) | _ \<Rightarrow> None)"

type_synonym query_params = "string \<Rightarrow> query_value"

record pagination_params =
  limit :: int
  offset :: int
  page_cursor :: "string option"
  sort_param :: "string option"
  status :: "string option"
  dateRange :: "(ms \<times> ms) option"
  amountRange :: "(rat \<times> rat) option"

definition parseQueryParams :: "host \<Rightarrow> query_params \<Rightarrow> pagination_params" where
  "parseQueryParams H q =
     \<lparr>limit = parsePositiveInteger (q ''limit'') DEFAULT_LIMIT (Some MAX_LIMIT),
      offset = parsePositiveInteger (q ''offset'') 0 None,
      page_cursor = None, sort_param = trimmed (q ''sort''), status = trimmed (q ''status''),
      dateRange = parseDateRange H (q ''date_range''), amountRange = parseAmountRange H (q ''amount_range'')\<rparr>"

definition parseCursorQueryParams :: "host \<Rightarrow> query_params \<Rightarrow> pagination_params" where
  "parseCursorQueryParams H q =
     \<lparr>limit = parsePositiveInteger (q ''limit'') DEFAULT_LIMIT (Some MAX_LIMIT),
      offset = 0,
      page_cursor = trimmed (q ''cursor''), sort_param = trimmed (q ''sort''), status = trimmed (q ''status''),
      dateRange = parseDateRange H (q ''date_range''), amountRange = parseAmountRange H (q ''amount_range'')\<rparr>"

datatype direction = ASC | DESC

definition getSortConfig ::
  "string option \<Rightarrow> string list \<Rightarrow> string \<Rightarrow> direction \<Rightarrow> string \<times> direction" where
  "getSortConfig srt allowedFields defaultField defaultDirection =
     (case env_set srt of
        None \<Rightarrow> (defaultField, defaultDirection)
      | Some s \<Rightarrow>
          (let desc = starts_with ''-'' s;
               requestedField = (if desc then tl s else s)
           in if requestedField \<notin> set allowedFields then (defaultField, defaultDirection)
              else (requestedField, if desc then DESC else ASC)))"

record 'a offset_page =
  pageData :: 'a
  totalCount :: int
  pageLimit :: int
  pageOffset :: int
  pageCount :: int
  has_previous :: bool
  has_next :: bool

definition createPaginatedResponse :: "'a \<Rightarrow> int \<Rightarrow> int \<Rightarrow> int \<Rightarrow> int \<Rightarrow> 'a offset_page" where
  "createPaginatedResponse d n l off cnt =
     \<lparr>pageData = d, totalCount = n, pageLimit = l, pageOffset = off, pageCount = cnt,
      has_previous = off > 0, has_next = off + cnt < n\<rparr>"

record 'a cursor_page =
  cpData :: 'a
  cpTotal :: "int option"
  cpLimit :: int
  cpCount :: int
  next_cursor :: "string option"
  cpPrevious :: bool
  cpNext :: bool

definition createCursorPaginatedResponse ::
  "'a \<Rightarrow> int option \<Rightarrow> int \<Rightarrow> int \<Rightarrow> string option \<Rightarrow> bool \<Rightarrow> 'a cursor_page" where
  "createCursorPaginatedResponse d n l cnt next prev =
     \<lparr>cpData = d, cpTotal = n, cpLimit = l, cpCount = cnt, next_cursor = next, cpPrevious = prev,
      cpNext = (next \<noteq> None)\<rparr>"

section \<open>Base64\<close>

definition base64_alphabet :: string where
  "base64_alphabet = ''ABCDEFGHIJKLMNOPQRSTUVWXYZabcdefghijklmnopqrstuvwxyz0123456789+/''"

text \<open>The six-bit groups of a list of bytes; the last group is filled with zero bits.\<close>

fun sextets :: "nat list \<Rightarrow> nat list" where
  "sextets [] = []"
| "sextets [a] = [a div 4, a mod 4 * 16]"
| "sextets [a, b] = [a div 4, a mod 4 * 16 + b div 16, b mod 16 * 4]"
| "sextets (a # b # c # bs) =
     [a div 4, a mod 4 * 16 + b div 16, b mod 16 * 4 + c div 64, c mod 64] @ sextets bs"

text \<open>And back; bits that do not fill a byte are dropped.\<close>

fun octets :: "nat list \<Rightarrow> nat list" where
  "octets (s # t # u # v # r) =
     [s * 4 + t div 16, t mod 16 * 16 + u div 4, u mod 4 * 64 + v] @ octets r"
| "octets [s, t, u] = [s * 4 + t div 16, t mod 16 * 16 + u div 4]"
| "octets [s, t] = [s * 4 + t div 16]"
| "octets [s] = []"
| "octets [] = []"

text \<open>\<open>buf.toString('base64')\<close>, with its padding, and \<open>Buffer.from(s, 'base64')\<close>, which passes over
  every character outside the alphabet and reads the alphabet of URLs as well.\<close>

definition to_base64 :: "string \<Rightarrow> string" where
  "to_base64 s =
     (let cs = map (\<lambda>n. base64_alphabet ! n) (sextets (map of_char s))
      in cs @ replicate ((4 - length cs mod 4) mod 4) CHR ''='')"

definition sextet_of :: "char \<Rightarrow> nat option" where
  "sextet_of c =
     (let n = of_char c :: nat in
      if 65 \<le> n \<and> n \<le> 90 then Some (n - 65)
      else if 97 \<le> n \<and> n \<le> 122 then Some (n - 71)
      else if 48 \<le> n \<and> n \<le> 57 then Some (n + 4)
      else if c \<in> {CHR ''+'', CHR ''-''} then Some 62
      else if c \<in> {CHR ''/'', CHR ''_''} then Some 63
      else None)"

definition from_base64 :: "string \<Rightarrow> string" where
  "from_base64 s = map char_of (octets (List.map_filter sextet_of s))"

definition replace_all :: "char \<Rightarrow> char \<Rightarrow> string \<Rightarrow> string" where
  "replace_all a b s = map (\<lambda>c. if c = a then b else c) s"

text \<open>The text that is encoded consists of ASCII characters, its own UTF-8 form.\<close>

definition base64urlEncode :: "string \<Rightarrow> string" where
  "base64urlEncode s =
     filter (\<lambda>c. c \<noteq> CHR ''='')
       (replace_all (CHR ''/'') (CHR ''_'') (replace_all (CHR ''+'') (CHR ''-'') (to_base64 s)))"

definition base64urlDecode :: "string \<Rightarrow> string" where
  "base64urlDecode s =
     (let padded = js_pad_end (length s + (4 - length s mod 4) mod 4) (CHR ''='') s
      in from_base64 (replace_all (CHR ''_'') (CHR ''/'') (replace_all (CHR ''-'') (CHR ''+'') padded)))"

section \<open>Cursors\<close>

record decoded_cursor =
  createdAt :: ms
  cursor_seq :: int

definition cursor_payload :: "string \<Rightarrow> string \<Rightarrow> json" where
  "cursor_payload t n = JObj [(''createdAt'', JStr t), (''seq'', JStr n)]"

definition encodeCursor :: "host \<Rightarrow> ms \<Rightarrow> int \<Rightarrow> string" where
  "encodeCursor H t n = base64urlEncode (stringify (cursor_payload (iso H t) (show_int n)))"

definition text_field :: "string \<Rightarrow> json \<Rightarrow> string + string" where
  "text_field k p =
     (case p of
        JNull \<Rightarrow> Inl (''Cannot read properties of null (reading '' @ [CHR 0x27] @ k @ [CHR 0x27] @ '')'')
      | _ \<Rightarrow> (case field k p of
                Some (JStr s) \<Rightarrow> if s = [] then Inl (''Missing or invalid '' @ k) else Inr s
              | _ \<Rightarrow> Inl (''Missing or invalid '' @ k)))"

definition decode_payload :: "host \<Rightarrow> string \<Rightarrow> string + decoded_cursor" where
  "decode_payload H c =
     and_then (json_of H (base64urlDecode c)) (\<lambda>payload.
     and_then (text_field ''createdAt'' payload) (\<lambda>t.
     and_then (text_field ''seq'' payload) (\<lambda>n.
       case date_of H t of
         None \<Rightarrow> Inl ''Invalid createdAt date''
       | Some ms \<Rightarrow>
           (case js_BigInt n of
              None \<Rightarrow> Inl (''Cannot convert '' @ n @ '' to a BigInt'')
            | Some s \<Rightarrow> Inr \<lparr>createdAt = ms, cursor_seq = s\<rparr>))))"

definition decodeCursor :: "host \<Rightarrow> string \<Rightarrow> http_error + decoded_cursor" where
  "decodeCursor H c =
     (case decode_payload H c of
        Inl msg \<Rightarrow> Inl (badRequest (''Invalid cursor: '' @ msg) (Some ''VALIDATION_ERROR'') None)
      | Inr d \<Rightarrow> Inr d)"

record keyset_params =
  snapshotSeq :: int
  keyset_cursor :: "string option"
  keyset_limit :: int

definition parseKeysetParams ::
  "string option \<Rightarrow> string option \<Rightarrow> string option \<Rightarrow> http_error + keyset_params" where
  "parseKeysetParams snapshot cur lim0 =
     and_then (case env_set snapshot of
                 None \<Rightarrow> Inr 0
               | Some s \<Rightarrow> (case js_BigInt s of
                              None \<Rightarrow> Inl (badRequest ''Invalid snapshot_seq'' (Some ''VALIDATION_ERROR'') None)
                            | Some n \<Rightarrow> Inr n)) (\<lambda>snap.
       Inr \<lparr>snapshotSeq = snap,
            keyset_cursor = (case cur of
                               None \<Rightarrow> None
                             | Some c \<Rightarrow> if js_trim c = [] then None else Some (js_trim c)),
            keyset_limit = (case env_set lim0 of
                              None \<Rightarrow> DEFAULT_LIMIT
                            | Some l \<Rightarrow>
                                (case js_parseInt l of
                                   None \<Rightarrow> DEFAULT_LIMIT
                                 | Some n \<Rightarrow> if n < 1 then DEFAULT_LIMIT else min n MAX_LIMIT))\<rparr>)"

section \<open>The text of a cursor determines the cursor\<close>

lemma of_char_byte: "(of_char c :: nat) < 256"
  by (metis of_char_mod_256 mod_less_divisor zero_less_numeral)

lemma sextets_range: "\<forall>b \<in> set bs. b < 256 \<Longrightarrow> \<forall>n \<in> set (sextets bs). n < 64"
proof (induction bs rule: sextets.induct)
  case (4 a b c bs)
  then show ?case by auto
qed auto

lemma sextet_arith:
  fixes a b c :: nat
  shows "b < 256 \<Longrightarrow> a div 4 * 4 + (a mod 4 * 16 + b div 16) div 16 = a"
    and "b < 256 \<Longrightarrow> c < 256 \<Longrightarrow>
      (a mod 4 * 16 + b div 16) mod 16 * 16 + (b mod 16 * 4 + c div 64) div 4 = b"
    and "c < 256 \<Longrightarrow> (b mod 16 * 4 + c div 64) mod 4 * 64 + c mod 64 = c"
proof -
  have q: "b div 16 < 16" if "b < 256" using that by (simp add: less_mult_imp_div_less)
  have w: "c div 64 < 4" if "c < 256" using that by (simp add: less_mult_imp_div_less)
  have d: "(m * k + y) div k = m" "(m * k + y) mod k = y" if "y < k" for m y k :: nat
    using that by simp_all
  show "b < 256 \<Longrightarrow> a div 4 * 4 + (a mod 4 * 16 + b div 16) div 16 = a"
    by (simp only: d q div_mult_mod_eq)
  show "b < 256 \<Longrightarrow> c < 256 \<Longrightarrow>
      (a mod 4 * 16 + b div 16) mod 16 * 16 + (b mod 16 * 4 + c div 64) div 4 = b"
    by (simp only: d q w div_mult_mod_eq)
  show "c < 256 \<Longrightarrow> (b mod 16 * 4 + c div 64) mod 4 * 64 + c mod 64 = c"
    by (simp only: d w div_mult_mod_eq)
qed

lemma octets_sextets: "\<forall>b \<in> set bs. b < 256 \<Longrightarrow> octets (sextets bs) = bs"
proof (induction bs rule: sextets.induct)
  case (2 a)
  then show ?case using sextet_arith(1) [of 0 a] by simp
next
  case (3 a b)
  then show ?case using sextet_arith(1) [of b a] sextet_arith(2) [of b 0 a] by simp
next
  case (4 a b c bs)
  then show ?case using sextet_arith(1) [of b a] sextet_arith(2) [of b c a] sextet_arith(3) [of c b] by simp
qed simp

definition url_char :: "nat \<Rightarrow> char" where
  "url_char n =
     (let c = base64_alphabet ! n in if c = CHR ''+'' then CHR ''-'' else if c = CHR ''/'' then CHR ''_'' else c)"

lemma url_char_table:
  "list_all (\<lambda>n. url_char n \<noteq> CHR ''='' \<and> base64_alphabet ! n \<noteq> CHR ''='' \<and>
     sextet_of (let d = (if url_char n = CHR ''-'' then CHR ''+'' else url_char n)
                in if d = CHR ''_'' then CHR ''/'' else d) = Some n) [0..<64]"
  by code_simp

lemma url_char:
  assumes "n < 64"
  shows "url_char n \<noteq> CHR ''=''" "base64_alphabet ! n \<noteq> CHR ''=''"
    "sextet_of (let d = (if url_char n = CHR ''-'' then CHR ''+'' else url_char n)
                in if d = CHR ''_'' then CHR ''/'' else d) = Some n"
  using url_char_table assms by (simp_all add: list_all_iff)

lemma encoded: "base64urlEncode s = map url_char (sextets (map of_char s))"
proof -
  have r: "\<forall>n \<in> set (sextets (map of_char s)). n < 64"
    by (rule sextets_range) (auto intro: of_char_byte)
  have "filter (\<lambda>c. c \<noteq> CHR ''='') (map url_char ns) = map url_char ns" if "\<forall>n \<in> set ns. n < 64" for ns
    using that url_char(1) by (auto simp: filter_id_conv)
  moreover have "replace_all (CHR ''/'') (CHR ''_'') (replace_all (CHR ''+'') (CHR ''-'') (to_base64 s)) =
      map url_char (sextets (map of_char s)) @
      replicate ((4 - length (sextets (map of_char s :: nat list)) mod 4) mod 4) CHR ''=''"
    by (simp add: replace_all_def to_base64_def Let_def comp_def url_char_def map_replicate_const)
  ultimately show ?thesis using r by (simp add: base64urlEncode_def)
qed

lemma map_filter_sextets:
  "\<forall>n \<in> set ns. n < 64 \<Longrightarrow>
     List.map_filter sextet_of (replace_all (CHR ''_'') (CHR ''/'') (replace_all (CHR ''-'') (CHR ''+'') (map url_char ns)))
       = ns"
  using url_char(3) by (induction ns) (simp_all add: replace_all_def map_filter_simps Let_def)

lemma map_filter_padding: "List.map_filter sextet_of (replicate k CHR ''='') = []"
  by (induction k) (simp_all add: map_filter_simps sextet_of_def)

theorem base64url_roundtrip: "base64urlDecode (base64urlEncode s) = s"
proof -
  have r: "\<forall>n \<in> set (sextets (map of_char s)). n < 64" and o: "octets (sextets (map of_char s)) = map of_char s"
    by (rule sextets_range octets_sextets; auto intro: of_char_byte)+
  have "List.map_filter sextet_of (xs @ ys) = List.map_filter sextet_of xs @ List.map_filter sextet_of ys" for xs ys
    by (induction xs) (simp_all add: map_filter_simps split: option.splits)
  moreover have "replace_all a b (xs @ ys) = replace_all a b xs @ replace_all a b ys" for a b xs ys
    by (simp add: replace_all_def)
  moreover have "replace_all a b (replicate k CHR ''='') = replicate k CHR ''=''" if "a \<noteq> CHR ''=''" for a b k
    using that by (simp add: replace_all_def)
  ultimately show ?thesis
    using r o map_filter_sextets [OF r]
    by (simp add: base64urlDecode_def js_pad_end_def encoded from_base64_def Let_def map_filter_padding comp_def)
qed

text \<open>What the host documents: a valid date is printed as ASCII text that reads back to it, and \<open>JSON.parse\<close>
  reads what \<open>JSON.stringify\<close> printed, here for the payload of a cursor.\<close>

definition plain :: "string \<Rightarrow> bool" where
  "plain s \<longleftrightarrow> (\<forall>c \<in> set s. 32 \<le> (of_char c :: nat) \<and> (of_char c :: nat) < 127 \<and> c \<noteq> CHR 0x22 \<and> c \<noteq> CHR 0x5C)"

definition valid_date :: "ms \<Rightarrow> bool" where
  "valid_date t \<longleftrightarrow> \<bar>t\<bar> \<le> 8640000000000000"

definition host_laws :: "host \<Rightarrow> bool" where
  "host_laws H \<longleftrightarrow>
     (\<forall>t. valid_date t \<longrightarrow> date_of H (iso H t) = Some t \<and> plain (iso H t) \<and> iso H t \<noteq> []) \<and>
     (\<forall>a b. plain a \<and> plain b \<longrightarrow> json_of H (stringify (cursor_payload a b)) = Inr (cursor_payload a b))"

lemma plain_append [simp]: "plain (s @ t) \<longleftrightarrow> plain s \<and> plain t"
  by (auto simp: plain_def)

lemma plain_show_nat: "plain (show_nat m)"
proof -
  have "is_digit c" if "c \<in> set (show_nat m)" for c
    using show_nat_digits [of m] that by (simp add: list_all_iff)
  then show ?thesis unfolding plain_def is_digit_def by force
qed

lemma plain_show_int: "plain (show_int n)"
  using plain_append [of "''-''" "show_nat (nat (- n))"]
  by (simp add: show_int_def plain_show_nat) (simp add: plain_def)

lemma decode_encode:
  assumes "host_laws H" "valid_date t"
  shows "decodeCursor H (encodeCursor H t n) = Inr \<lparr>createdAt = t, cursor_seq = n\<rparr>"
proof -
  have l: "date_of H (iso H t) = Some t" "plain (iso H t)" "iso H t \<noteq> []"
    "json_of H (stringify (cursor_payload (iso H t) (show_int n))) = Inr (cursor_payload (iso H t) (show_int n))"
    using assms plain_show_int by (auto simp: host_laws_def)
  have n: "show_int n \<noteq> []" by (simp add: show_int_def)
  have "text_field ''createdAt'' (cursor_payload a b) = Inr a" "text_field ''seq'' (cursor_payload a b) = Inr b"
    if "a \<noteq> []" "b \<noteq> []" for a b
    using that by (simp_all add: text_field_def cursor_payload_def field_def)
  then show ?thesis
    by (simp add: decodeCursor_def decode_payload_def encodeCursor_def base64url_roundtrip l n js_BigInt_show_int)
qed

end
