(* ===== verification/Listings.thy ===== *)
theory Listings
  imports Pagination "HOL-Library.Product_Lexorder"
begin

text \<open>
  The listings with keyset pagination: the events of a borrower, of a loan and the recent ones
  (\<open>src/backend/src/controllers/indexerController.ts\<close>), the remittances of a sender
  (\<open>remittanceController.ts\<close>) and the loan disputes (\<open>adminDisputeController.ts\<close>). A \<open>WHERE\<close>
  clause is the list of its conjuncts, each with the numbers of its placeholders, beside the list of the parameters;
  a statement runs only when it is given as many parameters as its highest placeholder. The time of a row is
  in microseconds, as PostgreSQL keeps it, and a JavaScript date has milliseconds. How PostgreSQL reads an integer
  and matches a pattern are parameters.
\<close>

section \<open>Statements\<close>

datatype param = PText string | PTime ms | PInt int | PNum rat

datatype cond =
    ColumnIs string nat
  | LoanIs nat
  | CreatedFrom nat
  | CreatedTo nat
  | Search nat nat
  | AmountBetween nat nat
  | ClosedBetween nat nat
  | SeqAtMost nat
  | KeysetBefore nat nat nat

fun holes :: "cond \<Rightarrow> nat list" where
  "holes (ColumnIs c i) = [i]"
| "holes (LoanIs i) = [i]"
| "holes (CreatedFrom i) = [i]"
| "holes (CreatedTo i) = [i]"
| "holes (Search i j) = [i, j]"
| "holes (AmountBetween i j) = [i, j]"
| "holes (ClosedBetween i j) = [i, j]"
| "holes (SeqAtMost i) = [i]"
| "holes (KeysetBefore i j k) = [i, j, k]"

record listed =
  row_created :: int
  row_seq :: int
  text_column :: "string \<Rightarrow> string option"
  loan_column :: "int option"
  amount_column :: "rat option"
  closed_column :: "ms option"

record pg =
  int_in :: "string \<Rightarrow> int option"
  ilike :: "string \<Rightarrow> string \<Rightarrow> bool"

definition text_at :: "param list \<Rightarrow> nat \<Rightarrow> string" where
  "text_at ps i = (case ps ! (i - 1) of PText t \<Rightarrow> t | _ \<Rightarrow> [])"

definition int_at :: "param list \<Rightarrow> nat \<Rightarrow> int" where
  "int_at ps i = (case ps ! (i - 1) of PInt n \<Rightarrow> n | _ \<Rightarrow> 0)"

definition us_at :: "param list \<Rightarrow> nat \<Rightarrow> int" where
  "us_at ps i = (case ps ! (i - 1) of PTime t \<Rightarrow> 1000 * t | _ \<Rightarrow> 0)"

definition num_at :: "param list \<Rightarrow> nat \<Rightarrow> rat" where
  "num_at ps i = (case ps ! (i - 1) of PNum q \<Rightarrow> q | _ \<Rightarrow> 0)"

fun holds :: "pg \<Rightarrow> param list \<Rightarrow> listed \<Rightarrow> cond \<Rightarrow> bool" where
  "holds P ps r (ColumnIs c i) = (text_column r c = Some (text_at ps i))"
| "holds P ps r (LoanIs i) = (loan_column r \<noteq> None \<and> loan_column r = int_in P (text_at ps i))"
| "holds P ps r (CreatedFrom i) = (row_created r \<ge> us_at ps i)"
| "holds P ps r (CreatedTo i) = (row_created r \<le> us_at ps i)"
| "holds P ps r (Search i j) =
     ((case text_column r ''recipient_address'' of None \<Rightarrow> False | Some t \<Rightarrow> ilike P t (text_at ps i)) \<or>
      (case text_column r ''memo'' of None \<Rightarrow> False | Some t \<Rightarrow> ilike P t (text_at ps j)))"
| "holds P ps r (AmountBetween i j) =
     (case amount_column r of None \<Rightarrow> False | Some a \<Rightarrow> num_at ps i \<le> a \<and> a \<le> num_at ps j)"
| "holds P ps r (ClosedBetween i j) =
     (case closed_column r of None \<Rightarrow> False | Some t \<Rightarrow> us_at ps i \<le> 1000 * t \<and> 1000 * t \<le> us_at ps j)"
| "holds P ps r (SeqAtMost i) = (row_seq r \<le> int_at ps i)"
| "holds P ps r (KeysetBefore i j k) =
     (row_created r < us_at ps i \<or> (row_created r = us_at ps j \<and> row_seq r < int_at ps k))"

definition int8 :: "int \<Rightarrow> bool" where "int8 n \<longleftrightarrow> - (2 ^ 63) \<le> n \<and> n < 2 ^ 63"

text \<open>A parameter that a column of integers is compared with has to be one.\<close>

fun readable :: "pg \<Rightarrow> param list \<Rightarrow> cond \<Rightarrow> bool" where
  "readable P ps (LoanIs i) = (int_in P (text_at ps i) \<noteq> None)"
| "readable P ps (SeqAtMost i) = int8 (int_at ps i)"
| "readable P ps (KeysetBefore i j k) = int8 (int_at ps k)"
| "readable P ps _ = True"

definition highest :: "nat list \<Rightarrow> nat" where
  "highest is = foldr max is 0"

definition run_where :: "pg \<Rightarrow> cond list \<Rightarrow> nat list \<Rightarrow> param list \<Rightarrow> listed list \<Rightarrow> string + listed list" where
  "run_where P cs extra ps tbl =
     (if highest (concat (map holes cs) @ extra) \<noteq> length ps
      then Inl ''bind message supplies a wrong number of parameters''
      else if \<not> list_all (readable P ps) cs then Inl ''invalid input syntax''
      else Inr (filter (\<lambda>r. list_all (holds P ps r) cs) tbl))"

type_synonym clause = "cond list \<times> param list"

definition push1 :: "(nat \<Rightarrow> cond) \<Rightarrow> param \<Rightarrow> clause \<Rightarrow> clause" where
  "push1 f p w = (fst w @ [f (length (snd w) + 1)], snd w @ [p])"

definition push2 :: "(nat \<Rightarrow> nat \<Rightarrow> cond) \<Rightarrow> param \<Rightarrow> param \<Rightarrow> clause \<Rightarrow> clause" where
  "push2 f p q w = (fst w @ [f (length (snd w) + 1) (length (snd w) + 2)], snd w @ [p, q])"

definition push3 :: "(nat \<Rightarrow> nat \<Rightarrow> nat \<Rightarrow> cond) \<Rightarrow> param \<Rightarrow> param \<Rightarrow> param \<Rightarrow> clause \<Rightarrow> clause" where
  "push3 f p q r w =
     (fst w @ [f (length (snd w) + 1) (length (snd w) + 2) (length (snd w) + 3)], snd w @ [p, q, r])"

section \<open>The parts of a listing\<close>

definition row_key :: "listed \<Rightarrow> int \<times> int" where
  "row_key r = (- row_created r, - row_seq r)"

definition with_snapshot :: "int \<Rightarrow> clause \<Rightarrow> clause" where
  "with_snapshot n w = push1 SeqAtMost (PInt n) w"

definition with_keyset :: "decoded_cursor option \<Rightarrow> clause \<Rightarrow> clause" where
  "with_keyset cur w =
     (case cur of
        None \<Rightarrow> w
      | Some d \<Rightarrow> push3 KeysetBefore (PTime (createdAt d)) (PTime (createdAt d)) (PInt (cursor_seq d)) w)"

text \<open>\<open>ORDER BY created_at DESC, seq DESC LIMIT\<close> of one row more than the page.\<close>

definition select_rows :: "pg \<Rightarrow> clause \<Rightarrow> int \<Rightarrow> listed list \<Rightarrow> string + listed list" where
  "select_rows P w l tbl =
     (case run_where P (fst w) [length (snd w) + 1] (snd w @ [PInt (l + 1)]) tbl of
        Inl e \<Rightarrow> Inl e
      | Inr rs \<Rightarrow> Inr (take (nat (l + 1)) (sort_key row_key rs)))"

definition pinned :: "int \<Rightarrow> listed list \<Rightarrow> int" where
  "pinned snap tbl = (if snap = 0 then (if tbl = [] then 0 else foldl max (row_seq (hd tbl)) (map row_seq (tl tbl)))
                      else snap)"

definition has_more :: "int \<Rightarrow> listed list \<Rightarrow> bool" where
  "has_more l rs \<longleftrightarrow> int (length rs) > l"

definition page_items :: "int \<Rightarrow> listed list \<Rightarrow> listed list" where
  "page_items l rs = (if has_more l rs then take (nat l) rs else rs)"

definition page_next :: "host \<Rightarrow> int \<Rightarrow> listed list \<Rightarrow> string option" where
  "page_next H l rs =
     (if has_more l rs \<and> page_items l rs \<noteq> []
      then Some (encodeCursor H (row_created (last (page_items l rs)) div 1000) (row_seq (last (page_items l rs))))
      else None)"

record listing =
  items :: "listed list"
  reply_cursor :: "string option"
  snapshot_seq :: string
  total_at_snapshot :: nat
  reply_limit :: int

definition query_text :: "query_params \<Rightarrow> string \<Rightarrow> string option" where
  "query_text q k = (case q k of QStr s \<Rightarrow> Some s | _ \<Rightarrow> None)"

definition keyset_request :: "host \<Rightarrow> query_params \<Rightarrow> http_error + keyset_params \<times> decoded_cursor option" where
  "keyset_request H q =
     and_then (parseKeysetParams (query_text q ''snapshot_seq'') (query_text q ''cursor'') (query_text q ''limit'')) (\<lambda>k.
       case keyset_cursor k of
         None \<Rightarrow> Inr (k, None)
       | Some c \<Rightarrow> and_then (decodeCursor H c) (\<lambda>d. Inr (k, Some d)))"

definition db_result :: "string + 'a \<Rightarrow> http_error + 'a" where
  "db_result r = (case r of Inl e \<Rightarrow> Inl (Thrown e) | Inr a \<Rightarrow> Inr a)"

section \<open>Events\<close>

definition requested_status :: "query_params \<Rightarrow> string option \<Rightarrow> string option" where
  "requested_status q st =
     env_set (case st of
                Some s \<Rightarrow> if s = ''all'' then query_text q ''eventType'' else Some s
              | None \<Rightarrow> query_text q ''eventType'')"

definition buildEventFilters :: "host \<Rightarrow> query_params \<Rightarrow> clause \<Rightarrow> clause" where
  "buildEventFilters H q w0 =
     (let pp = parseQueryParams H q;
          w1 = (case requested_status q (status pp) of
                  None \<Rightarrow> w0 | Some s \<Rightarrow> push1 (ColumnIs ''event_type'') (PText s) w0);
          w2 = (case amountRange pp of
                  None \<Rightarrow> w1 | Some (lo, hi) \<Rightarrow> push2 AmountBetween (PNum lo) (PNum hi) w1)
      in case dateRange pp of
           None \<Rightarrow> w2 | Some (a, b) \<Rightarrow> push2 ClosedBetween (PTime a) (PTime b) w2)"

definition events_listing ::
  "host \<Rightarrow> pg \<Rightarrow> query_params \<Rightarrow> clause \<Rightarrow> listed list \<Rightarrow> http_error + listing" where
  "events_listing H P q base tbl =
     and_then (keyset_request H q) (\<lambda>(k, cur).
       let w = buildEventFilters H q base;
           snap = pinned (snapshotSeq k) tbl;
           l = keyset_limit k
       in and_then (db_result (select_rows P (with_keyset cur (with_snapshot snap w)) l tbl)) (\<lambda>rs.
          let cw = with_snapshot snap w
          in and_then (db_result (run_where P (fst cw) [] (snd cw) tbl)) (\<lambda>cs.
             Inr \<lparr>items = page_items l rs, reply_cursor = page_next H l rs, snapshot_seq = show_int snap,
                  total_at_snapshot = length cs, reply_limit = l\<rparr>)))"

text \<open>The handlers answer every error with the status 500.\<close>

definition or_500 :: "string \<Rightarrow> http_error + 'a \<Rightarrow> (nat \<times> string) + 'a" where
  "or_500 msg r = (case r of Inl e \<Rightarrow> Inl (500, msg) | Inr a \<Rightarrow> Inr a)"

definition getBorrowerEvents ::
  "host \<Rightarrow> pg \<Rightarrow> query_params \<Rightarrow> string \<Rightarrow> listed list \<Rightarrow> (nat \<times> string) + listing" where
  "getBorrowerEvents H P q borrower tbl =
     (if borrower = [] then Inl (400, ''Borrower is required'')
      else or_500 ''Failed to get borrower events''
             (events_listing H P q ([ColumnIs ''address'' 1], [PText borrower]) tbl))"

definition getLoanEvents ::
  "host \<Rightarrow> pg \<Rightarrow> query_params \<Rightarrow> string \<Rightarrow> listed list \<Rightarrow> (nat \<times> string) + listing" where
  "getLoanEvents H P q loanId tbl =
     (if loanId = [] then Inl (400, ''Loan ID is required'')
      else or_500 ''Failed to get loan events'' (events_listing H P q ([LoanIs 1], [PText loanId]) tbl))"

definition getRecentEvents :: "host \<Rightarrow> pg \<Rightarrow> query_params \<Rightarrow> listed list \<Rightarrow> (nat \<times> string) + listing" where
  "getRecentEvents H P q tbl = or_500 ''Failed to get recent events'' (events_listing H P q ([], []) tbl)"

section \<open>Remittances\<close>

definition date_filter ::
  "host \<Rightarrow> string \<Rightarrow> (nat \<Rightarrow> cond) \<Rightarrow> string option \<Rightarrow> clause \<Rightarrow> http_error + clause" where
  "date_filter H name f v w =
     (case env_set v of
        None \<Rightarrow> Inr w
      | Some s \<Rightarrow>
          (case date_of H s of
             None \<Rightarrow> Inl (badRequest (''Invalid '' @ [CHR 0x27] @ name @ [CHR 0x27] @ '' date format'') None None)
           | Some t \<Rightarrow> Inr (push1 f (PTime t) w)))"

definition remittance_filters :: "host \<Rightarrow> query_params \<Rightarrow> string \<Rightarrow> http_error + clause" where
  "remittance_filters H q sender =
     (let w0 = ([ColumnIs ''sender_id'' 1], [PText sender]);
          w1 = (case env_set (query_text q ''status'') of
                  None \<Rightarrow> w0 | Some s \<Rightarrow> push1 (ColumnIs ''status'') (PText s) w0)
      in and_then (date_filter H ''from'' CreatedFrom (query_text q ''from'') w1) (\<lambda>w2.
         and_then (date_filter H ''to'' CreatedTo (query_text q ''to'') w2) (\<lambda>w3.
         Inr (case env_set (query_text q ''q'') of
                None \<Rightarrow> w3
              | Some s \<Rightarrow>
                  (let term = PText (''%'' @ s @ ''%'') in push2 Search term term w3)))))"

text \<open>The parameters of the count: \<open>slice(0, -2)\<close>, \<open>pop()\<close>, \<open>push(snapshot)\<close>; its clause: the
  first occurrence of a conjunct is replaced by nothing and a new one is added.\<close>

definition count_params :: "param list \<Rightarrow> int \<Rightarrow> param list" where
  "count_params ps snap = butlast (take (length ps - 2) ps) @ [PInt snap]"

definition count_conds :: "cond list \<Rightarrow> param list \<Rightarrow> int \<Rightarrow> cond list" where
  "count_conds cs ps snap = remove1 (SeqAtMost (length ps)) cs @ [SeqAtMost (length (count_params ps snap))]"

definition getRemittances ::
  "host \<Rightarrow> pg \<Rightarrow> query_params \<Rightarrow> string option \<Rightarrow> listed list \<Rightarrow> http_error + listing" where
  "getRemittances H P q user tbl =
     (case env_set user of
        None \<Rightarrow> Inl (unauthorized ''Wallet address not found in request'' None)
      | Some sender \<Rightarrow>
          and_then (keyset_request H q) (\<lambda>(k, cur).
          and_then (remittance_filters H q sender) (\<lambda>w.
            let snap = pinned (snapshotSeq k) tbl;
                l = keyset_limit k;
                w1 = with_keyset cur (with_snapshot snap w);
                ps = snd w1 @ [PInt (l + 1)]
            in and_then (db_result (select_rows P w1 l tbl)) (\<lambda>rs.
               and_then (db_result (run_where P (count_conds (fst w1) ps snap) [] (count_params ps snap) tbl)) (\<lambda>cs.
               Inr \<lparr>items = page_items l rs, reply_cursor = page_next H l rs, snapshot_seq = show_int snap,
                    total_at_snapshot = length cs, reply_limit = l\<rparr>)))))"

section \<open>Disputes\<close>

text \<open>The text that follows \<open>FROM\<close> begins with the name of a relation.\<close>

definition relation_named :: "string \<Rightarrow> string" where
  "relation_named s = takeWhile (\<lambda>c. c \<noteq> CHR '' '') s"

definition dispute_where :: "string \<Rightarrow> string" where
  "dispute_where statusFilter = (if statusFilter \<noteq> ''all'' then ''WHERE status = '' else '' WHERE seq <= '')"

definition listLoanDisputes :: "host \<Rightarrow> pg \<Rightarrow> query_params \<Rightarrow> listed list \<Rightarrow> http_error + listing" where
  "listLoanDisputes H P q tbl =
     and_then (parseKeysetParams (query_text q ''snapshot_seq'') (query_text q ''cursor'') (query_text q ''limit'')) (\<lambda>k.
     let statusFilter = (case query_text q ''status'' of None \<Rightarrow> ''open'' | Some s \<Rightarrow> s) in
     if statusFilter \<notin> {''open'', ''resolved'', ''rejected'', ''all''}
     then Inl (badRequest ''Invalid status filter'' None None)
     else and_then (case keyset_cursor k of
                      None \<Rightarrow> Inr None
                    | Some c \<Rightarrow> and_then (decodeCursor H c) (\<lambda>d. Inr (Some d))) (\<lambda>cur.
       let snap = pinned (snapshotSeq k) tbl;
           l = keyset_limit k;
           w0 = (if statusFilter \<noteq> ''all'' then push1 (ColumnIs ''status'') (PText statusFilter) ([], []) else ([], []));
           w = with_snapshot snap w0
       in if relation_named (''loan_disputes'' @ dispute_where statusFilter) \<noteq> ''loan_disputes''
          then Inl (Thrown ''syntax error'')
          else and_then (db_result (select_rows P (with_keyset cur w) l tbl)) (\<lambda>rs.
               and_then (db_result (run_where P (fst w) [] (snd w) tbl)) (\<lambda>cs.
               Inr \<lparr>items = page_items l rs, reply_cursor = page_next H l rs, snapshot_seq = show_int snap,
                    total_at_snapshot = length cs, reply_limit = l\<rparr>))))"

section \<open>Clauses are well-formed\<close>

definition wf_clause :: "clause \<Rightarrow> bool" where
  "wf_clause w \<longleftrightarrow>
     highest (concat (map holes (fst w))) = length (snd w) \<and>
     (\<forall>c \<in> set (fst w). \<forall>i \<in> set (holes c). 1 \<le> i \<and> i \<le> length (snd w))"

lemma highest_append: "highest (is @ js) = max (highest is) (highest js)"
  unfolding highest_def by (induction "is") simp_all

lemma highest_simps [simp]: "highest [] = 0" "highest (i # is) = max i (highest is)"
  by (simp_all add: highest_def)

lemma highest_ge: "i \<in> set is \<Longrightarrow> i \<le> highest is"
  by (induction "is") auto

lemma wf_push [simp]:
  "wf_clause w \<Longrightarrow> holes (f1 (length (snd w) + 1)) = [length (snd w) + 1] \<Longrightarrow> wf_clause (push1 f1 p w)"
  "wf_clause w \<Longrightarrow> holes (f2 (length (snd w) + 1) (length (snd w) + 2)) = [length (snd w) + 1, length (snd w) + 2] \<Longrightarrow>
     wf_clause (push2 f2 p q w)"
  "wf_clause w \<Longrightarrow> holes (f3 (length (snd w) + 1) (length (snd w) + 2) (length (snd w) + 3)) =
     [length (snd w) + 1, length (snd w) + 2, length (snd w) + 3] \<Longrightarrow> wf_clause (push3 f3 p q r w)"
  by (fastforce simp: wf_clause_def push1_def push2_def push3_def highest_append)+

lemma push_length [simp]:
  "length (snd (push1 f1 p w)) = length (snd w) + 1"
  "length (snd (push2 f2 p q w)) = length (snd w) + 2"
  "length (snd (push3 f3 p q r w)) = length (snd w) + 3"
  by (simp_all add: push1_def push2_def push3_def)

lemma wf_filters: "wf_clause w \<Longrightarrow> wf_clause (buildEventFilters H q w)"
  by (auto simp: buildEventFilters_def Let_def split: option.splits)

lemma wf_bases [simp]: "wf_clause ([ColumnIs k (Suc 0)], [p])" "wf_clause ([LoanIs (Suc 0)], [p])" "wf_clause ([], [])"
  by (simp_all add: wf_clause_def)

lemma wf_date_filter:
  "date_filter H name f v w = Inr w' \<Longrightarrow> wf_clause w \<Longrightarrow> (\<And>i. holes (f i) = [i]) \<Longrightarrow>
     wf_clause w' \<and> length (snd w) \<le> length (snd w')"
  by (auto simp: date_filter_def split: option.splits)

lemma wf_remittance:
  assumes "remittance_filters H q sender = Inr w"
  shows "wf_clause w \<and> 1 \<le> length (snd w)"
proof -
  define w1 where "w1 = (case env_set (query_text q ''status'') of
      None \<Rightarrow> ([ColumnIs ''sender_id'' 1], [PText sender])
    | Some s \<Rightarrow> push1 (ColumnIs ''status'') (PText s) ([ColumnIs ''sender_id'' 1], [PText sender]))"
  have w1: "wf_clause w1 \<and> 1 \<le> length (snd w1)" unfolding w1_def by (simp split: option.split)
  obtain w2 w3 where w2: "date_filter H ''from'' CreatedFrom (query_text q ''from'') w1 = Inr w2"
    and w3: "date_filter H ''to'' CreatedTo (query_text q ''to'') w2 = Inr w3"
    and w: "w = (case env_set (query_text q ''q'') of
                None \<Rightarrow> w3
              | Some s \<Rightarrow> push2 Search (PText (''%'' @ s @ ''%'')) (PText (''%'' @ s @ ''%'')) w3)"
    using assms unfolding remittance_filters_def Let_def w1_def [symmetric]
    by (auto simp only: and_then_eq_Inr sum.inject)
  have "wf_clause w3 \<and> 1 \<le> length (snd w3)"
    using wf_date_filter [OF w2] wf_date_filter [OF w3] w1 by auto
  then show ?thesis unfolding w by (simp split: option.split)
qed

lemma wf_with [simp]: "wf_clause w \<Longrightarrow> wf_clause (with_snapshot n w)" "wf_clause w \<Longrightarrow> wf_clause (with_keyset cur w)"
  by (auto simp: with_snapshot_def with_keyset_def split: option.splits)

text \<open>Conjuncts do not see the parameters that are pushed after them.\<close>

lemma at_append:
  assumes "1 \<le> i" "i \<le> length ps"
  shows "text_at (ps @ qs) i = text_at ps i" "int_at (ps @ qs) i = int_at ps i"
    "us_at (ps @ qs) i = us_at ps i" "num_at (ps @ qs) i = num_at ps i"
proof -
  have "i - 1 < length ps" using assms by linarith
  then have "(ps @ qs) ! (i - 1) = ps ! (i - 1)" by (rule nth_append_left)
  then show "text_at (ps @ qs) i = text_at ps i" "int_at (ps @ qs) i = int_at ps i"
    "us_at (ps @ qs) i = us_at ps i" "num_at (ps @ qs) i = num_at ps i"
    by (simp_all only: text_at_def int_at_def us_at_def num_at_def)
qed

lemma holds_append:
  assumes "\<forall>i \<in> set (holes c). 1 \<le> i \<and> i \<le> length ps"
  shows "holds P (ps @ qs) r c = holds P ps r c" "readable P (ps @ qs) c = readable P ps c"
proof -
  show "holds P (ps @ qs) r c = holds P ps r c" using assms by (cases c) (simp_all add: at_append split: option.split)
  show "readable P (ps @ qs) c = readable P ps c" using assms by (cases c) (simp_all add: at_append)
qed

definition selects :: "pg \<Rightarrow> clause \<Rightarrow> listed \<Rightarrow> bool" where
  "selects P w r \<longleftrightarrow> list_all (holds P (snd w) r) (fst w)"

definition clause_readable :: "pg \<Rightarrow> clause \<Rightarrow> bool" where
  "clause_readable P w \<longleftrightarrow> list_all (readable P (snd w)) (fst w)"

lemma clause_append:
  assumes "wf_clause w"
  shows "list_all (holds P (snd w @ qs) r) (fst w) = selects P w r"
    "list_all (readable P (snd w @ qs)) (fst w) = clause_readable P w"
  using assms holds_append [of _ "snd w"] by (auto simp: selects_def clause_readable_def wf_clause_def list_all_iff)

lemma run_clause:
  assumes "wf_clause w"
  shows "run_where P (fst w) [] (snd w) tbl =
    (if clause_readable P w then Inr (filter (selects P w) tbl) else Inl ''invalid input syntax'')"
  using assms by (simp add: run_where_def wf_clause_def clause_readable_def selects_def [abs_def])

lemma select_clause:
  assumes "wf_clause w"
  shows "select_rows P w l tbl =
    (if clause_readable P w then Inr (take (nat (l + 1)) (sort_key row_key (filter (selects P w) tbl)))
     else Inl ''invalid input syntax'')"
  using assms clause_append [OF assms, of P "[PInt (l + 1)]"]
  by (simp add: select_rows_def run_where_def wf_clause_def highest_append)

definition after :: "decoded_cursor option \<Rightarrow> listed \<Rightarrow> bool" where
  "after cur r \<longleftrightarrow>
     (case cur of
        None \<Rightarrow> True
      | Some d \<Rightarrow> row_created r < 1000 * createdAt d \<or> (row_created r = 1000 * createdAt d \<and> row_seq r < cursor_seq d))"

lemma with_snapshot_selects:
  assumes "wf_clause w"
  shows "selects P (with_snapshot n w) r \<longleftrightarrow> selects P w r \<and> row_seq r \<le> n"
    "clause_readable P (with_snapshot n w) \<longleftrightarrow> clause_readable P w \<and> int8 n"
  using clause_append [OF assms, of P "[PInt n]"]
  by (auto simp: selects_def clause_readable_def with_snapshot_def push1_def int_at_def)

lemma with_keyset_selects:
  assumes "wf_clause w"
  shows "selects P (with_keyset cur w) r \<longleftrightarrow> selects P w r \<and> after cur r"
    "clause_readable P (with_keyset cur w) \<longleftrightarrow>
       clause_readable P w \<and> (case cur of None \<Rightarrow> True | Some d \<Rightarrow> int8 (cursor_seq d))"
  using clause_append [OF assms, of P "[PTime (createdAt d), PTime (createdAt d), PInt (cursor_seq d)]" for d]
  by (auto simp: selects_def clause_readable_def with_keyset_def push3_def int_at_def us_at_def after_def nth_append
      split: option.splits)

lemma push_selects [simp]:
  assumes "wf_clause w"
  shows "selects P (push1 f1 p w) r \<longleftrightarrow> selects P w r \<and> holds P (snd w @ [p]) r (f1 (length (snd w) + 1))"
    "selects P (push2 f2 p q w) r \<longleftrightarrow>
       selects P w r \<and> holds P (snd w @ [p, q]) r (f2 (length (snd w) + 1) (length (snd w) + 2))"
    "clause_readable P (push1 f1 p w) \<longleftrightarrow>
       clause_readable P w \<and> readable P (snd w @ [p]) (f1 (length (snd w) + 1))"
    "clause_readable P (push2 f2 p q w) \<longleftrightarrow>
       clause_readable P w \<and> readable P (snd w @ [p, q]) (f2 (length (snd w) + 1) (length (snd w) + 2))"
  using clause_append [OF assms] by (simp_all add: selects_def clause_readable_def push1_def push2_def)

text \<open>What a request for events asks for.\<close>

definition requested :: "host \<Rightarrow> query_params \<Rightarrow> listed \<Rightarrow> bool" where
  "requested H q r \<longleftrightarrow>
     (case requested_status q (status (parseQueryParams H q)) of
        None \<Rightarrow> True | Some s \<Rightarrow> text_column r ''event_type'' = Some s) \<and>
     (case amountRange (parseQueryParams H q) of
        None \<Rightarrow> True
      | Some (lo, hi) \<Rightarrow> (case amount_column r of None \<Rightarrow> False | Some a \<Rightarrow> lo \<le> a \<and> a \<le> hi)) \<and>
     (case dateRange (parseQueryParams H q) of
        None \<Rightarrow> True
      | Some (t, u) \<Rightarrow> (case closed_column r of None \<Rightarrow> False | Some x \<Rightarrow> t \<le> x \<and> x \<le> u))"

lemma filters_select:
  assumes "wf_clause w"
  shows "selects P (buildEventFilters H q w) r \<longleftrightarrow> selects P w r \<and> requested H q r"
    "clause_readable P (buildEventFilters H q w) \<longleftrightarrow> clause_readable P w"
  using assms
  by (auto simp: buildEventFilters_def Let_def requested_def text_at_def num_at_def us_at_def nth_append
      split: option.splits)

lemma keyset_limit_pos: "parseKeysetParams a b c = Inr k \<Longrightarrow> 1 \<le> keyset_limit k \<and> keyset_limit k \<le> 100"
  by (auto simp: parseKeysetParams_def and_then_eq_Inr DEFAULT_LIMIT_def MAX_LIMIT_def split: option.splits)

lemma events_listing_result:
  assumes "wf_clause base" "clause_readable P base" "keyset_request H q = Inr (k, cur)"
    and "snap = pinned (snapshotSeq k) tbl" "int8 snap" "case cur of None \<Rightarrow> True | Some d \<Rightarrow> int8 (cursor_seq d)"
    and "rows = filter (\<lambda>r. row_seq r \<le> snap) tbl"
    and "M = filter (\<lambda>r. selects P base r \<and> requested H q r) rows"
    and "rs = take (nat (keyset_limit k + 1)) (filter (after cur) (sort_key row_key M))"
  shows "events_listing H P q base tbl =
    Inr \<lparr>items = page_items (keyset_limit k) rs, reply_cursor = page_next H (keyset_limit k) rs,
         snapshot_seq = show_int snap, total_at_snapshot = length M, reply_limit = keyset_limit k\<rparr>"
proof -
  let ?w = "buildEventFilters H q base"
  let ?c = "with_snapshot snap ?w"
  have wf: "wf_clause ?w" "wf_clause ?c" using assms(1) wf_filters by auto
  have sel: "selects P ?c r \<longleftrightarrow> (selects P base r \<and> requested H q r) \<and> row_seq r \<le> snap" for r
    using with_snapshot_selects(1) [OF wf(1)] filters_select(1) [OF assms(1)] by blast
  have rd: "clause_readable P ?c"
    using with_snapshot_selects(2) [OF wf(1)] filters_select(2) [OF assms(1)] assms(2,5) by blast
  have M: "filter (selects P ?c) tbl = M" unfolding assms(7,8) filter_filter by (rule filter_cong) (auto simp: sel)
  have "filter (selects P (with_keyset cur ?c)) tbl = filter (after cur) M"
    unfolding M [symmetric] filter_filter using with_keyset_selects(1) [OF wf(2)] by (intro filter_cong) auto
  moreover have "clause_readable P (with_keyset cur ?c)"
    using with_keyset_selects(2) [OF wf(2)] rd assms(6) by blast
  moreover have "sort_key row_key (filter (after cur) M) = filter (after cur) (sort_key row_key M)"
    by (simp add: filter_sort)
  ultimately have "select_rows P (with_keyset cur ?c) (keyset_limit k) tbl = Inr rs"
    unfolding select_clause [OF wf_with(2) [OF wf(2)]] assms(9) by simp
  moreover have "run_where P (fst ?c) [] (snd ?c) tbl = Inr M"
    unfolding run_clause [OF wf(2)] M using rd by simp
  ultimately show ?thesis by (simp add: events_listing_def assms(3,4) Let_def db_result_def)
qed

section \<open>Following the cursors\<close>

lemma row_key_less:
  "row_key x < row_key r \<longleftrightarrow> row_created r < row_created x \<or> (row_created r = row_created x \<and> row_seq r < row_seq x)"
  by (auto simp: row_key_def less_prod_def)

definition cursor_at :: "listed \<Rightarrow> decoded_cursor" where
  "cursor_at x = \<lparr>createdAt = row_created x div 1000, cursor_seq = row_seq x\<rparr>"

lemma keyset_chain:
  assumes "sorted (map row_key (A @ x # B))" "distinct (map row_seq (A @ x # B))" "row_created x mod 1000 = 0"
  shows "filter (after (Some (cursor_at x))) (A @ x # B) = B"
proof -
  have "1000 * (row_created x div 1000) = row_created x" using assms(3) by auto
  then have after_iff: "after (Some (cursor_at x)) r \<longleftrightarrow> row_key x < row_key r" for r
    by (simp add: after_def cursor_at_def row_key_less)
  have srt: "\<forall>a \<in> set A. row_key a \<le> row_key x" "\<forall>b \<in> set B. row_key x \<le> row_key b"
    using assms(1) by (auto simp: sorted_append)
  have "row_key x < row_key b" if "b \<in> set B" for b
  proof -
    have "row_seq x \<noteq> row_seq b" using assms(2) that by auto
    then have "row_key x \<noteq> row_key b" by (simp add: row_key_def)
    then show ?thesis using srt(2) that by (simp add: order_less_le)
  qed
  then have "filter (after (Some (cursor_at x))) B = B" by (simp add: after_iff filter_id_conv)
  moreover have "filter (after (Some (cursor_at x))) A = []" using srt(1) by (auto simp: after_iff filter_empty_conv)
  ultimately show ?thesis by (simp add: after_iff)
qed

fun follow :: "(nat \<Rightarrow> string option \<Rightarrow> 'e + listing) \<Rightarrow> nat \<Rightarrow> string option \<Rightarrow> listed list option" where
  "follow fetch 0 c = None"
| "follow fetch (Suc n) c =
     (case fetch n c of
        Inl e \<Rightarrow> None
      | Inr p \<Rightarrow>
          (case reply_cursor p of
             None \<Rightarrow> Some (items p)
           | Some c' \<Rightarrow> map_option ((@) (items p)) (follow fetch n (Some c'))))"

definition paging :: "query_params \<Rightarrow> int \<Rightarrow> string option \<Rightarrow> query_params" where
  "paging q s c =
     q(''snapshot_seq'' := QStr (show_int s), ''cursor'' := (case c of None \<Rightarrow> QOther | Some t \<Rightarrow> QStr t))"

lemma paging_filters [simp]: "requested H (paging q s c) = requested H q"
proof -
  have "parseQueryParams H (paging q s c) = parseQueryParams H q" "query_text (paging q s c) ''eventType'' = query_text q ''eventType''"
    by (simp_all add: parseQueryParams_def paging_def query_text_def)
  moreover from this(2) have "requested_status (paging q s c) st = requested_status q st" for st
    by (simp only: requested_status_def)
  ultimately show ?thesis by (simp only: requested_def [abs_def])
qed

lemma paging_limit: "query_text (paging q s c) ''limit'' = query_text q ''limit''"
  by (simp add: paging_def query_text_def)

lemma url_char_no_space: "n < 64 \<Longrightarrow> \<not> is_space (url_char n)"
proof
  assume n: "n < 64" and sp: "is_space (url_char n)"
  then have "sextet_of (url_char n) = None" "url_char n \<notin> {CHR ''-'', CHR ''_''}"
    by (auto simp: is_space_def sextet_of_def)
  with url_char(3) [OF n] show False by simp
qed

lemma sextets_not_Nil: "bs \<noteq> [] \<Longrightarrow> sextets bs \<noteq> []"
  by (induction bs rule: sextets.induct) auto

lemma encoded_cursor_text: "encodeCursor H t n \<noteq> [] \<and> js_trim (encodeCursor H t n) = encodeCursor H t n"
proof -
  define bs :: "nat list" where "bs = map of_char (stringify (cursor_payload (iso H t) (show_int n)))"
  have enc: "encodeCursor H t n = map url_char (sextets bs)" by (simp add: encodeCursor_def encoded bs_def)
  have "sextets bs \<noteq> []" by (rule sextets_not_Nil) (simp add: bs_def cursor_payload_def)
  moreover have "\<forall>m \<in> set (sextets bs). m < 64"
    by (rule sextets_range) (auto simp: bs_def intro: of_char_byte)
  then have "\<forall>c \<in> set (encodeCursor H t n). \<not> is_space c" by (auto simp: enc url_char_no_space)
  ultimately show ?thesis by (simp add: js_trim_id enc hd_map last_map)
qed

lemma paging_text:
  "query_text (paging q s c) ''snapshot_seq'' = Some (show_int s)" "query_text (paging q s c) ''cursor'' = c"
  by (simp_all add: paging_def query_text_def split: option.split)

lemma paging_first:
  assumes "parseKeysetParams None None (query_text q ''limit'') = Inr k0"
  shows "keyset_request H (paging q s None) = Inr (k0\<lparr>snapshotSeq := s\<rparr>, None)"
  using assms unfolding keyset_request_def paging_text paging_limit
  by (auto simp: parseKeysetParams_def js_BigInt_show_int env_set_def show_int_not_Nil)

lemma paging_next:
  assumes "host_laws H" "valid_date (row_created x div 1000)"
    and "parseKeysetParams None None (query_text q ''limit'') = Inr k0"
  shows "\<exists>c. keyset_request H (paging q s (Some (encodeCursor H (row_created x div 1000) (row_seq x)))) =
    Inr (k0\<lparr>snapshotSeq := s, keyset_cursor := c\<rparr>, Some (cursor_at x))"
  using assms(3) encoded_cursor_text [of H] decode_encode [OF assms(1,2)]
  unfolding keyset_request_def paging_text paging_limit
  by (auto simp: parseKeysetParams_def js_BigInt_show_int env_set_def show_int_not_Nil cursor_at_def)

lemma page_split:
  assumes "1 \<le> l" "rs = take (nat (l + 1)) B"
  shows "(nat l < length B \<longrightarrow> has_more l rs \<and> page_items l rs = take (nat l) B \<and>
      page_next H l rs = Some (encodeCursor H (row_created (last (take (nat l) B)) div 1000)
        (row_seq (last (take (nat l) B))))) \<and>
    (length B \<le> nat l \<longrightarrow> page_items l rs = B \<and> page_next H l rs = None)"
proof -
  have n: "nat (l + 1) = nat l + 1" "1 \<le> nat l" using assms(1) by auto
  have m: "has_more l (take (nat (l + 1)) B) \<longleftrightarrow> nat l < length B" using assms(1) by (auto simp: has_more_def n)
  show ?thesis unfolding assms(2) page_next_def page_items_def m using n(2) by (auto simp: n(1) min_def)
qed

theorem follow_pages:
  assumes H: "host_laws H" and base: "wf_clause base" "clause_readable P base"
    and lim: "parseKeysetParams None None (query_text q ''limit'') = Inr k0"
    and s: "s \<noteq> 0" "int8 s"
    and tb: "\<And>n. filter (\<lambda>r. row_seq r \<le> s) (tb n) = rows"
    and rows: "distinct (map row_seq rows)"
      "\<forall>r \<in> set rows. row_created r mod 1000 = 0 \<and> valid_date (row_created r div 1000) \<and> int8 (row_seq r)"
    and S: "S = sort_key row_key (filter (\<lambda>r. selects P base r \<and> requested H q r) rows)"
    and fetch: "\<And>n c p. events_listing H P (paging q s c) base (tb n) = Inr p \<Longrightarrow> fetch n c = Inr p"
    and fuel: "length S < fuel"
  shows "follow fetch fuel None = Some S"
proof -
  let ?M = "filter (\<lambda>r. selects P base r \<and> requested H q r) rows"
  let ?l = "keyset_limit k0"
  have l: "1 \<le> ?l" using keyset_limit_pos [OF lim] by simp
  have SM: "set S = set ?M" by (simp add: S)
  have srt: "sorted (map row_key S)" by (simp add: S)
  have dis: "distinct (map row_seq S)" using rows(1) by (simp add: S distinct_map) (simp add: inj_on_def)
  have reply: "\<exists>snap tot lm. fetch n c = Inr \<lparr>items = page_items ?l (take (nat (?l + 1)) B),
        reply_cursor = page_next H ?l (take (nat (?l + 1)) B), snapshot_seq = snap, total_at_snapshot = tot, reply_limit = lm\<rparr>"
    if c: "(c = None \<and> B = S) \<or>
       (\<exists>A x. S = A @ x # B \<and> c = Some (encodeCursor H (row_created x div 1000) (row_seq x)))" for n c B
  proof -
    obtain k cur where k: "keyset_request H (paging q s c) = Inr (k, cur)" "snapshotSeq k = s" "keyset_limit k = ?l"
      and cur: "case cur of None \<Rightarrow> True | Some d \<Rightarrow> int8 (cursor_seq d)" and B: "filter (after cur) S = B"
    proof (cases "c = None")
      case True
      show ?thesis
        by (rule that [of "k0\<lparr>snapshotSeq := s\<rparr>" None])
           (use True c paging_first [OF lim] in \<open>auto simp: after_def filter_id_conv\<close>)
    next
      case False
      then obtain A x where x: "S = A @ x # B" "c = Some (encodeCursor H (row_created x div 1000) (row_seq x))"
        using c by auto
      then have "x \<in> set ?M" using SM by auto
      then have xr: "row_created x mod 1000 = 0" "valid_date (row_created x div 1000)" "int8 (row_seq x)"
        using rows(2) by auto
      obtain c' where "keyset_request H (paging q s c) = Inr (k0\<lparr>snapshotSeq := s, keyset_cursor := c'\<rparr>, Some (cursor_at x))"
        using paging_next [OF H xr(2) lim] x(2) by blast
      moreover have "filter (after (Some (cursor_at x))) S = B"
        using keyset_chain [of A x B] srt dis xr(1) unfolding x(1) by blast
      moreover have "int8 (cursor_seq (cursor_at x))" using xr(3) by (simp add: cursor_at_def)
      ultimately show ?thesis
        by (intro that [of "k0\<lparr>snapshotSeq := s, keyset_cursor := c'\<rparr>" "Some (cursor_at x)"]) auto
    qed
    have sn: "s = pinned (snapshotSeq k) (tb n)" using s(1) k(2) by (simp add: pinned_def)
    have M: "?M = filter (\<lambda>r. selects P base r \<and> requested H (paging q s c) r) (filter (\<lambda>r. row_seq r \<le> s) (tb n))"
      by (simp add: tb)
    show ?thesis
      using fetch [OF events_listing_result [OF base k(1) sn s(2) cur refl refl refl]]
      unfolding M [symmetric] S [symmetric] B k(3) by blast
  qed
  have "follow fetch f c = Some B"
    if "(c = None \<and> B = S) \<or> (\<exists>A x. S = A @ x # B \<and> c = Some (encodeCursor H (row_created x div 1000) (row_seq x)))"
      "length B < f" for f c B
    using that
  proof (induction f arbitrary: c B)
    case (Suc f)
    obtain snap tot lm where r: "fetch f c = Inr \<lparr>items = page_items ?l (take (nat (?l + 1)) B),
        reply_cursor = page_next H ?l (take (nat (?l + 1)) B), snapshot_seq = snap, total_at_snapshot = tot, reply_limit = lm\<rparr>"
      using reply [OF Suc.prems(1)] by blast
    note pg = page_split [OF l refl, of B H]
    show ?case
    proof (cases "nat ?l < length B")
      case False
      then show ?thesis using pg r by simp
    next
      case True
      define T where "T = take (nat ?l) B"
      have "T \<noteq> []" using True l by (auto simp: T_def)
      then obtain T' where T': "T = T' @ [last T]" by (metis append_butlast_last_id)
      have BT: "B = T @ drop (nat ?l) B" by (simp add: T_def)
      have "\<exists>A. S = A @ last T # drop (nat ?l) B"
      proof (cases "c = None")
        case True
        then have "S = T' @ last T # drop (nat ?l) B" using Suc.prems(1) BT T' encoded_cursor_text by (auto) (metis append.assoc append_Cons append_Nil)
        then show ?thesis by blast
      next
        case False
        then obtain A x where "S = A @ x # B" using Suc.prems(1) by blast
        then have "S = (A @ x # T') @ last T # drop (nat ?l) B"
          using BT T' by (metis append.assoc append_Cons append_Nil)
        then show ?thesis by blast
      qed
      moreover have "length (drop (nat ?l) B) < f" using Suc.prems(2) l True by simp
      ultimately have "follow fetch f (Some (encodeCursor H (row_created (last T) div 1000) (row_seq (last T))))
          = Some (drop (nat ?l) B)"
        using Suc.IH by blast
      then show ?thesis using pg True r by (simp add: T_def)
    qed
  qed simp
  then show ?thesis using fuel by blast
qed

section \<open>Properties\<close>


text \<open>The cursor has milliseconds and the table microseconds. After a page that ends with a row \<open>x\<close>, the next pages
  have no row later than the millisecond \<open>x\<close> is in begins, so the rows that share its millisecond and
  have not been listed are lost.\<close>

theorem keyset_loses_rows:
  fixes x :: listed
  assumes "host_laws H" "valid_date (row_created x div 1000)"
    and "query_text q ''cursor'' = Some (encodeCursor H (row_created x div 1000) (row_seq x))"
    and "getBorrowerEvents H P q borrower tbl = Inr p" "r \<in> set (items p)"
  shows "row_created r \<le> 1000 * (row_created x div 1000)"
proof -
  let ?w = "([ColumnIs ''address'' 1], [PText borrower])"
  have el: "events_listing H P q ?w tbl = Inr p"
    using assms(4) by (auto simp: getBorrowerEvents_def or_500_def split: if_splits sum.splits)
  obtain k cur where k: "keyset_request H q = Inr (k, cur)"
    using el by (auto simp: events_listing_def and_then_eq_Inr)
  have cur: "cur = Some (cursor_at x)"
    using k encoded_cursor_text [of H "row_created x div 1000" "row_seq x"] decode_encode [OF assms(1,2)]
    by (auto simp: keyset_request_def assms(3) and_then_eq_Inr parseKeysetParams_def cursor_at_def)
  define c where "c = with_keyset cur (with_snapshot (pinned (snapshotSeq k) tbl) (buildEventFilters H q ?w))"
  have wf: "wf_clause (with_snapshot (pinned (snapshotSeq k) tbl) (buildEventFilters H q ?w))"
    using wf_bases(1) by (intro wf_with wf_filters) (simp add: One_nat_def)
  obtain rs where rs: "select_rows P c (keyset_limit k) tbl = Inr rs" "items p = page_items (keyset_limit k) rs"
    using el by (auto simp: events_listing_def k c_def Let_def and_then_eq_Inr db_result_def split: sum.splits)
  have "set (items p) \<subseteq> set rs" unfolding rs(2) page_items_def by (auto dest: in_set_takeD)
  moreover have "set rs \<subseteq> {r. selects P c r}"
    using rs(1) select_clause [of c] wf_with(2) [OF wf] unfolding c_def
    by (auto split: if_splits dest!: in_set_takeD)
  ultimately have "after cur r" using assms(5) with_keyset_selects(1) [OF wf] by (auto simp: c_def)
  then show ?thesis by (auto simp: cur after_def cursor_at_def)
qed

text \<open>The text of a cursor is opaque and lossless: a decoded cursor is the one that was encoded.\<close>

theorem cursor_roundtrip:
  assumes "host_laws H" "valid_date t"
  shows "decodeCursor H (encodeCursor H t n) = Inr \<lparr>createdAt = t, cursor_seq = n\<rparr>"
  by (rule decode_encode [OF assms])

lemma count_fails:
  assumes "remittance_filters H q sender = Inr w"
  shows "run_where P
      (count_conds (fst (with_keyset cur (with_snapshot snap w))) (snd (with_keyset cur (with_snapshot snap w)) @ [PInt m]) snap)
      [] (count_params (snd (with_keyset cur (with_snapshot snap w)) @ [PInt m]) snap) tbl =
    Inl ''bind message supplies a wrong number of parameters''"
proof -
  define w1 where "w1 = with_keyset cur (with_snapshot snap w)"
  have w: "wf_clause w" "1 \<le> length (snd w)" using wf_remittance [OF assms] by blast+
  then have wf: "wf_clause w1" by (simp add: w1_def)
  have ge: "2 \<le> length (snd w1)" using w(2)
    by (cases cur) (simp_all add: w1_def with_keyset_def with_snapshot_def)
  have "SeqAtMost (length (snd w1) + 1) \<notin> set (fst w1)" using wf by (auto simp: wf_clause_def)
  then have "length (snd w1) \<le> highest (concat (map holes (count_conds (fst w1) (snd w1 @ [PInt m]) snap)))"
    using wf by (simp add: count_conds_def wf_clause_def highest_append remove1_idem)
  moreover have "length (count_params (snd w1 @ [PInt m]) snap) < length (snd w1)" using ge
    by (simp add: count_params_def)
  ultimately show ?thesis by (simp add: run_where_def w1_def)
qed

text \<open>No request lists remittances. The parameters of the count are cut from those of the list by position, the
  clause still has every placeholder, so the count is always given one parameter less than it needs, and the
  handler fails; a request without filters is answered with the status 500.\<close>

theorem remittance_listing_fails:
  "\<not> is_ok (getRemittances H P q user tbl) \<and>
   (q = (\<lambda>_. QOther) \<and> user = Some sender \<and> sender \<noteq> [] \<longrightarrow>
      (\<exists>e. getRemittances H P q user tbl = Inl e \<and> statusCode e = 500))"
proof -
  have "getRemittances H P q user tbl \<noteq> Inr p" for p
    by (auto simp: getRemittances_def and_then_eq_Inr Let_def db_result_def count_fails split: option.splits sum.splits)
  then have "\<not> is_ok (getRemittances H P q user tbl)" by (auto elim: is_okE)
  moreover have "statusCode e = 500"
    if "getRemittances H P (\<lambda>_. QOther) (Some sender) tbl = Inl e" "sender \<noteq> []" for e
    using that
    by (auto simp: getRemittances_def env_set_def keyset_request_def query_text_def parseKeysetParams_def
        remittance_filters_def date_filter_def and_then_eq_Inl Let_def db_result_def split: sum.splits)
  ultimately show ?thesis by (cases "getRemittances H P q user tbl") auto
qed

text \<open>Loan disputes are listed with the filter \<open>all\<close> only. For any other status, the default one included, the
  clause is glued to the name of the table and the statement is not SQL.\<close>

theorem dispute_filter_fails:
  "is_ok (listLoanDisputes H P q tbl) \<longrightarrow> query_text q ''status'' = Some ''all''"
proof -
  have "relation_named (''loan_disputes'' @ dispute_where st) \<noteq> ''loan_disputes''" if "st \<noteq> ''all''" for st
    using that by (simp add: relation_named_def dispute_where_def)
  then show ?thesis
    by (auto simp: listLoanDisputes_def and_then_eq_Inr Let_def elim!: is_okE split: option.splits if_splits)
qed

section \<open>Witnesses\<close>

text \<open>A host that prints dates as numbers and reads the JSON of cursors.\<close>

definition demo_host :: host where
  "demo_host = \<lparr>date_of = js_parseInt, iso = show_int, float_of = (\<lambda>_. None),
     json_of = (\<lambda>s. case js_split CHR 0x22 s of
        [_, k1, _, a, _, k2, _, b, _] \<Rightarrow> Inr (JObj [(k1, JStr a), (k2, JStr b)])
      | _ \<Rightarrow> Inl ''Unexpected token'')\<rparr>"

definition demo_pg :: pg where
  "demo_pg = \<lparr>int_in = js_BigInt, ilike = (\<lambda>s t. s = t)\<rparr>"

lemma plain_quote: "plain a \<Longrightarrow> json_quote a = CHR 0x22 # a @ [CHR 0x22]"
proof -
  assume "plain a"
  have "json_escape c = [c]" if "c \<in> set a" for c
  proof -
    have c: "32 \<le> (of_char c :: nat)" "c \<noteq> CHR 0x22" "c \<noteq> CHR 0x5C"
      using \<open>plain a\<close> that by (auto simp: plain_def)
    then have "c \<notin> {CHR 0x08, CHR 0x0C, CHR 0x0A, CHR 0x0D, CHR 0x09}" by auto
    with c show ?thesis by (simp add: json_escape_def)
  qed
  then have "concat (map json_escape a) = a" by (induction a) simp_all
  then show ?thesis by (simp add: json_quote_def)
qed

lemma split_pieces:
  "CHR 0x22 \<notin> set a \<Longrightarrow> CHR 0x22 \<notin> set b \<Longrightarrow>
     js_split CHR 0x22 (''{'' @ CHR 0x22 # ''createdAt'' @ CHR 0x22 # '':'' @ CHR 0x22 # a @ CHR 0x22 #
        '','' @ CHR 0x22 # ''seq'' @ CHR 0x22 # '':'' @ CHR 0x22 # b @ CHR 0x22 # ''}'') =
     [''{'', ''createdAt'', '':'', a, '','', ''seq'', '':'', b, ''}'']"
  by (subst js_split_append, simp)+ (simp add: js_split_none)

lemma payload_text:
  "plain a \<Longrightarrow> plain b \<Longrightarrow> stringify (cursor_payload a b) =
     ''{'' @ CHR 0x22 # ''createdAt'' @ CHR 0x22 # '':'' @ CHR 0x22 # a @ CHR 0x22 #
        '','' @ CHR 0x22 # ''seq'' @ CHR 0x22 # '':'' @ CHR 0x22 # b @ CHR 0x22 # ''}''"
proof -
  assume ab: "plain a" "plain b"
  have "plain ''createdAt''" "plain ''seq''" by (simp_all add: plain_def)
  then show ?thesis using ab by (simp add: cursor_payload_def plain_quote)
qed

lemma demo_host_laws: "host_laws demo_host"
proof -
  have "json_of demo_host (stringify (cursor_payload a b)) = Inr (cursor_payload a b)" if "plain a" "plain b" for a b
  proof -
    have nq: "CHR 0x22 \<notin> set a" "CHR 0x22 \<notin> set b" using that by (auto simp: plain_def)
    have j: "json_of demo_host t = (case js_split CHR 0x22 t of
        [_, k1, _, a, _, k2, _, b, _] \<Rightarrow> Inr (JObj [(k1, JStr a), (k2, JStr b)])
      | _ \<Rightarrow> Inl ''Unexpected token'')" for t
      by (simp add: demo_host_def)
    show ?thesis unfolding payload_text [OF that] j split_pieces [OF nq] by (simp add: cursor_payload_def)
  qed
  moreover have "date_of demo_host (iso demo_host t) = Some t \<and> plain (iso demo_host t) \<and> iso demo_host t \<noteq> []" for t
    by (simp add: demo_host_def js_parseInt_show_int plain_show_int show_int_not_Nil)
  ultimately show ?thesis unfolding host_laws_def by blast
qed

definition demo_event :: "int \<Rightarrow> int \<Rightarrow> listed" where
  "demo_event t n = \<lparr>row_created = t, row_seq = n, text_column = (\<lambda>k. if k = ''address'' then Some ''GA'' else None),
     loan_column = None, amount_column = None, closed_column = None\<rparr>"


theorem keyset_loses_rows_witness:
  "\<exists>p. getBorrowerEvents demo_host demo_pg (paging (\<lambda>_. QOther) 9 (Some (encodeCursor demo_host 1 3))) ''GA''
       [demo_event 1500 3, demo_event 1200 2, demo_event 700 1] = Inr p \<and>
     items p = [demo_event 700 1] \<and> row_created (demo_event 700 1) \<le> 1000"
proof -
  let ?x = "demo_event 1500 3" and ?w = "([ColumnIs ''address'' (Suc 0)], [PText ''GA''])"
  let ?q = "\<lambda>_::string. QOther" and ?tbl = "[demo_event 1500 3, demo_event 1200 2, demo_event 700 1]"
  have vx: "valid_date (row_created ?x div 1000)" by (simp add: demo_event_def valid_date_def)
  obtain k0 where lim: "parseKeysetParams None None (query_text ?q ''limit'') = Inr k0" and l: "keyset_limit k0 = 50"
    by (simp add: parseKeysetParams_def env_set_def query_text_def DEFAULT_LIMIT_def)
  let ?pq = "paging ?q 9 (Some (encodeCursor demo_host (row_created ?x div 1000) (row_seq ?x)))"
  obtain c where k: "keyset_request demo_host ?pq = Inr (k0\<lparr>snapshotSeq := 9, keyset_cursor := c\<rparr>, Some (cursor_at ?x))"
    using paging_next [OF demo_host_laws vx lim] by blast
  have sel: "selects demo_pg ?w r \<longleftrightarrow> text_column r ''address'' = Some ''GA''" for r
    by (simp add: selects_def text_at_def)
  have req: "requested demo_host ?q r" for r
    by (simp add: requested_def parseQueryParams_def requested_status_def trimmed_def query_text_def env_set_def
        parseAmountRange_def parseDateRange_def range_parts_def)
  have ad: "text_column (demo_event t n) ''address'' = Some ''GA''" and sq: "row_seq (demo_event t n) = n" for t n
    by (simp_all add: demo_event_def)
  have cs: "cursor_seq (cursor_at ?x) = 3" by (simp add: cursor_at_def demo_event_def)
  have aft: "filter (after (Some (cursor_at ?x))) (sort_key row_key ?tbl) = [demo_event 700 1]"
    by (simp add: after_def cursor_at_def demo_event_def row_key_def)
  have p9: "9 = pinned (snapshotSeq (k0\<lparr>snapshotSeq := 9, keyset_cursor := c\<rparr>)) ?tbl" by (simp add: pinned_def)
  have M: "?tbl = filter (\<lambda>r. selects demo_pg ?w r \<and> requested demo_host ?pq r) (filter (\<lambda>r. row_seq r \<le> 9) ?tbl)"
    by (simp add: sel req ad sq del: One_nat_def)
  have rd: "clause_readable demo_pg ?w" by (simp add: clause_readable_def)
  have i8: "int8 9" "case Some (cursor_at ?x) of None \<Rightarrow> True | Some d \<Rightarrow> int8 (cursor_seq d)"
    by (simp_all add: int8_def cs)
  have "\<exists>p. events_listing demo_host demo_pg ?pq ?w ?tbl = Inr p \<and> items p = [demo_event 700 1]"
    using events_listing_result [OF wf_bases(1) rd k p9 i8 refl M refl]
    unfolding aft by (auto simp: page_items_def has_more_def l)
  then obtain p where p: "events_listing demo_host demo_pg ?pq ?w ?tbl = Inr p" "items p = [demo_event 700 1]" by blast
  then have g: "getBorrowerEvents demo_host demo_pg ?pq ''GA'' ?tbl = Inr p"
    by (simp add: getBorrowerEvents_def or_500_def)
  have "query_text ?pq ''cursor'' = Some (encodeCursor demo_host (row_created ?x div 1000) (row_seq ?x))"
    by (simp add: paging_text)
  from keyset_loses_rows [OF demo_host_laws vx this g] p(2) have "row_created (demo_event 700 1) \<le> 1000"
    by (simp add: demo_event_def)
  with p(2) g show ?thesis by (auto simp: demo_event_def)
qed

theorem cursor_roundtrip_witness:
  "decodeCursor demo_host (encodeCursor demo_host 5 7) = Inr \<lparr>createdAt = 5, cursor_seq = 7\<rparr>"
  by (rule cursor_roundtrip [OF demo_host_laws]) (simp add: valid_date_def)

theorem remittance_listing_fails_witness:
  "\<exists>e. getRemittances demo_host demo_pg (\<lambda>_. QOther) (Some ''GA'') [] = Inl e \<and> statusCode e = 500"
  using remittance_listing_fails [of demo_host demo_pg "\<lambda>_. QOther" "Some ''GA''" "[]" "''GA''"] by simp

theorem dispute_filter_fails_witness:
  "query_text (\<lambda>k. if k = ''status'' then QStr ''all'' else QOther) ''status'' = Some ''all''"
proof -
  have "is_ok (listLoanDisputes demo_host demo_pg (\<lambda>k. if k = ''status'' then QStr ''all'' else QOther) [])"
    by code_simp
  then show ?thesis using dispute_filter_fails by blast
qed

end
