(* ===== verification/Notifications.thy ===== *)
theory Notifications
  imports AppErrors
begin

text \<open>
  \<open>src/backend/src/services/notificationService.ts\<close> and the handlers of
  \<open>src/backend/src/controllers/notificationController.ts\<close>: the table of notifications with the life of a
  row, the streams of the connected clients, and what is sent outside. A stream is a number; \<open>delivered\<close>
  is what has been written to each. The mail and message services are a parameter only in so far as they
  fail, which the code swallows. The environment of a call says which statements fail.
\<close>

section \<open>State\<close>

datatype notif_status = Unread | Read | Archived

record notif =
  notif_id :: nat
  notif_user :: string
  notif_type :: string
  notif_title :: string
  notif_message :: string
  notif_loan :: "int option"
  notif_action :: "string option"
  is_read :: bool
  notif_status :: notif_status
  notif_created :: ms

record profile =
  public_key :: string
  email :: "string option"
  phone :: "string option"
  email_enabled :: bool
  sms_enabled :: bool

datatype external = Email string string string | SMS string string

record notif_sys =
  notifications :: "notif list"
  next_id :: nat
  sseClients :: "(string \<times> nat list) list"
  delivered :: "(nat \<times> notif) list"
  profiles :: "profile list"
  sent :: "external list"

record notif_env =
  FROM_EMAIL :: "string option"
  SENDGRID_API_KEY :: "string option"
  twilio_ready :: bool
  ADMIN_EMAIL :: "string option"
  admin_wallets :: "string option"
  at :: ms
  insert_up :: bool
  profiles_up :: bool
  writable :: "nat \<Rightarrow> bool"

section \<open>Outside\<close>

text \<open>The dash of the subjects in UTF-8.\<close>

definition dash_lend :: string where
  "dash_lend = '' '' @ [CHR 0xE2, CHR 0x80, CHR 0x94] @ '' Lend''"

definition email_subject :: "string \<Rightarrow> string option" where
  "email_subject ty = map_of
     [(''loan_approved'', ''Your loan has been approved'' @ dash_lend),
      (''repayment_due'', ''Repayment reminder'' @ dash_lend),
      (''repayment_confirmed'', ''Repayment confirmed'' @ dash_lend),
      (''loan_defaulted'', ''Loan default notice'' @ dash_lend),
      (''loan_liquidated'', ''Your loan has been liquidated'' @ dash_lend),
      (''score_changed'', ''Your credit score has changed'' @ dash_lend)] ty"

text \<open>\<open>None\<close> is the type that the call for the administrators leaves out; a type without a template is an
  error, which the caller swallows.\<close>

definition sendEmail :: "notif_env \<Rightarrow> string \<Rightarrow> string \<Rightarrow> string option \<Rightarrow> external list" where
  "sendEmail E addr msg ty =
     (if env_set (FROM_EMAIL E) = None \<or> env_set (SENDGRID_API_KEY E) = None then []
      else (case ty of
              None \<Rightarrow> [Email addr ''Notification from Lend'' msg]
            | Some t \<Rightarrow> (case email_subject t of None \<Rightarrow> [] | Some subj \<Rightarrow> [Email addr subj msg])))"

definition sendSMS :: "notif_env \<Rightarrow> string \<Rightarrow> string \<Rightarrow> external list" where
  "sendSMS E ph msg = (if twilio_ready E then [SMS ph msg] else [])"

definition notifyUserExternal :: "notif_env \<Rightarrow> string \<Rightarrow> string \<Rightarrow> string \<Rightarrow> notif_sys \<Rightarrow> notif_sys" where
  "notifyUserExternal E user msg ty s =
     (if \<not> profiles_up E then s
      else (case find (\<lambda>p. public_key p = user) (profiles s) of
              None \<Rightarrow> s
            | Some p \<Rightarrow>
                (let mails = (case env_set (email p) of
                                Some addr \<Rightarrow> if email_enabled p then sendEmail E addr msg (Some ty) else []
                              | None \<Rightarrow> []);
                     texts = (case env_set (phone p) of
                                Some ph \<Rightarrow>
                                  (if sms_enabled p \<and> ty \<in> {''repayment_due'', ''loan_defaulted'', ''loan_liquidated''}
                                   then sendSMS E ph msg else [])
                              | None \<Rightarrow> [])
                 in s\<lparr>sent := sent s @ mails @ texts\<rparr>)))"

section \<open>Streams\<close>

definition streams_of :: "string \<Rightarrow> notif_sys \<Rightarrow> nat list" where
  "streams_of user s = (case map_of (sseClients s) user of None \<Rightarrow> [] | Some cs \<Rightarrow> cs)"

definition subscribe :: "string \<Rightarrow> nat \<Rightarrow> notif_sys \<Rightarrow> notif_sys" where
  "subscribe user c s =
     (let cs = streams_of user s
      in s\<lparr>sseClients := js_map_set user (if c \<in> set cs then cs else cs @ [c]) (sseClients s)\<rparr>)"

definition unsubscribe :: "string \<Rightarrow> nat \<Rightarrow> notif_sys \<Rightarrow> notif_sys" where
  "unsubscribe user c s =
     (let cs = filter (\<lambda>d. d \<noteq> c) (streams_of user s)
      in if map_of (sseClients s) user = None then s
         else s\<lparr>sseClients := (if cs = [] then filter (\<lambda>p. fst p \<noteq> user) (sseClients s)
                               else js_map_set user cs (sseClients s))\<rparr>)"

text \<open>A stream that cannot be written to is dropped.\<close>

definition broadcast :: "notif_env \<Rightarrow> string \<Rightarrow> notif \<Rightarrow> notif_sys \<Rightarrow> notif_sys" where
  "broadcast E user n s =
     (let cs = streams_of user s
      in if cs = [] then s
         else s\<lparr>delivered := delivered s @ map (\<lambda>c. (c, n)) (filter (writable E) cs),
                sseClients := js_map_set user (filter (writable E) cs) (sseClients s)\<rparr>)"

section \<open>The table\<close>

definition insert_notif ::
  "notif_env \<Rightarrow> string \<Rightarrow> string \<Rightarrow> string \<Rightarrow> string \<Rightarrow> int option \<Rightarrow> string option \<Rightarrow> notif_sys \<Rightarrow>
     (http_error + notif) \<times> notif_sys" where
  "insert_notif E user ty title msg loan act s =
     (if \<not> insert_up E then (Inl (Thrown ''database error''), s)
      else (let n = \<lparr>notif_id = next_id s, notif_user = user, notif_type = ty, notif_title = title,
                     notif_message = msg, notif_loan = loan, notif_action = act, is_read = False,
                     notif_status = Unread, notif_created = at E\<rparr>
            in (Inr n, s\<lparr>notifications := notifications s @ [n], next_id := next_id s + 1\<rparr>)))"

definition loan_url :: "int option \<Rightarrow> string option" where
  "loan_url loan = map_option (\<lambda>l. ''/loans/'' @ show_int l) loan"

definition createNotification ::
  "notif_env \<Rightarrow> string \<Rightarrow> string \<Rightarrow> string \<Rightarrow> string \<Rightarrow> int option \<Rightarrow> string option \<Rightarrow> notif_sys \<Rightarrow>
     (http_error + notif) \<times> notif_sys" where
  "createNotification E user ty title msg loan act s =
     (let url = (case act of Some u \<Rightarrow> Some u | None \<Rightarrow> loan_url loan) in
      case insert_notif E user ty title msg loan url s of
        (Inl e, s1) \<Rightarrow> (Inl e, s1)
      | (Inr n, s1) \<Rightarrow> (Inr n, notifyUserExternal E user msg ty (broadcast E user n s1)))"

text \<open>The administrators: a mail, then a row and a push for each wallet until a statement fails.\<close>

definition admin_list :: "notif_env \<Rightarrow> string list" where
  "admin_list E =
     filter (\<lambda>w. w \<noteq> []) (map js_trim (js_split CHR '','' (case admin_wallets E of None \<Rightarrow> [] | Some ws \<Rightarrow> ws)))"

fun push_admins :: "notif_env \<Rightarrow> string list \<Rightarrow> string \<Rightarrow> string \<Rightarrow> int option \<Rightarrow> notif_sys \<Rightarrow> notif_sys" where
  "push_admins E [] title msg loan s = s"
| "push_admins E (a # as) title msg loan s =
     (case insert_notif E a ''loan_defaulted'' title msg loan (loan_url loan) s of
        (Inl e, s1) \<Rightarrow> s1
      | (Inr n, s1) \<Rightarrow> push_admins E as title msg loan (broadcast E a n s1))"

definition notifyAdmins :: "notif_env \<Rightarrow> string \<Rightarrow> string \<Rightarrow> int option \<Rightarrow> notif_sys \<Rightarrow> notif_sys" where
  "notifyAdmins E title msg loan s =
     (let s1 = (case env_set (ADMIN_EMAIL E) of
                  None \<Rightarrow> s | Some addr \<Rightarrow> s\<lparr>sent := sent s @ sendEmail E addr msg None\<rparr>)
      in push_admins E (admin_list E) title msg loan s1)"

definition update_rows :: "(notif \<Rightarrow> bool) \<Rightarrow> notif_status \<Rightarrow> notif_sys \<Rightarrow> notif_sys" where
  "update_rows P st s =
     s\<lparr>notifications := map (\<lambda>n. if P n then n\<lparr>is_read := True, notif_status := st\<rparr> else n) (notifications s)\<rparr>"

definition markRead :: "string \<Rightarrow> int list \<Rightarrow> notif_sys \<Rightarrow> notif_sys" where
  "markRead user ids s =
     (if ids = [] then s
      else update_rows (\<lambda>n. notif_user n = user \<and> int (notif_id n) \<in> set ids \<and> notif_status n = Unread) Read s)"

definition markAllRead :: "string \<Rightarrow> notif_sys \<Rightarrow> notif_sys" where
  "markAllRead user s = update_rows (\<lambda>n. notif_user n = user \<and> notif_status n = Unread) Read s"

definition archiveNotifications :: "string \<Rightarrow> int list \<Rightarrow> notif_sys \<Rightarrow> notif_sys" where
  "archiveNotifications user ids s =
     (if ids = [] then s
      else update_rows (\<lambda>n. notif_user n = user \<and> int (notif_id n) \<in> set ids \<and> notif_status n \<noteq> Archived) Archived s)"

definition getUnreadCount :: "string \<Rightarrow> notif_sys \<Rightarrow> nat" where
  "getUnreadCount user s = length (filter (\<lambda>n. notif_user n = user \<and> notif_status n = Unread) (notifications s))"

definition status_text :: "notif_status \<Rightarrow> string" where
  "status_text st = (case st of Unread \<Rightarrow> ''unread'' | Read \<Rightarrow> ''read'' | Archived \<Rightarrow> ''archived'')"

text \<open>The dates of the query are parsed by \<open>date_of\<close>; an empty parameter is no filter.\<close>

definition date_bound :: "(string \<Rightarrow> ms option) \<Rightarrow> string \<Rightarrow> string option \<Rightarrow> http_error + ms option" where
  "date_bound date_of name v =
     (case env_set v of
        None \<Rightarrow> Inr None
      | Some t \<Rightarrow>
          (case date_of t of
             None \<Rightarrow> Inl (Thrown (''Invalid '' @ [CHR 0x27] @ name @ [CHR 0x27] @ '' date format''))
           | Some m \<Rightarrow> Inr (Some m)))"

definition getNotificationsForUser ::
  "(string \<Rightarrow> ms option) \<Rightarrow> string \<Rightarrow> nat \<Rightarrow> string option \<Rightarrow> string option \<Rightarrow> string option \<Rightarrow> string option \<Rightarrow>
     notif_sys \<Rightarrow> http_error + notif list" where
  "getNotificationsForUser date_of user limit ty st lo hi s =
     and_then (date_bound date_of ''from'' lo) (\<lambda>f.
     and_then (date_bound date_of ''to'' hi) (\<lambda>t.
       Inr (take limit (sort_key (\<lambda>n. - notif_created n) (filter (\<lambda>n.
         notif_user n = user \<and>
         (case env_set ty of None \<Rightarrow> True | Some y \<Rightarrow> notif_type n = y) \<and>
         (case env_set st of None \<Rightarrow> True | Some y \<Rightarrow> status_text (notif_status n) = y) \<and>
         (case f of None \<Rightarrow> True | Some m \<Rightarrow> m \<le> notif_created n) \<and>
         (case t of None \<Rightarrow> True | Some m \<Rightarrow> notif_created n \<le> m)) (notifications s))))))"

definition DAY_MS :: ms where "DAY_MS = 86400000"

definition delete_rows :: "(notif \<Rightarrow> bool) \<Rightarrow> notif_sys \<Rightarrow> nat \<times> notif_sys" where
  "delete_rows P s =
     (length (filter P (notifications s)), s\<lparr>notifications := filter (\<lambda>n. \<not> P n) (notifications s)\<rparr>)"

definition deleteOldNotifications :: "ms \<Rightarrow> int \<Rightarrow> notif_sys \<Rightarrow> nat \<times> notif_sys" where
  "deleteOldNotifications now retentionDays s =
     delete_rows (\<lambda>n. notif_created n < now - DAY_MS * retentionDays) s"

definition deleteReadAndArchived :: "ms \<Rightarrow> int \<Rightarrow> notif_sys \<Rightarrow> nat \<times> notif_sys" where
  "deleteReadAndArchived now retentionDays s =
     delete_rows (\<lambda>n. notif_status n \<in> {Read, Archived} \<and> notif_created n < now - DAY_MS * retentionDays) s"

definition cleanup :: "ms \<Rightarrow> int \<Rightarrow> int \<Rightarrow> notif_sys \<Rightarrow> notif_sys" where
  "cleanup now retentionDays readRetentionDays s =
     snd (deleteReadAndArchived now readRetentionDays (snd (deleteOldNotifications now retentionDays s)))"

section \<open>Handlers\<close>

definition MAX_IDS_PER_REQUEST :: nat where "MAX_IDS_PER_REQUEST = 100"

definition authenticated :: "string option \<Rightarrow> http_error + string" where
  "authenticated user =
     (case env_set user of None \<Rightarrow> Inl (unauthorized ''Authentication required'' None) | Some u \<Rightarrow> Inr u)"

text \<open>\<open>ids\<close> is \<open>None\<close> when the body has no array of numbers.\<close>

definition markRead_handler :: "string option \<Rightarrow> int list option \<Rightarrow> notif_sys \<Rightarrow> (http_error + unit) \<times> notif_sys" where
  "markRead_handler user ids s =
     (case authenticated user of
        Inl e \<Rightarrow> (Inl e, s)
      | Inr u \<Rightarrow>
          (case ids of
             None \<Rightarrow> (Inl (badRequest ''Body must contain an array of numeric ids'' None None), s)
           | Some is \<Rightarrow>
               (if length is > MAX_IDS_PER_REQUEST
                then (Inl (badRequest (''Cannot mark more than '' @ show_nat MAX_IDS_PER_REQUEST @
                        '' notifications at once'') None None), s)
                else (Inr (), markRead u is s))))"

definition markAllRead_handler :: "string option \<Rightarrow> notif_sys \<Rightarrow> (http_error + unit) \<times> notif_sys" where
  "markAllRead_handler user s =
     (case authenticated user of Inl e \<Rightarrow> (Inl e, s) | Inr u \<Rightarrow> (Inr (), markAllRead u s))"

text \<open>The stream of a user begins with the rows of that user that are unread; \<open>None\<close> for a failing query.\<close>

definition streamNotifications ::
  "string option \<Rightarrow> nat \<Rightarrow> bool \<Rightarrow> (string \<Rightarrow> ms option) \<Rightarrow> notif_sys \<Rightarrow> (http_error + notif list) \<times> notif_sys" where
  "streamNotifications user c db_up date_of s =
     (case authenticated user of
        Inl e \<Rightarrow> (Inl e, s)
      | Inr u \<Rightarrow>
          (let rows = (if db_up then getNotificationsForUser date_of u 50 None None None None s else Inl (Thrown ''database error''));
               initial = (case rows of Inl e \<Rightarrow> [] | Inr ns \<Rightarrow> filter (\<lambda>n. \<not> is_read n) ns)
           in (Inr initial,
               subscribe u c (s\<lparr>delivered := delivered s @ map (\<lambda>n. (c, n)) initial\<rparr>))))"

section \<open>Reachable states\<close>

text \<open>A stream belongs to the user who opened it. Whatever the calls find (failing statements, dead streams), a
  run is a sequence of these steps.\<close>

inductive notif_step :: "(nat \<Rightarrow> string) \<Rightarrow> notif_sys \<Rightarrow> notif_sys \<Rightarrow> bool" for owner :: "nat \<Rightarrow> string" where
  create: "notif_step owner s (snd (createNotification E user ty title msg loan act s))"
| admins: "notif_step owner s (notifyAdmins E title msg loan s)"
| mark: "notif_step owner s (snd (markRead_handler user ids s))"
| mark_all: "notif_step owner s (snd (markAllRead_handler user s))"
| archive: "notif_step owner s (archiveNotifications user is s)"
| clean: "notif_step owner s (cleanup now d r s)"
| open_stream: "notif_step owner s (snd (streamNotifications (Some (owner c)) c up dates s))"
| close_stream: "notif_step owner s (unsubscribe (owner c) c s)"

inductive notif_reach :: "(nat \<Rightarrow> string) \<Rightarrow> notif_sys \<Rightarrow> bool" for owner :: "nat \<Rightarrow> string" where
  empty: "notifications s = [] \<Longrightarrow> sseClients s = [] \<Longrightarrow> delivered s = [] \<Longrightarrow> notif_reach owner s"
| step: "notif_reach owner s \<Longrightarrow> notif_step owner s s' \<Longrightarrow> notif_reach owner s'"

definition rank :: "notif_status \<Rightarrow> nat" where
  "rank st = (case st of Unread \<Rightarrow> 0 | Read \<Rightarrow> 1 | Archived \<Rightarrow> 2)"

definition notif_inv :: "(nat \<Rightarrow> string) \<Rightarrow> notif_sys \<Rightarrow> bool" where
  "notif_inv owner s \<longleftrightarrow>
     (\<forall>(c, n) \<in> set (delivered s). notif_user n = owner c) \<and>
     (\<forall>u c. c \<in> set (streams_of u s) \<longrightarrow> owner c = u) \<and>
     (\<forall>n \<in> set (notifications s). (is_read n \<longleftrightarrow> notif_status n \<noteq> Unread) \<and> notif_id n < next_id s) \<and>
     distinct (map notif_id (notifications s))"

text \<open>What becomes of the rows of a table: they keep identity, owner and age, and only move forward.\<close>

definition moved_on :: "notif \<Rightarrow> notif \<Rightarrow> bool" where
  "moved_on n n' \<longleftrightarrow>
     notif_id n' = notif_id n \<and> notif_user n' = notif_user n \<and> notif_created n' = notif_created n \<and>
     notif_message n' = notif_message n \<and> rank (notif_status n) \<le> rank (notif_status n')"

definition rows_move_on :: "notif_sys \<Rightarrow> notif_sys \<Rightarrow> bool" where
  "rows_move_on s s' \<longleftrightarrow>
     next_id s \<le> next_id s' \<and>
     (\<forall>n' \<in> set (notifications s'). notif_id n' < next_id s \<longrightarrow> (\<exists>n \<in> set (notifications s). moved_on n n'))"

lemma moved_on_refl [simp]: "moved_on n n"
  by (simp add: moved_on_def)

lemma row_kept: "n \<in> A \<Longrightarrow> \<exists>m \<in> A. moved_on m n"
  using moved_on_refl by blast

lemma rows_move_on_same: "notifications s' = notifications s \<Longrightarrow> next_id s' = next_id s \<Longrightarrow> rows_move_on s s'"
  by (auto simp: rows_move_on_def intro: row_kept)

lemma rows_move_on_trans:
  assumes "rows_move_on a b" "rows_move_on b c"
  shows "rows_move_on a c"
  unfolding rows_move_on_def
proof (intro conjI ballI impI)
  show "next_id a \<le> next_id c" using assms by (simp add: rows_move_on_def)
  fix n' assume n': "n' \<in> set (notifications c)" "notif_id n' < next_id a"
  have "notif_id n' < next_id b" using n'(2) assms(1) by (simp add: rows_move_on_def)
  then obtain n1 where n1: "n1 \<in> set (notifications b)" "moved_on n1 n'"
    using assms(2) n'(1) unfolding rows_move_on_def by blast
  then have "notif_id n1 < next_id a" using n'(2) by (simp add: moved_on_def)
  then obtain n where "n \<in> set (notifications a)" "moved_on n n1"
    using assms(1) n1(1) unfolding rows_move_on_def by blast
  with n1(2) show "\<exists>n \<in> set (notifications a). moved_on n n'" by (auto simp: moved_on_def)
qed

lemma streams_of_set [simp]: "streams_of u (s\<lparr>sseClients := js_map_set v cs (sseClients s)\<rparr>) = (if u = v then cs else streams_of u s)"
  by (simp add: streams_of_def)

lemma notif_inv_frame:
  "notifications s' = notifications s \<Longrightarrow> next_id s' = next_id s \<Longrightarrow> sseClients s' = sseClients s \<Longrightarrow>
     delivered s' = delivered s \<Longrightarrow> notif_inv owner s \<Longrightarrow> notif_inv owner s'"
  by (simp add: notif_inv_def streams_of_def)

lemma insert_notif_inv:
  "insert_notif E user ty title msg loan act s = (r, s') \<Longrightarrow> notif_inv owner s \<Longrightarrow>
     notif_inv owner s' \<and> rows_move_on s s' \<and> (\<forall>n. r = Inr n \<longrightarrow> notif_user n = user)"
  by (force simp: insert_notif_def notif_inv_def streams_of_def rows_move_on_def Let_def split: if_splits)

lemma broadcast_inv:
  assumes "notif_inv owner s" "notif_user n = user"
  shows "notif_inv owner (broadcast E user n s)" "rows_move_on s (broadcast E user n s)"
proof -
  show "rows_move_on s (broadcast E user n s)"
    by (rule rows_move_on_same) (simp_all add: broadcast_def Let_def)
  have "streams_of u (broadcast E user n s) =
      (if u = user then filter (writable E) (streams_of user s) else streams_of u s)" for u
    by (auto simp: broadcast_def Let_def) (simp_all add: streams_of_def)
  moreover have "set (delivered (broadcast E user n s)) \<subseteq> set (delivered s) \<union> (\<lambda>c. (c, n)) ` set (streams_of user s)"
    by (auto simp: broadcast_def Let_def)
  ultimately show "notif_inv owner (broadcast E user n s)"
    using assms unfolding notif_inv_def by (auto simp: broadcast_def Let_def split: if_splits)
qed

lemma external_inv:
  "notif_inv owner s \<Longrightarrow> notif_inv owner (notifyUserExternal E user msg ty s)"
  "rows_move_on s (notifyUserExternal E user msg ty s)"
  by (auto simp: notifyUserExternal_def Let_def intro: notif_inv_frame rows_move_on_same split: option.split)

lemma create_inv:
  assumes "notif_inv owner s"
  shows "notif_inv owner (snd (createNotification E user ty title msg loan act s)) \<and>
    rows_move_on s (snd (createNotification E user ty title msg loan act s))"
proof -
  define url where "url = (case act of Some u \<Rightarrow> Some u | None \<Rightarrow> loan_url loan)"
  obtain r s1 where i: "insert_notif E user ty title msg loan url s = (r, s1)" by fastforce
  note i1 = insert_notif_inv [OF i assms]
  show ?thesis
  proof (cases r)
    case (Inl e)
    then show ?thesis using i i1 by (simp add: createNotification_def url_def [symmetric])
  next
    case (Inr n)
    have "notif_inv owner (broadcast E user n s1)" "rows_move_on s1 (broadcast E user n s1)"
      using broadcast_inv i1 Inr by blast+
    then show ?thesis
      using i i1 Inr external_inv rows_move_on_trans
      by (simp add: createNotification_def url_def [symmetric]) (meson rows_move_on_trans)
  qed
qed

lemma push_admins_inv:
  "notif_inv owner s \<Longrightarrow> notif_inv owner (push_admins E as title msg loan s) \<and> rows_move_on s (push_admins E as title msg loan s)"
proof (induction "as" arbitrary: s)
  case (Cons a as)
  obtain r s1 where i: "insert_notif E a ''loan_defaulted'' title msg loan (loan_url loan) s = (r, s1)" by fastforce
  note i1 = insert_notif_inv [OF i Cons.prems]
  show ?case
  proof (cases r)
    case (Inr n)
    then have b: "notif_inv owner (broadcast E a n s1)" "rows_move_on s1 (broadcast E a n s1)"
      using broadcast_inv i1 by blast+
    show ?thesis using Cons.IH [OF b(1)] i i1 b(2) Inr by (simp, meson rows_move_on_trans)
  qed (use i i1 in simp)
qed (simp add: rows_move_on_same)

lemma update_rows_inv:
  assumes "notif_inv owner s" "st \<noteq> Unread" "\<And>n. P n \<Longrightarrow> rank (notif_status n) \<le> rank st"
  shows "notif_inv owner (update_rows P st s) \<and> rows_move_on s (update_rows P st s)"
proof -
  let ?f = "\<lambda>n. if P n then n\<lparr>is_read := True, notif_status := st\<rparr> else n"
  have m: "map notif_id (map ?f ns) = map notif_id ns" for ns by simp
  have "moved_on n (?f n)" for n using assms(3) by (simp add: moved_on_def)
  moreover have "is_read (?f n) \<longleftrightarrow> notif_status (?f n) \<noteq> Unread" if "is_read n \<longleftrightarrow> notif_status n \<noteq> Unread" for n
    using that assms(2) by simp
  moreover have "notif_id (?f n) = notif_id n" for n by simp
  moreover have u: "notifications (update_rows P st s) = map ?f (notifications s)"
    "next_id (update_rows P st s) = next_id s" "delivered (update_rows P st s) = delivered s"
    "sseClients (update_rows P st s) = sseClients s"
    by (simp_all add: update_rows_def)
  ultimately have "\<forall>n' \<in> set (notifications (update_rows P st s)). \<exists>n \<in> set (notifications s). moved_on n n'"
    unfolding u by (metis (no_types, lifting) image_iff set_map)
  moreover have "notif_inv owner (update_rows P st s)"
    using assms(1,2) unfolding notif_inv_def u streams_of_def m by auto
  ultimately show ?thesis by (simp add: rows_move_on_def u)
qed

lemma marking_inv:
  assumes "notif_inv owner s"
  shows "notif_inv owner (markRead u ids s) \<and> rows_move_on s (markRead u ids s)"
    and "notif_inv owner (markAllRead u s) \<and> rows_move_on s (markAllRead u s)"
    and "notif_inv owner (archiveNotifications u ids s) \<and> rows_move_on s (archiveNotifications u ids s)"
proof -
  have up: "notif_inv owner (update_rows P st s) \<and> rows_move_on s (update_rows P st s)"
    if "st \<noteq> Unread" "\<And>n. P n \<Longrightarrow> rank (notif_status n) \<le> rank st" for P st
    using update_rows_inv [OF assms that] .
  show "notif_inv owner (markRead u ids s) \<and> rows_move_on s (markRead u ids s)"
    using up [of Read "\<lambda>n. notif_user n = u \<and> int (notif_id n) \<in> set ids \<and> notif_status n = Unread"] assms
    by (simp add: markRead_def rank_def rows_move_on_same)
  show "notif_inv owner (markAllRead u s) \<and> rows_move_on s (markAllRead u s)"
    using up [of Read "\<lambda>n. notif_user n = u \<and> notif_status n = Unread"] by (simp add: markAllRead_def rank_def)
  show "notif_inv owner (archiveNotifications u ids s) \<and> rows_move_on s (archiveNotifications u ids s)"
    using up [of Archived "\<lambda>n. notif_user n = u \<and> int (notif_id n) \<in> set ids \<and> notif_status n \<noteq> Archived"] assms
    by (simp add: archiveNotifications_def rank_def rows_move_on_same split: notif_status.splits)
qed

lemma delete_rows_inv:
  "notif_inv owner s \<Longrightarrow> notif_inv owner (snd (delete_rows P s)) \<and> rows_move_on s (snd (delete_rows P s))"
  by (auto simp: notif_inv_def rows_move_on_def delete_rows_def streams_of_def distinct_map_filter intro: row_kept)

lemma subscribe_inv:
  assumes "notif_inv owner s" "\<forall>n \<in> set ns. notif_user n = owner c"
  shows "notif_inv owner (subscribe (owner c) c (s\<lparr>delivered := delivered s @ map (\<lambda>n. (c, n)) ns\<rparr>))"
proof -
  let ?s = "subscribe (owner c) c (s\<lparr>delivered := delivered s @ map (\<lambda>n. (c, n)) ns\<rparr>)"
  have sub: "set (streams_of u ?s) \<subseteq> (if u = owner c then insert c (set (streams_of u s)) else set (streams_of u s))" for u
    by (auto simp: subscribe_def Let_def streams_of_def)
  have "owner d = u" if "d \<in> set (streams_of u ?s)" for u d
  proof -
    have "d \<in> set (streams_of u s) \<or> u = owner c \<and> d = c"
      using that sub [of u] by (cases "u = owner c") auto
    moreover have "d \<in> set (streams_of u s) \<Longrightarrow> owner d = u" using assms(1) unfolding notif_inv_def by blast
    ultimately show ?thesis by blast
  qed
  moreover have "notifications ?s = notifications s" "next_id ?s = next_id s"
    "delivered ?s = delivered s @ map (\<lambda>n. (c, n)) ns"
    by (simp_all add: subscribe_def Let_def)
  ultimately show ?thesis using assms unfolding notif_inv_def by auto
qed

lemma unsubscribe_inv:
  assumes "notif_inv owner s"
  shows "notif_inv owner (unsubscribe u c s)"
proof -
  have d: "map_of (filter (\<lambda>p. fst p \<noteq> u) m) v = (if v = u then None else map_of m v)" for m :: "(string \<times> nat list) list" and v
    by (induction m) auto
  have r: "sseClients (unsubscribe u c s) = (if map_of (sseClients s) u = None then sseClients s
      else if filter (\<lambda>d. d \<noteq> c) (streams_of u s) = [] then filter (\<lambda>p. fst p \<noteq> u) (sseClients s)
      else js_map_set u (filter (\<lambda>d. d \<noteq> c) (streams_of u s)) (sseClients s))"
    by (simp add: unsubscribe_def Let_def del: not_None_eq)
  have "set (streams_of v (unsubscribe u c s)) \<subseteq> set (streams_of v s)" for v
    by (cases "v = u"; cases "map_of (sseClients s) u = None"; cases "filter (\<lambda>d. d \<noteq> c) (streams_of u s) = []")
      (auto simp: streams_of_def r d)
  then have "owner d = v" if "d \<in> set (streams_of v (unsubscribe u c s))" for v d
    using that assms unfolding notif_inv_def by blast
  moreover have "notifications (unsubscribe u c s) = notifications s" "next_id (unsubscribe u c s) = next_id s"
    "delivered (unsubscribe u c s) = delivered s"
    by (simp_all add: unsubscribe_def Let_def)
  ultimately show ?thesis using assms unfolding notif_inv_def by auto
qed

lemma user_rows: "getNotificationsForUser d u l t st f h s = Inr ns \<Longrightarrow> \<forall>n \<in> set ns. notif_user n = u"
  by (auto simp: getNotificationsForUser_def and_then_eq_Inr dest!: in_set_takeD)

lemma notif_step_inv: "notif_step owner s s' \<Longrightarrow> notif_inv owner s \<Longrightarrow> notif_inv owner s' \<and> rows_move_on s s'"
proof (induction rule: notif_step.induct)
  case (create s E user ty title msg loan act)
  then show ?case using create_inv by blast
next
  case (admins s E title msg loan)
  let ?s = "case env_set (ADMIN_EMAIL E) of None \<Rightarrow> s | Some addr \<Rightarrow> s\<lparr>sent := sent s @ sendEmail E addr msg None\<rparr>"
  have "notif_inv owner ?s" "rows_move_on s ?s"
    using admins by (auto intro: notif_inv_frame rows_move_on_same split: option.split)
  then show ?case using push_admins_inv [of owner ?s] rows_move_on_trans by (auto simp: notifyAdmins_def Let_def)
next
  case (mark s user ids)
  then show ?case
    using marking_inv(1) [OF mark] by (simp add: markRead_handler_def rows_move_on_same split: sum.split option.split)
next
  case (mark_all s user)
  then show ?case
    using marking_inv(2) [OF mark_all] by (simp add: markAllRead_handler_def rows_move_on_same split: sum.split)
next
  case (archive s user "is")
  then show ?case using marking_inv(3) [OF archive] by simp
next
  case (clean s now d r)
  then show ?case
    using delete_rows_inv rows_move_on_trans
    by (auto simp: cleanup_def deleteReadAndArchived_def deleteOldNotifications_def) (meson rows_move_on_trans)+
next
  case (open_stream s c up dates)
  show ?case
  proof (cases "authenticated (Some (owner c))")
    case (Inr u)
    then have u: "u = owner c" by (auto simp: authenticated_def env_set_def split: if_splits)
    define ns where "ns = (case (if up then getNotificationsForUser dates u 50 None None None None s else Inl (Thrown ''database error''))
        of Inl e \<Rightarrow> [] | Inr ns \<Rightarrow> filter (\<lambda>n. \<not> is_read n) ns)"
    have "\<forall>n \<in> set ns. notif_user n = owner c"
      using user_rows [of dates u 50 None None None None s]
      by (cases "getNotificationsForUser dates u 50 None None None None s") (auto simp: ns_def u)
    from subscribe_inv [OF open_stream this] show ?thesis
      using Inr by (simp add: streamNotifications_def ns_def [symmetric] u [symmetric])
        (simp add: rows_move_on_same subscribe_def Let_def)
  qed (use open_stream in \<open>simp add: streamNotifications_def rows_move_on_same\<close>)
next
  case (close_stream s c)
  then show ?case using unsubscribe_inv by (simp add: rows_move_on_same unsubscribe_def Let_def)
qed

lemma notif_reach_inv: "notif_reach owner s \<Longrightarrow> notif_inv owner s"
proof (induction rule: notif_reach.induct)
  case (empty s)
  then show ?case by (simp add: notif_inv_def streams_of_def)
next
  case (step s s')
  then show ?case using notif_step_inv by blast
qed

subsection \<open>What marking leaves alone\<close>

lemma notif_steps_move_on:
  "(notif_step owner)\<^sup>*\<^sup>* s s' \<Longrightarrow> notif_reach owner s \<Longrightarrow> notif_reach owner s' \<and> rows_move_on s s'"
proof (induction rule: rtranclp_induct)
  case base
  then show ?case by (simp add: rows_move_on_same)
next
  case (step a b)
  then show ?case
    using notif_step_inv notif_reach_inv rows_move_on_trans notif_reach.step by blast
qed

lemma filter_other_user:
  "u \<noteq> v \<Longrightarrow> (\<And>n. notif_user (f n) = notif_user n) \<Longrightarrow>
     filter (\<lambda>n. notif_user n = v) (map (\<lambda>n. if notif_user n = u \<and> Q n then f n else n) ns) =
       filter (\<lambda>n. notif_user n = v) ns"
  by (induction ns) auto

lemma markRead_others:
  "u \<noteq> v \<Longrightarrow> filter (\<lambda>n. notif_user n = v) (notifications (snd (markRead_handler (Some u) ids s))) =
     filter (\<lambda>n. notif_user n = v) (notifications s)"
  by (auto simp: markRead_handler_def authenticated_def env_set_def markRead_def update_rows_def filter_other_user
      split: option.splits)

lemma unread_other_user:
  "u \<noteq> v \<Longrightarrow> length (filter (\<lambda>n. notif_user n = v \<and> notif_status n = Unread)
        (map (\<lambda>n. if notif_user n = u \<and> Q n then n\<lparr>is_read := True, notif_status := Read\<rparr> else n) ns)) =
     length (filter (\<lambda>n. notif_user n = v \<and> notif_status n = Unread) ns)"
  by (induction ns) auto

lemma markAllRead_others:
  assumes "u \<noteq> v"
  shows "getUnreadCount v (snd (markAllRead_handler (Some u) s)) = getUnreadCount v s"
proof -
  have "notifications (markAllRead u s) = map (\<lambda>n. if notif_user n = u \<and> notif_status n = Unread
      then n\<lparr>is_read := True, notif_status := Read\<rparr> else n) (notifications s)"
    by (simp add: markAllRead_def update_rows_def)
  then have "getUnreadCount v (markAllRead u s) = getUnreadCount v s"
    using unread_other_user [OF assms] by (simp only: getUnreadCount_def)
  then show ?thesis
    by (simp add: markAllRead_handler_def split: sum.split) (simp add: authenticated_def env_set_def split: if_splits)
qed

lemma markAllRead_own: "u \<noteq> [] \<Longrightarrow> getUnreadCount u (snd (markAllRead_handler (Some u) s)) = 0"
  by (auto simp: markAllRead_handler_def authenticated_def env_set_def markAllRead_def update_rows_def
      getUnreadCount_def filter_empty_conv)

section \<open>Properties\<close>

text \<open>(C18) Notifications reach their user and nobody else: in every reachable state, each notification that has been
  written to a stream is one of the user who opened that stream, be it from the table when the stream opened or
  pushed later; and the flag \<open>read\<close> of a row always agrees with its status.\<close>

theorem streams_are_private:
  assumes "notif_reach owner s"
  shows "(\<forall>(c, n) \<in> set (delivered s). notif_user n = owner c) \<and>
    (\<forall>n \<in> set (notifications s). is_read n \<longleftrightarrow> notif_status n \<noteq> Unread) \<and>
    distinct (map notif_id (notifications s))"
  using notif_reach_inv [OF assms] unfolding notif_inv_def by blast

text \<open>A notification only moves forward, from unread over read to archived. Whatever is done between two reachable
  states, a row of the later one that existed before has the same user, message and date and no earlier
  status; marking touches the rows of the caller only, and after marking all of them no unread one is
  left.\<close>

theorem notification_lifecycle:
  assumes "notif_reach owner s" "(notif_step owner)\<^sup>*\<^sup>* s s'"
  shows "(\<forall>n' \<in> set (notifications s'). notif_id n' < next_id s \<longrightarrow> (\<exists>n \<in> set (notifications s). moved_on n n')) \<and>
    (u \<noteq> v \<longrightarrow> filter (\<lambda>n. notif_user n = v) (notifications (snd (markRead_handler (Some u) ids s'))) =
        filter (\<lambda>n. notif_user n = v) (notifications s') \<and>
      getUnreadCount v (snd (markAllRead_handler (Some u) s')) = getUnreadCount v s') \<and>
    (u \<noteq> [] \<longrightarrow> getUnreadCount u (snd (markAllRead_handler (Some u) s')) = 0)"
  using notif_steps_move_on [OF assms(2,1)] markRead_others [of u v ids s'] markAllRead_others [of u v s']
    markAllRead_own [of u s']
  unfolding rows_move_on_def by blast

section \<open>Witnesses\<close>

definition quiet :: notif_env where
  "quiet = \<lparr>FROM_EMAIL = None, SENDGRID_API_KEY = None, twilio_ready = False, ADMIN_EMAIL = None, admin_wallets = None,
     at = 5, insert_up = True, profiles_up = True, writable = (\<lambda>_. True)\<rparr>"

definition no_notifs :: notif_sys where
  "no_notifs = \<lparr>notifications = [], next_id = 0, sseClients = [], delivered = [], profiles = [], sent = []\<rparr>"

definition demo_owner :: "nat \<Rightarrow> string" where
  "demo_owner c = (if c = 0 then ''GA'' else ''GB'')"

definition demo_open :: notif_sys where
  "demo_open = snd (streamNotifications (Some (demo_owner 0)) 0 True (\<lambda>_. None) no_notifs)"

definition demo_notified :: notif_sys where
  "demo_notified = snd (createNotification quiet ''GA'' ''loan_approved'' ''t'' ''m'' (Some 7) None demo_open)"

lemma demo_reach: "notif_reach demo_owner demo_open" "notif_reach demo_owner demo_notified"
proof -
  have "notif_reach demo_owner no_notifs" by (rule notif_reach.empty) (simp_all add: no_notifs_def)
  from notif_reach.step [OF this open_stream] show o: "notif_reach demo_owner demo_open" unfolding demo_open_def .
  from notif_reach.step [OF o create] show "notif_reach demo_owner demo_notified" unfolding demo_notified_def .
qed

theorem streams_are_private_witness:
  "length (delivered demo_notified) = 1 \<and>
   notif_user (snd (hd (delivered demo_notified))) = demo_owner (fst (hd (delivered demo_notified)))"
proof -
  have l: "length (delivered demo_notified) = 1" by code_simp
  then have h: "hd (delivered demo_notified) \<in> set (delivered demo_notified)" by (intro hd_in_set) auto
  have "case hd (delivered demo_notified) of (c, n) \<Rightarrow> notif_user n = demo_owner c"
    by (rule bspec [OF conjunct1 [OF streams_are_private [OF demo_reach(2)]] h])
  with l show ?thesis by (simp only: case_prod_beta simp_thms)
qed

theorem notification_lifecycle_witness:
  "getUnreadCount ''GA'' demo_notified = 1 \<and> getUnreadCount ''GA'' (snd (markAllRead_handler (Some ''GA'') demo_notified)) = 0"
proof -
  have "getUnreadCount ''GA'' demo_notified = 1" by code_simp
  moreover have "notif_step demo_owner demo_open demo_notified" unfolding demo_notified_def by (rule create)
  ultimately show ?thesis
    using notification_lifecycle [OF demo_reach(1) r_into_rtranclp, of demo_notified "''GA''"] by blast
qed

end
