(* ===== verification/EventStream.thy ===== *)
theory EventStream
  imports IndexerStore Rbac
begin

text \<open>
  The live stream of loan events: \<open>src/backend/src/services/eventStreamService.ts\<close> and the handlers of
  \<open>src/backend/src/controllers/eventStreamController.ts\<close>. A connection is a number; \<open>streamed\<close> is what
  has been written to each. The handler of a new connection waits once, for the events it replays, so it runs
  in three steps: the checks, the query, and the rest. \<open>writable\<close> says to which connections a
  step can write; the two texts of a date (\<open>toISOString\<close> and \<open>String\<close>) are parameters.
\<close>

section \<open>Messages\<close>

datatype event_value = Text string | Number js_number

type_synonym payload = "(string \<times> event_value) list"

datatype message =
    LoanEvent "event_value option" payload
  | Init "(string \<times> nat) list"
  | Ping
  | Shutdown string

text \<open>The payload that the indexer broadcasts: a property that is \<open>undefined\<close> is not written.\<close>

definition live_payload :: "(ms \<Rightarrow> string) \<Rightarrow> contract_event \<Rightarrow> string option \<Rightarrow> payload" where
  "live_payload to_iso e display =
     [(''eventId'', Text (evId e)), (''eventType'', Text (evType e))]
     @ (case evLoanId e of None \<Rightarrow> [] | Some l \<Rightarrow> [(''loanId'', Number l)])
     @ (case evAddress e of None \<Rightarrow> [] | Some a \<Rightarrow> [(''address'', Text a)])
     @ (case evAmount e of
          None \<Rightarrow> []
        | Some a \<Rightarrow> (''amount'', Text a) # (case display of None \<Rightarrow> [] | Some d \<Rightarrow> [(''amountDisplay'', Text d)]))
     @ [(''ledger'', Number (Num (evLedger e))), (''ledgerClosedAt'', Text (to_iso (evClosedAt e))),
        (''txHash'', Text (evTxHash e))]"

text \<open>The payload of a replayed row: a column that is \<open>NULL\<close> is \<open>null\<close>, which is not
  \<open>undefined\<close>, so \<open>Number\<close> makes it 0 and \<open>String\<close> the text null.\<close>

definition mapLoanEventRow :: "(ms \<Rightarrow> string) \<Rightarrow> event_row \<Rightarrow> payload" where
  "mapLoanEventRow date_text r =
     [(''eventId'', Text (event_id r)), (''eventType'', Text (event_type r)),
      (''loanId'', Number (case loan_id r of None \<Rightarrow> Num 0 | Some l \<Rightarrow> Num l)),
      (''address'', Text (case address r of None \<Rightarrow> [] | Some a \<Rightarrow> a)),
      (''amount'', Text (case amount r of None \<Rightarrow> ''null'' | Some n \<Rightarrow> show_int n)),
      (''ledger'', Number (Num (ledger r))), (''ledgerClosedAt'', Text (date_text (ledger_closed_at r))),
      (''txHash'', Text (tx_hash r))]"

definition pii_fields :: "string set" where
  "pii_fields = {''recipient_email'', ''recipient_phone'', ''recipient_name'', ''email'', ''phone'', ''legalName''}"

definition maskEventPayload :: "payload \<Rightarrow> payload" where
  "maskEventPayload p = map (\<lambda>(k, v). (k, if k \<in> pii_fields then Text ''[REDACTED]'' else v)) p"

definition event_message :: "payload \<Rightarrow> message" where
  "event_message p = LoanEvent (map_of p ''eventId'') (maskEventPayload p)"

section \<open>State\<close>

record client_info =
  client :: nat
  userKey :: string

datatype target = One string | All

record stream_request =
  rq_client :: nat
  rq_user :: string
  rq_admin :: bool
  rq_borrower :: "string option"
  rq_target :: target
  rq_last :: "string option"
  rq_rows :: "(string + event_row list) option"

text \<open>\<open>waiting\<close>: the requests between their checks and their subscription; \<open>subscribed\<close>: the
  connections whose handler has ended, each with its function \<open>unsubscribe\<close>.\<close>

record stream_sys =
  borrowerClients :: "(string \<times> client_info list) list"
  adminClients :: "client_info list"
  userClients :: "(string \<times> nat list) list"
  heartbeatTimer :: bool
  streamed :: "(nat \<times> message) list"
  waiting :: "stream_request list"
  subscribed :: "stream_request list"

definition MAX_CONNECTIONS_PER_USER :: nat where "MAX_CONNECTIONS_PER_USER = 3"

definition REPLAY_LIMIT :: nat where "REPLAY_LIMIT = 100"

definition entries :: "string \<Rightarrow> (string \<times> 'a list) list \<Rightarrow> 'a list" where
  "entries k m = (case map_of m k of None \<Rightarrow> [] | Some xs \<Rightarrow> xs)"

text \<open>\<open>get(k)?.delete(x)\<close>, and the key goes with its last element.\<close>

definition add_entry :: "string \<Rightarrow> 'a \<Rightarrow> (string \<times> 'a list) list \<Rightarrow> (string \<times> 'a list) list" where
  "add_entry k x m = js_map_set k (if x \<in> set (entries k m) then entries k m else entries k m @ [x]) m"

definition delete_entry :: "string \<Rightarrow> 'a \<Rightarrow> (string \<times> 'a list) list \<Rightarrow> (string \<times> 'a list) list" where
  "delete_entry k x m =
     (if map_of m k = None then m
      else if removeAll x (entries k m) = [] then filter (\<lambda>p. fst p \<noteq> k) m
      else js_map_set k (removeAll x (entries k m)) m)"

section \<open>Service\<close>

definition getUserConnectionCount :: "string \<Rightarrow> stream_sys \<Rightarrow> nat" where
  "getUserConnectionCount u s = length (entries u (userClients s))"

definition canOpenConnection :: "string \<Rightarrow> stream_sys \<Rightarrow> bool" where
  "canOpenConnection u s \<longleftrightarrow> getUserConnectionCount u s < MAX_CONNECTIONS_PER_USER"

definition borrower_count :: "stream_sys \<Rightarrow> nat" where
  "borrower_count s = sum_list (map (\<lambda>p. length (snd p)) (borrowerClients s))"

definition getConnectionCount :: "stream_sys \<Rightarrow> (string \<times> nat) list" where
  "getConnectionCount s =
     [(''borrower'', borrower_count s), (''admin'', length (adminClients s)),
      (''total'', borrower_count s + length (adminClients s))]"

definition stopHeartbeatIfEmpty :: "stream_sys \<Rightarrow> stream_sys" where
  "stopHeartbeatIfEmpty s =
     (if borrower_count s + length (adminClients s) = 0 then s\<lparr>heartbeatTimer := False\<rparr> else s)"

definition subscribeAddress :: "string \<Rightarrow> string \<Rightarrow> nat \<Rightarrow> stream_sys \<Rightarrow> stream_sys" where
  "subscribeAddress u a c s =
     s\<lparr>borrowerClients := add_entry a \<lparr>client = c, userKey = u\<rparr> (borrowerClients s),
       userClients := add_entry u c (userClients s), heartbeatTimer := True\<rparr>"

definition unsubscribeAddress :: "string \<Rightarrow> string \<Rightarrow> nat \<Rightarrow> stream_sys \<Rightarrow> stream_sys" where
  "unsubscribeAddress u a c s =
     stopHeartbeatIfEmpty
       (s\<lparr>borrowerClients := delete_entry a \<lparr>client = c, userKey = u\<rparr> (borrowerClients s),
          userClients := delete_entry u c (userClients s)\<rparr>)"

definition subscribeAll :: "string \<Rightarrow> nat \<Rightarrow> stream_sys \<Rightarrow> stream_sys" where
  "subscribeAll u c s =
     s\<lparr>adminClients := (if \<lparr>client = c, userKey = u\<rparr> \<in> set (adminClients s) then adminClients s
                        else adminClients s @ [\<lparr>client = c, userKey = u\<rparr>]),
       userClients := add_entry u c (userClients s), heartbeatTimer := True\<rparr>"

definition unsubscribeAll :: "string \<Rightarrow> nat \<Rightarrow> stream_sys \<Rightarrow> stream_sys" where
  "unsubscribeAll u c s =
     stopHeartbeatIfEmpty
       (s\<lparr>adminClients := removeAll \<lparr>client = c, userKey = u\<rparr> (adminClients s),
          userClients := delete_entry u c (userClients s)\<rparr>)"

definition removeClient :: "client_info \<Rightarrow> stream_sys \<Rightarrow> stream_sys" where
  "removeClient ci s =
     s\<lparr>borrowerClients := filter (\<lambda>p. snd p \<noteq> []) (map (\<lambda>(a, cs). (a, removeAll ci cs)) (borrowerClients s)),
       adminClients := removeAll ci (adminClients s),
       userClients := delete_entry (userKey ci) (client ci) (userClients s)\<rparr>"

definition collectAllClients :: "stream_sys \<Rightarrow> client_info list" where
  "collectAllClients s = concat (map snd (borrowerClients s)) @ adminClients s"

fun ping_all :: "(nat \<Rightarrow> bool) \<Rightarrow> client_info list \<Rightarrow> stream_sys \<Rightarrow> stream_sys" where
  "ping_all W [] s = s"
| "ping_all W (ci # cis) s =
     ping_all W cis (if W (client ci) then s\<lparr>streamed := streamed s @ [(client ci, Ping)]\<rparr> else removeClient ci s)"

definition heartbeat :: "(nat \<Rightarrow> bool) \<Rightarrow> stream_sys \<Rightarrow> stream_sys" where
  "heartbeat W s = (if heartbeatTimer s then ping_all W (collectAllClients s) s else s)"

text \<open>A client that cannot be written to leaves the set it was found in, and keeps its place among the connections
  of its user.\<close>

definition sends :: "(nat \<Rightarrow> bool) \<Rightarrow> payload \<Rightarrow> client_info list \<Rightarrow> (nat \<times> message) list" where
  "sends W p cis = map (\<lambda>ci. (client ci, event_message p)) (filter (\<lambda>ci. W (client ci)) cis)"

definition payload_address :: "payload \<Rightarrow> string option" where
  "payload_address p = (case map_of p ''address'' of Some (Text a) \<Rightarrow> env_set (Some a) | _ \<Rightarrow> None)"

definition broadcast_address :: "(nat \<Rightarrow> bool) \<Rightarrow> payload \<Rightarrow> stream_sys \<Rightarrow> stream_sys" where
  "broadcast_address W p s =
     (case payload_address p of
        None \<Rightarrow> s
      | Some a \<Rightarrow>
          (let cs = entries a (borrowerClients s)
           in if cs = [] then s
              else s\<lparr>streamed := streamed s @ sends W p cs,
                     borrowerClients := js_map_set a (filter (\<lambda>ci. W (client ci)) cs) (borrowerClients s)\<rparr>))"

definition broadcast_event :: "(nat \<Rightarrow> bool) \<Rightarrow> payload \<Rightarrow> stream_sys \<Rightarrow> stream_sys" where
  "broadcast_event W p s =
     (let s1 = broadcast_address W p s
      in s1\<lparr>streamed := streamed s1 @ sends W p (adminClients s1),
            adminClients := filter (\<lambda>ci. W (client ci)) (adminClients s1)\<rparr>)"

definition closeAllConnections :: "(nat \<Rightarrow> bool) \<Rightarrow> string \<Rightarrow> stream_sys \<Rightarrow> stream_sys" where
  "closeAllConnections W msg s =
     s\<lparr>heartbeatTimer := False,
       streamed := streamed s @ map (\<lambda>ci. (client ci, Shutdown msg))
         (filter (\<lambda>ci. W (client ci)) (remdups (collectAllClients s))),
       borrowerClients := [], adminClients := [], userClients := []\<rparr>"

definition reset_streams :: "stream_sys \<Rightarrow> stream_sys" where
  "reset_streams s = s\<lparr>heartbeatTimer := False, borrowerClients := [], adminClients := [], userClients := []\<rparr>"

section \<open>Handler\<close>

definition too_many_connections :: http_error where
  "too_many_connections =
     AppError 429 (''Maximum of '' @ show_nat MAX_CONNECTIONS_PER_USER @ '' SSE connections allowed per user'')
       ''RATE_LIMIT_EXCEEDED'' None"

definition stream_target :: "string \<Rightarrow> bool \<Rightarrow> string option \<Rightarrow> http_error + target" where
  "stream_target user isAdmin requested =
     (if \<not> isAdmin \<and> env_set requested \<noteq> None \<and> requested \<noteq> Some user
      then Inl (forbidden ''Borrowers can only subscribe to their own events'' None)
      else (case env_set (js_nullish requested (if isAdmin then None else Some user)) of
              Some b \<Rightarrow> Inr (One b) | None \<Rightarrow> Inr All))"

definition parseLastEventId :: "string option \<Rightarrow> string option" where
  "parseLastEventId header = (case header of None \<Rightarrow> None | Some h \<Rightarrow> env_set (Some (js_trim h)))"

text \<open>The checks, in the order of the code; the request then waits for its query.\<close>

definition stream_checks ::
  "request_user \<Rightarrow> string option \<Rightarrow> string option \<Rightarrow> nat \<Rightarrow> stream_sys \<Rightarrow> http_error + stream_sys" where
  "stream_checks user requested header c s =
     (case wallet_of user of
        None \<Rightarrow> Inl auth_required
      | Some u \<Rightarrow>
          (let isAdmin = (map_option role user = Some admin) in
           and_then (stream_target u isAdmin requested) (\<lambda>t.
             if \<not> canOpenConnection u s then Inl too_many_connections
             else Inr (s\<lparr>waiting := waiting s @ [\<lparr>rq_client = c, rq_user = u, rq_admin = isAdmin,
                          rq_borrower = requested, rq_target = t, rq_last = parseLastEventId header,
                          rq_rows = None\<rparr>]\<rparr>))))"

text \<open>\<open>id > COALESCE((SELECT id FROM contract_events WHERE event_id = ...), 0)\<close>: the ids ascend with the
  rows of the table.\<close>

definition rows_after :: "string option \<Rightarrow> event_row list \<Rightarrow> event_row list" where
  "rows_after l tbl =
     (case l of
        None \<Rightarrow> tbl
      | Some e \<Rightarrow> if e \<in> event_id ` set tbl then tl (dropWhile (\<lambda>r. event_id r \<noteq> e) tbl) else tbl)"

definition replay_rows :: "target \<Rightarrow> string option \<Rightarrow> event_row list \<Rightarrow> event_row list" where
  "replay_rows t l tbl =
     take REPLAY_LIMIT (filter (\<lambda>r. case t of All \<Rightarrow> True | One b \<Rightarrow> address r = Some b) (rows_after l tbl))"

definition stream_query :: "bool \<Rightarrow> event_row list \<Rightarrow> stream_request \<Rightarrow> stream_request" where
  "stream_query up tbl rq =
     rq\<lparr>rq_rows := Some (if up then Inr (replay_rows (rq_target rq) (rq_last rq) tbl) else Inl ''database error'')\<rparr>"

definition replayed :: "(ms \<Rightarrow> string) \<Rightarrow> stream_request \<Rightarrow> payload list" where
  "replayed date_text rq =
     (case rq_rows rq of Some (Inr rs) \<Rightarrow> map (mapLoanEventRow date_text) rs | _ \<Rightarrow> [])"

definition init_messages :: "stream_request \<Rightarrow> stream_sys \<Rightarrow> message list" where
  "init_messages rq s =
     (case rq_target rq of
        All \<Rightarrow> [Init (getConnectionCount s)]
      | One b \<Rightarrow> (if rq_rows rq = Some (Inr []) \<and> rq_last rq = None then [Init [(''replayed'', 0)]] else []))"

definition stream_subscribe :: "(ms \<Rightarrow> string) \<Rightarrow> stream_request \<Rightarrow> stream_sys \<Rightarrow> stream_sys" where
  "stream_subscribe date_text rq s =
     (let c = rq_client rq;
          s1 = s\<lparr>streamed := streamed s @ map (\<lambda>p. (c, event_message p)) (replayed date_text rq)
                                       @ map (\<lambda>m. (c, m)) (init_messages rq s)\<rparr>
      in case rq_target rq of
           One b \<Rightarrow> subscribeAddress (rq_user rq) b c s1
         | All \<Rightarrow> subscribeAll (rq_user rq) c s1)"

definition stream_unsubscribe :: "stream_request \<Rightarrow> stream_sys \<Rightarrow> stream_sys" where
  "stream_unsubscribe rq s =
     (case rq_target rq of
        One b \<Rightarrow> unsubscribeAddress (rq_user rq) b (rq_client rq) s
      | All \<Rightarrow> unsubscribeAll (rq_user rq) (rq_client rq) s)"

section \<open>Reachable states\<close>

definition set_rows :: "bool \<Rightarrow> event_row list \<Rightarrow> stream_request \<Rightarrow> stream_sys \<Rightarrow> stream_sys" where
  "set_rows up tbl rq s = s\<lparr>waiting := map (\<lambda>q. if q = rq then stream_query up tbl rq else q) (waiting s)\<rparr>"

definition finish_request :: "(ms \<Rightarrow> string) \<Rightarrow> stream_request \<Rightarrow> stream_sys \<Rightarrow> stream_sys" where
  "finish_request date_text rq s =
     stream_subscribe date_text rq
       (s\<lparr>waiting := removeAll rq (waiting s), subscribed := subscribed s @ [rq]\<rparr>)"

definition fresh_client :: "nat \<Rightarrow> stream_sys \<Rightarrow> bool" where
  "fresh_client c s \<longleftrightarrow> c \<notin> rq_client ` set (waiting s @ subscribed s)"

inductive stream_step :: "(ms \<Rightarrow> string) \<Rightarrow> stream_sys \<Rightarrow> stream_sys \<Rightarrow> bool" for D :: "ms \<Rightarrow> string" where
  request: "fresh_client c s \<Longrightarrow> stream_checks user requested header c s = Inr s' \<Longrightarrow> stream_step D s s'"
| query: "rq \<in> set (waiting s) \<Longrightarrow> rq_rows rq = None \<Longrightarrow> stream_step D s (set_rows up tbl rq s)"
| finish: "rq \<in> set (waiting s) \<Longrightarrow> rq_rows rq \<noteq> None \<Longrightarrow> stream_step D s (finish_request D rq s)"
| broadcast: "stream_step D s (broadcast_event W p s)"
| beat: "stream_step D s (heartbeat W s)"
| leave: "rq \<in> set (subscribed s) \<Longrightarrow> stream_step D s (stream_unsubscribe rq s)"
| shut: "stream_step D s (closeAllConnections W msg s)"

definition no_streams :: stream_sys where
  "no_streams = \<lparr>borrowerClients = [], adminClients = [], userClients = [], heartbeatTimer = False, streamed = [],
     waiting = [], subscribed = []\<rparr>"

inductive stream_reach :: "(ms \<Rightarrow> string) \<Rightarrow> stream_sys \<Rightarrow> bool" for D :: "ms \<Rightarrow> string" where
  start: "stream_reach D no_streams"
| step: "stream_reach D s \<Longrightarrow> stream_step D s s' \<Longrightarrow> stream_reach D s'"

text \<open>The same when no other request begins while one is waiting.\<close>

inductive calm_reach :: "(ms \<Rightarrow> string) \<Rightarrow> stream_sys \<Rightarrow> bool" for D :: "ms \<Rightarrow> string" where
  calm_start: "calm_reach D no_streams"
| calm_step: "calm_reach D s \<Longrightarrow> stream_step D s s' \<Longrightarrow> length (waiting s') \<le> 1 \<Longrightarrow> calm_reach D s'"

section \<open>Lemmas\<close>

lemma map_of_mask: "k \<notin> pii_fields \<Longrightarrow> map_of (maskEventPayload p) k = map_of p k"
  by (induction p) (auto simp: maskEventPayload_def)

lemma mask_address [simp]: "map_of (maskEventPayload p) ''address'' = map_of p ''address''"
  by (rule map_of_mask) (simp add: pii_fields_def)

lemma set_js_map_set: "set (js_map_set k v m) \<subseteq> insert (k, v) (set m)"
  by (induction m) (auto split: if_splits)

lemma map_of_without_key: "map_of (filter (\<lambda>p. fst p \<noteq> u) m) v = (if v = u then None else map_of m v)"
  by (induction m) auto

lemma entries_js_map_set [simp]: "entries u (js_map_set k v m) = (if u = k then v else entries u m)"
  by (simp add: entries_def)

lemma entries_Nil [simp]: "entries u [] = []"
  by (simp add: entries_def)

lemma entries_add:
  "entries u (add_entry k x m) =
     (if u = k \<and> x \<notin> set (entries k m) then entries k m @ [x] else entries u m)"
  by (simp add: add_entry_def)

lemma entries_delete: "entries u (delete_entry k x m) = (if u = k then removeAll x (entries k m) else entries u m)"
  by (auto simp: delete_entry_def entries_def map_of_without_key split: option.splits)

lemma entries_member: "x \<in> set (entries k m) \<Longrightarrow> \<exists>xs. (k, xs) \<in> set m \<and> x \<in> set xs"
  by (cases "map_of m k") (auto simp: entries_def dest: map_of_SomeD)

definition listens :: "string \<Rightarrow> client_info \<Rightarrow> stream_sys \<Rightarrow> bool" where
  "listens a ci s \<longleftrightarrow> (\<exists>cs. (a, cs) \<in> set (borrowerClients s) \<and> ci \<in> set cs)"

lemma listens_entries: "ci \<in> set (entries a (borrowerClients s)) \<Longrightarrow> listens a ci s"
  unfolding listens_def by (rule entries_member)

lemma listens_set:
  "(a, cs) \<in> set (js_map_set k v m) \<Longrightarrow> ci \<in> set cs \<Longrightarrow>
     (a = k \<and> ci \<in> set v) \<or> (\<exists>cs. (a, cs) \<in> set m \<and> ci \<in> set cs)"
  using set_js_map_set [of k v m] by auto

lemma listens_add:
  "(a, cs) \<in> set (add_entry k x m) \<Longrightarrow> ci \<in> set cs \<Longrightarrow> (a = k \<and> ci = x) \<or> (\<exists>cs. (a, cs) \<in> set m \<and> ci \<in> set cs)"
  unfolding add_entry_def using entries_member [of ci k m]
  by (auto dest!: listens_set split: if_splits)

lemma listens_delete:
  "(a, cs) \<in> set (delete_entry k x m) \<Longrightarrow> ci \<in> set cs \<Longrightarrow> \<exists>cs. (a, cs) \<in> set m \<and> ci \<in> set cs"
  unfolding delete_entry_def using entries_member [of ci k m]
  by (auto dest!: listens_set split: if_splits)

definition request_ok :: "stream_request \<Rightarrow> bool" where
  "request_ok rq \<longleftrightarrow>
     rq_user rq \<noteq> [] \<and>
     (\<not> rq_admin rq \<and> rq_borrower rq \<noteq> Some [] \<longrightarrow> rq_target rq = One (rq_user rq)) \<and>
     (\<forall>b rs. rq_target rq = One b \<longrightarrow> rq_rows rq = Some (Inr rs) \<longrightarrow> (\<forall>r \<in> set rs. address r = Some b))"

definition message_ok :: "stream_request list \<Rightarrow> nat \<times> message \<Rightarrow> bool" where
  "message_ok rqs cm \<longleftrightarrow>
     (\<exists>rq \<in> set rqs. rq_client rq = fst cm \<and>
        (\<forall>b i p. rq_target rq = One b \<longrightarrow> snd cm = LoanEvent i p \<longrightarrow> map_of p ''address'' = Some (Text b)))"

definition stream_inv :: "stream_sys \<Rightarrow> bool" where
  "stream_inv s \<longleftrightarrow>
     (\<forall>rq \<in> set (waiting s @ subscribed s). request_ok rq) \<and>
     distinct (map rq_client (waiting s @ subscribed s)) \<and>
     (\<forall>a ci. listens a ci s \<longrightarrow> (\<exists>rq \<in> set (subscribed s). rq_client rq = client ci \<and> rq_target rq = One a)) \<and>
     (\<forall>ci \<in> set (adminClients s). \<exists>rq \<in> set (subscribed s). rq_client rq = client ci \<and> rq_target rq = All) \<and>
     (\<forall>cm \<in> set (streamed s). message_ok (subscribed s) cm)"

text \<open>A step that only removes clients and writes to clients keeps the invariant.\<close>

definition narrows :: "stream_sys \<Rightarrow> stream_sys \<Rightarrow> bool" where
  "narrows s s' \<longleftrightarrow>
     waiting s' = waiting s \<and> subscribed s' = subscribed s \<and>
     (\<forall>a ci. listens a ci s' \<longrightarrow> listens a ci s) \<and> set (adminClients s') \<subseteq> set (adminClients s) \<and>
     (\<forall>cm \<in> set (streamed s') - set (streamed s).
        (\<exists>a ci. listens a ci s \<and> client ci = fst cm \<and>
            (\<forall>i p. snd cm = LoanEvent i p \<longrightarrow> map_of p ''address'' = Some (Text a))) \<or>
        (\<exists>ci \<in> set (adminClients s). client ci = fst cm))"

lemma narrows_inv:
  assumes "narrows s s'" "stream_inv s"
  shows "stream_inv s'"
proof -
  have "message_ok (subscribed s) cm" if "cm \<in> set (streamed s')" for cm
  proof (cases "cm \<in> set (streamed s)")
    case True
    then show ?thesis using assms(2) unfolding stream_inv_def by blast
  next
    case False
    with assms(1) that consider
        (one) a ci where "listens a ci s" "client ci = fst cm"
          "\<forall>i p. snd cm = LoanEvent i p \<longrightarrow> map_of p ''address'' = Some (Text a)"
      | (all) ci where "ci \<in> set (adminClients s)" "client ci = fst cm"
      unfolding narrows_def by blast
    then show ?thesis
    proof cases
      case one
      then obtain rq where "rq \<in> set (subscribed s)" "rq_client rq = client ci" "rq_target rq = One a"
        using assms(2) unfolding stream_inv_def by blast
      with one show ?thesis unfolding message_ok_def by (intro bexI [of _ rq]) auto
    next
      case all
      then obtain rq where "rq \<in> set (subscribed s)" "rq_client rq = client ci" "rq_target rq = All"
        using assms(2) unfolding stream_inv_def by blast
      with all show ?thesis unfolding message_ok_def by (intro bexI [of _ rq]) auto
    qed
  qed
  with assms show ?thesis unfolding stream_inv_def narrows_def by (auto 0 3)
qed

lemma narrows_refl: "narrows s s"
  by (simp add: narrows_def)

lemma narrows_stop [simp]: "narrows s (stopHeartbeatIfEmpty s') = narrows s s'"
  by (simp add: narrows_def stopHeartbeatIfEmpty_def listens_def)

lemma narrows_removeClient: "narrows s (removeClient ci s)"
  by (auto simp: narrows_def removeClient_def listens_def)

lemma narrows_unsubscribe: "narrows s (stream_unsubscribe rq s)"
  by (cases "rq_target rq"; simp only: stream_unsubscribe_def unsubscribeAddress_def unsubscribeAll_def
        target.case narrows_stop; auto simp: narrows_def listens_def dest: listens_delete)

lemma payload_address: "payload_address p = Some a \<Longrightarrow> map_of p ''address'' = Some (Text a)"
  by (auto simp: payload_address_def env_set_eq_Some split: option.splits event_value.splits)

lemma in_sends: "cm \<in> set (sends W p cis) \<Longrightarrow> \<exists>ci \<in> set cis. fst cm = client ci \<and> snd cm = event_message p"
  by (auto simp: sends_def)

lemma narrows_broadcast_address: "narrows s (broadcast_address W p s)"
proof (cases "payload_address p")
  case (Some a)
  have l: "listens b ci s" if "(b, cs) \<in> set (js_map_set a (filter Q (entries a (borrowerClients s))) (borrowerClients s))"
      "ci \<in> set cs" for b cs ci Q
    using listens_set [OF that] listens_entries [of ci a s] by (auto simp: listens_def)
  show ?thesis
    using Some payload_address [OF Some]
    by (auto simp: broadcast_address_def Let_def narrows_def listens_def [of _ _ "s\<lparr>streamed := _, borrowerClients := _\<rparr>"]
        event_message_def dest!: in_sends dest: l)
      (blast intro: listens_entries)+
qed (simp add: broadcast_address_def narrows_refl)

lemma broadcast_address_frame [simp]:
  "waiting (broadcast_address W p s) = waiting s" "subscribed (broadcast_address W p s) = subscribed s"
  "adminClients (broadcast_address W p s) = adminClients s" "userClients (broadcast_address W p s) = userClients s"
  by (simp_all add: broadcast_address_def Let_def split: option.split)

lemma stream_broadcast_inv: "stream_inv s \<Longrightarrow> stream_inv (broadcast_event W p s)"
proof -
  assume "stream_inv s"
  then have "stream_inv (broadcast_address W p s)" using narrows_inv narrows_broadcast_address by blast
  moreover have "narrows (broadcast_address W p s) (broadcast_event W p s)"
    by (auto simp: narrows_def broadcast_event_def Let_def listens_def dest!: in_sends)
  ultimately show ?thesis using narrows_inv by blast
qed

lemma in_collect: "ci \<in> set (collectAllClients s) \<Longrightarrow> (\<exists>a. listens a ci s) \<or> ci \<in> set (adminClients s)"
  unfolding collectAllClients_def listens_def by fastforce

text \<open>The beat pings the clients it has collected; each of them is or was registered.\<close>

lemma ping_all_inv:
  "stream_inv s \<Longrightarrow> (\<forall>ci \<in> set cis. client ci \<in> rq_client ` set (subscribed s)) \<Longrightarrow>
     stream_inv (ping_all W cis s) \<and> subscribed (ping_all W cis s) = subscribed s"
proof (induction cis arbitrary: s)
  case (Cons ci cis)
  let ?s = "if W (client ci) then s\<lparr>streamed := streamed s @ [(client ci, Ping)]\<rparr> else removeClient ci s"
  obtain rq where "rq \<in> set (subscribed s)" "rq_client rq = client ci" using Cons.prems(2) by auto
  then have "stream_inv (s\<lparr>streamed := streamed s @ [(client ci, Ping)]\<rparr>)"
    using Cons.prems(1) by (auto simp: stream_inv_def listens_def message_ok_def)
  then have 1: "stream_inv ?s"
    using narrows_inv [OF narrows_removeClient Cons.prems(1)] by simp
  have 2: "subscribed ?s = subscribed s" by (simp add: removeClient_def)
  show ?case using Cons.IH [OF 1] Cons.prems(2) unfolding 2 by simp
qed simp

lemma heartbeat_inv: "stream_inv s \<Longrightarrow> stream_inv (heartbeat W s)"
proof -
  assume inv: "stream_inv s"
  have "client ci \<in> rq_client ` set (subscribed s)" if "ci \<in> set (collectAllClients s)" for ci
  proof -
    have "(\<exists>a. listens a ci s) \<or> ci \<in> set (adminClients s)"
      using in_collect [OF that] .
    then show ?thesis using inv unfolding stream_inv_def by (metis image_eqI)
  qed
  then show ?thesis using inv ping_all_inv by (simp add: heartbeat_def)
qed

lemma close_inv:
  assumes "stream_inv s"
  shows "stream_inv (closeAllConnections W msg s)"
proof (rule narrows_inv [OF _ assms])
  show "narrows s (closeAllConnections W msg s)"
    by (auto simp: narrows_def closeAllConnections_def listens_def [of _ _ "s\<lparr>heartbeatTimer := _, streamed := _, borrowerClients := _, adminClients := _, userClients := _\<rparr>"])
      (blast dest: in_collect)+
qed

lemma stream_checks_Inr:
  assumes "stream_checks user requested header c s = Inr s'"
  obtains u t where "wallet_of user = Some u" "u \<noteq> []" "stream_target u (map_option role user = Some admin) requested = Inr t"
    "canOpenConnection u s"
    "s' = s\<lparr>waiting := waiting s @ [\<lparr>rq_client = c, rq_user = u, rq_admin = (map_option role user = Some admin),
       rq_borrower = requested, rq_target = t, rq_last = parseLastEventId header, rq_rows = None\<rparr>]\<rparr>"
proof (cases "wallet_of user")
  case None
  then show ?thesis using assms by (simp add: stream_checks_def)
next
  case (Some u)
  then have "u \<noteq> []" by (auto simp: wallet_of_def env_set_eq_Some split: option.splits)
  moreover obtain t where "stream_target u (map_option role user = Some admin) requested = Inr t"
      "canOpenConnection u s"
    using assms Some by (auto simp: stream_checks_def Let_def and_then_eq_Inr split: if_splits)
  ultimately show ?thesis
    using that assms Some by (auto simp: stream_checks_def Let_def and_then_eq_Inr split: if_splits)
qed

lemma stream_target_own:
  "stream_target u adm requested = Inr t \<Longrightarrow> \<not> adm \<Longrightarrow> requested \<noteq> Some [] \<Longrightarrow> u \<noteq> [] \<Longrightarrow> t = One u"
  by (cases requested) (auto simp: stream_target_def js_nullish_def env_set_def split: if_splits)

lemma request_inv:
  assumes "stream_inv s" "fresh_client c s" "stream_checks user requested header c s = Inr s'"
  shows "stream_inv s'"
  using assms(3)
proof (rule stream_checks_Inr)
  fix u t
  let ?rq = "\<lparr>rq_client = c, rq_user = u, rq_admin = (map_option role user = Some admin),
       rq_borrower = requested, rq_target = t, rq_last = parseLastEventId header, rq_rows = None\<rparr>"
  assume u: "u \<noteq> []" "stream_target u (map_option role user = Some admin) requested = Inr t"
    and s': "s' = s\<lparr>waiting := waiting s @ [?rq]\<rparr>"
  have "request_ok ?rq"
    using u stream_target_own [OF u(2) _ _ u(1)] by (simp add: request_ok_def)
  then show ?thesis
    using assms(1,2) unfolding s' by (auto simp: stream_inv_def listens_def fresh_client_def)
qed

lemma replay_rows_ok: "r \<in> set (replay_rows (One b) l tbl) \<Longrightarrow> address r = Some b"
  by (auto simp: replay_rows_def dest: in_set_takeD)

lemma query_inv:
  assumes "stream_inv s" "rq \<in> set (waiting s)"
  shows "stream_inv (set_rows up tbl rq s)"
proof -
  have "request_ok (stream_query up tbl rq)"
    using assms by (auto simp: stream_inv_def request_ok_def stream_query_def replay_rows_ok)
  moreover have "rq_client \<circ> (\<lambda>q. if q = rq then stream_query up tbl rq else q) = rq_client"
    by (auto simp: stream_query_def)
  moreover have "rq_client ` set (map (\<lambda>q. if q = rq then stream_query up tbl rq else q) (waiting s)) =
      rq_client ` set (waiting s)"
    unfolding set_map image_comp calculation(2) ..
  ultimately show ?thesis
    using assms(1) unfolding stream_inv_def set_rows_def listens_def by auto
qed

lemma map_removeAll_distinct:
  "distinct (map f xs) \<Longrightarrow> x \<in> set xs \<Longrightarrow> f x \<notin> set (map f (removeAll x xs)) \<and> distinct (map f (removeAll x xs))"
  by (auto simp: distinct_map inj_on_def distinct_removeAll)

lemma finish_inv:
  assumes inv: "stream_inv s" and rq: "rq \<in> set (waiting s)"
  shows "stream_inv (finish_request D rq s)"
proof -
  let ?m = "s\<lparr>waiting := removeAll rq (waiting s), subscribed := subscribed s @ [rq]\<rparr>"
  let ?s = "finish_request D rq s"
  have ok: "request_ok rq" using inv rq unfolding stream_inv_def by simp
  have d: "distinct (map rq_client (waiting ?s @ subscribed ?s))" "waiting ?s = waiting ?m" "subscribed ?s = subscribed ?m"
    using inv rq map_removeAll_distinct [of rq_client "waiting s" rq]
    by (auto simp: stream_inv_def finish_request_def stream_subscribe_def Let_def subscribeAddress_def subscribeAll_def
        split: target.split)
  have l: "listens a ci s \<or> (rq_target rq = One a \<and> client ci = rq_client rq)" if "listens a ci ?s" for a ci
    using that by (auto simp: finish_request_def stream_subscribe_def Let_def subscribeAddress_def subscribeAll_def
        listens_def dest!: listens_add split: target.splits)
  have a: "ci \<in> set (adminClients s) \<or> (rq_target rq = All \<and> client ci = rq_client rq)"
    if "ci \<in> set (adminClients ?s)" for ci
    using that by (auto simp: finish_request_def stream_subscribe_def Let_def subscribeAddress_def subscribeAll_def
        split: target.splits if_splits)
  have m: "message_ok (subscribed ?s) cm" if "cm \<in> set (streamed ?s)" for cm
  proof (cases "cm \<in> set (streamed s)")
    case True
    then have "message_ok (subscribed s) cm" using inv unfolding stream_inv_def by blast
    then show ?thesis unfolding d(3) by (auto simp: message_ok_def)
  next
    case False
    have str: "streamed ?s = streamed s @ map (\<lambda>p. (rq_client rq, event_message p)) (replayed D rq)
        @ map (\<lambda>m. (rq_client rq, m)) (init_messages rq ?m)"
      by (simp add: finish_request_def stream_subscribe_def Let_def subscribeAddress_def subscribeAll_def split: target.split)
    have "fst cm = rq_client rq"
      using False that unfolding str by auto
    moreover have "map_of p ''address'' = Some (Text b)" if t: "rq_target rq = One b" "snd cm = LoanEvent i p" for b i p
    proof -
      have "cm \<in> (\<lambda>p. (rq_client rq, event_message p)) ` set (replayed D rq)"
        using False \<open>cm \<in> set (streamed ?s)\<close> t unfolding str by (auto simp: init_messages_def split: if_splits)
      then obtain r rs where "rq_rows rq = Some (Inr rs)" "r \<in> set rs" and p: "p = maskEventPayload (mapLoanEventRow D r)"
        using t by (cases "rq_rows rq" rule: option.exhaust; cases "the (rq_rows rq)")
          (auto simp: replayed_def event_message_def)
      then have "address r = Some b" using ok t(1) unfolding request_ok_def by blast
      with p show ?thesis by (simp add: mapLoanEventRow_def)
    qed
    ultimately show ?thesis unfolding d(3) message_ok_def by auto
  qed
  have "\<forall>q \<in> set (waiting ?s @ subscribed ?s). request_ok q"
    using inv ok unfolding d(2,3) stream_inv_def by auto
  moreover have "\<exists>q \<in> set (subscribed ?s). rq_client q = client ci \<and> rq_target q = One a" if "listens a ci ?s" for a ci
    using l [OF that] inv unfolding d(3) stream_inv_def by auto
  moreover have "\<exists>q \<in> set (subscribed ?s). rq_client q = client ci \<and> rq_target q = All"
    if "ci \<in> set (adminClients ?s)" for ci
    using a [OF that] inv unfolding d(3) stream_inv_def by auto
  ultimately show ?thesis using d(1) m unfolding stream_inv_def by blast
qed

lemma stream_step_inv: "stream_step D s s' \<Longrightarrow> stream_inv s \<Longrightarrow> stream_inv s'"
  by (induction rule: stream_step.induct)
    (auto intro: request_inv query_inv finish_inv stream_broadcast_inv heartbeat_inv close_inv
       narrows_inv [OF narrows_unsubscribe])

lemma stream_reach_inv: "stream_reach D s \<Longrightarrow> stream_inv s"
proof (induction rule: stream_reach.induct)
  case start
  then show ?case by (simp add: stream_inv_def no_streams_def listens_def)
qed (use stream_step_inv in blast)

subsection \<open>What one connection receives\<close>

definition messages_of :: "nat \<Rightarrow> stream_sys \<Rightarrow> message list" where
  "messages_of c s = map snd (filter (\<lambda>cm. fst cm = c) (streamed s))"

definition ears :: "nat \<Rightarrow> client_info list \<Rightarrow> nat" where
  "ears c cis = length (filter (\<lambda>ci. client ci = c) cis)"

definition tuned :: "target \<Rightarrow> nat \<Rightarrow> stream_sys \<Rightarrow> bool" where
  "tuned t c s \<longleftrightarrow>
     (\<forall>a. ears c (entries a (borrowerClients s)) = (if t = One a then 1 else 0)) \<and>
     ears c (adminClients s) = (if t = All then 1 else 0)"

definition matches :: "target \<Rightarrow> payload \<Rightarrow> bool" where
  "matches t p \<longleftrightarrow> (case t of All \<Rightarrow> True | One b \<Rightarrow> payload_address p = Some b)"

lemma ears_simps [simp]:
  "ears c [] = 0" "ears c (xs @ ys) = ears c xs + ears c ys"
  "ears c (ci # cis) = (if client ci = c then Suc (ears c cis) else ears c cis)"
  by (simp_all add: ears_def)

lemma ears_writable: "W c \<Longrightarrow> ears c (filter (\<lambda>ci. W (client ci)) cis) = ears c cis"
  by (induction cis) auto

lemma ears_0: "ears c cis = 0 \<longleftrightarrow> (\<forall>ci \<in> set cis. client ci \<noteq> c)"
  by (simp add: ears_def filter_empty_conv)

lemma sends_to: "W c \<Longrightarrow> map snd (filter (\<lambda>cm. fst cm = c) (sends W p cis)) = replicate (ears c cis) (event_message p)"
  by (induction cis) (auto simp: sends_def)

lemma messages_append [simp]:
  "messages_of c (s\<lparr>streamed := streamed s @ xs\<rparr>) = messages_of c s @ map snd (filter (\<lambda>cm. fst cm = c) xs)"
  by (simp add: messages_of_def)

lemma messages_frame [simp]:
  "messages_of c (s\<lparr>borrowerClients := x\<rparr>) = messages_of c s" "messages_of c (s\<lparr>adminClients := y\<rparr>) = messages_of c s"
  by (simp_all add: messages_of_def)

lemma tuned_broadcast:
  assumes "tuned t c s" "W c"
  shows "tuned t c (broadcast_event W p s) \<and>
    messages_of c (broadcast_event W p s) = messages_of c s @ (if matches t p then [event_message p] else [])"
proof -
  let ?s = "broadcast_address W p s"
  have a: "messages_of c ?s = messages_of c s @
      replicate (case payload_address p of None \<Rightarrow> 0 | Some a \<Rightarrow> ears c (entries a (borrowerClients s))) (event_message p)"
    using assms(2) by (auto simp: broadcast_address_def Let_def sends_to messages_of_def split: option.split)
  have b: "ears c (entries a (borrowerClients ?s)) = ears c (entries a (borrowerClients s))" for a
    using assms(2) by (auto simp: broadcast_address_def Let_def ears_writable split: option.split)
  have e: "messages_of c (broadcast_event W p s) = messages_of c ?s @ replicate (ears c (adminClients s)) (event_message p)"
    using assms(2) by (simp add: broadcast_event_def Let_def messages_of_def sends_to)
  have "tuned t c (broadcast_event W p s)"
    using assms b by (simp add: tuned_def broadcast_event_def Let_def ears_writable)
  moreover have "messages_of c (broadcast_event W p s) = messages_of c s @ (if matches t p then [event_message p] else [])"
    unfolding e a using assms(1) by (auto simp: tuned_def matches_def split: target.splits option.splits)
  ultimately show ?thesis ..
qed

lemma tuned_broadcasts:
  "tuned t c s \<Longrightarrow> \<forall>(W, p) \<in> set wps. W c \<Longrightarrow>
     messages_of c (fold (\<lambda>(W, p). broadcast_event W p) wps s) =
       messages_of c s @ map event_message (filter (matches t) (map snd wps))"
proof (induction wps arbitrary: s)
  case (Cons wp wps)
  obtain W p where wp: "wp = (W, p)" by (cases wp)
  have "tuned t c (broadcast_event W p s)"
    "messages_of c (broadcast_event W p s) = messages_of c s @ (if matches t p then [event_message p] else [])"
    using tuned_broadcast [of t c s W p] Cons.prems wp by auto
  then show ?case using Cons.IH [of "broadcast_event W p s"] Cons.prems(2) wp by auto
qed simp

text \<open>The three steps of a handler without anything in between.\<close>

definition open_stream ::
  "(ms \<Rightarrow> string) \<Rightarrow> event_row list \<Rightarrow> request_user \<Rightarrow> string option \<Rightarrow> string option \<Rightarrow> nat \<Rightarrow> stream_sys \<Rightarrow>
     http_error + stream_sys" where
  "open_stream D tbl user requested header c s =
     and_then (stream_checks user requested header c s) (\<lambda>s1.
       let rq = last (waiting s1)
       in Inr (finish_request D (stream_query True tbl rq) (set_rows True tbl rq s1)))"

lemma fresh_silent:
  assumes "stream_inv s" "fresh_client c s"
  shows "messages_of c s = []" "ears c (entries a (borrowerClients s)) = 0" "ears c (adminClients s) = 0"
proof -
  have f: "rq_client rq \<noteq> c" if "rq \<in> set (subscribed s)" for rq
    using assms(2) that by (auto simp: fresh_client_def)
  have "fst cm \<noteq> c" if "cm \<in> set (streamed s)" for cm
    using assms(1) that f unfolding stream_inv_def message_ok_def by metis
  then show "messages_of c s = []" by (auto simp: messages_of_def filter_empty_conv)
  have "client ci \<noteq> c" if "ci \<in> set (entries a (borrowerClients s))" for ci
    using listens_entries [OF that] assms(1) f unfolding stream_inv_def by metis
  then show "ears c (entries a (borrowerClients s)) = 0" by (simp add: ears_0)
  have "client ci \<noteq> c" if "ci \<in> set (adminClients s)" for ci
    using that assms(1) f unfolding stream_inv_def by metis
  then show "ears c (adminClients s) = 0" by (simp add: ears_0)
qed

lemma opened_stream:
  assumes inv: "stream_inv s" and fresh: "fresh_client c s"
    and u: "wallet_of user = Some u" "canOpenConnection u s"
    and t: "stream_target u (map_option role user = Some admin) requested = Inr t"
  obtains s' rq where "open_stream D tbl user requested header c s = Inr s'" "tuned t c s'"
    "messages_of c s' = map (event_message \<circ> mapLoanEventRow D) (replay_rows t (parseLastEventId header) tbl) @
       (case t of
          All \<Rightarrow> [Init (getConnectionCount s)]
        | One b \<Rightarrow> (if replay_rows t (parseLastEventId header) tbl = [] \<and> parseLastEventId header = None
                    then [Init [(''replayed'', 0)]] else []))"
proof -
  let ?rq = "\<lparr>rq_client = c, rq_user = u, rq_admin = (map_option role user = Some admin),
       rq_borrower = requested, rq_target = t, rq_last = parseLastEventId header, rq_rows = None\<rparr>"
  let ?s1 = "s\<lparr>waiting := waiting s @ [?rq]\<rparr>"
  let ?q = "stream_query True tbl ?rq"
  let ?s2 = "set_rows True tbl ?rq ?s1"
  let ?m = "?s2\<lparr>waiting := removeAll ?q (waiting ?s2), subscribed := subscribed ?s2 @ [?q]\<rparr>"
  have o: "open_stream D tbl user requested header c s = Inr (finish_request D ?q ?s2)"
    using u t by (simp add: open_stream_def stream_checks_def Let_def and_then_def)
  have b: "borrowerClients ?m = borrowerClients s" "adminClients ?m = adminClients s" "streamed ?m = streamed s"
    by (simp_all add: set_rows_def)
  have q: "rq_target ?q = t" "rq_client ?q = c" "rq_user ?q = u" "rq_last ?q = parseLastEventId header"
    "rq_rows ?q = Some (Inr (replay_rows t (parseLastEventId header) tbl))"
    by (simp_all add: stream_query_def)
  have cnt: "getConnectionCount ?m = getConnectionCount s"
    unfolding getConnectionCount_def borrower_count_def b ..
  note silent = fresh_silent [OF inv fresh]
  have nin: "\<lparr>client = c, userKey = v\<rparr> \<notin> set (entries a (borrowerClients s))" "\<lparr>client = c, userKey = v\<rparr> \<notin> set (adminClients s)"
    for a v using silent(2,3) unfolding ears_0 by force+
  have "tuned t c (finish_request D ?q ?s2)"
    unfolding finish_request_def stream_subscribe_def Let_def q
    using silent nin
    by (cases t) (auto simp: tuned_def subscribeAddress_def subscribeAll_def entries_add set_rows_def)
  moreover have "messages_of c (finish_request D ?q ?s2) =
      map (event_message \<circ> mapLoanEventRow D) (replay_rows t (parseLastEventId header) tbl) @ init_messages ?q ?m"
  proof -
    have "streamed (finish_request D ?q ?s2) = streamed s @ map (\<lambda>p. (c, event_message p)) (replayed D ?q)
        @ map (\<lambda>m. (c, m)) (init_messages ?q ?m)"
      unfolding finish_request_def stream_subscribe_def Let_def q b [symmetric]
      by (cases t) (simp_all add: subscribeAddress_def subscribeAll_def)
    moreover have "replayed D ?q = map (mapLoanEventRow D) (replay_rows t (parseLastEventId header) tbl)"
      unfolding replayed_def q by simp
    ultimately show ?thesis using silent(1) by (simp add: messages_of_def filter_map comp_def)
  qed
  moreover have "init_messages ?q ?m = (case t of All \<Rightarrow> [Init (getConnectionCount s)]
      | One b \<Rightarrow> (if replay_rows t (parseLastEventId header) tbl = [] \<and> parseLastEventId header = None
                  then [Init [(''replayed'', 0)]] else []))"
    unfolding init_messages_def q cnt by (cases t) simp_all
  ultimately show ?thesis using that o by metis
qed

lemma opened_reach:
  assumes "stream_reach D s" "fresh_client c s" "open_stream D tbl user requested header c s = Inr s'"
  shows "stream_reach D s'"
proof -
  obtain s1 where s1: "stream_checks user requested header c s = Inr s1"
    and s': "s' = finish_request D (stream_query True tbl (last (waiting s1))) (set_rows True tbl (last (waiting s1)) s1)"
    using assms(3) by (auto simp: open_stream_def and_then_eq_Inr Let_def)
  let ?rq = "last (waiting s1)"
  have l: "?rq \<in> set (waiting s1) \<and> rq_rows ?rq = None"
    using s1 by (rule stream_checks_Inr) auto
  have "stream_reach D s1"
    using stream_reach.step [OF assms(1) stream_step.request [OF assms(2) s1]] .
  then have "stream_reach D (set_rows True tbl ?rq s1)"
    using l by (auto intro: stream_reach.step stream_step.query)
  moreover have "stream_query True tbl ?rq \<in> set (waiting (set_rows True tbl ?rq s1))"
    using l by (auto simp: set_rows_def)
  ultimately show ?thesis
    unfolding s' by (auto intro!: stream_reach.step [OF _ stream_step.finish] simp: stream_query_def)
qed

lemma rows_after_split:
  assumes "tbl = xs @ r # ys" "event_id r \<notin> event_id ` set xs"
  shows "rows_after (Some (event_id r)) tbl = ys"
proof -
  have "dropWhile (\<lambda>r'. event_id r' \<noteq> event_id r) (xs @ r # ys) = r # ys"
    using assms(2) by (induction xs) auto
  then show ?thesis using assms(1) by (simp add: rows_after_def)
qed

subsection \<open>The limit of connections\<close>

definition waits :: "string \<Rightarrow> stream_sys \<Rightarrow> nat" where
  "waits u s = length (filter (\<lambda>rq. rq_user rq = u) (waiting s))"

lemma filter_removeAll_le: "length (filter P (removeAll x xs)) \<le> length (filter P xs)"
  by (induction xs) auto

lemma filter_removeAll_less:
  assumes "x \<in> set xs" "P x"
  shows "length (filter P (removeAll x xs)) < length (filter P xs)"
proof -
  have "filter P (removeAll x xs) = filter (\<lambda>y. x \<noteq> y) (filter P xs)"
    by (simp add: removeAll_filter_not_eq conj_commute)
  moreover have "length (filter (\<lambda>y. x \<noteq> y) (filter P xs)) < length (filter P xs)"
    by (rule length_filter_less [of x]) (use assms in auto)
  ultimately show ?thesis by simp
qed

lemma length_delete_entry: "length (entries u (delete_entry k x m)) \<le> length (entries u m)"
  using filter_removeAll_le [of "\<lambda>_. True" x "entries k m"] by (simp add: entries_delete)

lemma ping_all_counts:
  "getUserConnectionCount u (ping_all W cis s) \<le> getUserConnectionCount u s \<and> waiting (ping_all W cis s) = waiting s"
proof (induction cis arbitrary: s)
  case (Cons ci cis)
  let ?s = "if W (client ci) then s\<lparr>streamed := streamed s @ [(client ci, Ping)]\<rparr> else removeClient ci s"
  have "getUserConnectionCount u ?s \<le> getUserConnectionCount u s" "waiting ?s = waiting s"
    by (simp_all add: getUserConnectionCount_def removeClient_def length_delete_entry)
  then show ?case using Cons.IH [of ?s] by (simp del: if_split)
qed simp

definition calm_inv :: "stream_sys \<Rightarrow> bool" where
  "calm_inv s \<longleftrightarrow> length (waiting s) \<le> 1 \<and>
     (\<forall>u. getUserConnectionCount u s + waits u s \<le> MAX_CONNECTIONS_PER_USER)"

lemma fewer_calm:
  "calm_inv s \<Longrightarrow> waiting s' = waiting s \<Longrightarrow> (\<And>u. getUserConnectionCount u s' \<le> getUserConnectionCount u s) \<Longrightarrow>
     calm_inv s'"
  unfolding calm_inv_def waits_def by (auto intro: order_trans [OF add_right_mono])

lemma finish_counts:
  "getUserConnectionCount u (finish_request D rq s) \<le>
     getUserConnectionCount u s + (if rq_user rq = u then 1 else 0)"
  "waiting (finish_request D rq s) = removeAll rq (waiting s)"
  by (cases "rq_target rq"; simp add: finish_request_def stream_subscribe_def Let_def subscribeAddress_def
      subscribeAll_def getUserConnectionCount_def entries_add)+

lemma calm_step_inv:
  assumes "stream_step D s s'" "calm_inv s" "length (waiting s') \<le> 1"
  shows "calm_inv s'"
  using assms
proof (induction rule: stream_step.induct)
  case (request c s user requested header s')
  from request(2) show ?case
  proof (rule stream_checks_Inr)
    fix u t
    assume u: "canOpenConnection u s"
      and s': "s' = s\<lparr>waiting := waiting s @ [\<lparr>rq_client = c, rq_user = u, rq_admin = (map_option role user = Some admin),
       rq_borrower = requested, rq_target = t, rq_last = parseLastEventId header, rq_rows = None\<rparr>]\<rparr>"
    then have "waiting s = []" using request(4) by simp
    then show ?case
      using u request(3) unfolding s' calm_inv_def waits_def canOpenConnection_def
      by (auto simp: getUserConnectionCount_def Suc_le_eq)
  qed
next
  case (query rq s up tbl)
  have "map rq_user (waiting (set_rows up tbl rq s)) = map rq_user (waiting s)"
    by (simp add: set_rows_def stream_query_def)
  then have "filter (\<lambda>v. v = u) (map rq_user (waiting (set_rows up tbl rq s))) =
      filter (\<lambda>v. v = u) (map rq_user (waiting s))" for u by simp
  then have "length (filter (\<lambda>v. v = u) (map rq_user (waiting (set_rows up tbl rq s)))) =
      length (filter (\<lambda>v. v = u) (map rq_user (waiting s)))" for u by (rule arg_cong)
  then have "waits u (set_rows up tbl rq s) = waits u s" for u
    by (simp only: waits_def filter_map length_map comp_def)
  then show ?case using query by (simp add: calm_inv_def getUserConnectionCount_def set_rows_def)
next
  case (finish rq s)
  have "getUserConnectionCount u (finish_request D rq s) + waits u (finish_request D rq s) \<le>
      getUserConnectionCount u s + waits u s" for u
  proof (cases "rq_user rq = u")
    case True
    then show ?thesis
      using finish_counts(1) [of u D rq s] filter_removeAll_less [of rq "waiting s" "\<lambda>rq. rq_user rq = u"] finish(1)
      by (simp add: waits_def finish_counts(2))
  next
    case False
    then show ?thesis
      using finish_counts(1) [of u D rq s] filter_removeAll_le [of "\<lambda>rq. rq_user rq = u" rq "waiting s"]
      by (simp add: waits_def finish_counts(2))
  qed
  then show ?case using finish.prems unfolding calm_inv_def by (meson le_trans)
next
  case (broadcast s W p)
  show ?case
    by (rule fewer_calm [OF broadcast.prems(1)]) (simp_all add: broadcast_event_def Let_def getUserConnectionCount_def)
next
  case (beat s W)
  show ?case
    by (rule fewer_calm [OF beat.prems(1)]) (simp_all add: heartbeat_def ping_all_counts)
next
  case (leave rq s)
  have "getUserConnectionCount u (stream_unsubscribe rq s) \<le> getUserConnectionCount u s" for u
    by (cases "rq_target rq") (simp_all add: stream_unsubscribe_def unsubscribeAddress_def unsubscribeAll_def
        stopHeartbeatIfEmpty_def getUserConnectionCount_def length_delete_entry)
  moreover have "waiting (stream_unsubscribe rq s) = waiting s"
    by (cases "rq_target rq") (simp_all add: stream_unsubscribe_def unsubscribeAddress_def unsubscribeAll_def
        stopHeartbeatIfEmpty_def)
  ultimately show ?case using fewer_calm [OF leave.prems(1)] by blast
next
  case (shut s W msg)
  show ?case
    by (rule fewer_calm [OF shut.prems(1)]) (simp_all add: closeAllConnections_def getUserConnectionCount_def)
qed

lemma calm_reach_inv: "calm_reach D s \<Longrightarrow> calm_inv s"
proof (induction rule: calm_reach.induct)
  case calm_start
  then show ?case by (simp add: calm_inv_def no_streams_def waits_def getUserConnectionCount_def)
qed (use calm_step_inv in blast)

text \<open>Requests that overlap: each passes its check before any of them is counted.\<close>

definition plain_user :: "string \<Rightarrow> request_user" where
  "plain_user u = Some \<lparr>publicKey = u, role = borrower, scopes = [], jti = [], iat = 0, expires = 0\<rparr>"

definition own_request :: "string \<Rightarrow> nat \<Rightarrow> stream_request" where
  "own_request u c = \<lparr>rq_client = c, rq_user = u, rq_admin = False, rq_borrower = None, rq_target = One u,
     rq_last = None, rq_rows = None\<rparr>"

lemma own_request_inject [simp]: "own_request u c = own_request u d \<longleftrightarrow> c = d"
  by (simp add: own_request_def)

lemma own_checks:
  "u \<noteq> [] \<Longrightarrow> canOpenConnection u s \<Longrightarrow>
     stream_checks (plain_user u) None None c s = Inr (s\<lparr>waiting := waiting s @ [own_request u c]\<rparr>)"
  by (simp add: stream_checks_def plain_user_def wallet_of_def env_set_def stream_target_def js_nullish_def
      Let_def and_then_def own_request_def parseLastEventId_def)

lemma overlapping_requests:
  "u \<noteq> [] \<Longrightarrow> \<exists>s. stream_reach D s \<and> waiting s = map (own_request u) [0..<n] \<and> subscribed s = [] \<and> userClients s = []"
proof (induction n)
  case 0
  then show ?case using stream_reach.start by (intro exI [of _ no_streams]) (simp add: no_streams_def)
next
  case (Suc n)
  then obtain s where s: "stream_reach D s" "waiting s = map (own_request u) [0..<n]" "subscribed s = []" "userClients s = []"
    by blast
  let ?s = "s\<lparr>waiting := waiting s @ [own_request u n]\<rparr>"
  have "canOpenConnection u s"
    by (simp add: canOpenConnection_def getUserConnectionCount_def s(4) MAX_CONNECTIONS_PER_USER_def)
  moreover have "fresh_client n s" by (auto simp: fresh_client_def s(2,3) own_request_def)
  ultimately have "stream_step D s ?s"
    using own_checks [OF Suc.prems] stream_step.request by blast
  then have "stream_reach D ?s" by (rule stream_reach.step [OF s(1)])
  moreover have "waiting ?s = map (own_request u) [0..<Suc n]" by (simp add: s(2))
  moreover have "subscribed ?s = []" "userClients ?s = []" by (simp_all add: s(3,4))
  ultimately show ?case by blast
qed

lemma overlapping_streams:
  "u \<noteq> [] \<Longrightarrow> j \<le> n \<Longrightarrow>
     \<exists>s. stream_reach D s \<and> waiting s = map (own_request u) [j..<n] \<and> entries u (userClients s) = [0..<j]"
proof (induction j)
  case 0
  then show ?case using overlapping_requests [of u D n] by fastforce
next
  case (Suc j)
  then obtain s where s: "stream_reach D s" "waiting s = map (own_request u) [j..<n]" "entries u (userClients s) = [0..<j]"
    by auto
  have w: "waiting s = own_request u j # map (own_request u) [Suc j..<n]"
    using Suc.prems s(2) by (simp add: upt_conv_Cons)
  let ?q = "stream_query False [] (own_request u j)"
  let ?s1 = "set_rows False [] (own_request u j) s"
  let ?s2 = "finish_request D ?q ?s1"
  have q: "rq_target ?q = One u" "rq_user ?q = u" "rq_client ?q = j" "rq_rows ?q \<noteq> None"
    by (simp_all add: stream_query_def own_request_def)
  have w1: "waiting ?s1 = ?q # map (own_request u) [Suc j..<n]"
    by (simp add: set_rows_def w cong: map_cong)
  have "stream_step D s ?s1"
    by (rule stream_step.query) (simp_all add: w own_request_def)
  moreover have "stream_step D ?s1 ?s2"
    by (rule stream_step.finish) (use q(4) in \<open>simp_all add: w1\<close>)
  ultimately have "stream_reach D ?s2" using s(1) stream_reach.step by blast
  moreover have "waiting ?s2 = map (own_request u) [Suc j..<n]"
  proof -
    have "?q \<notin> set (map (own_request u) [Suc j..<n])"
      by (auto simp: own_request_def stream_query_def)
    then show ?thesis by (simp add: finish_counts(2) w1)
  qed
  moreover have "entries u (userClients ?s2) = [0..<Suc j]"
    by (simp add: finish_request_def stream_subscribe_def Let_def q subscribeAddress_def entries_add set_rows_def s(3))
  ultimately show ?case by blast
qed

section \<open>Properties\<close>

text \<open>(C19) A borrower's stream is private when it is asked for by name or by no name: in every reachable state, a
  connection opened without the role admin and without an empty \<open>borrower\<close> parameter has only been sent
  events whose address is the wallet of the user who opened it, whether replayed or live.\<close>

theorem stream_isolation:
  assumes "stream_reach D s" "rq \<in> set (subscribed s)"
    and "\<not> rq_admin rq" "rq_borrower rq \<noteq> Some []"
    and "(rq_client rq, LoanEvent i p) \<in> set (streamed s)"
  shows "map_of p ''address'' = Some (Text (rq_user rq))"
proof -
  have inv: "stream_inv s" using assms(1) by (rule stream_reach_inv)
  with assms(5) obtain q where q: "q \<in> set (subscribed s)" "rq_client q = rq_client rq"
      "\<forall>b. rq_target q = One b \<longrightarrow> map_of p ''address'' = Some (Text b)"
    unfolding stream_inv_def message_ok_def by fastforce
  then have "q = rq"
    using inv assms(2) unfolding stream_inv_def by (auto simp: distinct_map inj_on_def)
  moreover have "rq_target rq = One (rq_user rq)"
    using inv assms(2-4) unfolding stream_inv_def request_ok_def by auto
  ultimately show ?thesis using q(3) by blast
qed

text \<open>(C20) What a borrower's stream receives, message by message: the first hundred rows of the borrower among
  those after the event the client names (among all rows of the table, so the oldest ones, when it names none), and
  then each broadcast event with the borrower's address, in order. A missed event beyond the hundred rows, or
  stored after the query and announced before the subscription, is in neither part.\<close>

theorem stream_contents:
  assumes "stream_reach D s" "fresh_client c s"
    and "wallet_of user = Some u" "map_option role user \<noteq> Some admin" "requested \<in> {None, Some u}"
    and "getUserConnectionCount u s < MAX_CONNECTIONS_PER_USER"
    and "header = None \<and> missed = tbl \<or>
      (\<exists>xs r h. tbl = xs @ r # missed \<and> event_id r \<notin> event_id ` set xs \<and> event_id r \<noteq> [] \<and>
         header = Some h \<and> js_trim h = event_id r)"
    and "\<forall>(W, p) \<in> set wps. W c"
  shows "\<exists>s'. open_stream D tbl user requested header c s = Inr s' \<and>
    messages_of c (fold (\<lambda>(W, p). broadcast_event W p) wps s') =
      (let rows = take 100 (filter (\<lambda>r. address r = Some u) missed)
       in map (event_message \<circ> mapLoanEventRow D) rows
          @ (if rows = [] \<and> header = None then [Init [(''replayed'', 0)]] else [])
          @ map event_message (filter (\<lambda>p. payload_address p = Some u) (map snd wps)))"
proof -
  have u: "u \<noteq> []" using assms(3) by (auto simp: wallet_of_def env_set_eq_Some split: option.splits)
  have t: "stream_target u (map_option role user = Some admin) requested = Inr (One u)"
    using assms(4,5) u by (auto simp: stream_target_def js_nullish_def env_set_def)
  have l: "rows_after (parseLastEventId header) tbl = missed \<and> (parseLastEventId header = None \<longleftrightarrow> header = None)"
    using assms(7)
  proof
    assume "header = None \<and> missed = tbl"
    then show ?thesis by (simp add: parseLastEventId_def rows_after_def)
  next
    assume "\<exists>xs r h. tbl = xs @ r # missed \<and> event_id r \<notin> event_id ` set xs \<and> event_id r \<noteq> [] \<and>
         header = Some h \<and> js_trim h = event_id r"
    then show ?thesis using rows_after_split by (auto simp: parseLastEventId_def env_set_def)
  qed
  have "canOpenConnection u s" using assms(6) by (simp add: canOpenConnection_def)
  from opened_stream [OF stream_reach_inv [OF assms(1)] assms(2,3) this t, of D tbl header]
  obtain s' where s': "open_stream D tbl user requested header c s = Inr s'" "tuned (One u) c s'"
    and m: "messages_of c s' = map (event_message \<circ> mapLoanEventRow D) (replay_rows (One u) (parseLastEventId header) tbl) @
       (if replay_rows (One u) (parseLastEventId header) tbl = [] \<and> parseLastEventId header = None
        then [Init [(''replayed'', 0)]] else [])"
    by auto
  have o: "matches (One u) = (\<lambda>p. payload_address p = Some u)" by (auto simp: matches_def)
  show ?thesis
    using s'(1) tuned_broadcasts [OF s'(2) assms(8)] m l
    by (simp add: Let_def replay_rows_def REPLAY_LIMIT_def o)
qed

text \<open>The privacy of the stream has a hole: any user, whatever the role, who asks with an empty
  \<open>borrower\<close> parameter passes the checks and is subscribed like an administrator, to the first hundred rows of
  the whole table and then to every event of every address.\<close>

theorem empty_borrower_sees_all:
  assumes "stream_reach D s" "fresh_client c s"
    and "wallet_of user = Some u" "map_option role user \<noteq> Some admin"
    and "getUserConnectionCount u s < MAX_CONNECTIONS_PER_USER"
    and "\<forall>(W, p) \<in> set wps. W c"
  shows "\<exists>s'. open_stream D tbl user (Some []) None c s = Inr s' \<and>
    messages_of c (fold (\<lambda>(W, p). broadcast_event W p) wps s') =
      map (event_message \<circ> mapLoanEventRow D) (take 100 tbl) @ [Init (getConnectionCount s)]
      @ map event_message (map snd wps)"
proof -
  have t: "stream_target u (map_option role user = Some admin) (Some []) = Inr All"
    by (simp add: stream_target_def js_nullish_def env_set_def)
  have "canOpenConnection u s" using assms(5) by (simp add: canOpenConnection_def)
  from opened_stream [OF stream_reach_inv [OF assms(1)] assms(2,3) this t, of D tbl None]
  obtain s' where s': "open_stream D tbl user (Some []) None c s = Inr s'" "tuned All c s'"
    and m: "messages_of c s' = map (event_message \<circ> mapLoanEventRow D) (replay_rows All None tbl) @
       [Init (getConnectionCount s)]"
    by (auto simp: parseLastEventId_def)
  have a: "filter (matches All) ps = ps" for ps by (simp add: matches_def)
  show ?thesis
    using s'(1) tuned_broadcasts [OF s'(2) assms(6)] m
    by (simp add: a replay_rows_def rows_after_def REPLAY_LIMIT_def)
qed

text \<open>The limit of three connections per user holds as long as no request begins while another waits for its
  query; without that, because the count is read before the wait and raised after it, a user can have any
  number of connections.\<close>

theorem connection_limit_needs_calm:
  assumes "calm_reach D s" "u \<noteq> []"
  shows "getUserConnectionCount u s \<le> 3 \<and> (\<exists>s'. stream_reach D s' \<and> getUserConnectionCount u s' = n)"
proof
  show "getUserConnectionCount u s \<le> 3"
    using calm_reach_inv [OF assms(1)] unfolding calm_inv_def MAX_CONNECTIONS_PER_USER_def by (meson add_leD1)
  obtain s' where "stream_reach D s'" "entries u (userClients s') = [0..<n]"
    using overlapping_streams [OF assms(2), of n n D] by blast
  then show "\<exists>s'. stream_reach D s' \<and> getUserConnectionCount u s' = n"
    by (intro exI [of _ s']) (simp add: getUserConnectionCount_def)
qed

section \<open>Witnesses\<close>

definition demo_event_row :: "string \<Rightarrow> string \<Rightarrow> event_row" where
  "demo_event_row i a = \<lparr>event_id = i, event_type = ''LoanRepaid'', loan_id = None, address = Some a, amount = None,
     ledger = 9, ledger_closed_at = 0, tx_hash = ''t'', contract_id = ''C'', interest_rate_bps = None, term_ledgers = None\<rparr>"

definition demo_date :: "ms \<Rightarrow> string" where "demo_date t = ''d''"

definition demo_rows :: "event_row list" where
  "demo_rows = [demo_event_row ''e1'' ''GB'', demo_event_row ''e2'' ''GA'']"

definition demo_stream :: stream_sys where
  "demo_stream = (case open_stream demo_date demo_rows (plain_user ''GA'') None None 0 no_streams of
     Inl e \<Rightarrow> no_streams | Inr s \<Rightarrow> s)"

lemma fresh_no_streams [simp]: "fresh_client c no_streams"
  by (simp add: fresh_client_def no_streams_def)

lemmas stream_eval = open_stream_def own_checks canOpenConnection_def getUserConnectionCount_def no_streams_def
  MAX_CONNECTIONS_PER_USER_def and_then_def Let_def set_rows_def stream_query_def own_request_def finish_request_def
  stream_subscribe_def subscribeAddress_def add_entry_def replayed_def replay_rows_def rows_after_def REPLAY_LIMIT_def
  init_messages_def event_message_def demo_rows_def demo_event_row_def

lemma demo_open: "open_stream demo_date demo_rows (plain_user ''GA'') None None 0 no_streams = Inr demo_stream"
  by (simp add: demo_stream_def stream_eval)

lemma demo_stream_state:
  "waiting demo_stream = []"
  "subscribed demo_stream = [stream_query True demo_rows (own_request ''GA'' 0)]"
  "streamed demo_stream = [(0, event_message (mapLoanEventRow demo_date (demo_event_row ''e2'' ''GA'')))]"
  "userClients demo_stream = [(''GA'', [0])]"
  by (simp_all add: demo_stream_def stream_eval)

lemma demo_stream_reach: "stream_reach demo_date demo_stream"
  by (rule opened_reach [OF stream_reach.start _ demo_open]) simp

lemma stream_isolation_witness:
  "map_of (maskEventPayload (mapLoanEventRow demo_date (demo_event_row ''e2'' ''GA''))) ''address'' = Some (Text ''GA'')"
  using stream_isolation [OF demo_stream_reach, of "stream_query True demo_rows (own_request ''GA'' 0)"]
  by (simp add: demo_stream_state event_message_def stream_query_def own_request_def)

definition demo_live :: payload where
  "demo_live = [(''eventId'', Text ''e3''), (''address'', Text ''GB'')]"

lemma stream_contents_witness:
  "\<exists>s'. open_stream demo_date demo_rows (plain_user ''GA'') None (Some ''e1'') 1 demo_stream = Inr s' \<and>
    messages_of 1 (fold (\<lambda>(W, p). broadcast_event W p) [((\<lambda>_. True), demo_live)] s') =
      [event_message (mapLoanEventRow demo_date (demo_event_row ''e2'' ''GA''))]"
proof -
  have "js_trim ''e1'' = ''e1''" by code_simp
  then have "\<exists>xs r h. demo_rows = xs @ r # [demo_event_row ''e2'' ''GA''] \<and> event_id r \<notin> event_id ` set xs \<and>
      event_id r \<noteq> [] \<and> Some ''e1'' = Some h \<and> js_trim h = event_id r"
    by - (rule exI [of _ "[]"], rule exI [of _ "demo_event_row ''e1'' ''GB''"], rule exI [of _ "''e1''"],
        simp add: demo_rows_def demo_event_row_def)
  then show ?thesis
    using stream_contents [OF demo_stream_reach, of 1 "plain_user ''GA''" "''GA''" None "Some ''e1''"
        "[demo_event_row ''e2'' ''GA'']" demo_rows "[((\<lambda>_. True), demo_live)]"]
    by (simp add: fresh_client_def demo_stream_state plain_user_def wallet_of_def env_set_def MAX_CONNECTIONS_PER_USER_def
        getUserConnectionCount_def entries_def stream_query_def own_request_def demo_live_def payload_address_def
        demo_event_row_def)
qed

lemma empty_borrower_sees_all_witness:
  "\<exists>s'. open_stream demo_date demo_rows (plain_user ''GA'') (Some []) None 1 demo_stream = Inr s' \<and>
    messages_of 1 (fold (\<lambda>(W, p). broadcast_event W p) [((\<lambda>_. True), demo_live)] s') =
      map (event_message \<circ> mapLoanEventRow demo_date) demo_rows @ [Init (getConnectionCount demo_stream), event_message demo_live]"
  using empty_borrower_sees_all [OF demo_stream_reach, of 1 "plain_user ''GA''" "''GA''" "[((\<lambda>_. True), demo_live)]" demo_rows]
  by (simp add: fresh_client_def demo_stream_state plain_user_def wallet_of_def env_set_def MAX_CONNECTIONS_PER_USER_def
      getUserConnectionCount_def entries_def stream_query_def own_request_def demo_rows_def)

lemma connection_limit_needs_calm_witness:
  "getUserConnectionCount ''GA'' no_streams \<le> 3 \<and>
     (\<exists>s'. stream_reach demo_date s' \<and> getUserConnectionCount ''GA'' s' = 7)"
  by (rule connection_limit_needs_calm [OF calm_reach.calm_start]) simp

end
