(* ===== verification/FrontendMoney.thy ===== *)
theory FrontendMoney
  imports MoneyDecimal Json
begin

text \<open>
  The money of the browser: \<open>src/frontend/lib/money/format.ts\<close> with the constants of
  \<open>src/frontend/lib/money/policy.generated.ts\<close>, and the amount fields, \<open>src/frontend/src/app/utils/amount.ts\<close>
  and \<open>src/frontend/src/app/utils/precision.ts\<close>. The definitions are translated from these files on
  their own; that they agree with \<open>MoneyDecimal\<close>, the copy of the policy in the backend, is a theorem.
\<close>

section \<open>The policy\<close>

definition DISPLAY_DP :: int where "DISPLAY_DP = 2"

datatype fe_error = MoneyError string | SyntaxError

definition roundDiv_fe :: "int \<Rightarrow> int \<Rightarrow> RoundingMode \<Rightarrow> fe_error + int" where
  "roundDiv_fe num den mode =
     (if den = 0 then Inl (MoneyError ''division by zero'')
      else
        (let flip = den < 0;
             n = (if flip then - num else num);
             d = (if flip then - den else den);
             quotient = n sdiv d;
             remainder = n smod d
         in if remainder = 0 then Inr quotient
            else
              (let remainderIsNegative = remainder < 0;
                   absRemainder = (if remainderIsNegative then - remainder else remainder);
                   roundAwayFromZero =
                     (case mode of
                        Floor \<Rightarrow> remainderIsNegative
                      | Ceil \<Rightarrow> \<not> remainderIsNegative
                      | HalfUp \<Rightarrow> absRemainder * 2 \<ge> d
                      | HalfEven \<Rightarrow>
                          (let doubled = absRemainder * 2
                           in if doubled > d then True
                              else if doubled < d then False
                              else quotient smod 2 \<noteq> 0))
               in if \<not> roundAwayFromZero then Inr quotient
                  else Inr (if remainderIsNegative then quotient - 1 else quotient + 1))))"

text \<open>\<open>toLocaleString\<close> of a non-negative \<open>bigint\<close>: commas between groups of three for \<open>en-US\<close>; the
  other locales are a parameter.\<close>

fun commas :: "string \<Rightarrow> string" where
  "commas (a # b # c # d # xs) = a # b # c # CHR '','' # commas (d # xs)"
| "commas xs = xs"

definition toLocaleString :: "(string \<Rightarrow> int \<Rightarrow> string) \<Rightarrow> string \<Rightarrow> int \<Rightarrow> string" where
  "toLocaleString intl locale n =
     (if locale = ''en-US'' then rev (commas (rev (show_int n))) else intl locale n)"

record format_opts =
  decimalPlaces :: "int option"
  mode_opt :: "RoundingMode option"
  grouped :: "bool option"
  locale_opt :: "string option"

definition or_else :: "'a option \<Rightarrow> 'a \<Rightarrow> 'a" where
  "or_else x d = (case x of None \<Rightarrow> d | Some y \<Rightarrow> y)"

definition formatStroops :: "(string \<Rightarrow> int \<Rightarrow> string) \<Rightarrow> int \<Rightarrow> format_opts \<Rightarrow> fe_error + string" where
  "formatStroops intl v opts =
     (let dp = or_else (decimalPlaces opts) DISPLAY_DP;
          mode = or_else (mode_opt opts) DEFAULT_MODE
      in if dp < 0 then Inl (MoneyError ''decimalPlaces must be non-negative'')
         else
           (let negative = v < 0;
                magnitude = (if negative then - v else v);
                scaledMagnitude =
                  (if int SCALE_DECIMALS \<le> dp then Inr (magnitude * 10 ^ nat (dp - int SCALE_DECIMALS))
                   else roundDiv_fe magnitude (10 ^ nat (int SCALE_DECIMALS - dp)) mode)
            in and_then scaledMagnitude (\<lambda>sm.
                 let scale = 10 ^ nat dp;
                     whole = sm sdiv scale;
                     fraction = sm smod scale;
                     wholeStr =
                       (if or_else (grouped opts) False
                        then toLocaleString intl (or_else (locale_opt opts) ''en-US'') whole
                        else show_int whole);
                     sgn_text = (if negative \<and> sm \<noteq> 0 then ''-'' else [])
                 in Inr (if dp = 0 then sgn_text @ wholeStr
                         else sgn_text @ wholeStr @ ''.'' @ js_pad_start (nat dp) CHR ''0'' (show_int fraction)))))"

definition BigInt_fe :: "string \<Rightarrow> fe_error + int" where
  "BigInt_fe s = (case js_BigInt s of None \<Rightarrow> Inl SyntaxError | Some i \<Rightarrow> Inr i)"

text \<open>\<open>const [first, second = ""] = s.split(".")\<close>.\<close>

definition dot_parts :: "string \<Rightarrow> string \<times> string" where
  "dot_parts s =
     (let pieces = js_split CHR ''.'' s in (hd pieces, (case tl pieces of [] \<Rightarrow> [] | f # _ \<Rightarrow> f)))"

definition without_commas :: "string \<Rightarrow> string" where
  "without_commas s = filter (\<lambda>c. c \<noteq> CHR '','') s"

definition parseAmount :: "string \<Rightarrow> RoundingMode \<Rightarrow> fe_error + int" where
  "parseAmount text mode =
     (let trimmed = without_commas (js_trim text) in
      if \<not> decimal_string trimmed then Inl (MoneyError (''invalid decimal amount: '' @ json_quote text))
      else
        (let negative = starts_with ''-'' trimmed;
             unsigned = (if negative then tl trimmed else trimmed);
             (wholeRaw, fractionRaw) = dot_parts unsigned;
             whole = (if wholeRaw \<noteq> [] then wholeRaw else ''0'');
             magnitude =
               (if length fractionRaw \<le> SCALE_DECIMALS then
                  (let paddedFraction = js_pad_end SCALE_DECIMALS CHR ''0'' fractionRaw in
                   and_then (BigInt_fe whole) (\<lambda>w.
                   and_then (BigInt_fe (if paddedFraction = [] then ''0'' else paddedFraction)) (\<lambda>f.
                     Inr (w * SCALE + f))))
                else
                  (let extraDigits = length fractionRaw - SCALE_DECIMALS;
                       den = 10 ^ extraDigits in
                   and_then (BigInt_fe whole) (\<lambda>w.
                   and_then (BigInt_fe fractionRaw) (\<lambda>f.
                     roundDiv_fe (w * 10 ^ length fractionRaw + f) den mode))))
         in and_then magnitude (\<lambda>m. Inr (if negative then - m else m))))"

section \<open>Amount fields\<close>

definition getAssetDecimals :: "string \<Rightarrow> nat" where
  "getAssetDecimals a =
     (if a = ''XLM'' then 7 else if a = ''USDC'' then 2 else if a = ''EURC'' then 2 else if a = ''PHP'' then 2
      else SCALE_DECIMALS)"

definition first_index :: "char \<Rightarrow> string \<Rightarrow> int" where
  "first_index c s = (if c \<in> set s then int (length (takeWhile (\<lambda>x. x \<noteq> c) s)) else - 1)"

definition sanitizeAmountInput :: "string \<Rightarrow> string" where
  "sanitizeAmountInput v =
     (let sanitized = filter (\<lambda>c. is_digit c \<or> c = CHR ''.'') v;
          firstDotIndex = first_index CHR ''.'' sanitized
      in if firstDotIndex \<noteq> - 1
         then take (nat firstDotIndex + 1) sanitized @
              filter (\<lambda>c. c \<noteq> CHR ''.'') (drop (nat firstDotIndex + 1) sanitized)
         else sanitized)"

definition countFractionDigits :: "string \<Rightarrow> nat" where
  "countFractionDigits v = length (snd (dot_parts v))"

definition hasInvalidPrecision :: "string \<Rightarrow> nat \<Rightarrow> bool" where
  "hasInvalidPrecision v decimals \<longleftrightarrow> countFractionDigits v > decimals"

definition ok_of :: "'e + 'a \<Rightarrow> 'a option" where
  "ok_of r = (case r of Inl e \<Rightarrow> None | Inr a \<Rightarrow> Some a)"

definition toStroops_fe :: "string \<Rightarrow> nat \<Rightarrow> int option" where
  "toStroops_fe v decimals =
     (if v = [] \<or> hasInvalidPrecision v decimals then None
      else if decimals = SCALE_DECIMALS then ok_of (parseAmount v DEFAULT_MODE)
      else
        (let (whole, fraction) = dot_parts v;
             normalizedFraction = js_pad_end decimals CHR ''0'' fraction;
             scale = 10 ^ decimals
         in ok_of (
              and_then (BigInt_fe (if whole \<noteq> [] then whole else ''0'')) (\<lambda>w.
              and_then (BigInt_fe (if normalizedFraction \<noteq> [] then normalizedFraction else ''0'')) (\<lambda>f.
                Inr (w * scale + f))))))"

definition fromStroops_fe :: "(string \<Rightarrow> int \<Rightarrow> string) \<Rightarrow> int \<Rightarrow> nat \<Rightarrow> fe_error + string" where
  "fromStroops_fe intl v decimals =
     (if decimals = SCALE_DECIMALS
      then formatStroops intl v
             \<lparr>decimalPlaces = Some (int SCALE_DECIMALS), mode_opt = None, grouped = None, locale_opt = None\<rparr>
      else
        (let negative = v < 0;
             magnitude = (if negative then - v else v);
             scale = 10 ^ decimals;
             whole = magnitude sdiv scale;
             fraction = js_pad_start decimals CHR ''0'' (show_int (magnitude smod scale))
         in Inr ((if negative then ''-'' else []) @ show_int whole @ ''.'' @ fraction)))"

definition getPrecisionError :: "string \<Rightarrow> string \<Rightarrow> nat option \<Rightarrow> string option" where
  "getPrecisionError v a decimals =
     (let assetDecimals = or_else decimals (getAssetDecimals a) in
      if \<not> hasInvalidPrecision v assetDecimals then None
      else Some (a @ '' supports at most '' @ show_nat assetDecimals @ '' decimal places.''))"

definition truncateDecimals :: "string \<Rightarrow> nat \<Rightarrow> string" where
  "truncateDecimals v decimals =
     (if v = [] then []
      else
        (let parts = js_split CHR ''.'' v in
         if length parts > 2 then parts ! 0 @ ''.'' @ take decimals (parts ! 1)
         else if length parts = 2 \<and> length (parts ! 1) > decimals
         then parts ! 0 @ ''.'' @ take decimals (parts ! 1)
         else v))"

section \<open>The two copies of the policy\<close>

lemma ok_of_simps [simp]: "ok_of (Inl e) = None" "ok_of (Inr a) = Some a"
  by (simp_all add: ok_of_def)

lemma roundDiv_fe_eq: "ok_of (roundDiv_fe n d mode) = ok_of (roundDiv n d mode)"
  by (simp add: roundDiv_fe_def roundDiv_def Let_def split: RoundingMode.split)

lemma roundDiv_fe_pos: "0 < d \<Longrightarrow> roundDiv n d mode = Inr q \<Longrightarrow> roundDiv_fe n d mode = Inr q"
  using roundDiv_fe_eq [of n d mode] by (cases "roundDiv_fe n d mode") auto

lemma ok_of_and_then: "ok_of (and_then r f) = Option.bind (ok_of r) (\<lambda>a. ok_of (f a))"
  by (cases r) auto

lemma ok_of_BigInt: "ok_of (BigInt_fe s) = ok_of (BigInt s)"
  by (simp add: BigInt_fe_def BigInt_def split: option.split)

lemma parseAmount_toStroops:
  "ok_of (parseAmount text mode) =
     (let t = without_commas (js_trim text) in if decimal_string t then ok_of (toStroops t mode) else None)"
proof (cases "decimal_string (without_commas (js_trim text))")
  case False
  then show ?thesis by (simp add: parseAmount_def Let_def)
next
  case True
  then have "js_trim (without_commas (js_trim text)) = without_commas (js_trim text)" by (rule js_trim_decimal)
  then show ?thesis
    using True by (simp add: parseAmount_def toStroops_def Let_def dot_parts_def ok_of_and_then ok_of_BigInt roundDiv_fe_eq)
qed

lemma js_trim_chars: "set (js_trim s) \<subseteq> set s"
  by (auto simp: js_trim_def dest!: set_dropWhileD)

lemma without_commas_id: "CHR '','' \<notin> set s \<Longrightarrow> without_commas s = s"
  by (auto simp: without_commas_def filter_id_conv)

lemma toStroops_trim: "decimal_string (js_trim s) \<Longrightarrow> toStroops (js_trim s) mode = toStroops s mode"
  by (simp add: toStroops_def js_trim_decimal Let_def)

lemma parseAmount_plain: "CHR '','' \<notin> set text \<Longrightarrow> ok_of (parseAmount text mode) = ok_of (toStroops text mode)"
proof -
  assume "CHR '','' \<notin> set text"
  then have "without_commas (js_trim text) = js_trim text"
    using js_trim_chars by (intro without_commas_id) blast
  then show ?thesis
    by (simp add: parseAmount_toStroops Let_def toStroops_trim) (simp add: toStroops_def Let_def)
qed

section \<open>Display\<close>

lemma commas_not_Nil [simp]: "commas xs = [] \<longleftrightarrow> xs = []"
  by (cases xs rule: commas.cases) auto

lemma commas_without [simp]: "without_commas (commas xs) = without_commas xs"
  by (induction xs rule: commas.induct) (auto simp: without_commas_def)

lemma commas_ends [simp]: "hd (commas xs) = hd xs" "last (commas xs) = last xs"
  by (induction xs rule: commas.induct) auto

lemma without_commas_append [simp]: "without_commas (s @ t) = without_commas s @ without_commas t"
  by (simp add: without_commas_def)

lemma without_commas_rev: "without_commas (rev s) = rev (without_commas s)"
  by (simp add: without_commas_def rev_filter)

lemma without_commas_digits: "list_all is_digit s \<Longrightarrow> without_commas s = s"
  by (intro without_commas_id) (auto simp: list_all_iff is_digit_def)

text \<open>The text of the whole part: digits with commas between them, and the number without them.\<close>

definition whole_text :: "string \<Rightarrow> nat \<Rightarrow> bool" where
  "whole_text t n \<longleftrightarrow> t \<noteq> [] \<and> is_digit (hd t) \<and> is_digit (last t) \<and> without_commas t = show_nat n"

lemma whole_text_plain: "whole_text (show_nat n) n"
  by (simp add: whole_text_def hd_digits last_digits without_commas_digits)

lemma whole_text_grouped: "whole_text (rev (commas (rev (show_nat n)))) n"
proof -
  have "hd (rev (commas (rev (show_nat n)))) = hd (show_nat n)" "last (rev (commas (rev (show_nat n)))) = last (show_nat n)"
    by (simp_all add: hd_rev last_rev)
  then show ?thesis
    by (simp add: whole_text_def hd_digits last_digits without_commas_rev without_commas_digits)
qed

lemma formatStroops_form:
  assumes "or_else (decimalPlaces opts) DISPLAY_DP = int dp" "or_else (locale_opt opts) ''en-US'' = ''en-US''"
    and "(if 7 \<le> dp then Inr (\<bar>v\<bar> * 10 ^ (dp - 7))
          else roundDiv \<bar>v\<bar> (10 ^ (7 - dp)) (or_else (mode_opt opts) DEFAULT_MODE)) = Inr (int n)"
  shows "\<exists>t. whole_text t (n div 10 ^ dp) \<and> formatStroops intl v opts =
    Inr (sign_str (v < 0 \<and> n \<noteq> 0) @ t @
      (if dp = 0 then [] else CHR ''.'' # js_pad_start dp CHR ''0'' (show_nat (n mod 10 ^ dp))))"
proof -
  have sm: "(if int SCALE_DECIMALS \<le> int dp then Inr (\<bar>v\<bar> * 10 ^ nat (int dp - int SCALE_DECIMALS))
       else roundDiv_fe \<bar>v\<bar> (10 ^ nat (int SCALE_DECIMALS - int dp)) (or_else (mode_opt opts) DEFAULT_MODE)) = Inr (int n)"
  proof (cases "7 \<le> dp")
    case True
    then have "nat (int dp - 7) = dp - 7" by simp
    then show ?thesis using assms(3) True by (simp add: SCALE_DECIMALS_def)
  next
    case False
    then have "nat (7 - int dp) = 7 - dp" by simp
    then show ?thesis using assms(3) False roundDiv_fe_pos by (simp add: SCALE_DECIMALS_def)
  qed
  have parts: "int n sdiv 10 ^ dp = int (n div 10 ^ dp)" "int n smod 10 ^ dp = int (n mod 10 ^ dp)"
    by (simp_all add: smod_eq sdiv_nonneg zdiv_int zmod_int minus_div_mult_eq_mod)
  let ?t = "if or_else (grouped opts) False then toLocaleString intl ''en-US'' (int (n div 10 ^ dp)) else show_int (int (n div 10 ^ dp))"
  have "whole_text ?t (n div 10 ^ dp)"
    using whole_text_plain whole_text_grouped by (simp add: toLocaleString_def show_int_def)
  then show ?thesis
    unfolding formatStroops_def assms(1,2) Let_def abs_if [symmetric] sm
    by (intro exI [of _ ?t]) (simp add: parts sign_str_def show_int_def)
qed

lemma roundDiv_nearest:
  assumes d: "0 < d" and q: "roundDiv n d mode = Inr q" and m: "mode = HalfEven \<or> mode = HalfUp"
  shows "2 * \<bar>q * d - n\<bar> \<le> d"
proof -
  have "0 \<le> n mod d" "n mod d < d" using d by simp_all
  moreover have "q * d - n = of_bool (goes_up mode n d) * d - n mod d"
    using q roundDiv_floor_form [OF d, of n mode] minus_div_mult_eq_mod [of n d] by (auto simp: distrib_right)
  ultimately show ?thesis using m by (auto simp: goes_up_def of_bool_def split: if_splits)
qed

lemma length_pad_mod: "0 < dp \<Longrightarrow> length (js_pad_start dp CHR ''0'' (show_nat (n mod 10 ^ dp))) = dp"
  using length_show_nat_le [of "n mod 10 ^ dp" "dp - 1"] by simp

lemma pad_digits: "list_all is_digit (js_pad_start k CHR ''0'' (show_nat n))" "js_pad_start k CHR ''0'' (show_nat n) \<noteq> []"
  using show_nat_digits [of n] by (auto simp: js_pad_start_def list_all_iff)

lemma parse_shown:
  assumes t: "whole_text t (n div 10 ^ dp)" and dp: "7 \<le> dp \<Longrightarrow> n = k * 10 ^ (dp - 7)"
  shows "parseAmount (sign_str neg @ t @
      (if dp = 0 then [] else CHR ''.'' # js_pad_start dp CHR ''0'' (show_nat (n mod 10 ^ dp)))) mode =
    Inr (sign_val neg (if 7 \<le> dp then int k else int n * 10 ^ (7 - dp)))" (is "parseAmount ?s mode = Inr ?v")
proof -
  let ?f = "js_pad_start dp CHR ''0'' (show_nat (n mod 10 ^ dp))"
  have "\<not> is_space (hd ?s)" using t by (cases neg) (auto simp: sign_str_def whole_text_def, simp add: is_space_def)
  moreover have "\<not> is_space (last ?s)" using t pad_digits by (auto simp: whole_text_def last_digits)
  ultimately have trim: "js_trim ?s = ?s" by (intro js_trim_id) blast
  let ?u = "sign_str neg @ show_nat (n div 10 ^ dp) @ (if dp = 0 then [] else CHR ''.'' # ?f)"
  have "without_commas (CHR ''.'' # ?f) = CHR ''.'' # ?f"
    using pad_digits without_commas_digits by (simp add: without_commas_def)
  then have u: "without_commas ?s = ?u"
    using t by (simp add: whole_text_def) (simp add: sign_str_def without_commas_def)
  have "decimal_string ?u" by (cases "dp = 0") (simp_all add: decimal_stringI pad_digits)
  moreover from this have trim': "js_trim ?u = ?u" by (rule js_trim_decimal)
  moreover have "ok_of (toStroops ?u mode) = Some ?v"
  proof (cases "dp = 0")
    case True
    then show ?thesis using toStroops_whole [of ?u neg "show_nat n"] trim' by simp
  next
    case False
    have len: "length ?f = dp" using False by (intro length_pad_mod) simp
    have val: "int (n div 10 ^ dp) * 10 ^ dp + int (n mod 10 ^ dp) = int n"
    proof -
      have "int (n div 10 ^ dp * 10 ^ dp + n mod 10 ^ dp) = int n" by (simp only: div_mult_mod_eq)
      then show ?thesis by (simp only: of_nat_add of_nat_mult of_nat_power of_nat_numeral)
    qed
    show ?thesis
    proof (cases "dp \<le> 7")
      case True
      have "toStroops ?u mode = Inr (sign_val neg (int (n div 10 ^ dp) * 10 ^ 7 + int (n mod 10 ^ dp) * 10 ^ (7 - dp)))"
        using toStroops_short [of ?u neg "show_nat (n div 10 ^ dp)" ?f mode, unfolded len] trim' False True pad_digits by simp
      moreover have "int (n div 10 ^ dp) * 10 ^ 7 + int (n mod 10 ^ dp) * 10 ^ (7 - dp) = int n * 10 ^ (7 - dp)"
      proof -
        have "(10::int) ^ 7 = 10 ^ dp * 10 ^ (7 - dp)" using True by (simp flip: power_add)
        then show ?thesis unfolding val [symmetric] by (simp add: algebra_simps)
      qed
      moreover have "7 \<le> dp \<Longrightarrow> int k = int n * 10 ^ (7 - dp)" using dp True by simp
      ultimately show ?thesis by (cases "7 \<le> dp") auto
    next
      case long: False
      have "digits_val (show_nat (n div 10 ^ dp) @ ?f) = n" unfolding digits_val_append len
        by (simp only: digits_val_show_nat digits_val_pad_start div_mult_mod_eq)
      then have "roundDiv (int (digits_val (show_nat (n div 10 ^ dp) @ ?f))) (10 ^ (dp - 7)) mode = Inr (int k)"
        using long dp roundDiv_exact [of "10 ^ (dp - 7)" "int k" mode] by simp
      then show ?thesis
        using toStroops_long [of ?u neg "show_nat (n div 10 ^ dp)" ?f mode, unfolded len] trim' False long pad_digits by auto
    qed
  qed
  ultimately have "ok_of (parseAmount ?s mode) = Some ?v"
    by (simp only: parseAmount_toStroops Let_def trim u if_True)
  then show ?thesis by (cases "parseAmount ?s mode") auto
qed

section \<open>Amount fields\<close>

lemma fromStroops_fe_form:
  assumes "0 < d"
  shows "fromStroops_fe intl v d =
    Inr (sign_str (v < 0) @ show_nat (nat \<bar>v\<bar> div 10 ^ d) @ CHR ''.'' # js_pad_start d CHR ''0'' (show_nat (nat \<bar>v\<bar> mod 10 ^ d)))"
proof -
  have parts: "\<bar>v\<bar> sdiv 10 ^ d = int (nat \<bar>v\<bar> div 10 ^ d)" "\<bar>v\<bar> smod 10 ^ d = int (nat \<bar>v\<bar> mod 10 ^ d)"
    by (simp_all add: smod_eq sdiv_nonneg zdiv_int zmod_int minus_div_mult_eq_mod)
  show ?thesis
    using parts assms unfolding fromStroops_fe_def formatStroops_def Let_def abs_if [symmetric]
    by (auto simp: SCALE_DECIMALS_def sign_str_def show_int_def or_else_def simp del: of_nat_div of_nat_mod)
qed

lemma dot_parts_dot: "CHR ''.'' \<notin> set w \<Longrightarrow> CHR ''.'' \<notin> set f \<Longrightarrow> dot_parts (w @ CHR ''.'' # f) = (w, f)"
  by (simp add: dot_parts_def js_split_append js_split_none)

lemma dot_parts_none: "CHR ''.'' \<notin> set w \<Longrightarrow> dot_parts w = (w, [])"
  by (simp add: dot_parts_def js_split_none)

lemma no_dot_digits: "list_all is_digit s \<Longrightarrow> CHR ''.'' \<notin> set s" "list_all is_digit s \<Longrightarrow> CHR ''.'' \<notin> set (sign_str neg @ s)"
  by (auto simp: list_all_iff is_digit_def sign_str_def)

lemma BigInt_fe_signed:
  "list_all is_digit s \<Longrightarrow> s \<noteq> [] \<Longrightarrow> BigInt_fe (sign_str neg @ s) = Inr (sign_val neg (int (digits_val s)))"
proof (cases neg)
  case True
  assume s: "list_all is_digit s" "s \<noteq> []"
  have t: "js_trim (''-'' @ s) = ''-'' @ s"
    by (rule js_trim_id) (use digit_not_space [OF last_digits [OF s]] s(2) in \<open>simp add: is_space_def\<close>)
  have r: "radix_prefix (''-'' @ s) = None" by (simp add: radix_prefix_def)
  show ?thesis using True s t r by (simp add: BigInt_fe_def js_BigInt_def Let_def sign_str_def sign_val_def)
qed (simp add: BigInt_fe_def js_BigInt_digits sign_str_def sign_val_def)

lemma toStroops_fe_printed:
  assumes d: "0 < d"
  shows "toStroops_fe (sign_str neg @ show_nat (n div 10 ^ d) @ CHR ''.'' # js_pad_start d CHR ''0'' (show_nat (n mod 10 ^ d))) d =
    Some (if d = 7 then sign_val neg (int n) else sign_val neg (int (n div 10 ^ d)) * 10 ^ d + int (n mod 10 ^ d))"
    (is "toStroops_fe ?s d = _")
proof -
  let ?w = "sign_str neg @ show_nat (n div 10 ^ d)" and ?f = "js_pad_start d CHR ''0'' (show_nat (n mod 10 ^ d))"
  have len: "length ?f = d" using d by (rule length_pad_mod)
  have s: "?s = ?w @ CHR ''.'' # ?f" by simp
  have parts: "dot_parts ?s = (?w, ?f)"
    unfolding s by (rule dot_parts_dot) (simp_all only: no_dot_digits show_nat_digits pad_digits not_False_eq_True)
  have ok: "\<not> (?s = [] \<or> hasInvalidPrecision ?s d)"
    by (simp only: hasInvalidPrecision_def countFractionDigits_def parts snd_conv len) simp
  show ?thesis
  proof (cases "d = 7")
    case True
    have "parseAmount ?s DEFAULT_MODE = Inr (sign_val neg (int n))"
      using parse_shown [of "show_nat (n div 10 ^ d)" n d n neg DEFAULT_MODE] True whole_text_plain by simp
    then show ?thesis using ok True by (simp only: toStroops_fe_def SCALE_DECIMALS_def if_False if_True ok_of_simps refl)
  next
    case False
    have "js_pad_end d CHR ''0'' ?f = ?f" using len by (simp add: js_pad_end_def del: length_pad_start)
    moreover have "BigInt_fe ?f = Inr (int (n mod 10 ^ d))"
      using BigInt_fe_signed [of ?f False] pad_digits by (simp add: sign_str_def sign_val_def)
    moreover have "BigInt_fe ?w = Inr (sign_val neg (int (n div 10 ^ d)))" by (simp add: BigInt_fe_signed)
    moreover have "?w \<noteq> []" "?f \<noteq> []" using pad_digits by simp_all
    ultimately show ?thesis
      using ok False unfolding toStroops_fe_def parts Let_def by (simp add: SCALE_DECIMALS_def)
  qed
qed

lemma nat_parts: "0 \<le> v \<Longrightarrow> int (nat v div 10 ^ d) * 10 ^ d + int (nat v mod 10 ^ d) = v"
proof -
  assume "0 \<le> v"
  have "int (nat v div 10 ^ d * 10 ^ d + nat v mod 10 ^ d) = int (nat v)" by (simp only: div_mult_mod_eq)
  with \<open>0 \<le> v\<close> show ?thesis by (simp only: of_nat_add of_nat_mult of_nat_power of_nat_numeral int_nat_eq if_True)
qed

text \<open>Typing: digits with at most one dot.\<close>

lemma first_index_split: "c \<notin> set w \<Longrightarrow> first_index c (w @ c # r) = int (length w)"
  by (induction w) (auto simp: first_index_def)

lemma sanitize_shape:
  "(\<exists>w. sanitizeAmountInput v = w \<and> list_all is_digit w) \<or>
   (\<exists>w f. sanitizeAmountInput v = w @ CHR ''.'' # f \<and> list_all is_digit w \<and> list_all is_digit f)"
proof -
  let ?t = "filter (\<lambda>c. is_digit c \<or> c = CHR ''.'') v"
  have chars: "is_digit c \<or> c = CHR ''.''" if "c \<in> set ?t" for c using that by simp
  show ?thesis
  proof (cases "CHR ''.'' \<in> set ?t")
    case False
    then have "sanitizeAmountInput v = ?t" by (simp add: sanitizeAmountInput_def first_index_def Let_def)
    moreover have "list_all is_digit ?t" using chars False by (auto simp: list_all_iff)
    ultimately show ?thesis by blast
  next
    case True
    then obtain w r where t: "?t = w @ CHR ''.'' # r" "CHR ''.'' \<notin> set w" using split_list_first by fastforce
    have "list_all is_digit w" "list_all is_digit (filter (\<lambda>c. c \<noteq> CHR ''.'') r)"
      using chars t by (auto simp: list_all_iff)
    moreover have "sanitizeAmountInput v = w @ CHR ''.'' # filter (\<lambda>c. c \<noteq> CHR ''.'') r"
      unfolding sanitizeAmountInput_def t(1) Let_def using first_index_split [OF t(2), of r] by (simp add: nat_add_distrib)
    ultimately show ?thesis by blast
  qed
qed

lemma truncate_digits:
  "list_all is_digit w \<Longrightarrow> truncateDecimals w d = w"
  "list_all is_digit w \<Longrightarrow> list_all is_digit f \<Longrightarrow> truncateDecimals (w @ CHR ''.'' # f) d = w @ CHR ''.'' # take d f"
  by (simp_all add: truncateDecimals_def js_split_none js_split_append no_dot_digits Let_def)

lemma pad_end_digits: "list_all is_digit f \<Longrightarrow> list_all is_digit (js_pad_end d CHR ''0'' f)"
  by (auto simp: js_pad_end_def list_all_iff)

text \<open>An unsigned amount with at most \<open>d\<close> fractional digits.\<close>

lemma toStroops_fe_digits:
  assumes w: "list_all is_digit w" and f: "list_all is_digit f" "length f \<le> d" and d: "d \<noteq> 7"
    and s: "s = w @ CHR ''.'' # f \<or> s = w \<and> w \<noteq> [] \<and> f = []"
  shows "toStroops_fe s d = Some (int (digits_val w) * 10 ^ d + int (digits_val f) * 10 ^ (d - length f))"
proof -
  have parts: "dot_parts s = (w, f)"
    using s w f no_dot_digits by (auto simp: dot_parts_dot dot_parts_none)
  have "BigInt_fe (if w \<noteq> [] then w else ''0'') = Inr (int (digits_val w))"
    using BigInt_fe_signed [of w False] BigInt_fe_signed [of "''0''" False] w
    by (simp add: sign_str_def sign_val_def) (simp add: digits_val_def digit_val_def)
  moreover have "BigInt_fe (if js_pad_end d CHR ''0'' f \<noteq> [] then js_pad_end d CHR ''0'' f else ''0'') =
      Inr (int (digits_val f) * 10 ^ (d - length f))"
  proof (cases "js_pad_end d CHR ''0'' f = []")
    case True
    then have "f = []" "d = 0" by (auto simp: js_pad_end_def)
    then show ?thesis
      using BigInt_fe_signed [of "''0''" False] by (simp add: sign_str_def sign_val_def js_pad_end_def) (simp add: digits_val_def digit_val_def)
  next
    case False
    then show ?thesis
      using BigInt_fe_signed [of "js_pad_end d CHR ''0'' f" False] pad_end_digits [OF f(1)]
      by (simp add: sign_str_def sign_val_def digits_val_pad_end)
  qed
  moreover have "s \<noteq> []" "\<not> hasInvalidPrecision s d"
    using s f by (auto simp: hasInvalidPrecision_def countFractionDigits_def parts)
  ultimately show ?thesis using d unfolding toStroops_fe_def parts by (simp add: SCALE_DECIMALS_def)
qed

section \<open>Properties\<close>


text \<open>What the user sees is the amount up to the precision of the display: the text of a number of stroops
  with \<open>dp\<close> decimals, grouped or not, is accepted by the parser; with seven or more decimals it is parsed back to the same
  amount, with fewer to a multiple of the display unit that is less than one unit away (at most half
  a unit for the two nearest modes), and exactly so when the amount is such a multiple.\<close>

theorem display_faithful:
  assumes dp: "or_else (decimalPlaces opts) DISPLAY_DP = int dp"
    and loc: "or_else (locale_opt opts) ''en-US'' = ''en-US''"
  shows "\<exists>s w. formatStroops intl v opts = Inr s \<and> parseAmount s mode = Inr w \<and>
    (if 7 \<le> dp then w = v
     else 10 ^ (7 - dp) dvd w \<and> \<bar>w - v\<bar> < 10 ^ (7 - dp) \<and> (10 ^ (7 - dp) dvd v \<longrightarrow> w = v) \<and>
       (or_else (mode_opt opts) DEFAULT_MODE \<in> {HalfEven, HalfUp} \<longrightarrow> 2 * \<bar>w - v\<bar> \<le> 10 ^ (7 - dp)))"
proof (cases "7 \<le> dp")
  case True
  have neg: "(v < 0 \<and> nat \<bar>v\<bar> * 10 ^ (dp - 7) \<noteq> 0) = (v < 0)" by auto
  obtain t where t: "whole_text t (nat \<bar>v\<bar> * 10 ^ (dp - 7) div 10 ^ dp)" and s: "formatStroops intl v opts = Inr (sign_str (v < 0) @ t @
      (if dp = 0 then [] else CHR ''.'' # js_pad_start dp CHR ''0'' (show_nat (nat \<bar>v\<bar> * 10 ^ (dp - 7) mod 10 ^ dp))))"
    using formatStroops_form [OF dp loc, of v "nat \<bar>v\<bar> * 10 ^ (dp - 7)" intl, unfolded neg] True by auto
  have "sign_val (v < 0) (int (nat \<bar>v\<bar>)) = v" by (simp add: sign_val_def)
  then show ?thesis using s parse_shown [OF t refl, of "v < 0" mode] True by simp
next
  case False
  let ?u = "10 ^ (7 - dp) :: int" and ?m = "or_else (mode_opt opts) DEFAULT_MODE"
  have u: "0 < ?u" by simp
  obtain q where q: "roundDiv \<bar>v\<bar> ?u ?m = Inr q" using rd.rdiv_returns [OF u] by blast
  then have "0 \<le> q" using rd.rdiv_nonneg [OF u abs_ge_zero] by simp
  then obtain n where n: "q = int n" using zero_le_imp_eq_int by blast
  obtain t where t: "whole_text t (n div 10 ^ dp)" and s: "formatStroops intl v opts = Inr (sign_str (v < 0 \<and> n \<noteq> 0) @ t @
      (if dp = 0 then [] else CHR ''.'' # js_pad_start dp CHR ''0'' (show_nat (n mod 10 ^ dp))))"
    using formatStroops_form [OF dp loc, of v n intl] q n False by auto
  let ?w = "sign_val (v < 0 \<and> n \<noteq> 0) (int n * ?u)"
  have p: "parseAmount (sign_str (v < 0 \<and> n \<noteq> 0) @ t @
      (if dp = 0 then [] else CHR ''.'' # js_pad_start dp CHR ''0'' (show_nat (n mod 10 ^ dp)))) mode = Inr ?w"
    using parse_shown [OF t, of 0 "v < 0 \<and> n \<noteq> 0" mode] False by simp
  have dist: "\<bar>?w - v\<bar> = \<bar>q * ?u - \<bar>v\<bar>\<bar>" using n by (auto simp: sign_val_def)
  have "?u dvd ?w" by (simp add: sign_val_def)
  moreover have "\<bar>?w - v\<bar> < ?u" unfolding dist using roundDiv_near [OF u q] .
  moreover have "?w = v" if "?u dvd v"
  proof -
    obtain k where "\<bar>v\<bar> = k * ?u" using \<open>?u dvd v\<close> by (metis dvd_abs_iff dvd_def mult.commute)
    then have "q * ?u = \<bar>v\<bar>" using q roundDiv_exact [OF u, of k ?m] by simp
    then show ?thesis using dist by simp
  qed
  moreover have "2 * \<bar>?w - v\<bar> \<le> ?u" if "?m \<in> {HalfEven, HalfUp}"
    unfolding dist using roundDiv_nearest [OF u q] that by blast
  ultimately show ?thesis using s p False by (intro exI conjI) auto
qed


text \<open>Outside of the seven decimals of the policy a negative amount is misread: the field of a two-decimal asset
  prints it correctly, but reading the text back adds the fraction in place of subtracting it, so it
  returns the amount only when there is no fraction, and loses the sign of an amount below one.\<close>

theorem negative_amount_misread:
  assumes "0 < d" "d \<noteq> 7" "0 < n"
  shows "\<exists>s. fromStroops_fe intl (- int n) d = Inr s \<and>
    toStroops_fe s d = Some (int (n mod 10 ^ d) - int (n div 10 ^ d) * 10 ^ d) \<and>
    (toStroops_fe s d = Some (- int n) \<longleftrightarrow> 10 ^ d dvd n)"
proof -
  have "int (n div 10 ^ d * 10 ^ d + n mod 10 ^ d) = int n" by (simp only: div_mult_mod_eq)
  then have "int (n div 10 ^ d) * 10 ^ d + int (n mod 10 ^ d) = int n"
    by (simp only: of_nat_add of_nat_mult of_nat_power of_nat_numeral)
  then have "int (n mod 10 ^ d) - int (n div 10 ^ d) * 10 ^ d = - int n \<longleftrightarrow> int (n mod 10 ^ d) = 0" by linarith
  also have "\<dots> \<longleftrightarrow> 10 ^ d dvd n" by (simp only: of_nat_eq_0_iff dvd_eq_mod_eq_0)
  finally show ?thesis
    using fromStroops_fe_form [of d intl "- int n"] toStroops_fe_printed [of d True n] assms
    by (simp add: sign_val_def del: of_nat_div of_nat_mod)
qed

section \<open>Witnesses\<close>

definition demo_opts :: format_opts where
  "demo_opts = \<lparr>decimalPlaces = None, mode_opt = None, grouped = Some True, locale_opt = None\<rparr>"


theorem display_faithful_witness:
  "\<exists>s w. formatStroops (\<lambda>_ _. []) (- 12345678654321) demo_opts = Inr s \<and> parseAmount s Floor = Inr w \<and>
      \<bar>w + 12345678654321\<bar> \<le> 50000"
  using display_faithful [where opts = demo_opts and dp = 2 and intl = "\<lambda>_ _. []" and v = "- 12345678654321" and mode = Floor]
  by (auto simp: demo_opts_def or_else_def DISPLAY_DP_def DEFAULT_MODE_def)


theorem negative_amount_misread_witness:
  "\<exists>s. fromStroops_fe (\<lambda>_ _. []) (- 150) 2 = Inr s \<and> toStroops_fe s 2 = Some (- 50)"
  using negative_amount_misread [of 2 150 "\<lambda>_ _. []"] by auto

end
