(* ===== verification/Disputes.thy ===== *)
theory Disputes
  imports Notifications EventStore
begin

text \<open>
  Disputed defaults: \<open>contestDefault\<close> and the two helpers for tests, \<open>createTestLoan\<close> and
  \<open>markLoanDefaulted\<close>, of \<open>src/backend/src/controllers/loanController.ts\<close>, and the decisions of
  \<open>src/backend/src/controllers/adminDisputeController.ts\<close>. The rows that these handlers insert into
  \<open>contract_events\<close> are checked against the constraints of the table in \<open>src/backend/migrations\<close>. A decision
  is a request whose statements interleave with those of other requests.
\<close>

section \<open>State\<close>

datatype dispute_status = Opened | Resolved | Rejected

record dispute =
  dispute_id :: nat
  dispute_loan :: int
  dispute_borrower :: string
  dispute_reason :: string
  dispute_status :: dispute_status
  dispute_note :: "string option"
  resolution :: "string option"

datatype decision =
    Resolve string string "string option"
  | Reject "string option"

datatype decision_pc =
    Asked
  | Found dispute
  | Recorded dispute
  | Telling dispute
  | Answered "http_error + string"

record decision_request =
  of_dispute :: nat
  decided :: decision
  at_pc :: decision_pc

record dispute_sys =
  disputes :: "dispute list"
  next_dispute :: nat
  events :: "event_row list"
  requests :: "decision_request list"
  told :: notif_sys

text \<open>Whether a statement reaches the database, the reading of an \<open>INTEGER\<close> parameter, the clock.\<close>

record dispute_env =
  db_up :: bool
  pg_int :: "string \<Rightarrow> int option"
  now_ms :: ms
  notif_of :: notif_env

section \<open>Inserting events\<close>

text \<open>The columns that a statement may leave out or set to \<open>NULL\<close>.\<close>

record new_event =
  ne_event_id :: "string option"
  ne_type :: string
  ne_loan :: "int option"
  ne_address :: "string option"
  ne_amount :: "int option"
  ne_ledger :: "int option"
  ne_tx_hash :: "string option"
  ne_contract :: "string option"
  ne_rate :: "int option"
  ne_term :: "int option"

definition event_row_of :: "new_event \<Rightarrow> ms \<Rightarrow> event_row option" where
  "event_row_of e t =
     (case (ne_event_id e, ne_ledger e, ne_tx_hash e, ne_contract e) of
        (Some i, Some l, Some h, Some c) \<Rightarrow>
          Some \<lparr>event_id = i, event_type = ne_type e, loan_id = ne_loan e, address = ne_address e, amount = ne_amount e,
            ledger = l, ledger_closed_at = t, tx_hash = h, contract_id = c, interest_rate_bps = ne_rate e,
            term_ledgers = ne_term e\<rparr>
      | _ \<Rightarrow> None)"

text \<open>A statement without \<open>ON CONFLICT\<close>: a \<open>NULL\<close> in a \<open>NOT NULL\<close> column and a duplicate are errors.\<close>

definition insert_new_event :: "dispute_env \<Rightarrow> new_event \<Rightarrow> dispute_sys \<Rightarrow> http_error + dispute_sys" where
  "insert_new_event E e s =
     (if \<not> db_up E then Inl (Thrown ''connection terminated'')
      else (case event_row_of e (now_ms E) of
              None \<Rightarrow> Inl (Thrown ''null value violates not-null constraint'')
            | Some r \<Rightarrow>
                (case insert_event r (events s) of
                   (False, tbl) \<Rightarrow> Inl (Thrown ''duplicate key value violates unique constraint'')
                 | (True, tbl) \<Rightarrow> Inr (s\<lparr>events := tbl\<rparr>))))"

text \<open>The columns of the statements of this theory: neither an event id nor a transaction nor a contract, and the
  ledger \<open>NULL\<close>.\<close>

definition hand_made :: "string \<Rightarrow> int option \<Rightarrow> string option \<Rightarrow> new_event" where
  "hand_made ty loan addr =
     \<lparr>ne_event_id = None, ne_type = ty, ne_loan = loan, ne_address = addr, ne_amount = None, ne_ledger = None,
      ne_tx_hash = None, ne_contract = None, ne_rate = None, ne_term = None\<rparr>"

definition createTestLoan ::
  "dispute_env \<Rightarrow> string option \<Rightarrow> int option \<Rightarrow> int option \<Rightarrow> dispute_sys \<Rightarrow> http_error + dispute_sys" where
  "createTestLoan E user amt term s =
     (let borrower = (case env_set user of Some u \<Rightarrow> u | None \<Rightarrow> ''test-borrower'') in
      if amt \<in> {None, Some 0} \<or> term \<in> {None, Some 0} then Inl (AppError 400 ''amount and term required'' [] None)
      else and_then (insert_new_event E ((hand_made ''LoanRequested'' None (Some borrower))\<lparr>ne_amount := amt\<rparr>) s) (\<lambda>s1.
             let loan = loan_id (last (events s1)) in
             insert_new_event E ((hand_made ''LoanApproved'' loan (Some borrower))
               \<lparr>ne_amount := amt, ne_rate := Some 1200, ne_term := term\<rparr>) s1))"

definition loan_rows :: "dispute_env \<Rightarrow> string \<Rightarrow> (event_row \<Rightarrow> bool) \<Rightarrow> dispute_sys \<Rightarrow> http_error + (int \<times> bool)" where
  "loan_rows E loanId P s =
     (if \<not> db_up E then Inl (Thrown ''connection terminated'')
      else (case pg_int E loanId of
              None \<Rightarrow> Inl (Thrown ''invalid input syntax for type integer'')
            | Some l \<Rightarrow> Inr (l, list_ex (\<lambda>r. loan_id r = Some l \<and> P r) (events s))))"

definition markLoanDefaulted ::
  "dispute_env \<Rightarrow> string option \<Rightarrow> string option \<Rightarrow> string \<Rightarrow> dispute_sys \<Rightarrow> http_error + dispute_sys" where
  "markLoanDefaulted E body_borrower user loanId s =
     (let borrower = (case env_set body_borrower of Some b \<Rightarrow> Some b | None \<Rightarrow> env_set user) in
      and_then (loan_rows E loanId (\<lambda>_. True) s) (\<lambda>(l, found).
        if \<not> found then Inl (badRequest ''Loan does not exist'' None None)
        else insert_new_event E (hand_made ''LoanDefaulted'' (Some l) borrower) s))"

section \<open>Contesting a default\<close>

definition insert_dispute :: "int \<Rightarrow> string \<Rightarrow> string \<Rightarrow> dispute_sys \<Rightarrow> dispute_sys" where
  "insert_dispute loan borrower reason s =
     s\<lparr>disputes := disputes s @ [\<lparr>dispute_id = next_dispute s, dispute_loan = loan, dispute_borrower = borrower,
          dispute_reason = reason, dispute_status = Opened, dispute_note = None, resolution = None\<rparr>],
       next_dispute := next_dispute s + 1\<rparr>"

definition contest_text :: "string \<Rightarrow> string \<Rightarrow> string \<Rightarrow> string" where
  "contest_text borrower loanId reason =
     ''Borrower '' @ borrower @ '' has contested the default on loan #'' @ loanId @ ''. Reason: '' @ reason"

definition contestDefault ::
  "dispute_env \<Rightarrow> dispute_env \<Rightarrow> dispute_env \<Rightarrow> string \<Rightarrow> string option \<Rightarrow> string option \<Rightarrow> dispute_sys \<Rightarrow>
     (http_error + nat) \<times> dispute_sys" where
  "contestDefault E1 E2 E3 loanId reason user s =
     (case env_set reason of
        None \<Rightarrow> (Inl (badRequest ''A valid reason for contesting is required.'' None None), s)
      | Some why \<Rightarrow>
          if length (js_trim why) < 5 then (Inl (badRequest ''A valid reason for contesting is required.'' None None), s)
          else (case env_set user of
                  None \<Rightarrow> (Inl (unauthorized ''Authentication required'' None), s)
                | Some borrower \<Rightarrow>
                    (case loan_rows E1 loanId (\<lambda>r. event_type r = ''LoanDefaulted'') s of
                       Inl e \<Rightarrow> (Inl e, s)
                     | Inr (l, found) \<Rightarrow>
                         if \<not> found then (Inl (badRequest ''Loan is not defaulted or does not exist'' None None), s)
                         else if \<not> db_up E2 then (Inl (Thrown ''connection terminated''), s)
                         else
                           (let s1 = insert_dispute l borrower why s in
                            case insert_new_event E3 (hand_made ''LoanDisputed'' (Some l) (Some borrower)) s1 of
                              Inl e \<Rightarrow> (Inl e, s1)
                            | Inr s2 \<Rightarrow>
                                (Inr (next_dispute s),
                                 s2\<lparr>told := notifyAdmins (notif_of E3) ''Loan Default Contested''
                                       (contest_text borrower loanId why) (Some l) (told s2)\<rparr>)))))"

section \<open>Deciding\<close>

definition ask_decision :: "nat \<Rightarrow> decision \<Rightarrow> dispute_sys \<Rightarrow> dispute_sys" where
  "ask_decision i d s = s\<lparr>requests := requests s @ [\<lparr>of_dispute = i, decided = d, at_pc = Asked\<rparr>]\<rparr>"

definition decision_checks :: "decision \<Rightarrow> http_error + unit" where
  "decision_checks d =
     (case d of
        Resolve action why note \<Rightarrow>
          if action \<notin> {''confirm'', ''reverse''} then Inl (badRequest ''Action must be confirm or reverse'' None None)
          else if length why < 5 then Inl (badRequest ''Resolution reason required'' None None)
          else Inr ()
      | Reject note \<Rightarrow> Inr ())"

definition open_dispute :: "nat \<Rightarrow> dispute_sys \<Rightarrow> dispute option" where
  "open_dispute i s = find (\<lambda>d. dispute_id d = i \<and> dispute_status d = Opened) (disputes s)"

definition none_open :: "decision \<Rightarrow> http_error" where
  "none_open d = notFound (case d of Resolve a w n \<Rightarrow> ''Dispute not found or already resolved''
                           | Reject n \<Rightarrow> ''Dispute not found or already processed'') None None"

definition set_decision :: "nat \<Rightarrow> decision \<Rightarrow> dispute \<Rightarrow> dispute" where
  "set_decision i dec d =
     (if dispute_id d \<noteq> i then d
      else (case dec of
              Resolve action why note \<Rightarrow>
                d\<lparr>dispute_status := Resolved, resolution := Some why, dispute_note := env_set note\<rparr>
            | Reject note \<Rightarrow>
                d\<lparr>dispute_status := Rejected,
                  resolution := Some (case note of None \<Rightarrow> ''rejected by admin'' | Some n \<Rightarrow> n)\<rparr>))"

definition decision_notice :: "decision \<Rightarrow> dispute \<Rightarrow> string \<times> string \<times> string" where
  "decision_notice dec d =
     (case dec of
        Resolve action why note \<Rightarrow>
          (if action = ''reverse'' then ''repayment_confirmed'' else ''loan_defaulted'', ''Dispute resolved'',
           ''Your dispute for loan '' @ show_int (dispute_loan d) @ '' has been resolved: '' @ why)
      | Reject note \<Rightarrow>
          (''loan_defaulted'', ''Dispute rejected'',
           (let msg = ''Your dispute for loan '' @ show_int (dispute_loan d) @ '' was rejected by admin.'' in
            case env_set note of Some n \<Rightarrow> msg @ '' Note: '' @ n | None \<Rightarrow> msg)))"

text \<open>The statements of \<open>resolveLoanDispute\<close> and of \<open>rejectLoanDispute\<close>, one per step.\<close>

definition select_step :: "dispute_env \<Rightarrow> decision_request \<Rightarrow> dispute_sys \<Rightarrow> decision_pc \<times> dispute_sys" where
  "select_step E q s =
     (if \<not> db_up E then (Answered (Inl (Thrown ''connection terminated'')), s)
      else (case open_dispute (of_dispute q) s of
              None \<Rightarrow> (Answered (Inl (none_open (decided q))), s) | Some d \<Rightarrow> (Found d, s)))"

definition update_step :: "dispute_env \<Rightarrow> decision_request \<Rightarrow> decision_pc \<Rightarrow> dispute_sys \<Rightarrow> decision_pc \<times> dispute_sys" where
  "update_step E q pc s =
     (if \<not> db_up E then (Answered (Inl (Thrown ''connection terminated'')), s)
      else (pc, s\<lparr>disputes := map (set_decision (of_dispute q) (decided q)) (disputes s)\<rparr>))"

definition tell_step :: "dispute_env \<Rightarrow> decision_request \<Rightarrow> dispute \<Rightarrow> dispute_sys \<Rightarrow> decision_pc \<times> dispute_sys" where
  "tell_step E q d s =
     (case decision_notice (decided q) d of
        (ty, title, msg) \<Rightarrow>
          (Answered (Inr title), s\<lparr>told := snd (createNotification (notif_of E) (dispute_borrower d) ty title msg
                                          (Some (dispute_loan d)) None (told s))\<rparr>))"

definition resolve_step ::
  "dispute_env \<Rightarrow> string \<Rightarrow> decision_request \<Rightarrow> dispute_sys \<Rightarrow> decision_pc \<times> dispute_sys" where
  "resolve_step E action q s =
     (case at_pc q of
        Asked \<Rightarrow> (case decision_checks (decided q) of Inl e \<Rightarrow> (Answered (Inl e), s) | Inr u \<Rightarrow> select_step E q s)
      | Found d \<Rightarrow> update_step E q (Recorded d) s
      | Recorded d \<Rightarrow>
          (case insert_new_event E (hand_made (if action = ''confirm'' then ''DefaultConfirmed'' else ''DefaultReversed'')
                  (Some (dispute_loan d)) (Some (dispute_borrower d))) s of
             Inl e \<Rightarrow> (Answered (Inl e), s) | Inr s' \<Rightarrow> (Telling d, s'))
      | Telling d \<Rightarrow> tell_step E q d s
      | Answered r \<Rightarrow> (Answered r, s))"

definition reject_step :: "dispute_env \<Rightarrow> decision_request \<Rightarrow> dispute_sys \<Rightarrow> decision_pc \<times> dispute_sys" where
  "reject_step E q s =
     (case at_pc q of
        Asked \<Rightarrow> select_step E q s
      | Found d \<Rightarrow> update_step E q (Telling d) s
      | Recorded d \<Rightarrow> (Telling d, s)
      | Telling d \<Rightarrow> tell_step E q d s
      | Answered r \<Rightarrow> (Answered r, s))"

definition decision_step :: "dispute_env \<Rightarrow> decision_request \<Rightarrow> dispute_sys \<Rightarrow> decision_pc \<times> dispute_sys" where
  "decision_step E q s =
     (case decided q of Resolve action why note \<Rightarrow> resolve_step E action q s | Reject note \<Rightarrow> reject_step E q s)"

lemmas decision_defs = decision_step_def resolve_step_def reject_step_def select_step_def update_step_def tell_step_def

definition decide :: "dispute_env \<Rightarrow> nat \<Rightarrow> dispute_sys \<Rightarrow> dispute_sys" where
  "decide E k s =
     (if k < length (requests s)
      then (case decision_step E (requests s ! k) s of
              (pc, s') \<Rightarrow> s'\<lparr>requests := (requests s)[k := (requests s ! k)\<lparr>at_pc := pc\<rparr>]\<rparr>)
      else s)"

section \<open>Reachable states\<close>

inductive dispute_step :: "dispute_sys \<Rightarrow> dispute_sys \<Rightarrow> bool" where
  test_loan: "createTestLoan E user amt term s = Inr s' \<Longrightarrow> dispute_step s s'"
| test_default: "markLoanDefaulted E b user loanId s = Inr s' \<Longrightarrow> dispute_step s s'"
| contest: "dispute_step s (snd (contestDefault E1 E2 E3 loanId why user s))"
| ask: "dispute_step s (ask_decision i d s)"
| decide: "dispute_step s (decide E k s)"

text \<open>The indexer and the notifications go on in between.\<close>

inductive dispute_reach :: "dispute_sys \<Rightarrow> bool" where
  start: "disputes s = [] \<Longrightarrow> requests s = [] \<Longrightarrow> dispute_reach s"
| handler: "dispute_reach s \<Longrightarrow> dispute_step s s' \<Longrightarrow> dispute_reach s'"
| other: "dispute_reach s \<Longrightarrow> dispute_reach (s\<lparr>events := es, told := n\<rparr>)"

section \<open>Lemmas\<close>

lemma hand_made_fails [simp]:
  "ne_event_id e = None \<Longrightarrow> insert_new_event E e s =
     Inl (Thrown (if db_up E then ''null value violates not-null constraint'' else ''connection terminated''))"
  by (simp add: insert_new_event_def event_row_of_def)

lemma hand_made_id [simp]: "ne_event_id (hand_made ty l a) = None"
  by (simp add: hand_made_def)

lemma test_loan_fails: "\<exists>e. createTestLoan E user amt term s = Inl e"
  by (simp add: createTestLoan_def Let_def)

lemma test_default_fails: "\<exists>e. markLoanDefaulted E b user loanId s = Inl e"
  by (cases "loan_rows E loanId (\<lambda>_. True) s") (auto simp: markLoanDefaulted_def Let_def)

text \<open>A contest: nothing, or one more open dispute; an error in both cases.\<close>

lemma contest_cases:
  "(\<exists>e. contestDefault E1 E2 E3 loanId why user s = (Inl e, s)) \<or>
   (\<exists>e l b r. contestDefault E1 E2 E3 loanId why user s = (Inl e, insert_dispute l b r s))"
  by (simp add: contestDefault_def Let_def split: option.split sum.split) blast

lemma contest_fails: "\<exists>e. fst (contestDefault E1 E2 E3 loanId why user s) = Inl e"
  using contest_cases [of E1 E2 E3 loanId why user s] by auto

lemma insert_dispute_fields [simp]:
  "events (insert_dispute l b r s) = events s" "requests (insert_dispute l b r s) = requests s"
  "told (insert_dispute l b r s) = told s"
  by (simp_all add: insert_dispute_def)

definition backed_decision :: "decision_request list \<Rightarrow> dispute \<Rightarrow> bool" where
  "backed_decision qs d \<longleftrightarrow>
     (case dispute_status d of
        Opened \<Rightarrow> resolution d = None \<and> dispute_note d = None
      | Resolved \<Rightarrow> (\<exists>q a w n. q \<in> set qs \<and> of_dispute q = dispute_id d \<and> decided q = Resolve a w n \<and>
          a \<in> {''confirm'', ''reverse''} \<and> 5 \<le> length w \<and> resolution d = Some w \<and> dispute_note d = env_set n)
      | Rejected \<Rightarrow> (\<exists>q n. q \<in> set qs \<and> of_dispute q = dispute_id d \<and> decided q = Reject n \<and>
          resolution d = Some (case n of None \<Rightarrow> ''rejected by admin'' | Some m \<Rightarrow> m)))"

text \<open>A request that has passed its checks, and what an answered one has said.\<close>

definition request_inv :: "decision_request \<Rightarrow> bool" where
  "request_inv q \<longleftrightarrow>
     (case at_pc q of
        Asked \<Rightarrow> True
      | Found d \<Rightarrow> decision_checks (decided q) = Inr ()
      | Recorded d \<Rightarrow> decision_checks (decided q) = Inr ()
      | Telling d \<Rightarrow> (\<exists>n. decided q = Reject n)
      | Answered r \<Rightarrow> (\<exists>n. decided q = Reject n) \<or> (\<exists>e. r = Inl e))"

definition dispute_inv :: "dispute_sys \<Rightarrow> bool" where
  "dispute_inv s \<longleftrightarrow>
     distinct (map dispute_id (disputes s)) \<and> (\<forall>d \<in> set (disputes s). dispute_id d < next_dispute s \<and> backed_decision (requests s) d) \<and>
     (\<forall>q \<in> set (requests s). request_inv q)"

lemma checks_Inr: "decision_checks d = Inr () \<longleftrightarrow>
    (case d of Resolve a w n \<Rightarrow> a \<in> {''confirm'', ''reverse''} \<and> 5 \<le> length w | Reject n \<Rightarrow> True)"
  by (auto simp: decision_checks_def split: decision.splits)

lemma checks_Reject [simp]: "decision_checks (Reject n) = Inr ()"
  by (simp add: decision_checks_def)

lemma set_decision_simps [simp]: "dispute_id (set_decision i dec d) = dispute_id d"
  "dispute_loan (set_decision i dec d) = dispute_loan d" "dispute_borrower (set_decision i dec d) = dispute_borrower d"
  "dispute_reason (set_decision i dec d) = dispute_reason d"
  "dispute_status d \<noteq> Opened \<Longrightarrow> dispute_status (set_decision i dec d) \<noteq> Opened"
  by (simp_all add: set_decision_def split: decision.splits)

lemma set_decision_backed:
  "backed_decision qs d \<Longrightarrow> q \<in> set qs \<Longrightarrow> of_dispute q = i \<Longrightarrow> decided q = dec \<Longrightarrow> decision_checks dec = Inr () \<Longrightarrow>
    backed_decision qs (set_decision i dec d)"
  by (cases dec) (auto simp: set_decision_def backed_decision_def checks_Inr)

text \<open>The control point of a request is not part of what it decides.\<close>

lemma backed_pc:
  assumes "k < length qs"
  shows "backed_decision (qs[k := (qs ! k)\<lparr>at_pc := pc\<rparr>]) d = backed_decision qs d"
proof -
  let ?qs = "qs[k := (qs ! k)\<lparr>at_pc := pc\<rparr>]"
  have ex: "(\<exists>q. q \<in> set ?qs \<and> P (of_dispute q) (decided q)) = (\<exists>q. q \<in> set qs \<and> P (of_dispute q) (decided q))" for P
  proof
    assume "\<exists>q. q \<in> set ?qs \<and> P (of_dispute q) (decided q)"
    then obtain q where q: "q \<in> set ?qs" "P (of_dispute q) (decided q)" by blast
    then have "q \<in> set qs \<or> q = (qs ! k)\<lparr>at_pc := pc\<rparr>" using set_update_subset_insert by fastforce
    then show "\<exists>q. q \<in> set qs \<and> P (of_dispute q) (decided q)" using q(2) nth_mem [OF assms] by auto
  next
    assume "\<exists>q. q \<in> set qs \<and> P (of_dispute q) (decided q)"
    then obtain j where j: "j < length qs" "P (of_dispute (qs ! j)) (decided (qs ! j))" by (auto simp: in_set_conv_nth)
    have "?qs ! j \<in> set ?qs" using j(1) by (intro nth_mem) simp
    moreover have "P (of_dispute (?qs ! j)) (decided (?qs ! j))" using j by (cases "j = k") simp_all
    ultimately show "\<exists>q. q \<in> set ?qs \<and> P (of_dispute q) (decided q)" by blast
  qed
  have "(\<exists>q a w n. q \<in> set ?qs \<and> of_dispute q = dispute_id d \<and> decided q = Resolve a w n \<and> Q a w n) =
      (\<exists>q a w n. q \<in> set qs \<and> of_dispute q = dispute_id d \<and> decided q = Resolve a w n \<and> Q a w n)" for Q
    using ex [of "\<lambda>i dec. i = dispute_id d \<and> (\<exists>a w n. dec = Resolve a w n \<and> Q a w n)"] by blast
  moreover have "(\<exists>q n. q \<in> set ?qs \<and> of_dispute q = dispute_id d \<and> decided q = Reject n \<and> R n) =
      (\<exists>q n. q \<in> set qs \<and> of_dispute q = dispute_id d \<and> decided q = Reject n \<and> R n)" for R
    using ex [of "\<lambda>i dec. i = dispute_id d \<and> (\<exists>n. dec = Reject n \<and> R n)"] by blast
  ultimately show ?thesis by (simp add: backed_decision_def split: dispute_status.split)
qed

lemma backed_more: "backed_decision qs d \<Longrightarrow> backed_decision (qs @ rs) d"
  by (auto simp: backed_decision_def split: dispute_status.splits)

lemma contest_inv: "dispute_inv s \<Longrightarrow> dispute_inv (snd (contestDefault E1 E2 E3 loanId why user s))"
proof -
  assume inv: "dispute_inv s"
  have "dispute_inv (insert_dispute l b r s)" for l b r
    using inv by (auto simp: dispute_inv_def insert_dispute_def backed_decision_def less_SucI)
  then show ?thesis using inv contest_cases [of E1 E2 E3 loanId why user s] by auto
qed

lemma ask_inv: "dispute_inv s \<Longrightarrow> dispute_inv (ask_decision i d s)"
  by (auto simp: dispute_inv_def ask_decision_def request_inv_def backed_more)

text \<open>One step of a decision: the disputes stay or the decision is written into them.\<close>

lemma decision_step_cases:
  assumes "request_inv q" "decision_step E q s = (pc, s')"
  shows "request_inv (q\<lparr>at_pc := pc\<rparr>) \<and> next_dispute s' = next_dispute s \<and> requests s' = requests s \<and> events s' = events s \<and>
    (disputes s' = disputes s \<or>
     decision_checks (decided q) = Inr () \<and> disputes s' = map (set_decision (of_dispute q) (decided q)) (disputes s))"
  using assms
  by (cases "at_pc q"; cases "decided q")
     (auto simp: decision_defs request_inv_def split: if_splits sum.splits option.splits prod.splits decision_pc.splits)

lemma decide_inv: "dispute_inv s \<Longrightarrow> dispute_inv (decide E k s)"
proof (cases "k < length (requests s)")
  case True
  assume inv: "dispute_inv s"
  let ?q = "requests s ! k"
  have q: "?q \<in> set (requests s)" "request_inv ?q" using inv True by (simp_all add: dispute_inv_def)
  obtain pc s' where st: "decision_step E ?q s = (pc, s')" by force
  note c = decision_step_cases [OF q(2) st]
  have b: "backed_decision (requests s) d \<and> dispute_id d < next_dispute s" if "d \<in> set (disputes s)" for d
    using inv that by (simp add: dispute_inv_def)
  have "\<forall>d \<in> set (disputes s'). backed_decision (requests s) d \<and> dispute_id d < next_dispute s"
    using c b set_decision_backed [OF _ q(1) refl refl] by auto
  moreover have "map dispute_id (disputes s') = map dispute_id (disputes s)" using c by auto
  moreover have "\<forall>r \<in> set ((requests s)[k := ?q\<lparr>at_pc := pc\<rparr>]). request_inv r"
    using c inv set_update_subset_insert [of "requests s" k "?q\<lparr>at_pc := pc\<rparr>"] by (auto simp: dispute_inv_def)
  ultimately show ?thesis
    using True st c inv by (simp add: decide_def dispute_inv_def backed_pc)
qed (simp add: decide_def)

lemma dispute_step_inv: "dispute_step s s' \<Longrightarrow> dispute_inv s \<Longrightarrow> dispute_inv s'"
proof (induction rule: dispute_step.induct)
  case (test_loan E user amt trm s s')
  then show ?case using test_loan_fails [of E user amt trm s] by simp
next
  case (test_default E b user loanId s s')
  then show ?case using test_default_fails [of E b user loanId s] by simp
qed (simp_all add: contest_inv ask_inv decide_inv)

lemma dispute_reach_inv: "dispute_reach s \<Longrightarrow> dispute_inv s"
proof (induction rule: dispute_reach.induct)
  case (handler s s')
  then show ?case using dispute_step_inv by blast
qed (simp_all add: dispute_inv_def)

lemma decide_events: "dispute_inv s \<Longrightarrow> events (decide E k s) = events s"
proof (cases "k < length (requests s)")
  case True
  assume inv: "dispute_inv s"
  obtain pc s' where st: "decision_step E (requests s ! k) s = (pc, s')" by force
  have "request_inv (requests s ! k)" using inv True by (simp add: dispute_inv_def)
  from decision_step_cases [OF this st] show ?thesis using True st by (simp add: decide_def)
qed (simp add: decide_def)

lemma find_by_id: "distinct (map dispute_id ds) \<Longrightarrow> d \<in> set ds \<Longrightarrow> find (\<lambda>d'. dispute_id d' = dispute_id d) ds = Some d"
  by (induction ds) (auto simp: rev_image_eqI)

section \<open>Properties\<close>

text \<open>(C21) The life of a dispute, whatever the order in which the statements of the administrators' requests
  interleave: an open dispute has neither resolution nor note, a resolved or rejected one carries the words of a request
  for it that passed its checks, numbers are unique, and no step of a request reopens a dispute or
  changes its loan, its borrower or its reason.\<close>

theorem dispute_lifecycle:
  assumes "dispute_reach s" "d \<in> set (disputes s)"
  shows "(case dispute_status d of
        Opened \<Rightarrow> resolution d = None \<and> dispute_note d = None
      | Resolved \<Rightarrow> (\<exists>q a w n. q \<in> set (requests s) \<and> of_dispute q = dispute_id d \<and> decided q = Resolve a w n \<and>
          a \<in> {''confirm'', ''reverse''} \<and> 5 \<le> length w \<and> resolution d = Some w \<and> dispute_note d = env_set n)
      | Rejected \<Rightarrow> (\<exists>q n. q \<in> set (requests s) \<and> of_dispute q = dispute_id d \<and> decided q = Reject n \<and>
          resolution d = Some (case n of None \<Rightarrow> ''rejected by admin'' | Some m \<Rightarrow> m))) \<and>
    find (\<lambda>d'. dispute_id d' = dispute_id d) (disputes s) = Some d \<and>
    (\<exists>d' \<in> set (disputes (decide E k s)). dispute_id d' = dispute_id d \<and> dispute_loan d' = dispute_loan d \<and>
       dispute_borrower d' = dispute_borrower d \<and> dispute_reason d' = dispute_reason d \<and>
       (dispute_status d' = Opened \<longrightarrow> d' = d))"
proof -
  have inv: "dispute_inv s" using assms(1) by (rule dispute_reach_inv)
  then have b: "backed_decision (requests s) d" using assms(2) by (simp add: dispute_inv_def)
  have dist: "distinct (map dispute_id (disputes s))" using inv by (simp add: dispute_inv_def)
  have f: "find (\<lambda>d'. dispute_id d' = dispute_id d) (disputes s) = Some d"
    using find_by_id [OF dist assms(2)] .
  have k: "\<exists>d' \<in> set (disputes (decide E k s)). d' = d \<or> (\<exists>dec. d' = set_decision (dispute_id d) dec d \<and> dispute_status d' \<noteq> Opened)"
  proof (cases "k < length (requests s)")
    case True
    obtain pc s' where st: "decision_step E (requests s ! k) s = (pc, s')" by force
    have "request_inv (requests s ! k)" using inv True by (simp add: dispute_inv_def)
    from decision_step_cases [OF this st]
    have "disputes s' = disputes s \<or> disputes s' = map (set_decision (of_dispute (requests s ! k)) (decided (requests s ! k))) (disputes s)"
      by blast
    then have "d \<in> set (disputes s') \<or> set_decision (of_dispute (requests s ! k)) (decided (requests s ! k)) d \<in> set (disputes s')"
      using assms(2) by auto
    moreover have "set_decision i dec d = d \<or> i = dispute_id d \<and> dispute_status (set_decision i dec d) \<noteq> Opened" for i dec
      by (auto simp: set_decision_def split: decision.splits)
    ultimately have "d \<in> set (disputes s') \<or>
        (\<exists>dec. set_decision (dispute_id d) dec d \<in> set (disputes s') \<and> dispute_status (set_decision (dispute_id d) dec d) \<noteq> Opened)"
      by metis
    moreover have "disputes (decide E k s) = disputes s'" using True st by (simp add: decide_def)
    ultimately show ?thesis by auto
  qed (use assms(2) in \<open>auto simp: decide_def\<close>)
  obtain d' where d': "d' \<in> set (disputes (decide E k s))"
      "d' = d \<or> (\<exists>dec. d' = set_decision (dispute_id d) dec d \<and> dispute_status d' \<noteq> Opened)" using k by (rule bexE)
  then have "dispute_id d' = dispute_id d \<and> dispute_loan d' = dispute_loan d \<and>
       dispute_borrower d' = dispute_borrower d \<and> dispute_reason d' = dispute_reason d \<and> (dispute_status d' = Opened \<longrightarrow> d' = d)"
    by auto
  with d'(1) have "\<exists>d' \<in> set (disputes (decide E k s)). dispute_id d' = dispute_id d \<and> dispute_loan d' = dispute_loan d \<and>
       dispute_borrower d' = dispute_borrower d \<and> dispute_reason d' = dispute_reason d \<and> (dispute_status d' = Opened \<longrightarrow> d' = d)"
    by (rule bexI [rotated])
  then show ?thesis using b f unfolding backed_decision_def by blast
qed

text \<open>The events of a dispute are never written: each of the inserts leaves out columns that must not be
  null, so in every reachable state every contest and both helpers for tests answer with an error, every request
  to resolve a dispute that has been answered was answered with an error, and no step of these handlers adds an event; a default
  is never reversed.\<close>

theorem dispute_events_never_logged:
  assumes "dispute_reach s"
  shows "(\<forall>s'. dispute_step s s' \<longrightarrow> events s' = events s) \<and>
    (\<forall>q a w n r. q \<in> set (requests s) \<and> decided q = Resolve a w n \<and> at_pc q = Answered r \<longrightarrow> (\<exists>e. r = Inl e)) \<and>
    (\<exists>e. fst (contestDefault E1 E2 E3 loanId why user s) = Inl e) \<and>
    (\<exists>e. createTestLoan E user amt trm s = Inl e) \<and> (\<exists>e. markLoanDefaulted E b user loanId s = Inl e)"
proof (intro conjI allI impI)
  have inv: "dispute_inv s" using assms by (rule dispute_reach_inv)
  fix s' assume "dispute_step s s'"
  then show "events s' = events s"
  proof cases
    case (test_loan E user amt trm)
    then show ?thesis using test_loan_fails [of E user amt trm s] by simp
  next
    case (test_default E b user loanId)
    then show ?thesis using test_default_fails [of E b user loanId s] by simp
  next
    case (contest E1 E2 E3 loanId why user)
    then show ?thesis using contest_cases [of E1 E2 E3 loanId why user s] by auto
  qed (simp_all add: ask_decision_def decide_events [OF inv])
next
  fix q a w n r assume "q \<in> set (requests s) \<and> decided q = Resolve a w n \<and> at_pc q = Answered r"
  then show "\<exists>e. r = Inl e"
    using dispute_reach_inv [OF assms] by (auto simp: dispute_inv_def request_inv_def)
qed (rule contest_fails test_loan_fails test_default_fails)+

text \<open>A contest is half applied: the borrower of a defaulted loan gets an error, no administrator is told, but the open
  dispute stays; so each attempt leaves one more open dispute.\<close>

theorem contest_half_applied:
  assumes "db_up E1" "db_up E2" "pg_int E1 loanId = Some l" "exists_event l [''LoanDefaulted''] (events s)"
    and "5 \<le> length (js_trim why)" "user \<noteq> []"
  shows "length (disputes (((\<lambda>t. snd (contestDefault E1 E2 E3 loanId (Some why) (Some user) t)) ^^ n) s)) = length (disputes s) + n \<and>
    told (((\<lambda>t. snd (contestDefault E1 E2 E3 loanId (Some why) (Some user) t)) ^^ n) s) = told s \<and>
    list_all (\<lambda>d. dispute_status d = Opened \<and> dispute_loan d = l \<and> dispute_borrower d = user \<and> dispute_reason d = why)
      (drop (length (disputes s)) (disputes (((\<lambda>t. snd (contestDefault E1 E2 E3 loanId (Some why) (Some user) t)) ^^ n) s)))"
proof -
  let ?f = "\<lambda>t. snd (contestDefault E1 E2 E3 loanId (Some why) (Some user) t)"
  have "why \<noteq> []" using assms(5) by (auto simp: js_trim_def)
  then have step: "?f t = insert_dispute l user why t" if "events t = events s" for t
    using assms that
    by (simp add: contestDefault_def env_set_def loan_rows_def exists_event_def Let_def not_less [symmetric])
  show ?thesis
  proof (induction n)
    case (Suc n)
    have "events ((?f ^^ n) s) = events s" by (induction n) (simp_all add: step)
    then have "?f ((?f ^^ n) s) = insert_dispute l user why ((?f ^^ n) s)" by (rule step)
    then show ?case using Suc by (simp add: insert_dispute_def)
  qed simp
qed

text \<open>Two administrators can decide the same dispute: both requests read it as open before either is
  written, and the later one replaces the earlier, leaving the note of the first with the resolution of
  the second.\<close>

theorem decisions_overwrite:
  assumes "dispute_reach s" "open_dispute i s = Some d" "db_up E" "a \<in> {''confirm'', ''reverse''}" "5 \<le> length w"
    and "k = length (requests s)"
  shows "\<exists>s1 s2 d1 d2. s1 = fold (decide E) [k, k + 1, k] (ask_decision i (Reject m) (ask_decision i (Resolve a w n) s)) \<and>
    s2 = fold (decide E) [k + 1, k + 1] s1 \<and> dispute_reach s2 \<and>
    d1 \<in> set (disputes s1) \<and> dispute_id d1 = i \<and> dispute_status d1 = Resolved \<and> resolution d1 = Some w \<and>
    d2 \<in> set (disputes s2) \<and> dispute_id d2 = i \<and> dispute_status d2 = Rejected \<and>
    resolution d2 = Some (case m of None \<Rightarrow> ''rejected by admin'' | Some r \<Rightarrow> r) \<and> dispute_note d2 = env_set n \<and>
    at_pc (requests s2 ! (k + 1)) = Answered (Inr ''Dispute rejected'')"
proof -
  let ?s0 = "ask_decision i (Reject m) (ask_decision i (Resolve a w n) s)"
  let ?s1 = "fold (decide E) [k, k + 1, k] ?s0" and ?s2 = "fold (decide E) [k + 1, k + 1] (fold (decide E) [k, k + 1, k] ?s0)"
  let ?d1 = "set_decision i (Resolve a w n) d" and ?d2 = "set_decision i (Reject m) (set_decision i (Resolve a w n) d)"
  have d: "d \<in> set (disputes s)" "dispute_id d = i" "dispute_status d = Opened"
    using assms(2) by (auto simp: open_dispute_def find_Some_iff)
  have step: "dispute_reach (decide E j t)" if "dispute_reach t" for j t
    using dispute_reach.handler [OF that dispute_step.decide] .
  have "dispute_reach ?s0"
    using dispute_reach.handler [OF dispute_reach.handler [OF assms(1) dispute_step.ask] dispute_step.ask] .
  then have "dispute_reach ?s2" using step by simp
  moreover have s1: "disputes ?s1 = map (set_decision i (Resolve a w n)) (disputes s)"
    using assms(2-6) by (simp add: decide_def ask_decision_def decision_defs decision_checks_def open_dispute_def
        nth_append list_update_append split: prod.split) 
  moreover have "disputes ?s2 = map (set_decision i (Reject m)) (map (set_decision i (Resolve a w n)) (disputes s)) \<and>
      at_pc (requests ?s2 ! (k + 1)) = Answered (Inr ''Dispute rejected'')"
    using assms(2-6) by (simp add: decide_def ask_decision_def decision_defs decision_checks_def open_dispute_def
        nth_append list_update_append decision_notice_def Let_def split: prod.split)
  ultimately show ?thesis
    using d by (intro exI [of _ ?s1] exI [of _ ?s2] exI [of _ ?d1] exI [of _ ?d2])
      (auto simp: set_decision_def)
qed

section \<open>Witnesses\<close>

definition demo_dispute_env :: dispute_env where
  "demo_dispute_env = \<lparr>db_up = True, pg_int = js_BigInt, now_ms = 5, notif_of = quiet\<rparr>"

definition demo_default :: event_row where
  "demo_default = \<lparr>event_id = ''e1'', event_type = ''LoanDefaulted'', loan_id = Some 7, address = Some ''GA'', amount = None,
     ledger = 3, ledger_closed_at = 1, tx_hash = ''t'', contract_id = ''c'', interest_rate_bps = None, term_ledgers = None\<rparr>"

definition demo_defaulted :: dispute_sys where
  "demo_defaulted = \<lparr>disputes = [], next_dispute = 1, events = [demo_default], requests = [], told = demo_open\<rparr>"

definition demo_contested :: dispute_sys where
  "demo_contested = insert_dispute 7 ''GA'' ''wrong ledger'' demo_defaulted"

lemma demo_contest:
  "contestDefault demo_dispute_env demo_dispute_env demo_dispute_env ''7'' (Some ''wrong ledger'') (Some ''GA'') demo_defaulted =
    (Inl (Thrown ''null value violates not-null constraint''), demo_contested)"
proof -
  have "js_BigInt ''7'' = Some 7" "js_trim ''wrong ledger'' = ''wrong ledger''" by code_simp+
  then show ?thesis
    by (simp add: contestDefault_def env_set_def loan_rows_def demo_dispute_env_def demo_defaulted_def demo_default_def
        demo_contested_def insert_new_event_def event_row_of_def hand_made_def)
qed

lemma demo_contested_reach: "dispute_reach demo_defaulted" "dispute_reach demo_contested"
proof -
  show d: "dispute_reach demo_defaulted" by (rule dispute_reach.start) (simp_all add: demo_defaulted_def)
  show "dispute_reach demo_contested"
    using dispute_reach.handler [OF d dispute_step.contest, of demo_dispute_env demo_dispute_env demo_dispute_env "''7''"
        "Some ''wrong ledger''" "Some ''GA''"] by (simp add: demo_contest)
qed

definition demo_disputed :: dispute where
  "demo_disputed = \<lparr>dispute_id = 1, dispute_loan = 7, dispute_borrower = ''GA'', dispute_reason = ''wrong ledger'',
     dispute_status = Opened, dispute_note = None, resolution = None\<rparr>"

lemma demo_disputes: "disputes demo_contested = [demo_disputed]" "requests demo_contested = []"
  by (simp_all add: demo_contested_def demo_defaulted_def insert_dispute_def demo_disputed_def)

lemma demo_open_dispute: "open_dispute 1 demo_contested = Some demo_disputed"
  by (simp add: open_dispute_def demo_disputes) (simp add: demo_disputed_def)

theorem dispute_lifecycle_witness:
  "disputes demo_contested = [demo_disputed] \<and> resolution demo_disputed = None \<and>
   find (\<lambda>d. dispute_id d = dispute_id demo_disputed) (disputes demo_contested) = Some demo_disputed"
proof -
  have "demo_disputed \<in> set (disputes demo_contested)" by (simp add: demo_disputes)
  from dispute_lifecycle [OF demo_contested_reach(2) this] show ?thesis
    by (simp add: demo_disputes) (simp add: demo_disputed_def)
qed

theorem dispute_events_never_logged_witness:
  "\<exists>e. fst (contestDefault demo_dispute_env demo_dispute_env demo_dispute_env ''7'' (Some ''wrong ledger'') (Some ''GA'') demo_contested) = Inl e"
  using dispute_events_never_logged [OF demo_contested_reach(2)] by blast

theorem contest_half_applied_witness:
  "length (disputes (((\<lambda>t. snd (contestDefault demo_dispute_env demo_dispute_env demo_dispute_env ''7'' (Some ''wrong ledger'')
     (Some ''GA'') t)) ^^ 3) demo_defaulted)) = 3"
proof -
  have "js_BigInt ''7'' = Some 7" "js_trim ''wrong ledger'' = ''wrong ledger''" by code_simp+
  then show ?thesis
    using contest_half_applied [where ?E1.0 = demo_dispute_env and ?E2.0 = demo_dispute_env and ?E3.0 = demo_dispute_env and n = 3 and
        loanId = "''7''" and l = 7 and s = demo_defaulted and why = "''wrong ledger''" and user = "''GA''"]
    by (simp add: demo_dispute_env_def demo_defaulted_def demo_default_def exists_event_def)
qed

theorem decisions_overwrite_witness:
  "\<exists>s d. dispute_reach s \<and> d \<in> set (disputes s) \<and> dispute_status d = Rejected \<and> dispute_note d = Some ''checked''"
proof -
  have p: "db_up demo_dispute_env" "''confirm'' \<in> {''confirm'', ''reverse''}" "5 \<le> length ''confirmed''"
      "0 = length (requests demo_contested)" by (simp_all add: demo_dispute_env_def demo_disputes)
  obtain s2 d2 where "dispute_reach s2" "d2 \<in> set (disputes s2)" "dispute_status d2 = Rejected"
      "dispute_note d2 = env_set (Some ''checked'')"
    using decisions_overwrite [OF demo_contested_reach(2) demo_open_dispute p, of None "Some ''checked''"] by (elim exE conjE)
  then show ?thesis by (auto simp: env_set_def)
qed

end
