(* ===== verification/Remittance.thy ===== *)
theory Remittance
  imports Complex_Main Notifications
begin

text \<open>
  Remittances: \<open>src/backend/src/services/remittanceService.ts\<close> (creation, reading, change of status), the
  validation of an address (\<open>src/backend/src/utils/stellar.ts\<close>) and of a signed envelope
  (\<open>src/backend/src/utils/stellarEnvelope.ts\<close>), \<open>submitSignedTx\<close> of \<open>sorobanService.ts\<close>, and the
  handlers of \<open>src/backend/src/controllers/remittanceController.ts\<close>. A submission is a small
  machine: each of its steps ends where the handler waits for the database, the network or the
  notification, so submissions interleave. The Stellar SDK and the network are parameters of a step.
\<close>

section \<open>State\<close>

datatype rm_status = Pending | Processing | Completed | Failed

record remittance =
  rm_id :: string
  sender_id :: string
  recipient_address :: string
  rm_amount :: rat
  from_currency :: string
  to_currency :: string
  rm_memo :: "string option"
  rm_status :: rm_status
  transaction_hash :: "string option"
  rm_xdr :: string
  rm_error :: "string option"

text \<open>What the network has confirmed: the hash, the envelope and the submission that sent it.\<close>

datatype sub_pc =
    Loading
  | Marking
  | Sending
  | Refused string
  | Confirmed string
  | Notifying string rat string
  | Recovering http_error
  | Replied "http_error + string"

record submission =
  sub_remittance :: string
  sub_user :: string
  sub_envelope :: string
  sub_pc :: sub_pc

record remit_sys =
  remittances :: "remittance list"
  submissions :: "submission list"
  confirmations :: "(string \<times> nat) list"
  notifs :: notif_sys

section \<open>Creation\<close>

text \<open>\<open>/^G[A-Z2-7]{55}$/\<close>; the other two tests of the function follow from it.\<close>

definition base32_char :: "char \<Rightarrow> bool" where
  "base32_char c \<longleftrightarrow> (let n = of_char c :: nat in (65 \<le> n \<and> n \<le> 90) \<or> (50 \<le> n \<and> n \<le> 55))"

definition isValidStellarAddress :: "string \<Rightarrow> bool" where
  "isValidStellarAddress a \<longleftrightarrow> length a = 56 \<and> hd a = CHR ''G'' \<and> list_all base32_char (tl a)"

datatype asset = Native | Issued string string

record remit_env =
  STELLAR_USDC_ISSUER :: "string option"
  STELLAR_EURC_ISSUER :: "string option"
  STELLAR_PHP_ISSUER :: "string option"

text \<open>\<open>toUpperCase\<close> on Latin-1, save for the two letters whose upper case is outside of it.\<close>

definition js_upper :: "string \<Rightarrow> string" where
  "js_upper s =
     concat (map (\<lambda>c. let n = of_char c :: nat in
       if n = 223 then ''SS''
       else if (97 \<le> n \<and> n \<le> 122) \<or> (224 \<le> n \<and> n \<le> 254 \<and> n \<noteq> 247) then [char_of (n - 32)] else [c]) s)"

definition normalizeCurrency :: "string \<Rightarrow> string" where
  "normalizeCurrency currency = js_upper (js_trim currency)"

definition token_issuer :: "remit_env \<Rightarrow> string \<Rightarrow> string option" where
  "token_issuer E code =
     (if code = ''USDC'' then STELLAR_USDC_ISSUER E
      else if code = ''EURC'' then STELLAR_EURC_ISSUER E
      else if code = ''PHP'' then STELLAR_PHP_ISSUER E else None)"

definition getCurrencyAsset :: "remit_env \<Rightarrow> string \<Rightarrow> http_error + asset" where
  "getCurrencyAsset E currency =
     (let normalized = normalizeCurrency currency in
      if normalized = ''XLM'' then Inr Native
      else (case env_set (token_issuer E normalized) of
              None \<Rightarrow> Inl (badRequest (''Unsupported currency: '' @ currency) None None)
            | Some issuer \<Rightarrow>
                if \<not> isValidStellarAddress issuer
                then Inl (badRequest (''Unsupported currency: '' @ currency @
                       '' (issuer is not configured correctly)'') None None)
                else Inr (Issued normalized issuer)))"

record create_payload =
  pl_recipient :: string
  pl_amount :: rat
  pl_from :: string
  pl_to :: string
  pl_memo :: "string option"
  pl_sender :: string

text \<open>The account with its sequence number, the payment that the SDK builds from it, and whether the
  transaction of the database commits.\<close>

record create_world =
  getAccount :: "string \<Rightarrow> http_error + int"
  payment_xdr :: "int \<Rightarrow> string \<Rightarrow> string \<Rightarrow> asset \<Rightarrow> rat \<Rightarrow> http_error + string"
  commits :: bool
  fresh_uuid :: string

text \<open>\<open>numeric(20,7)\<close>: rounded half away from zero, an error beyond twenty digits.\<close>

definition numeric_20_7 :: "rat \<Rightarrow> rat option" where
  "numeric_20_7 q =
     (let n = \<lfloor>\<bar>q\<bar> * 10000000 + 1 / 2\<rfloor>
      in if n < 10 ^ 20 then Some (sgn q * of_int n / 10000000) else None)"

definition remittance_row :: "create_payload \<Rightarrow> string \<Rightarrow> string \<Rightarrow> rat \<Rightarrow> remittance" where
  "remittance_row p uuid xdr a =
     \<lparr>rm_id = uuid, sender_id = pl_sender p, recipient_address = pl_recipient p, rm_amount = a,
      from_currency = normalizeCurrency (pl_from p), to_currency = normalizeCurrency (pl_to p),
      rm_memo = env_set (pl_memo p), rm_status = Pending, transaction_hash = None, rm_xdr = xdr, rm_error = None\<rparr>"

definition insert_remittance ::
  "create_world \<Rightarrow> create_payload \<Rightarrow> string \<Rightarrow> remit_sys \<Rightarrow> (http_error + remittance) \<times> remit_sys" where
  "insert_remittance W p xdr s =
     (case numeric_20_7 (pl_amount p) of
        Some a \<Rightarrow>
          (let r = remittance_row p (fresh_uuid W) xdr a in
           if commits W \<and> length (from_currency r) \<le> 10 \<and> length (to_currency r) \<le> 10 \<and>
              (case rm_memo r of None \<Rightarrow> True | Some m \<Rightarrow> length m \<le> 28) \<and>
              rm_id r \<notin> rm_id ` set (remittances s)
           then (Inr r, s\<lparr>remittances := remittances s @ [r]\<rparr>)
           else (Inl (Thrown ''database error''), s))
      | None \<Rightarrow> (Inl (Thrown ''numeric field overflow''), s))"

text \<open>An error of the service that is not one of its own is hidden.\<close>

definition hidden :: "string \<Rightarrow> http_error \<Rightarrow> http_error" where
  "hidden msg e = (case e of Thrown m \<Rightarrow> internal msg None | AppError st m c f \<Rightarrow> e)"

definition service_create ::
  "remit_env \<Rightarrow> create_world \<Rightarrow> create_payload \<Rightarrow> remit_sys \<Rightarrow> (http_error + remittance) \<times> remit_sys" where
  "service_create E W p s =
     (if \<not> isValidStellarAddress (pl_recipient p)
      then (Inl (badRequest ''Invalid Stellar recipient address (must be 56 chars, start with G)'' None None), s)
      else if \<not> isValidStellarAddress (pl_sender p)
      then (Inl (badRequest ''Invalid Stellar sender address (must be 56 chars, start with G)'' None None), s)
      else (case getCurrencyAsset E (pl_from p) of
              Inl e \<Rightarrow> (Inl e, s)
            | Inr payment_asset \<Rightarrow>
                (case and_then (getAccount W (pl_sender p)) (\<lambda>acc.
                        payment_xdr W acc (pl_sender p) (pl_recipient p) payment_asset (pl_amount p)) of
                   Inl e \<Rightarrow> (Inl (hidden ''Failed to create remittance'' e), s)
                 | Inr xdr \<Rightarrow>
                     (case insert_remittance W p xdr s of
                        (Inl e, s') \<Rightarrow> (Inl (hidden ''Failed to create remittance'' e), s')
                      | (Inr r, s') \<Rightarrow> (Inr r, s')))))"

definition no_wallet :: http_error where
  "no_wallet = unauthorized ''Wallet address not found in request'' None"

definition createRemittance ::
  "remit_env \<Rightarrow> create_world \<Rightarrow> string option \<Rightarrow> create_payload \<Rightarrow> remit_sys \<Rightarrow>
     (http_error + remittance) \<times> remit_sys" where
  "createRemittance E W user body s =
     (case env_set user of
        None \<Rightarrow> (Inl no_wallet, s)
      | Some sender \<Rightarrow> service_create E W (body\<lparr>pl_sender := sender\<rparr>) s)"

section \<open>Reading and changing\<close>

definition find_remittance :: "string \<Rightarrow> remit_sys \<Rightarrow> remittance option" where
  "find_remittance i s = find (\<lambda>r. rm_id r = i) (remittances s)"

definition service_get :: "bool \<Rightarrow> string \<Rightarrow> remit_sys \<Rightarrow> http_error + remittance" where
  "service_get up i s =
     (if \<not> up then Inl (internal ''Failed to fetch remittance'' None)
      else (case find_remittance i s of
              None \<Rightarrow> Inl (notFound ''Remittance not found'' None None) | Some r \<Rightarrow> Inr r))"

definition getRemittance :: "bool \<Rightarrow> string option \<Rightarrow> string \<Rightarrow> remit_sys \<Rightarrow> http_error + remittance" where
  "getRemittance up user i s =
     (case env_set user of
        None \<Rightarrow> Inl no_wallet
      | Some sender \<Rightarrow>
          if i = [] then Inl (badRequest ''Remittance ID is required'' None None)
          else and_then (service_get up i s) (\<lambda>r.
            if sender_id r \<noteq> sender then Inl (forbidden ''You do not have access to this remittance'' None)
            else Inr r))"

definition set_status :: "string \<Rightarrow> rm_status \<Rightarrow> string option \<Rightarrow> string option \<Rightarrow> remittance \<Rightarrow> remittance" where
  "set_status i st h e r =
     (if rm_id r = i then r\<lparr>rm_status := st, transaction_hash := env_set h, rm_error := env_set e\<rparr> else r)"

definition updateRemittanceStatus ::
  "bool \<Rightarrow> string \<Rightarrow> rm_status \<Rightarrow> string option \<Rightarrow> string option \<Rightarrow> remit_sys \<Rightarrow>
     (http_error + remittance) \<times> remit_sys" where
  "updateRemittanceStatus up i st h e s =
     (if \<not> up then (Inl (internal ''Failed to update remittance'' None), s)
      else (case find_remittance i s of
              None \<Rightarrow> (Inl (notFound ''Remittance not found'' None None), s)
            | Some r \<Rightarrow> (Inr (set_status i st h e r),
                s\<lparr>remittances := map (set_status i st h e) (remittances s)\<rparr>)))"

section \<open>Submission\<close>

text \<open>The number of signatures of an envelope, \<open>None\<close> when the SDK cannot parse it.\<close>

definition parseAndValidateSignedEnvelope :: "(string \<Rightarrow> nat option) \<Rightarrow> string \<Rightarrow> http_error + nat" where
  "parseAndValidateSignedEnvelope signatures x =
     (case signatures x of
        None \<Rightarrow> Inl (badRequest ''Invalid signed XDR: unable to parse the transaction envelope'' None None)
      | Some n \<Rightarrow>
          if n = 0 then Inl (badRequest ''Signed XDR must contain at least one signature'' None None) else Inr n)"

text \<open>\<open>submitSignedTx\<close>: what \<open>sendTransaction\<close> answers (hash and status) and what polling for the hash
  gives; either may throw.\<close>

record network =
  send_answer :: "http_error + (string option \<times> string)"
  poll_answer :: "http_error + string"

definition submitSignedTx :: "network \<Rightarrow> http_error + (string \<times> string)" where
  "submitSignedTx N =
     and_then (send_answer N) (\<lambda>(h, st).
       case env_set h of
         None \<Rightarrow> Inl (internal ''Transaction submission returned no hash'' None)
       | Some txHash \<Rightarrow>
           if st = ''ERROR'' \<or> st = ''TRY_AGAIN_LATER'' then Inr (txHash, st)
           else and_then (poll_answer N) (\<lambda>st'. Inr (txHash, st')))"

record step_world =
  up :: bool
  signatures :: "string \<Rightarrow> nat option"
  network_of :: network
  number_text :: "rat \<Rightarrow> string"
  notif_world :: notif_env

definition error_text :: "http_error \<Rightarrow> string" where
  "error_text e = (case e of Thrown m \<Rightarrow> m | AppError st m c f \<Rightarrow> m)"

definition isClientError :: "http_error \<Rightarrow> bool" where
  "isClientError e = (case e of Thrown m \<Rightarrow> False | AppError st m c f \<Rightarrow> 400 \<le> st \<and> st < 500)"

text \<open>The \<open>catch\<close> block: a client error is only passed on.\<close>

definition caught :: "http_error \<Rightarrow> sub_pc" where
  "caught e = (if isClientError e then Replied (Inl e) else Recovering e)"

definition not_confirmed :: "string \<Rightarrow> string" where
  "not_confirmed st = ''Transaction was not confirmed by the Stellar network (status: '' @ st @ '')''"

definition check_submission :: "step_world \<Rightarrow> submission \<Rightarrow> remit_sys \<Rightarrow> http_error + remittance" where
  "check_submission W sub s =
     and_then (service_get (up W) (sub_remittance sub) s) (\<lambda>r.
       if sender_id r \<noteq> sub_user sub then Inl (forbidden ''You do not have access to this remittance'' None)
       else if rm_status r \<noteq> Pending then Inl (badRequest ''Remittance has already been submitted'' None None)
       else and_then (parseAndValidateSignedEnvelope (signatures W) (sub_envelope sub)) (\<lambda>n. Inr r))"

definition sent_message :: "step_world \<Rightarrow> rat \<Rightarrow> string \<Rightarrow> string \<Rightarrow> string" where
  "sent_message W a cur h =
     ''Your remittance of '' @ number_text W a @ '' '' @ cur @ '' was submitted successfully. Transaction: '' @ h"

text \<open>What the network itself keeps of an envelope, whatever the handler makes of the answer.\<close>

definition network_settles :: "string \<Rightarrow> string \<Rightarrow> nat \<Rightarrow> remit_sys \<Rightarrow> remit_sys" where
  [simp]: "network_settles st h k s =
     (if st = ''SUCCESS'' then s\<lparr>confirmations := confirmations s @ [(h, k)]\<rparr> else s)"

text \<open>One step of submission \<open>k\<close>: the new control point and the new state.\<close>

definition sub_step :: "step_world \<Rightarrow> nat \<Rightarrow> submission \<Rightarrow> remit_sys \<Rightarrow> sub_pc \<times> remit_sys" where
  "sub_step W k sub s =
     (case sub_pc sub of
        Loading \<Rightarrow> (case check_submission W sub s of Inl e \<Rightarrow> (caught e, s) | Inr r \<Rightarrow> (Marking, s))
      | Marking \<Rightarrow>
          (case updateRemittanceStatus (up W) (sub_remittance sub) Processing None None s of
             (Inl e, s') \<Rightarrow> (caught e, s') | (Inr r, s') \<Rightarrow> (Sending, s'))
      | Sending \<Rightarrow>
          (case submitSignedTx (network_of W) of
             Inl e \<Rightarrow> (caught e, s)
           | Inr (h, st) \<Rightarrow>
               (if st = ''SUCCESS'' then Confirmed h else Refused (not_confirmed st), network_settles st h k s))
      | Refused m \<Rightarrow>
          (case updateRemittanceStatus (up W) (sub_remittance sub) Failed None (Some m) s of
             (Inl e, s') \<Rightarrow> (caught e, s') | (Inr r, s') \<Rightarrow> (caught (internal m None), s'))
      | Confirmed h \<Rightarrow>
          (case updateRemittanceStatus (up W) (sub_remittance sub) Completed (Some h) None s of
             (Inl e, s') \<Rightarrow> (caught e, s') | (Inr r, s') \<Rightarrow> (Notifying h (rm_amount r) (from_currency r), s'))
      | Notifying h a cur \<Rightarrow>
          (case createNotification (notif_world W) (sub_user sub) ''repayment_confirmed'' ''Remittance Sent''
                  (sent_message W a cur h) None (Some (''/remittances/'' @ sub_remittance sub)) (notifs s) of
             (Inl e, n') \<Rightarrow> (caught e, s\<lparr>notifs := n'\<rparr>) | (Inr n, n') \<Rightarrow> (Replied (Inr h), s\<lparr>notifs := n'\<rparr>))
      | Recovering e \<Rightarrow>
          (case updateRemittanceStatus (up W) (sub_remittance sub) Failed None (Some (error_text e)) s of
             (Inl e', s') \<Rightarrow> (Replied (Inl e'), s') | (Inr r, s') \<Rightarrow> (Replied (Inl e), s'))
      | Replied r \<Rightarrow> (Replied r, s))"

definition advance :: "step_world \<Rightarrow> nat \<Rightarrow> remit_sys \<Rightarrow> remit_sys" where
  "advance W k s =
     (if k < length (submissions s)
      then (case sub_step W k (submissions s ! k) s of
              (pc, s') \<Rightarrow> s'\<lparr>submissions := (submissions s)[k := (submissions s ! k)\<lparr>sub_pc := pc\<rparr>]\<rparr>)
      else s)"

text \<open>The head of the handler: a request without wallet, envelope or id never becomes a submission.\<close>

definition submitRemittanceTransaction ::
  "string option \<Rightarrow> string option \<Rightarrow> string \<Rightarrow> remit_sys \<Rightarrow> http_error + remit_sys" where
  "submitRemittanceTransaction user signedXdr i s =
     (case env_set user of
        None \<Rightarrow> Inl no_wallet
      | Some u \<Rightarrow>
          (case env_set signedXdr of
             None \<Rightarrow> Inl (badRequest ''Signed XDR is required'' None None)
           | Some x \<Rightarrow>
               if i = [] then Inl (badRequest ''Remittance ID is required'' None None)
               else Inr (s\<lparr>submissions := submissions s @
                      [\<lparr>sub_remittance = i, sub_user = u, sub_envelope = x, sub_pc = Loading\<rparr>]\<rparr>)))"

section \<open>Reachable states\<close>

inductive remit_step :: "remit_env \<Rightarrow> (string \<Rightarrow> nat option) \<Rightarrow> remit_sys \<Rightarrow> remit_sys \<Rightarrow> bool"
  for E :: remit_env and sigs :: "string \<Rightarrow> nat option" where
  create: "remit_step E sigs s (snd (createRemittance E W user body s))"
| submit: "submitRemittanceTransaction user x i s = Inr s' \<Longrightarrow> remit_step E sigs s s'"
| move: "signatures W = sigs \<Longrightarrow> remit_step E sigs s (advance W k s)"

inductive remit_reach :: "remit_env \<Rightarrow> (string \<Rightarrow> nat option) \<Rightarrow> remit_sys \<Rightarrow> bool"
  for E :: remit_env and sigs :: "string \<Rightarrow> nat option" where
  start: "remittances s = [] \<Longrightarrow> submissions s = [] \<Longrightarrow> confirmations s = [] \<Longrightarrow> remit_reach E sigs s"
| step: "remit_reach E sigs s \<Longrightarrow> remit_step E sigs s s' \<Longrightarrow> remit_reach E sigs s'"

section \<open>Lemmas\<close>

definition signed :: "(string \<Rightarrow> nat option) \<Rightarrow> string \<Rightarrow> bool" where
  "signed sigs x \<longleftrightarrow> (case sigs x of None \<Rightarrow> False | Some n \<Rightarrow> 0 < n)"

text \<open>A submission that has passed the checks: signed, and by the sender of its remittance.\<close>

definition passed :: "(string \<Rightarrow> nat option) \<Rightarrow> remittance list \<Rightarrow> submission \<Rightarrow> bool" where
  "passed sigs rs sub \<longleftrightarrow> signed sigs (sub_envelope sub) \<and>
     (\<exists>r \<in> set rs. rm_id r = sub_remittance sub \<and> sender_id r = sub_user sub)"

definition under_way :: "sub_pc \<Rightarrow> bool" where
  "under_way pc \<longleftrightarrow> (case pc of Loading \<Rightarrow> False | Recovering e \<Rightarrow> False | Replied r \<Rightarrow> False | _ \<Rightarrow> True)"

definition confirmed_hash :: "sub_pc \<Rightarrow> string option" where
  "confirmed_hash pc = (case pc of Confirmed h \<Rightarrow> Some h | Notifying h a c \<Rightarrow> Some h | _ \<Rightarrow> None)"

definition backed :: "remit_sys \<Rightarrow> remittance \<Rightarrow> bool" where
  "backed s r \<longleftrightarrow>
     (case transaction_hash r of
        None \<Rightarrow> rm_status r \<noteq> Completed
      | Some h \<Rightarrow> rm_status r = Completed \<and>
          (\<exists>k < length (submissions s). (h, k) \<in> set (confirmations s) \<and>
             sub_remittance (submissions s ! k) = rm_id r \<and> sub_user (submissions s ! k) = sender_id r))"

definition sub_ok :: "(string \<Rightarrow> nat option) \<Rightarrow> remit_sys \<Rightarrow> nat \<Rightarrow> sub_pc \<Rightarrow> bool" where
  "sub_ok sigs s k pc \<longleftrightarrow>
     (under_way pc \<longrightarrow> passed sigs (remittances s) (submissions s ! k)) \<and>
     (\<forall>h. confirmed_hash pc = Some h \<longrightarrow> (h, k) \<in> set (confirmations s))"

definition remit_inv :: "(string \<Rightarrow> nat option) \<Rightarrow> remit_sys \<Rightarrow> bool" where
  "remit_inv sigs s \<longleftrightarrow>
     distinct (map rm_id (remittances s)) \<and>
     (\<forall>r \<in> set (remittances s). backed s r) \<and>
     (\<forall>(h, k) \<in> set (confirmations s). h \<noteq> [] \<and> k < length (submissions s) \<and>
        signed sigs (sub_envelope (submissions s ! k))) \<and>
     (\<forall>k < length (submissions s). sub_ok sigs s k (sub_pc (submissions s ! k)))"

lemma set_status_simps [simp]:
  "rm_id (set_status i st h e r) = rm_id r" "sender_id (set_status i st h e r) = sender_id r"
  by (simp_all add: set_status_def)

lemma passed_status [simp]: "passed sigs (map (set_status i st h e) rs) sub = passed sigs rs sub"
  by (simp add: passed_def)

lemma find_remittance_Some: "find_remittance i s = Some r \<Longrightarrow> r \<in> set (remittances s) \<and> rm_id r = i"
  by (auto simp: find_remittance_def find_Some_iff)

lemma find_remittance_mem:
  assumes "distinct (map rm_id (remittances s))" "r \<in> set (remittances s)"
  shows "find_remittance (rm_id r) s = Some r"
proof (cases "find_remittance (rm_id r) s")
  case None
  then show ?thesis using assms(2) by (auto simp: find_remittance_def find_None_iff)
next
  case (Some q)
  then have "q \<in> set (remittances s)" "rm_id q = rm_id r" using find_remittance_Some by blast+
  then have "q = r" using assms by (auto simp: distinct_map inj_on_def)
  with Some show ?thesis by simp
qed

text \<open>An update leaves everything but the status of its remittance; what it sets has to be backed.\<close>

lemma update_frame:
  assumes "updateRemittanceStatus u i st h e s = (res, s')"
  shows "submissions s' = submissions s" "confirmations s' = confirmations s" "notifs s' = notifs s"
    "map rm_id (remittances s') = map rm_id (remittances s)"
    "passed sigs (remittances s') sub = passed sigs (remittances s) sub"
  using assms by (auto simp: updateRemittanceStatus_def comp_def split: if_splits option.splits)

lemma update_backed:
  assumes "updateRemittanceStatus u i st h e s = (res, s')"
    and "\<forall>r \<in> set (remittances s). backed s r"
    and "\<And>r. r \<in> set (remittances s) \<Longrightarrow> rm_id r = i \<Longrightarrow> backed s (set_status i st h e r)"
  shows "\<forall>r \<in> set (remittances s'). backed s r"
  using assms by (auto simp: updateRemittanceStatus_def set_status_def split: if_splits option.splits)

lemma backed_open: "st \<noteq> Completed \<Longrightarrow> backed s r \<Longrightarrow> backed s (set_status i st None e r)"
  by (simp add: backed_def set_status_def env_set_def)

lemma backed_cong:
  "backed s r \<Longrightarrow> confirmations s' = confirmations s @ c \<Longrightarrow>
     map sub_remittance (submissions s') = map sub_remittance (submissions s) @ xs \<Longrightarrow>
     map sub_user (submissions s') = map sub_user (submissions s) @ ys \<Longrightarrow> backed s' r"
proof -
  assume b: "backed s r" and c: "confirmations s' = confirmations s @ c"
    and x: "map sub_remittance (submissions s') = map sub_remittance (submissions s) @ xs"
    and y: "map sub_user (submissions s') = map sub_user (submissions s) @ ys"
  have l: "length (submissions s) \<le> length (submissions s')"
    using arg_cong [OF x, of length] by simp
  have "sub_remittance (submissions s' ! k) = sub_remittance (submissions s ! k)"
    "sub_user (submissions s' ! k) = sub_user (submissions s ! k)" if "k < length (submissions s)" for k
    using that l arg_cong [OF x, of "\<lambda>zs. zs ! k"] arg_cong [OF y, of "\<lambda>zs. zs ! k"]
    by (simp_all add: nth_append)
  then show ?thesis
    using b c l unfolding backed_def by (auto split: option.splits intro: less_le_trans)
qed

text \<open>One step of a submission keeps what the invariant says of the table and of the submission.\<close>

definition step_result :: "(string \<Rightarrow> nat option) \<Rightarrow> nat \<Rightarrow> remit_sys \<Rightarrow> sub_pc \<times> remit_sys \<Rightarrow> bool" where
  "step_result sigs k s res \<longleftrightarrow>
     (case res of (pc, s') \<Rightarrow>
        submissions s' = submissions s \<and>
        (\<exists>c. confirmations s' = confirmations s @ c \<and> (\<forall>(h, j) \<in> set c. h \<noteq> [] \<and> j = k \<and> under_way pc)) \<and>
        map rm_id (remittances s') = map rm_id (remittances s) \<and>
        (\<forall>sub. passed sigs (remittances s') sub = passed sigs (remittances s) sub) \<and>
        (\<forall>r \<in> set (remittances s'). backed s' r) \<and> sub_ok sigs s' k pc)"

lemma caught_ok [simp]: "sub_ok sigs s k (caught e)"
  by (simp add: sub_ok_def caught_def under_way_def confirmed_hash_def)

lemma backed_same: "submissions s' = submissions s \<Longrightarrow> confirmations s' = confirmations s \<Longrightarrow> backed s' r = backed s r"
  by (simp add: backed_def split: option.split)

lemma update_step:
  assumes "updateRemittanceStatus u i st h e s = (res, s')"
    and "\<forall>r \<in> set (remittances s). backed s r"
    and "\<And>r. r \<in> set (remittances s) \<Longrightarrow> rm_id r = i \<Longrightarrow> backed s (set_status i st h e r)"
    and "sub_ok sigs s' k pc"
  shows "step_result sigs k s (pc, s')"
proof -
  note f = update_frame [OF assms(1)]
  have "\<forall>r \<in> set (remittances s'). backed s r" by (rule update_backed [OF assms(1-3)])
  then have "\<forall>r \<in> set (remittances s'). backed s' r" using backed_same [OF f(1,2)] by simp
  then show ?thesis unfolding step_result_def using f assms(4) by simp
qed

lemma submitted_hash: "submitSignedTx N = Inr (h, st) \<Longrightarrow> h \<noteq> []"
  by (auto simp: submitSignedTx_def and_then_eq_Inr env_set_def split: option.splits if_splits)

lemma check_passed:
  assumes "check_submission W sub s = Inr r"
  shows "passed (signatures W) (remittances s) sub"
proof -
  from assms have g: "service_get (up W) (sub_remittance sub) s = Inr r" "sender_id r = sub_user sub"
    "signed (signatures W) (sub_envelope sub)"
    by (auto simp: check_submission_def and_then_eq_Inr parseAndValidateSignedEnvelope_def signed_def
        split: if_splits option.splits)
  then have "find_remittance (sub_remittance sub) s = Some r"
    by (auto simp: service_get_def split: if_splits option.splits)
  then show ?thesis using find_remittance_Some g unfolding passed_def by blast
qed

lemma step_unchanged:
  assumes "\<forall>r \<in> set (remittances s). backed s r" "sub_ok sigs s k pc"
  shows "step_result sigs k s (pc, s)" "step_result sigs k s (pc, s\<lparr>notifs := n\<rparr>)"
proof -
  have b: "backed (s\<lparr>notifs := n\<rparr>) r = backed s r" for r by (rule backed_same) simp_all
  show "step_result sigs k s (pc, s)" "step_result sigs k s (pc, s\<lparr>notifs := n\<rparr>)"
    using assms b by (simp_all add: step_result_def sub_ok_def)
qed

lemma pc_ok_simps [simp]:
  "sub_ok sigs s k (Recovering e)" "sub_ok sigs s k (Replied res)" "sub_ok sigs s k Loading"
  by (simp_all add: sub_ok_def under_way_def confirmed_hash_def)

lemma sub_step_result:
  assumes inv: "remit_inv sigs s" and k: "k < length (submissions s)" and W: "signatures W = sigs"
  shows "step_result sigs k s (sub_step W k (submissions s ! k) s)"
proof -
  let ?sub = "submissions s ! k"
  let ?i = "sub_remittance ?sub"
  have b: "\<forall>r \<in> set (remittances s). backed s r" using inv unfolding remit_inv_def by blast
  have ok: "sub_ok sigs s k (sub_pc ?sub)" using inv k unfolding remit_inv_def by blast
  have op: "backed s (set_status ?i st None e r)" if "r \<in> set (remittances s)" "st \<noteq> Completed" for st e r
    using backed_open that b by blast
  have upd: "step_result sigs k s (pc, s')"
    if "updateRemittanceStatus u ?i st None e s = (res, s')" "st \<noteq> Completed" "sub_ok sigs s' k pc" for u st e res s' pc
    using update_step [OF that(1) b op that(3)] that(2) by blast
  have same: "passed sigs (remittances s') ?sub" if "updateRemittanceStatus u ?i st h e s = (res, s')"
      "under_way (sub_pc ?sub)" for u st h e res s'
    using update_frame(5) [OF that(1)] ok that(2) unfolding sub_ok_def by blast
  show ?thesis
  proof (cases "sub_pc ?sub")
    case Loading
    show ?thesis
    proof (cases "check_submission W ?sub s")
      case (Inr r)
      then have "sub_ok sigs s k Marking"
        using check_passed [OF Inr] W by (simp add: sub_ok_def confirmed_hash_def)
      then show ?thesis using Loading Inr step_unchanged [OF b] by (simp add: sub_step_def)
    qed (use Loading step_unchanged [OF b] in \<open>simp add: sub_step_def\<close>)
  next
    case Marking
    obtain res s' where u: "updateRemittanceStatus (up W) ?i Processing None None s = (res, s')" by fastforce
    have "sub_ok sigs s' k Sending"
      using same [OF u] update_frame(1) [OF u] Marking by (simp add: sub_ok_def under_way_def confirmed_hash_def)
    then show ?thesis using Marking u upd [OF u] by (simp add: sub_step_def split: sum.split)
  next
    case Sending
    show ?thesis
    proof (cases "submitSignedTx (network_of W)")
      case (Inl e)
      then show ?thesis using Sending step_unchanged [OF b] by (simp add: sub_step_def)
    next
      case (Inr p)
      obtain h st where p: "p = (h, st)" by (cases p)
      have pass: "passed sigs (remittances s) ?sub" using ok Sending by (simp add: sub_ok_def under_way_def)
      show ?thesis
      proof (cases "st = ''SUCCESS''")
        case True
        let ?s' = "s\<lparr>confirmations := confirmations s @ [(h, k)]\<rparr>"
        have "backed ?s' r" if "r \<in> set (remittances s)" for r
          using backed_cong [of s r ?s' "[(h, k)]" "[]" "[]"] b that by simp
        moreover have "sub_ok sigs ?s' k (Confirmed h)" using pass by (simp add: sub_ok_def confirmed_hash_def)
        ultimately have "step_result sigs k s (Confirmed h, ?s')"
          using submitted_hash Inr p by (simp add: step_result_def under_way_def)
        then show ?thesis using Sending Inr p True by (simp add: sub_step_def)
      next
        case False
        then have "sub_ok sigs s k (Refused (not_confirmed st))" using pass by (simp add: sub_ok_def confirmed_hash_def)
        then show ?thesis using Sending Inr p False step_unchanged [OF b] by (simp add: sub_step_def)
      qed
    qed
  next
    case (Refused m)
    obtain res s' where u: "updateRemittanceStatus (up W) ?i Failed None (Some m) s = (res, s')" by fastforce
    then show ?thesis using Refused upd [OF u] by (simp add: sub_step_def split: sum.split)
  next
    case (Confirmed h)
    then have c: "(h, k) \<in> set (confirmations s)" and pass: "passed sigs (remittances s) ?sub"
      using ok by (simp_all add: sub_ok_def under_way_def confirmed_hash_def)
    obtain res s' where u: "updateRemittanceStatus (up W) ?i Completed (Some h) None s = (res, s')" by fastforce
    have "backed s (set_status ?i Completed (Some h) None r)" if r: "r \<in> set (remittances s)" "rm_id r = ?i" for r
    proof -
      obtain q where "q \<in> set (remittances s)" "rm_id q = ?i" "sender_id q = sub_user ?sub"
        using pass unfolding passed_def by blast
      then have "sub_user ?sub = sender_id r"
        using inv r unfolding remit_inv_def by (auto simp: distinct_map inj_on_def)
      moreover have "h \<noteq> []" using inv c unfolding remit_inv_def by blast
      ultimately show ?thesis using k c r(2) by (auto simp: backed_def set_status_def env_set_def)
    qed
    from update_step [OF u b this]
    have "step_result sigs k s (pc, s')" if "sub_ok sigs s' k pc" for pc using that by blast
    moreover have "sub_ok sigs s' k (Notifying h a cur)" for a cur
      using same [OF u] update_frame(1,2) [OF u] c Confirmed by (simp add: sub_ok_def under_way_def confirmed_hash_def)
    ultimately show ?thesis using Confirmed u by (simp add: sub_step_def split: sum.split)
  next
    case (Notifying h a cur)
    then show ?thesis using step_unchanged(2) [OF b] by (simp add: sub_step_def split: prod.split sum.split)
  next
    case (Recovering e)
    obtain res s' where u: "updateRemittanceStatus (up W) ?i Failed None (Some (error_text e)) s = (res, s')" by fastforce
    then show ?thesis using Recovering upd [OF u] by (simp add: sub_step_def split: sum.split)
  next
    case (Replied r)
    then show ?thesis using step_unchanged [OF b] by (simp add: sub_step_def)
  qed
qed

lemma advance_inv:
  assumes inv: "remit_inv sigs s" and W: "signatures W = sigs"
  shows "remit_inv sigs (advance W k s)"
proof (cases "k < length (submissions s)")
  case k: True
  obtain pc s' where st: "sub_step W k (submissions s ! k) s = (pc, s')" by fastforce
  let ?sub = "submissions s ! k"
  let ?s = "s'\<lparr>submissions := (submissions s)[k := ?sub\<lparr>sub_pc := pc\<rparr>]\<rparr>"
  have adv: "advance W k s = ?s" using k st by (simp add: advance_def)
  from sub_step_result [OF inv k W] obtain c where
    f: "submissions s' = submissions s" "confirmations s' = confirmations s @ c"
      "\<forall>(h, j) \<in> set c. h \<noteq> [] \<and> j = k \<and> under_way pc"
      "map rm_id (remittances s') = map rm_id (remittances s)"
      "\<forall>sub. passed sigs (remittances s') sub = passed sigs (remittances s) sub"
      "\<forall>r \<in> set (remittances s'). backed s' r" "sub_ok sigs s' k pc"
    unfolding st step_result_def by auto
  have sel: "sub_remittance (submissions ?s ! j) = sub_remittance (submissions s ! j)"
    "sub_user (submissions ?s ! j) = sub_user (submissions s ! j)"
    "sub_envelope (submissions ?s ! j) = sub_envelope (submissions s ! j)" if "j < length (submissions s)" for j
    using that k by (simp_all add: nth_list_update)
  have bk: "backed ?s r" if "r \<in> set (remittances s')" for r
    by (rule backed_cong [of s' r _ "[]" "[]" "[]"]) (use f(1,6) that k in \<open>simp_all add: map_update list_update_same_conv\<close>)
  have pass: "passed sigs (remittances ?s) (submissions ?s ! j) = passed sigs (remittances s) (submissions s ! j)"
    if "j < length (submissions s)" for j
    using f(5) sel [OF that] by (simp add: passed_def)
  have subs: "sub_ok sigs ?s j (sub_pc (submissions ?s ! j))" if j: "j < length (submissions s)" for j
  proof (cases "j = k")
    case True
    then show ?thesis
      using f(1,5,7) pass [OF j] j by (simp add: sub_ok_def)
  next
    case False
    then have "sub_pc (submissions ?s ! j) = sub_pc (submissions s ! j)" by simp
    moreover have "sub_ok sigs s j (sub_pc (submissions s ! j))" using inv j unfolding remit_inv_def by blast
    ultimately show ?thesis using pass [OF j] f(2) unfolding sub_ok_def by auto
  qed
  have conf: "h \<noteq> [] \<and> j < length (submissions s) \<and> signed sigs (sub_envelope (submissions s ! j))"
    if hj: "(h, j) \<in> set (confirmations s @ c)" for h j
  proof (cases "(h, j) \<in> set c")
    case True
    then have "h \<noteq> []" "j = k" "under_way pc" using f(3) by auto
    then show ?thesis using f(1,5,7) k by (auto simp: sub_ok_def passed_def)
  next
    case False
    then show ?thesis using hj inv unfolding remit_inv_def by auto
  qed
  have "h \<noteq> [] \<and> j < length (submissions ?s) \<and> signed sigs (sub_envelope (submissions ?s ! j))"
    if "(h, j) \<in> set (confirmations ?s)" for h j
    using conf [of h j] sel(3) [of j] that f(2) by simp
  moreover have "distinct (map rm_id (remittances ?s))" using inv f(4) by (simp add: remit_inv_def)
  ultimately show ?thesis
    unfolding adv remit_inv_def using bk subs by (simp del: nth_list_update) blast
qed (use inv in \<open>simp add: advance_def\<close>)

lemma create_remittance_inv:
  assumes "remit_inv sigs s"
  shows "remit_inv sigs (snd (createRemittance E W user body s))"
proof -
  have new: "remit_inv sigs (s\<lparr>remittances := remittances s @ [remittance_row p u x a]\<rparr>)"
    if "u \<notin> rm_id ` set (remittances s)" for p u x a
  proof -
    let ?s = "s\<lparr>remittances := remittances s @ [remittance_row p u x a]\<rparr>"
    have "backed ?s r" if "r \<in> set (remittances ?s)" for r
    proof (cases "r \<in> set (remittances s)")
      case True
      then have "backed s r" using assms unfolding remit_inv_def by blast
      then show ?thesis by (simp add: backed_def split: option.splits)
    next
      case False
      then show ?thesis using that by (simp add: backed_def remittance_row_def)
    qed
    moreover have "sub_ok sigs ?s k pc" if "sub_ok sigs s k pc" for k pc
      using that by (auto simp: sub_ok_def passed_def)
    ultimately show ?thesis
      using assms that unfolding remit_inv_def by (auto simp: remittance_row_def)
  qed
  have "remit_inv sigs (snd (insert_remittance W p x s))" for p x
    using new assms by (auto simp: insert_remittance_def Let_def remittance_row_def split: option.split)
  then have "insert_remittance W p x s = (res, s') \<Longrightarrow> remit_inv sigs s'" for p x res s' by (metis snd_conv)
  then show ?thesis
    using assms by (auto simp: createRemittance_def service_create_def split: option.split sum.split prod.split)
qed

lemma submit_shape:
  assumes "submitRemittanceTransaction user x i s = Inr s'"
  obtains u y where "s' = s\<lparr>submissions := submissions s @
    [\<lparr>sub_remittance = i, sub_user = u, sub_envelope = y, sub_pc = Loading\<rparr>]\<rparr>"
  using assms that by (auto simp: submitRemittanceTransaction_def split: option.splits if_splits)

lemma submit_inv:
  assumes inv: "remit_inv sigs s" and "submitRemittanceTransaction user x i s = Inr s'"
  shows "remit_inv sigs s'"
  using assms(2)
proof (rule submit_shape)
  fix u y
  let ?sub = "\<lparr>sub_remittance = i, sub_user = u, sub_envelope = y, sub_pc = Loading\<rparr>"
  assume s': "s' = s\<lparr>submissions := submissions s @ [?sub]\<rparr>"
  have "backed s' r" if "r \<in> set (remittances s)" for r
    by (rule backed_cong [of s r _ "[]" "[i]" "[u]"]) (use inv that in \<open>simp_all add: s' remit_inv_def\<close>)
  moreover have "sub_ok sigs s' k (sub_pc (submissions s' ! k))" if "k < length (submissions s')" for k
  proof (cases "k < length (submissions s)")
    case True
    then have "sub_ok sigs s k (sub_pc (submissions s ! k))" using inv unfolding remit_inv_def by blast
    then show ?thesis using True by (simp add: s' sub_ok_def nth_append)
  next
    case False
    then have "k = length (submissions s)" using that by (simp add: s')
    then show ?thesis by (simp add: s')
  qed
  moreover have "h \<noteq> [] \<and> k < length (submissions s') \<and> signed sigs (sub_envelope (submissions s' ! k))"
    if "(h, k) \<in> set (confirmations s')" for h k
    using that inv unfolding remit_inv_def s' by (auto simp: nth_append)
  ultimately show ?thesis using inv unfolding remit_inv_def by (simp add: s') blast
qed

lemma remit_step_inv: "remit_step E sigs s s' \<Longrightarrow> remit_inv sigs s \<Longrightarrow> remit_inv sigs s'"
  by (induction rule: remit_step.induct) (auto intro: create_remittance_inv submit_inv advance_inv)

lemma remit_reach_inv: "remit_reach E sigs s \<Longrightarrow> remit_inv sigs s"
proof (induction rule: remit_reach.induct)
  case (start s)
  then show ?case by (simp add: remit_inv_def)
qed (use remit_step_inv in blast)

subsection \<open>A submission on its own\<close>

lemma find_set_status [simp]:
  "find (\<lambda>r. rm_id r = i) (map (set_status i' st h e) rs) =
     map_option (set_status i' st h e) (find (\<lambda>r. rm_id r = i) rs)"
  by (induction rs) auto

lemma set_status_twice [simp]:
  "set_status i st h e (set_status i st' h' e' r) = set_status i st h e r"
  "set_status i st h e \<circ> set_status i st' h' e' = set_status i st h e"
  by (auto simp: set_status_def)

lemma set_status_fields [simp]:
  "rm_id r = i \<Longrightarrow> rm_status (set_status i st h e r) = st"
  "rm_id r = i \<Longrightarrow> transaction_hash (set_status i st h e r) = env_set h"
  "rm_amount (set_status i st h e r) = rm_amount r" "from_currency (set_status i st h e r) = from_currency r"
  by (simp_all add: set_status_def)

lemma advance_new:
  assumes "submissions s = subs @ [sub]" "sub_step W (length subs) sub s = (pc, s')"
  shows "advance W (length subs) s = s'\<lparr>submissions := subs @ [sub\<lparr>sub_pc := pc\<rparr>]\<rparr>"
  using assms by (simp add: advance_def)

lemma update_found:
  "find (\<lambda>r. rm_id r = i) (remittances s) = Some r \<Longrightarrow>
     updateRemittanceStatus True i st h e s =
       (Inr (set_status i st h e r), s\<lparr>remittances := map (set_status i st h e) (remittances s)\<rparr>)"
  by (simp add: updateRemittanceStatus_def find_remittance_def)

lemma createNotification_fails:
  "createNotification E u ty ti m l a s = (res, s') \<Longrightarrow> (case res of Inl e \<Rightarrow> e = Thrown ''database error'' \<and> \<not> insert_up E | Inr n \<Rightarrow> insert_up E)"
  by (auto simp: createNotification_def insert_notif_def Let_def split: if_splits)

text \<open>The state of the one row, the pc and the rest, as a submission goes on.\<close>

definition with_row :: "remit_sys \<Rightarrow> submission \<Rightarrow> sub_pc \<Rightarrow> (remittance \<Rightarrow> remittance) \<Rightarrow> (string \<times> nat) list \<Rightarrow> notif_sys \<Rightarrow> remit_sys" where
  "with_row s sub pc f c n = \<lparr>remittances = map f (remittances s), submissions = submissions s @ [sub\<lparr>sub_pc := pc\<rparr>],
     confirmations = confirmations s @ c, notifs = n\<rparr>"

lemma with_row_fields [simp]:
  "remittances (with_row s sub pc f c n) = map f (remittances s)"
  "submissions (with_row s sub pc f c n) = submissions s @ [sub\<lparr>sub_pc := pc\<rparr>]"
  "confirmations (with_row s sub pc f c n) = confirmations s @ c" "notifs (with_row s sub pc f c n) = n"
  by (simp_all add: with_row_def)

lemma with_row_updates [simp]:
  "(with_row s sub pc f c n)\<lparr>submissions := submissions s @ [sub\<lparr>sub_pc := pc'\<rparr>]\<rparr> = with_row s sub pc' f c n"
  "(with_row s sub pc f c n)\<lparr>confirmations := confirmations s @ c'\<rparr> = with_row s sub pc f c' n"
  "(with_row s sub pc f c n)\<lparr>notifs := n'\<rparr> = with_row s sub pc f c n'"
  "(with_row s sub pc f c n)\<lparr>remittances := map g (remittances s)\<rparr> = with_row s sub pc g c n"
  by (simp_all add: with_row_def)

lemma with_row_start: "s\<lparr>submissions := submissions s @ [sub\<lparr>sub_pc := pc\<rparr>]\<rparr> = with_row s sub pc id [] (notifs s)"
  by (simp add: with_row_def)

text \<open>The row of the submission, at some point of it.\<close>

definition its_row :: "remit_sys \<Rightarrow> submission \<Rightarrow> (remittance \<Rightarrow> remittance) \<Rightarrow> remittance \<Rightarrow> bool" where
  "its_row s sub f r \<longleftrightarrow> find (\<lambda>r. rm_id r = sub_remittance sub) (map f (remittances s)) = Some r"

lemma its_row_set: "its_row s sub f r \<Longrightarrow>
    its_row s sub (set_status (sub_remittance sub) st h e \<circ> f) (set_status (sub_remittance sub) st h e r)"
  by (simp add: its_row_def flip: map_map)

lemma its_row_id: "its_row s sub f r \<Longrightarrow> rm_id r = sub_remittance sub"
  by (auto simp: its_row_def find_Some_iff)

lemma update_row:
  "its_row s sub f r \<Longrightarrow>
     updateRemittanceStatus True (sub_remittance sub) st h e (with_row s sub pc f c n) =
       (Inr (set_status (sub_remittance sub) st h e r), with_row s sub pc (set_status (sub_remittance sub) st h e \<circ> f) c n)"
  by (simp add: update_found its_row_def)

lemma advance_row:
  assumes "sub_step W (length (submissions s)) (sub\<lparr>sub_pc := pc\<rparr>) (with_row s sub pc f c n) = (pc', with_row s sub pc f' c' n')"
  shows "advance W (length (submissions s)) (with_row s sub pc f c n) = with_row s sub pc' f' c' n'"
  by (subst advance_new [OF with_row_fields(2) assms]) simp

lemma advance_marking:
  "up W \<Longrightarrow> its_row s sub f r \<Longrightarrow>
     advance W (length (submissions s)) (with_row s sub Marking f c n) =
       with_row s sub Sending (set_status (sub_remittance sub) Processing None None \<circ> f) c n"
  by (rule advance_row) (simp add: sub_step_def update_row)

lemma advance_sending:
  "submitSignedTx (network_of W) = Inl e \<Longrightarrow>
     advance W (length (submissions s)) (with_row s sub Sending f c n) = with_row s sub (caught e) f c n"
  "submitSignedTx (network_of W) = Inr (h, ''SUCCESS'') \<Longrightarrow>
     advance W (length (submissions s)) (with_row s sub Sending f c n) =
       with_row s sub (Confirmed h) f (c @ [(h, length (submissions s))]) n"
  "submitSignedTx (network_of W) = Inr (h, st) \<Longrightarrow> st \<noteq> ''SUCCESS'' \<Longrightarrow>
     advance W (length (submissions s)) (with_row s sub Sending f c n) = with_row s sub (Refused (not_confirmed st)) f c n"
  by (rule advance_row, simp add: sub_step_def)+

lemma advance_refused:
  "up W \<Longrightarrow> its_row s sub f r \<Longrightarrow>
     advance W (length (submissions s)) (with_row s sub (Refused m) f c n) =
       with_row s sub (Recovering (internal m None)) (set_status (sub_remittance sub) Failed None (Some m) \<circ> f) c n"
  by (rule advance_row) (simp add: sub_step_def update_row caught_def isClientError_def internal_def)

lemma advance_confirmed:
  "up W \<Longrightarrow> its_row s sub f r \<Longrightarrow>
     advance W (length (submissions s)) (with_row s sub (Confirmed h) f c n) =
       with_row s sub (Notifying h (rm_amount r) (from_currency r)) (set_status (sub_remittance sub) Completed (Some h) None \<circ> f) c n"
  by (rule advance_row) (simp add: sub_step_def update_row)

lemma advance_recovering:
  "up W \<Longrightarrow> its_row s sub f r \<Longrightarrow>
     advance W (length (submissions s)) (with_row s sub (Recovering e) f c n) =
       with_row s sub (Replied (Inl e)) (set_status (sub_remittance sub) Failed None (Some (error_text e)) \<circ> f) c n"
  by (rule advance_row) (simp add: sub_step_def update_row)

lemma advance_replied:
  "advance W (length (submissions s)) (with_row s sub (Replied res) f c n) = with_row s sub (Replied res) f c n"
  by (rule advance_row) (simp add: sub_step_def)

lemma advance_notifying:
  "\<exists>n'. advance W (length (submissions s)) (with_row s sub (Notifying h a cur) f c n) =
     with_row s sub (if insert_up (notif_world W) then Replied (Inr h) else Recovering (Thrown ''database error'')) f c n'"
proof -
  obtain res n' where cn: "createNotification (notif_world W) (sub_user sub) ''repayment_confirmed'' ''Remittance Sent''
      (sent_message W a cur h) None (Some (''/remittances/'' @ sub_remittance sub)) n = (res, n')" by fastforce
  have r: "(case res of Inl e \<Rightarrow> e = Thrown ''database error'' \<and> \<not> insert_up (notif_world W) | Inr x \<Rightarrow> insert_up (notif_world W))"
    by (rule createNotification_fails [OF cn])
  show ?thesis
    by (rule exI [of _ n'], rule advance_row)
      (use r in \<open>auto simp: sub_step_def cn [simplified] caught_def isClientError_def split: sum.splits\<close>)
qed

lemma advance_loading:
  assumes "up W" "its_row s sub f r" "sender_id r = sub_user sub" "rm_status r = Pending"
  shows "advance W (length (submissions s)) (with_row s sub Loading f c n) =
    with_row s sub (case parseAndValidateSignedEnvelope (signatures W) (sub_envelope sub) of
       Inl e \<Rightarrow> Replied (Inl e) | Inr m \<Rightarrow> Marking) f c n"
proof (rule advance_row)
  have "service_get (up W) (sub_remittance sub) (with_row s sub Loading f c n) = Inr r"
    using assms(1,2) by (simp add: service_get_def find_remittance_def its_row_def)
  moreover have "caught e = Replied (Inl e)" if "parseAndValidateSignedEnvelope (signatures W) (sub_envelope sub) = Inl e" for e
    using that by (auto simp: parseAndValidateSignedEnvelope_def caught_def isClientError_def badRequest_def
        split: option.splits if_splits)
  ultimately show "sub_step W (length (submissions s)) (sub\<lparr>sub_pc := Loading\<rparr>) (with_row s sub Loading f c n) =
      (case parseAndValidateSignedEnvelope (signatures W) (sub_envelope sub) of
         Inl e \<Rightarrow> Replied (Inl e) | Inr m \<Rightarrow> Marking, with_row s sub Loading f c n)"
    using assms(3,4)
    by (cases "parseAndValidateSignedEnvelope (signatures W) (sub_envelope sub)")
      (simp_all add: sub_step_def check_submission_def service_get_def find_remittance_def and_then_def split: if_splits option.splits)
qed

text \<open>The outcome that the code intends: status, hash and reply.\<close>

definition submission_outcome :: "step_world \<Rightarrow> string \<Rightarrow> rm_status \<times> string option \<times> (http_error + string)" where
  "submission_outcome W x =
     (case parseAndValidateSignedEnvelope (signatures W) x of
        Inl e \<Rightarrow> (Pending, None, Inl e)
      | Inr m \<Rightarrow>
          (case submitSignedTx (network_of W) of
             Inl e \<Rightarrow> (Failed, None, Inl e)
           | Inr (h, st) \<Rightarrow>
               if st \<noteq> ''SUCCESS'' then (Failed, None, Inl (internal (not_confirmed st) None))
               else if insert_up (notif_world W) then (Completed, Some h, Inr h)
               else (Failed, None, Inl (Thrown ''database error''))))"

definition settled_row :: "remit_sys \<Rightarrow> submission \<Rightarrow> rm_status \<times> string option \<times> (http_error + string) \<Rightarrow> remit_sys \<Rightarrow> bool" where
  "settled_row s sub out s' \<longleftrightarrow>
     (\<exists>f c n r. s' = with_row s sub (Replied (snd (snd out))) f c n \<and> its_row s sub f r \<and>
        rm_status r = fst out \<and> transaction_hash r = fst (snd out) \<and>
        (\<forall>q. rm_id q \<noteq> sub_remittance sub \<longrightarrow> f q = q))"

lemma settledI:
  assumes "its_row s sub f r" "rm_status r = st" "transaction_hash r = h"
    "\<forall>q. rm_id q \<noteq> sub_remittance sub \<longrightarrow> f q = q"
  shows "settled_row s sub (st, h, res) (with_row s sub (Replied res) f c n)"
  unfolding settled_row_def fst_conv snd_conv
  by (rule exI [of _ f], rule exI [of _ c], rule exI [of _ n], rule exI [of _ r]) (use assms in simp)

lemma set_status_other: "rm_id q \<noteq> i \<Longrightarrow> set_status i st h e q = q"
  by (simp add: set_status_def)

lemma settled_failed:
  assumes "its_row s sub f r" "\<forall>q. rm_id q \<noteq> sub_remittance sub \<longrightarrow> f q = q" "up W"
  shows "settled_row s sub (Failed, None, Inl e) (advance W (length (submissions s)) (with_row s sub (Recovering e) f c n))"
proof -
  let ?f = "set_status (sub_remittance sub) Failed None (Some (error_text e))"
  have "its_row s sub (?f \<circ> f) (?f r)" using assms(1) by (rule its_row_set)
  moreover have "rm_status (?f r) = Failed \<and> transaction_hash (?f r) = None"
    using its_row_id [OF assms(1)] by (simp add: env_set_def)
  moreover have "\<forall>q. rm_id q \<noteq> sub_remittance sub \<longrightarrow> (?f \<circ> f) q = q" using assms(2) by (simp add: set_status_other)
  ultimately show ?thesis
    unfolding advance_recovering [OF assms(3,1)] by (intro settledI) auto
qed

lemma advance_settled:
  assumes "settled_row s sub out s'"
  shows "settled_row s sub out (advance W (length (submissions s)) s')"
proof -
  have "advance W (length (submissions s)) s' = s'"
    using assms by (auto simp: settled_row_def advance_replied)
  then show ?thesis using assms by simp
qed

lemma submission_settles:
  assumes "its_row s sub id r" "sender_id r = sub_user sub" "rm_status r = Pending" "transaction_hash r = None" "up W"
    and "\<And>e. submitSignedTx (network_of W) = Inl e \<Longrightarrow> \<not> isClientError e"
  shows "settled_row s sub (submission_outcome W (sub_envelope sub))
    ((advance W (length (submissions s)) ^^ 6) (with_row s sub Loading id [] n))"
proof -
  let ?i = "sub_remittance sub"
  let ?A = "advance W (length (submissions s))"
  let ?m = "set_status ?i Processing None None"
  have m: "its_row s sub (?m \<circ> id) (?m r)" using assms(1) by (rule its_row_set)
  have o: "\<forall>q. rm_id q \<noteq> ?i \<longrightarrow> (?m \<circ> id) q = q" by (simp add: set_status_other)
  have six: "(?A ^^ 6) x = ?A (?A (?A (?A (?A (?A x)))))" for x by (simp add: eval_nat_numeral)
  have pc: "\<exists>m. parseAndValidateSignedEnvelope (signatures W) (sub_envelope sub) = Inr m \<Longrightarrow>
      ?A (?A (with_row s sub Loading id [] n)) = with_row s sub Sending (?m \<circ> id) [] n"
    using advance_loading [OF assms(5,1,2,3), of "[]" n] advance_marking [OF assms(5,1), of "[]" n] by auto
  show ?thesis
  proof (cases "parseAndValidateSignedEnvelope (signatures W) (sub_envelope sub)")
    case (Inl e)
    then have "?A (with_row s sub Loading id [] n) = with_row s sub (Replied (Inl e)) id [] n"
      using advance_loading [OF assms(5,1,2,3), of "[]" n] by simp
    moreover have "settled_row s sub (Pending, None, Inl e) (with_row s sub (Replied (Inl e)) id [] n)"
      using assms(1,3,4) by (intro settledI) auto
    ultimately show ?thesis
      unfolding six using Inl by (simp add: submission_outcome_def advance_replied)
  next
    case p: (Inr j)
    then have two: "?A (?A (with_row s sub Loading id [] n)) = with_row s sub Sending (?m \<circ> id) [] n" using pc by blast
    show ?thesis
    proof (cases "submitSignedTx (network_of W)")
      case (Inl e)
      then have three: "?A (with_row s sub Sending (?m \<circ> id) [] n) = with_row s sub (Recovering e) (?m \<circ> id) [] n"
        using advance_sending(1) assms(6) by (simp add: caught_def)
      have "submission_outcome W (sub_envelope sub) = (Failed, None, Inl e)"
        using p Inl by (simp add: submission_outcome_def)
      then show ?thesis
        unfolding six two three
        using advance_settled [OF advance_settled [OF settled_failed [OF m o assms(5)]]] by simp
    next
      case (Inr hs)
      obtain h st where hs: "hs = (h, st)" by (cases hs)
      show ?thesis
      proof (cases "st = ''SUCCESS''")
        case False
        let ?f = "set_status ?i Failed None (Some (not_confirmed st))"
        have f: "its_row s sub (?f \<circ> (?m \<circ> id)) (?f (?m r))" using m by (rule its_row_set)
        have "\<forall>q. rm_id q \<noteq> ?i \<longrightarrow> (?f \<circ> (?m \<circ> id)) q = q" by (simp add: set_status_other)
        note fin = advance_settled [OF settled_failed [OF f this assms(5)]]
        have four: "?A (?A (with_row s sub Sending (?m \<circ> id) [] n)) =
            with_row s sub (Recovering (internal (not_confirmed st) None)) (?f \<circ> (?m \<circ> id)) [] n"
          using Inr hs advance_sending(3) [OF _ False] advance_refused [OF assms(5) m] by simp
        have "submission_outcome W (sub_envelope sub) = (Failed, None, Inl (internal (not_confirmed st) None))"
          using p Inr hs False by (simp add: submission_outcome_def)
        then show ?thesis unfolding six two four using fin by simp
      next
        case True
        let ?f = "set_status ?i Completed (Some h) None"
        let ?c = "[] @ [(h, length (submissions s))]"
        have f: "its_row s sub (?f \<circ> (?m \<circ> id)) (?f (?m r))" using m by (rule its_row_set)
        have f': "\<forall>q. rm_id q \<noteq> ?i \<longrightarrow> (?f \<circ> (?m \<circ> id)) q = q" by (simp add: set_status_other)
        have "?A (?A (with_row s sub Sending (?m \<circ> id) [] n)) =
            with_row s sub (Notifying h (rm_amount (?m r)) (from_currency (?m r))) (?f \<circ> (?m \<circ> id)) ?c n"
          using advance_sending(2) advance_confirmed [OF assms(5) m] Inr hs True by simp
        moreover obtain n' where "?A (with_row s sub (Notifying h (rm_amount (?m r)) (from_currency (?m r))) (?f \<circ> (?m \<circ> id)) ?c n) =
            with_row s sub (if insert_up (notif_world W) then Replied (Inr h) else Recovering (Thrown ''database error''))
              (?f \<circ> (?m \<circ> id)) ?c n'"
          using advance_notifying by blast
        ultimately have five: "?A (?A (?A (with_row s sub Sending (?m \<circ> id) [] n))) =
            with_row s sub (if insert_up (notif_world W) then Replied (Inr h) else Recovering (Thrown ''database error''))
              (?f \<circ> (?m \<circ> id)) ?c n'" by simp
        show ?thesis
        proof (cases "insert_up (notif_world W)")
          case up: True
          have "settled_row s sub (Completed, Some h, Inr h) (with_row s sub (Replied (Inr h)) (?f \<circ> (?m \<circ> id)) ?c n')"
            using f' submitted_hash [of "network_of W" h st] Inr hs its_row_id [OF m]
            by (intro settledI [OF f]) (auto simp: env_set_def)
          then show ?thesis
            unfolding six two five using p Inr hs True up by (simp add: submission_outcome_def advance_replied)
        next
          case False
          then show ?thesis
            unfolding six two five using p Inr hs True settled_failed [OF f f' assms(5)]
            by (simp add: submission_outcome_def)
        qed
      qed
    qed
  qed
qed

lemma reach_advance: "remit_reach E sigs s \<Longrightarrow> signatures W = sigs \<Longrightarrow> remit_reach E sigs (advance W k s)"
  by (rule remit_reach.step [OF _ remit_step.move])

lemma completed_without_hash:
  "remit_inv sigs s \<Longrightarrow> r \<in> set (remittances s) \<Longrightarrow> rm_status r \<noteq> Completed \<Longrightarrow> transaction_hash r = None"
  unfolding remit_inv_def backed_def by (auto split: option.splits)

section \<open>Properties\<close>

text \<open>(C5) A remittance is only shown as completed when it was paid: in every reachable state, whatever the
  interleaving of the submissions and the failures of the database, the network and the notifications,
  a completed remittance carries the hash of a signed envelope that its sender submitted for it and that the network
  has confirmed; a remittance in any other status carries no hash.\<close>

theorem completed_is_confirmed:
  assumes "remit_reach E sigs s" "r \<in> set (remittances s)"
  shows "(rm_status r = Completed \<longleftrightarrow> transaction_hash r \<noteq> None) \<and>
    (rm_status r = Completed \<longrightarrow>
      (\<exists>h k n. transaction_hash r = Some h \<and> (h, k) \<in> set (confirmations s) \<and> k < length (submissions s) \<and>
         sub_remittance (submissions s ! k) = rm_id r \<and> sub_user (submissions s ! k) = sender_id r \<and>
         sigs (sub_envelope (submissions s ! k)) = Some n \<and> 0 < n))"
proof -
  have inv: "remit_inv sigs s" using assms(1) by (rule remit_reach_inv)
  then have b: "backed s r" using assms(2) unfolding remit_inv_def by blast
  show ?thesis
  proof (cases "transaction_hash r")
    case None
    then show ?thesis using b by (simp add: backed_def)
  next
    case (Some h)
    then obtain k where k: "rm_status r = Completed" "k < length (submissions s)" "(h, k) \<in> set (confirmations s)"
        "sub_remittance (submissions s ! k) = rm_id r" "sub_user (submissions s ! k) = sender_id r"
      using b by (auto simp: backed_def)
    then have "signed sigs (sub_envelope (submissions s ! k))" using inv unfolding remit_inv_def by blast
    then obtain n where "sigs (sub_envelope (submissions s ! k)) = Some n" "0 < n"
      by (auto simp: signed_def split: option.splits)
    with k Some show ?thesis by blast
  qed
qed


text \<open>A completed remittance does not stay completed: whoever submits any envelope for it while one read of the
  database fails turns it into a failed one without hash, for the error of the read counts as a failed
  submission and neither the owner nor the status has been looked at. This holds for every remittance
  of every reachable state.\<close>

theorem failed_read_erases_payment:
  assumes "remit_reach E sigs s" "r \<in> set (remittances s)" "u \<noteq> []" "x \<noteq> []" "rm_id r \<noteq> []"
    and "signatures W1 = sigs" "\<not> up W1" "signatures W2 = sigs" "up W2"
  shows "\<exists>s0 s' r'. submitRemittanceTransaction (Some u) (Some x) (rm_id r) s = Inr s0 \<and>
    s' = advance W2 (length (submissions s)) (advance W1 (length (submissions s)) s0) \<and> remit_reach E sigs s' \<and>
    find_remittance (rm_id r) s' = Some r' \<and> rm_status r' = Failed \<and> transaction_hash r' = None \<and>
    confirmations s' = confirmations s"
proof -
  let ?sub = "\<lparr>sub_remittance = rm_id r, sub_user = u, sub_envelope = x, sub_pc = Loading\<rparr>"
  let ?k = "length (submissions s)"
  let ?s0 = "with_row s ?sub Loading id [] (notifs s)"
  let ?e = "internal ''Failed to fetch remittance'' None"
  let ?f = "set_status (rm_id r) Failed None (Some (error_text ?e))"
  have "remit_inv sigs s" using assms(1) by (rule remit_reach_inv)
  then have "find_remittance (rm_id r) s = Some r"
    using assms(2) find_remittance_mem unfolding remit_inv_def by blast
  then have row: "its_row s ?sub id r" by (simp add: its_row_def find_remittance_def)
  have s0: "submitRemittanceTransaction (Some u) (Some x) (rm_id r) s = Inr ?s0"
    using assms(3-5) with_row_start [where s = s and sub = ?sub and pc = Loading] by (simp add: submitRemittanceTransaction_def env_set_def)
  have "advance W1 ?k ?s0 = with_row s ?sub (Recovering ?e) id [] (notifs s)"
    by (rule advance_row) (use assms(7) in \<open>simp add: sub_step_def check_submission_def service_get_def caught_def
        isClientError_def internal_def\<close>)
  then have s': "advance W2 ?k (advance W1 ?k ?s0) = with_row s ?sub (Replied (Inl ?e)) (?f \<circ> id) [] (notifs s)"
    using advance_recovering [OF assms(9) row] by simp
  have "remit_reach E sigs ?s0" using remit_reach.step [OF assms(1) remit_step.submit [OF s0]] .
  then have "remit_reach E sigs (advance W2 ?k (advance W1 ?k ?s0))"
    using assms(6,8) reach_advance by blast
  moreover have "find_remittance (rm_id r) (advance W2 ?k (advance W1 ?k ?s0)) = Some (?f r)"
    using its_row_set [OF row] unfolding s' by (simp add: its_row_def find_remittance_def)
  moreover have "confirmations (advance W2 ?k (advance W1 ?k ?s0)) = confirmations s" unfolding s' by simp
  ultimately show ?thesis using s0 by (auto simp: env_set_def)
qed

text \<open>(C33) A remittance can be paid twice: two requests of its sender that overlap both read the status pending
  before either changes it, and then both of their envelopes are sent and confirmed.\<close>

theorem overlapping_submissions_pay_twice:
  assumes "remit_reach E sigs s" "r \<in> set (remittances s)" "rm_status r = Pending"
    and "sender_id r \<noteq> []" "rm_id r \<noteq> []" "x \<noteq> []" "y \<noteq> []" "signed sigs x" "signed sigs y"
    and "up V" "signatures V = sigs" "submitSignedTx (network_of V) = Inr (g, ''SUCCESS'')"
    and "up W" "signatures W = sigs" "submitSignedTx (network_of W) = Inr (h, ''SUCCESS'')"
    and "k = length (submissions s)"
  shows "\<exists>s0 s1 s'. submitRemittanceTransaction (Some (sender_id r)) (Some x) (rm_id r) s = Inr s0 \<and>
    submitRemittanceTransaction (Some (sender_id r)) (Some y) (rm_id r) s0 = Inr s1 \<and>
    s' = fold (\<lambda>(U, j). advance U j) [(V, k), (W, k + 1), (V, k), (W, k + 1), (V, k), (W, k + 1)] s1 \<and>
    remit_reach E sigs s' \<and> confirmations s' = confirmations s @ [(g, k), (h, k + 1)]"
proof -
  let ?sub = "\<lambda>z. \<lparr>sub_remittance = rm_id r, sub_user = sender_id r, sub_envelope = z, sub_pc = Loading\<rparr>"
  let ?s0 = "s\<lparr>submissions := submissions s @ [?sub x]\<rparr>"
  let ?s1 = "s\<lparr>submissions := submissions s @ [?sub x, ?sub y]\<rparr>"
  let ?s' = "fold (\<lambda>(U, j). advance U j) [(V, k), (W, k + 1), (V, k), (W, k + 1), (V, k), (W, k + 1)] ?s1"
  have s0: "submitRemittanceTransaction (Some (sender_id r)) (Some x) (rm_id r) s = Inr ?s0"
    and s1: "submitRemittanceTransaction (Some (sender_id r)) (Some y) (rm_id r) ?s0 = Inr ?s1"
    using assms(4-7) by (simp_all add: submitRemittanceTransaction_def env_set_def)
  have "remit_inv sigs s" using assms(1) by (rule remit_reach_inv)
  then have row: "find (\<lambda>q. rm_id q = rm_id r) (remittances s) = Some r"
    using assms(2) find_remittance_mem unfolding remit_inv_def find_remittance_def by blast
  obtain m n where mn: "sigs x = Some m" "0 < m" "sigs y = Some n" "0 < n"
    using assms(8,9) by (auto simp: signed_def split: option.splits)
  have "remit_reach E sigs ?s1"
    using remit_reach.step [OF remit_reach.step [OF assms(1) remit_step.submit [OF s0]] remit_step.submit [OF s1]] .
  then have "remit_reach E sigs ?s'"
    using assms(11,14) reach_advance by simp
  moreover have "confirmations ?s' = confirmations s @ [(g, k), (h, k + 1)]"
    using assms(3,10-16) mn row
    by (simp add: advance_def sub_step_def check_submission_def service_get_def find_remittance_def and_then_def
        parseAndValidateSignedEnvelope_def updateRemittanceStatus_def nth_append list_update_append)
  ultimately show ?thesis using s0 s1 by blast
qed

section \<open>A concrete run\<close>

definition demo_addr :: "char \<Rightarrow> string" where
  "demo_addr c = CHR ''G'' # replicate 55 c"

definition demo_env :: remit_env where
  "demo_env = \<lparr>STELLAR_USDC_ISSUER = None, STELLAR_EURC_ISSUER = None, STELLAR_PHP_ISSUER = None\<rparr>"

definition demo_create :: create_world where
  "demo_create = \<lparr>getAccount = (\<lambda>_. Inr 1), payment_xdr = (\<lambda>_ _ _ _ _. Inr ''xdr''), commits = True, fresh_uuid = ''r1''\<rparr>"

definition demo_payload :: create_payload where
  "demo_payload = \<lparr>pl_recipient = demo_addr CHR ''B'', pl_amount = 5, pl_from = ''xlm'', pl_to = ''PHP'', pl_memo = None, pl_sender = []\<rparr>"

definition demo_sigs :: "string \<Rightarrow> nat option" where
  "demo_sigs x = (if x = ''junk'' then None else Some 1)"

definition demo_world :: "bool \<Rightarrow> step_world" where
  "demo_world b = \<lparr>up = b, signatures = demo_sigs,
     network_of = \<lparr>send_answer = Inr (Some ''h'', ''PENDING''), poll_answer = Inr ''SUCCESS''\<rparr>,
     number_text = (\<lambda>_. ''5''), notif_world = quiet\<rparr>"

definition demo_blank :: remit_sys where
  "demo_blank = \<lparr>remittances = [], submissions = [], confirmations = [], notifs = demo_open\<rparr>"

definition demo_created :: remit_sys where
  "demo_created = snd (createRemittance demo_env demo_create (Some (demo_addr CHR ''A'')) demo_payload demo_blank)"

definition demo_row :: remittance where
  "demo_row = remittance_row (demo_payload\<lparr>pl_sender := demo_addr CHR ''A''\<rparr>) ''r1'' ''xdr'' 5"

definition demo_asked :: remit_sys where
  "demo_asked = demo_created\<lparr>submissions :=
     [\<lparr>sub_remittance = ''r1'', sub_user = demo_addr CHR ''A'', sub_envelope = ''e'', sub_pc = Loading\<rparr>]\<rparr>"

definition demo_paid :: remit_sys where
  "demo_paid = (advance (demo_world True) 0 ^^ 5) demo_asked"

lemma demo_addr_valid [simp]: "isValidStellarAddress (demo_addr CHR ''A'')" "isValidStellarAddress (demo_addr CHR ''B'')"
  "demo_addr c \<noteq> []"
  by (simp_all add: isValidStellarAddress_def demo_addr_def base32_char_def Let_def list_all_iff)

lemma demo_xlm [simp]: "getCurrencyAsset demo_env ''xlm'' = Inr Native"
  by code_simp

lemma demo_names [simp]: "normalizeCurrency ''xlm'' = ''XLM''" "normalizeCurrency ''PHP'' = ''PHP''"
  by code_simp+

lemma demo_created_eq: "demo_created = demo_blank\<lparr>remittances := [demo_row]\<rparr>"
proof -
  have "numeric_20_7 5 = Some 5" by (simp add: numeric_20_7_def Let_def sgn_if floor_eq_iff)
  then show ?thesis
    by (simp add: demo_created_def createRemittance_def service_create_def demo_payload_def demo_create_def env_set_def
        and_then_def insert_remittance_def remittance_row_def demo_row_def demo_blank_def Let_def)
qed

lemma demo_created_reach: "remit_reach demo_env demo_sigs demo_created"
proof -
  have "remit_reach demo_env demo_sigs demo_blank" by (rule remit_reach.start) (simp_all add: demo_blank_def)
  from remit_reach.step [OF this remit_step.create] show ?thesis unfolding demo_created_def .
qed

lemma demo_row_fields [simp]: "rm_id demo_row = ''r1''" "sender_id demo_row = demo_addr CHR ''A''" "rm_status demo_row = Pending"
  by (simp_all add: demo_row_def remittance_row_def demo_payload_def)

lemma demo_created_parts [simp]: "remittances demo_created = [demo_row]" "submissions demo_created = []"
  "confirmations demo_created = []" "notifs demo_created = demo_open"
  by (simp_all add: demo_created_eq demo_blank_def)

lemma demo_world_parts [simp]: "up (demo_world b) = b" "signatures (demo_world b) = demo_sigs"
  "submitSignedTx (network_of (demo_world b)) = Inr (''h'', ''SUCCESS'')" "insert_up (notif_world (demo_world b))"
  by (simp_all add: demo_world_def submitSignedTx_def and_then_def env_set_def quiet_def)

lemma demo_signed [simp]: "demo_sigs ''e'' = Some 1" "demo_sigs ''f'' = Some 1"
  by (simp_all add: demo_sigs_def)

lemma demo_asked_eq: "submitRemittanceTransaction (Some (demo_addr CHR ''A'')) (Some ''e'') ''r1'' demo_created = Inr demo_asked"
  by (simp add: submitRemittanceTransaction_def env_set_def demo_asked_def)

lemma demo_paid_reach: "remit_reach demo_env demo_sigs demo_paid"
proof -
  have "remit_reach demo_env demo_sigs demo_asked"
    using remit_reach.step [OF demo_created_reach remit_step.submit [OF demo_asked_eq]] .
  then show ?thesis unfolding demo_paid_def by (simp add: eval_nat_numeral reach_advance)
qed

lemma demo_paid_row: "remittances demo_paid = [set_status ''r1'' Completed (Some ''h'') None demo_row]"
  "length (submissions demo_paid) = 1" "confirmations demo_paid = [(''h'', 0)]"
proof -
  obtain r n where "createNotification (notif_world (demo_world True)) (demo_addr CHR ''A'') ''repayment_confirmed'' ''Remittance Sent''
      (sent_message (demo_world True) (rm_amount demo_row) (from_currency demo_row) ''h'') None (Some ''/remittances/r1'') demo_open = (r, n)"
    by force
  then have "remittances demo_paid = [set_status ''r1'' Completed (Some ''h'') None demo_row] \<and>
      length (submissions demo_paid) = 1 \<and> confirmations demo_paid = [(''h'', 0)]"
    by (simp add: demo_paid_def demo_asked_def advance_def sub_step_def eval_nat_numeral check_submission_def service_get_def
        find_remittance_def and_then_def parseAndValidateSignedEnvelope_def updateRemittanceStatus_def split: sum.split)
  then show "remittances demo_paid = [set_status ''r1'' Completed (Some ''h'') None demo_row]"
    "length (submissions demo_paid) = 1" "confirmations demo_paid = [(''h'', 0)]" by simp_all
qed

theorem completed_is_confirmed_witness:
  "map (\<lambda>r. (rm_status r, transaction_hash r)) (remittances demo_paid) = [(Completed, Some ''h'')] \<and>
   (\<exists>k. (''h'', k) \<in> set (confirmations demo_paid) \<and> sub_user (submissions demo_paid ! k) = demo_addr CHR ''A'')"
  using completed_is_confirmed [OF demo_paid_reach, of "set_status ''r1'' Completed (Some ''h'') None demo_row"]
  by (auto simp: demo_paid_row(1) env_set_def)


theorem failed_read_erases_payment_witness:
  "\<exists>s' r'. rm_status (hd (remittances demo_paid)) = Completed \<and> find_remittance ''r1'' s' = Some r' \<and>
     rm_status r' = Failed \<and> transaction_hash r' = None \<and> (''h'', 0) \<in> set (confirmations s')"
  using failed_read_erases_payment [OF demo_paid_reach,
      of "set_status ''r1'' Completed (Some ''h'') None demo_row" "''GX''" "''junk''" "demo_world False" "demo_world True"]
  by (force simp: demo_paid_row)

theorem overlapping_submissions_pay_twice_witness:
  "\<exists>s'. remit_reach demo_env demo_sigs s' \<and> confirmations s' = [(''h'', 0), (''h'', 1)]"
  using overlapping_submissions_pay_twice [OF demo_created_reach, of demo_row "''e''" "''f''" "demo_world True" "''h''" "demo_world True" "''h''" 0]
  by (auto simp: signed_def)

end
