(* ===== verification/SorobanTx.thy ===== *)
theory SorobanTx
  imports Remittance MoneyDecimal JsNumber
begin

text \<open>
  The transactions that the backend builds for the wallets: \<open>src/backend/src/services/sorobanService.ts\<close>, one
  definition for each \<open>build...Tx\<close>, and the configuration of the network,
  \<open>src/backend/src/config/stellar.ts\<close>. A transaction is kept as what it says (source, sequence number, call,
  time bounds); accounts, simulation and the XDR encoding belong to the Stellar SDK and are fields of
  the environment.
\<close>

section \<open>Configuration\<close>

datatype stellar_network = Testnet | Mainnet

record stellar_env =
  STELLAR_NETWORK :: "string option"
  STELLAR_RPC_URL :: "string option"
  STELLAR_NETWORK_PASSPHRASE :: "string option"
  url_protocol :: "string \<Rightarrow> string option"

record stellar_config =
  network_name :: stellar_network
  rpc_url :: string
  network_passphrase :: string

definition default_rpc :: "stellar_network \<Rightarrow> string" where
  "default_rpc n = (case n of Testnet \<Rightarrow> ''https://soroban-testnet.stellar.org'' | Mainnet \<Rightarrow> ''https://soroban-mainnet.stellar.org'')"

text \<open>\<open>Networks.TESTNET\<close> and \<open>Networks.PUBLIC\<close> of the SDK.\<close>

definition default_passphrase :: "stellar_network \<Rightarrow> string" where
  "default_passphrase n =
     (case n of Testnet \<Rightarrow> ''Test SDF Network ; September 2015''
      | Mainnet \<Rightarrow> ''Public Global Stellar Network ; September 2015'')"

definition parseNetwork :: "string option \<Rightarrow> http_error + stellar_network" where
  "parseNetwork v =
     (let normalized = js_lower (js_trim (case v of None \<Rightarrow> ''testnet'' | Some s \<Rightarrow> s)) in
      if normalized = ''testnet'' then Inr Testnet
      else if normalized = ''mainnet'' then Inr Mainnet
      else Inl (Thrown ''Invalid STELLAR_NETWORK''))"

definition ensureValidRpcUrl :: "stellar_env \<Rightarrow> string \<Rightarrow> http_error + unit" where
  "ensureValidRpcUrl E u =
     (case url_protocol E u of
        None \<Rightarrow> Inl (Thrown ''Invalid STELLAR_RPC_URL'')
      | Some p \<Rightarrow> if p \<noteq> ''https:'' \<and> p \<noteq> ''http:'' then Inl (Thrown ''Only http:// or https:// is supported'') else Inr ())"

text \<open>\<open>s.includes(p)\<close>.\<close>

fun includes_text :: "string \<Rightarrow> string \<Rightarrow> bool" where
  "includes_text [] p = (p = [])"
| "includes_text (c # s) p = (starts_with p (c # s) \<or> includes_text s p)"

definition ensureRpcUrlMatchesNetwork :: "stellar_network \<Rightarrow> string \<Rightarrow> http_error + unit" where
  "ensureRpcUrlMatchesNetwork n u =
     (let oppositeMarker = (case n of Testnet \<Rightarrow> ''mainnet'' | Mainnet \<Rightarrow> ''testnet'') in
      if includes_text (js_lower u) oppositeMarker
      then Inl (Thrown ''STELLAR_RPC_URL appears to target the other network'') else Inr ())"

definition ensurePassphraseMatchesNetwork :: "stellar_network \<Rightarrow> string \<Rightarrow> http_error + unit" where
  "ensurePassphraseMatchesNetwork n p =
     (if p \<noteq> default_passphrase n then Inl (Thrown ''STELLAR_NETWORK_PASSPHRASE does not match STELLAR_NETWORK'') else Inr ())"

definition getStellarConfig :: "stellar_env \<Rightarrow> http_error + stellar_config" where
  "getStellarConfig E =
     and_then (parseNetwork (STELLAR_NETWORK E)) (\<lambda>network.
       let rpcUrl = js_trim (case STELLAR_RPC_URL E of None \<Rightarrow> default_rpc network | Some u \<Rightarrow> u) in
       if rpcUrl = [] then Inl (Thrown ''STELLAR_RPC_URL cannot be empty.'')
       else and_then (ensureValidRpcUrl E rpcUrl) (\<lambda>_.
            and_then (ensureRpcUrlMatchesNetwork network rpcUrl) (\<lambda>_.
              let passphrase = js_trim (case STELLAR_NETWORK_PASSPHRASE E of None \<Rightarrow> default_passphrase network | Some p \<Rightarrow> p) in
              if passphrase = [] then Inl (Thrown ''STELLAR_NETWORK_PASSPHRASE cannot be empty.'')
              else and_then (ensurePassphraseMatchesNetwork network passphrase) (\<lambda>_.
                     Inr \<lparr>network_name = network, rpc_url = rpcUrl, network_passphrase = passphrase\<rparr>))))"

section \<open>Transactions\<close>

datatype scval = ScAddress string | ScSymbol string | ScString string | ScU32 int | ScI128 int

record contract_call =
  on_contract :: string
  call_name :: string
  call_args :: "scval list"

record unsigned_tx =
  tx_source :: string
  tx_sequence :: int
  tx_fee :: int
  tx_call :: contract_call
  tx_expires :: seconds

record soroban_env =
  stellar :: stellar_env
  LOAN_MANAGER_CONTRACT_ID :: "string option"
  LENDING_POOL_CONTRACT_ID :: "string option"
  REMITTANCE_NFT_CONTRACT_ID :: "string option"
  POOL_TOKEN_ADDRESS :: "string option"
  account_sequence :: "string \<Rightarrow> http_error + int"
  is_address :: "string \<Rightarrow> bool"
  prepare :: "unsigned_tx \<Rightarrow> http_error + string"
  clock :: ms

definition configured :: "string \<Rightarrow> string option \<Rightarrow> http_error + string" where
  "configured name v = (case env_set v of None \<Rightarrow> Inl (internal (name @ '' is not configured'') None) | Some c \<Rightarrow> Inr c)"

definition getLoanManagerContractId :: "soroban_env \<Rightarrow> http_error + string" where
  "getLoanManagerContractId E = configured ''LOAN_MANAGER_CONTRACT_ID'' (LOAN_MANAGER_CONTRACT_ID E)"

definition getLendingPoolContractId :: "soroban_env \<Rightarrow> http_error + string" where
  "getLendingPoolContractId E = configured ''LENDING_POOL_CONTRACT_ID'' (LENDING_POOL_CONTRACT_ID E)"

definition getPoolTokenAddress :: "soroban_env \<Rightarrow> http_error + string" where
  "getPoolTokenAddress E = configured ''POOL_TOKEN_ADDRESS'' (POOL_TOKEN_ADDRESS E)"

definition getRemittanceNftContractId :: "soroban_env \<Rightarrow> http_error + string" where
  "getRemittanceNftContractId E = configured ''REMITTANCE_NFT_CONTRACT_ID'' (REMITTANCE_NFT_CONTRACT_ID E)"

text \<open>\<open>nativeToScVal\<close> at the types the service uses; the SDK refuses values out of range.\<close>

definition address_val :: "soroban_env \<Rightarrow> string \<Rightarrow> http_error + scval" where
  "address_val E a = (if is_address E a then Inr (ScAddress a) else Inl (Thrown ''Unsupported address type''))"

definition u32_val :: "int \<Rightarrow> http_error + scval" where
  "u32_val n = (if 0 \<le> n \<and> n < 2 ^ 32 then Inr (ScU32 n) else Inl (Thrown ''invalid u32''))"

definition i128_val :: "int \<Rightarrow> http_error + scval" where
  "i128_val n = (if - (2 ^ 127) \<le> n \<and> n < 2 ^ 127 then Inr (ScI128 n) else Inl (Thrown ''invalid i128''))"

text \<open>\<open>toStroops(amount.toString())\<close>, the amount a safe integer.\<close>

definition stroops_val :: "int \<Rightarrow> http_error + scval" where
  "stroops_val n = (case toStroops (show_int n) DEFAULT_MODE of Inl e \<Rightarrow> Inl (Thrown ''invalid decimal amount'') | Inr v \<Rightarrow> i128_val v)"

fun collect :: "(http_error + scval) list \<Rightarrow> http_error + scval list" where
  "collect [] = Inr []"
| "collect (v # vs) = and_then v (\<lambda>x. and_then (collect vs) (\<lambda>xs. Inr (x # xs)))"

definition TX_TIMEOUT :: seconds where "TX_TIMEOUT = 30"

text \<open>What every builder does around its arguments: \<open>setTimeout(30)\<close> bounds the validity from the clock at the
  time of building.\<close>

definition build_invocation ::
  "soroban_env \<Rightarrow> (http_error + string) \<Rightarrow> string \<Rightarrow> string \<Rightarrow> (http_error + scval) list \<Rightarrow> http_error + (string \<times> string)" where
  "build_invocation E contract source fn args =
     and_then (getStellarConfig (stellar E)) (\<lambda>cfg.
     and_then contract (\<lambda>contractId.
     and_then (account_sequence E source) (\<lambda>sequence.
     and_then (collect args) (\<lambda>values.
     and_then (prepare E \<lparr>tx_source = source, tx_sequence = sequence + 1, tx_fee = 100,
                 tx_call = \<lparr>on_contract = contractId, call_name = fn, call_args = values\<rparr>,
                 tx_expires = clock E div 1000 + TX_TIMEOUT\<rparr>) (\<lambda>xdr.
       Inr (xdr, network_passphrase cfg))))))"

definition soroban_buildCancelLoanTx :: "soroban_env \<Rightarrow> string \<Rightarrow> string \<Rightarrow> http_error + (string \<times> string)" where
  "soroban_buildCancelLoanTx E borrower loanId =
     build_invocation E (getLoanManagerContractId E) borrower ''cancel_loan''
       [address_val E borrower, Inr (ScSymbol loanId)]"

definition soroban_buildRejectLoanTx :: "soroban_env \<Rightarrow> string \<Rightarrow> string \<Rightarrow> string \<Rightarrow> http_error + (string \<times> string)" where
  "soroban_buildRejectLoanTx E admin loanId reason =
     build_invocation E (getLoanManagerContractId E) admin ''reject_loan''
       [address_val E admin, Inr (ScSymbol loanId), Inr (ScString reason)]"

definition buildRequestLoanTx :: "soroban_env \<Rightarrow> string \<Rightarrow> int \<Rightarrow> int \<Rightarrow> http_error + (string \<times> string)" where
  "buildRequestLoanTx E borrower amt termLedgers =
     build_invocation E (getLoanManagerContractId E) borrower ''request_loan''
       [address_val E borrower, stroops_val amt, u32_val termLedgers]"

definition buildRepayTx :: "soroban_env \<Rightarrow> string \<Rightarrow> int \<Rightarrow> int \<Rightarrow> http_error + (string \<times> string)" where
  "buildRepayTx E borrower loan amt =
     build_invocation E (getLoanManagerContractId E) borrower ''repay''
       [address_val E borrower, u32_val loan, stroops_val amt]"

definition buildDepositTx :: "soroban_env \<Rightarrow> string \<Rightarrow> string \<Rightarrow> int \<Rightarrow> int \<Rightarrow> http_error + (string \<times> string)" where
  "buildDepositTx E provider token amt minSharesOut =
     build_invocation E (getLendingPoolContractId E) provider ''deposit''
       [address_val E provider, address_val E token, stroops_val amt, i128_val minSharesOut]"

definition buildWithdrawTx :: "soroban_env \<Rightarrow> string \<Rightarrow> string \<Rightarrow> int \<Rightarrow> int \<Rightarrow> http_error + (string \<times> string)" where
  "buildWithdrawTx E provider token shares minAssetsOut =
     build_invocation E (getLendingPoolContractId E) provider ''withdraw''
       [address_val E provider, address_val E token, i128_val shares, stroops_val minAssetsOut]"

definition buildEmergencyWithdrawTx :: "soroban_env \<Rightarrow> string \<Rightarrow> string \<Rightarrow> int \<Rightarrow> int \<Rightarrow> http_error + (string \<times> string)" where
  "buildEmergencyWithdrawTx E provider token shares minAssetsOut =
     build_invocation E (getLendingPoolContractId E) provider ''emergency_withdraw''
       [address_val E provider, address_val E token, i128_val shares, stroops_val minAssetsOut]"

definition buildApproveLoanTx :: "soroban_env \<Rightarrow> string \<Rightarrow> int \<Rightarrow> http_error + (string \<times> string)" where
  "buildApproveLoanTx E admin loan =
     build_invocation E (getLoanManagerContractId E) admin ''approve_loan'' [u32_val loan]"

definition buildDepositCollateralTx :: "soroban_env \<Rightarrow> string \<Rightarrow> int \<Rightarrow> int \<Rightarrow> http_error + (string \<times> string)" where
  "buildDepositCollateralTx E borrower loan amt =
     build_invocation E (getLoanManagerContractId E) borrower ''deposit_collateral'' [u32_val loan, stroops_val amt]"

definition buildReleaseCollateralTx :: "soroban_env \<Rightarrow> string \<Rightarrow> int \<Rightarrow> http_error + (string \<times> string)" where
  "buildReleaseCollateralTx E borrower loan =
     build_invocation E (getLoanManagerContractId E) borrower ''release_collateral'' [u32_val loan]"

definition buildRefinanceLoanTx :: "soroban_env \<Rightarrow> string \<Rightarrow> int \<Rightarrow> int \<Rightarrow> int \<Rightarrow> http_error + (string \<times> string)" where
  "buildRefinanceLoanTx E borrower loan newAmount newTerm =
     build_invocation E (getLoanManagerContractId E) borrower ''refinance_loan''
       [u32_val loan, stroops_val newAmount, u32_val newTerm]"

definition buildExtendLoanTx :: "soroban_env \<Rightarrow> string \<Rightarrow> int \<Rightarrow> int \<Rightarrow> http_error + (string \<times> string)" where
  "buildExtendLoanTx E borrower loan extraLedgers =
     build_invocation E (getLoanManagerContractId E) borrower ''extend_loan''
       [address_val E borrower, u32_val loan, u32_val extraLedgers]"

definition buildLiquidateTx :: "soroban_env \<Rightarrow> string \<Rightarrow> int \<Rightarrow> http_error + (string \<times> string)" where
  "buildLiquidateTx E liquidator loan =
     build_invocation E (getLoanManagerContractId E) liquidator ''liquidate'' [address_val E liquidator, u32_val loan]"

lemmas build_defs =
  soroban_buildCancelLoanTx_def soroban_buildRejectLoanTx_def buildRequestLoanTx_def buildRepayTx_def buildDepositTx_def
  buildWithdrawTx_def buildEmergencyWithdrawTx_def buildApproveLoanTx_def buildDepositCollateralTx_def
  buildReleaseCollateralTx_def buildRefinanceLoanTx_def buildExtendLoanTx_def buildLiquidateTx_def

section \<open>Reads\<close>

text \<open>A read is a simulation: the number of the attempt and the transaction give an error message or the native
  value of the result, \<open>None\<close> for a result without value.\<close>

record soroban_reads = soroban_env +
  SCORE_RECONCILIATION_SOURCE_SECRET :: "string option"
  LOAN_MANAGER_ADMIN_SECRET :: "string option"
  DEFAULT_CREDIT_SCORE :: "string option"
  keypair_of :: "string \<Rightarrow> string option"
  is_contract :: "string \<Rightarrow> bool"
  rpc_health :: "string option"
  simulate :: "nat \<Rightarrow> unsigned_tx \<Rightarrow> string + js_number option"

definition getScoreReadSourceKeypair :: "soroban_reads \<Rightarrow> http_error + string" where
  "getScoreReadSourceKeypair E =
     (case env_set (case SCORE_RECONCILIATION_SOURCE_SECRET E of None \<Rightarrow> LOAN_MANAGER_ADMIN_SECRET E | Some s \<Rightarrow> Some s) of
        None \<Rightarrow> Inl (internal ''A source secret is required for score reconciliation reads'' None)
      | Some secret \<Rightarrow>
          (case keypair_of E secret of
             None \<Rightarrow> Inl (internal ''The configured score reconciliation source secret is invalid'' None)
           | Some k \<Rightarrow> Inr k))"

definition getDefaultCreditScore :: "soroban_reads \<Rightarrow> int" where
  "getDefaultCreditScore E =
     (case js_parseInt (case DEFAULT_CREDIT_SCORE E of None \<Rightarrow> ''500'' | Some s \<Rightarrow> s) of None \<Rightarrow> 500 | Some n \<Rightarrow> n)"

definition isMissingScoreError :: "string \<Rightarrow> bool" where
  "isMissingScoreError message =
     list_ex (includes_text (js_lower message))
       [''not found'', ''unknown address'', ''missing value'', ''does not exist'', ''contract, #'', ''hosterror'']"

definition isTransientRpcError :: "string \<Rightarrow> bool" where
  "isTransientRpcError message =
     list_ex (includes_text (js_lower message))
       [''timeout'', ''temporar'', ''connection'', ''network'', ''unavailable'', ''503'', ''502'']"

definition read_tx ::
  "soroban_reads \<Rightarrow> (http_error + string) \<Rightarrow> string \<Rightarrow> (http_error + scval) list \<Rightarrow> http_error + unsigned_tx" where
  "read_tx E contract fn args =
     and_then (getStellarConfig (stellar E)) (\<lambda>cfg.
     and_then contract (\<lambda>contractId.
     and_then (getScoreReadSourceKeypair E) (\<lambda>source.
     and_then (account_sequence E source) (\<lambda>sequence.
     and_then (collect args) (\<lambda>values.
       Inr \<lparr>tx_source = source, tx_sequence = sequence + 1, tx_fee = 100,
            tx_call = \<lparr>on_contract = contractId, call_name = fn, call_args = values\<rparr>,
            tx_expires = clock E div 1000 + TX_TIMEOUT\<rparr>)))))"

definition base_env :: "soroban_reads \<Rightarrow> soroban_env" where
  "base_env E = soroban_env.truncate E"

definition SCORE_SIMULATION_RETRY_ATTEMPTS :: nat where "SCORE_SIMULATION_RETRY_ATTEMPTS = 2"

text \<open>The loop: attempt \<open>a\<close>, with \<open>n\<close> more to come.\<close>

fun simulate_score :: "soroban_reads \<Rightarrow> unsigned_tx \<Rightarrow> nat \<Rightarrow> nat \<Rightarrow> string + js_number option" where
  "simulate_score E tx a 0 = simulate E a tx"
| "simulate_score E tx a (Suc n) =
     (case simulate E a tx of
        Inr r \<Rightarrow> Inr r
      | Inl message \<Rightarrow> if isTransientRpcError message then simulate_score E tx (a + 1) n else Inl message)"

definition getOnChainCreditScore :: "soroban_reads \<Rightarrow> string \<Rightarrow> http_error + js_number" where
  "getOnChainCreditScore E user =
     and_then (read_tx E (getRemittanceNftContractId (base_env E)) ''get_score'' [address_val (base_env E) user]) (\<lambda>tx.
       let defaultScore = Num (getDefaultCreditScore E) in
       case simulate_score E tx 1 (SCORE_SIMULATION_RETRY_ATTEMPTS - 1) of
         Inl message \<Rightarrow>
           if isMissingScoreError message \<or> isTransientRpcError message then Inr defaultScore
           else Inl (internal (''Failed to simulate get_score for '' @ user @ '': '' @ message) None)
       | Inr None \<Rightarrow> Inr defaultScore
       | Inr (Some score) \<Rightarrow> Inr (if is_finite score then score else defaultScore))"

text \<open>The reads that give up: a failing simulation, a missing and a non-finite value are errors.\<close>

definition read_number :: "soroban_reads \<Rightarrow> string \<Rightarrow> string \<Rightarrow> string \<Rightarrow> unsigned_tx \<Rightarrow> http_error + js_number" where
  "read_number E failed missing invalid tx =
     (case simulate E 1 tx of
        Inl message \<Rightarrow> Inl (internal (failed @ message) None)
      | Inr None \<Rightarrow> Inl (internal missing None)
      | Inr (Some v) \<Rightarrow> if is_finite v then Inr v else Inl (internal invalid None))"

definition getSharePrice :: "soroban_reads \<Rightarrow> string option \<Rightarrow> http_error + js_number" where
  "getSharePrice E tokenAddress =
     and_then (case tokenAddress of Some t \<Rightarrow> Inr t | None \<Rightarrow> getPoolTokenAddress (base_env E)) (\<lambda>token.
     and_then (read_tx E (getLendingPoolContractId (base_env E)) ''get_share_price'' [address_val (base_env E) token])
       (read_number E ''Failed to simulate get_share_price: '' ''No share price returned by lending pool''
          ''Invalid on-chain share price returned''))"

definition getPoolBalance :: "soroban_reads \<Rightarrow> http_error + js_number" where
  "getPoolBalance E =
     and_then (getPoolTokenAddress (base_env E)) (\<lambda>token.
     and_then (getLendingPoolContractId (base_env E)) (\<lambda>pool.
     and_then (read_tx E (Inr token) ''balance'' [address_val (base_env E) pool])
       (read_number E ''Failed to simulate pool balance: '' ''No balance returned by pool token''
          ''Invalid on-chain balance returned'')))"

definition getWithdrawalCooldownLedgers :: "soroban_reads \<Rightarrow> http_error + js_number" where
  "getWithdrawalCooldownLedgers E =
     and_then (read_tx E (getLendingPoolContractId (base_env E)) ''get_withdrawal_cooldown'' [])
       (read_number E ''Failed to simulate get_withdrawal_cooldown: '' ''No withdrawal cooldown returned by lending pool''
          ''Invalid withdrawal cooldown returned'')"

section \<open>The check at startup\<close>

fun contract_checks :: "soroban_reads \<Rightarrow> (string \<times> string option) list \<Rightarrow> http_error + unit" where
  "contract_checks E [] = Inr ()"
| "contract_checks E ((name, v) # rest) =
     (case env_set v of
        None \<Rightarrow> Inl (internal (name @ '' is not configured'') None)
      | Some addr \<Rightarrow>
          if \<not> is_contract E addr then Inl (internal (name @ '' is not a valid Stellar contract address'') None)
          else contract_checks E rest)"

text \<open>\<open>rpc_health\<close> is the message of a failing health call.\<close>

definition validateConfig :: "soroban_reads \<Rightarrow> http_error + unit" where
  "validateConfig E =
     and_then (contract_checks E
       [(''LOAN_MANAGER_CONTRACT_ID'', LOAN_MANAGER_CONTRACT_ID E), (''LENDING_POOL_CONTRACT_ID'', LENDING_POOL_CONTRACT_ID E),
        (''REMITTANCE_NFT_CONTRACT_ID'', REMITTANCE_NFT_CONTRACT_ID E), (''POOL_TOKEN_ADDRESS'', POOL_TOKEN_ADDRESS E)]) (\<lambda>_.
       case getStellarConfig (stellar E) of
         Inl e \<Rightarrow> Inl (internal (error_text e) None)
       | Inr cfg \<Rightarrow>
           (case rpc_health E of
              Some m \<Rightarrow> Inl (internal (''Stellar RPC is unreachable at '' @ rpc_url cfg @ '': '' @ m) None)
            | None \<Rightarrow> Inr ()))"

section \<open>Lemmas\<close>

lemma js_BigInt_inject: "show_int i = show_int j \<Longrightarrow> i = j"
  by (metis js_BigInt_show_int option.inject)

lemma toStroops_int: "0 \<le> n \<Longrightarrow> toStroops (show_int n) mode = Inr (n * 10 ^ 7)"
proof -
  assume n: "0 \<le> n"
  have "js_trim (show_int n) = show_nat (nat n)"
    using n by (simp add: show_int_def js_trim_id digit_not_space [OF hd_digits] digit_not_space [OF last_digits])
  then show ?thesis
    using n toStroops_whole [of "show_int n" False "show_nat (nat n)" mode] by (simp add: sign_str_def sign_val_def)
qed

lemma stroops_val_eq: "0 \<le> n \<Longrightarrow> n \<le> 9007199254740991 \<Longrightarrow> stroops_val n = Inr (ScI128 (n * 10 ^ 7))"
  by (simp add: stroops_val_def toStroops_int i128_val_def)

lemma address_val_Inr: "address_val E a = Inr v \<longleftrightarrow> is_address E a \<and> v = ScAddress a"
  by (auto simp: address_val_def)

lemma u32_val_Inr: "u32_val n = Inr v \<longleftrightarrow> 0 \<le> n \<and> n < 2 ^ 32 \<and> v = ScU32 n"
  by (auto simp: u32_val_def)

lemma i128_val_Inr: "i128_val n = Inr v \<longleftrightarrow> - (2 ^ 127) \<le> n \<and> n < 2 ^ 127 \<and> v = ScI128 n"
  by (auto simp: i128_val_def)

lemma collect_Inr: "collect (v # vs) = Inr xs \<longleftrightarrow> (\<exists>y ys. v = Inr y \<and> collect vs = Inr ys \<and> xs = y # ys)"
  by (auto simp: and_then_eq_Inr)

lemma build_invocation_Inr:
  "build_invocation E contract source fn args = Inr (x, p) \<longleftrightarrow>
     (\<exists>cfg cid sequence vals. getStellarConfig (stellar E) = Inr cfg \<and> contract = Inr cid \<and> account_sequence E source = Inr sequence \<and>
        collect args = Inr vals \<and>
        prepare E \<lparr>tx_source = source, tx_sequence = sequence + 1, tx_fee = 100,
           tx_call = \<lparr>on_contract = cid, call_name = fn, call_args = vals\<rparr>, tx_expires = clock E div 1000 + TX_TIMEOUT\<rparr> = Inr x \<and>
        p = network_passphrase cfg)"
  by (auto simp: build_invocation_def and_then_eq_Inr)

end
