(* ===== verification/LoanTx.thy ===== *)
theory LoanTx
  imports SorobanTx CacheService
begin

text \<open>
  The endpoints that hand out unsigned transactions: \<open>requestLoan\<close> to \<open>buildLiquidateLoan\<close> of
  \<open>src/backend/src/controllers/loanController.ts\<close> with the bodies of
  \<open>src/backend/src/schemas/loanSchemas.ts\<close>, the builders of \<open>src/backend/src/controllers/poolController.ts\<close> with
  \<open>src/backend/src/schemas/poolSchemas.ts\<close>, and the invalidations of
  \<open>src/backend/src/utils/cacheKeys.ts\<close>. A built transaction is kept in the cache for a minute under a key made
  of its parameters.
\<close>

section \<open>Requests\<close>

text \<open>Redis and its answers to the reading, the writing and the deletions of a request, the network, the check of a
  public key by the SDK, and the environment.\<close>

record 's tx_world =
  redis_of :: "'s redis"
  read_from :: "server \<times> ms"
  write_to :: "server \<times> ms"
  delete_in :: server
  reads_of :: soroban_reads
  ed25519 :: "string \<Rightarrow> bool"
  node_env :: "string option"

type_synonym tx_answer = "http_error + json option \<times> json option"

definition MAX_SAFE_INTEGER :: int where "MAX_SAFE_INTEGER = 9007199254740991"

definition positive_int :: "int \<Rightarrow> bool" where
  "positive_int n \<longleftrightarrow> 0 < n \<and> n \<le> MAX_SAFE_INTEGER"

definition invalid_request :: http_error where
  "invalid_request = AppError 400 ''Validation failed'' ''VALIDATION_ERROR'' None"

definition requestLoanSchema :: "('s, 'z) tx_world_scheme \<Rightarrow> int \<Rightarrow> string \<Rightarrow> int option \<Rightarrow> bool" where
  "requestLoanSchema W amt borrower trm \<longleftrightarrow>
     positive_int amt \<and> ed25519 W borrower \<and> (case trm of None \<Rightarrow> True | Some t \<Rightarrow> positive_int t)"

definition repayLoanSchema :: "('s, 'z) tx_world_scheme \<Rightarrow> int \<Rightarrow> string \<Rightarrow> bool" where
  "repayLoanSchema W amt borrower \<longleftrightarrow> positive_int amt \<and> ed25519 W borrower"

definition depositCollateralSchema :: "('s, 'z) tx_world_scheme \<Rightarrow> int \<Rightarrow> string \<Rightarrow> bool" where
  "depositCollateralSchema W amt borrower \<longleftrightarrow> positive_int amt \<and> ed25519 W borrower"

definition releaseCollateralSchema :: "('s, 'z) tx_world_scheme \<Rightarrow> string \<Rightarrow> bool" where
  "releaseCollateralSchema W borrower \<longleftrightarrow> ed25519 W borrower"

definition refinanceLoanSchema :: "('s, 'z) tx_world_scheme \<Rightarrow> int \<Rightarrow> int \<Rightarrow> string \<Rightarrow> bool" where
  "refinanceLoanSchema W newAmount newTerm borrower \<longleftrightarrow> positive_int newAmount \<and> positive_int newTerm \<and> ed25519 W borrower"

definition extendLoanSchema :: "('s, 'z) tx_world_scheme \<Rightarrow> int \<Rightarrow> string \<Rightarrow> bool" where
  "extendLoanSchema W extraLedgers borrower \<longleftrightarrow> positive_int extraLedgers \<and> ed25519 W borrower"

definition liquidateLoanSchema :: "('s, 'z) tx_world_scheme \<Rightarrow> string \<Rightarrow> bool" where
  "liquidateLoanSchema W liquidator \<longleftrightarrow> ed25519 W liquidator"

section \<open>Cache keys\<close>

definition keyed :: "string \<Rightarrow> string list \<Rightarrow> key" where
  "keyed prefix parts = prefix @ concat (map (\<lambda>p. '':'' @ p) parts)"

definition key_poolStats :: key where "key_poolStats = ''pool:stats''"

definition key_borrowerLoans :: "string \<Rightarrow> key" where "key_borrowerLoans borrower = ''borrower:loans:'' @ borrower"

definition key_scoreBreakdown :: "string \<Rightarrow> key" where "key_scoreBreakdown pk = ''score:breakdown:'' @ pk"

definition drop_keys :: "('s, 'z) tx_world_scheme \<Rightarrow> key list \<Rightarrow> 's cache \<Rightarrow> 's cache" where
  "drop_keys W ks c = fold (cache_delete (redis_of W) (delete_in W)) ks c"

definition invalidateOnRepay :: "('s, 'z) tx_world_scheme \<Rightarrow> string \<Rightarrow> 's cache \<Rightarrow> 's cache" where
  "invalidateOnRepay W borrower c = drop_keys W [key_poolStats, key_borrowerLoans borrower, key_scoreBreakdown borrower] c"

definition invalidateOnLoanRequest :: "('s, 'z) tx_world_scheme \<Rightarrow> string \<Rightarrow> 's cache \<Rightarrow> 's cache" where
  "invalidateOnLoanRequest W borrower c = drop_keys W [key_poolStats, key_borrowerLoans borrower] c"

definition invalidateOnDeposit :: "('s, 'z) tx_world_scheme \<Rightarrow> 's cache \<Rightarrow> 's cache" where
  "invalidateOnDeposit W c = drop_keys W [key_poolStats] c"

definition invalidateOnWithdraw :: "('s, 'z) tx_world_scheme \<Rightarrow> 's cache \<Rightarrow> 's cache" where
  "invalidateOnWithdraw W c = drop_keys W [key_poolStats] c"

section \<open>Building with a cache\<close>

definition UNSIGNED_TX_TTL :: seconds where "UNSIGNED_TX_TTL = 60"

definition tx_json :: "string \<times> string \<Rightarrow> json" where
  "tx_json r = JObj [(''unsignedTxXdr'', JStr (fst r)), (''networkPassphrase'', JStr (snd r))]"

text \<open>What every handler below does after its checks.\<close>

definition cached_tx ::
  "('s, 'z) tx_world_scheme \<Rightarrow> key \<Rightarrow> http_error + (string \<times> string) \<Rightarrow> ('s cache \<Rightarrow> 's cache) \<Rightarrow> 's cache \<Rightarrow> tx_answer \<times> 's cache" where
  "cached_tx W k result after_build c =
     (case cache_get (redis_of W) (fst (read_from W)) (snd (read_from W)) k c of
        (v, c1) \<Rightarrow>
          if (case v of None \<Rightarrow> False | Some j \<Rightarrow> js_truthy j)
          then (Inr (field ''unsignedTxXdr'' (the v), field ''networkPassphrase'' (the v)), c1)
          else (case result of
                  Inl e \<Rightarrow> (Inl e, c1)
                | Inr r \<Rightarrow>
                    (Inr (Some (JStr (fst r)), Some (JStr (snd r))),
                     after_build (cache_set (redis_of W) (fst (write_to W)) (snd (write_to W)) k (tx_json r) UNSIGNED_TX_TTL c1))))"

definition chain :: "('s, 'z) tx_world_scheme \<Rightarrow> soroban_env" where
  "chain W = base_env (reads_of W)"

definition borrower_mismatch :: http_error where
  "borrower_mismatch = forbidden ''borrowerPublicKey must match your authenticated wallet'' (Some ''BORROWER_MISMATCH'')"

definition invalid_loan_id :: http_error where
  "invalid_loan_id = badRequest ''Invalid loan ID'' (Some ''INVALID_LOAN_ID'') (Some ''loanId'')"

definition DEFAULT_TERM_LEDGERS :: int where "DEFAULT_TERM_LEDGERS = 17280"

text \<open>The balance of the pool is a whole number of stroops.\<close>

definition liquidity_check :: "('s, 'z) tx_world_scheme \<Rightarrow> int \<Rightarrow> http_error + unit" where
  "liquidity_check W amt =
     (if node_env W = Some ''test'' then Inr ()
      else and_then (getPoolBalance (reads_of W)) (\<lambda>poolBalance.
             if (case poolBalance of Num b \<Rightarrow> b < amt | _ \<Rightarrow> False)
             then Inl (badRequest ''Insufficient pool liquidity to cover this loan'' (Some ''INSUFFICIENT_BALANCE'') None)
             else Inr ()))"

definition requestLoan ::
  "('s, 'z) tx_world_scheme \<Rightarrow> string option \<Rightarrow> int \<Rightarrow> string \<Rightarrow> int option \<Rightarrow> 's cache \<Rightarrow> tx_answer \<times> 's cache" where
  "requestLoan W user amt borrower trm c =
     (if \<not> requestLoanSchema W amt borrower trm then (Inl invalid_request, c)
      else
        (let termLedgers = (case trm of None \<Rightarrow> DEFAULT_TERM_LEDGERS | Some t \<Rightarrow> t) in
         if Some borrower \<noteq> user then (Inl borrower_mismatch, c)
         else (case liquidity_check W amt of
                 Inl e \<Rightarrow> (Inl e, c)
               | Inr u \<Rightarrow>
                   cached_tx W (keyed ''pending_loan_tx'' [borrower, show_int amt, show_int termLedgers])
                     (buildRequestLoanTx (chain W) borrower amt termLedgers) (invalidateOnLoanRequest W borrower) c)))"

definition repayLoan ::
  "('s, 'z) tx_world_scheme \<Rightarrow> string option \<Rightarrow> int \<Rightarrow> int \<Rightarrow> string \<Rightarrow> 's cache \<Rightarrow> tx_answer \<times> 's cache" where
  "repayLoan W user loan amt borrower c =
     (if \<not> (positive_int loan \<and> repayLoanSchema W amt borrower) then (Inl invalid_request, c)
      else if Some borrower \<noteq> user then (Inl borrower_mismatch, c)
      else if loan \<le> 0 then (Inl invalid_loan_id, c)
      else cached_tx W (keyed ''pending_repay_tx'' [borrower, show_int loan, show_int amt])
             (buildRepayTx (chain W) borrower loan amt) (invalidateOnRepay W borrower) c)"

definition depositCollateral ::
  "('s, 'z) tx_world_scheme \<Rightarrow> string option \<Rightarrow> int \<Rightarrow> int \<Rightarrow> string \<Rightarrow> 's cache \<Rightarrow> tx_answer \<times> 's cache" where
  "depositCollateral W user loan amt borrower c =
     (if \<not> (positive_int loan \<and> depositCollateralSchema W amt borrower) then (Inl invalid_request, c)
      else if Some borrower \<noteq> user then (Inl borrower_mismatch, c)
      else if loan \<le> 0 then (Inl invalid_loan_id, c)
      else cached_tx W (keyed ''pending_deposit_collateral_tx'' [borrower, show_int loan, show_int amt])
             (buildDepositCollateralTx (chain W) borrower loan amt) id c)"

definition releaseCollateral ::
  "('s, 'z) tx_world_scheme \<Rightarrow> string option \<Rightarrow> int \<Rightarrow> string \<Rightarrow> 's cache \<Rightarrow> tx_answer \<times> 's cache" where
  "releaseCollateral W user loan borrower c =
     (if \<not> (positive_int loan \<and> releaseCollateralSchema W borrower) then (Inl invalid_request, c)
      else if Some borrower \<noteq> user then (Inl borrower_mismatch, c)
      else if loan \<le> 0 then (Inl invalid_loan_id, c)
      else cached_tx W (keyed ''pending_release_collateral_tx'' [borrower, show_int loan])
             (buildReleaseCollateralTx (chain W) borrower loan) id c)"

definition refinanceLoan ::
  "('s, 'z) tx_world_scheme \<Rightarrow> string option \<Rightarrow> int \<Rightarrow> int \<Rightarrow> int \<Rightarrow> string \<Rightarrow> 's cache \<Rightarrow> tx_answer \<times> 's cache" where
  "refinanceLoan W user loan newAmount newTerm borrower c =
     (if \<not> (positive_int loan \<and> refinanceLoanSchema W newAmount newTerm borrower) then (Inl invalid_request, c)
      else if Some borrower \<noteq> user then (Inl borrower_mismatch, c)
      else if loan \<le> 0 then (Inl invalid_loan_id, c)
      else cached_tx W (keyed ''pending_refinance_tx'' [borrower, show_int loan, show_int newAmount, show_int newTerm])
             (buildRefinanceLoanTx (chain W) borrower loan newAmount newTerm) id c)"

definition extendLoan ::
  "('s, 'z) tx_world_scheme \<Rightarrow> string option \<Rightarrow> int \<Rightarrow> int \<Rightarrow> string \<Rightarrow> 's cache \<Rightarrow> tx_answer \<times> 's cache" where
  "extendLoan W user loan extraLedgers borrower c =
     (if \<not> (positive_int loan \<and> extendLoanSchema W extraLedgers borrower) then (Inl invalid_request, c)
      else if Some borrower \<noteq> user then (Inl borrower_mismatch, c)
      else if loan \<le> 0 then (Inl invalid_loan_id, c)
      else cached_tx W (keyed ''pending_extend_tx'' [borrower, show_int loan, show_int extraLedgers])
             (buildExtendLoanTx (chain W) borrower loan extraLedgers) id c)"

definition buildLiquidateLoan ::
  "('s, 'z) tx_world_scheme \<Rightarrow> string option \<Rightarrow> int \<Rightarrow> string \<Rightarrow> 's cache \<Rightarrow> tx_answer \<times> 's cache" where
  "buildLiquidateLoan W user loan liquidator c =
     (if \<not> (positive_int loan \<and> liquidateLoanSchema W liquidator) then (Inl invalid_request, c)
      else if Some liquidator \<noteq> user
      then (Inl (forbidden ''liquidatorPublicKey must match your authenticated wallet'' (Some ''ACCESS_DENIED'')), c)
      else if loan \<le> 0 then (Inl invalid_loan_id, c)
      else cached_tx W (keyed ''pending_liquidate_tx'' [liquidator, show_int loan])
             (buildLiquidateTx (chain W) liquidator loan) id c)"

section \<open>The pool\<close>

record pool_body =
  depositorPublicKey :: string
  pool_token :: string
  pool_amount :: int
  minSharesOut :: "int option"
  minAssetsOut :: "int option"

text \<open>The schema of both deposit and withdrawal; \<open>z.object\<close> keeps only the fields it names.\<close>

definition buildPoolTransactionSchema :: "('s, 'z) tx_world_scheme \<Rightarrow> pool_body \<Rightarrow> http_error + pool_body" where
  "buildPoolTransactionSchema W b =
     (if ed25519 W (depositorPublicKey b) \<and> ed25519 W (pool_token b) \<and> positive_int (pool_amount b) \<and>
         (case minAssetsOut b of None \<Rightarrow> True | Some n \<Rightarrow> 0 \<le> n \<and> n \<le> MAX_SAFE_INTEGER)
      then Inr (b\<lparr>minSharesOut := None\<rparr>) else Inl invalid_request)"

definition depositor_mismatch :: http_error where
  "depositor_mismatch = forbidden ''depositorPublicKey must match your authenticated wallet'' None"

definition depositToPool ::
  "('s, 'z) tx_world_scheme \<Rightarrow> string option \<Rightarrow> pool_body \<Rightarrow> 's cache \<Rightarrow> http_error + (string \<times> string) \<times> 's cache" where
  "depositToPool W user b c =
     (if depositorPublicKey b = [] \<or> pool_token b = [] \<or> pool_amount b = 0
      then Inl (badRequest ''depositorPublicKey, token, and a positive amount are required'' None None)
      else (case minSharesOut b of
              None \<Rightarrow> Inl (badRequest ''minSharesOut is required and must be non-negative'' None None)
            | Some m \<Rightarrow>
                if m < 0 then Inl (badRequest ''minSharesOut is required and must be non-negative'' None None)
                else if Some (depositorPublicKey b) \<noteq> user then Inl depositor_mismatch
                else and_then (buildDepositTx (chain W) (depositorPublicKey b) (pool_token b) (pool_amount b) m) (\<lambda>r.
                       Inr (r, invalidateOnDeposit W c))))"

definition withdrawFromPool ::
  "('s, 'z) tx_world_scheme \<Rightarrow> string option \<Rightarrow> pool_body \<Rightarrow> 's cache \<Rightarrow> http_error + (string \<times> string) \<times> 's cache" where
  "withdrawFromPool W user b c =
     (if depositorPublicKey b = [] \<or> pool_token b = [] \<or> pool_amount b = 0 \<or> pool_amount b \<le> 0
      then Inl (badRequest ''depositorPublicKey, token, and a positive amount (shares) are required'' None None)
      else if Some (depositorPublicKey b) \<noteq> user then Inl depositor_mismatch
      else and_then (buildWithdrawTx (chain W) (depositorPublicKey b) (pool_token b) (pool_amount b)
                       (case minAssetsOut b of None \<Rightarrow> 0 | Some m \<Rightarrow> m)) (\<lambda>r.
             Inr (r, invalidateOnWithdraw W c)))"

definition emergencyWithdrawFromPool ::
  "('s, 'z) tx_world_scheme \<Rightarrow> string option \<Rightarrow> pool_body \<Rightarrow> http_error + (string \<times> string)" where
  "emergencyWithdrawFromPool W user b =
     (if depositorPublicKey b = [] \<or> pool_token b = [] \<or> pool_amount b = 0 \<or> pool_amount b \<le> 0
      then Inl (badRequest ''depositorPublicKey, token, and a positive shares amount are required'' None None)
      else if Some (depositorPublicKey b) \<noteq> user then Inl depositor_mismatch
      else buildEmergencyWithdrawTx (chain W) (depositorPublicKey b) (pool_token b) (pool_amount b)
             (case minAssetsOut b of None \<Rightarrow> 0 | Some m \<Rightarrow> m))"

definition route_deposit ::
  "('s, 'z) tx_world_scheme \<Rightarrow> string option \<Rightarrow> pool_body \<Rightarrow> 's cache \<Rightarrow> http_error + (string \<times> string) \<times> 's cache" where
  "route_deposit W user b c = and_then (buildPoolTransactionSchema W b) (\<lambda>b'. depositToPool W user b' c)"

definition route_withdraw ::
  "('s, 'z) tx_world_scheme \<Rightarrow> string option \<Rightarrow> pool_body \<Rightarrow> 's cache \<Rightarrow> http_error + (string \<times> string) \<times> 's cache" where
  "route_withdraw W user b c = and_then (buildPoolTransactionSchema W b) (\<lambda>b'. withdrawFromPool W user b' c)"

text \<open>The schema of emergency withdrawals names the amount \<open>shares\<close>.\<close>

definition emergencyWithdrawSchema :: "('s, 'z) tx_world_scheme \<Rightarrow> pool_body \<Rightarrow> http_error + pool_body" where
  "emergencyWithdrawSchema W b =
     (if ed25519 W (depositorPublicKey b) \<and> ed25519 W (pool_token b) \<and> positive_int (pool_amount b) \<and>
         (case minAssetsOut b of None \<Rightarrow> True | Some n \<Rightarrow> 0 \<le> n \<and> n \<le> MAX_SAFE_INTEGER)
      then Inr (b\<lparr>minSharesOut := None\<rparr>) else Inl invalid_request)"

definition route_emergency ::
  "('s, 'z) tx_world_scheme \<Rightarrow> string option \<Rightarrow> pool_body \<Rightarrow> http_error + (string \<times> string)" where
  "route_emergency W user b = and_then (emergencyWithdrawSchema W b) (emergencyWithdrawFromPool W user)"

section \<open>What is asked for\<close>

text \<open>A request of the loan endpoints as data: its key, the call it stands for, and the handler that serves it.\<close>

datatype tx_op =
    OpRequest int int
  | OpRepay int int
  | OpDepositCollateral int int
  | OpReleaseCollateral int
  | OpRefinance int int int
  | OpExtend int int
  | OpLiquidate int

fun op_key :: "string \<Rightarrow> tx_op \<Rightarrow> key" where
  "op_key u (OpRequest amt trm) = keyed ''pending_loan_tx'' [u, show_int amt, show_int trm]"
| "op_key u (OpRepay loan amt) = keyed ''pending_repay_tx'' [u, show_int loan, show_int amt]"
| "op_key u (OpDepositCollateral loan amt) = keyed ''pending_deposit_collateral_tx'' [u, show_int loan, show_int amt]"
| "op_key u (OpReleaseCollateral loan) = keyed ''pending_release_collateral_tx'' [u, show_int loan]"
| "op_key u (OpRefinance loan amt trm) = keyed ''pending_refinance_tx'' [u, show_int loan, show_int amt, show_int trm]"
| "op_key u (OpExtend loan n) = keyed ''pending_extend_tx'' [u, show_int loan, show_int n]"
| "op_key u (OpLiquidate loan) = keyed ''pending_liquidate_tx'' [u, show_int loan]"

text \<open>The call with the amounts in stroops.\<close>

fun op_call :: "string \<Rightarrow> string \<Rightarrow> tx_op \<Rightarrow> contract_call" where
  "op_call cid u (OpRequest amt trm) =
     \<lparr>on_contract = cid, call_name = ''request_loan'', call_args = [ScAddress u, ScI128 (amt * 10 ^ 7), ScU32 trm]\<rparr>"
| "op_call cid u (OpRepay loan amt) =
     \<lparr>on_contract = cid, call_name = ''repay'', call_args = [ScAddress u, ScU32 loan, ScI128 (amt * 10 ^ 7)]\<rparr>"
| "op_call cid u (OpDepositCollateral loan amt) =
     \<lparr>on_contract = cid, call_name = ''deposit_collateral'', call_args = [ScU32 loan, ScI128 (amt * 10 ^ 7)]\<rparr>"
| "op_call cid u (OpReleaseCollateral loan) =
     \<lparr>on_contract = cid, call_name = ''release_collateral'', call_args = [ScU32 loan]\<rparr>"
| "op_call cid u (OpRefinance loan amt trm) =
     \<lparr>on_contract = cid, call_name = ''refinance_loan'', call_args = [ScU32 loan, ScI128 (amt * 10 ^ 7), ScU32 trm]\<rparr>"
| "op_call cid u (OpExtend loan n) =
     \<lparr>on_contract = cid, call_name = ''extend_loan'', call_args = [ScAddress u, ScU32 loan, ScU32 n]\<rparr>"
| "op_call cid u (OpLiquidate loan) =
     \<lparr>on_contract = cid, call_name = ''liquidate'', call_args = [ScAddress u, ScU32 loan]\<rparr>"

fun endpoint :: "('s, 'z) tx_world_scheme \<Rightarrow> string option \<Rightarrow> string \<Rightarrow> tx_op \<Rightarrow> 's cache \<Rightarrow> tx_answer \<times> 's cache" where
  "endpoint W user a (OpRequest amt trm) c = requestLoan W user amt a (Some trm) c"
| "endpoint W user a (OpRepay loan amt) c = repayLoan W user loan amt a c"
| "endpoint W user a (OpDepositCollateral loan amt) c = depositCollateral W user loan amt a c"
| "endpoint W user a (OpReleaseCollateral loan) c = releaseCollateral W user loan a c"
| "endpoint W user a (OpRefinance loan amt trm) c = refinanceLoan W user loan amt trm a c"
| "endpoint W user a (OpExtend loan n) c = extendLoan W user loan n a c"
| "endpoint W user a (OpLiquidate loan) c = buildLiquidateLoan W user loan a c"

fun op_build :: "('s, 'z) tx_world_scheme \<Rightarrow> string \<Rightarrow> tx_op \<Rightarrow> http_error + (string \<times> string)" where
  "op_build W u (OpRequest amt trm) = buildRequestLoanTx (chain W) u amt trm"
| "op_build W u (OpRepay loan amt) = buildRepayTx (chain W) u loan amt"
| "op_build W u (OpDepositCollateral loan amt) = buildDepositCollateralTx (chain W) u loan amt"
| "op_build W u (OpReleaseCollateral loan) = buildReleaseCollateralTx (chain W) u loan"
| "op_build W u (OpRefinance loan amt trm) = buildRefinanceLoanTx (chain W) u loan amt trm"
| "op_build W u (OpExtend loan n) = buildExtendLoanTx (chain W) u loan n"
| "op_build W u (OpLiquidate loan) = buildLiquidateTx (chain W) u loan"

fun op_drop :: "('s, 'z) tx_world_scheme \<Rightarrow> string \<Rightarrow> tx_op \<Rightarrow> 's cache \<Rightarrow> 's cache" where
  "op_drop W u (OpRequest amt trm) = invalidateOnLoanRequest W u"
| "op_drop W u (OpRepay loan amt) = invalidateOnRepay W u"
| "op_drop W u op = id"

fun op_valid :: "('s, 'z) tx_world_scheme \<Rightarrow> string \<Rightarrow> tx_op \<Rightarrow> bool" where
  "op_valid W a (OpRequest amt trm) = (ed25519 W a \<and> positive_int amt \<and> positive_int trm)"
| "op_valid W a (OpRepay loan amt) = (ed25519 W a \<and> positive_int loan \<and> positive_int amt)"
| "op_valid W a (OpDepositCollateral loan amt) = (ed25519 W a \<and> positive_int loan \<and> positive_int amt)"
| "op_valid W a (OpReleaseCollateral loan) = (ed25519 W a \<and> positive_int loan)"
| "op_valid W a (OpRefinance loan amt trm) = (ed25519 W a \<and> positive_int loan \<and> positive_int amt \<and> positive_int trm)"
| "op_valid W a (OpExtend loan n) = (ed25519 W a \<and> positive_int loan \<and> positive_int n)"
| "op_valid W a (OpLiquidate loan) = (ed25519 W a \<and> positive_int loan)"

fun op_funded :: "('s, 'z) tx_world_scheme \<Rightarrow> tx_op \<Rightarrow> http_error + unit" where
  "op_funded W (OpRequest amt trm) = liquidity_check W amt"
| "op_funded W op = Inr ()"

section \<open>Lemmas\<close>

lemmas endpoint_defs = requestLoan_def repayLoan_def depositCollateral_def releaseCollateral_def refinanceLoan_def extendLoan_def
  buildLiquidateLoan_def requestLoanSchema_def repayLoanSchema_def depositCollateralSchema_def releaseCollateralSchema_def
  refinanceLoanSchema_def extendLoanSchema_def liquidateLoanSchema_def

text \<open>Every handler: a refusal, or the cached build of its key.\<close>

lemma endpoint_cases:
  "endpoint W user a op c =
     (if op_valid W a op \<and> user = Some a \<and> op_funded W op = Inr ()
      then cached_tx W (op_key a op) (op_build W a op) (op_drop W a op) c else endpoint W user a op c) \<and>
   (\<not> (op_valid W a op \<and> user = Some a \<and> op_funded W op = Inr ()) \<longrightarrow> (\<exists>e. endpoint W user a op c = (Inl e, c)))"
  by (cases op) (auto simp: endpoint_defs Let_def positive_int_def split: sum.split)

lemma endpoint_ok:
  assumes "op_valid W a op" "op_funded W op = Inr ()"
  shows "endpoint W (Some a) a op c = cached_tx W (op_key a op) (op_build W a op) (op_drop W a op) c"
  using assms endpoint_cases [of W "Some a" a op c] by simp

text \<open>Keys: the parts can be read back when none contains a colon.\<close>

lemma split_keyed:
  "CHR '':'' \<notin> set prefix \<Longrightarrow> \<forall>p \<in> set parts. CHR '':'' \<notin> set p \<Longrightarrow> js_split CHR '':'' (keyed prefix parts) = prefix # parts"
proof (induction parts arbitrary: prefix)
  case Nil
  then show ?case by (simp add: keyed_def js_split_none)
next
  case (Cons p ps)
  then have "js_split CHR '':'' (keyed p ps) = p # ps" by simp
  moreover have "keyed prefix (p # ps) = prefix @ CHR '':'' # keyed p ps" by (simp add: keyed_def)
  ultimately show ?case using Cons.prems by (simp add: js_split_append)
qed

lemma show_int_no_colon [simp]: "CHR '':'' \<notin> set (show_int i)"
proof -
  have "CHR '':'' \<notin> set (show_nat n)" for n using show_nat_digits [of n] by (auto simp: list_all_iff is_digit_def)
  then show ?thesis by (simp add: show_int_def)
qed

definition key_parts :: "string \<Rightarrow> tx_op \<Rightarrow> string list" where
  "key_parts u op = js_split CHR '':'' (op_key u op)"

lemma op_key_inject:
  assumes "op_key u op = op_key u' op'" "CHR '':'' \<notin> set u" "CHR '':'' \<notin> set u'"
  shows "u = u' \<and> op = op'"
proof -
  have "key_parts u op = key_parts u' op'" using assms(1) by (simp add: key_parts_def)
  then show ?thesis
    using assms(2,3) by (cases op; cases op') (auto simp: key_parts_def split_keyed dest: js_BigInt_inject)
qed

lemma op_key_pending: "starts_with ''pending_'' (op_key u op)"
  by (cases op) (simp_all add: keyed_def)

section \<open>The cache holds what its keys say\<close>

text \<open>\<open>decoded\<close> reads an envelope: the SDK prepares what it was given.\<close>

definition tx_world_ok :: "(string \<Rightarrow> unsigned_tx option) \<Rightarrow> string \<Rightarrow> 's redis \<Rightarrow> ('s, 'z) tx_world_scheme \<Rightarrow> bool" where
  "tx_world_ok decoded cid R W \<longleftrightarrow>
     redis_of W = R \<and> LOAN_MANAGER_CONTRACT_ID (reads_of W) = Some cid \<and>
     (\<forall>t x. prepare (reads_of W) t = Inr x \<longrightarrow> decoded x = Some t) \<and>
     (\<forall>k. ed25519 W k \<longrightarrow> isValidStellarAddress k)"

definition says :: "(string \<Rightarrow> unsigned_tx option) \<Rightarrow> string \<Rightarrow> string \<Rightarrow> tx_op \<Rightarrow> string \<Rightarrow> bool" where
  "says decoded cid u op x \<longleftrightarrow> (\<exists>t. decoded x = Some t \<and> tx_source t = u \<and> tx_call t = op_call cid u op)"

definition pending_entry :: "(string \<Rightarrow> unsigned_tx option) \<Rightarrow> string \<Rightarrow> key \<Rightarrow> json \<Rightarrow> bool" where
  "pending_entry decoded cid k v \<longleftrightarrow>
     (\<exists>u op x p. k = op_key u op \<and> CHR '':'' \<notin> set u \<and> v = tx_json (x, p) \<and> says decoded cid u op x)"

inductive tx_reach ::
  "(string \<Rightarrow> unsigned_tx option) \<Rightarrow> string \<Rightarrow> 's redis \<Rightarrow> ('s \<Rightarrow> key \<Rightarrow> (json \<times> ms option) option) \<Rightarrow> 's cache \<Rightarrow> bool"
  for decoded cid R view where
  start: "(\<And>k. starts_with ''pending_'' k \<Longrightarrow> view (client c) k = None) \<Longrightarrow> tx_reach decoded cid R view c"
| serve: "tx_reach decoded cid R view c \<Longrightarrow> tx_world_ok decoded cid R W \<Longrightarrow>
    tx_reach decoded cid R view (snd (endpoint (W :: ('s, unit) tx_world_scheme) user a op c))"
| other: "tx_reach decoded cid R view c \<Longrightarrow>
    (\<And>k. starts_with ''pending_'' k \<Longrightarrow> view (client c') k \<in> {None, view (client c) k}) \<Longrightarrow> tx_reach decoded cid R view c'"

definition pending_inv ::
  "(string \<Rightarrow> unsigned_tx option) \<Rightarrow> string \<Rightarrow> ('s \<Rightarrow> key \<Rightarrow> (json \<times> ms option) option) \<Rightarrow> 's cache \<Rightarrow> bool" where
  "pending_inv decoded cid view c \<longleftrightarrow>
     (\<forall>k v e. starts_with ''pending_'' k \<longrightarrow> view (client c) k = Some (v, e) \<longrightarrow> pending_entry decoded cid k v)"

lemma valid_no_colon: "isValidStellarAddress a \<Longrightarrow> CHR '':'' \<notin> set a"
proof -
  assume v: "isValidStellarAddress a"
  then have "a \<noteq> []" "hd a = CHR ''G''" "list_all base32_char (tl a)" by (auto simp: isValidStellarAddress_def)
  then show ?thesis by (cases a) (auto simp: list_all_iff base32_char_def Let_def)
qed

lemma op_valid_address: "op_valid W a op \<Longrightarrow> ed25519 W a"
  by (cases op) simp_all

lemma chain_fields [simp]: "prepare (chain W) = prepare (reads_of W)" "clock (chain W) = clock (reads_of W)"
  "LOAN_MANAGER_CONTRACT_ID (chain W) = LOAN_MANAGER_CONTRACT_ID (reads_of W)"
  by (simp_all add: chain_def base_env_def soroban_env.defs)

text \<open>What a builder hands out says what was asked for.\<close>

lemma op_build_says:
  assumes W: "tx_world_ok decoded cid R W" and valid: "op_valid W a op" and b: "op_build W a op = Inr (x, p)"
  shows "\<exists>t. decoded x = Some t \<and> tx_source t = a \<and> tx_call t = op_call cid a op \<and>
    tx_expires t = clock (reads_of W) div 1000 + TX_TIMEOUT"
proof -
  have d: "\<And>t. prepare (reads_of W) t = Inr x \<Longrightarrow> decoded x = Some t" and
       L: "LOAN_MANAGER_CONTRACT_ID (reads_of W) = Some cid"
    using W by (auto simp: tx_world_ok_def)
  have c: "getLoanManagerContractId (chain W) = Inr i \<Longrightarrow> i = cid" for i
    using L by (auto simp: getLoanManagerContractId_def configured_def env_set_def split: if_splits)
  have s: "positive_int n \<Longrightarrow> stroops_val n = Inr (ScI128 (n * 10 ^ 7))" for n
    using stroops_val_eq [of n] by (simp add: positive_int_def MAX_SAFE_INTEGER_def)
  show ?thesis
    using b valid d by (cases op)
      (fastforce simp: build_defs build_invocation_Inr and_then_eq_Inr address_val_Inr u32_val_Inr s dest: c)+
qed

lemma view_set:
  assumes "redis_server R view" "0 < ttl"
  shows "view (client (cache_set R s now k v ttl c)) =
    (if s = Up then (view (client c))(k \<mapsto> (v, Some (now + 1000 * ttl))) else view (client c))"
proof (cases s)
  case Up
  obtain s' where "SETEX R now k ttl v (client c) = Some s'" "view s' = (view (client c))(k \<mapsto> (v, Some (now + 1000 * ttl)))"
    using redis_server.setex_law [OF assms] by blast
  then show ?thesis using Up by (simp add: cache_set_def)
qed (simp add: cache_set_def)

lemma view_delete:
  "redis_server R view \<Longrightarrow> view (client (cache_delete R s k c)) = (if s = Up then (view (client c))(k := None) else view (client c))"
  by (cases s) (auto simp: cache_delete_def redis_server.del_law)

lemma client_get [simp]: "client (snd (cache_get R s now k c)) = client c"
  by (cases s) (simp_all add: cache_get_def)

lemma fst_get: "redis_server R view \<Longrightarrow> fst (cache_get R s now k c) = (if s = Up then live now (view (client c) k) else None)"
  by (cases s) (simp_all add: cache_get_def redis_server.get_law)

text \<open>The dropped keys are others than the pending ones.\<close>

lemma view_drop_other:
  "redis_server (redis_of W) view \<Longrightarrow> j \<notin> set ks \<Longrightarrow> view (client (drop_keys W ks c)) j = view (client c) j"
proof (induction ks arbitrary: c)
  case (Cons k ks)
  then show ?case using view_delete [OF Cons.prems(1), of "delete_in W" k c] by (simp add: drop_keys_def)
qed (simp add: drop_keys_def)

lemma view_op_drop_pending:
  "redis_server (redis_of W) view \<Longrightarrow> starts_with ''pending_'' j \<Longrightarrow>
     view (client (op_drop W u op c)) j = view (client c) j"
  by (cases op) (auto simp: invalidateOnLoanRequest_def invalidateOnRepay_def key_poolStats_def key_borrowerLoans_def
      key_scoreBreakdown_def intro!: view_drop_other)

text \<open>A cached answer comes out of the cache or of the builder, and only its own key changes.\<close>

lemma cached_tx_answer:
  assumes R: "redis_server R view" and W: "redis_of W = R"
    and c: "cached_tx W k res after_build c = (Inr (x, p), c')"
  shows "(\<exists>v e. view (client c) k = Some (v, e) \<and> x = field ''unsignedTxXdr'' v \<and> p = field ''networkPassphrase'' v) \<or>
    (\<exists>x' p'. res = Inr (x', p') \<and> x = Some (JStr x') \<and> p = Some (JStr p'))"
proof -
  obtain v c1 where g: "cache_get R (fst (read_from W)) (snd (read_from W)) k c = (v, c1)" by force
  have v: "v = (if fst (read_from W) = Up then live (snd (read_from W)) (view (client c) k) else None)"
    using fst_get [OF R, of "fst (read_from W)" "snd (read_from W)" k c] g by simp
  have "\<exists>e. view (client c) k = Some (j, e)" if "v = Some j" for j
    using v that by (auto simp: live_def split: if_splits option.splits)
  then show ?thesis
    using c g W by (auto simp: cached_tx_def split: if_splits sum.splits option.splits)
qed

lemma cached_tx_view:
  assumes R: "redis_server R view" and W: "redis_of W = R" and j: "starts_with ''pending_'' j"
    and e: "view (client (snd (cached_tx W k res (op_drop W u op) c))) j = Some (v, t)"
  shows "view (client c) j = Some (v, t) \<or> j = k \<and> (\<exists>x p. res = Inr (x, p) \<and> v = tx_json (x, p))"
proof -
  obtain w c1 where g: "cache_get R (fst (read_from W)) (snd (read_from W)) k c = (w, c1)" by force
  then have c1: "client c1 = client c" using client_get [of R "fst (read_from W)" "snd (read_from W)" k c] by simp
  let ?set = "\<lambda>r. cache_set R (fst (write_to W)) (snd (write_to W)) k (tx_json r) UNSIGNED_TX_TTL c1"
  have dr: "view (client (op_drop W u op (?set r))) j = view (client (?set r)) j" for r
    using view_op_drop_pending [OF _ j] R W by blast
  have "view (client (?set r)) = (if fst (write_to W) = Up
      then (view (client c))(k \<mapsto> (tx_json r, Some (snd (write_to W) + 1000 * UNSIGNED_TX_TTL))) else view (client c))" for r
    using view_set [OF R, of UNSIGNED_TX_TTL "fst (write_to W)" "snd (write_to W)" k "tx_json r" c1] c1
    by (simp add: UNSIGNED_TX_TTL_def)
  then show ?thesis
    using e g W c1 dr by (auto simp: cached_tx_def split: if_splits sum.splits option.splits)
qed

lemma endpoint_inv:
  assumes R: "redis_server R view" and W: "tx_world_ok decoded cid R W" and inv: "pending_inv decoded cid view c"
  shows "pending_inv decoded cid view (snd (endpoint W user a op c))"
proof (cases "op_valid W a op \<and> user = Some a \<and> op_funded W op = Inr ()")
  case False
  then obtain e where "endpoint W user a op c = (Inl e, c)" using endpoint_cases [of W user a op c] by blast
  then show ?thesis using inv by simp
next
  case True
  then have ep: "endpoint W user a op c = cached_tx W (op_key a op) (op_build W a op) (op_drop W a op) c"
    using endpoint_cases [of W user a op c] by simp
  have a: "CHR '':'' \<notin> set a"
  proof -
    have "ed25519 W a" using True op_valid_address by blast
    then show ?thesis using W valid_no_colon unfolding tx_world_ok_def by blast
  qed
  have fresh: "pending_entry decoded cid (op_key a op) (tx_json (x, p))" if "op_build W a op = Inr (x, p)" for x p
    using op_build_says [OF W _ that] True a unfolding pending_entry_def says_def by blast
  show ?thesis
    unfolding pending_inv_def ep
  proof (intro allI impI)
    fix k v e assume k: "starts_with ''pending_'' k"
      and v: "view (client (snd (cached_tx W (op_key a op) (op_build W a op) (op_drop W a op) c))) k = Some (v, e)"
    have "redis_of W = R" using W by (simp add: tx_world_ok_def)
    from cached_tx_view [OF R this k v] show "pending_entry decoded cid k v"
      using inv k fresh unfolding pending_inv_def by blast
  qed
qed

lemma tx_reach_inv:
  assumes "redis_server R view" "tx_reach decoded cid R view c"
  shows "pending_inv decoded cid view c"
  using assms(2)
proof (induction rule: tx_reach.induct)
  case (start c)
  then show ?case by (simp add: pending_inv_def)
next
  case (serve c W user a op)
  then show ?case using endpoint_inv [OF assms(1)] by blast
next
  case (other c c')
  show ?case
    unfolding pending_inv_def
  proof (intro allI impI)
    fix k v e assume k: "starts_with ''pending_'' k" and v: "view (client c') k = Some (v, e)"
    then have "view (client c) k = Some (v, e)" using other.hyps(2) [OF k] by auto
    then show "pending_entry decoded cid k v" using other.IH k unfolding pending_inv_def by blast
  qed
qed

section \<open>Properties\<close>

text \<open>(C32) A handed out transaction is the one that was asked for, also when it comes out of the cache: in every state that the
  loan endpoints and any other use of the cache can reach, an answer of an endpoint carries the envelope of a
  transaction of the authenticated wallet that calls the function of the endpoint on the loan manager with exactly the
  loan, the term and the amount of the request, the amount in stroops.\<close>

theorem handed_out_transaction:
  assumes "redis_server R view" "tx_reach decoded cid R view c" "tx_world_ok decoded cid R (W :: ('s, unit) tx_world_scheme)"
    and "endpoint W user a op c = (Inr (x, p), c')"
  shows "user = Some a \<and>
    (\<exists>x' t. x = Some (JStr x') \<and> decoded x' = Some t \<and> tx_source t = a \<and> tx_call t = op_call cid a op)"
proof -
  have ok: "op_valid W a op \<and> user = Some a \<and> op_funded W op = Inr ()"
    using endpoint_cases [of W user a op c] assms(4) by auto
  then have c: "cached_tx W (op_key a op) (op_build W a op) (op_drop W a op) c = (Inr (x, p), c')"
    using endpoint_cases [of W user a op c] assms(4) by simp
  have R: "redis_of W = R" and a: "CHR '':'' \<notin> set a"
    using assms(3) ok op_valid_address valid_no_colon unfolding tx_world_ok_def by blast+
  from cached_tx_answer [OF assms(1) R c] show ?thesis
  proof (elim disjE exE conjE)
    fix v e assume v: "view (client c) (op_key a op) = Some (v, e)" "x = field ''unsignedTxXdr'' v"
    then have "pending_entry decoded cid (op_key a op) v"
      using tx_reach_inv [OF assms(1,2)] op_key_pending unfolding pending_inv_def by blast
    then obtain u op' x' p' where u: "op_key a op = op_key u op'" "CHR '':'' \<notin> set u" "v = tx_json (x', p')" "says decoded cid u op' x'"
      unfolding pending_entry_def by blast
    then have "says decoded cid a op x'" using op_key_inject [OF u(1) a u(2)] by simp
    then show ?thesis using ok u(3) v(2) by (auto simp: says_def tx_json_def field_def)
  next
    fix x' p' assume "op_build W a op = Inr (x', p')" "x = Some (JStr x')"
    then show ?thesis using op_build_says [OF assms(3), of a op x' p'] ok by blast
  qed
qed

text \<open>The cache outlives what it holds: a transaction is valid for thirty seconds after it was built and kept for
  sixty, so the same request of the same wallet in the second half of that minute is answered with a
  transaction that the network no longer accepts.\<close>

theorem cached_transaction_expired:
  assumes "redis_server R view" "tx_world_ok decoded cid R W" "read_from W = (Up, t)" "write_to W = (Up, t)" "clock (reads_of W) = t"
    and "live t (view (client c) (op_key a op)) = None" "endpoint W (Some a) a op c = (Inr (x, p), c')"
    and "redis_of W' = R" "read_from W' = (Up, t')" "op_valid W' a op" "op_funded W' op = Inr ()" "t + 31000 \<le> t'" "t' < t + 60000"
  shows "\<exists>x' tx. x = Some (JStr x') \<and> decoded x' = Some tx \<and> fst (endpoint W' (Some a) a op c') = Inr (x, p) \<and>
    1000 * tx_expires tx < t'"
proof -
  have ok: "op_valid W a op \<and> op_funded W op = Inr ()" using endpoint_cases [of W "Some a" a op c] assms(7) by auto
  then have c: "cached_tx W (op_key a op) (op_build W a op) (op_drop W a op) c = (Inr (x, p), c')"
    using endpoint_cases [of W "Some a" a op c] assms(7) by simp
  have R: "redis_of W = R" using assms(2) by (simp add: tx_world_ok_def)
  obtain c1 where g: "cache_get R Up t (op_key a op) c = (None, c1)"
    using fst_get [OF assms(1), of Up t "op_key a op" c] assms(6) by (cases "cache_get R Up t (op_key a op) c") simp
  then obtain x' p' where b: "op_build W a op = Inr (x', p')" "x = Some (JStr x')" "p = Some (JStr p')"
      "c' = op_drop W a op (cache_set R Up t (op_key a op) (tx_json (x', p')) UNSIGNED_TX_TTL c1)"
    using c R assms(3,4) by (auto simp: cached_tx_def split: sum.splits)
  obtain tx where tx: "decoded x' = Some tx" "tx_expires tx = t div 1000 + TX_TIMEOUT"
    using op_build_says [OF assms(2) _ b(1)] ok assms(5) by auto
  have RW: "redis_server (redis_of W) view" using assms(1) R by simp
  have "view (client c') (op_key a op) = Some (tx_json (x', p'), Some (t + 60000))"
    unfolding b(4) view_op_drop_pending [OF RW op_key_pending]
    using view_set [OF assms(1), of UNSIGNED_TX_TTL Up t "op_key a op" "tx_json (x', p')" c1] by (simp add: UNSIGNED_TX_TTL_def)
  then have "live t' (view (client c') (op_key a op)) = Some (tx_json (x', p'))" using assms(13) by simp
  then have "fst (cache_get R Up t' (op_key a op) c') = Some (tx_json (x', p'))" using fst_get [OF assms(1)] by simp
  then have "fst (cached_tx W' (op_key a op) (op_build W' a op) (op_drop W' a op) c') = Inr (x, p)"
    using b(2,3) assms(8,9) by (cases "cache_get R Up t' (op_key a op) c'") (simp add: cached_tx_def tx_json_def field_def)
  then have "fst (endpoint W' (Some a) a op c') = Inr (x, p)"
    using endpoint_cases [of W' "Some a" a op c'] assms(10,11) by simp
  moreover have "1000 * tx_expires tx < t'" using tx(2) assms(12) by (simp add: TX_TIMEOUT_def)
  ultimately show ?thesis using b(2) tx(1) by blast
qed

text \<open>No lender can use the pool: the pool only has contracts as tokens, as the startup check demands, while the schema
  of both endpoints wants the token to be a public key, so every deposit, withdrawal and emergency
  withdrawal of the pool's token is refused; and a deposit is refused whatever its token, since the schema
  removes the field that the handler requires.\<close>

theorem pool_transactions_refused:
  assumes "validateConfig (reads_of W) = Inr ()" "POOL_TOKEN_ADDRESS (reads_of W) = Some tok" "env_set (Some tok) = Some tok"
    and "\<And>k. ed25519 W k \<Longrightarrow> isValidStellarAddress k" "\<And>k. is_contract (reads_of W) k \<Longrightarrow> hd k = CHR ''C''"
  shows "(pool_token b = tok \<longrightarrow> route_deposit W user b c = Inl invalid_request \<and> route_withdraw W user b c = Inl invalid_request \<and>
      route_emergency W user b = Inl invalid_request) \<and>
    (\<exists>e. route_deposit W user b c = Inl e \<and> statusCode e = 400)"
proof -
  have "is_contract (reads_of W) tok"
    using assms(1-3) by (auto simp: validateConfig_def and_then_def split: sum.splits option.splits if_splits)
  then have "hd tok = CHR ''C''" by (rule assms(5))
  then have "\<not> isValidStellarAddress tok" by (simp add: isValidStellarAddress_def)
  then have "\<not> ed25519 W tok" using assms(4) by blast
  then have "pool_token b = tok \<longrightarrow>
      buildPoolTransactionSchema W b = Inl invalid_request \<and> emergencyWithdrawSchema W b = Inl invalid_request"
    by (simp add: buildPoolTransactionSchema_def emergencyWithdrawSchema_def)
  moreover have "\<exists>e. route_deposit W user b c = Inl e \<and> statusCode e = 400"
    by (simp add: route_deposit_def buildPoolTransactionSchema_def depositToPool_def invalid_request_def badRequest_def and_then_def)
  ultimately show ?thesis by (simp add: route_deposit_def route_withdraw_def route_emergency_def)
qed

section \<open>A concrete request\<close>

definition demo_stellar :: stellar_env where
  "demo_stellar = \<lparr>STELLAR_NETWORK = None, STELLAR_RPC_URL = None, STELLAR_NETWORK_PASSPHRASE = None,
     url_protocol = (\<lambda>_. Some ''https:'')\<rparr>"

definition demo_tx :: unsigned_tx where
  "demo_tx = \<lparr>tx_source = demo_addr CHR ''A'', tx_sequence = 2, tx_fee = 100,
     tx_call = op_call ''CL'' (demo_addr CHR ''A'') (OpRepay 7 5), tx_expires = 31\<rparr>"

definition demo_decoded :: "string \<Rightarrow> unsigned_tx option" where
  "demo_decoded x = (if x = ''xdr'' then Some demo_tx else None)"

definition demo_reads :: soroban_reads where
  "demo_reads = \<lparr>stellar = demo_stellar, LOAN_MANAGER_CONTRACT_ID = Some ''CL'', LENDING_POOL_CONTRACT_ID = Some ''CP'',
     REMITTANCE_NFT_CONTRACT_ID = Some ''CN'', POOL_TOKEN_ADDRESS = Some ''CT'', account_sequence = (\<lambda>_. Inr 1),
     is_address = (\<lambda>_. True), prepare = (\<lambda>t. if t = demo_tx then Inr ''xdr'' else Inl (Thrown ''simulation failed'')),
     clock = 1000, SCORE_RECONCILIATION_SOURCE_SECRET = None, LOAN_MANAGER_ADMIN_SECRET = None, DEFAULT_CREDIT_SCORE = None,
     keypair_of = (\<lambda>_. None), is_contract = (\<lambda>k. k \<noteq> [] \<and> hd k = CHR ''C''), rpc_health = None,
     simulate = (\<lambda>_ _. Inr None)\<rparr>"

definition demo_tx_world :: "ms \<Rightarrow> mem_state tx_world" where
  "demo_tx_world t = \<lparr>redis_of = mem_redis, read_from = (Up, t), write_to = (Up, t), delete_in = Up, reads_of = demo_reads,
     ed25519 = isValidStellarAddress, node_env = Some ''test''\<rparr>"

definition demo_tx_cache :: "mem_state cache" where
  "demo_tx_cache = \<lparr>client = (\<lambda>_. None), isConnected = True\<rparr>"

lemma demo_stellar_config: "getStellarConfig demo_stellar =
    Inr \<lparr>network_name = Testnet, rpc_url = default_rpc Testnet, network_passphrase = default_passphrase Testnet\<rparr>"
  by code_simp

lemma demo_tx_ok: "tx_world_ok demo_decoded ''CL'' mem_redis (demo_tx_world t)"
  by (simp add: tx_world_ok_def demo_tx_world_def demo_reads_def demo_decoded_def)

lemma demo_built: "op_build (demo_tx_world t) (demo_addr CHR ''A'') (OpRepay 7 5) = Inr (''xdr'', default_passphrase Testnet)"
proof -
  have "stroops_val 5 = Inr (ScI128 50000000)" using stroops_val_eq [of 5] by simp
  then show ?thesis
    by (simp add: build_defs build_invocation_def chain_def base_env_def soroban_env.defs demo_tx_world_def demo_reads_def
        demo_stellar_config and_then_def getLoanManagerContractId_def configured_def env_set_def address_val_def u32_val_def demo_tx_def
        TX_TIMEOUT_def)
qed

lemma demo_valid: "op_valid (demo_tx_world t) (demo_addr CHR ''A'') (OpRepay 7 5)" "op_funded (demo_tx_world t) (OpRepay 7 5) = Inr ()"
  by (simp_all add: demo_tx_world_def positive_int_def MAX_SAFE_INTEGER_def)

lemma demo_empty: "live t (mem_view (client demo_tx_cache) k) = None" "mem_view (client demo_tx_cache) k = None"
  by (simp_all add: demo_tx_cache_def mem_view_def live_def)

lemma demo_answer:
  "\<exists>c'. endpoint (demo_tx_world t) (Some (demo_addr CHR ''A'')) (demo_addr CHR ''A'') (OpRepay 7 5) demo_tx_cache =
     (Inr (Some (JStr ''xdr''), Some (JStr (default_passphrase Testnet))), c')"
proof -
  let ?k = "op_key (demo_addr CHR ''A'') (OpRepay 7 5)"
  obtain c1 where g: "cache_get mem_redis Up t ?k demo_tx_cache = (None, c1)"
    using fst_get [OF redis_server_mem, of Up t ?k demo_tx_cache] demo_empty
    by (cases "cache_get mem_redis Up t ?k demo_tx_cache") simp
  have w: "redis_of (demo_tx_world t) = mem_redis" "read_from (demo_tx_world t) = (Up, t)" by (simp_all add: demo_tx_world_def)
  have "endpoint (demo_tx_world t) (Some (demo_addr CHR ''A'')) (demo_addr CHR ''A'') (OpRepay 7 5) demo_tx_cache =
      cached_tx (demo_tx_world t) ?k (op_build (demo_tx_world t) (demo_addr CHR ''A'') (OpRepay 7 5))
        (op_drop (demo_tx_world t) (demo_addr CHR ''A'') (OpRepay 7 5)) demo_tx_cache"
    by (rule endpoint_ok [OF demo_valid])
  then show ?thesis unfolding demo_built cached_tx_def w fst_conv snd_conv g by simp
qed

lemma demo_tx_start: "tx_reach demo_decoded ''CL'' mem_redis mem_view demo_tx_cache"
  by (rule tx_reach.start) (rule demo_empty)

theorem handed_out_transaction_witness:
  "\<exists>c' t. endpoint (demo_tx_world 1000) (Some (demo_addr CHR ''A'')) (demo_addr CHR ''A'') (OpRepay 7 5) demo_tx_cache =
       (Inr (Some (JStr ''xdr''), Some (JStr (default_passphrase Testnet))), c') \<and>
     demo_decoded ''xdr'' = Some t \<and> tx_call t = op_call ''CL'' (demo_addr CHR ''A'') (OpRepay 7 5)"
proof -
  obtain c' where a: "endpoint (demo_tx_world 1000) (Some (demo_addr CHR ''A'')) (demo_addr CHR ''A'') (OpRepay 7 5) demo_tx_cache =
      (Inr (Some (JStr ''xdr''), Some (JStr (default_passphrase Testnet))), c')"
    using demo_answer by blast
  from handed_out_transaction [OF redis_server_mem demo_tx_start demo_tx_ok a] show ?thesis using a by auto
qed

theorem cached_transaction_expired_witness:
  "\<exists>c' x p tx. fst (endpoint (demo_tx_world 41000) (Some (demo_addr CHR ''A'')) (demo_addr CHR ''A'') (OpRepay 7 5) c') =
     Inr (Some (JStr x), p) \<and> demo_decoded x = Some tx \<and> 1000 * tx_expires tx < 41000"
proof -
  obtain c' where a: "endpoint (demo_tx_world 1000) (Some (demo_addr CHR ''A'')) (demo_addr CHR ''A'') (OpRepay 7 5) demo_tx_cache =
      (Inr (Some (JStr ''xdr''), Some (JStr (default_passphrase Testnet))), c')"
    using demo_answer by blast
  have w: "read_from (demo_tx_world t) = (Up, t)" "write_to (demo_tx_world t) = (Up, t)"
      "clock (reads_of (demo_tx_world t)) = 1000" "redis_of (demo_tx_world t) = mem_redis" for t
    by (simp_all add: demo_tx_world_def demo_reads_def)
  from cached_transaction_expired [OF redis_server_mem demo_tx_ok w(1,2,3) demo_empty(1) a w(4,1) demo_valid, of 41000]
  show ?thesis by auto
qed

theorem pool_transactions_refused_witness:
  "\<exists>e. route_deposit (demo_tx_world 1000) (Some (demo_addr CHR ''A''))
       \<lparr>depositorPublicKey = demo_addr CHR ''A'', pool_token = ''CT'', pool_amount = 5, minSharesOut = Some 4, minAssetsOut = None\<rparr>
       demo_tx_cache = Inl e \<and> statusCode e = 400"
proof -
  let ?W = "demo_tx_world 1000"
  have v: "validateConfig (reads_of ?W) = Inr ()"
    by (simp add: validateConfig_def demo_tx_world_def demo_reads_def and_then_def env_set_def demo_stellar_config)
  have "POOL_TOKEN_ADDRESS (reads_of ?W) = Some ''CT''" "env_set (Some ''CT'') = Some ''CT''"
    "\<And>k. ed25519 ?W k \<Longrightarrow> isValidStellarAddress k" "\<And>k. is_contract (reads_of ?W) k \<Longrightarrow> hd k = CHR ''C''"
    by (simp_all add: demo_tx_world_def demo_reads_def env_set_def)
  from pool_transactions_refused [OF v this] show ?thesis by blast
qed

end
