(* ===== verification/WireTypes.thy ===== *)
theory WireTypes
  imports Json
begin

text \<open>
  The types of what travels between the browser and the backend, as the interfaces of
  \<open>src/frontend/src/app/hooks/useApi.ts\<close> and the answers of the controllers declare them: a value of JSON has a
  type or not, \<open>sub\<close> decides that every value of one type has another, \<open>clash\<close> that none has, and a
  reader is what a hook does with an answer before it hands it to a component.
\<close>

section \<open>Types\<close>

text \<open>An object type is exact for what a controller builds key by key, and open for an interface, which says
  nothing of further keys. A field that is not required is absent or \<open>undefined\<close>, which JSON leaves out.\<close>

datatype ty =
    TNull
  | TBool
  | TNum
  | TStr
  | TLit string
  | TAny
  | is_arr: TArr (elem: ty)
  | is_union: TUnion (alts: "ty list")
  | is_obj: TObj (obj_exact: bool) (obj_flds: "fld list")
and fld = Fld string bool ty

fun has_type :: "ty \<Rightarrow> json \<Rightarrow> bool"
and has_some :: "ty list \<Rightarrow> json \<Rightarrow> bool"
and has_fields :: "fld list \<Rightarrow> (string \<times> json) list \<Rightarrow> bool" where
  "has_type TNull j = (j = JNull)"
| "has_type TBool j = (case j of JBool b \<Rightarrow> True | _ \<Rightarrow> False)"
| "has_type TNum j = (case j of JNum n \<Rightarrow> True | _ \<Rightarrow> False)"
| "has_type TStr j = (case j of JStr s \<Rightarrow> True | _ \<Rightarrow> False)"
| "has_type (TLit l) j = (j = JStr l)"
| "has_type TAny j = True"
| "has_type (TArr t) j = (case j of JArr vs \<Rightarrow> list_all (has_type t) vs | _ \<Rightarrow> False)"
| "has_type (TUnion ts) j = has_some ts j"
| "has_type (TObj exact fs) j =
     (case j of JObj kvs \<Rightarrow>
        has_fields fs kvs \<and> (exact \<longrightarrow> list_all (\<lambda>(k, v). list_ex (\<lambda>f. case f of Fld k' r t \<Rightarrow> k' = k) fs) kvs)
      | _ \<Rightarrow> False)"
| "has_some [] j = False"
| "has_some (t # ts) j = (has_type t j \<or> has_some ts j)"
| "has_fields [] kvs = True"
| "has_fields (Fld k r t # fs) kvs =
     ((case map_of kvs k of None \<Rightarrow> \<not> r | Some v \<Rightarrow> has_type t v) \<and> has_fields fs kvs)"

fun find_fld :: "fld list \<Rightarrow> string \<Rightarrow> (bool \<times> ty) option" where
  "find_fld [] k = None"
| "find_fld (Fld k' r t # fs) k = (if k' = k then Some (r, t) else find_fld fs k)"

lemma find_fld_size [termination_simp]: "find_fld fs k = Some (r, t) \<Longrightarrow> size t < size_list size fs"
  by (induction fs k rule: find_fld.induct) (auto split: if_splits)

abbreviation rec :: "fld list \<Rightarrow> ty" where "rec fs \<equiv> TObj True fs"
abbreviation iface :: "fld list \<Rightarrow> ty" where "iface fs \<equiv> TObj False fs"
abbreviation req :: "string \<Rightarrow> ty \<Rightarrow> fld" where "req k t \<equiv> Fld k True t"
abbreviation opt :: "string \<Rightarrow> ty \<Rightarrow> fld" where "opt k t \<equiv> Fld k False t"
abbreviation nullable :: "ty \<Rightarrow> ty" where "nullable t \<equiv> TUnion [TNull, t]"

section \<open>Comparing types\<close>

lemma ty_sizes:
  "is_union s \<Longrightarrow> size_list size (alts s) < size s"
  "is_arr s \<Longrightarrow> size (elem s) < size s"
  "is_obj s \<Longrightarrow> size_list size (obj_flds s) < size s"
  by (cases s; simp)+

function sub :: "ty \<Rightarrow> ty \<Rightarrow> bool"
and sub_all :: "ty list \<Rightarrow> ty \<Rightarrow> bool"
and sub_some :: "ty \<Rightarrow> ty list \<Rightarrow> bool"
and sub_flds :: "bool \<Rightarrow> fld list \<Rightarrow> fld list \<Rightarrow> bool" where
  "sub s t =
     (if is_union s then sub_all (alts s) t
      else (case t of
              TAny \<Rightarrow> True
            | TUnion ts \<Rightarrow> sub_some s ts
            | TArr b \<Rightarrow> (if is_arr s then sub (elem s) b else False)
            | TObj x gs \<Rightarrow> (if is_obj s then \<not> x \<and> sub_flds (obj_exact s) (obj_flds s) gs else False)
            | TStr \<Rightarrow> (case s of TStr \<Rightarrow> True | TLit l \<Rightarrow> True | _ \<Rightarrow> False)
            | _ \<Rightarrow> s = t))"
| "sub_all [] t = True"
| "sub_all (s # ss) t = (sub s t \<and> sub_all ss t)"
| "sub_some s [] = False"
| "sub_some s (t # ts) = (sub s t \<or> sub_some s ts)"
| "sub_flds e fs [] = True"
| "sub_flds e fs (Fld k r t # gs) =
     ((case find_fld fs k of None \<Rightarrow> e \<and> \<not> r | Some (r', s) \<Rightarrow> (r \<longrightarrow> r') \<and> sub s t) \<and> sub_flds e fs gs)"
  by pat_completeness auto
termination
  by (relation "measure (\<lambda>x. case x of
        Inl (Inl (s, t)) \<Rightarrow> size s + size t
      | Inl (Inr (ss, t)) \<Rightarrow> size_list size ss + size t
      | Inr (Inl (s, ts)) \<Rightarrow> size s + size_list size ts
      | Inr (Inr (e, fs, gs)) \<Rightarrow> size_list size fs + size_list size gs)")
    (auto dest: find_fld_size simp: ty_sizes less_SucI [OF ty_sizes(2)] less_SucI [OF ty_sizes(3)] trans_less_add1 [OF ty_sizes(1)])

text \<open>No value has both types.\<close>

function clash :: "ty \<Rightarrow> ty \<Rightarrow> bool"
and clash_all :: "ty list \<Rightarrow> ty \<Rightarrow> bool"
and clash_every :: "ty \<Rightarrow> ty list \<Rightarrow> bool"
and clash_flds :: "bool \<Rightarrow> fld list \<Rightarrow> fld list \<Rightarrow> bool" where
  "clash s t =
     (if is_union s then clash_all (alts s) t
      else s \<noteq> TAny \<and>
        (case t of
           TAny \<Rightarrow> False
         | TUnion ts \<Rightarrow> clash_every s ts
         | TArr b \<Rightarrow> \<not> is_arr s
         | TObj x gs \<Rightarrow> (if is_obj s then clash_flds (obj_exact s) (obj_flds s) gs else True)
         | TStr \<Rightarrow> (case s of TStr \<Rightarrow> False | TLit l \<Rightarrow> False | _ \<Rightarrow> True)
         | TLit l \<Rightarrow> s \<noteq> TStr \<and> s \<noteq> t
         | _ \<Rightarrow> s \<noteq> t))"
| "clash_all [] t = True"
| "clash_all (s # ss) t = (clash s t \<and> clash_all ss t)"
| "clash_every s [] = True"
| "clash_every s (t # ts) = (clash s t \<and> clash_every s ts)"
| "clash_flds e fs [] = False"
| "clash_flds e fs (Fld k r t # gs) =
     (r \<and> (case find_fld fs k of None \<Rightarrow> e | Some (r', s) \<Rightarrow> clash s t) \<or> clash_flds e fs gs)"
  by pat_completeness auto
termination
  by (relation "measure (\<lambda>x. case x of
        Inl (Inl (s, t)) \<Rightarrow> size s + size t
      | Inl (Inr (ss, t)) \<Rightarrow> size_list size ss + size t
      | Inr (Inl (s, ts)) \<Rightarrow> size s + size_list size ts
      | Inr (Inr (e, fs, gs)) \<Rightarrow> size_list size fs + size_list size gs)")
    (auto dest: find_fld_size simp: ty_sizes less_SucI [OF ty_sizes(2)] less_SucI [OF ty_sizes(3)] trans_less_add1 [OF ty_sizes(1)])

declare sub.simps [simp del] clash.simps [simp del]

text \<open>A value of a type: of every field and of the first alternative.\<close>

fun sample :: "ty \<Rightarrow> json"
and sample_flds :: "fld list \<Rightarrow> (string \<times> json) list" where
  "sample TNull = JNull"
| "sample TBool = JBool True"
| "sample TNum = JNum 1"
| "sample TStr = JStr ''x''"
| "sample (TLit l) = JStr l"
| "sample TAny = JNull"
| "sample (TArr t) = JArr [sample t]"
| "sample (TUnion ts) = (case ts of [] \<Rightarrow> JNull | t # _ \<Rightarrow> sample t)"
| "sample (TObj exact fs) = JObj (sample_flds fs)"
| "sample_flds [] = []"
| "sample_flds (Fld k r t # fs) = (k, sample t) # sample_flds fs"

section \<open>Readers\<close>

datatype reader =
    Whole
  | Get string reader
  | Having "string list" reader reader
  | IsArray reader reader
  | Rows
  | Empty
  | Renamed "(string \<times> string) list"
  | When "string list" reader reader
  | OrEmpty "string list"
  | Texts "string list"

fun chain :: "string list \<Rightarrow> json \<Rightarrow> json" where
  "chain [] j = (if j = JNull then JArr [] else j)"
| "chain (k # ks) j = (case field k j of None \<Rightarrow> JArr [] | Some v \<Rightarrow> chain ks v)"

text \<open>\<open>None\<close> is \<open>undefined\<close> or an exception: a property of something that has none, \<open>map\<close> of something that is no array.
  \<open>Having\<close> is the operator \<open>in\<close>, \<open>When\<close> a test of truth, \<open>OrEmpty\<close> is \<open>j.k?.l ?? []\<close>, and \<open>Texts\<close> throws unless
  the fields are texts that are not empty.\<close>

fun run_reader :: "reader \<Rightarrow> json \<Rightarrow> json option" where
  "run_reader Whole j = Some j"
| "run_reader (Get k r) j = (case field k j of None \<Rightarrow> None | Some v \<Rightarrow> run_reader r v)"
| "run_reader (Having ks r r') j = (if list_all (\<lambda>k. field k j \<noteq> None) ks then run_reader r j else run_reader r' j)"
| "run_reader (IsArray r r') j = (case j of JArr vs \<Rightarrow> run_reader r j | _ \<Rightarrow> run_reader r' j)"
| "run_reader Rows j = (case j of JArr vs \<Rightarrow> Some j | _ \<Rightarrow> None)"
| "run_reader Empty j = Some (JArr [])"
| "run_reader (Renamed names) j =
     (case j of
        JArr vs \<Rightarrow>
          Some (JArr (map (\<lambda>v. JObj (concat (map (\<lambda>(new, old). case field old v of None \<Rightarrow> [] | Some w \<Rightarrow> [(new, w)]) names))) vs))
      | _ \<Rightarrow> None)"
| "run_reader (When ks r r') j =
     (if list_all (\<lambda>k. case field k j of None \<Rightarrow> False | Some v \<Rightarrow> js_truthy v) ks then run_reader r j else run_reader r' j)"
| "run_reader (OrEmpty ks) j = (if j = JNull then None else Some (chain ks j))"
| "run_reader (Texts ks) j =
     (if list_all (\<lambda>k. case field k j of Some (JStr s) \<Rightarrow> s \<noteq> [] | _ \<Rightarrow> False) ks
      then Some (JObj (map (\<lambda>k. (k, the (field k j))) ks)) else None)"

text \<open>What a reader gives on every value of a type, when the type says enough.\<close>

datatype reading = Reads ty | Fails | Unclear

fun chain_type :: "string list \<Rightarrow> ty \<Rightarrow> ty option" where
  "chain_type [] t = (if is_arr t then Some t else None)"
| "chain_type (k # ks) t =
     (case t of
        TObj e fs \<Rightarrow>
          (case find_fld fs k of
             None \<Rightarrow> if e then Some (TArr (TUnion [])) else None
           | Some (rq, u) \<Rightarrow> if rq then chain_type ks u else None)
      | _ \<Rightarrow> None)"

fun read_type :: "reader \<Rightarrow> ty \<Rightarrow> reading" where
  "read_type Whole t = Reads t"
| "read_type (Get k r) t =
     (case t of
        TObj e fs \<Rightarrow>
          (case find_fld fs k of
             None \<Rightarrow> if e then Fails else Unclear
           | Some (rq, u) \<Rightarrow> if rq then read_type r u else Unclear)
      | TArr u \<Rightarrow> Fails
      | _ \<Rightarrow> Unclear)"
| "read_type (Having ks r r') t =
     (case t of
        TObj e fs \<Rightarrow>
          if list_all (\<lambda>k. case find_fld fs k of Some (True, u) \<Rightarrow> True | _ \<Rightarrow> False) ks then read_type r t
          else if e \<and> list_ex (\<lambda>k. find_fld fs k = None) ks then read_type r' t else Unclear
      | _ \<Rightarrow> Unclear)"
| "read_type (IsArray r r') t = (case t of TArr u \<Rightarrow> read_type r t | TObj e fs \<Rightarrow> read_type r' t | _ \<Rightarrow> Unclear)"
| "read_type Rows t = (case t of TArr u \<Rightarrow> Reads t | TObj e fs \<Rightarrow> Fails | _ \<Rightarrow> Unclear)"
| "read_type Empty t = Reads (TArr (TUnion []))"
| "read_type (When ks r r') t =
     (case t of
        TObj e fs \<Rightarrow>
          if e \<and> list_ex (\<lambda>k. find_fld fs k = None) ks then read_type r' t
          else if read_type r t = read_type r' t then read_type r t else Unclear
      | _ \<Rightarrow> Unclear)"
| "read_type (OrEmpty ks) t =
     (if is_obj t then case chain_type ks t of None \<Rightarrow> Unclear | Some u \<Rightarrow> Reads u else Unclear)"
| "read_type (Renamed names) t = Unclear"
| "read_type (Texts ks) t = Unclear"

text \<open>\<open>BrokenRows\<close>: of the lists only the empty one is right.\<close>

datatype verdict = Conforms | Broken | BrokenRows | Loose

definition verdict_of :: "reader \<Rightarrow> ty \<Rightarrow> ty \<Rightarrow> verdict" where
  "verdict_of r answer result =
     (case read_type r answer of
        Reads u \<Rightarrow> if sub u result then Conforms else if clash u result then Broken
                   else if is_arr u \<and> is_arr result \<and> clash (elem u) (elem result) then BrokenRows else Loose
      | Fails \<Rightarrow> Broken
      | Unclear \<Rightarrow> Loose)"

section \<open>Soundness\<close>

lemma has_fields_find:
  "has_fields fs kvs \<Longrightarrow> find_fld fs k = Some (r, t) \<Longrightarrow>
     (case map_of kvs k of None \<Rightarrow> \<not> r | Some v \<Rightarrow> has_type t v)"
  by (induction fs k rule: find_fld.induct) (auto split: if_splits)

lemma find_fld_None: "find_fld fs k = None \<longleftrightarrow> \<not> list_ex (\<lambda>f. case f of Fld k' r t \<Rightarrow> k' = k) fs"
  by (induction fs k rule: find_fld.induct) auto

lemma exact_absent:
  assumes "has_type (TObj True fs) (JObj kvs)" "find_fld fs k = None"
  shows "map_of kvs k = None"
proof (rule ccontr)
  assume "map_of kvs k \<noteq> None"
  then obtain v where "(k, v) \<in> set kvs" by (auto dest: map_of_SomeD)
  then show False using assms by (auto simp: list_all_iff find_fld_None)
qed

lemma typed_arr: "has_type (TArr t) j \<longleftrightarrow> (\<exists>vs. j = JArr vs \<and> list_all (has_type t) vs)"
  by (cases j) auto

lemma typed_obj: "has_type (TObj e fs) j \<Longrightarrow> \<exists>kvs. j = JObj kvs"
  by (cases j) auto

lemma sub_sound_mutual:
  "sub s t \<Longrightarrow> has_type s j \<Longrightarrow> has_type t j"
  "sub_all ss t1 \<Longrightarrow> has_some ss j1 \<Longrightarrow> has_type t1 j1"
  "sub_some s2 ts \<Longrightarrow> has_type s2 j2 \<Longrightarrow> has_some ts j2"
  "sub_flds e fs gs \<Longrightarrow> has_type (TObj e fs) (JObj kvs) \<Longrightarrow> has_fields gs kvs"
proof (induction s t and ss t1 and s2 ts and e fs gs arbitrary: j and j1 and j2 and kvs
    rule: sub_sub_all_sub_some_sub_flds.induct)
  case (1 s t j)
  show ?case
  proof (cases "is_union s")
    case True
    then show ?thesis using "1.IH"(1) "1.prems" by (auto simp: sub.simps [of s] is_union_def)
  next
    case n: False
    show ?thesis
    proof (cases t)
      case (TUnion ts)
      then show ?thesis using "1.IH"(3) [OF n TUnion] "1.prems" n by (simp add: sub.simps [of s])
    next
      case (TArr b)
      then obtain a where "s = TArr a" "sub a b" using "1.prems"(1) n by (auto simp: sub.simps [of s] is_arr_def split: if_splits)
      then show ?thesis using "1.IH"(2) [OF n TArr] "1.prems"(2) TArr
        by (auto simp: list_all_iff split: json.splits)
    next
      case (TObj x gs)
      then obtain e fs where s: "s = TObj e fs" "\<not> x" "sub_flds e fs gs"
        using "1.prems"(1) n by (auto simp: sub.simps [of s] is_obj_def split: if_splits)
      then obtain kvs where j: "j = JObj kvs" using "1.prems"(2) typed_obj by blast
      have "has_fields gs kvs" using "1.IH"(4) [OF n TObj] s j "1.prems"(2) by simp
      then show ?thesis using TObj s j by simp
    next
      case TStr
      then show ?thesis using "1.prems" n by (cases s) (auto simp: sub.simps)
    qed (use "1.prems" n in \<open>simp_all add: sub.simps [of s]\<close>)
  qed
next
  case (7 e fs k r t gs kvs)
  show ?case
  proof (cases "find_fld fs k")
    case None
    then have e: "e" "\<not> r" "sub_flds e fs gs" using "7.prems"(1) None by auto
    then have "map_of kvs k = None" using exact_absent [OF _ None] "7.prems"(2) by simp
    moreover have "has_fields gs kvs" using "7.IH"(2) e(3) "7.prems"(2) by blast
    ultimately show ?thesis using e(2) by simp
  next
    case (Some p)
    then show ?thesis using 7 has_fields_find [of fs kvs k "fst p" "snd p"]
      by (cases p) (auto split: option.splits)
  qed
qed auto

lemmas sub_sound = sub_sound_mutual(1)

lemma clash_sound_mutual:
  "clash s t \<Longrightarrow> has_type s j \<Longrightarrow> \<not> has_type t j"
  "clash_all ss t1 \<Longrightarrow> has_some ss j1 \<Longrightarrow> \<not> has_type t1 j1"
  "clash_every s2 ts \<Longrightarrow> has_type s2 j2 \<Longrightarrow> \<not> has_some ts j2"
  "clash_flds e fs gs \<Longrightarrow> has_type (TObj e fs) (JObj kvs) \<Longrightarrow> \<not> has_fields gs kvs"
proof (induction s t and ss t1 and s2 ts and e fs gs arbitrary: j and j1 and j2 and kvs
    rule: clash_clash_all_clash_every_clash_flds.induct)
  case (1 s t j)
  show ?case
  proof (cases "is_union s")
    case True
    then show ?thesis using "1.IH"(1) "1.prems" by (auto simp: clash.simps [of s] is_union_def)
  next
    case n: False
    have a: "s \<noteq> TAny" using "1.prems"(1) n by (auto simp: clash.simps [of s])
    show ?thesis
    proof (cases t)
      case (TUnion ts)
      then show ?thesis using "1.IH"(2) [OF n TUnion] "1.prems" n by (simp add: clash.simps [of s])
    next
      case (TArr b)
      then show ?thesis using "1.prems" n a by (cases s) (auto simp: clash.simps split: json.splits)
    next
      case (TObj x gs)
      show ?thesis
      proof (cases "is_obj s")
        case True
        then obtain e fs where s: "s = TObj e fs" "clash_flds e fs gs"
          using "1.prems"(1) n TObj by (auto simp: clash.simps [of s] is_obj_def)
        then obtain kvs where j: "j = JObj kvs" using "1.prems"(2) typed_obj by blast
        have "\<not> has_fields gs kvs" using "1.IH"(3) [OF n TObj True] s j "1.prems"(2) by simp
        then show ?thesis using TObj j by simp
      next
        case False
        then show ?thesis using "1.prems" n a TObj by (cases s) (auto split: json.splits)
      qed
    next
      case TStr
      then show ?thesis using "1.prems" n a by (cases s) (auto simp: clash.simps split: json.splits)
    next
      case (TLit l)
      then show ?thesis using "1.prems" n a by (cases s) (auto simp: clash.simps split: json.splits)
    qed (use "1.prems" n a in \<open>cases s; auto simp: clash.simps split: json.splits\<close>)+
  qed
next
  case (7 e fs k r t gs kvs)
  show ?case
  proof (cases "find_fld fs k")
    case None
    show ?thesis
    proof (cases "r \<and> e")
      case True
      then have "map_of kvs k = None" using exact_absent [OF _ None] "7.prems"(2) by simp
      then show ?thesis using True by simp
    next
      case False
      then have "clash_flds e fs gs" using "7.prems"(1) None by auto
      then have "\<not> has_fields gs kvs" using "7.IH"(2) "7.prems"(2) by blast
      then show ?thesis by simp
    qed
  next
    case (Some p)
    then show ?thesis using 7 has_fields_find [of fs kvs k "fst p" "snd p"]
      by (cases p) (auto split: option.splits)
  qed
qed auto

lemmas clash_sound = clash_sound_mutual(1)

text \<open>The fields of an object type have different names.\<close>

fun wf_ty :: "ty \<Rightarrow> bool"
and wf_flds :: "fld list \<Rightarrow> bool" where
  "wf_ty (TArr t) = wf_ty t"
| "wf_ty (TUnion ts) = (case ts of [] \<Rightarrow> False | t # _ \<Rightarrow> wf_ty t)"
| "wf_ty (TObj e fs) = wf_flds fs"
| "wf_ty t = True"
| "wf_flds [] = True"
| "wf_flds (Fld k r t # fs) = (find_fld fs k = None \<and> wf_ty t \<and> wf_flds fs)"

lemma map_of_sample: "map_of (sample_flds fs) k = map_option (\<lambda>(r, t). sample t) (find_fld fs k)"
  by (induction fs k rule: find_fld.induct) auto

lemma has_fields_other:
  "find_fld fs k = None \<Longrightarrow> has_fields fs ((k, v) # kvs) = has_fields fs kvs"
  by (induction fs k rule: find_fld.induct) (auto split: if_splits)

lemma sample_key: "(k, v) \<in> set (sample_flds fs) \<Longrightarrow> find_fld fs k \<noteq> None"
  by (induction fs k rule: find_fld.induct) auto

lemma sample_typed_mutual:
  "wf_ty t \<Longrightarrow> has_type t (sample t)"
  "wf_flds fs \<Longrightarrow> has_fields fs (sample_flds fs)"
proof (induction t and fs rule: wf_ty_wf_flds.induct)
  case (3 e fs)
  then show ?case using sample_key [of _ _ fs] by (auto simp: list_all_iff find_fld_None simp del: not_None_eq)
qed (auto simp: has_fields_other split: list.splits)

lemmas sample_typed = sample_typed_mutual(1)

lemma field_present:
  assumes "has_type (TObj e fs) j" "find_fld fs k = Some (True, t)"
  shows "\<exists>v. field k j = Some v \<and> has_type t v"
proof -
  obtain kvs where j: "j = JObj kvs" using typed_obj [OF assms(1)] ..
  then have "case map_of kvs k of None \<Rightarrow> \<not> True | Some v \<Rightarrow> has_type t v"
    using has_fields_find [OF _ assms(2)] assms(1) by simp
  then show ?thesis using j by (auto simp: field_def split: option.splits)
qed

lemma field_absent:
  assumes "has_type (TObj True fs) j" "find_fld fs k = None"
  shows "field k j = None"
proof -
  obtain kvs where "j = JObj kvs" using typed_obj [OF assms(1)] ..
  then show ?thesis using exact_absent [of fs kvs k] assms by (simp add: field_def)
qed

lemma field_arr: "has_type (TArr t) j \<Longrightarrow> field k j = None"
  by (auto simp: typed_arr field_def simp del: has_type.simps)

lemma chain_sound: "chain_type ks t = Some u \<Longrightarrow> has_type t j \<Longrightarrow> has_type u (chain ks j)"
proof (induction ks arbitrary: t j)
  case Nil
  then obtain b vs where "t = TArr b" "j = JArr vs" "u = t" using typed_arr by (auto simp: is_arr_def simp del: has_type.simps split: if_splits)
  then show ?case using Nil(2) by simp
next
  case (Cons k ks)
  then obtain e fs where t: "t = TObj e fs" by (auto split: ty.splits)
  show ?case
  proof (cases "find_fld fs k")
    case None
    then have "e" "u = TArr (TUnion [])" using Cons(2) t by (auto split: if_splits)
    then show ?thesis using field_absent [of fs j k] Cons(3) t None by simp
  next
    case (Some p)
    then obtain b where b: "find_fld fs k = Some (True, b)" "chain_type ks b = Some u"
      using Cons(2) t by (cases p) (auto split: if_splits)
    obtain v where "field k j = Some v" "has_type b v" using field_present [OF _ b(1), of e j] Cons(3) t by blast
    then show ?thesis using Cons(1) [OF b(2)] by simp
  qed
qed

lemma when_absent:
  "has_type (TObj True fs) j \<Longrightarrow> list_ex (\<lambda>k. find_fld fs k = None) ks \<Longrightarrow>
     \<not> list_all (\<lambda>k. case field k j of None \<Rightarrow> False | Some v \<Rightarrow> js_truthy v) ks"
  using field_absent [of fs j] by (force simp: list_all_iff list_ex_iff)

lemma read_sound:
  "read_type r t = Reads u \<Longrightarrow> has_type t j \<Longrightarrow> \<exists>v. run_reader r j = Some v \<and> has_type u v"
  "read_type r t = Fails \<Longrightarrow> has_type t j \<Longrightarrow> run_reader r j = None"
proof (induction r arbitrary: t u j)
  case (Get k r)
  { case 1
    then obtain e fs b where t: "t = TObj e fs" "find_fld fs k = Some (True, b)" "read_type r b = Reads u"
      by (auto split: ty.splits option.splits if_splits)
    then obtain v where v: "field k j = Some v" "has_type b v" using field_present 1(2) by blast
    then show ?case using Get(1) [OF t(3) v(2)] by simp }
  { case 2
    then consider (arr) b where "t = TArr b" | (absent) fs where "t = TObj True fs" "find_fld fs k = None"
      | (present) e fs b where "t = TObj e fs" "find_fld fs k = Some (True, b)" "read_type r b = Fails"
      by (auto split: ty.splits option.splits if_splits)
    then show ?case
    proof cases
      case arr
      then show ?thesis using field_arr 2(2) by simp
    next
      case absent
      then show ?thesis using field_absent 2(2) by simp
    next
      case present
      then obtain v where "field k j = Some v" "has_type b v" using field_present 2(2) by blast
      then show ?thesis using Get(2) present(3) by simp
    qed }
next
  case (Having ks r r')
  have yes: "list_all (\<lambda>k. field k j \<noteq> None) ks"
    if tj: "has_type (TObj e fs) j" and ks: "list_all (\<lambda>k. case find_fld fs k of Some (True, u) \<Rightarrow> True | _ \<Rightarrow> False) ks" for e fs j
    unfolding list_all_iff
  proof
    fix k assume "k \<in> set ks"
    then obtain u where "find_fld fs k = Some (True, u)"
      using ks by (cases "find_fld fs k") (auto simp: list_all_iff split: bool.splits)
    then show "field k j \<noteq> None" using field_present [OF tj] by auto
  qed
  have no: "\<not> list_all (\<lambda>k. field k j \<noteq> None) ks"
    if "has_type (TObj True fs) j" "list_ex (\<lambda>k. find_fld fs k = None) ks" for fs j
    using that field_absent [OF that(1)] by (auto simp: list_all_iff list_ex_iff)
  { case 1
    then obtain e fs where t: "t = TObj e fs" by (auto split: ty.splits)
    show ?case
    proof (cases "list_all (\<lambda>k. case find_fld fs k of Some (True, u) \<Rightarrow> True | _ \<Rightarrow> False) ks")
      case True
      then show ?thesis using 1 t yes [of e fs j] Having(1) [of t u j] by simp
    next
      case False
      then have n: "e" "list_ex (\<lambda>k. find_fld fs k = None) ks" "read_type r' t = Reads u"
        using 1(1) t by (auto split: if_splits)
      then show ?thesis using 1(2) t no [of fs j] Having(3) [of t u j] by auto
    qed }
  { case 2
    then obtain e fs where t: "t = TObj e fs" by (auto split: ty.splits)
    show ?case
    proof (cases "list_all (\<lambda>k. case find_fld fs k of Some (True, u) \<Rightarrow> True | _ \<Rightarrow> False) ks")
      case True
      then show ?thesis using 2 t yes [of e fs j] Having(2) [of t j] by simp
    next
      case False
      then have n: "e" "list_ex (\<lambda>k. find_fld fs k = None) ks" "read_type r' t = Fails"
        using 2(1) t by (auto split: if_splits)
      then show ?thesis using 2(2) t no [of fs j] Having(4) [of t j] by auto
    qed }
next
  case (IsArray r r')
  have arr: "run_reader (IsArray r r') j = run_reader r j" if "has_type (TArr b) j" for b j
    using that unfolding typed_arr by auto
  have obj: "run_reader (IsArray r r') j = run_reader r' j" if "has_type (TObj e fs) j" for e fs j
    using typed_obj [OF that] by auto
  { case 1 then show ?case using arr [of _ j] obj [of _ _ j] IsArray(1,3) [of t u j] by (cases t) (simp_all del: has_type.simps run_reader.simps) }
  { case 2 then show ?case using arr [of _ j] obj [of _ _ j] IsArray(2,4) [of t j] by (cases t) (simp_all del: has_type.simps run_reader.simps) }
next
  case (When ks r r')
  { case 1
    then obtain e fs where t: "t = TObj e fs" by (auto split: ty.splits)
    show ?case
    proof (cases "e \<and> list_ex (\<lambda>k. find_fld fs k = None) ks")
      case True
      then show ?thesis using 1 t when_absent [of fs j ks] When(3) [of t u j] by auto
    next
      case False
      then have "read_type r t = Reads u" "read_type r' t = Reads u" using 1(1) t by (auto split: if_splits)
      then show ?thesis using When(1) [of t u j] When(3) [of t u j] 1(2) by simp
    qed }
  { case 2
    then obtain e fs where t: "t = TObj e fs" by (auto split: ty.splits)
    show ?case
    proof (cases "e \<and> list_ex (\<lambda>k. find_fld fs k = None) ks")
      case True
      then show ?thesis using 2 t when_absent [of fs j ks] When(4) [of t j] by auto
    next
      case False
      then have "read_type r t = Fails" "read_type r' t = Fails" using 2(1) t by (auto split: if_splits)
      then show ?thesis using When(2) [of t j] When(4) [of t j] 2(2) by simp
    qed }
next
  case (OrEmpty ks)
  { case 1
    then have c: "is_obj t" "chain_type ks t = Some u" by (auto split: if_splits option.splits)
    then have "j \<noteq> JNull" using 1(2) by (auto simp: is_obj_def)
    then show ?case using chain_sound [OF c(2) 1(2)] by simp }
  { case 2 then show ?case by (auto split: if_splits option.splits) }
next
  case Rows
  { case 1 then show ?case using typed_arr [of _ j] by (cases t) (auto simp del: has_type.simps) }
  { case 2 then show ?case by (cases t; cases j) auto }
qed auto

text \<open>A verdict is right for every answer.\<close>

lemma verdict_sound:
  "verdict_of r t u = Conforms \<Longrightarrow> has_type t j \<Longrightarrow> \<exists>v. run_reader r j = Some v \<and> has_type u v"
  "verdict_of r t u = Broken \<Longrightarrow> has_type t j \<Longrightarrow> \<not> (\<exists>v. run_reader r j = Some v \<and> has_type u v)"
  using read_sound(1) [of r t _ j] read_sound(2) [of r t j] sub_sound [of _ u] clash_sound [of _ u]
  by (auto simp: verdict_of_def split: reading.splits if_splits)

lemma verdict_rows:
  assumes "verdict_of r t u = BrokenRows" "has_type t j" "run_reader r j = Some v" "has_type u v"
  shows "v = JArr []"
proof -
  obtain s where s: "read_type r t = Reads s" "is_arr s" "is_arr u" "clash (elem s) (elem u)"
    using assms(1) by (auto simp: verdict_of_def split: reading.splits if_splits)
  then obtain a b where ab: "s = TArr a" "u = TArr b" "clash a b" by (auto simp: is_arr_def)
  have "has_type s v" using read_sound(1) [OF s(1) assms(2)] assms(3) by simp
  then obtain vs where vs: "v = JArr vs" "list_all (has_type a) vs" "list_all (has_type b) vs"
    using ab assms(4) typed_arr by auto
  then show ?thesis using clash_sound [OF ab(3)] by (cases vs) auto
qed

end
