(* ===== verification/ApiTypes.thy ===== *)
theory ApiTypes
  imports WireTypes
begin

text \<open>
  What the two sides of the API declare: the interfaces of \<open>src/frontend/src/app/hooks/useApi.ts\<close> that the components
  of the browser rely on, the answers that the controllers of the backend build, and the bodies that their
  schemas and handlers want.
\<close>

section \<open>Interfaces of the browser\<close>

definition LoanStatus_ty :: ty where
  "LoanStatus_ty = TUnion [TLit ''active'', TLit ''pending'', TLit ''repaid'', TLit ''defaulted'', TLit ''liquidated'']"

definition Loan_ty :: ty where
  "Loan_ty = iface [req ''id'' TStr, req ''amount'' TNum, req ''currency'' TStr, req ''interestRate'' TNum, req ''termDays'' TNum,
     req ''status'' LoanStatus_ty, req ''borrowerId'' TStr, req ''createdAt'' TStr]"

definition Remittance_ty :: ty where
  "Remittance_ty = iface [req ''id'' TStr, req ''amount'' TNum, req ''fromCurrency'' TStr, req ''toCurrency'' TStr,
     req ''recipientAddress'' TStr, opt ''memo'' TStr,
     req ''status'' (TUnion [TLit ''pending'', TLit ''processing'', TLit ''completed'', TLit ''failed'']), req ''createdAt'' TStr]"

definition UserProfile_ty :: ty where
  "UserProfile_ty = iface [req ''id'' TStr, req ''email'' TStr, opt ''walletAddress'' TStr, req ''kycVerified'' TBool]"

definition AuthSession_ty :: ty where
  "AuthSession_ty = iface [opt ''publicKey'' TStr, opt ''role'' (TUnion [TLit ''admin'', TLit ''borrower'', TLit ''lender'']),
     opt ''scopes'' (TArr TStr), req ''valid'' TBool]"

definition UserBalance_ty :: ty where
  "UserBalance_ty = iface [req ''available'' TNum, req ''locked'' TNum, req ''currency'' TStr]"

definition CreditScoreHistory_ty :: ty where
  "CreditScoreHistory_ty = iface [req ''date'' TStr, req ''score'' TNum, opt ''event'' TStr]"

definition ScoreBreakdownMetrics_ty :: ty where
  "ScoreBreakdownMetrics_ty = iface [req ''totalLoans'' TNum, req ''repaidOnTime'' TNum, req ''repaidLate'' TNum, req ''defaulted'' TNum,
     req ''totalRepaid'' TNum, req ''averageRepaymentTime'' TStr, req ''longestStreak'' TNum, req ''currentStreak'' TNum]"

definition ScoreBreakdownResponse_ty :: ty where
  "ScoreBreakdownResponse_ty = iface [req ''success'' TBool, req ''userId'' TStr, req ''score'' TNum, req ''band'' TStr,
     req ''breakdown'' ScoreBreakdownMetrics_ty,
     req ''history'' (TArr (iface [req ''date'' (nullable TStr), req ''score'' TNum, req ''event'' TStr]))]"

definition RemittanceNftMetadata_ty :: ty where
  "RemittanceNftMetadata_ty = iface [req ''score'' TNum, req ''historyHash'' TStr, req ''metadataUri'' TStr, req ''defaultCount'' TNum,
     req ''transferCooldownRemaining'' TNum, req ''lastUpdateLedger'' TNum]"

definition LoanConfig_ty :: ty where
  "LoanConfig_ty = iface [req ''minScore'' TNum, req ''maxAmount'' TNum, req ''interestRatePercent'' TNum]"

definition YieldHistory_ty :: ty where
  "YieldHistory_ty = iface [req ''date'' TStr, req ''earnings'' TNum, req ''apy'' TNum, opt ''principal'' TNum]"

definition BorrowerLoan_ty :: ty where
  "BorrowerLoan_ty = iface [req ''id'' TNum, req ''principal'' TNum, req ''accruedInterest'' TNum, req ''totalOwed'' TNum, req ''totalRepaid'' TNum,
     req ''nextPaymentDeadline'' TStr, req ''status'' LoanStatus_ty, req ''borrower'' TStr, opt ''approvedAt'' TStr, opt ''latestEventType'' TStr]"

definition LoanEvent_ty :: ty where
  "LoanEvent_ty = iface [req ''type'' TStr, req ''amount'' (TUnion [TStr, TNum]), req ''timestamp'' TStr, opt ''txHash'' TStr]"

definition LoanDetails_ty :: ty where
  "LoanDetails_ty = iface [req ''loanId'' TNum, req ''principal'' TNum, req ''accruedInterest'' TNum, req ''totalRepaid'' TNum, req ''totalOwed'' TNum,
     req ''interestRate'' TNum, req ''status'' LoanStatus_ty, opt ''requestedAt'' TStr, opt ''approvedAt'' TStr, req ''events'' (TArr LoanEvent_ty),
     opt ''lateFees'' TNum, opt ''collateralLocked'' TNum, opt ''collateralRatio'' TNum, opt ''healthFactor'' TNum, opt ''liquidationThreshold'' TNum,
     opt ''healthSource'' (TUnion [TLit ''contract'', TLit ''backend''])]"

definition LoanAmortization_ty :: ty where
  "LoanAmortization_ty = iface [req ''principal'' TNum, req ''interestRateBps'' TNum, req ''termLedgers'' TNum, req ''totalInterest'' TNum,
     req ''totalDue'' TNum,
     req ''schedule'' (TArr (iface [req ''date'' TStr, req ''principalPortion'' TNum, req ''interestPortion'' TNum, req ''totalDue'' TNum,
       req ''runningBalance'' TNum]))]"

definition PoolStats_ty :: ty where
  "PoolStats_ty = iface [req ''totalDeposits'' TNum, req ''totalOutstanding'' TNum, req ''utilizationRate'' TNum, req ''apy'' TNum,
     req ''activeLoansCount'' TNum, opt ''poolTokenAddress'' TStr, opt ''withdrawalCooldownLedgers'' TNum]"

definition DepositorPortfolio_ty :: ty where
  "DepositorPortfolio_ty = iface [req ''address'' TStr, req ''depositAmount'' TNum, req ''sharePercent'' TNum, req ''estimatedYield'' TNum,
     req ''apy'' TNum, req ''firstDepositAt'' (nullable TStr), opt ''lastDepositAt'' (nullable TStr)]"

definition MyTransaction_ty :: ty where
  "MyTransaction_ty = iface [req ''id'' TNum, req ''txHash'' TStr, req ''status'' TStr, req ''submittedAt'' TStr,
     req ''submittedBy'' (nullable TStr), req ''transactionType'' TStr, opt ''resultXdr'' (nullable TStr)]"

definition GovernancePendingProposal_ty :: ty where
  "GovernancePendingProposal_ty = iface [req ''id'' TStr, req ''targetContract'' TStr, req ''proposedAdmin'' TStr, req ''approvalCount'' TNum,
     req ''threshold'' TNum, req ''executableAt'' (nullable TStr), req ''expiresAt'' (nullable TStr),
     req ''signers'' (TArr (iface [req ''address'' TStr, req ''approved'' TBool]))]"

definition GovernancePendingResponse_ty :: ty where
  "GovernancePendingResponse_ty = iface [req ''currentAdmin'' (nullable TStr), req ''targetContract'' (nullable TStr),
     req ''pendingProposal'' (nullable GovernancePendingProposal_ty)]"

definition AppNotification_ty :: ty where
  "AppNotification_ty = iface [req ''id'' TNum, req ''userId'' TStr,
     req ''type'' (TUnion [TLit ''loan_approved'', TLit ''repayment_due'', TLit ''repayment_confirmed'', TLit ''loan_defaulted'', TLit ''score_changed'']),
     req ''title'' TStr, req ''message'' TStr, opt ''loanId'' TNum, req ''read'' TBool, req ''createdAt'' TStr]"

definition NotificationsResponse_ty :: ty where
  "NotificationsResponse_ty = iface [req ''notifications'' (TArr AppNotification_ty), req ''unreadCount'' TNum]"

definition NotificationPreferences_ty :: ty where
  "NotificationPreferences_ty = iface [req ''emailEnabled'' TBool, req ''smsEnabled'' TBool, req ''phone'' (nullable TStr),
     req ''perTypeOverrides'' (iface [])]"

definition unsigned_ty :: ty where
  "unsigned_ty = iface [req ''unsignedTxXdr'' TStr, req ''networkPassphrase'' TStr]"

definition submitted_ty :: ty where
  "submitted_ty = iface [req ''txHash'' TStr, req ''status'' TStr, opt ''resultXdr'' TStr]"

definition BuildLoanTxResponse_ty :: ty where
  "BuildLoanTxResponse_ty = iface [req ''success'' TBool, req ''loanId'' TNum, req ''unsignedTxXdr'' TStr, req ''networkPassphrase'' TStr]"

section \<open>Answers of the backend\<close>

text \<open>Dates and times of the database become texts; a column that may be empty is \<open>null\<close>.\<close>

definition page_info_answer :: ty where
  "page_info_answer = rec [req ''limit'' TNum, req ''count'' TNum, req ''next_cursor'' (nullable TStr), req ''has_previous'' TBool, req ''has_next'' TBool]"

definition keyset_page_answer :: ty where
  "keyset_page_answer = rec [req ''next_cursor'' (nullable TStr), req ''snapshot_seq'' TStr, req ''total_at_snapshot'' TNum, req ''limit'' TNum]"

definition ok_data :: "ty \<Rightarrow> ty" where "ok_data t = rec [req ''success'' TBool, req ''data'' t]"

definition unsigned_answer :: ty where
  "unsigned_answer = rec [req ''success'' TBool, req ''unsignedTxXdr'' TStr, req ''networkPassphrase'' TStr]"

definition loan_tx_answer :: ty where
  "loan_tx_answer = rec [req ''success'' TBool, req ''loanId'' TNum, req ''unsignedTxXdr'' TStr, req ''networkPassphrase'' TStr]"

definition submitted_answer :: ty where
  "submitted_answer = rec [req ''success'' TBool, req ''txHash'' TStr, req ''status'' TStr, opt ''resultXdr'' TStr]"

definition amortization_answer :: ty where
  "amortization_answer = rec [req ''principal'' TNum, req ''interestRateBps'' TNum, req ''termLedgers'' TNum, req ''totalInterest'' TNum,
     req ''totalDue'' TNum,
     req ''schedule'' (TArr (rec [req ''date'' TStr, req ''principalPortion'' TNum, req ''interestPortion'' TNum, req ''totalDue'' TNum,
       req ''runningBalance'' TNum]))]"

definition loan_status_answer :: ty where
  "loan_status_answer = TUnion [TLit ''pending_indexing'', TLit ''defaulted'', TLit ''active'', TLit ''repaid'']"

definition borrower_loan_answer :: ty where
  "borrower_loan_answer = rec [req ''loanId'' TNum, req ''principal'' TNum, req ''accruedInterest'' (nullable TNum), req ''totalRepaid'' TNum,
     req ''totalOwed'' (nullable TNum), req ''nextPaymentDeadline'' TStr, req ''status'' loan_status_answer, req ''borrower'' TStr,
     req ''approvedAt'' (nullable TStr), opt ''latestEventType'' TStr]"

definition getBorrowerLoans_answer :: ty where
  "getBorrowerLoans_answer = rec [req ''success'' TBool, req ''data'' (rec [req ''borrower'' TStr, req ''loans'' (TArr borrower_loan_answer)]),
     req ''total_count'' TNum, req ''page_info'' page_info_answer]"

definition getLoanConfig_answer :: ty where
  "getLoanConfig_answer = ok_data (rec [req ''minScore'' TNum, req ''maxAmount'' TNum, req ''interestRatePercent'' TNum, req ''creditScoreThreshold'' TNum])"

definition getLoanDetails_answer :: ty where
  "getLoanDetails_answer = rec [req ''success'' TBool, req ''loanId'' TStr,
     req ''summary'' (rec [req ''principal'' TNum, req ''accruedInterest'' (nullable TNum), req ''totalRepaid'' TNum, req ''totalOwed'' (nullable TNum),
       req ''interestRate'' TNum, req ''termLedgers'' TNum, req ''elapsedLedgers'' TNum, req ''status'' loan_status_answer,
       opt ''requestedAt'' (nullable TStr), opt ''approvedAt'' (nullable TStr),
       req ''events'' (TArr (rec [req ''type'' TStr, req ''amount'' (nullable TStr), req ''timestamp'' (nullable TStr), req ''tx'' (nullable TStr)])),
       req ''disputeFrozen'' TBool])]"

definition loan_amortization_answer :: ty where
  "loan_amortization_answer = rec [req ''success'' TBool, req ''loanId'' TStr, req ''amortization'' amortization_answer]"

definition preview_amortization_answer :: ty where
  "preview_amortization_answer = rec [req ''success'' TBool, req ''amortization'' amortization_answer]"

definition getLoanEvents_answer :: ty where
  "getLoanEvents_answer = rec [req ''success'' TBool, req ''data'' (rec [req ''loanId'' (nullable TNum), req ''items'' (TArr TAny)]),
     req ''page'' keyset_page_answer]"

definition remittance_answer :: ty where
  "remittance_answer = rec [req ''id'' TStr, req ''senderId'' TStr, req ''recipientAddress'' TStr, req ''amount'' TNum, req ''fromCurrency'' TStr,
     req ''toCurrency'' TStr, req ''memo'' (nullable TStr),
     req ''status'' (TUnion [TLit ''pending'', TLit ''processing'', TLit ''completed'', TLit ''failed'']),
     req ''transactionHash'' (nullable TStr), req ''xdr'' (nullable TStr), req ''createdAt'' TStr, req ''updatedAt'' TStr]"

definition createRemittance_answer :: ty where
  "createRemittance_answer = rec [req ''success'' TBool, req ''data'' remittance_answer, req ''message'' TStr]"

definition getRemittances_answer :: ty where
  "getRemittances_answer = rec [req ''success'' TBool, req ''data'' (TArr remittance_answer), req ''page'' keyset_page_answer]"

definition getRemittance_answer :: ty where
  "getRemittance_answer = ok_data remittance_answer"

definition serializeProfile_answer :: ty where
  "serializeProfile_answer = rec [req ''id'' TStr, req ''email'' TStr, req ''walletAddress'' TStr, req ''kycVerified'' TBool, req ''displayName'' TStr,
     req ''phone'' TStr, opt ''locale'' TStr, opt ''avatarUrl'' TStr, req ''emailEnabled'' TBool, req ''smsEnabled'' TBool,
     req ''createdAt'' TStr, req ''updatedAt'' TStr]"

definition band_answer :: ty where
  "band_answer = TUnion [TLit ''Excellent'', TLit ''Good'', TLit ''Fair'', TLit ''Poor'']"

definition getScore_answer :: ty where
  "getScore_answer = rec [req ''success'' TBool, req ''userId'' TStr, req ''score'' TNum, req ''band'' band_answer,
     req ''factors'' (rec [req ''repaymentHistory'' TStr, req ''latePaymentPenalty'' TStr, req ''range'' TStr])]"

definition getScoreBreakdown_answer :: ty where
  "getScoreBreakdown_answer = rec [req ''success'' TBool, req ''userId'' TStr, req ''score'' TNum, req ''band'' band_answer,
     req ''breakdown'' (rec [req ''totalLoans'' TNum, req ''repaidOnTime'' TNum, req ''repaidLate'' TNum, req ''defaulted'' TNum,
       req ''totalRepaid'' TNum, req ''averageRepaymentTime'' TStr, req ''longestStreak'' TNum, req ''currentStreak'' TNum]),
     req ''history'' (TArr (rec [req ''date'' (nullable TStr), req ''score'' TNum, req ''event'' TStr]))]"

definition getOnChainScoreHistory_answer :: ty where
  "getOnChainScoreHistory_answer = rec [req ''success'' TBool, req ''walletAddress'' TStr,
     req ''history'' (TArr (rec [req ''score'' TNum, req ''timestamp'' TNum, req ''reason'' TStr]))]"

definition getRemittanceNft_answer :: ty where
  "getRemittanceNft_answer = rec [req ''success'' TBool, req ''walletAddress'' TStr,
     req ''nft'' (nullable (rec [req ''score'' TNum, req ''historyHash'' TStr, req ''metadataUri'' TStr, req ''defaultCount'' TNum,
       req ''transferCooldownRemaining'' TNum, req ''lastUpdateLedger'' TNum]))]"

definition getPoolStats_answer :: ty where
  "getPoolStats_answer = ok_data (rec [req ''totalDeposits'' TNum, req ''totalOutstanding'' TNum, req ''utilizationRate'' TNum, req ''apy'' TNum,
     req ''activeLoansCount'' TNum, opt ''poolTokenAddress'' TStr, req ''withdrawalCooldownLedgers'' TNum])"

definition getDepositorPortfolio_answer :: ty where
  "getDepositorPortfolio_answer = ok_data (rec [req ''address'' TStr, req ''depositAmount'' TNum, req ''sharePercent'' TNum,
     req ''estimatedYield'' TNum, req ''apy'' TNum, req ''firstDepositAt'' (nullable TStr), req ''lastDepositAt'' (nullable TStr)])"

definition getDepositorYieldHistory_answer :: ty where
  "getDepositorYieldHistory_answer = ok_data (TArr (rec [req ''timestamp'' TStr, req ''depositedValue'' TNum, req ''currentValue'' TNum,
     req ''netYield'' TNum, req ''date'' TStr, req ''earnings'' TNum, req ''principal'' TNum, req ''apy'' TNum]))"

definition getNotifications_answer :: ty where
  "getNotifications_answer = ok_data (rec [
     req ''notifications'' (TArr (rec [req ''id'' TNum, req ''userId'' TStr,
       req ''type'' (TUnion [TLit ''loan_liquidated'', TLit ''loan_approved'', TLit ''repayment_due'', TLit ''repayment_confirmed'',
         TLit ''loan_defaulted'', TLit ''score_changed'']),
       req ''title'' TStr, req ''message'' TStr, req ''read'' TBool,
       req ''status'' (TUnion [TLit ''unread'', TLit ''read'', TLit ''archived'']), req ''createdAt'' TStr, opt ''loanId'' TNum, opt ''actionUrl'' TStr])),
     req ''unreadCount'' TNum])"

definition preferences_answer :: ty where
  "preferences_answer = rec [req ''emailEnabled'' TBool, req ''smsEnabled'' TBool, req ''phone'' (nullable TStr), req ''perTypeOverrides'' (rec [])]"

definition success_answer :: ty where "success_answer = rec [req ''success'' TBool]"

definition verify_answer :: ty where
  "verify_answer = ok_data (rec [opt ''publicKey'' TStr, opt ''role'' (TUnion [TLit ''admin'', TLit ''borrower'', TLit ''lender'']),
     opt ''scopes'' (TArr TStr), req ''valid'' TBool])"

definition listLoanDisputes_answer :: ty where
  "listLoanDisputes_answer = rec [req ''success'' TBool, req ''data'' (rec [req ''items'' (TArr TAny)]), req ''page'' keyset_page_answer]"

definition getLoanDispute_answer :: ty where
  "getLoanDispute_answer = rec [req ''success'' TBool, req ''dispute'' (iface [])]"

definition decision_answer :: ty where
  "decision_answer = rec [req ''success'' TBool, req ''message'' TStr]"

definition listMyTransactions_answer :: ty where
  "listMyTransactions_answer = rec [req ''success'' TBool,
     req ''data'' (TArr (rec [req ''id'' TNum, req ''txHash'' TStr, req ''status'' TStr, req ''submittedAt'' TStr, req ''submittedBy'' (nullable TStr),
       req ''transactionType'' TStr, req ''resultXdr'' (nullable TStr)])),
     req ''page_info'' page_info_answer]"

definition getPendingGovernance_answer :: ty where
  "getPendingGovernance_answer = rec [req ''currentAdmin'' (nullable TStr), req ''targetContract'' (nullable TStr),
     req ''pendingProposal'' (TUnion [
       rec [req ''id'' TStr, req ''proposedAdmin'' TStr, req ''approvalCount'' TNum, req ''threshold'' TNum,
         req ''executableAt'' (nullable TStr), req ''expiresAt'' (nullable TStr),
         req ''signers'' (TArr (rec [req ''address'' TStr, req ''approved'' TBool]))],
       TNull]),
     opt ''signers'' (TArr (rec [req ''address'' TStr, req ''approved'' TBool])), opt ''threshold'' TNum]"

text \<open>By the name of the handler.\<close>

definition answer_ty :: "string \<Rightarrow> ty option" where
  "answer_ty h =
    (if h = ''getLoanConfigEndpoint'' then Some getLoanConfig_answer
     else if h = ''getBorrowerLoans'' then Some getBorrowerLoans_answer
     else if h = ''getLoanDetails'' then Some getLoanDetails_answer
     else if h = ''getLoanAmortizationSchedule'' then Some loan_amortization_answer
     else if h = ''previewLoanAmortizationSchedule'' then Some preview_amortization_answer
     else if h = ''getLoanEvents'' then Some getLoanEvents_answer
     else if h = ''repayLoan'' then Some loan_tx_answer
     else if h = ''refinanceLoan'' then Some loan_tx_answer
     else if h = ''extendLoan'' then Some loan_tx_answer
     else if h = ''buildLiquidateLoan'' then Some loan_tx_answer
     else if h = ''submitTransaction'' then Some submitted_answer
     else if h = ''depositToPool'' then Some unsigned_answer
     else if h = ''withdrawFromPool'' then Some unsigned_answer
     else if h = ''submitPoolTransaction'' then Some submitted_answer
     else if h = ''getPoolStats'' then Some getPoolStats_answer
     else if h = ''getDepositorPortfolio'' then Some getDepositorPortfolio_answer
     else if h = ''getDepositorYieldHistory'' then Some getDepositorYieldHistory_answer
     else if h = ''createRemittance'' then Some createRemittance_answer
     else if h = ''getRemittances'' then Some getRemittances_answer
     else if h = ''getRemittance'' then Some getRemittance_answer
     else if h = ''getUserProfile'' then Some serializeProfile_answer
     else if h = ''getScore'' then Some getScore_answer
     else if h = ''getScoreBreakdown'' then Some getScoreBreakdown_answer
     else if h = ''getOnChainScoreHistory'' then Some getOnChainScoreHistory_answer
     else if h = ''getRemittanceNft'' then Some getRemittanceNft_answer
     else if h = ''getNotifications'' then Some getNotifications_answer
     else if h = ''getNotificationPreferences'' then Some preferences_answer
     else if h = ''updateNotificationPreferences'' then Some preferences_answer
     else if h = ''markRead'' then Some success_answer
     else if h = ''markAllRead'' then Some success_answer
     else if h = ''verify'' then Some verify_answer
     else if h = ''listLoanDisputes'' then Some listLoanDisputes_answer
     else if h = ''getLoanDispute'' then Some getLoanDispute_answer
     else if h = ''resolveLoanDispute'' then Some decision_answer
     else if h = ''rejectLoanDispute'' then Some decision_answer
     else if h = ''listMyTransactions'' then Some listMyTransactions_answer
     else if h = ''getPendingGovernance'' then Some getPendingGovernance_answer
     else None)"

section \<open>Bodies\<close>

text \<open>What the schema of the route and the handler want of a body, its shape only.\<close>

definition body_ty :: "string \<Rightarrow> ty option" where
  "body_ty h = map_of
     [(''previewLoanAmortizationSchedule'', iface [req ''amount'' TNum, req ''termDays'' TNum]),
      (''createRemittance'', iface [req ''recipientAddress'' TStr, req ''amount'' TNum, req ''fromCurrency'' TStr, req ''toCurrency'' TStr, opt ''memo'' TStr]),
      (''updateNotificationPreferences'', iface [req ''emailEnabled'' TBool, req ''smsEnabled'' TBool, opt ''phone'' (nullable TStr),
         opt ''perTypeOverrides'' (iface [])]),
      (''markRead'', iface [req ''ids'' (TArr TNum)]),
      (''resolveLoanDispute'', iface [req ''action'' (TUnion [TLit ''confirm'', TLit ''reverse'']), req ''resolution'' TStr, opt ''adminNote'' TStr]),
      (''rejectLoanDispute'', iface [opt ''admin_note'' TStr]),
      (''repayLoan'', iface [req ''amount'' TNum, req ''borrowerPublicKey'' TStr]),
      (''depositToPool'', iface [req ''depositorPublicKey'' TStr, req ''token'' TStr, req ''amount'' TNum, req ''minSharesOut'' TNum]),
      (''withdrawFromPool'', iface [req ''depositorPublicKey'' TStr, req ''token'' TStr, req ''amount'' TNum, opt ''minAssetsOut'' TNum]),
      (''submitPoolTransaction'', iface [req ''signedTxXdr'' TStr]), (''submitTransaction'', iface [req ''signedTxXdr'' TStr]),
      (''refinanceLoan'', iface [req ''newAmount'' TNum, req ''newTerm'' TNum, req ''borrowerPublicKey'' TStr]),
      (''extendLoan'', iface [req ''extraLedgers'' TNum, req ''borrowerPublicKey'' TStr]),
      (''buildLiquidateLoan'', iface [req ''liquidatorPublicKey'' TStr])] h"

end
