(* ===== verification/ApiRoutes.thy ===== *)
theory ApiRoutes
  imports AuthService PauseGuard
begin

text \<open>
  The routes of the backend: every \<open>src/backend/src/routes/*.ts\<close> as a table of its method, its path, the
  middlewares in their order and the handler, and the mounts of \<open>src/backend/src/app.ts\<close>. A request is served by
  the first route that matches; its middlewares run in order and the first refusal is the answer.
  The checks of identity are the ones of \<open>AuthService\<close> and \<open>Rbac\<close>; validation, idempotency keys, rate limits and the
  audit log let a request pass or not.
\<close>

section \<open>Routes\<close>

datatype verb = HttpGet | HttpPost | HttpPut | HttpPatch | HttpDelete

datatype seg = Lit string | Param string

datatype guard =
    Jwt
  | Scopes "string list"
  | Roles "user_role list"
  | Lender
  | OwnWallet
  | OwnParam string
  | LoanAccess
  | LoanOwner
  | ApiKey string
  | Body string
  | Query string
  | Params string
  | Idempotent
  | Limited string
  | Audited

record route =
  r_verb :: verb
  r_path :: "seg list"
  r_guards :: "guard list"
  r_handler :: string

definition route :: "verb \<Rightarrow> seg list \<Rightarrow> guard list \<Rightarrow> string \<Rightarrow> route" where
  "route v p gs h = \<lparr>r_verb = v, r_path = p, r_guards = gs, r_handler = h\<rparr>"

text \<open>\<open>dev\<close>: \<open>NODE_ENV\<close> is \<open>test\<close> or \<open>development\<close>.\<close>

definition loanRoutes :: "bool \<Rightarrow> route list" where
  "loanRoutes dev =
     (if dev then
        [route HttpPost [] [Jwt] ''createTestLoan'',
         route HttpPost [Param ''loanId'', Lit ''mark-defaulted''] [Jwt, LoanOwner] ''markLoanDefaulted'']
      else []) @
     [route HttpGet [Lit ''config''] [] ''getLoanConfigEndpoint'',
      route HttpPost [Param ''loanId'', Lit ''build-cancel''] [Jwt, LoanOwner] ''buildCancelLoanTx'',
      route HttpPost [Lit ''amortization-preview''] [Jwt, Body ''previewAmortizationSchema''] ''previewLoanAmortizationSchedule'',
      route HttpPost [Param ''loanId'', Lit ''contest-default''] [Jwt, LoanOwner] ''contestDefault'',
      route HttpGet [Lit ''borrower'', Param ''borrower'']
        [Jwt, Scopes [''read:loans''], OwnWallet, Params ''borrowerParamSchema'', Query ''borrowerLoansQuerySchema''] ''getBorrowerLoans'',
      route HttpGet [Param ''loanId''] [Jwt, Scopes [''read:loans''], LoanAccess] ''getLoanDetails'',
      route HttpGet [Param ''loanId'', Lit ''amortization-schedule''] [Jwt, Scopes [''read:loans''], LoanAccess] ''getLoanAmortizationSchedule'',
      route HttpGet [Param ''loanId'', Lit ''events''] [Jwt, Scopes [''read:loans''], LoanAccess] ''getLoanEvents'',
      route HttpPost [Lit ''request''] [Jwt, Scopes [''write:loans''], Body ''requestLoanSchema'', Idempotent] ''requestLoan'',
      route HttpPost [Param ''loanId'', Lit ''build-deposit-collateral'']
        [Jwt, Scopes [''write:loans''], LoanOwner, Params ''repayLoanParamsSchema'', Body ''depositCollateralSchema'', Idempotent] ''depositCollateral'',
      route HttpPost [Param ''loanId'', Lit ''build-release-collateral'']
        [Jwt, Scopes [''write:loans''], LoanOwner, Params ''repayLoanParamsSchema'', Body ''releaseCollateralSchema'', Idempotent] ''releaseCollateral'',
      route HttpPost [Param ''loanId'', Lit ''build-refinance'']
        [Jwt, Scopes [''write:loans''], LoanOwner, Params ''repayLoanParamsSchema'', Body ''refinanceLoanSchema'', Idempotent] ''refinanceLoan'',
      route HttpPost [Param ''loanId'', Lit ''build-extend'']
        [Jwt, Scopes [''write:loans''], LoanOwner, Params ''repayLoanParamsSchema'', Body ''extendLoanSchema'', Idempotent] ''extendLoan'',
      route HttpPost [Param ''loanId'', Lit ''liquidate'', Lit ''build'']
        [Jwt, Scopes [''write:loans''], Params ''repayLoanParamsSchema'', Body ''liquidateLoanSchema'', Idempotent] ''buildLiquidateLoan'',
      route HttpPost [Lit ''submit''] [Jwt, Scopes [''write:loans''], Body ''submitTxSchema'', Idempotent] ''submitTransaction'',
      route HttpPost [Param ''loanId'', Lit ''repay'']
        [Jwt, Scopes [''write:loans''], LoanOwner, Params ''repayLoanParamsSchema'', Body ''repayLoanSchema'', Idempotent] ''repayLoan'',
      route HttpPost [Param ''loanId'', Lit ''submit'']
        [Jwt, Scopes [''write:loans''], LoanOwner, Params ''repayLoanParamsSchema'', Body ''submitTxSchema'', Idempotent] ''submitTransaction'']"

definition poolRoutes :: "route list" where
  "poolRoutes =
     [route HttpGet [Lit ''stats''] [Jwt, Lender, Scopes [''read:pool'']] ''getPoolStats'',
      route HttpGet [Lit ''depositor'', Param ''address'']
        [Jwt, Lender, Scopes [''read:pool''], OwnParam ''address'', Params ''addressParamSchema''] ''getDepositorPortfolio'',
      route HttpGet [Lit ''depositor'', Param ''address'', Lit ''yield-history'']
        [Jwt, Lender, Scopes [''read:pool''], OwnParam ''address'', Params ''getDepositorYieldHistorySchema''] ''getDepositorYieldHistory'',
      route HttpGet [Param ''token'', Lit ''share-price''] [Jwt, Lender, Scopes [''read:pool'']] ''getPoolSharePrice'',
      route HttpPost [Lit ''build-deposit'']
        [Jwt, Lender, Scopes [''write:pool''], Body ''buildPoolTransactionSchema'', Idempotent] ''depositToPool'',
      route HttpPost [Lit ''build-withdraw'']
        [Jwt, Lender, Scopes [''write:pool''], Body ''buildPoolTransactionSchema'', Idempotent] ''withdrawFromPool'',
      route HttpPost [Lit ''build-emergency-withdraw'']
        [Jwt, Lender, Scopes [''write:pool''], Body ''emergencyWithdrawSchema'', Idempotent] ''emergencyWithdrawFromPool'',
      route HttpPost [Lit ''submit'']
        [Jwt, Lender, Scopes [''write:pool''], Body ''submitTxSchema'', Idempotent] ''submitPoolTransaction'']"

definition scoreRoutes :: "route list" where
  "scoreRoutes =
     [route HttpGet [Param ''userId''] [Jwt, Scopes [''read:score''], OwnParam ''userId'', Params ''getScoreSchema''] ''getScore'',
      route HttpGet [Param ''walletAddress'', Lit ''history'']
        [Jwt, Scopes [''read:score''], OwnParam ''walletAddress'', Params ''getScoreHistorySchema''] ''getOnChainScoreHistory'',
      route HttpGet [Param ''walletAddress'', Lit ''nft'']
        [Jwt, Scopes [''read:score''], OwnParam ''walletAddress'', Params ''getRemittanceNftSchema''] ''getRemittanceNft'',
      route HttpGet [Param ''userId'', Lit ''breakdown'']
        [Jwt, Scopes [''read:score''], OwnParam ''userId'', Params ''getScoreSchema''] ''getScoreBreakdown'',
      route HttpPost [Lit ''update''] [ApiKey ''admin:loans'', Limited ''scoreUpdate'', Body ''updateScoreSchema''] ''updateScore'']"

definition indexerRoutes :: "route list" where
  "indexerRoutes =
     [route HttpGet [Lit ''status''] [] ''getIndexerStatus'',
      route HttpGet [Lit ''events'', Lit ''borrower'', Param ''borrower''] [Jwt, Scopes [''read:loans''], OwnWallet] ''getBorrowerEvents'',
      route HttpGet [Lit ''events'', Lit ''loan'', Param ''loanId''] [Jwt, Scopes [''read:loans''], LoanAccess] ''getLoanEvents'',
      route HttpGet [Lit ''events'', Lit ''recent''] [ApiKey ''admin:indexer''] ''getRecentEvents'',
      route HttpGet [Lit ''webhooks''] [ApiKey ''admin:webhooks''] ''listWebhookSubscriptions'',
      route HttpPost [Lit ''webhooks''] [ApiKey ''admin:webhooks'', Limited ''strict'', Audited] ''createWebhookSubscription'',
      route HttpDelete [Lit ''webhooks'', Param ''subscriptionId'']
        [ApiKey ''admin:webhooks'', Limited ''strict'', Audited] ''deleteWebhookSubscription'']"

definition adminRoutes :: "route list" where
  "adminRoutes =
     [route HttpGet [Lit ''audit-logs''] [Jwt, Roles [admin]] ''listAuditLogs'',
      route HttpPost [Lit ''loans'', Param ''loanId'', Lit ''build-reject''] [Jwt, Roles [admin], Audited] ''buildRejectLoanTx'',
      route HttpGet [Lit ''loan-disputes''] [ApiKey ''admin:disputes''] ''listLoanDisputes'',
      route HttpPost [Lit ''loan-disputes'', Param ''disputeId'', Lit ''resolve''] [ApiKey ''admin:disputes''] ''resolveLoanDispute'',
      route HttpGet [Lit ''disputes''] [Jwt, Roles [admin]] ''listLoanDisputes'',
      route HttpGet [Lit ''disputes'', Param ''disputeId''] [Jwt, Roles [admin]] ''getLoanDispute'',
      route HttpPost [Lit ''disputes'', Param ''disputeId'', Lit ''resolve''] [Jwt, Roles [admin]] ''resolveLoanDispute'',
      route HttpPost [Lit ''disputes'', Param ''disputeId'', Lit ''reject''] [Jwt, Roles [admin]] ''rejectLoanDispute'',
      route HttpGet [Lit ''governance'', Lit ''pending''] [Jwt, Roles [admin]] ''getPendingGovernance'',
      route HttpPost [Lit ''check-defaults'']
        [ApiKey ''admin:loans'', Limited ''strict'', Audited, Body ''checkDefaultsBodySchema''] ''checkOverdueLoans'',
      route HttpPost [Lit ''reindex''] [ApiKey ''admin:indexer'', Limited ''strict'', Audited] ''reindexLedgerRange'',
      route HttpGet [Lit ''quarantine-events''] [ApiKey ''admin:indexer''] ''listQuarantinedEvents'',
      route HttpPost [Lit ''quarantine-events'', Lit ''reprocess'']
        [ApiKey ''admin:indexer'', Limited ''strict'', Audited] ''reprocessQuarantinedEvents'',
      route HttpPost [Lit ''webhooks''] [ApiKey ''admin:webhooks'', Limited ''strict'', Audited] ''createWebhookSubscription'',
      route HttpGet [Lit ''webhooks''] [ApiKey ''admin:webhooks''] ''listWebhookSubscriptions'',
      route HttpDelete [Lit ''webhooks'', Param ''id''] [ApiKey ''admin:webhooks'', Limited ''strict'', Audited] ''deleteWebhookSubscription'',
      route HttpGet [Lit ''webhooks'', Param ''id'', Lit ''deliveries''] [ApiKey ''admin:webhooks''] ''getWebhookDeliveries'',
      route HttpGet [Lit ''webhooks'', Lit ''retry-status''] [ApiKey ''admin:webhooks''] ''webhookRetryStatus'']"

definition authRoutes :: "bool \<Rightarrow> route list" where
  "authRoutes dev =
     (if dev then [route HttpPost [Lit ''register''] [] ''registerTestUser''] else []) @
     [route HttpPost [Lit ''challenge''] [Limited ''challenge'', Body ''challengeSchema''] ''requestChallenge'',
      route HttpPost [Lit ''login''] [Limited ''ipLogin'', Limited ''login'', Body ''loginSchema''] ''login'',
      route HttpGet [Lit ''verify''] [Jwt] ''verify'',
      route HttpPost [Lit ''logout''] [Jwt] ''logout'']"

definition userRoutes :: "route list" where
  "userRoutes =
     [route HttpGet [Lit ''profile''] [Jwt] ''getUserProfile'',
      route HttpPatch [Lit ''profile''] [Jwt, Body ''updateUserProfileSchema''] ''updateUserProfile'']"

definition notificationsRoutes :: "route list" where
  "notificationsRoutes =
     [route HttpGet [] [Jwt, Scopes [''read:notifications''], Query ''getNotificationsQuerySchema''] ''getNotifications'',
      route HttpGet [Lit ''preferences''] [Jwt] ''getNotificationPreferences'',
      route HttpPut [Lit ''preferences''] [Jwt] ''updateNotificationPreferences'',
      route HttpGet [Lit ''stream''] [Jwt, Scopes [''read:notifications'']] ''streamNotifications'',
      route HttpPost [Lit ''mark-read''] [Jwt, Scopes [''write:notifications'']] ''markRead'',
      route HttpPost [Lit ''mark-all-read''] [Jwt, Scopes [''write:notifications'']] ''markAllRead'']"

definition eventRoutes :: "route list" where
  "eventRoutes =
     [route HttpGet [Lit ''stream''] [Jwt] ''streamEvents'',
      route HttpGet [Lit ''status''] [ApiKey ''admin:indexer''] ''getEventStreamStatus'']"

definition remittanceRoutes :: "route list" where
  "remittanceRoutes =
     [route HttpPost [] [Jwt, Scopes [''write:remittances''], Body ''createRemittanceSchema'', Idempotent] ''createRemittance'',
      route HttpGet [] [Jwt, Scopes [''read:remittances''], Query ''getRemittancesSchema''] ''getRemittances'',
      route HttpGet [Param ''id''] [Jwt, Scopes [''read:remittances''], Params ''getRemittanceSchema''] ''getRemittance'',
      route HttpPost [Param ''id'', Lit ''submit''] [Jwt, Scopes [''write:remittances''], Idempotent] ''submitRemittanceTransaction'']"

definition transactionRoutes :: "route list" where
  "transactionRoutes = [route HttpGet [Lit ''me''] [Jwt] ''listMyTransactions'']"

definition simulationRoutes :: "route list" where
  "simulationRoutes =
     [route HttpGet [Lit ''history'', Param ''userId'']
        [Limited ''simulation'', Jwt, OwnParam ''userId'', Params ''getRemittanceHistorySchema''] ''getRemittanceHistory'',
      route HttpPost [Lit ''simulate''] [Limited ''simulation'', Jwt, Body ''simulatePaymentSchema''] ''simulatePayment'']"

definition statusRoutes :: "route list" where
  "statusRoutes = [route HttpGet [Lit ''api'', Lit ''status'', Lit ''pause''] [] ''getPauseState'']"

text \<open>The order of \<open>app.ts\<close>.\<close>

definition plain_routes :: "route list" where
  "plain_routes =
     [route HttpGet [] [] ''root'', route HttpGet [Lit ''version''] [] ''version'', route HttpGet [Lit ''health''] [] ''health'',
      route HttpGet [Lit ''metrics''] [ApiKey ''admin:indexer''] ''metrics'', route HttpGet [Lit ''health'', Lit ''deep''] [] ''healthDeep'']"

definition mounts :: "bool \<Rightarrow> (string list \<times> route list) list" where
  "mounts dev =
     [([], plain_routes), ([], statusRoutes),
      ([''api''], simulationRoutes), ([''api'', ''score''], scoreRoutes), ([''api'', ''loans''], loanRoutes dev),
      ([''api'', ''pool''], poolRoutes), ([''api'', ''indexer''], indexerRoutes), ([''api'', ''admin''], adminRoutes),
      ([''api'', ''auth''], authRoutes dev), ([''api'', ''notifications''], notificationsRoutes), ([''api'', ''events''], eventRoutes),
      ([''api'', ''remittances''], remittanceRoutes), ([''api'', ''transactions''], transactionRoutes),
      ([''api'', ''v1''], simulationRoutes), ([''api'', ''v1'', ''score''], scoreRoutes), ([''api'', ''v1'', ''loans''], loanRoutes dev),
      ([''api'', ''v1'', ''indexer''], indexerRoutes), ([''api'', ''v1'', ''admin''], adminRoutes), ([''api'', ''v1'', ''auth''], authRoutes dev),
      ([''api'', ''v1'', ''remittances''], remittanceRoutes), ([''api'', ''v1'', ''transactions''], transactionRoutes),
      ([''api'', ''v1'', ''pool''], poolRoutes), ([''api'', ''v1'', ''notifications''], notificationsRoutes), ([''api'', ''v1'', ''events''], eventRoutes),
      ([''user''], userRoutes)]"

definition mount :: "string list \<Rightarrow> route list \<Rightarrow> route list" where
  "mount prefix rs = map (\<lambda>r. r\<lparr>r_path := map Lit prefix @ r_path r\<rparr>) rs"

definition app_routes :: "bool \<Rightarrow> route list" where
  "app_routes dev = concat (map (\<lambda>(prefix, rs). mount prefix rs) (mounts dev))"

section \<open>Matching\<close>

text \<open>Express compares literals without case and ignores a slash at the end; a parameter takes one segment that is
  not empty.\<close>

definition segments :: "string \<Rightarrow> string list" where
  "segments p =
     (case js_split CHR ''/'' p of
        [] \<Rightarrow> []
      | _ # rest \<Rightarrow> if rest \<noteq> [] \<and> last rest = [] then butlast rest else rest)"

fun seg_match :: "seg \<Rightarrow> string \<Rightarrow> bool" where
  "seg_match (Lit l) s = (js_lower s = l)"
| "seg_match (Param n) s = (s \<noteq> [])"

definition matches :: "seg list \<Rightarrow> string list \<Rightarrow> bool" where
  "matches = list_all2 seg_match"

definition dispatch :: "bool \<Rightarrow> verb \<Rightarrow> string list \<Rightarrow> route option" where
  "dispatch dev v path = find (\<lambda>r. r_verb r = v \<and> matches (r_path r) path) (app_routes dev)"

definition param_of :: "route \<Rightarrow> string list \<Rightarrow> string \<Rightarrow> string option" where
  "param_of r path n =
     map_of (concat (map (\<lambda>(p, s). case p of Param m \<Rightarrow> [(m, s)] | Lit l \<Rightarrow> []) (zip (r_path r) path))) n"

section \<open>Serving\<close>

text \<open>What a request brings and what the middlewares consult: the outcome of the checks that this theory does not
  look into is \<open>passes\<close>.\<close>

record 's http_world =
  h_env :: env
  h_platform :: platform
  h_redis :: "'s redis"
  h_server :: server
  h_timely :: bool
  h_now :: ms
  h_cache :: "'s cache"
  h_pause :: pause_sys
  loan_rows :: "string \<Rightarrow> string list"
  passes :: "guard \<Rightarrow> http_error + unit"

record http_request =
  q_verb :: verb
  q_path :: string
  authorization :: "string option"
  cookie :: "string option"
  x_api_key :: "string option"
  body_wallet :: "string option"
  body_loan :: "string option"

definition dev_env :: "env \<Rightarrow> bool" where
  "dev_env E \<longleftrightarrow> NODE_ENV E = Some ''test'' \<or> NODE_ENV E = Some ''development''"

definition verb_text :: "verb \<Rightarrow> string" where
  "verb_text v = (case v of HttpGet \<Rightarrow> ''GET'' | HttpPost \<Rightarrow> ''POST'' | HttpPut \<Rightarrow> ''PUT'' | HttpPatch \<Rightarrow> ''PATCH'' | HttpDelete \<Rightarrow> ''DELETE'')"

definition jwt_user :: "('s, 'z) http_world_scheme \<Rightarrow> http_request \<Rightarrow> http_error + jwt_payload" where
  "jwt_user W q =
     fst (requireJwtAuth (h_env W) (h_platform W) (h_redis W) (h_server W) (h_timely W) (h_now W)
            (authorization q) (cookie q) (h_cache W))"

fun run_guard ::
  "('s, 'z) http_world_scheme \<Rightarrow> http_request \<Rightarrow> (string \<Rightarrow> string option) \<Rightarrow> guard \<Rightarrow> request_user \<Rightarrow> http_error + request_user" where
  "run_guard W q par Jwt u = and_then (jwt_user W q) (\<lambda>p. Inr (Some p))"
| "run_guard W q par (Scopes ss) u = and_then (requireScopes ss u) (\<lambda>_. Inr u)"
| "run_guard W q par (Roles rs) u = and_then (requireRoles rs u) (\<lambda>_. Inr u)"
| "run_guard W q par Lender u = and_then (requireLender u) (\<lambda>_. Inr u)"
| "run_guard W q par OwnWallet u = and_then (requireWalletOwnership u (par ''borrower'') (par ''wallet'') (body_wallet q)) (\<lambda>_. Inr u)"
| "run_guard W q par (OwnParam n) u = and_then (requireWalletParamMatchesJwt n u (par n)) (\<lambda>_. Inr u)"
| "run_guard W q par LoanAccess u = and_then (requireLoanBorrowerAccess u (par ''loanId'') (loan_rows W)) (\<lambda>_. Inr u)"
| "run_guard W q par LoanOwner u = and_then (requireLoanOwner u (par ''loanId'') (par ''id'') (loan_rows W)) (\<lambda>_. Inr u)"
| "run_guard W q par (ApiKey s) u = and_then (requireApiKey (h_env W) (Some s) (x_api_key q)) (\<lambda>_. Inr u)"
| "run_guard W q par g u = and_then (passes W g) (\<lambda>_. Inr u)"

fun run_guards ::
  "('s, 'z) http_world_scheme \<Rightarrow> http_request \<Rightarrow> (string \<Rightarrow> string option) \<Rightarrow> guard list \<Rightarrow> request_user \<Rightarrow> http_error + request_user" where
  "run_guards W q par [] u = Inr u"
| "run_guards W q par (g # gs) u = and_then (run_guard W q par g u) (run_guards W q par gs)"

text \<open>The guards of every request come first: the pause guard, then the route or \<open>404\<close>.\<close>

definition serve :: "('s, 'z) http_world_scheme \<Rightarrow> http_request \<Rightarrow> http_error + string \<times> request_user \<times> (string \<Rightarrow> string option)" where
  "serve W q =
     and_then (pauseGuard (verb_text (q_verb q)) (h_pause W)) (\<lambda>_.
       case dispatch (dev_env (h_env W)) (q_verb q) (segments (q_path q)) of
         None \<Rightarrow> Inl (notFound (''Cannot '' @ verb_text (q_verb q) @ '' '' @ q_path q) None None)
       | Some r \<Rightarrow>
           and_then (run_guards W q (param_of r (segments (q_path q))) (r_guards r) None) (\<lambda>u.
             Inr (r_handler r, u, param_of r (segments (q_path q)))))"

section \<open>Lemmas\<close>

lemma run_guard_known:
  "run_guard W q par g (Some p) = Inr u \<Longrightarrow> jwt_user W q = Inr p \<Longrightarrow> u = Some p"
  by (cases g) (auto simp: and_then_eq_Inr)

lemma run_guards_known:
  "run_guards W q par gs (Some p) = Inr u \<Longrightarrow> jwt_user W q = Inr p \<Longrightarrow>
     u = Some p \<and> (\<forall>g \<in> set gs. run_guard W q par g (Some p) = Inr (Some p))"
proof (induction gs)
  case (Cons g gs)
  then obtain v where v: "run_guard W q par g (Some p) = Inr v" "run_guards W q par gs v = Inr u"
    by (auto simp: and_then_eq_Inr)
  then have "v = Some p" using run_guard_known Cons.prems(2) by blast
  then show ?case using Cons v by auto
qed simp

lemma run_guards_jwt:
  assumes "run_guards W q par (Jwt # gs) u0 = Inr u"
  shows "\<exists>p. jwt_user W q = Inr p \<and> u = Some p \<and> (\<forall>g \<in> set gs. run_guard W q par g (Some p) = Inr (Some p))"
proof -
  obtain p where p: "jwt_user W q = Inr p" "run_guards W q par gs (Some p) = Inr u"
    using assms by (auto simp: and_then_eq_Inr)
  then show ?thesis using run_guards_known [OF p(2,1)] by blast
qed

definition is_limit :: "guard \<Rightarrow> bool" where
  "is_limit g \<longleftrightarrow> (case g of Limited n \<Rightarrow> True | _ \<Rightarrow> False)"

lemma run_guards_limits:
  "run_guards W q par gs u0 = Inr u \<Longrightarrow> run_guards W q par (dropWhile is_limit gs) u0 = Inr u"
proof (induction gs)
  case (Cons g gs)
  then show ?case by (cases g) (auto simp: is_limit_def and_then_eq_Inr)
qed simp

lemma run_guards_api_key:
  "run_guards W q par gs u0 = Inr u \<Longrightarrow> ApiKey s \<in> set gs \<Longrightarrow> \<exists>v. requireApiKey (h_env W) (Some s) (x_api_key q) = Inr v"
proof (induction gs arbitrary: u0)
  case (Cons g gs)
  then show ?case by (cases "g = ApiKey s") (auto simp: and_then_eq_Inr)
qed simp

lemma find_SomeD: "find P xs = Some x \<Longrightarrow> x \<in> set xs \<and> P x"
  by (induction xs) (auto split: if_splits)

text \<open>What each handler that changes state demands, and that its routes ask for it.\<close>

definition public_handlers :: "string list" where
  "public_handlers = [''requestChallenge'', ''login'']"

definition owner_handlers :: "string list" where
  "owner_handlers = [''buildCancelLoanTx'', ''contestDefault'', ''markLoanDefaulted'', ''depositCollateral'',
     ''releaseCollateral'', ''refinanceLoan'', ''extendLoan'', ''repayLoan'']"

definition loan_writers :: "string list" where
  "loan_writers = [''requestLoan'', ''depositCollateral'', ''releaseCollateral'', ''refinanceLoan'', ''extendLoan'',
     ''buildLiquidateLoan'', ''submitTransaction'', ''repayLoan'']"

definition pool_writers :: "string list" where
  "pool_writers = [''depositToPool'', ''withdrawFromPool'', ''emergencyWithdrawFromPool'', ''submitPoolTransaction'']"

definition admin_writers :: "string list" where
  "admin_writers = [''buildRejectLoanTx'', ''rejectLoanDispute'']"

definition demands :: "string \<Rightarrow> guard list" where
  "demands h =
     (if h \<in> set owner_handlers then [LoanOwner] else []) @
     (if h \<in> set loan_writers then [Scopes [''write:loans'']] else []) @
     (if h \<in> set pool_writers then [Lender, Scopes [''write:pool'']] else []) @
     (if h \<in> set admin_writers then [Roles [admin]] else [])"

definition has_api_key :: "guard list \<Rightarrow> bool" where
  "has_api_key gs \<longleftrightarrow> list_ex (\<lambda>g. case g of ApiKey s \<Rightarrow> True | _ \<Rightarrow> False) gs"

lemma has_api_keyD: "has_api_key gs \<Longrightarrow> \<exists>s. ApiKey s \<in> set gs"
proof -
  assume "has_api_key gs"
  then obtain g where g: "g \<in> set gs" "case g of ApiKey s \<Rightarrow> True | _ \<Rightarrow> False" by (auto simp: has_api_key_def list_ex_iff)
  obtain s where "g = ApiKey s" using g(2) by (cases g rule: guard.exhaust) simp_all
  then show ?thesis using g(1) by blast
qed

fun after_jwt :: "guard list \<Rightarrow> guard list option" where
  "after_jwt (Jwt # gs) = Some gs"
| "after_jwt _ = None"

lemma after_jwtD: "after_jwt gs = Some r \<Longrightarrow> gs = Jwt # r"
  by (cases gs rule: after_jwt.cases) auto

definition guarded :: "route \<Rightarrow> bool" where
  "guarded r \<longleftrightarrow>
     r_verb r = HttpGet \<or> r_handler r \<in> set public_handlers \<or> r_handler r = ''registerTestUser'' \<or>
     has_api_key (r_guards r) \<or>
     (case after_jwt (dropWhile is_limit (r_guards r)) of
        Some gs \<Rightarrow> list_all (\<lambda>g. g \<in> set gs) (demands (r_handler r)) | None \<Rightarrow> False)"

lemma guarded_dev: "list_all guarded (app_routes True)"
  by code_simp

lemma guarded_prod: "list_all guarded (app_routes False)"
  by code_simp

lemma all_guarded: "list_all guarded (app_routes dev)"
  using guarded_dev guarded_prod by (cases dev) simp_all

lemma register_only_dev: "list_all (\<lambda>r. r_handler r \<noteq> ''registerTestUser'') (app_routes False)"
  by code_simp

section \<open>Who reaches a handler\<close>

lemma served:
  assumes "serve W q = Inr (h, u, par)"
  shows "\<exists>r. r \<in> set (app_routes (dev_env (h_env W))) \<and> r_verb r = q_verb q \<and> h = r_handler r \<and>
    par = param_of r (segments (q_path q)) \<and> pauseGuard (verb_text (q_verb q)) (h_pause W) = Inr () \<and>
    run_guards W q par (r_guards r) None = Inr u"
  using assms by (auto simp: serve_def dispatch_def and_then_eq_Inr dest!: find_SomeD split: option.splits)

lemma granted: "requireScopes [s] (Some p) = Inr () \<Longrightarrow> s \<noteq> [] \<Longrightarrow> ''admin:all'' \<in> set (scopes p) \<or> s \<in> set (scopes p)"
  by (auto simp: requireScopes_def Let_def env_set_def split: option.splits if_splits)

lemma owner: "requireLoanOwner (Some p) l i rows = Inr () \<Longrightarrow>
    \<exists>k rest. (l = Some k \<or> i = Some k) \<and> rows k = publicKey p # rest"
  by (auto simp: requireLoanOwner_def wallet_of_def env_set_eq_Some split: option.splits list.splits if_splits)

lemma pause_open: "pauseGuard m s = Inr () \<Longrightarrow> m \<notin> {''GET'', ''HEAD'', ''OPTIONS''} \<Longrightarrow> \<not> isPaused (globalPauseState s)"
  by (auto simp: pauseGuard_def Let_def split: if_splits)

lemma jwt_user_current:
  assumes "jwt_user W q = Inr p"
  shows "role p = resolveRoleForWallet (h_env W) (publicKey p)"
    "s \<in> set (scopes p) \<Longrightarrow> s \<in> set (ROLE_SCOPES (role p))"
proof -
  obtain p0 where "p = capPayloadToCurrentRole (h_env W) p0"
    using assms unfolding jwt_user_def requireJwtAuth_def
    by (auto split: option.splits if_splits prod.splits)
  then show "role p = resolveRoleForWallet (h_env W) (publicKey p)" "s \<in> set (scopes p) \<Longrightarrow> s \<in> set (ROLE_SCOPES (role p))"
    by (simp_all add: capped_scopes)
qed

lemma current_scopes:
  assumes "jwt_user W q = Inr p"
  shows "''admin:all'' \<in> set (scopes p) \<Longrightarrow> role p = admin" "''write:pool'' \<notin> set (scopes p)"
  using jwt_user_current(2) [OF assms, of "''admin:all''"] jwt_user_current(2) [OF assms, of "''write:pool''"]
  by (auto, cases "role p") auto

lemma demanded:
  assumes "r \<in> set (app_routes dev)" "r_verb r \<noteq> HttpGet" "run_guards W q par (r_guards r) None = Inr u"
  shows "r_handler r \<in> set public_handlers \<or> r_handler r = ''registerTestUser'' \<and> dev \<or>
    (\<exists>s v. requireApiKey (h_env W) (Some s) (x_api_key q) = Inr v) \<or>
    (\<exists>p. jwt_user W q = Inr p \<and> u = Some p \<and> (\<forall>g \<in> set (demands (r_handler r)). run_guard W q par g (Some p) = Inr (Some p)))"
proof -
  have g: "guarded r" using all_guarded [of dev] assms(1) by (simp add: list_all_iff)
  consider "r_handler r \<in> set public_handlers" | "r_handler r = ''registerTestUser''" | s where "ApiKey s \<in> set (r_guards r)"
    | gs where "dropWhile is_limit (r_guards r) = Jwt # gs" "set (demands (r_handler r)) \<subseteq> set gs"
    using g assms(2) unfolding guarded_def
    by (auto simp: list_all_iff subset_iff dest!: has_api_keyD after_jwtD split: option.splits)
  then show ?thesis
  proof cases
    case 2
    then have dev using register_only_dev assms(1) by (cases dev) (auto simp: list_all_iff)
    then show ?thesis using 2 by simp
  next
    case 3
    then show ?thesis using run_guards_api_key [OF assms(3)] by blast
  next
    case 4
    then have "run_guards W q par (Jwt # gs) None = Inr u" using run_guards_limits [OF assms(3)] by metis
    then show ?thesis using run_guards_jwt 4(2) by blast
  qed blast
qed

lemma pool_guards:
  "list_all (\<lambda>r. r_handler r \<notin> set pool_writers \<or> (r_verb r = HttpPost \<and> take 3 (r_guards r) = [Jwt, Lender, Scopes [''write:pool'']]))
     (app_routes dev)"
proof -
  have "list_all (\<lambda>r. r_handler r \<notin> set pool_writers \<or> (r_verb r = HttpPost \<and> take 3 (r_guards r) = [Jwt, Lender, Scopes [''write:pool'']]))
     (app_routes True)" by code_simp
  moreover have "list_all (\<lambda>r. r_handler r \<notin> set pool_writers \<or> (r_verb r = HttpPost \<and> take 3 (r_guards r) = [Jwt, Lender, Scopes [''write:pool'']]))
     (app_routes False)" by code_simp
  ultimately show ?thesis by (cases dev) simp_all
qed

section \<open>Properties\<close>


text \<open>No lender can use the pool: every route that builds or submits a pool transaction asks for the scope to write the
  pool, which no role contains, so a request of a wallet whose role is lender is refused whatever its token says.\<close>

theorem lenders_locked_out:
  assumes "jwt_user W q = Inr p" "publicKey p \<noteq> []" "resolveRoleForWallet (h_env W) (publicKey p) = lender"
    and "dispatch (dev_env (h_env W)) (q_verb q) (segments (q_path q)) = Some r" "r_handler r \<in> set pool_writers"
    and "\<not> isPaused (globalPauseState (h_pause W))"
  shows "serve W q = Inl (forbidden ''Missing required scope: write:pool'' None)"
proof -
  have r: "r \<in> set (app_routes (dev_env (h_env W)))" "r_verb r = q_verb q"
    using assms(4) by (auto simp: dispatch_def dest: find_SomeD)
  then have "take 3 (r_guards r) = [Jwt, Lender, Scopes [''write:pool'']]"
    using pool_guards [of "dev_env (h_env W)"] assms(5) by (auto simp: list_all_iff)
  then obtain gs where gs: "r_guards r = Jwt # Lender # Scopes [''write:pool''] # gs"
    by (metis append_take_drop_id append_Cons append_Nil)
  have l: "role p = lender" using jwt_user_current(1) [OF assms(1)] assms(3) by simp
  have w: "wallet_of (Some p) = Some (publicKey p)" using assms(2) by (simp add: wallet_of_def env_set_def)
  have "requireLender (Some p) = Inr ()" using l w by (simp add: requireLender_def)
  moreover have "requireScopes [''write:pool''] (Some p) = Inl (forbidden ''Missing required scope: write:pool'' None)"
    using w l current_scopes [OF assms(1)] by (auto simp: requireScopes_def Let_def env_set_def)
  ultimately have "run_guards W q par (r_guards r) None = Inl (forbidden ''Missing required scope: write:pool'' None)" for par
    using assms(1) by (simp add: gs)
  moreover have "pauseGuard (verb_text (q_verb q)) (h_pause W) = Inr ()" using assms(6) by (simp add: pauseGuard_def Let_def)
  ultimately show ?thesis using assms(4) by (simp add: serve_def)
qed

section \<open>A concrete request\<close>

definition demo_route_env :: env where
  "demo_route_env = \<lparr>ADMIN_WALLETS = None, LENDER_WALLETS = Some ''GLEND'', INTERNAL_API_KEY = None, JWT_SECRET = Some ''secret'',
     JWT_COOKIE_NAME = None, NODE_ENV = Some ''production''\<rparr>"

definition demo_payload_of :: "string \<Rightarrow> jwt_payload" where
  "demo_payload_of a = \<lparr>publicKey = a, role = lender, scopes = [''write:loans'', ''read:pool'', ''write:pool''], jti = [],
     iat = 0, expires = 86400\<rparr>"

definition demo_route_platform :: platform where
  "demo_route_platform = demo_platform\<lparr>jwt_verify := (\<lambda>now secret token. Some (demo_payload_of token))\<rparr>"

definition demo_http :: "mem_state http_world" where
  "demo_http = \<lparr>h_env = demo_route_env, h_platform = demo_route_platform, h_redis = mem_redis, h_server = Up, h_timely = True,
     h_now = 0, h_cache = \<lparr>client = (\<lambda>_. None), isConnected = True\<rparr>,
     h_pause = \<lparr>globalPauseState = unpaused, pause_table = None\<rparr>, loan_rows = (\<lambda>l. if l = ''7'' then [''GBOR''] else []), passes = (\<lambda>_. Inr ())\<rparr>"

definition demo_post :: "string \<Rightarrow> string \<Rightarrow> http_request" where
  "demo_post path a = \<lparr>q_verb = HttpPost, q_path = path, authorization = Some (''Bearer '' @ a), cookie = None, x_api_key = None,
     body_wallet = None, body_loan = None\<rparr>"

lemma demo_route:
  "dispatch False HttpPost (segments ''/api/loans/7/repay'') = Some (route HttpPost
     [Lit ''api'', Lit ''loans'', Param ''loanId'', Lit ''repay'']
     [Jwt, Scopes [''write:loans''], LoanOwner, Params ''repayLoanParamsSchema'', Body ''repayLoanSchema'', Idempotent] ''repayLoan'')"
  "dispatch False HttpPost (segments ''/api/pool/build-deposit'') = Some (route HttpPost
     [Lit ''api'', Lit ''pool'', Lit ''build-deposit'']
     [Jwt, Lender, Scopes [''write:pool''], Body ''buildPoolTransactionSchema'', Idempotent] ''depositToPool'')"
  by code_simp+

lemma demo_role:
  "resolveRoleForWallet demo_route_env ''GBOR'' = borrower" "resolveRoleForWallet demo_route_env ''GLEND'' = lender"
  by code_simp+

lemma demo_bearer:
  "extractBearerToken (Some (''Bearer '' @ ''GBOR'')) = Some ''GBOR''" "extractBearerToken (Some (''Bearer '' @ ''GLEND'')) = Some ''GLEND''"
  by code_simp+

lemma demo_jwt: "jwt_user demo_http (demo_post path ''GBOR'') = Inr (capPayloadToCurrentRole demo_route_env (demo_payload_of ''GBOR''))"
  "jwt_user demo_http (demo_post path ''GLEND'') = Inr (capPayloadToCurrentRole demo_route_env (demo_payload_of ''GLEND''))"
  using demo_bearer
  by (simp_all add: jwt_user_def requireJwtAuth_def demo_post_def demo_http_def js_nullish_def env_set_def verifyJwtToken_def
      getJwtSecret_def demo_route_env_def demo_route_platform_def demo_payload_of_def)

lemma demo_not_dev: "dev_env demo_route_env = False"
  by (simp add: dev_env_def demo_route_env_def)


theorem lenders_locked_out_witness:
  "serve demo_http (demo_post ''/api/pool/build-deposit'' ''GLEND'') =
     Inl (forbidden ''Missing required scope: write:pool'' None)"
proof -
  have e: "h_env demo_http = demo_route_env" "q_verb (demo_post p a) = HttpPost" "q_path (demo_post p a) = p"
      "\<not> isPaused (globalPauseState (h_pause demo_http))" for p a
    by (simp_all add: demo_http_def demo_post_def unpaused_def)
  show ?thesis
    using lenders_locked_out [OF demo_jwt(2) _ _ _ _ e(4), of "''/api/pool/build-deposit''" "the (dispatch False HttpPost (segments ''/api/pool/build-deposit''))"]
    by (simp add: e demo_not_dev demo_route demo_role demo_payload_of_def pool_writers_def route_def)
qed

end
