(* ===== verification/ApiClient.thy ===== *)
theory ApiClient
  imports ApiTypes ApiRoutes
begin

text \<open>
  The calls of \<open>src/frontend/src/app/hooks/useApi.ts\<close>: for each hook its method, the path it appends to
  \<open>NEXT_PUBLIC_API_URL\<close>, the body it sends, what it does with the answer and the type it hands on. They are compared
  with the routes of \<open>ApiRoutes\<close> and the answers of \<open>ApiTypes\<close>.
\<close>

section \<open>Hooks\<close>

record api_hook =
  hk_verb :: verb
  hk_path :: "seg list"
  hk_body :: "ty option"
  hk_read :: reader
  hk_type :: ty

definition fetches :: "seg list \<Rightarrow> reader \<Rightarrow> ty \<Rightarrow> api_hook" where
  "fetches p r t = \<lparr>hk_verb = HttpGet, hk_path = p, hk_body = None, hk_read = r, hk_type = t\<rparr>"

definition posts :: "seg list \<Rightarrow> fld list \<Rightarrow> reader \<Rightarrow> ty \<Rightarrow> api_hook" where
  "posts p b r t = \<lparr>hk_verb = HttpPost, hk_path = p, hk_body = Some (rec b), hk_read = r, hk_type = t\<rparr>"

definition useLoans :: api_hook where
  "useLoans = fetches [Lit ''loans''] Whole (TArr Loan_ty)"

definition useLoan :: api_hook where
  "useLoan = fetches [Lit ''loans'', Param ''id''] (Having [''success'', ''data''] (Get ''data'' Whole) Whole) LoanDetails_ty"

definition amortization_reader :: reader where
  "amortization_reader = Having [''success'', ''amortization''] (Get ''amortization'' Whole) Whole"

definition useLoanAmortizationSchedule :: api_hook where
  "useLoanAmortizationSchedule =
     fetches [Lit ''loans'', Param ''id'', Lit ''amortization-schedule''] amortization_reader LoanAmortization_ty"

definition useLoanAmortizationPreview :: api_hook where
  "useLoanAmortizationPreview =
     posts [Lit ''loans'', Lit ''amortization-preview''] [req ''amount'' TNum, req ''termDays'' TNum] amortization_reader LoanAmortization_ty"

definition useLiquidatableLoans :: api_hook where
  "useLiquidatableLoans =
     fetches [Lit ''loans'', Lit ''liquidatable'']
       (IsArray Rows (Having [''loans''] (Get ''loans'' Rows) (Get ''data'' Rows))) (TArr (iface []))"

definition useLoanEvents :: api_hook where
  "useLoanEvents =
     fetches [Lit ''loans'', Param ''loanId'', Lit ''events'']
       (When [''success'', ''data'']
          (Get ''data'' (When [''events'']
             (Get ''events'' (Renamed [(''type'', ''event_type''), (''amount'', ''amount''), (''timestamp'', ''ledger_closed_at''), (''txHash'', ''tx_hash'')]))
             Empty))
          Empty)
       (TArr LoanEvent_ty)"

definition useMinimumScore :: api_hook where
  "useMinimumScore = fetches [Lit ''loans'', Lit ''config''] (Get ''data'' Whole) LoanConfig_ty"

definition useCreateLoan :: api_hook where
  "useCreateLoan =
     posts [Lit ''loans''] [req ''amount'' TNum, req ''currency'' TStr, req ''interestRate'' TNum, req ''termDays'' TNum, req ''borrowerId'' TStr]
       Whole Loan_ty"

definition fetchRemittancesPage :: api_hook where
  "fetchRemittancesPage = fetches [Lit ''remittances''] (OrEmpty [''data'']) (TArr Remittance_ty)"

definition fetchMyTransactionsPage :: api_hook where
  "fetchMyTransactionsPage = fetches [Lit ''transactions'', Lit ''me''] (OrEmpty [''data'']) (TArr MyTransaction_ty)"

definition fetchBorrowerLoansPage :: api_hook where
  "fetchBorrowerLoansPage =
     fetches [Lit ''loans'', Lit ''borrower'', Param ''borrowerAddress''] (OrEmpty [''data'', ''loans'']) (TArr BorrowerLoan_ty)"

definition useRemittance :: api_hook where
  "useRemittance = fetches [Lit ''remittances'', Param ''id''] Whole Remittance_ty"

definition useCreateRemittance :: api_hook where
  "useCreateRemittance =
     posts [Lit ''remittances'']
       [req ''amount'' TNum, req ''fromCurrency'' TStr, req ''toCurrency'' TStr, req ''recipientAddress'' TStr, opt ''memo'' TStr]
       Whole Remittance_ty"

definition useUserProfile :: api_hook where
  "useUserProfile = fetches [Lit ''user'', Lit ''profile''] Whole UserProfile_ty"

definition useUserBalance :: api_hook where
  "useUserBalance = fetches [Lit ''user'', Lit ''balance''] Whole UserBalance_ty"

definition useCreditScoreHistory :: api_hook where
  "useCreditScoreHistory = fetches [Lit ''score'', Param ''userId'', Lit ''history''] Whole (TArr CreditScoreHistory_ty)"

definition useScoreBreakdown :: api_hook where
  "useScoreBreakdown = fetches [Lit ''score'', Param ''userId'', Lit ''breakdown''] Whole ScoreBreakdownResponse_ty"

definition useRemittanceNft :: api_hook where
  "useRemittanceNft = fetches [Lit ''score'', Param ''walletAddress'', Lit ''nft''] (Get ''nft'' Whole) (nullable RemittanceNftMetadata_ty)"

definition useCreditScore :: api_hook where
  "useCreditScore = fetches [Lit ''score'', Param ''userId''] (Get ''score'' Whole) TNum"

definition useYieldHistory :: api_hook where
  "useYieldHistory =
     fetches [Lit ''pool'', Lit ''depositor'', Param ''userId'', Lit ''yield-history''] (Get ''data'' Whole) (TArr YieldHistory_ty)"

definition usePoolStats :: api_hook where
  "usePoolStats = fetches [Lit ''pool'', Lit ''stats''] (Get ''data'' Whole) PoolStats_ty"

definition useDepositorPortfolio :: api_hook where
  "useDepositorPortfolio = fetches [Lit ''pool'', Lit ''depositor'', Param ''address''] (Get ''data'' Whole) DepositorPortfolio_ty"

definition useNotifications :: api_hook where
  "useNotifications = fetches [Lit ''notifications''] (Get ''data'' Whole) NotificationsResponse_ty"

definition useNotificationPreferences :: api_hook where
  "useNotificationPreferences = fetches [Lit ''notifications'', Lit ''preferences''] Whole NotificationPreferences_ty"

definition useUpdateNotificationPreferences :: api_hook where
  "useUpdateNotificationPreferences =
     \<lparr>hk_verb = HttpPut, hk_path = [Lit ''notifications'', Lit ''preferences''],
      hk_body = Some (rec [req ''emailEnabled'' TBool, req ''smsEnabled'' TBool, req ''phone'' (nullable TStr), req ''perTypeOverrides'' (iface [])]),
      hk_read = Whole, hk_type = NotificationPreferences_ty\<rparr>"

definition useMarkNotificationsRead :: api_hook where
  "useMarkNotificationsRead = posts [Lit ''notifications'', Lit ''mark-read''] [req ''ids'' (TArr TNum)] Whole TAny"

definition useMarkAllNotificationsRead :: api_hook where
  "useMarkAllNotificationsRead =
     \<lparr>hk_verb = HttpPost, hk_path = [Lit ''notifications'', Lit ''mark-all-read''], hk_body = None, hk_read = Whole, hk_type = TAny\<rparr>"

definition useVerifySession :: api_hook where
  "useVerifySession = fetches [Lit ''auth'', Lit ''verify''] (Get ''data'' Whole) AuthSession_ty"

definition useAdminDisputes :: api_hook where
  "useAdminDisputes =
     fetches [Lit ''admin'', Lit ''disputes'']
       (IsArray Rows (Having [''disputes''] (Get ''disputes'' Rows) (Get ''data'' Rows))) (TArr (iface []))"

definition useAdminDispute :: api_hook where
  "useAdminDispute =
     fetches [Lit ''admin'', Lit ''disputes'', Param ''id'']
       (Having [''dispute''] (Get ''dispute'' Whole) (Having [''data''] (Get ''data'' Whole) Whole)) (iface [])"

definition useResolveAdminDispute :: "string \<Rightarrow> api_hook" where
  "useResolveAdminDispute action =
     posts [Lit ''admin'', Lit ''disputes'', Param ''id'', Lit action] [req ''note'' TStr, req ''resolution'' TStr]
       Whole (iface [req ''success'' TBool, opt ''message'' TStr])"

definition useRepayLoan :: api_hook where
  "useRepayLoan =
     posts [Lit ''loans'', Param ''loanId'', Lit ''repay''] [req ''amount'' TNum, req ''borrowerPublicKey'' TStr]
       (Texts [''unsignedTxXdr'', ''networkPassphrase'']) unsigned_ty"

definition useDepositToPool :: api_hook where
  "useDepositToPool =
     posts [Lit ''pool'', Lit ''build-deposit''] [req ''amount'' TNum, req ''depositorPublicKey'' TStr, req ''token'' TStr] Whole unsigned_ty"

definition useWithdrawFromPool :: api_hook where
  "useWithdrawFromPool =
     posts [Lit ''pool'', Lit ''build-withdraw'']
       [req ''amount'' TNum, req ''depositorPublicKey'' TStr, req ''token'' TStr, opt ''minAssetsOut'' TNum] Whole unsigned_ty"

definition submitPoolTransaction_call :: api_hook where
  "submitPoolTransaction_call = posts [Lit ''pool'', Lit ''submit''] [req ''signedTxXdr'' TStr] Whole submitted_ty"

definition submitLoanTransaction_call :: api_hook where
  "submitLoanTransaction_call = posts [Lit ''loans'', Lit ''submit''] [req ''signedTxXdr'' TStr] Whole submitted_ty"

definition buildRefinanceLoanTransaction :: api_hook where
  "buildRefinanceLoanTransaction =
     posts [Lit ''loans'', Param ''loanId'', Lit ''build-refinance''] [req ''borrowerPublicKey'' TStr, req ''newAmount'' TNum, req ''newTerm'' TNum]
       Whole BuildLoanTxResponse_ty"

definition buildExtendLoanTransaction :: api_hook where
  "buildExtendLoanTransaction =
     posts [Lit ''loans'', Param ''loanId'', Lit ''build-extend''] [req ''borrowerPublicKey'' TStr, req ''extraLedgers'' TNum]
       Whole BuildLoanTxResponse_ty"

definition buildLiquidateLoanTransaction :: api_hook where
  "buildLiquidateLoanTransaction =
     posts [Lit ''loans'', Param ''loanId'', Lit ''liquidate'', Lit ''build''] [req ''liquidatorPublicKey'' TStr] Whole BuildLoanTxResponse_ty"

definition useAdminGovernancePending :: api_hook where
  "useAdminGovernancePending = fetches [Lit ''admin'', Lit ''governance'', Lit ''pending''] Whole GovernancePendingResponse_ty"

definition buildDepositCollateralTransaction :: api_hook where
  "buildDepositCollateralTransaction =
     posts [Lit ''loans'', Param ''loanId'', Lit ''deposit-collateral''] [req ''amount'' TStr] Whole BuildLoanTxResponse_ty"

definition buildReleaseCollateralTransaction :: api_hook where
  "buildReleaseCollateralTransaction =
     posts [Lit ''loans'', Param ''loanId'', Lit ''release-collateral''] [req ''amount'' TStr] Whole BuildLoanTxResponse_ty"

text \<open>The streams, which are not opened through \<open>apiFetch\<close>: \<open>useCreditScore\<close>, \<open>useLoanStream\<close> and the page of the disputes
  open the first, \<open>useNotificationStream\<close> the second, and the page of the lenders the third.\<close>

definition stream_paths :: "(string \<times> string list) list" where
  "stream_paths =
     [(''useLoanStream'', [''api'', ''events'', ''stream'']),
      (''useNotificationStream'', [''api'', ''notifications'', ''stream'']),
      (''LendPageClient'', [''pool'', ''events''])]"

definition api_hooks :: "(string \<times> api_hook) list" where
  "api_hooks =
     [(''useLoans'', useLoans), (''useLoan'', useLoan), (''useLoanAmortizationSchedule'', useLoanAmortizationSchedule),
      (''useLoanAmortizationPreview'', useLoanAmortizationPreview), (''useLiquidatableLoans'', useLiquidatableLoans),
      (''useLoanEvents'', useLoanEvents), (''useMinimumScore'', useMinimumScore), (''useCreateLoan'', useCreateLoan),
      (''fetchRemittancesPage'', fetchRemittancesPage), (''fetchMyTransactionsPage'', fetchMyTransactionsPage),
      (''fetchBorrowerLoansPage'', fetchBorrowerLoansPage), (''useRemittance'', useRemittance),
      (''useCreateRemittance'', useCreateRemittance), (''useUserProfile'', useUserProfile), (''useUserBalance'', useUserBalance),
      (''useCreditScoreHistory'', useCreditScoreHistory), (''useScoreBreakdown'', useScoreBreakdown),
      (''useRemittanceNft'', useRemittanceNft), (''useCreditScore'', useCreditScore), (''useYieldHistory'', useYieldHistory),
      (''usePoolStats'', usePoolStats), (''useDepositorPortfolio'', useDepositorPortfolio), (''useNotifications'', useNotifications),
      (''useNotificationPreferences'', useNotificationPreferences),
      (''useUpdateNotificationPreferences'', useUpdateNotificationPreferences),
      (''useMarkNotificationsRead'', useMarkNotificationsRead), (''useMarkAllNotificationsRead'', useMarkAllNotificationsRead),
      (''useVerifySession'', useVerifySession), (''useAdminDisputes'', useAdminDisputes), (''useAdminDispute'', useAdminDispute),
      (''useResolveAdminDispute resolve'', useResolveAdminDispute ''resolve''),
      (''useResolveAdminDispute reject'', useResolveAdminDispute ''reject''),
      (''useRepayLoan'', useRepayLoan), (''useDepositToPool'', useDepositToPool), (''useWithdrawFromPool'', useWithdrawFromPool),
      (''submitPoolTransaction'', submitPoolTransaction_call), (''submitLoanTransaction'', submitLoanTransaction_call),
      (''buildRefinanceLoanTransaction'', buildRefinanceLoanTransaction), (''buildExtendLoanTransaction'', buildExtendLoanTransaction),
      (''buildLiquidateLoanTransaction'', buildLiquidateLoanTransaction), (''useAdminGovernancePending'', useAdminGovernancePending),
      (''buildDepositCollateralTransaction'', buildDepositCollateralTransaction),
      (''buildReleaseCollateralTransaction'', buildReleaseCollateralTransaction)]"

section \<open>Which route serves a hook\<close>

fun fill :: "string \<Rightarrow> seg \<Rightarrow> string" where
  "fill i (Lit l) = l"
| "fill i (Param n) = i"

text \<open>\<open>base\<close>: the segments of the path of \<open>NEXT_PUBLIC_API_URL\<close>; \<open>i\<close>: the loan, user or address of the call.\<close>

definition hook_route :: "bool \<Rightarrow> string list \<Rightarrow> string \<Rightarrow> api_hook \<Rightarrow> route option" where
  "hook_route dev base i hk = dispatch dev (hk_verb hk) (base @ map (fill i) (hk_path hk))"

definition hook_handler :: "bool \<Rightarrow> string list \<Rightarrow> string \<Rightarrow> api_hook \<Rightarrow> string option" where
  "hook_handler dev base i hk = map_option r_handler (hook_route dev base i hk)"

text \<open>An identifier that no route spells out, such as a number or an address.\<close>

definition unspelt :: "string \<Rightarrow> route list \<Rightarrow> bool" where
  "unspelt w rs = list_all (\<lambda>r. list_all (\<lambda>s. case s of Lit l \<Rightarrow> w \<noteq> l | Param n \<Rightarrow> True) (r_path r)) rs"

definition plain_id :: "bool \<Rightarrow> string \<Rightarrow> bool" where
  "plain_id dev i \<longleftrightarrow> i \<noteq> [] \<and> unspelt (js_lower i) (app_routes dev)"

text \<open>Without the identifier.\<close>

definition generic :: "api_hook \<Rightarrow> string list" where
  "generic hk = map (fill ''~'') (hk_path hk)"

lemma generic_id: "plain_id False ''~''"
  by code_simp

lemma plain_no_match: "plain_id dev i \<Longrightarrow> r \<in> set (app_routes dev) \<Longrightarrow> s \<in> set (r_path r) \<Longrightarrow> seg_match s i = (\<exists>n. s = Param n)"
  by (cases s) (auto simp: plain_id_def unspelt_def list_all_iff dest!: bspec)

lemma match_generic:
  assumes "plain_id False i" "r \<in> set (app_routes False)"
  shows "matches (r_path r) (base @ map (fill i) p) = matches (r_path r) (base @ map (fill ''~'') p)"
proof -
  have m: "seg_match s (fill i q) = seg_match s (fill ''~'' q)" if "s \<in> set (r_path r)" for s q
    using plain_no_match [OF assms that] plain_no_match [OF generic_id assms(2) that] by (cases q) simp_all
  then show ?thesis by (auto simp: matches_def list_all2_conv_all_nth nth_append)
qed

lemma find_eq: "(\<And>x. x \<in> set xs \<Longrightarrow> P x = Q x) \<Longrightarrow> find P xs = find Q xs"
  by (induction xs) auto

lemma route_generic:
  "plain_id False i \<Longrightarrow> hook_route False base i hk = dispatch False (hk_verb hk) (base @ generic hk)"
  unfolding hook_route_def dispatch_def generic_def by (rule find_eq) (simp add: match_generic)

text \<open>Mount by mount, on a path in lower case.\<close>

fun low_match :: "seg list \<Rightarrow> string list \<Rightarrow> bool" where
  "low_match [] [] = True"
| "low_match (Lit l # p) (s # ss) = (if s = l then low_match p ss else False)"
| "low_match (Param n # p) (s # ss) = (if s = [] then False else low_match p ss)"
| "low_match p ss = False"

fun strip_prefix :: "string list \<Rightarrow> string list \<Rightarrow> string list option" where
  "strip_prefix [] path = Some path"
| "strip_prefix (x # xs) [] = None"
| "strip_prefix (x # xs) (y # ys) = (if y = x then strip_prefix xs ys else None)"

fun find_route :: "route list \<Rightarrow> verb \<Rightarrow> string list \<Rightarrow> string option" where
  "find_route [] v path = None"
| "find_route (r # rs) v path =
     (if r_verb r = v then if low_match (r_path r) path then Some (r_handler r) else find_route rs v path else find_route rs v path)"

fun find_mounted :: "(string list \<times> route list) list \<Rightarrow> verb \<Rightarrow> string list \<Rightarrow> string option" where
  "find_mounted [] v path = None"
| "find_mounted ((prefix, rs) # ms) v path =
     (case strip_prefix prefix path of
        None \<Rightarrow> find_mounted ms v path
      | Some rest \<Rightarrow> (case find_route rs v rest of None \<Rightarrow> find_mounted ms v path | Some h \<Rightarrow> Some h))"

lemma js_lower_Nil: "js_lower s = [] \<longleftrightarrow> s = []"
  by (simp add: js_lower_def)

lemma low_matches: "matches p path \<longleftrightarrow> low_match p (map js_lower path)"
  unfolding matches_def
proof (induction p path rule: list_induct2')
  case (4 x xs y ys)
  then show ?case by (cases x) (auto simp: js_lower_Nil)
qed (auto elim: low_match.elims)

lemma match_mounted:
  "low_match (map Lit prefix @ p) path \<longleftrightarrow> (case strip_prefix prefix path of None \<Rightarrow> False | Some rest \<Rightarrow> low_match p rest)"
  by (induction prefix path rule: strip_prefix.induct) auto

lemma find_mount:
  "map_option r_handler (find (\<lambda>r. r_verb r = v \<and> low_match (r_path r) path) (mount prefix rs)) =
     (case strip_prefix prefix path of None \<Rightarrow> None | Some rest \<Rightarrow> find_route rs v rest)"
  by (induction rs) (auto simp: mount_def match_mounted split: option.splits)

lemma find_append: "find P (xs @ ys) = (case find P xs of None \<Rightarrow> find P ys | Some x \<Rightarrow> Some x)"
  by (induction xs) auto

lemma dispatch_mounted: "map_option r_handler (dispatch dev v path) = find_mounted (mounts dev) v (map js_lower path)"
proof -
  have "map_option r_handler (find (\<lambda>r. r_verb r = v \<and> low_match (r_path r) p) (concat (map (\<lambda>(prefix, rs). mount prefix rs) ms))) =
      find_mounted ms v p" for ms p
  proof (induction ms)
    case (Cons m ms)
    obtain prefix rs where m: "m = (prefix, rs)" by (cases m)
    show ?case using Cons find_mount [of v p prefix rs]
      by (auto simp: m find_append split: option.splits)
  qed simp
  then show ?thesis by (simp add: dispatch_def app_routes_def low_matches)
qed

text \<open>The routes without their guards, and what is left of them after the first segments.\<close>

type_synonym bare_route = "verb \<times> seg list \<times> string"

definition bare :: "(string list \<times> route list) list \<Rightarrow> (string list \<times> bare_route list) list" where
  "bare ms = map (\<lambda>(p, rs). (p, map (\<lambda>r. (r_verb r, r_path r, r_handler r)) rs)) ms"

fun find_bare :: "bare_route list \<Rightarrow> verb \<Rightarrow> string list \<Rightarrow> string option" where
  "find_bare [] v path = None"
| "find_bare ((w, p, h) # rs) v path =
     (if w = v then if low_match p path then Some h else find_bare rs v path else find_bare rs v path)"

fun find_in :: "(string list \<times> bare_route list) list \<Rightarrow> verb \<Rightarrow> string list \<Rightarrow> string option" where
  "find_in [] v path = None"
| "find_in ((prefix, rs) # ms) v path =
     (case strip_prefix prefix path of
        None \<Rightarrow> find_in ms v path
      | Some rest \<Rightarrow> (case find_bare rs v rest of None \<Rightarrow> find_in ms v path | Some h \<Rightarrow> Some h))"

fun descend_bare :: "string \<Rightarrow> bare_route list \<Rightarrow> bare_route list" where
  "descend_bare x [] = []"
| "descend_bare x ((v, p, h) # rs) =
     (case p of
        [] \<Rightarrow> descend_bare x rs
      | Lit l # q \<Rightarrow> (if x = l then (v, q, h) # descend_bare x rs else descend_bare x rs)
      | Param n # q \<Rightarrow> (if x = [] then descend_bare x rs else (v, q, h) # descend_bare x rs))"

fun descend :: "string \<Rightarrow> (string list \<times> bare_route list) list \<Rightarrow> (string list \<times> bare_route list) list" where
  "descend x [] = []"
| "descend x (([], rs) # ms) = ([], descend_bare x rs) # descend x ms"
| "descend x ((y # ys, rs) # ms) = (if x = y then (ys, rs) # descend x ms else descend x ms)"

lemma find_bare_route: "find_bare (map (\<lambda>r. (r_verb r, r_path r, r_handler r)) rs) v path = find_route rs v path"
  by (induction rs) auto

lemma find_in_bare: "find_in (bare ms) v path = find_mounted ms v path"
  by (induction ms v path rule: find_mounted.induct) (auto simp: bare_def find_bare_route split: option.splits)

lemma find_descend_bare: "find_bare rs v (x # path) = find_bare (descend_bare x rs) v path"
  by (induction x rs rule: descend_bare.induct) (auto split: list.splits seg.splits)

lemma find_descend: "find_in ms v (x # path) = find_in (descend x ms) v path"
  by (induction x ms rule: descend.induct) (auto simp: find_descend_bare split: option.splits)

lemma find_descends: "find_in ms v (base @ path) = find_in (fold descend base ms) v path"
  by (induction base arbitrary: ms) (simp_all add: find_descend)

fun is_flat :: "char \<Rightarrow> bool" where
  "is_flat (Char b0 b1 b2 b3 b4 b5 b6 b7) = (if b7 then False else if b5 then True else \<not> b6)"

lemma flat_lower: "list_all is_flat s \<Longrightarrow> js_lower s = s"
proof (induction s)
  case (Cons c s)
  have "is_flat c \<Longrightarrow> \<not> ((65 \<le> (of_char c :: nat) \<and> of_char c \<le> (90 :: nat)) \<or> (192 \<le> (of_char c :: nat) \<and> of_char c \<le> (222 :: nat) \<and> of_char c \<noteq> (215 :: nat)))"
    by (cases c) (simp split: if_splits)
  then show ?case using Cons by (auto simp: js_lower_def Let_def)
qed (simp add: js_lower_def)

lemma flat_hooks: "list_all (\<lambda>(n, hk). list_all (list_all is_flat) (generic hk)) api_hooks"
  by code_simp

definition slim_hooks :: "(string \<times> verb \<times> string list) list" where
  "slim_hooks = map (\<lambda>(n, hk). (n, hk_verb hk, generic hk)) api_hooks"

fun group_of :: "string \<Rightarrow> (string \<times> verb \<times> string list) list \<Rightarrow> (string \<times> verb \<times> string list) list" where
  "group_of x [] = []"
| "group_of x ((n, v, p) # hs) =
     (case p of [] \<Rightarrow> group_of x hs | y # q \<Rightarrow> (if y = x then (n, v, q) # group_of x hs else group_of x hs))"

fun hook_table :: "(string list \<times> bare_route list) list \<Rightarrow> (string \<times> verb \<times> string list) list \<Rightarrow> (string \<times> string option) list" where
  "hook_table ms [] = []"
| "hook_table ms ((n, v, p) # hs) = (n, find_in ms v p) # hook_table ms hs"

fun hook_tables :: "(string list \<times> bare_route list) list \<Rightarrow> string list \<Rightarrow> (string \<times> verb \<times> string list) list \<Rightarrow> (string \<times> string option) list" where
  "hook_tables ms [] hs = []"
| "hook_tables ms (x # xs) hs = hook_table (descend x ms) (group_of x hs) @ hook_tables ms xs hs"

definition first_words :: "string list" where
  "first_words = [''loans'', ''remittances'', ''transactions'', ''user'', ''score'', ''pool'', ''notifications'', ''auth'', ''admin'']"

lemma hook_heads: "list_all (\<lambda>(n, hk). case generic hk of [] \<Rightarrow> False | y # p \<Rightarrow> List.member first_words y) api_hooks"
  by code_simp

lemma group_entry: "(n, v, x # p) \<in> set hs \<Longrightarrow> (n, v, p) \<in> set (group_of x hs)"
  by (induction x hs rule: group_of.induct) (auto split: list.splits)

lemma table_entry: "(n, v, p) \<in> set hs \<Longrightarrow> (n, find_in ms v p) \<in> set (hook_table ms hs)"
  by (induction ms hs rule: hook_table.induct) auto

lemma tables_entry:
  "x \<in> set xs \<Longrightarrow> (n, v, x # p) \<in> set hs \<Longrightarrow> (n, find_in ms v (x # p)) \<in> set (hook_tables ms xs hs)"
  by (induction xs) (auto simp: find_descend intro: table_entry group_entry)

definition routing :: "string list \<Rightarrow> (string \<times> string option) list" where
  "routing base = hook_tables (fold descend base (bare (mounts False))) first_words slim_hooks"

lemma routing_generic:
  assumes "plain_id False i" "(n, hk) \<in> set api_hooks" "list_all (list_all is_flat) base"
  shows "(n, hook_handler False base i hk) \<in> set (routing base)"
proof -
  have "list_all (list_all is_flat) (base @ generic hk)"
    using assms(2,3) flat_hooks by (auto simp: list_all_iff)
  then have "map js_lower (base @ generic hk) = base @ generic hk"
    by (intro map_idI) (auto simp: list_all_iff intro!: flat_lower)
  then have h: "hook_handler False base i hk = find_in (fold descend base (bare (mounts False))) (hk_verb hk) (generic hk)"
    using route_generic [OF assms(1), of base hk] dispatch_mounted [of False "hk_verb hk" "base @ generic hk"]
    by (simp add: hook_handler_def find_in_bare flip: find_descends)
  obtain x p where x: "generic hk = x # p" "x \<in> set first_words"
    using hook_heads assms(2) by (cases "generic hk") (auto simp: list_all_iff dest!: bspec)
  have "(n, hk_verb hk, x # p) \<in> set slim_hooks" using assms(2) x(1) by (force simp: slim_hooks_def)
  then show ?thesis using tables_entry [OF x(2)] h x(1) by (simp add: routing_def)
qed

definition served_hooks :: "(string \<times> string) list" where
  "served_hooks =
     [(''useLoan'', ''getLoanDetails''), (''useLoanAmortizationSchedule'', ''getLoanAmortizationSchedule''),
      (''useLoanAmortizationPreview'', ''previewLoanAmortizationSchedule''), (''useLiquidatableLoans'', ''getLoanDetails''),
      (''useLoanEvents'', ''getLoanEvents''), (''useMinimumScore'', ''getLoanConfigEndpoint''),
      (''fetchRemittancesPage'', ''getRemittances''), (''fetchMyTransactionsPage'', ''listMyTransactions''),
      (''fetchBorrowerLoansPage'', ''getBorrowerLoans''), (''useRemittance'', ''getRemittance''), (''useCreateRemittance'', ''createRemittance''),
      (''useCreditScoreHistory'', ''getOnChainScoreHistory''), (''useScoreBreakdown'', ''getScoreBreakdown''),
      (''useRemittanceNft'', ''getRemittanceNft''), (''useCreditScore'', ''getScore''), (''useYieldHistory'', ''getDepositorYieldHistory''),
      (''usePoolStats'', ''getPoolStats''), (''useDepositorPortfolio'', ''getDepositorPortfolio''), (''useNotifications'', ''getNotifications''),
      (''useNotificationPreferences'', ''getNotificationPreferences''),
      (''useUpdateNotificationPreferences'', ''updateNotificationPreferences''), (''useMarkNotificationsRead'', ''markRead''),
      (''useMarkAllNotificationsRead'', ''markAllRead''), (''useVerifySession'', ''verify''), (''useAdminDisputes'', ''listLoanDisputes''),
      (''useAdminDispute'', ''getLoanDispute''), (''useResolveAdminDispute resolve'', ''resolveLoanDispute''),
      (''useResolveAdminDispute reject'', ''rejectLoanDispute''), (''useRepayLoan'', ''repayLoan''), (''useDepositToPool'', ''depositToPool''),
      (''useWithdrawFromPool'', ''withdrawFromPool''), (''submitPoolTransaction'', ''submitPoolTransaction''),
      (''submitLoanTransaction'', ''submitTransaction''), (''buildRefinanceLoanTransaction'', ''refinanceLoan''),
      (''buildExtendLoanTransaction'', ''extendLoan''), (''buildLiquidateLoanTransaction'', ''buildLiquidateLoan''),
      (''useAdminGovernancePending'', ''getPendingGovernance'')]"

definition lost_hooks :: "string list" where
  "lost_hooks =
     [''useLoans'', ''useCreateLoan'', ''useUserProfile'', ''useUserBalance'', ''buildDepositCollateralTransaction'', ''buildReleaseCollateralTransaction'']"


definition expected_handler :: "string \<Rightarrow> string option" where
  "expected_handler n = (if List.member lost_hooks n then None else map_of served_hooks n)"

fun agrees :: "(string \<Rightarrow> string option) \<Rightarrow> (string \<times> string option) list \<Rightarrow> bool" where
  "agrees f [] = True"
| "agrees f ((n, h) # t) = (h = f n \<and> agrees f t)"

lemma agreesD: "agrees f t \<Longrightarrow> (n, h) \<in> set t \<Longrightarrow> h = f n"
  by (induction f t rule: agrees.induct) auto

lemma routing_api: "agrees expected_handler (routing [''api''])" "agrees expected_handler (routing [''api'', ''v1''])"
  by code_simp+

definition only_profile :: "string \<Rightarrow> string option" where
  "only_profile n = (if n = ''useUserProfile'' then Some ''getUserProfile'' else None)"

lemma routing_root: "agrees only_profile (routing [])"
  by code_simp

lemma flat_bases: "list_all (list_all is_flat) [''api'']" "list_all (list_all is_flat) [''api'', ''v1'']" "list_all (list_all is_flat) []"
  by code_simp+

lemma hook_expected:
  assumes "plain_id False i" "base \<in> {[''api''], [''api'', ''v1'']}" "(n, hk) \<in> set api_hooks"
  shows "hook_handler False base i hk = expected_handler n"
proof -
  have "agrees expected_handler (routing base)" "list_all (list_all is_flat) base"
    using routing_api flat_bases assms(2) by auto
  then show ?thesis using agreesD routing_generic [OF assms(1,3)] by blast
qed

lemma hook_root:
  "plain_id False i \<Longrightarrow> (n, hk) \<in> set api_hooks \<Longrightarrow> hook_handler False [] i hk = only_profile n"
  using agreesD [OF routing_root] routing_generic flat_bases(3) by blast

section \<open>Where the routes of a base start\<close>

text \<open>What is left before the segments at the end, from the back.\<close>

fun strip_match :: "seg list \<Rightarrow> string list \<Rightarrow> seg list option" where
  "strip_match ps [] = Some ps"
| "strip_match [] (s # ss) = None"
| "strip_match (Lit l # ps) (s # ss) = (if s = l then strip_match ps ss else None)"
| "strip_match (Param n # ps) (s # ss) = (if s = [] then None else strip_match ps ss)"

definition low_seg :: "seg \<Rightarrow> string \<Rightarrow> bool" where
  "low_seg p s = (case p of Lit l \<Rightarrow> s = l | Param n \<Rightarrow> s \<noteq> [])"

lemma low_match_all2: "low_match p ss = list_all2 low_seg p ss"
  by (induction p ss rule: low_match.induct) (auto simp: low_seg_def)

lemma strip_match_all2: "list_all2 low_seg p (ss @ base) \<Longrightarrow> \<exists>rest. strip_match p ss = Some rest \<and> length rest = length base"
  by (induction p ss rule: strip_match.induct) (auto simp: low_seg_def dest: list_all2_lengthD)

fun only_root :: "string list \<Rightarrow> route list \<Rightarrow> bool" where
  "only_root suf [] = True"
| "only_root suf (r # rs) =
     (if r_verb r = HttpGet
      then (case strip_match (rev (r_path r)) suf of Some (x # xs) \<Rightarrow> False | _ \<Rightarrow> only_root suf rs) else only_root suf rs)"

lemma only_rootD:
  "only_root suf rs \<Longrightarrow> r \<in> set rs \<Longrightarrow> r_verb r = HttpGet \<Longrightarrow> strip_match (rev (r_path r)) suf = Some rest \<Longrightarrow> rest = []"
  by (induction suf rs rule: only_root.induct) (auto split: option.splits list.splits if_splits)

lemma streams_at_root:
  "only_root [''stream'', ''events'', ''api''] (app_routes False)" "only_root [''stream'', ''notifications'', ''api''] (app_routes False)"
  by code_simp+

lemma flat_streams:
  "map js_lower [''api'', ''events'', ''stream''] = [''api'', ''events'', ''stream'']"
  "map js_lower [''api'', ''notifications'', ''stream''] = [''api'', ''notifications'', ''stream'']"
  by code_simp+

lemma served_stream_base:
  assumes "dispatch False HttpGet (base @ path) = Some r" "path \<in> {[''api'', ''events'', ''stream''], [''api'', ''notifications'', ''stream'']}"
  shows "base = []"
proof -
  have r: "r \<in> set (app_routes False)" "r_verb r = HttpGet" "matches (r_path r) (base @ path)"
    using assms(1) by (auto simp: dispatch_def dest!: find_SomeD)
  have "map js_lower path = path" "only_root (rev path) (app_routes False)"
    using assms(2) flat_streams streams_at_root by auto
  then have "list_all2 low_seg (rev (r_path r)) (rev path @ rev (map js_lower base))"
    using r(3) low_matches [of "r_path r" "base @ path"] by (simp add: low_match_all2 flip: rev_append)
  then obtain rest where rest: "strip_match (rev (r_path r)) (rev path) = Some rest" "length rest = length base"
    using strip_match_all2 [of "rev (r_path r)" "rev path" "rev (map js_lower base)"] by auto
  then have "rest = []" using only_rootD [OF \<open>only_root (rev path) (app_routes False)\<close> r(1,2)] by blast
  then show ?thesis using rest(2) by simp
qed

section \<open>Types\<close>

definition conforming_hooks :: "string list" where
  "conforming_hooks =
     [''useLoanAmortizationSchedule'', ''useLoanAmortizationPreview'', ''useLoanEvents'', ''useMinimumScore'', ''fetchMyTransactionsPage'',
      ''useScoreBreakdown'', ''useRemittanceNft'', ''useCreditScore'', ''useYieldHistory'', ''usePoolStats'', ''useDepositorPortfolio'',
      ''useNotificationPreferences'', ''useUpdateNotificationPreferences'', ''useMarkNotificationsRead'', ''useMarkAllNotificationsRead'',
      ''useVerifySession'', ''useAdminDispute'', ''useResolveAdminDispute resolve'', ''useResolveAdminDispute reject'',
      ''useDepositToPool'', ''useWithdrawFromPool'', ''submitPoolTransaction'', ''submitLoanTransaction'',
      ''buildRefinanceLoanTransaction'', ''buildExtendLoanTransaction'', ''buildLiquidateLoanTransaction'']"

definition broken_hooks :: "string list" where
  "broken_hooks =
     [''useLoan'', ''useLiquidatableLoans'', ''useRemittance'', ''useCreateRemittance'', ''useCreditScoreHistory'', ''useAdminDisputes'']"

definition hook_answer :: "string \<Rightarrow> ty option" where
  "hook_answer n = (case map_of served_hooks n of None \<Rightarrow> None | Some h \<Rightarrow> answer_ty h)"

fun verdict_ok :: "string \<times> api_hook \<Rightarrow> bool" where
  "verdict_ok (n, hk) =
     (case hook_answer n of
        None \<Rightarrow> \<not> List.member conforming_hooks n \<and> \<not> List.member broken_hooks n
      | Some t \<Rightarrow>
          (let v = verdict_of (hk_read hk) t (hk_type hk) in
           if List.member conforming_hooks n then v = Conforms
           else if List.member broken_hooks n then v = Broken else if n = ''fetchBorrowerLoansPage'' then v = BrokenRows else True))"

lemma verdicts_ok: "list_all verdict_ok (take 20 api_hooks)" "list_all verdict_ok (drop 20 api_hooks)"
  by code_simp+

lemma verdict_hook: "x \<in> set api_hooks \<Longrightarrow> verdict_ok x"
  using verdicts_ok by (metis append_take_drop_id list_all_append list_all_iff)

lemma events_reading: "read_type (hk_read useLoanEvents) getLoanEvents_answer = Reads (TArr (TUnion []))"
  by code_simp

lemma api_hooks_distinct: "distinct (map fst api_hooks)"
  by (simp add: api_hooks_def)

lemma handler_answer:
  assumes "plain_id False i" "base \<in> {[''api''], [''api'', ''v1'']}" "(n, hk) \<in> set api_hooks"
    "hook_handler False base i hk = Some h" "answer_ty h = Some t"
  shows "hook_answer n = Some t" "map_of served_hooks n = Some h"
proof -
  have "expected_handler n = Some h" using hook_expected [OF assms(1-3)] assms(4) by simp
  then show "map_of served_hooks n = Some h" by (simp add: expected_handler_def split: if_splits)
  then show "hook_answer n = Some t" using assms(5) by (simp add: hook_answer_def)
qed

definition body_expected :: "string \<Rightarrow> ty option" where
  "body_expected n = (case map_of served_hooks n of None \<Rightarrow> None | Some h \<Rightarrow> body_ty h)"

definition rejected_bodies :: "string list" where
  "rejected_bodies = [''useResolveAdminDispute resolve'', ''useDepositToPool'']"

fun body_ok :: "string \<times> api_hook \<Rightarrow> bool" where
  "body_ok (n, hk) =
     (case hk_body hk of
        None \<Rightarrow> True
      | Some b \<Rightarrow>
          (case body_expected n of
             None \<Rightarrow> True
           | Some t \<Rightarrow> (if List.member rejected_bodies n then clash b t else sub b t)))"

lemma bodies_ok: "list_all body_ok api_hooks"
  by code_simp

lemma pool_stream_unserved:
  "list_all (\<lambda>b. dispatch False HttpGet (b @ the (map_of stream_paths ''LendPageClient'')) = None) [[], [''api''], [''api'', ''v1'']]"
proof -
  have "find_mounted (mounts False) HttpGet [''pool'', ''events''] = None" by code_simp
  moreover have "find_mounted (mounts False) HttpGet [''api'', ''pool'', ''events''] = None" by code_simp
  moreover have "find_mounted (mounts False) HttpGet [''api'', ''v1'', ''pool'', ''events''] = None" by code_simp
  moreover have "list_all (\<lambda>w. js_lower w = w) [''api'', ''v1'', ''pool'', ''events'']" by code_simp
  ultimately have none: "map_option r_handler (dispatch False HttpGet (b @ [''pool'', ''events''])) = None"
    if "b \<in> {[], [''api''], [''api'', ''v1'']}" for b
    using that unfolding dispatch_mounted by auto
  show ?thesis using none [of "[]"] none [of "[''api'']"] none [of "[''api'', ''v1'']"] by (simp add: stream_paths_def)
qed

section \<open>Properties\<close>


text \<open>No value of \<open>NEXT_PUBLIC_API_URL\<close> serves both the streams and the hooks: where one of the two streams of
  the backend is served, every hook but the profile reaches no handler; and the stream of the pool is served neither
  at the root nor below \<open>/api\<close> or \<open>/api/v1\<close>.\<close>

theorem streams_exclude_hooks:
  assumes "plain_id False i" "(s, path) \<in> set (take 2 stream_paths)" "dispatch False HttpGet (base @ path) \<noteq> None"
    and "(n, hk) \<in> set api_hooks" "n \<noteq> ''useUserProfile''"
  shows "hook_route False base i hk = None \<and>
    list_all (\<lambda>b. dispatch False HttpGet (b @ the (map_of stream_paths ''LendPageClient'')) = None) [[], [''api''], [''api'', ''v1'']]"
proof
  have "base = []" using assms(2,3) served_stream_base by (auto simp: stream_paths_def)
  then have "hook_handler False base i hk = None" using hook_root [OF assms(1,4)] assms(5) by (simp add: only_profile_def)
  then show "hook_route False base i hk = None" by (simp add: hook_handler_def)
  show "list_all (\<lambda>b. dispatch False HttpGet (b @ the (map_of stream_paths ''LendPageClient'')) = None) [[], [''api''], [''api'', ''v1'']]"
    by (rule pool_stream_unserved)
qed


text \<open>What the hooks send: every body that a hook can send has the shape that the schema and the handler of its route
  want, but for the resolution of a dispute, which never has an action, and for a deposit, which never names the
  least shares to accept, so both are always refused; and the note of a rejection never reaches the handler.\<close>

theorem bodies_typed:
  assumes "plain_id False i" "base \<in> {[''api''], [''api'', ''v1'']}" "(n, hk) \<in> set api_hooks"
    and "hook_handler False base i hk = Some h" "hk_body hk = Some b" "body_ty h = Some t" "has_type b j"
  shows "has_type t j = (n \<notin> set rejected_bodies) \<and> (n = ''useResolveAdminDispute reject'' \<longrightarrow> field ''admin_note'' j = None)"
proof
  have "map_of served_hooks n = Some h"
    using hook_expected [OF assms(1-3)] assms(4) by (auto simp: expected_handler_def split: if_splits)
  then have e: "body_expected n = Some t" using assms(6) by (simp add: body_expected_def)
  have ok: "body_ok (n, hk)" using bodies_ok assms(3) unfolding list_all_iff by blast
  show "has_type t j = (n \<notin> set rejected_bodies)"
    using ok e assms(5,7) sub_sound [of b t j] clash_sound [of b t j] by (auto split: if_splits)
  show "n = ''useResolveAdminDispute reject'' \<longrightarrow> field ''admin_note'' j = None"
  proof
    assume "n = ''useResolveAdminDispute reject''"
    then have "hk = useResolveAdminDispute ''reject''"
      using assms(3) eq_key_imp_eq_value [OF api_hooks_distinct, of n hk "useResolveAdminDispute ''reject''"] by (auto simp: api_hooks_def)
    then have "b = rec [req ''note'' TStr, req ''resolution'' TStr]" using assms(5) by (simp add: useResolveAdminDispute_def posts_def)
    then show "field ''admin_note'' j = None" using field_absent [of "[req ''note'' TStr, req ''resolution'' TStr]" j] assms(7) by simp
  qed
qed

section \<open>Concrete calls\<close>

lemma demo_id: "plain_id False ''7''"
  by code_simp

lemma demo_in:
  "(''useLoan'', useLoan) \<in> set api_hooks" "(''useDepositToPool'', useDepositToPool) \<in> set api_hooks"
  by (simp_all add: api_hooks_def)

lemma demo_served:
  "hook_handler False [''api''] ''7'' useLoan = Some ''getLoanDetails''"
  "hook_handler False [''api''] ''7'' useDepositToPool = Some ''depositToPool''"
  using hook_expected [OF demo_id _ demo_in(1)] hook_expected [OF demo_id _ demo_in(2)]
  by (simp_all add: expected_handler_def lost_hooks_def served_hooks_def)


theorem streams_exclude_hooks_witness:
  "dispatch False HttpGet [''api'', ''events'', ''stream''] \<noteq> None \<and> hook_route False [] ''7'' useLoan = None"
proof -
  have "find_mounted (mounts False) HttpGet [''api'', ''events'', ''stream''] = Some ''streamEvents''" by code_simp
  then have d: "dispatch False HttpGet [''api'', ''events'', ''stream''] \<noteq> None"
    using dispatch_mounted [of False HttpGet "[''api'', ''events'', ''stream'']"] unfolding flat_streams by auto
  then show ?thesis
    using streams_exclude_hooks [OF demo_id, of "''useLoanStream''" "[''api'', ''events'', ''stream'']" "[]" "''useLoan''" useLoan] demo_in(1)
    by (simp add: stream_paths_def)
qed

definition demo_answer :: json where "demo_answer = sample getLoanDetails_answer"


theorem bodies_typed_witness:
  "\<not> has_type (the (body_ty ''depositToPool'')) (JObj [(''amount'', JNum 5), (''depositorPublicKey'', JStr ''GLEND''), (''token'', JStr ''CT'')])"
  using bodies_typed [OF demo_id _ demo_in(2) demo_served(2), of "the (hk_body useDepositToPool)" "the (body_ty ''depositToPool'')"
      "JObj [(''amount'', JNum 5), (''depositorPublicKey'', JStr ''GLEND''), (''token'', JStr ''CT'')]"]
  by (simp add: useDepositToPool_def posts_def body_ty_def rejected_bodies_def)

end
