(* ===== verification/SseClient.thy ===== *)
theory SseClient
  imports Json
begin

text \<open>
  The streams as the browser reads them: how \<open>src/frontend/src/app/hooks/useSSE.ts\<close>,
  \<open>useNotificationStream.ts\<close> and \<open>useCreditScore\<close> of \<open>useApi.ts\<close> cut the text of a response into messages, how
  \<open>useSSE\<close> reconnects and falls back to polling, and what \<open>useNotificationStream\<close> makes of the notifications.
  \<open>JSON.parse\<close> is a parameter; the text decoder is taken to hand over characters.
\<close>

section \<open>Messages\<close>

text \<open>\<open>split\<close> at an empty line.\<close>

fun split_blank :: "string \<Rightarrow> string list" where
  "split_blank [] = [[]]"
| "split_blank [c] = [[c]]"
| "split_blank (c # d # s) =
     (if c = CHR 0x0A \<and> d = CHR 0x0A then [] # split_blank s
      else (case split_blank (d # s) of [] \<Rightarrow> [[c]] | p # ps \<Rightarrow> (c # p) # ps))"

text \<open>\<open>useSSE\<close> and \<open>useCreditScore\<close> take lines that begin with \<open>data: \<close>, the notifications also those without the space.
  A text that is no JSON is logged or ignored.\<close>

definition data_line :: "string \<Rightarrow> string option" where
  "data_line line = (if starts_with ''data: '' line then Some (drop 6 line) else None)"

definition notification_line :: "string \<Rightarrow> string option" where
  "notification_line line =
     (if starts_with ''data:'' line then (let t = js_trim (drop 5 line) in if t = [] then None else Some t) else None)"

definition part_messages :: "(string \<Rightarrow> string option) \<Rightarrow> (string \<Rightarrow> json option) \<Rightarrow> string \<Rightarrow> json list" where
  "part_messages pick parse part =
     List.map_filter (\<lambda>line. Option.bind (pick line) parse) (js_split CHR 0x0A part)"

record sse_reader =
  buffer :: string
  delivered :: "json list"

definition feed :: "(string \<Rightarrow> string option) \<Rightarrow> (string \<Rightarrow> json option) \<Rightarrow> sse_reader \<Rightarrow> string \<Rightarrow> sse_reader" where
  "feed pick parse s piece =
     (let parts = split_blank (buffer s @ piece)
      in \<lparr>buffer = last parts, delivered = delivered s @ concat (map (part_messages pick parse) (butlast parts))\<rparr>)"

definition read_chunks :: "(string \<Rightarrow> string option) \<Rightarrow> (string \<Rightarrow> json option) \<Rightarrow> string list \<Rightarrow> sse_reader" where
  "read_chunks pick parse pieces = foldl (feed pick parse) \<lparr>buffer = [], delivered = []\<rparr> pieces"

subsection \<open>What the backend writes\<close>

type_synonym json_object = "(string \<times> json) list"

datatype sse_frame =
    Ping
  | Heartbeat
  | InitFrame json_object
  | LoanFrame string json_object
  | ShutdownFrame json_object
  | NotificationFrame json_object

definition newline :: string where "newline = [CHR 0x0A]"

fun frame_lines :: "sse_frame \<Rightarrow> string list" where
  "frame_lines Ping = ['': ping'']"
| "frame_lines Heartbeat = ['': heartbeat'']"
| "frame_lines (InitFrame j) = [''event: init'', ''data: '' @ stringify (JObj j)]"
| "frame_lines (LoanFrame i j) = [''id: '' @ i, ''event: loan-event'', ''data: '' @ stringify (JObj j)]"
| "frame_lines (ShutdownFrame j) = [''event: shutdown'', ''data: '' @ stringify (JObj j)]"
| "frame_lines (NotificationFrame j) = [''data: '' @ stringify (JObj j)]"

definition frame_text :: "sse_frame \<Rightarrow> string" where
  "frame_text f = js_join newline (frame_lines f) @ newline @ newline"

fun frame_payload :: "sse_frame \<Rightarrow> json list" where
  "frame_payload Ping = []"
| "frame_payload Heartbeat = []"
| "frame_payload (InitFrame j) = [JObj j]"
| "frame_payload (LoanFrame i j) = [JObj j]"
| "frame_payload (ShutdownFrame j) = [JObj j]"
| "frame_payload (NotificationFrame j) = [JObj j]"

section \<open>Reconnecting\<close>

datatype sse_status = Connecting | Connected | Disconnected | Polling

text \<open>Where the effect stands: waiting for its timer, for the answer, reading, at its end, or cleaned up.\<close>

datatype sse_phase = Waiting nat | Fetching | Reading | AtEnd | CleanedUp

record sse_client =
  phase :: sse_phase
  shown :: sse_status
  retryDelay :: nat
  reconnectAttempts :: nat
  poller :: bool
  fallback :: bool
  waits :: "nat list"

definition maxReconnectAttempts :: nat where "maxReconnectAttempts = 3"

definition connect_sse :: "sse_client \<Rightarrow> sse_client" where
  "connect_sse s = s\<lparr>phase := Fetching, shown := Connecting\<rparr>"

definition opened :: "sse_client \<Rightarrow> sse_client" where
  "opened s = s\<lparr>phase := Reading, poller := False, shown := Connected, retryDelay := 1000, reconnectAttempts := 0\<rparr>"

definition startPolling :: "sse_client \<Rightarrow> sse_client" where
  "startPolling s = (if poller s \<or> \<not> fallback s then s else s\<lparr>shown := Polling, poller := True\<rparr>)"

definition again :: "sse_client \<Rightarrow> sse_client" where
  "again s =
     (let s1 = s\<lparr>reconnectAttempts := reconnectAttempts s + 1\<rparr>
      in if reconnectAttempts s1 \<ge> maxReconnectAttempts then (startPolling s1)\<lparr>phase := AtEnd\<rparr>
         else (let d = min (retryDelay s1) 5000
               in s1\<lparr>retryDelay := min (d * 2) 30000, phase := Waiting d, waits := waits s1 @ [d]\<rparr>))"

definition stream_ended :: "sse_client \<Rightarrow> sse_client" where
  "stream_ended s = again (s\<lparr>shown := Connecting\<rparr>)"

definition stream_failed :: "sse_client \<Rightarrow> sse_client" where
  "stream_failed s = again s"

definition clean_up :: "sse_client \<Rightarrow> sse_client" where
  "clean_up s = s\<lparr>phase := CleanedUp, poller := False\<rparr>"

text \<open>The effect runs when the component mounts and again when its address or its token changes; without an address it
  only shows that there is no connection.\<close>

definition mount_sse :: "bool \<Rightarrow> sse_client" where
  "mount_sse fb = connect_sse \<lparr>phase = AtEnd, shown = Connecting, retryDelay = 1000, reconnectAttempts = 0, poller = False,
     fallback = fb, waits = []\<rparr>"

inductive sse_step :: "sse_client \<Rightarrow> sse_client \<Rightarrow> bool" where
  fires: "phase s = Waiting d \<Longrightarrow> sse_step s (connect_sse s)"
| answers: "phase s = Fetching \<Longrightarrow> sse_step s (opened s)"
| refuses: "phase s = Fetching \<Longrightarrow> sse_step s (stream_failed s)"
| breaks: "phase s = Reading \<Longrightarrow> sse_step s (stream_failed s)"
| ends: "phase s = Reading \<Longrightarrow> sse_step s (stream_ended s)"
| new_address: "sse_step s (connect_sse (clean_up s))"
| no_address: "sse_step s ((clean_up s)\<lparr>shown := Disconnected\<rparr>)"
| unmounts: "sse_step s (clean_up s)"

inductive sse_reach :: "bool \<Rightarrow> sse_client \<Rightarrow> bool" for fb :: bool where
  start: "sse_reach fb (mount_sse fb)"
| move: "sse_reach fb s \<Longrightarrow> sse_step s s' \<Longrightarrow> sse_reach fb s'"

section \<open>Notifications\<close>

record app_notification =
  an_id :: int
  an_read :: bool
  an_created :: int

record shown_notifications =
  notifications_list :: "app_notification list"
  unreadCount :: int

datatype notification_payload = Init "app_notification list" | Pushed app_notification

definition no_notifications :: shown_notifications where
  "no_notifications = \<lparr>notifications_list = [], unreadCount = 0\<rparr>"

definition push_payload :: "notification_payload \<Rightarrow> shown_notifications option \<Rightarrow> shown_notifications" where
  "push_payload p prev =
     (let existing = (case prev of None \<Rightarrow> no_notifications | Some x \<Rightarrow> x) in
      case p of
        Init ns \<Rightarrow>
          (let ids = set (map an_id (notifications_list existing));
               merged = sort_key (\<lambda>n. - an_created n) (filter (\<lambda>n. an_id n \<notin> ids) ns @ notifications_list existing)
           in \<lparr>notifications_list = merged, unreadCount = int (length (filter (\<lambda>n. \<not> an_read n) merged))\<rparr>)
      | Pushed n \<Rightarrow>
          (if an_id n \<in> set (map an_id (notifications_list existing)) then existing
           else \<lparr>notifications_list = n # notifications_list existing,
                 unreadCount = unreadCount existing + (if an_read n then 0 else 1)\<rparr>))"

text \<open>The cache of the queries, and the two keys: the stream writes under the first, \<open>useNotifications\<close> reads under the second.\<close>

datatype query_key = NotificationsAll | NotificationsList string

type_synonym query_cache = "query_key \<Rightarrow> shown_notifications option"

definition on_notification :: "notification_payload \<Rightarrow> query_cache \<Rightarrow> query_cache" where
  "on_notification p c = c(NotificationsAll \<mapsto> push_payload p (c NotificationsAll))"

definition useNotifications_data :: "string \<Rightarrow> query_cache \<Rightarrow> shown_notifications option" where
  "useNotifications_data params c = c (NotificationsList params)"

section \<open>Lemmas on messages\<close>

lemma split_blank_not_Nil [simp]: "split_blank s \<noteq> []"
  by (induction s rule: split_blank.induct) (auto split: list.splits)

lemma split_blank_other:
  "\<not> (c = CHR 0x0A \<and> d = CHR 0x0A) \<Longrightarrow>
     split_blank (c # d # s) = (case split_blank (d # s) of [] \<Rightarrow> [[c]] | p # ps \<Rightarrow> (c # p) # ps)"
  unfolding split_blank.simps(3) by (rule if_not_P)

lemma split_blank_last: "split_blank (last (split_blank s)) = [last (split_blank s)]"
proof (induction s rule: split_blank.induct)
  case (3 c d s)
  show ?case
  proof (cases "c = CHR 0x0A \<and> d = CHR 0x0A")
    case True
    then show ?thesis using 3(1) by simp
  next
    case False
    obtain p ps where p: "split_blank (d # s) = p # ps" by (cases "split_blank (d # s)") auto
    show ?thesis
    proof (cases ps)
      case (Cons q qs)
      then show ?thesis using 3(2) [OF False] p by (simp add: split_blank_other [OF False] del: split_blank.simps(3))
    next
      case Nil
      then have "split_blank p = [p]" using 3(2) [OF False] p by simp
      moreover have "p \<noteq> []" "hd p = d"
      proof -
        have "\<exists>r. p = d # r" using p Nil by (cases s) (auto split: if_splits list.splits)
        then show "p \<noteq> []" "hd p = d" by auto
      qed
      ultimately have "split_blank (c # p) = [c # p]" using False by (cases p) auto
      then show ?thesis using p Nil by (simp add: split_blank_other [OF False] del: split_blank.simps(3))
    qed
  qed
qed simp_all

lemma split_blank_append:
  "split_blank (s @ t) = butlast (split_blank s) @ split_blank (last (split_blank s) @ t)"
proof (induction s rule: split_blank.induct)
  case (3 c d s)
  show ?case
  proof (cases "c = CHR 0x0A \<and> d = CHR 0x0A")
    case True
    then show ?thesis using 3(1) by simp
  next
    case False
    obtain p ps where p: "split_blank (d # s) = p # ps" by (cases "split_blank (d # s)") auto
    show ?thesis
    proof (cases ps)
      case (Cons q qs)
      then have "split_blank (d # s @ t) = p # butlast ps @ split_blank (last ps @ t)"
        using 3(2) [OF False] p by simp
      then show ?thesis using p Cons by (simp add: split_blank_other [OF False] del: split_blank.simps(3))
    next
      case Nil
      obtain r where r: "p = d # r" using p Nil by (cases s) (auto split: if_splits list.splits)
      have "split_blank (d # s @ t) = split_blank (p @ t)" using 3(2) [OF False] p Nil by simp
      moreover have "split_blank (c # p @ t) = (case split_blank (p @ t) of [] \<Rightarrow> [[c]] | q # qs \<Rightarrow> (c # q) # qs)"
        using False r by auto
      ultimately show ?thesis using p Nil by (simp add: split_blank_other [OF False] del: split_blank.simps(3))
    qed
  qed
qed simp_all

lemma feed_all:
  "foldl (feed pick parse) s ps =
     \<lparr>buffer = last (split_blank (buffer s @ concat ps)),
      delivered = delivered s @ concat (map (part_messages pick parse) (butlast (split_blank (buffer s @ concat ps))))\<rparr>"
  if "split_blank (buffer s) = [buffer s]"
  using that
proof (induction ps arbitrary: s)
  case Nil
  then show ?case by simp
next
  case (Cons p ps)
  let ?x = "buffer s @ p"
  have "split_blank (buffer (feed pick parse s p)) = [buffer (feed pick parse s p)]"
    by (simp add: feed_def Let_def split_blank_last)
  from Cons.IH [OF this] show ?case
    using split_blank_append [of ?x "concat ps"] by (simp add: feed_def Let_def butlast_append)
qed

lemma read_chunks_concat:
  "read_chunks pick parse ps =
     \<lparr>buffer = last (split_blank (concat ps)),
      delivered = concat (map (part_messages pick parse) (butlast (split_blank (concat ps))))\<rparr>"
  by (simp add: read_chunks_def feed_all)

text \<open>A frame that ends with an empty line and has none before.\<close>

lemma split_blank_frame:
  assumes "split_blank (t @ newline) = [t @ newline]"
  shows "split_blank (t @ newline @ newline @ rest) = t # split_blank rest"
  using assms
proof (induction t rule: split_blank.induct)
  case 1
  then show ?case by (simp add: newline_def)
next
  case (2 c)
  then show ?case by (auto simp: newline_def split: if_splits)
next
  case (3 c d s)
  have n: "\<not> (c = CHR 0x0A \<and> d = CHR 0x0A)" using 3(3) by auto
  then have "split_blank ((d # s) @ newline) = [(d # s) @ newline]"
    using 3(3) by (auto simp: split_blank_other [OF n] simp del: split_blank.simps(3) split: list.splits)
  then show ?case using 3(2) [OF n] by (simp add: split_blank_other [OF n] del: split_blank.simps(3))
qed

text \<open>Lines that are not empty.\<close>

lemma split_blank_line:
  "l \<noteq> [] \<Longrightarrow> CHR 0x0A \<notin> set l \<Longrightarrow> split_blank u = [u] \<Longrightarrow> u = [] \<or> hd u \<noteq> CHR 0x0A \<Longrightarrow>
     split_blank (l @ newline @ u) = [l @ newline @ u]"
proof (induction l rule: induct_list012)
  case (2 c)
  then have "split_blank (CHR 0x0A # u) = [CHR 0x0A # u]"
    by (cases u) (auto simp: split_blank_other simp del: split_blank.simps(3))
  then show ?case using 2 by (auto simp: newline_def split_blank_other simp del: split_blank.simps(3))
next
  case (3 c d l)
  then have "split_blank ((d # l) @ newline @ u) = [(d # l) @ newline @ u]" by simp
  then show ?case using 3 by (auto simp: split_blank_other simp del: split_blank.simps(3))
qed simp

lemma split_blank_lines:
  "ls \<noteq> [] \<Longrightarrow> \<forall>l \<in> set ls. l \<noteq> [] \<and> CHR 0x0A \<notin> set l \<Longrightarrow>
     split_blank (js_join newline ls @ newline) = [js_join newline ls @ newline] \<and> hd (js_join newline ls @ newline) \<noteq> CHR 0x0A"
proof (induction ls rule: induct_list012)
  case (2 w)
  then show ?case using split_blank_line [of w "[]"] by (cases w) auto
next
  case (3 w v ws)
  let ?u = "js_join newline (v # ws) @ newline"
  have "split_blank ?u = [?u]" "hd ?u \<noteq> CHR 0x0A" using 3 by simp_all
  then have "split_blank (w @ newline @ ?u) = [w @ newline @ ?u]" using 3(4) by (intro split_blank_line) auto
  then show ?case using 3(4) by (cases w) auto
qed simp

lemma js_split_lines:
  "ls \<noteq> [] \<Longrightarrow> \<forall>l \<in> set ls. CHR 0x0A \<notin> set l \<Longrightarrow> js_split CHR 0x0A (js_join newline ls) = ls"
  by (induction ls rule: induct_list012) (simp_all add: js_split_none js_split_append newline_def)

lemma hex_no_newline: "d < 16 \<Longrightarrow> hex_char d \<noteq> CHR 0x0A"
proof -
  assume "d < 16"
  then have "(of_char (hex_char d) :: nat) = (if d < 10 then 48 + d else 87 + d)" by (simp add: hex_char_def)
  then show ?thesis by (auto split: if_splits)
qed

lemma json_escape_no_newline: "CHR 0x0A \<notin> set (json_escape c)"
proof -
  have "(of_char c :: nat) < 32 \<Longrightarrow> of_char c div 16 < (16 :: nat)" by simp
  then show ?thesis using hex_no_newline [of "of_char c div 16"] hex_no_newline [of "of_char c mod 16"]
    by (auto simp: json_escape_def)
qed

lemma json_quote_no_newline: "CHR 0x0A \<notin> set (json_quote s)"
  using json_escape_no_newline by (auto simp: json_quote_def)

lemma js_join_no_newline: "\<forall>w \<in> set ws. c \<notin> set w \<Longrightarrow> c \<notin> set sep \<Longrightarrow> c \<notin> set (js_join sep ws)"
  by (induction ws rule: induct_list012) auto

lemma show_int_no_newline: "CHR 0x0A \<notin> set (show_int n)"
proof -
  have "\<not> is_digit CHR 0x0A" by code_simp
  then show ?thesis using list_all_digit_notin [OF show_nat_digits] by (auto simp: show_int_def)
qed

lemma stringify_no_newline: "CHR 0x0A \<notin> set (stringify j)"
proof (induction j rule: stringify.induct)
  case (5 vs)
  then show ?case using js_join_no_newline [of "map stringify vs" "CHR 0x0A" "'',''"] by auto
next
  case (6 kvs)
  have "\<forall>w \<in> set (map (\<lambda>(k, v). json_quote k @ '':'' @ stringify v) kvs). CHR 0x0A \<notin> set w"
    using 6 json_quote_no_newline by fastforce
  then show ?case using js_join_no_newline [of "map (\<lambda>(k, v). json_quote k @ '':'' @ stringify v) kvs" "CHR 0x0A" "'',''"] by auto
qed (auto simp: show_int_no_newline json_quote_no_newline)

definition frame_ok :: "sse_frame \<Rightarrow> bool" where
  "frame_ok f \<longleftrightarrow> (case f of LoanFrame i j \<Rightarrow> CHR 0x0A \<notin> set i | _ \<Rightarrow> True)"

lemma frame_lines_ok:
  "frame_ok f \<Longrightarrow> frame_lines f \<noteq> [] \<and> (\<forall>l \<in> set (frame_lines f). l \<noteq> [] \<and> CHR 0x0A \<notin> set l)"
  using stringify_no_newline by (cases f) (auto simp: frame_ok_def simp del: stringify.simps)

lemma split_frames:
  "\<forall>f \<in> set fs. frame_ok f \<Longrightarrow>
     split_blank (concat (map frame_text fs)) = map (\<lambda>f. js_join newline (frame_lines f)) fs @ [[]]"
proof (induction fs)
  case (Cons f fs)
  then have "split_blank (js_join newline (frame_lines f) @ newline) = [js_join newline (frame_lines f) @ newline]"
    using split_blank_lines [of "frame_lines f"] frame_lines_ok [of f] by simp
  from split_blank_frame [OF this] show ?case using Cons by (simp add: frame_text_def)
qed simp

text \<open>Both ways to pick a line find the payload of a frame.\<close>

definition picks :: "(string \<Rightarrow> string option) \<Rightarrow> bool" where
  "picks pick \<longleftrightarrow>
     (\<forall>j. pick (''data: '' @ stringify (JObj j)) = Some (stringify (JObj j))) \<and>
     (\<forall>t. pick ('': '' @ t) = None \<and> pick (''event: '' @ t) = None \<and> pick (''id: '' @ t) = None)"

lemma trim_object: "js_trim (CHR '' '' # stringify (JObj j)) = stringify (JObj j)"
proof -
  have "js_trim (CHR '' '' # stringify (JObj j)) = js_trim (stringify (JObj j))"
    by (simp add: js_trim_def is_space_def del: stringify.simps)
  also have "\<dots> = stringify (JObj j)"
    by (rule js_trim_id) (simp add: is_space_def)
  finally show ?thesis .
qed

lemma picks_both: "picks data_line" "picks notification_line"
proof -
  show "picks data_line" by (simp add: picks_def data_line_def del: stringify.simps)
  have "stringify (JObj j) \<noteq> []" for j by simp
  then show "picks notification_line"
    using trim_object by (simp add: picks_def notification_line_def Let_def del: stringify.simps)
qed

lemma frame_messages:
  assumes "picks pick" "frame_ok f" "\<forall>j \<in> set (frame_payload f). parse (stringify j) = Some j"
  shows "part_messages pick parse (js_join newline (frame_lines f)) = frame_payload f"
proof -
  have n: "pick ('': '' @ t) = None" "pick (''event: '' @ t) = None" "pick (''id: '' @ t) = None" for t
    using assms(1) by (auto simp: picks_def)
  have d: "pick (''data: '' @ stringify (JObj j)) = Some (stringify (JObj j))" for j using assms(1) by (simp add: picks_def del: stringify.simps)
  have "js_split CHR 0x0A (js_join newline (frame_lines f)) = frame_lines f"
    using frame_lines_ok [OF assms(2)] by (intro js_split_lines) auto
  then show ?thesis
    using n(1) [of "''ping''"] n(1) [of "''heartbeat''"] n(2) [of "''init''"] n(2) [of "''loan-event''"] n(2) [of "''shutdown''"] n(3) d assms(3)
    by (cases f) (simp_all add: part_messages_def map_filter_simps del: stringify.simps)
qed

section \<open>Lemmas on the connection\<close>

definition delay_of :: "nat \<Rightarrow> nat" where
  "delay_of n = (if n = 0 then 1000 else if n = 1 then 2000 else 4000)"

definition sse_inv :: "bool \<Rightarrow> sse_client \<Rightarrow> bool" where
  "sse_inv fb s \<longleftrightarrow>
     fallback s = fb \<and> retryDelay s = delay_of (reconnectAttempts s) \<and> set (waits s) \<subseteq> {1000, 2000} \<and>
     (poller s \<longrightarrow> phase s = AtEnd) \<and>
     (case phase s of
        Waiting d \<Rightarrow> reconnectAttempts s \<in> {1, 2} \<and> d = 1000 * reconnectAttempts s
      | Fetching \<Rightarrow> shown s = Connecting
      | Reading \<Rightarrow> shown s = Connected \<and> reconnectAttempts s = 0
      | AtEnd \<Rightarrow> 3 \<le> reconnectAttempts s \<and> poller s = fb \<and> shown s = (if fb then Polling else Connecting)
      | CleanedUp \<Rightarrow> True)"

lemma again_inv:
  assumes "sse_inv fb s" "phase s = Fetching \<or> phase s = Reading"
  shows "sse_inv fb (again s)" "sse_inv fb (again (s\<lparr>shown := Connecting\<rparr>))"
  using assms
  by (auto simp: sse_inv_def again_def startPolling_def delay_of_def maxReconnectAttempts_def Let_def split: if_splits)

lemma sse_step_inv: "sse_step s s' \<Longrightarrow> sse_inv fb s \<Longrightarrow> sse_inv fb s'"
proof (induction rule: sse_step.induct)
  case (refuses s)
  then show ?case using again_inv(1) by (simp add: stream_failed_def)
next
  case (breaks s)
  then show ?case using again_inv(1) by (simp add: stream_failed_def)
next
  case (ends s)
  then show ?case using again_inv(2) by (simp add: stream_ended_def)
qed (simp_all add: sse_inv_def connect_sse_def opened_def clean_up_def delay_of_def)

lemma sse_reach_inv: "sse_reach fb s \<Longrightarrow> sse_inv fb s"
proof (induction rule: sse_reach.induct)
  case start
  then show ?case by (simp add: sse_inv_def mount_sse_def connect_sse_def delay_of_def)
qed (rule sse_step_inv)

section \<open>Lemmas on notifications\<close>

definition unread_of :: "app_notification list \<Rightarrow> int" where
  "unread_of ns = int (length (filter (\<lambda>n. \<not> an_read n) ns))"

definition consistent :: "shown_notifications \<Rightarrow> bool" where
  "consistent x \<longleftrightarrow> distinct (map an_id (notifications_list x)) \<and> unreadCount x = unread_of (notifications_list x)"

definition payload_ok :: "notification_payload \<Rightarrow> bool" where
  "payload_ok p \<longleftrightarrow> (case p of Init ns \<Rightarrow> distinct (map an_id ns) | Pushed n \<Rightarrow> True)"

lemma distinct_sort_map: "distinct (map f (sort_key g xs)) = distinct (map f xs)"
  by (simp add: distinct_map)

lemma push_consistent:
  assumes "payload_ok p" "\<forall>x. prev = Some x \<longrightarrow> consistent x"
  shows "consistent (push_payload p prev)"
proof -
  let ?e = "case prev of None \<Rightarrow> no_notifications | Some x \<Rightarrow> x"
  have e: "consistent ?e"
    using assms(2) by (cases prev) (simp_all add: consistent_def no_notifications_def unread_of_def)
  show ?thesis
  proof (cases p)
    case (Init ns)
    let ?new = "filter (\<lambda>n. an_id n \<notin> set (map an_id (notifications_list ?e))) ns"
    have "distinct (map an_id ?new)" using assms(1) Init by (simp add: payload_ok_def distinct_map_filter)
    then have "distinct (map an_id (?new @ notifications_list ?e))" using e by (auto simp: consistent_def)
    then show ?thesis by (simp add: Init push_payload_def Let_def consistent_def unread_of_def distinct_sort_map)
  next
    case (Pushed n)
    then show ?thesis using e by (auto simp: push_payload_def Let_def consistent_def unread_of_def)
  qed
qed

lemma push_adds:
  "an_id n \<in> set (map an_id (notifications_list (push_payload (Pushed n) prev)))"
  by (auto simp: push_payload_def Let_def)

lemma cache_consistent:
  "list_all payload_ok ps \<Longrightarrow> \<forall>x. c NotificationsAll = Some x \<longrightarrow> consistent x \<Longrightarrow>
     (\<forall>x. fold on_notification ps c NotificationsAll = Some x \<longrightarrow> consistent x) \<and>
     (\<forall>params. fold on_notification ps c (NotificationsList params) = c (NotificationsList params))"
proof (induction ps arbitrary: c)
  case (Cons p ps)
  have "\<forall>x. on_notification p c NotificationsAll = Some x \<longrightarrow> consistent x"
    using push_consistent [of p "c NotificationsAll"] Cons.prems by (simp add: on_notification_def)
  then show ?case using Cons.IH [of "on_notification p c"] Cons.prems(1) by (simp add: on_notification_def)
qed simp

section \<open>Properties\<close>

text \<open>(C25) However the network cuts a stream into pieces, the browser reads the same messages: those of the frames that
  the backend wrote, in their order, with nothing left over. This holds for the reader of \<open>useSSE\<close> and of
  \<open>useCreditScore\<close> and for that of the notifications.\<close>

theorem stream_read_exactly:
  assumes "concat pieces = concat (map frame_text fs)" "\<forall>f \<in> set fs. frame_ok f"
    and "\<forall>f \<in> set fs. \<forall>j \<in> set (frame_payload f). parse (stringify j) = Some j" "pick \<in> {data_line, notification_line}"
  shows "read_chunks pick parse pieces = \<lparr>buffer = [], delivered = concat (map frame_payload fs)\<rparr>"
proof -
  have p: "picks pick" using assms(4) picks_both by auto
  have "map (part_messages pick parse) (map (\<lambda>f. js_join newline (frame_lines f)) fs) = map frame_payload fs"
    using frame_messages [OF p] assms(2,3) by simp
  then have "concat (map (part_messages pick parse) (map (\<lambda>f. js_join newline (frame_lines f)) fs)) = concat (map frame_payload fs)"
    by (rule arg_cong)
  then show ?thesis unfolding read_chunks_concat assms(1) split_frames [OF assms(2)] by (simp del: map_map)
qed

text \<open>(C26) The reconnections of \<open>useSSE\<close> in every reachable state: it only ever waits for one or for two seconds, so the caps
  of five and of thirty seconds are never reached; after three attempts that fail in a row it is at its end,
  polling when the caller gave a way to poll and showing \<open>connecting\<close> otherwise, and from there only a new address, a
  new token or the end of the component lead away: the stream is never tried again.\<close>

theorem sse_reconnects:
  assumes "sse_reach fb s"
  shows "set (waits s) \<subseteq> {1000, 2000} \<and> (poller s \<longrightarrow> phase s = AtEnd) \<and>
    (phase s = AtEnd \<longrightarrow> poller s = fb \<and> shown s = (if fb then Polling else Connecting) \<and>
       (\<forall>s'. sse_step s s' \<longrightarrow> s' \<in> {connect_sse (clean_up s), (clean_up s)\<lparr>shown := Disconnected\<rparr>, clean_up s})) \<and>
    (phase s = Fetching \<and> reconnectAttempts s = 0 \<longrightarrow>
       phase (stream_failed (connect_sse (stream_failed (connect_sse (stream_failed s))))) = AtEnd)"
proof -
  have i: "sse_inv fb s" by (rule sse_reach_inv [OF assms])
  have "s' \<in> {connect_sse (clean_up s), (clean_up s)\<lparr>shown := Disconnected\<rparr>, clean_up s}" if "sse_step s s'" "phase s = AtEnd" for s'
    using that by (auto elim: sse_step.cases)
  moreover have "phase (stream_failed (connect_sse (stream_failed (connect_sse (stream_failed s))))) = AtEnd"
    if "reconnectAttempts s = 0"
    using that by (simp add: stream_failed_def again_def connect_sse_def maxReconnectAttempts_def Let_def)
  ultimately show ?thesis using i by (auto simp: sse_inv_def)
qed

text \<open>Whatever notifications are pushed, the list under the key of the stream has each of them once and counts the
  unread ones rightly, and the last one pushed is in it; but what \<open>useNotifications\<close> reads is never changed by a push,
  since it reads under another key.\<close>

theorem pushed_notifications_unseen:
  assumes "list_all payload_ok ps" "\<forall>x. c NotificationsAll = Some x \<longrightarrow> consistent x"
  shows "\<exists>x. (fold on_notification (ps @ [Pushed n]) c) NotificationsAll = Some x \<and> consistent x \<and>
      an_id n \<in> set (map an_id (notifications_list x)) \<and>
      useNotifications_data params (fold on_notification (ps @ [Pushed n]) c) = useNotifications_data params c"
proof -
  have "list_all payload_ok (ps @ [Pushed n])" using assms(1) by (simp add: payload_ok_def)
  then show ?thesis
    using cache_consistent [of "ps @ [Pushed n]" c] assms(2) push_adds [of n "fold on_notification ps c NotificationsAll"]
    by (auto simp: on_notification_def useNotifications_data_def)
qed

section \<open>Concrete streams\<close>

definition demo_parse :: "string \<Rightarrow> json option" where
  "demo_parse t = (if t = stringify (JObj [(''type'', JStr ''init'')]) then Some (JObj [(''type'', JStr ''init'')]) else None)"

definition demo_frames :: "sse_frame list" where
  "demo_frames = [InitFrame [(''type'', JStr ''init'')], Ping]"

theorem stream_read_exactly_witness:
  "read_chunks data_line demo_parse [take 20 (concat (map frame_text demo_frames)), drop 20 (concat (map frame_text demo_frames))] =
     \<lparr>buffer = [], delivered = [JObj [(''type'', JStr ''init'')]]\<rparr>"
proof -
  have "concat [take 20 t, drop 20 t] = t" for t :: string by simp
  moreover have "\<forall>f \<in> set demo_frames. frame_ok f" by (simp add: demo_frames_def frame_ok_def)
  moreover have "\<forall>f \<in> set demo_frames. \<forall>j \<in> set (frame_payload f). demo_parse (stringify j) = Some j"
    by (simp add: demo_frames_def demo_parse_def del: stringify.simps)
  moreover have "concat (map frame_payload demo_frames) = [JObj [(''type'', JStr ''init'')]]" by (simp add: demo_frames_def)
  ultimately show ?thesis
    using stream_read_exactly [of "[take 20 (concat (map frame_text demo_frames)), drop 20 (concat (map frame_text demo_frames))]"
        demo_frames demo_parse data_line] by (simp del: append_take_drop_id)
qed

theorem sse_reconnects_witness:
  "sse_reach True (stream_failed (mount_sse True)) \<and> waits (stream_failed (mount_sse True)) = [1000]"
proof -
  have "sse_step (mount_sse True) (stream_failed (mount_sse True))"
    by (rule sse_step.refuses) (simp add: mount_sse_def connect_sse_def)
  then have r: "sse_reach True (stream_failed (mount_sse True))" using sse_reach.start sse_reach.move by blast
  then show ?thesis using sse_reconnects [OF r]
    by (simp add: stream_failed_def again_def mount_sse_def connect_sse_def maxReconnectAttempts_def Let_def)
qed

theorem pushed_notifications_unseen_witness:
  "\<exists>x. on_notification (Pushed \<lparr>an_id = 1, an_read = False, an_created = 5\<rparr>) (\<lambda>_. None) NotificationsAll = Some x \<and> unreadCount x = 1 \<and>
     useNotifications_data ''{}'' (on_notification (Pushed \<lparr>an_id = 1, an_read = False, an_created = 5\<rparr>) (\<lambda>_. None)) = None"
  using pushed_notifications_unseen [of "[]" "\<lambda>_. None" "\<lparr>an_id = 1, an_read = False, an_created = 5\<rparr>" "''{}''"]
  by (auto simp: on_notification_def push_payload_def no_notifications_def Let_def useNotifications_data_def)

end
