(* ===== verification/TxFlow.thy ===== *)
theory TxFlow
  imports SorobanTx
begin

text \<open>
  A transaction from the button to its confirmation: the submission handlers \<open>submitTransaction\<close>
  (\<open>src/backend/src/controllers/loanController.ts\<close>) and \<open>submitPoolTransaction\<close> (\<open>poolController.ts\<close>) with
  \<open>withStellarAndDbTransaction\<close> of \<open>src/backend/src/db/transaction.ts\<close>, and on the side of the browser the store of
  \<open>src/frontend/src/app/hooks/useOptimisticUI.ts\<close>, the operations of \<open>useRepaymentOperation.ts\<close>, the page that repays
  a loan, and \<open>src/frontend/src/app/utils/transactionErrors.ts\<close>. The queries that are invalidated after an operation
  are left out.
\<close>

section \<open>Submission on the backend\<close>

record submission_row =
  sr_status :: string
  sr_by :: "string option"
  sr_kind :: "string option"

type_synonym submissions_table = "string \<rightharpoonup> submission_row"

text \<open>The operation of the network comes first and outside of the transaction of the database; when that fails the
  error is passed on.\<close>

definition withStellarAndDbTransaction ::
  "http_error + 'a \<Rightarrow> ('a \<Rightarrow> 'd \<Rightarrow> http_error + 'd) \<Rightarrow> 'd \<Rightarrow> (http_error + 'a) \<times> 'd" where
  "withStellarAndDbTransaction stellarOperation dbOperations db =
     (case stellarOperation of
        Inl e \<Rightarrow> (Inl e, db)
      | Inr r \<Rightarrow> (case dbOperations r db of Inl e \<Rightarrow> (Inl e, db) | Inr db' \<Rightarrow> (Inr r, db')))"

text \<open>\<open>fails\<close>: what the database throws, if anything. The update of a known hash leaves its sender and its kind.\<close>

definition record_submission ::
  "http_error option \<Rightarrow> string option \<Rightarrow> string option \<Rightarrow> string \<times> string \<Rightarrow> submissions_table \<Rightarrow> http_error + submissions_table" where
  "record_submission fails by kind sr db =
     (case fails of
        Some e \<Rightarrow> Inl e
      | None \<Rightarrow>
          Inr (case db (fst sr) of
                 None \<Rightarrow> db(fst sr \<mapsto> \<lparr>sr_status = snd sr, sr_by = env_set by, sr_kind = kind\<rparr>)
               | Some row \<Rightarrow> db(fst sr \<mapsto> row\<lparr>sr_status := snd sr\<rparr>)))"

definition submitTransaction ::
  "network \<Rightarrow> http_error option \<Rightarrow> string option \<Rightarrow> string \<Rightarrow> submissions_table \<Rightarrow> (http_error + string \<times> string) \<times> submissions_table" where
  "submitTransaction N fails user signedTxXdr db =
     (if signedTxXdr = [] then (Inl (badRequest ''signedTxXdr is required'' (Some ''MISSING_FIELD'') (Some ''signedTxXdr'')), db)
      else withStellarAndDbTransaction (submitSignedTx N) (record_submission fails user None) db)"

definition submitPoolTransaction ::
  "network \<Rightarrow> http_error option \<Rightarrow> string option \<Rightarrow> string \<Rightarrow> submissions_table \<Rightarrow> (http_error + string \<times> string) \<times> submissions_table" where
  "submitPoolTransaction N fails user signedTxXdr db =
     (if signedTxXdr = [] then (Inl (badRequest ''signedTxXdr is required'' None None), db)
      else withStellarAndDbTransaction (submitSignedTx N) (record_submission fails user (Some ''pool'')) db)"

section \<open>The store of transactions\<close>

datatype tx_status = TxIdle | TxPending | TxSigning | TxSubmitted | TxConfirming | TxConfirmed | TxFailed

record tx_state =
  ts_id :: string
  ts_status :: tx_status
  ts_message :: string
  ts_progress :: "int option"
  ts_error :: "string option"
  ts_hash :: "string option"
  startTime :: ms
  confirmedAt :: "ms option"

record ui_store =
  shown_txs :: "string \<rightharpoonup> tx_state"
  optimisticUpdates :: "string set"

definition startTransaction :: "ms \<Rightarrow> string \<Rightarrow> string \<Rightarrow> ui_store \<Rightarrow> ui_store" where
  "startTransaction now i msg s =
     s\<lparr>shown_txs := (shown_txs s)(i \<mapsto> \<lparr>ts_id = i, ts_status = TxPending, ts_message = msg, ts_progress = Some 0, ts_error = None,
        ts_hash = None, startTime = now, confirmedAt = None\<rparr>)\<rparr>"

definition change_tx :: "string \<Rightarrow> (tx_state \<Rightarrow> tx_state) \<Rightarrow> ui_store \<Rightarrow> ui_store" where
  "change_tx i f s = (case shown_txs s i of None \<Rightarrow> s | Some t \<Rightarrow> s\<lparr>shown_txs := (shown_txs s)(i \<mapsto> f t)\<rparr>)"

definition with_message :: "string option \<Rightarrow> tx_state \<Rightarrow> tx_state" where
  "with_message msg t = (case env_set msg of None \<Rightarrow> t | Some m \<Rightarrow> t\<lparr>ts_message := m\<rparr>)"

definition updateProgress :: "string \<Rightarrow> int \<Rightarrow> string option \<Rightarrow> ui_store \<Rightarrow> ui_store" where
  "updateProgress i p msg = change_tx i (\<lambda>t. with_message msg (t\<lparr>ts_progress := Some (min 100 (max 0 p))\<rparr>))"

definition completeTransaction :: "ms \<Rightarrow> string \<Rightarrow> string option \<Rightarrow> string option \<Rightarrow> ui_store \<Rightarrow> ui_store" where
  "completeTransaction now i h msg =
     change_tx i (\<lambda>t. with_message msg (t\<lparr>ts_status := TxConfirmed, ts_progress := Some 100, ts_hash := h, confirmedAt := Some now\<rparr>))"

definition ui_submitTransaction :: "string \<Rightarrow> string \<Rightarrow> string option \<Rightarrow> ui_store \<Rightarrow> ui_store" where
  "ui_submitTransaction i h msg =
     change_tx i (\<lambda>t. with_message msg (t\<lparr>ts_status := TxSubmitted, ts_progress := Some 70, ts_hash := Some h\<rparr>))"

definition confirmTransaction :: "string \<Rightarrow> string option \<Rightarrow> ui_store \<Rightarrow> ui_store" where
  "confirmTransaction i msg = change_tx i (\<lambda>t. with_message msg (t\<lparr>ts_status := TxConfirming, ts_progress := Some 90\<rparr>))"

definition signTransaction :: "string \<Rightarrow> string option \<Rightarrow> ui_store \<Rightarrow> ui_store" where
  "signTransaction i msg = change_tx i (\<lambda>t. with_message msg (t\<lparr>ts_status := TxSigning, ts_progress := Some 40\<rparr>))"

definition failTransaction :: "string \<Rightarrow> string \<Rightarrow> ui_store \<Rightarrow> ui_store" where
  "failTransaction i e = change_tx i (\<lambda>t. t\<lparr>ts_status := TxFailed, ts_error := Some e\<rparr>)"

definition clearTransaction :: "string \<Rightarrow> ui_store \<Rightarrow> ui_store" where
  "clearTransaction i s = s\<lparr>shown_txs := (shown_txs s)(i := None)\<rparr>"

definition clearAllTransactions :: "ui_store \<Rightarrow> ui_store" where
  "clearAllTransactions s = s\<lparr>shown_txs := (\<lambda>_. None)\<rparr>"

definition addOptimisticUpdate :: "string \<Rightarrow> ui_store \<Rightarrow> ui_store" where
  "addOptimisticUpdate k s = s\<lparr>optimisticUpdates := insert k (optimisticUpdates s)\<rparr>"

definition removeOptimisticUpdate :: "string \<Rightarrow> ui_store \<Rightarrow> ui_store" where
  "removeOptimisticUpdate k s = s\<lparr>optimisticUpdates := optimisticUpdates s - {k}\<rparr>"

definition isLoading :: "tx_state option \<Rightarrow> bool" where
  "isLoading t = (case t of None \<Rightarrow> False | Some x \<Rightarrow> ts_status x \<in> {TxPending, TxSigning, TxSubmitted, TxConfirming})"

text \<open>The effect of \<open>useTransaction\<close>: a confirmed transaction goes three seconds after its confirmation; the number is how long
  a timer waits for that.\<close>

definition auto_dismiss :: "ms \<Rightarrow> string \<Rightarrow> ui_store \<Rightarrow> ui_store + ms" where
  "auto_dismiss now i s =
     (case shown_txs s i of
        None \<Rightarrow> Inl s
      | Some t \<Rightarrow>
          (case confirmedAt t of
             None \<Rightarrow> Inl s
           | Some c \<Rightarrow>
               if ts_status t \<noteq> TxConfirmed \<or> c = 0 then Inl s
               else if now - c < 3000 then Inr (3000 - (now - c)) else Inl (clearTransaction i s)))"

section \<open>The operations\<close>

text \<open>What is thrown is an \<open>Error\<close> with its message or anything else.\<close>

datatype thrown = ErrorOf string | SomethingElse

definition thrown_text :: "string \<Rightarrow> thrown \<Rightarrow> string" where
  "thrown_text fallback e = (case e of ErrorOf m \<Rightarrow> m | SomethingElse \<Rightarrow> fallback)"

text \<open>What the operation meets: the answer of the builder (envelope and passphrase), the wallet, the answer of the
  submission (hash and status) and two times.\<close>

record op_world =
  built :: "thrown + string \<times> string"
  wallet_signs :: "string \<Rightarrow> thrown + string"
  submit_answer :: "string \<Rightarrow> thrown + string \<times> string"
  started :: ms
  completed :: ms

type_synonym op_result = "(thrown + string) \<times> ui_store"

definition op_failed :: "string \<Rightarrow> string \<Rightarrow> thrown \<Rightarrow> ui_store \<Rightarrow> op_result" where
  "op_failed i fallback e s = (Inl e, failTransaction i (thrown_text fallback e) s)"

text \<open>\<open>isExecuting\<close>: the reference of the hook that keeps a second repayment out.\<close>

definition executeRepayment :: "op_world \<Rightarrow> bool \<Rightarrow> string \<Rightarrow> ui_store \<Rightarrow> op_result" where
  "executeRepayment W isExecuting i s =
     (if isExecuting then (Inl (ErrorOf ''A repayment is already being processed.''), s)
      else
        (let s1 = updateProgress i 20 (Some ''Building repayment transaction...'') (startTransaction (started W) i ''Processing repayment...'' s)
         in case built W of
              Inl e \<Rightarrow> op_failed i ''Repayment failed'' e s1
            | Inr (xdr, passphrase) \<Rightarrow>
                (let s2 = signTransaction i (Some ''Waiting for wallet signature...'') s1
                 in case wallet_signs W xdr of
                      Inl e \<Rightarrow> op_failed i ''Repayment failed'' e s2
                    | Inr signedTx \<Rightarrow>
                        (let s3 = updateProgress i 70 (Some ''Submitting repayment to Stellar...'') s2
                         in case submit_answer W signedTx of
                              Inl e \<Rightarrow> op_failed i ''Repayment failed'' e s3
                            | Inr (h, st) \<Rightarrow>
                                if st \<noteq> ''SUCCESS'' \<or> h = []
                                then op_failed i ''Repayment failed'' (ErrorOf ''Stellar did not confirm the repayment transaction.'') s3
                                else (Inr h,
                                  completeTransaction (completed W) i (Some h) (Some ''Repayment successful!'')
                                    (confirmTransaction i (Some ''Confirming transaction...'')
                                      (ui_submitTransaction i h (Some ''Transaction submitted, waiting for confirmation...'') s3)))))))"

text \<open>Deposit and withdrawal have the same shape; \<open>token\<close> comes from the figures of the pool. The two seconds they wait
  poll nothing.\<close>

definition pool_operation :: "string \<Rightarrow> string \<Rightarrow> string \<Rightarrow> op_world \<Rightarrow> string option \<Rightarrow> string \<Rightarrow> ui_store \<Rightarrow> op_result" where
  "pool_operation first fallback last_msg W token i s =
     (let s0 = startTransaction (started W) i first s
      in if env_set token = None
         then op_failed i fallback (ErrorOf ''Pool token address not found. Please wait for stats to load.'') s0
         else
           (let s1 = updateProgress i 20 (Some ''Building transaction...'') s0
            in case built W of
                 Inl e \<Rightarrow> op_failed i fallback e s1
               | Inr (xdr, passphrase) \<Rightarrow>
                   (let s2 = signTransaction i (Some ''Waiting for wallet signature...'') s1
                    in case wallet_signs W xdr of
                         Inl e \<Rightarrow> op_failed i fallback e s2
                       | Inr signedTx \<Rightarrow>
                           (case submit_answer W signedTx of
                              Inl e \<Rightarrow> op_failed i fallback e s2
                            | Inr (h, st) \<Rightarrow>
                                (Inr h,
                                 completeTransaction (completed W) i (Some h) (Some last_msg)
                                   (confirmTransaction i (Some ''Confirming transaction...'')
                                     (ui_submitTransaction i h (Some ''Transaction submitted, waiting for confirmation...'') s2)))))))"

definition executeDeposit :: "op_world \<Rightarrow> string option \<Rightarrow> string \<Rightarrow> ui_store \<Rightarrow> op_result" where
  "executeDeposit = pool_operation ''Processing deposit...'' ''Deposit failed'' ''Deposit successful!''"

definition executeWithdrawal :: "op_world \<Rightarrow> string option \<Rightarrow> string \<Rightarrow> ui_store \<Rightarrow> op_result" where
  "executeWithdrawal = pool_operation ''Processing withdrawal...'' ''Withdrawal failed'' ''Withdrawal successful!''"

text \<open>What \<open>apiFetch\<close> makes of the answer of a submission; \<open>shows\<close> is the message of the error's JSON.\<close>

definition of_backend :: "(http_error \<Rightarrow> string) \<Rightarrow> (http_error + string \<times> string) \<times> submissions_table \<Rightarrow> thrown + string \<times> string" where
  "of_backend shows a = (case fst a of Inl e \<Rightarrow> Inl (ErrorOf (shows e)) | Inr sr \<Rightarrow> Inr sr)"

section \<open>Errors\<close>

datatype error_category =
  WalletRejected | NetworkTimeout | InsufficientBalance | ScoreTooLow | OnchainFailure | SimulationFailed | Unknown

record error_details =
  category :: error_category
  title :: string
  message :: string
  guidance :: string
  retryable :: bool
  cancelledByUser :: bool

definition toErrorMessage :: "thrown \<Rightarrow> string \<Rightarrow> string" where
  "toErrorMessage e other = (case e of ErrorOf m \<Rightarrow> m | SomethingElse \<Rightarrow> other)"

definition mapTransactionError :: "string \<Rightarrow> error_details" where
  "mapTransactionError rawMessage =
     (let normalized = js_lower rawMessage; has = (\<lambda>w. includes_text normalized w) in
      if has ''rejected'' \<or> has ''denied'' \<or> has ''cancelled'' \<or> has ''canceled'' then
        \<lparr>category = WalletRejected, title = ''Transaction cancelled'',
         message = ''You cancelled the signing request in your wallet.'',
         guidance = ''No funds moved. You can review details and submit again when ready.'', retryable = True, cancelledByUser = True\<rparr>
      else if has ''timeout'' \<or> has ''network'' \<or> has ''failed to fetch'' then
        \<lparr>category = NetworkTimeout, title = ''Network issue'',
         message = ''The network request timed out or could not be completed.'',
         guidance = ''Check connectivity and retry. If it keeps failing, try again in a few minutes.'', retryable = True, cancelledByUser = False\<rparr>
      else if has ''insufficient'' \<and> (has ''balance'' \<or> has ''fund'') then
        \<lparr>category = InsufficientBalance, title = ''Insufficient balance'',
         message = ''Your available balance is too low for this transaction.'',
         guidance = ''Reduce the amount or fund your wallet, then try again.'', retryable = False, cancelledByUser = False\<rparr>
      else if has ''score too low'' \<or> has ''insufficient score'' \<or> has ''insufficientscore'' then
        \<lparr>category = ScoreTooLow, title = ''Loan request not eligible'',
         message = ''Your credit score does not meet the minimum requirement.'',
         guidance = ''Repay active loans on time and retry after your score improves.'', retryable = False, cancelledByUser = False\<rparr>
      else if has ''simulation'' \<or> has ''host error'' then
        \<lparr>category = SimulationFailed, title = ''Simulation failed'',
         message = ''The contract simulation failed before submission.'',
         guidance = ''Review your values and wallet state, then retry.'', retryable = True, cancelledByUser = False\<rparr>
      else if has ''failed on-chain'' \<or> has ''tx failed'' \<or> has ''revert'' then
        \<lparr>category = OnchainFailure, title = ''Transaction failed on-chain'',
         message = ''The transaction was submitted but did not succeed on-chain.'',
         guidance = ''Check the transaction hash details and adjust inputs before retrying.'', retryable = False, cancelledByUser = False\<rparr>
      else
        \<lparr>category = Unknown, title = ''Transaction failed'', message = rawMessage,
         guidance = ''Try again, or adjust the amount and wallet state before retrying.'', retryable = True, cancelledByUser = False\<rparr>)"

subsection \<open>The page that repays a loan\<close>

datatype tracker = TrackerSuccess string | TrackerCancelled error_details | TrackerError error_details

definition page_executeRepayment :: "op_world \<Rightarrow> string \<Rightarrow> string \<Rightarrow> tracker" where
  "page_executeRepayment W other xdr =
     (let failed = (\<lambda>e. let mapped = mapTransactionError (toErrorMessage e other)
                        in if cancelledByUser mapped then TrackerCancelled mapped else TrackerError mapped)
      in case wallet_signs W xdr of
           Inl e \<Rightarrow> failed e
         | Inr signedTx \<Rightarrow>
             (case submit_answer W signedTx of
                Inl e \<Rightarrow> failed e
              | Inr (h, st) \<Rightarrow> if st = ''SUCCESS'' then TrackerSuccess h else failed (ErrorOf ''Transaction failed'')))"

subsection \<open>Polling\<close>

datatype chain_status = ChainPending | ChainSuccess | ChainFailed
datatype poll_outcome = PollSuccess | PollFailed | PollTimeout | PollCancelled

text \<open>An answer of Horizon: its status, whether it is \<open>ok\<close>, and \<open>successful\<close>.\<close>

record horizon_answer =
  hz_code :: nat
  hz_ok :: bool
  hz_successful :: bool

definition fetchTransactionStatus :: "horizon_answer option \<Rightarrow> chain_status option" where
  "fetchTransactionStatus a =
     (case a of
        None \<Rightarrow> None
      | Some r \<Rightarrow> if hz_code r = 404 then Some ChainPending else if \<not> hz_ok r then None
                 else Some (if hz_successful r then ChainSuccess else ChainFailed))"

text \<open>\<open>horizon i\<close>: how long the \<open>i\<close>-th request takes and what comes back, \<open>None\<close> when it throws; \<open>aborted_from\<close>: when the signal
  is given.\<close>

record poll_world =
  horizon :: "nat \<Rightarrow> ms \<times> horizon_answer option"
  aborted_from :: "ms option"
  intervalMs :: ms
  timeoutMs :: ms

definition aborted :: "poll_world \<Rightarrow> ms \<Rightarrow> bool" where
  "aborted W t = (case aborted_from W of None \<Rightarrow> False | Some a \<Rightarrow> a \<le> t)"

definition delay_until :: "poll_world \<Rightarrow> ms \<Rightarrow> ms" where
  "delay_until W t =
     (case aborted_from W of None \<Rightarrow> t + intervalMs W | Some a \<Rightarrow> if a \<le> t then t else min (t + intervalMs W) a)"

text \<open>The loop may run forever, with an interval of zero. It gives the outcome and the number of requests.\<close>

partial_function (option) poll_loop :: "poll_world \<Rightarrow> ms \<Rightarrow> ms \<Rightarrow> nat \<Rightarrow> (poll_outcome \<times> nat) option" where
  "poll_loop W startedAt now i =
     (if now - startedAt < timeoutMs W then
        if aborted W now then Some (PollCancelled, i)
        else
          (let t = now + fst (horizon W i) in
           case fetchTransactionStatus (snd (horizon W i)) of
             Some ChainSuccess \<Rightarrow> Some (PollSuccess, i + 1)
           | Some ChainFailed \<Rightarrow> Some (PollFailed, i + 1)
           | Some ChainPending \<Rightarrow> poll_loop W startedAt (delay_until W t) (i + 1)
           | None \<Rightarrow> if aborted W t then Some (PollCancelled, i + 1) else poll_loop W startedAt (delay_until W t) (i + 1))
      else Some (PollTimeout, i))"

definition pollTransactionStatus :: "poll_world \<Rightarrow> ms \<Rightarrow> (poll_outcome \<times> nat) option" where
  "pollTransactionStatus W now = poll_loop W now now 0"

section \<open>Lemmas\<close>

lemma change_tx_at: "shown_txs s i = Some t \<Longrightarrow> change_tx i f s = s\<lparr>shown_txs := (shown_txs s)(i \<mapsto> f t)\<rparr>"
  by (simp add: change_tx_def)

lemmas tx_updates = updateProgress_def completeTransaction_def ui_submitTransaction_def confirmTransaction_def signTransaction_def
  failTransaction_def startTransaction_def change_tx_def with_message_def env_set_def

definition outcome_shown :: "string \<Rightarrow> op_result \<Rightarrow> bool" where
  "outcome_shown i r \<longleftrightarrow>
     (\<exists>t. shown_txs (snd r) i = Some t \<and>
        (case fst r of Inr h \<Rightarrow> ts_status t = TxConfirmed \<and> ts_hash t = Some h | Inl e \<Rightarrow> ts_status t = TxFailed))"

lemma repayment_shown: "outcome_shown i (executeRepayment W False i s)"
  by (auto simp: executeRepayment_def op_failed_def outcome_shown_def Let_def tx_updates split: sum.splits)

lemma aborted_later: "aborted W t \<Longrightarrow> t \<le> u \<Longrightarrow> aborted W u"
  by (auto simp: aborted_def split: option.splits)

lemma delay_ge: "0 < intervalMs W \<Longrightarrow> t \<le> delay_until W t"
  by (auto simp: delay_until_def split: option.splits)

lemma delay_gt: "0 < intervalMs W \<Longrightarrow> \<not> aborted W t \<Longrightarrow> t < delay_until W t"
  by (auto simp: delay_until_def aborted_def split: option.splits)

lemma delay_full: "\<not> aborted W (delay_until W t) \<Longrightarrow> 0 < intervalMs W \<Longrightarrow> delay_until W t = t + intervalMs W"
  by (auto simp: delay_until_def aborted_def split: option.splits if_splits)

definition poll_good :: "poll_world \<Rightarrow> (poll_outcome \<times> nat) option \<Rightarrow> bool" where
  "poll_good W r \<longleftrightarrow>
     (\<exists>out n. r = Some (out, n) \<and> int n * intervalMs W < timeoutMs W + intervalMs W \<and>
        (out = PollSuccess \<longrightarrow> (\<exists>k<n. fetchTransactionStatus (snd (horizon W k)) = Some ChainSuccess)) \<and>
        (out = PollFailed \<longrightarrow> (\<exists>k<n. fetchTransactionStatus (snd (horizon W k)) = Some ChainFailed)) \<and>
        (out = PollCancelled \<longrightarrow> aborted_from W \<noteq> None))"

lemma poll_loop_returns:
  assumes "0 < intervalMs W" "\<forall>k. 0 \<le> fst (horizon W k)"
    and "\<not> aborted W now \<longrightarrow> int i * intervalMs W \<le> now - startedAt" "int i * intervalMs W < timeoutMs W + intervalMs W"
  shows "poll_good W (poll_loop W startedAt now i)"
  using assms(3,4)
proof (induction "nat (startedAt + timeoutMs W + 1 - now) + (if aborted W now then 0 else 1)" arbitrary: now i rule: less_induct)
  case (less now i)
  show ?case
  proof (cases "now - startedAt < timeoutMs W \<and> \<not> aborted W now")
    case False
    then show ?thesis using less.prems
      by (auto simp: poll_good_def poll_loop.simps [of W startedAt now i] aborted_def split: option.splits)
  next
    case True
    let ?t = "now + fst (horizon W i)"
    have t: "now \<le> ?t" using assms(2) by simp
    have i1: "int (i + 1) * intervalMs W < timeoutMs W + intervalMs W"
      using less.prems(1) True by (simp add: algebra_simps)
    have rec: "poll_good W (poll_loop W startedAt (delay_until W ?t) (i + 1))"
    proof (rule less.hyps)
      have "now \<le> delay_until W ?t" using t delay_ge [OF assms(1), of ?t] by linarith
      moreover have "now < delay_until W ?t \<or> aborted W (delay_until W ?t)"
        using t delay_gt [OF assms(1), of ?t] aborted_later [of W ?t "delay_until W ?t"] delay_ge [OF assms(1), of ?t] by force
      ultimately show "nat (startedAt + timeoutMs W + 1 - delay_until W ?t) + (if aborted W (delay_until W ?t) then 0 else 1)
          < nat (startedAt + timeoutMs W + 1 - now) + (if aborted W now then 0 else 1)"
        using True by auto
      show "\<not> aborted W (delay_until W ?t) \<longrightarrow> int (i + 1) * intervalMs W \<le> delay_until W ?t - startedAt"
        using delay_full [of W ?t] assms(1) less.prems(1) True t by (auto simp: algebra_simps)
    qed (rule i1)
    have ends: "poll_good W (Some (PollSuccess, i + 1))" if "fetchTransactionStatus (snd (horizon W i)) = Some ChainSuccess"
      using that i1 by (auto simp: poll_good_def)
    have fails: "poll_good W (Some (PollFailed, i + 1))" if "fetchTransactionStatus (snd (horizon W i)) = Some ChainFailed"
      using that i1 by (auto simp: poll_good_def)
    have cancels: "poll_good W (Some (PollCancelled, i + 1))" if "aborted W ?t"
      using that i1 by (auto simp: poll_good_def aborted_def split: option.splits)
    show ?thesis
      unfolding poll_loop.simps [of W startedAt now i] Let_def
      using True rec ends fails cancels by (auto split: option.splits chain_status.splits)
  qed
qed

section \<open>Properties\<close>


text \<open>A deposit or a withdrawal is shown as successful whatever became of it: also when the network has rejected it or
  never confirmed it, and the backend has answered and recorded that status.\<close>

theorem pool_failure_shown_as_success:
  assumes "env_set token \<noteq> None" "built W = Inr (xdr, passphrase)" "wallet_signs W xdr = Inr signedTx" "signedTx \<noteq> []"
    and "submit_answer W = (\<lambda>x. of_backend shows (submitPoolTransaction N None user x db))"
    and "submitSignedTx N = Inr (h, st)" "st \<noteq> ''SUCCESS''" "op \<in> {executeDeposit, executeWithdrawal}"
  shows "fst (op W token i s) = Inr h \<and> outcome_shown i (op W token i s) \<and>
    (\<exists>row. snd (submitPoolTransaction N None user signedTx db) h = Some row \<and> sr_status row = st)"
proof -
  have a: "submit_answer W signedTx = Inr (h, st)"
    using assms(4,5,6) by (simp add: of_backend_def submitPoolTransaction_def withStellarAndDbTransaction_def record_submission_def)
  have "fst (pool_operation x y z W token i s) = Inr h \<and> outcome_shown i (pool_operation x y z W token i s)" for x y z
    using assms(1-3) a by (auto simp: pool_operation_def outcome_shown_def Let_def tx_updates)
  moreover have "\<exists>row. snd (submitPoolTransaction N None user signedTx db) h = Some row \<and> sr_status row = st"
    using assms(4,6)
    by (auto simp: submitPoolTransaction_def withStellarAndDbTransaction_def record_submission_def split: option.splits)
  ultimately show ?thesis using assms(8) by (auto simp: executeDeposit_def executeWithdrawal_def)
qed

text \<open>(C29) A repayment that the network has executed is shown as failed, and is recorded nowhere, when the database fails after
  the submission; and the page of the loan does not show a success either.\<close>

theorem paid_but_shown_failed:
  assumes "built W = Inr (xdr, passphrase)" "wallet_signs W xdr = Inr signedTx" "signedTx \<noteq> []"
    and "submit_answer W = (\<lambda>x. of_backend shows (submitTransaction N (Some e) user x db))"
    and "submitSignedTx N = Inr (h, ''SUCCESS'')"
  shows "fst (executeRepayment W False i s) = Inl (ErrorOf (shows e)) \<and> outcome_shown i (executeRepayment W False i s) \<and>
    snd (submitTransaction N (Some e) user signedTx db) = db \<and>
    page_executeRepayment W other xdr \<in> {TrackerError (mapTransactionError (shows e)), TrackerCancelled (mapTransactionError (shows e))}"
proof -
  have a: "submit_answer W signedTx = Inl (ErrorOf (shows e))" "snd (submitTransaction N (Some e) user signedTx db) = db"
    using assms(3,4,5) by (simp_all add: of_backend_def submitTransaction_def withStellarAndDbTransaction_def record_submission_def)
  then have "fst (executeRepayment W False i s) = Inl (ErrorOf (shows e))"
    using assms(1,2) by (simp add: executeRepayment_def op_failed_def Let_def)
  moreover have "page_executeRepayment W other xdr \<in> {TrackerError (mapTransactionError (shows e)), TrackerCancelled (mapTransactionError (shows e))}"
    using assms(2) a(1) by (simp add: page_executeRepayment_def toErrorMessage_def Let_def)
  ultimately show ?thesis using a(2) repayment_shown by blast
qed

text \<open>(C28) Polling for a transaction always returns when the interval is not zero, after fewer requests than the time allows
  intervals plus one; success and failure are only reported when Horizon has said so, a cancellation only when the signal
  was given.\<close>

theorem polling_returns:
  assumes "0 < intervalMs W" "0 \<le> timeoutMs W" "\<forall>k. 0 \<le> fst (horizon W k)"
  shows "\<exists>out n. pollTransactionStatus W now = Some (out, n) \<and> int n * intervalMs W < timeoutMs W + intervalMs W \<and>
    (out = PollSuccess \<longrightarrow> (\<exists>k<n. fetchTransactionStatus (snd (horizon W k)) = Some ChainSuccess)) \<and>
    (out = PollFailed \<longrightarrow> (\<exists>k<n. fetchTransactionStatus (snd (horizon W k)) = Some ChainFailed)) \<and>
    (out = PollCancelled \<longrightarrow> aborted_from W \<noteq> None)"
  using poll_loop_returns [OF assms(1,3), of now 0 now] assms(1,2) by (simp add: pollTransactionStatus_def poll_good_def)

section \<open>Concrete operations\<close>

definition demo_net :: "string \<Rightarrow> network" where
  "demo_net st = \<lparr>send_answer = Inr (Some ''h'', ''PENDING''), poll_answer = Inr st\<rparr>"

definition demo_op :: "(string \<Rightarrow> thrown + string \<times> string) \<Rightarrow> op_world" where
  "demo_op answer = \<lparr>built = Inr (''x'', ''p''), wallet_signs = (\<lambda>x. Inr (''s'' @ x)), submit_answer = answer, started = 1, completed = 5\<rparr>"

definition demo_store :: ui_store where
  "demo_store = \<lparr>shown_txs = (\<lambda>_. None), optimisticUpdates = {}\<rparr>"

lemma demo_op_fields [simp]:
  "built (demo_op a) = Inr (''x'', ''p'')" "wallet_signs (demo_op a) = (\<lambda>x. Inr (''s'' @ x))" "submit_answer (demo_op a) = a"
  by (simp_all add: demo_op_def)

lemma demo_net_answer: "submitSignedTx (demo_net st) = Inr (''h'', st)"
  by (simp add: demo_net_def submitSignedTx_def env_set_def)

theorem pool_failure_shown_as_success_witness:
  "fst (executeDeposit (demo_op (\<lambda>x. of_backend (\<lambda>_. []) (submitPoolTransaction (demo_net ''FAILED'') None None x (\<lambda>_. None))))
     (Some ''CT'') ''d'' demo_store) = Inr ''h''"
  using pool_failure_shown_as_success [of "Some ''CT''" "demo_op (\<lambda>x. of_backend (\<lambda>_. []) (submitPoolTransaction (demo_net ''FAILED'') None None x (\<lambda>_. None)))"
      "''x''" "''p''" "''sx''" "\<lambda>_. []" "demo_net ''FAILED''" None "\<lambda>_. None" "''h''" "''FAILED''" executeDeposit "''d''" demo_store]
  by (simp add: env_set_def demo_net_answer)

theorem paid_but_shown_failed_witness:
  "fst (executeRepayment (demo_op (\<lambda>x. of_backend (\<lambda>_. ''down'') (submitTransaction (demo_net ''SUCCESS'') (Some (Thrown ''down'')) None x (\<lambda>_. None))))
     False ''r'' demo_store) = Inl (ErrorOf ''down'')"
  using paid_but_shown_failed [of "demo_op (\<lambda>x. of_backend (\<lambda>_. ''down'') (submitTransaction (demo_net ''SUCCESS'') (Some (Thrown ''down'')) None x (\<lambda>_. None)))"
      "''x''" "''p''" "''sx''" "\<lambda>_. ''down''" "demo_net ''SUCCESS''" "Thrown ''down''" None "\<lambda>_. None" "''h''" "''r''" demo_store "[]"]
  by (simp add: demo_net_answer)

definition demo_poll :: poll_world where
  "demo_poll = \<lparr>horizon = (\<lambda>k. (100, Some \<lparr>hz_code = 404, hz_ok = False, hz_successful = False\<rparr>)), aborted_from = None,
     intervalMs = 2500, timeoutMs = 30000\<rparr>"

theorem polling_returns_witness:
  "\<exists>out n. pollTransactionStatus demo_poll 0 = Some (out, n) \<and> n < 13"
proof -
  have "\<exists>out n. pollTransactionStatus demo_poll 0 = Some (out, n) \<and> int n * intervalMs demo_poll < timeoutMs demo_poll + intervalMs demo_poll"
    using polling_returns [of demo_poll 0] by (auto simp: demo_poll_def)
  then show ?thesis by (auto simp: demo_poll_def)
qed


end
