(* ===== verification/Runs.thy ===== *)
theory Runs
  imports Prelude
begin

text \<open>
  Sequences of operations on a state: the interface between a component, which shows that each of its operations keeps an
  invariant, and the theorems about every history of calls.
\<close>

locale preserved =
  fixes run :: "'op \<Rightarrow> 's \<Rightarrow> 's"
    and inv :: "'s \<Rightarrow> bool"
  assumes keeps: "inv s \<Longrightarrow> inv (run p s)"
begin

lemma after_all: "inv s \<Longrightarrow> inv (fold run ps s)"
  by (induction ps arbitrary: s) (simp_all add: keeps)

text \<open>What an invariant gives holds at every moment of a history.\<close>

lemma at_every_moment: "inv s \<Longrightarrow> inv (fold run (take k ps) s)"
  by (rule after_all)

end

end
