(* ===== verification/ScoreViews.thy ===== *)
theory ScoreViews
  imports Scores JsNumber Runs
begin

text \<open>
  The endpoints of \<open>src/backend/src/controllers/scoreController.ts\<close>: the score of a borrower and its breakdown, both
  behind the cache, the update of a score by an internal service, and the two views of what the chain says. A request
  sees the cache server up or down at each of its calls; \<open>db_up\<close> says whether the database answers. Rows
  of the same moment keep the order in which they were stored.
\<close>

section \<open>Scores and bands\<close>

definition getCreditBand :: "int \<Rightarrow> string" where
  "getCreditBand score =
     (if score \<ge> 750 then ''Excellent'' else if score \<ge> 670 then ''Good'' else if score \<ge> 580 then ''Fair'' else ''Poor'')"

definition ON_TIME_DELTA :: int where "ON_TIME_DELTA = 15"
definition LATE_DELTA :: int where "LATE_DELTA = - 30"

definition score_key :: "string \<Rightarrow> key" where "score_key u = ''score:userId:'' @ u"
definition breakdown_key :: "string \<Rightarrow> key" where "breakdown_key u = ''score:breakdown:'' @ u"

definition stored_score :: "score_table \<Rightarrow> string \<Rightarrow> int" where
  "stored_score tbl u = (case map_of tbl u of None \<Rightarrow> 500 | Some s \<Rightarrow> s)"

text \<open>A field that is undefined is left out of the answer. The dash of the range is three bytes of UTF-8.\<close>

definition score_answer :: "string \<Rightarrow> json option \<Rightarrow> json option \<Rightarrow> json" where
  "score_answer u score band =
     JObj (List.map_filter (\<lambda>(k, v). map_option (Pair k) v)
       [(''success'', Some (JBool True)), (''userId'', Some (JStr u)), (''score'', score), (''band'', band),
        (''factors'', Some (JObj
           [(''repaymentHistory'', JStr ''On-time payments increase score by 15 pts each''),
            (''latePaymentPenalty'', JStr ''Late payments decrease score by 30 pts each''),
            (''range'', JStr (''500 (Poor) '' @ [CHR 0xE2, CHR 0x80, CHR 0x93] @ '' 850 (Excellent)''))]))])"

definition score_value :: "int \<Rightarrow> json" where
  "score_value score = JObj [(''score'', JNum score), (''band'', JStr (getCreditBand score))]"

type_synonym 's answered = "(http_error + json) \<times> 's score_sys"

definition getScore ::
  "'s redis \<Rightarrow> server \<Rightarrow> server \<Rightarrow> bool \<Rightarrow> ms \<Rightarrow> string \<Rightarrow> 's score_sys \<Rightarrow> 's answered" where
  "getScore R srv srv' db_up now u s =
     (case cache_get R srv now (score_key u) (score_cache s) of
        (cached, c) \<Rightarrow>
          (let s1 = s\<lparr>score_cache := c\<rparr>;
               miss = (if \<not> db_up then (Inl (Thrown ''database error''), s1)
                       else (let score = stored_score (scores s) u
                             in (Inr (score_answer u (Some (JNum score)) (Some (JStr (getCreditBand score)))),
                                 s1\<lparr>score_cache := cache_set R srv' now (score_key u) (score_value score) 300 c\<rparr>)))
           in case cached of
                None \<Rightarrow> miss
              | Some v \<Rightarrow> if js_truthy v then (Inr (score_answer u (field ''score'' v) (field ''band'' v)), s1) else miss))"

definition upsert_score :: "string \<Rightarrow> int \<Rightarrow> score_table \<Rightarrow> score_table" where
  "upsert_score u delta tbl =
     (case map_of tbl u of
        None \<Rightarrow> js_map_set u (500 + delta) tbl
      | Some s \<Rightarrow> js_map_set u (clamp (s + delta)) tbl)"

definition updateScore ::
  "'s redis \<Rightarrow> server \<Rightarrow> bool \<Rightarrow> string \<Rightarrow> json \<Rightarrow> bool \<Rightarrow> 's score_sys \<Rightarrow> 's answered" where
  "updateScore R srv db_up u repaymentAmount onTime s =
     (if \<not> db_up then (Inl (Thrown ''database error''), s)
      else
        (let oldScore = stored_score (scores s) u;
             delta = (if onTime then ON_TIME_DELTA else LATE_DELTA);
             tbl = upsert_score u delta (scores s);
             newScore = stored_score tbl u
         in (Inr (JObj [(''success'', JBool True), (''userId'', JStr u), (''repaymentAmount'', repaymentAmount), (''onTime'', JBool onTime),
                (''oldScore'', JNum oldScore), (''delta'', JNum delta), (''newScore'', JNum newScore), (''band'', JStr (getCreditBand newScore))]),
             s\<lparr>scores := tbl, score_cache := cache_delete R srv (score_key u) (score_cache s)\<rparr>)))"

section \<open>The breakdown\<close>

text \<open>The common table expressions of the query, over the events of the borrower.\<close>

definition borrower_events :: "string \<Rightarrow> event_row list \<Rightarrow> event_row list" where
  "borrower_events u evs = filter (\<lambda>e. address e = Some u) evs"

definition loans_with :: "string \<Rightarrow> event_row list \<Rightarrow> int list" where
  "loans_with t evs = remdups (List.map_filter loan_id (filter (\<lambda>e. event_type e = t) evs))"

definition coalesce_term :: "event_row \<Rightarrow> int" where
  "coalesce_term e = (case term_ledgers e of None \<Rightarrow> 17280 | Some t \<Rightarrow> t)"

definition approved_loans :: "event_row list \<Rightarrow> (int \<times> int \<times> int) list" where
  "approved_loans evs =
     map (\<lambda>l. (l, Max (ledger ` set (rows_of l ''LoanApproved'' evs)), Max (coalesce_term ` set (rows_of l ''LoanApproved'' evs))))
       (loans_with ''LoanApproved'' evs)"

definition repaid_loans :: "event_row list \<Rightarrow> (int \<times> int) list" where
  "repaid_loans evs =
     map (\<lambda>l. (l, Max (ledger ` set (rows_of l ''LoanRepaid'' evs)))) (loans_with ''LoanRepaid'' evs)"

text \<open>Loan, whether on time, and the ledgers it took.\<close>

definition repayment_timing :: "event_row list \<Rightarrow> (int \<times> bool \<times> int) list" where
  "repayment_timing evs =
     concat (map (\<lambda>(l, repaid). map (\<lambda>(_, approved, term). (l, repaid \<le> approved + term, repaid - approved))
       (filter (\<lambda>(l', _). l' = l) (approved_loans evs))) (repaid_loans evs))"

record breakdown_row =
  current_score :: int
  total_loans :: nat
  repaid_count :: nat
  defaulted_count :: nat
  total_repaid :: int
  on_time_count :: nat
  late_count :: nat
  avg_repayment_ledgers :: "int \<times> nat"

text \<open>The average is kept as its sum and its count. Without a row in \<open>scores\<close> the cross join is empty.\<close>

definition breakdown_summary :: "score_table \<Rightarrow> event_row list \<Rightarrow> string \<Rightarrow> breakdown_row option" where
  "breakdown_summary tbl events u =
     map_option (\<lambda>score.
       let evs = borrower_events u events; timing = repayment_timing evs in
       \<lparr>current_score = score, total_loans = length (loans_with ''LoanRequested'' evs), repaid_count = length (loans_with ''LoanRepaid'' evs),
        defaulted_count = length (loans_with ''LoanDefaulted'' evs),
        total_repaid = sql_sum (map amount (filter (\<lambda>e. event_type e = ''LoanRepaid'') evs)),
        on_time_count = length (filter (\<lambda>(l, on_time, d). on_time) timing), late_count = length (filter (\<lambda>(l, on_time, d). \<not> on_time) timing),
        avg_repayment_ledgers = (sum_list (map (\<lambda>(l, on_time, d). d) timing), length timing)\<rparr>) (map_of tbl u)"

text \<open>Rounded to days, half a day up.\<close>

definition averageRepaymentTime :: "int \<times> nat \<Rightarrow> string" where
  "averageRepaymentTime avg =
     (case avg of (total_ledgers, n) \<Rightarrow>
        if n > 0 \<and> total_ledgers > 0 then show_int ((10 * total_ledgers + 86400 * int n) div (2 * 86400 * int n)) @ '' days'' else ''N/A'')"

text \<open>The day of \<open>toISOString\<close>, for years of four digits: the days since the first of March of the year zero are cut into
  eras of 400 years.\<close>

definition iso_day :: "ms \<Rightarrow> string" where
  "iso_day t =
     (let z = t div 86400000 + 719468; era = z div 146097; doe = z mod 146097;
          yoe = (doe - doe div 1460 + doe div 36524 - doe div 146096) div 365;
          doy = doe - (365 * yoe + yoe div 4 - yoe div 100);
          mp = (5 * doy + 2) div 153;
          d = doy - (153 * mp + 2) div 5 + 1;
          m = (if mp < 10 then mp + 3 else mp - 9);
          y = yoe + era * 400 + (if m \<le> 2 then 1 else 0);
          two = (\<lambda>k n. js_pad_start k CHR ''0'' (show_int n))
      in two 4 y @ ''-'' @ two 2 m @ ''-'' @ two 2 d)"

definition history_rows :: "string \<Rightarrow> event_row list \<Rightarrow> event_row list" where
  "history_rows u events =
     sort_key ledger_closed_at (filter (\<lambda>e. address e = Some u \<and> event_type e \<in> {''LoanRepaid'', ''LoanDefaulted''}) events)"

record history_item =
  hDate :: string
  hScore :: int
  hEvent :: string

fun history_from :: "int \<Rightarrow> event_row list \<Rightarrow> history_item list" where
  "history_from runningScore [] = []"
| "history_from runningScore (e # es) =
     (let r = (if event_type e = ''LoanRepaid'' then min 850 (runningScore + ON_TIME_DELTA)
               else if event_type e = ''LoanDefaulted'' then max 300 (runningScore - 50) else runningScore)
      in \<lparr>hDate = iso_day (ledger_closed_at e), hScore = r, hEvent = event_type e\<rparr> # history_from r es)"

text \<open>The longest streak and the one that is still running.\<close>

fun streaks :: "nat \<Rightarrow> nat \<Rightarrow> history_item list \<Rightarrow> nat \<times> nat" where
  "streaks longestStreak tempStreak [] = (longestStreak, tempStreak)"
| "streaks longestStreak tempStreak (h # hs) =
     (if hEvent h = ''LoanRepaid'' then streaks (max longestStreak (tempStreak + 1)) (tempStreak + 1) hs
      else streaks longestStreak 0 hs)"

definition number_json :: "js_number \<Rightarrow> json" where
  "number_json n = (case n of Num k \<Rightarrow> JNum k | _ \<Rightarrow> JNull)"

definition of_row :: "breakdown_row option \<Rightarrow> (breakdown_row \<Rightarrow> 'a) \<Rightarrow> 'a \<Rightarrow> 'a" where
  "of_row row f d = (case row of None \<Rightarrow> d | Some r \<Rightarrow> f r)"

definition breakdown_data :: "score_table \<Rightarrow> event_row list \<Rightarrow> string \<Rightarrow> (string \<times> json) list" where
  "breakdown_data tbl events u =
     (let row = breakdown_summary tbl events u;
          score = (let c = of_row row current_score 500 in if c = 0 then 500 else c);
          history = history_from 500 (history_rows u events);
          (longestStreak, currentStreak) = streaks 0 0 history
      in [(''userId'', JStr u), (''score'', JNum score), (''band'', JStr (getCreditBand score)),
          (''breakdown'', JObj
             [(''totalLoans'', JNum (int (of_row row total_loans 0))), (''repaidOnTime'', JNum (int (of_row row on_time_count 0))),
              (''repaidLate'', JNum (int (of_row row late_count 0))), (''defaulted'', JNum (int (of_row row defaulted_count 0))),
              (''totalRepaid'', number_json (double_of_int (of_row row total_repaid 0))),
              (''averageRepaymentTime'', JStr (averageRepaymentTime (of_row row avg_repayment_ledgers (0, 0)))),
              (''longestStreak'', JNum (int longestStreak)), (''currentStreak'', JNum (int currentStreak))]),
          (''history'', JArr (map (\<lambda>h. JObj [(''date'', JStr (hDate h)), (''score'', JNum (hScore h)), (''event'', JStr (hEvent h))]) history))])"

definition spread :: "json \<Rightarrow> (string \<times> json) list" where
  "spread v = (case v of JObj kvs \<Rightarrow> kvs | _ \<Rightarrow> [])"

definition getScoreBreakdown ::
  "'s redis \<Rightarrow> server \<Rightarrow> server \<Rightarrow> bool \<Rightarrow> ms \<Rightarrow> event_row list \<Rightarrow> string \<Rightarrow> 's score_sys \<Rightarrow> 's answered" where
  "getScoreBreakdown R srv srv' db_up now events u s =
     (case cache_get R srv now (breakdown_key u) (score_cache s) of
        (cached, c) \<Rightarrow>
          (let s1 = s\<lparr>score_cache := c\<rparr>;
               miss = (if \<not> db_up then (Inl (Thrown ''database error''), s1)
                       else (let responseData = breakdown_data (scores s) events u
                             in (Inr (JObj ((''success'', JBool True) # responseData)),
                                 s1\<lparr>score_cache := cache_set R srv' now (breakdown_key u) (JObj responseData) 300 c\<rparr>)))
           in case cached of
                None \<Rightarrow> miss
              | Some v \<Rightarrow> if js_truthy v then (Inr (JObj ((''success'', JBool True) # spread v)), s1) else miss))"

section \<open>What the chain says\<close>

text \<open>The services that read the contract are parameters: they throw or give the history, or the metadata if there is a token.\<close>

definition getOnChainScoreHistory ::
  "'s redis \<Rightarrow> server \<Rightarrow> server \<Rightarrow> ms \<Rightarrow> (string \<Rightarrow> http_error + json) \<Rightarrow> string \<Rightarrow> 's cache \<Rightarrow> (http_error + json) \<times> 's cache" where
  "getOnChainScoreHistory R srv srv' now service wallet c =
     (let k = ''score:history:onchain:'' @ wallet in
      case cache_get R srv now k c of
        (cached, c1) \<Rightarrow>
          (let miss = (case service wallet of
                         Inl e \<Rightarrow> (Inl e, c1)
                       | Inr history \<Rightarrow>
                           (let response = [(''walletAddress'', JStr wallet), (''history'', history)]
                            in (Inr (JObj ((''success'', JBool True) # response)), cache_set R srv' now k (JObj response) 60 c1)))
           in case cached of
                None \<Rightarrow> miss
              | Some v \<Rightarrow> if js_truthy v then (Inr (JObj ((''success'', JBool True) # spread v)), c1) else miss))"

definition getRemittanceNft ::
  "'s redis \<Rightarrow> server \<Rightarrow> server \<Rightarrow> ms \<Rightarrow> (string \<Rightarrow> http_error + json) \<Rightarrow> string \<Rightarrow> 's cache \<Rightarrow> (http_error + json) \<times> 's cache" where
  "getRemittanceNft R srv srv' now service wallet c =
     (let k = ''score:nft:'' @ wallet;
          answer = (\<lambda>nft. Inr (JObj [(''success'', JBool True), (''walletAddress'', JStr wallet), (''nft'', nft)])) in
      case cache_get R srv now k c of
        (cached, c1) \<Rightarrow>
          (let miss = (case service wallet of
                         Inl e \<Rightarrow> (Inl e, c1)
                       | Inr nft \<Rightarrow> (answer nft, if js_truthy nft then cache_set R srv' now k nft 60 c1 else c1))
           in case cached of
                None \<Rightarrow> miss
              | Some v \<Rightarrow> if js_truthy v then (answer v, c1) else miss))"

section \<open>Operations on the scores\<close>

text \<open>An operation, with the servers that its calls meet. The writes find the cache server up.\<close>

datatype score_op =
    ReadScore server server bool ms string
  | ReadBreakdown server server bool ms "event_row list" string
  | UpdateScore bool string json bool
  | BulkUpdate bool "(string \<times> int) list"
  | SetAbsolute bool "(string \<times> int) list"

definition run_score_op :: "'s redis \<Rightarrow> score_op \<Rightarrow> 's score_sys \<Rightarrow> 's score_sys" where
  "run_score_op R p s =
     (case p of
        ReadScore a b db now u \<Rightarrow> snd (getScore R a b db now u s)
      | ReadBreakdown a b db now evs u \<Rightarrow> snd (getScoreBreakdown R a b db now evs u s)
      | UpdateScore db u amt onTime \<Rightarrow> snd (updateScore R Up db u amt onTime s)
      | BulkUpdate db upds \<Rightarrow> snd (updateUserScoresBulk R Up db upds s)
      | SetAbsolute db upds \<Rightarrow> snd (setAbsoluteUserScoresBulk R Up db upds s))"

definition coherent :: "('s \<Rightarrow> key \<Rightarrow> (json \<times> ms option) option) \<Rightarrow> 's score_sys \<Rightarrow> bool" where
  "coherent view s \<longleftrightarrow>
     (\<forall>u t v. held view t (score_key u) (score_cache s) = Some v \<longrightarrow> v = score_value (stored_score (scores s) u))"

subsection \<open>The cache\<close>

lemma held_get [simp]: "held view t j (snd (cache_get R srv now k c)) = held view t j c"
  by (cases srv) (simp_all add: cache_get_def held_def)

lemma get_held: "redis_server R view \<Longrightarrow> fst (cache_get R srv now k c) = (if srv = Up then held view now k c else None)"
  by (cases srv) (simp_all add: cache_get_Up, simp add: cache_get_def)

lemma held_set:
  assumes "redis_server R view" "0 < ttl"
  shows "held view t j (cache_set R srv now k v ttl c) =
     (if srv = Up \<and> j = k then (if t < now + 1000 * ttl then Some v else None) else held view t j c)"
proof (cases srv)
  case Up
  obtain s' where "SETEX R now k ttl v (client c) = Some s'" "view s' = (view (client c))(k \<mapsto> (v, Some (now + 1000 * ttl)))"
    using redis_server.setex_law [OF assms] by blast
  then show ?thesis using Up by (simp add: cache_set_def held_def)
qed (simp add: cache_set_def held_def)

lemma held_delete:
  assumes "redis_server R view"
  shows "held view t j (cache_delete R srv k c) = (if srv = Up \<and> j = k then None else held view t j c)"
  using redis_server.del_law [OF assms] by (cases srv) (simp_all add: cache_delete_def held_def)

lemma held_invalidate:
  assumes "redis_server R view"
  shows "held view t j (invalidate_scores R Up us c) =
     (if \<exists>u \<in> set us. j = score_key u \<or> j = breakdown_key u then None else held view t j c)"
proof (induction us arbitrary: c)
  case (Cons u us)
  have "held view t j (invalidate_scores R Up (u # us) c) =
      held view t j (invalidate_scores R Up us (cache_delete R Up (breakdown_key u) (cache_delete R Up (score_key u) c)))"
    by (simp add: invalidate_scores_def score_key_def breakdown_key_def)
  then show ?case unfolding Cons.IH by (auto simp: held_delete [OF assms])
qed (simp add: invalidate_scores_def)

lemma score_keys [simp]:
  "score_key u = score_key w \<longleftrightarrow> u = w" "breakdown_key u = breakdown_key w \<longleftrightarrow> u = w" "score_key u \<noteq> breakdown_key w" "breakdown_key w \<noteq> score_key u"
  by (auto simp: score_key_def breakdown_key_def)

lemma truthy_value [simp]: "js_truthy (score_value n)" "field ''score'' (score_value n) = Some (JNum n)"
  "field ''band'' (score_value n) = Some (JStr (getCreditBand n))"
  by (simp_all add: score_value_def field_def)

subsection \<open>Coherence\<close>

lemma coherentD: "coherent view s \<Longrightarrow> held view t (score_key u) (score_cache s) = Some v \<Longrightarrow> v = score_value (stored_score (scores s) u)"
  by (simp add: coherent_def)

lemma getScore_coherent:
  assumes "redis_server R view" "coherent view s"
  shows "coherent view (snd (getScore R a b db now u s))"
    and "scores (snd (getScore R a b db now u s)) = scores s"
    and "db \<Longrightarrow> fst (getScore R a b db now u s) =
       Inr (score_answer u (Some (JNum (stored_score (scores s) u))) (Some (JStr (getCreditBand (stored_score (scores s) u)))))"
proof -
  obtain x c where g: "cache_get R a now (score_key u) (score_cache s) = (x, c)" by (cases "cache_get R a now (score_key u) (score_cache s)")
  have h: "held view t j c = held view t j (score_cache s)" for t j
    using held_get [of view t j R a now "score_key u" "score_cache s"] g by simp
  have x: "v = score_value (stored_score (scores s) u)" if "x = Some v" for v
    using get_held [OF assms(1), of a now "score_key u" "score_cache s"] g that coherentD [OF assms(2)] by (simp split: if_splits)
  note d = getScore_def g prod.case Let_def
  show "coherent view (snd (getScore R a b db now u s))"
    using x assms(2) by (cases x; cases db) (auto simp: d coherent_def h held_set [OF assms(1)])
  show "scores (snd (getScore R a b db now u s)) = scores s"
    using x by (cases x; cases db) (auto simp: d)
  show "fst (getScore R a b db now u s) =
       Inr (score_answer u (Some (JNum (stored_score (scores s) u))) (Some (JStr (getCreditBand (stored_score (scores s) u)))))" if db
    using x that by (cases x) (auto simp: d)
qed

lemma getScoreBreakdown_frame:
  assumes "redis_server R view"
  shows "held view t (score_key w) (score_cache (snd (getScoreBreakdown R a b db now evs u s))) = held view t (score_key w) (score_cache s)"
    and "scores (snd (getScoreBreakdown R a b db now evs u s)) = scores s"
proof -
  obtain x c where g: "cache_get R a now (breakdown_key u) (score_cache s) = (x, c)" by (cases "cache_get R a now (breakdown_key u) (score_cache s)")
  have h: "held view t j c = held view t j (score_cache s)" for t j
    using held_get [of view t j R a now "breakdown_key u" "score_cache s"] g by simp
  show "held view t (score_key w) (score_cache (snd (getScoreBreakdown R a b db now evs u s))) = held view t (score_key w) (score_cache s)"
    by (cases x; cases db) (auto simp: getScoreBreakdown_def g Let_def h held_set [OF assms])
  show "scores (snd (getScoreBreakdown R a b db now evs u s)) = scores s"
    by (cases x; cases db) (auto simp: getScoreBreakdown_def g Let_def)
qed

lemma stored_upsert [simp]: "w \<noteq> u \<Longrightarrow> stored_score (upsert_score u d tbl) w = stored_score tbl w"
  by (simp add: stored_score_def upsert_score_def split: option.splits)

lemma stored_bulk: "u \<notin> set (map fst rows) \<Longrightarrow> stored_score (fold upsert_delta rows tbl) u = stored_score tbl u"
proof (induction rows arbitrary: tbl)
  case (Cons p rows)
  then show ?case by (cases p) (simp add: stored_score_def map_of_upsert_delta)
qed simp

lemma stored_absolute: "u \<notin> set (map fst rows) \<Longrightarrow> stored_score (fold (\<lambda>(u, v). js_map_set u v) rows tbl) u = stored_score tbl u"
proof (induction rows arbitrary: tbl)
  case (Cons p rows)
  then show ?case by (cases p) (simp add: stored_score_def)
qed simp

text \<open>A write that drops the cached scores of those whose score it changes keeps the cache coherent.\<close>

lemma coherent_write:
  assumes "redis_server R view" "coherent view s" "\<And>w. w \<notin> set us \<Longrightarrow> stored_score tbl w = stored_score (scores s) w"
  shows "coherent view (s\<lparr>scores := tbl, score_cache := invalidate_scores R Up us (score_cache s)\<rparr>)"
  using assms(2,3) by (auto simp: coherent_def held_invalidate [OF assms(1)] split: if_splits)

lemma run_score_op_coherent:
  assumes "redis_server R view" "coherent view s"
  shows "coherent view (run_score_op R p s)"
proof (cases p)
  case (ReadScore a b db now u)
  then show ?thesis using getScore_coherent(1) [OF assms] by (simp add: run_score_op_def)
next
  case (ReadBreakdown a b db now evs u)
  then show ?thesis using getScoreBreakdown_frame [OF assms(1)] assms(2) by (simp add: run_score_op_def coherent_def)
next
  case (UpdateScore db u amt onTime)
  then show ?thesis using assms(2)
    by (auto simp: run_score_op_def updateScore_def Let_def coherent_def held_delete [OF assms(1)] split: if_splits)
next
  case (BulkUpdate db upds)
  show ?thesis
    unfolding BulkUpdate run_score_op_def score_op.case updateUserScoresBulk_def Let_def
    using coherent_write [OF assms, of "map fst (filter (\<lambda>(u, d). u \<noteq> []) upds)"] stored_bulk assms(2) by simp
next
  case (SetAbsolute db upds)
  show ?thesis
    unfolding SetAbsolute run_score_op_def score_op.case setAbsoluteUserScoresBulk_def Let_def
    using coherent_write [OF assms, of "map fst (filter (\<lambda>(u, d). u \<noteq> []) upds)"] stored_absolute assms(2) by simp
qed

sublocale redis_server \<subseteq> score_ops: preserved "run_score_op R" "coherent view"
  by unfold_locales (rule run_score_op_coherent [OF redis_server_axioms])

context redis_server
begin

lemma score_ops_coherent: "coherent view s \<Longrightarrow> coherent view (fold (run_score_op R) ps s)"
  by (rule score_ops.after_all)

end

lemma run_score_ops_coherent:
  "redis_server R view \<Longrightarrow> coherent view s \<Longrightarrow> coherent view (fold (run_score_op R) ps s)"
  by (rule redis_server.score_ops_coherent)

section \<open>Streaks\<close>

text \<open>A stretch of \<open>n\<close> elements in a row that satisfy a predicate.\<close>

definition has_run :: "('a \<Rightarrow> bool) \<Rightarrow> nat \<Rightarrow> 'a list \<Rightarrow> bool" where
  "has_run P n xs \<longleftrightarrow> (\<exists>pre mid post. xs = pre @ mid @ post \<and> length mid = n \<and> list_all P mid)"

abbreviation repaid_item :: "history_item \<Rightarrow> bool" where
  "repaid_item h \<equiv> hEvent h = ''LoanRepaid''"

lemma streaks_append: "streaks l t (xs @ ys) = (case streaks l t xs of (l', t') \<Rightarrow> streaks l' t' ys)"
  by (induction l t xs rule: streaks.induct) simp_all

lemma has_run_snoc:
  "has_run P n (xs @ [x]) \<longleftrightarrow> has_run P n xs \<or> (P x \<and> n \<le> Suc (length (takeWhile P (rev xs))))"
proof
  assume "has_run P n (xs @ [x])"
  then obtain pre mid post where m: "xs @ [x] = pre @ mid @ post" "length mid = n" "list_all P mid" by (auto simp: has_run_def)
  show "has_run P n xs \<or> (P x \<and> n \<le> Suc (length (takeWhile P (rev xs))))"
  proof (cases post rule: rev_cases)
    case (snoc ys y)
    then have "xs = pre @ mid @ ys" using m(1) by simp
    then show ?thesis using m by (auto simp: has_run_def)
  next
    case Nil
    show ?thesis
    proof (cases mid rule: rev_cases)
      case Nil
      then have "xs = xs @ [] @ []" "length [] = n" using m(2) by simp_all
      then show ?thesis unfolding has_run_def by (metis list.pred_inject(1))
    next
      case (snoc ys y)
      then have xs: "xs = pre @ ys" "P x" using m \<open>post = []\<close> by auto
      have "\<forall>z \<in> set (rev ys). P z" using m(3) snoc by (simp add: list_all_iff)
      then have "takeWhile P (rev xs) = rev ys @ takeWhile P (rev pre)" using xs takeWhile_append2 [of "rev ys" P "rev pre"] by simp
      then show ?thesis using m(2) snoc xs(2) by simp
    qed
  qed
next
  assume "has_run P n xs \<or> (P x \<and> n \<le> Suc (length (takeWhile P (rev xs))))"
  then show "has_run P n (xs @ [x])"
  proof
    assume "has_run P n xs"
    then obtain pre mid post where m: "xs = pre @ mid @ post" "length mid = n" "list_all P mid" by (auto simp: has_run_def)
    then have "xs @ [x] = pre @ mid @ post @ [x]" by simp
    then show ?thesis using m(2,3) unfolding has_run_def by blast
  next
    assume n: "P x \<and> n \<le> Suc (length (takeWhile P (rev xs)))"
    show ?thesis
    proof (cases n)
      case 0
      then have "xs @ [x] = [] @ [] @ (xs @ [x])" "length [] = n" by simp_all
      then show ?thesis unfolding has_run_def by (metis list.pred_inject(1))
    next
      case (Suc k)
      let ?tw = "takeWhile P (rev xs)"
      let ?mid = "rev (take k ?tw)"
      have "rev xs = take k ?tw @ drop k ?tw @ dropWhile P (rev xs)"
        by (metis append.assoc append_take_drop_id takeWhile_dropWhile_id)
      then have "xs = rev (drop k ?tw @ dropWhile P (rev xs)) @ ?mid" by (metis append.assoc rev_append rev_rev_ident)
      then have "xs @ [x] = rev (drop k ?tw @ dropWhile P (rev xs)) @ (?mid @ [x]) @ []" by simp
      moreover have "length (?mid @ [x]) = n" using n Suc by simp
      moreover have "list_all P (?mid @ [x])"
        using n by (auto simp: list_all_iff dest!: in_set_takeD set_takeWhileD)
      ultimately show ?thesis unfolding has_run_def by blast
    qed
  qed
qed

lemma streaks_spec:
  "streaks 0 0 hs = (l, t) \<Longrightarrow>
     has_run repaid_item l hs \<and> (\<forall>n. has_run repaid_item n hs \<longrightarrow> n \<le> l) \<and> t = length (takeWhile repaid_item (rev hs))"
proof (induction hs arbitrary: l t rule: rev_induct)
  case Nil
  then show ?case by (auto simp: has_run_def)
next
  case (snoc h hs)
  obtain l0 t0 where s: "streaks 0 0 hs = (l0, t0)" by (cases "streaks 0 0 hs")
  note ih = snoc.IH [OF s]
  show ?case
  proof (cases "repaid_item h")
    case True
    then have lt: "l = max l0 (Suc t0)" "t = Suc t0" using snoc.prems s by (auto simp: streaks_append)
    then show ?thesis using ih True by (auto simp: has_run_snoc max_def)
  next
    case False
    then have "l = l0" "t = 0" using snoc.prems s by (auto simp: streaks_append)
    then show ?thesis using ih False by (auto simp: has_run_snoc)
  qed
qed

lemma history_events: "map hEvent (history_from r es) = map event_type es"
  by (induction r es rule: history_from.induct) (simp_all add: Let_def)

lemma history_bounds: "300 \<le> r \<Longrightarrow> r \<le> 850 \<Longrightarrow> \<forall>h \<in> set (history_from r es). 300 \<le> hScore h \<and> hScore h \<le> 850"
  by (induction r es rule: history_from.induct) (auto simp: Let_def ON_TIME_DELTA_def)

section \<open>Counts\<close>

definition of_loan :: "string \<Rightarrow> string \<Rightarrow> event_row list \<Rightarrow> int \<Rightarrow> event_row set" where
  "of_loan u t events l = {e \<in> set events. address e = Some u \<and> event_type e = t \<and> loan_id e = Some l}"

lemma loans_with_set: "l \<in> set (loans_with t (borrower_events u events)) \<longleftrightarrow> of_loan u t events l \<noteq> {}"
  by (auto simp: loans_with_def borrower_events_def of_loan_def List.map_filter_def image_iff)

lemma loans_with_distinct [simp]: "distinct (loans_with t evs)"
  by (simp add: loans_with_def)

lemma rows_of_loan: "set (rows_of l t (borrower_events u events)) = of_loan u t events l"
  by (auto simp: rows_of_def borrower_events_def of_loan_def)

lemma filter_pick: "distinct xs \<Longrightarrow> filter (\<lambda>(l', _). l' = l) (map (\<lambda>x. (x, g x)) xs) = (if l \<in> set xs then [(l, g l)] else [])"
  by (induction xs) auto

lemma concat_pick: "concat (map (\<lambda>x. if P x then [f x] else []) xs) = map f (filter P xs)"
  by (induction xs) auto

definition last_ledger :: "event_row list \<Rightarrow> string \<Rightarrow> int \<Rightarrow> int" where
  "last_ledger evs t l = Max (ledger ` set (rows_of l t evs))"

definition deadline :: "event_row list \<Rightarrow> int \<Rightarrow> int" where
  "deadline evs l = last_ledger evs ''LoanApproved'' l + Max (coalesce_term ` set (rows_of l ''LoanApproved'' evs))"

lemma repayment_timing_loans:
  "repayment_timing evs =
     map (\<lambda>l. (l, last_ledger evs ''LoanRepaid'' l \<le> deadline evs l, last_ledger evs ''LoanRepaid'' l - last_ledger evs ''LoanApproved'' l))
       (filter (\<lambda>l. l \<in> set (loans_with ''LoanApproved'' evs)) (loans_with ''LoanRepaid'' evs))"
proof -
  have f: "filter (\<lambda>(l', _). l' = l) (approved_loans evs) =
      (if l \<in> set (loans_with ''LoanApproved'' evs)
       then [(l, Max (ledger ` set (rows_of l ''LoanApproved'' evs)), Max (coalesce_term ` set (rows_of l ''LoanApproved'' evs)))] else [])" for l
    unfolding approved_loans_def by (rule filter_pick) simp
  have "(\<lambda>(l, repaid). map (\<lambda>(_, approved, term). (l, repaid \<le> approved + term, repaid - approved)) (filter (\<lambda>(l', _). l' = l) (approved_loans evs)))
      \<circ> (\<lambda>l. (l, Max (ledger ` set (rows_of l ''LoanRepaid'' evs)))) =
      (\<lambda>l. if l \<in> set (loans_with ''LoanApproved'' evs)
        then [(l, last_ledger evs ''LoanRepaid'' l \<le> deadline evs l, last_ledger evs ''LoanRepaid'' l - last_ledger evs ''LoanApproved'' l)] else [])"
    by (rule ext) (simp add: f last_ledger_def deadline_def)
  then show ?thesis unfolding repayment_timing_def repaid_loans_def map_map by (simp add: concat_pick)
qed

lemma count_timing:
  "length (filter (\<lambda>(l, on_time, d). P on_time) (repayment_timing evs)) =
     card {l \<in> set (loans_with ''LoanRepaid'' evs). l \<in> set (loans_with ''LoanApproved'' evs) \<and>
       P (last_ledger evs ''LoanRepaid'' l \<le> deadline evs l)}"
proof -
  have "length (filter (\<lambda>(l, on_time, d). P on_time) (repayment_timing evs)) =
      length (filter (\<lambda>l. l \<in> set (loans_with ''LoanApproved'' evs) \<and> P (last_ledger evs ''LoanRepaid'' l \<le> deadline evs l))
        (loans_with ''LoanRepaid'' evs))"
    unfolding repayment_timing_loans by (simp add: filter_map o_def conj_commute)
  also have "\<dots> = card {l \<in> set (loans_with ''LoanRepaid'' evs). l \<in> set (loans_with ''LoanApproved'' evs) \<and>
       P (last_ledger evs ''LoanRepaid'' l \<le> deadline evs l)}"
    by (subst distinct_length_filter) (auto intro: arg_cong [where f = card])
  finally show ?thesis .
qed

lemma approval_unique:
  assumes "unique_rows events" "a \<in> set events" "b \<in> set events" "event_type a = ''LoanApproved''" "event_type b = ''LoanApproved''"
    and "loan_id a = Some l" "loan_id b = Some l"
  shows "a = b"
proof (rule ccontr)
  assume "a \<noteq> b"
  obtain i j where ij: "i < length events" "events ! i = a" "j < length events" "events ! j = b"
    using assms(2,3) by (auto simp: in_set_conv_nth)
  then have "i < j \<or> j < i" using \<open>a \<noteq> b\<close> by (metis linorder_neqE_nat)
  moreover have "conflicts a b" "conflicts b a" using assms by (auto simp: conflicts_def)
  ultimately show False using assms(1) ij unfolding unique_rows_def by metis
qed

lemma on_time_iff:
  assumes "unique_rows events" "a \<in> of_loan u ''LoanApproved'' events l" "of_loan u ''LoanRepaid'' events l \<noteq> {}"
  shows "last_ledger (borrower_events u events) ''LoanRepaid'' l \<le> deadline (borrower_events u events) l \<longleftrightarrow>
    (\<forall>e \<in> of_loan u ''LoanRepaid'' events l. ledger e \<le> ledger a + coalesce_term a)"
proof -
  have "of_loan u ''LoanApproved'' events l = {a}"
    using assms(2) approval_unique [OF assms(1)] by (auto simp: of_loan_def)
  then have "deadline (borrower_events u events) l = ledger a + coalesce_term a"
    by (simp add: deadline_def last_ledger_def rows_of_loan)
  moreover have "finite (of_loan u ''LoanRepaid'' events l)" by (simp add: of_loan_def)
  ultimately show ?thesis using assms(3) by (simp add: last_ledger_def rows_of_loan)
qed

section \<open>Properties\<close>


text \<open>(C31) The breakdown counts loans: of the loans of the borrower that were approved and have repayments, those whose every
  repayment came within the term of the approval are on time and the others are late, and the requested and the defaulted
  loans are counted once each.\<close>

theorem score_breakdown_counts:
  assumes "unique_rows events" "map_of tbl u = Some score"
  shows "\<exists>r. breakdown_summary tbl events u = Some r \<and> current_score r = score \<and>
    on_time_count r = card {l. \<exists>a \<in> of_loan u ''LoanApproved'' events l. of_loan u ''LoanRepaid'' events l \<noteq> {} \<and>
      (\<forall>e \<in> of_loan u ''LoanRepaid'' events l. ledger e \<le> ledger a + coalesce_term a)} \<and>
    late_count r = card {l. \<exists>a \<in> of_loan u ''LoanApproved'' events l.
      \<exists>e \<in> of_loan u ''LoanRepaid'' events l. ledger a + coalesce_term a < ledger e} \<and>
    total_loans r = card {l. of_loan u ''LoanRequested'' events l \<noteq> {}} \<and>
    defaulted_count r = card {l. of_loan u ''LoanDefaulted'' events l \<noteq> {}}"
proof -
  let ?evs = "borrower_events u events"
  let ?on = "\<lambda>l. last_ledger ?evs ''LoanRepaid'' l \<le> deadline ?evs l"
  let ?both = "\<lambda>P. {l \<in> set (loans_with ''LoanRepaid'' ?evs). l \<in> set (loans_with ''LoanApproved'' ?evs) \<and> P (?on l)}"
  have "?both (\<lambda>b. b) = {l. \<exists>a \<in> of_loan u ''LoanApproved'' events l. of_loan u ''LoanRepaid'' events l \<noteq> {} \<and>
      (\<forall>e \<in> of_loan u ''LoanRepaid'' events l. ledger e \<le> ledger a + coalesce_term a)}"
    using on_time_iff [OF assms(1)] by (auto simp: loans_with_set) blast+
  moreover have "?both Not = {l. \<exists>a \<in> of_loan u ''LoanApproved'' events l.
      \<exists>e \<in> of_loan u ''LoanRepaid'' events l. ledger a + coalesce_term a < ledger e}"
    using on_time_iff [OF assms(1)] by (auto simp: loans_with_set not_le) (metis empty_iff not_le)+
  moreover have "length (loans_with t ?evs) = card {l. of_loan u t events l \<noteq> {}}" for t
    by (simp add: distinct_card [OF loans_with_distinct, symmetric] loans_with_set [symmetric])
  ultimately show ?thesis
    using assms(2) count_timing [of "\<lambda>b. b" ?evs] count_timing [of Not ?evs]
    unfolding breakdown_summary_def Let_def by simp
qed

text \<open>The timeline of a borrower: one entry for each repayment and default, in the order of time, every score between 300 and
  850; the longest streak is the greatest number of repayments in a row and the current one the number of repayments since
  the last default.\<close>

theorem score_timeline:
  "let h = history_from 500 (history_rows u events) in
     map hEvent h = map event_type (history_rows u events) \<and> sorted (map ledger_closed_at (history_rows u events)) \<and>
     (\<forall>i. i < length h \<longrightarrow> 300 \<le> hScore (h ! i) \<and> hScore (h ! i) \<le> 850) \<and>
     has_run repaid_item (fst (streaks 0 0 h)) h \<and> (\<forall>n. has_run repaid_item n h \<longrightarrow> n \<le> fst (streaks 0 0 h)) \<and>
     snd (streaks 0 0 h) = length (takeWhile repaid_item (rev h))"
proof -
  let ?h = "history_from 500 (history_rows u events)"
  obtain l t where s: "streaks 0 0 ?h = (l, t)" by (cases "streaks 0 0 ?h")
  have b: "\<forall>h \<in> set ?h. 300 \<le> hScore h \<and> hScore h \<le> 850" by (rule history_bounds) simp_all
  have "300 \<le> hScore (?h ! i) \<and> hScore (?h ! i) \<le> 850" if "i < length ?h" for i
    using b that by simp
  moreover have "sorted (map ledger_closed_at (history_rows u events))" by (simp add: history_rows_def)
  ultimately show ?thesis using streaks_spec [OF s] history_events unfolding Let_def s by simp
qed

text \<open>Who has no row in \<open>scores\<close> yet, as every borrower before the first repayment or default, is shown with no loans at
  all: no requested, repaid or defaulted loan is counted although the events are stored, while the timeline beside lists
  the repayments and defaults among them.\<close>

theorem unscored_borrower_shown_empty:
  assumes "map_of tbl u = None"
  shows "\<exists>l c h. breakdown_data tbl events u =
    [(''userId'', JStr u), (''score'', JNum 500), (''band'', JStr ''Poor''),
     (''breakdown'', JObj [(''totalLoans'', JNum 0), (''repaidOnTime'', JNum 0), (''repaidLate'', JNum 0), (''defaulted'', JNum 0),
        (''totalRepaid'', JNum 0), (''averageRepaymentTime'', JStr ''N/A''), (''longestStreak'', JNum (int l)), (''currentStreak'', JNum (int c))]),
     (''history'', JArr h)] \<and> length h = length (filter (\<lambda>e. address e = Some u \<and> event_type e \<in> {''LoanRepaid'', ''LoanDefaulted''}) events)"
proof -
  have z: "number_json (double_of_int 0) = JNum 0" using double_of_int_small [of 0] by (simp add: number_json_def)
  have "length (history_from 500 (history_rows u events)) = length (map event_type (history_rows u events))"
    using history_events [of 500 "history_rows u events"] by (metis length_map)
  then show ?thesis using assms
    by (cases "streaks 0 0 (history_from 500 (history_rows u events))")
      (simp add: breakdown_data_def breakdown_summary_def of_row_def Let_def getCreditBand_def averageRepaymentTime_def z history_rows_def)
qed

text \<open>An update of a score leaves the cached breakdown as it was: for the rest of its five minutes the breakdown repeats the
  old score and band, while the score itself is already the new one.\<close>

theorem breakdown_outlives_update:
  assumes "redis_server R view" "coherent view s" "held view t (breakdown_key u) (score_cache s) = None" "t \<le> t2" "t2 < t + 300000"
    and "getScoreBreakdown R Up Up True t events u s = (Inr old, s1)" "updateScore R Up True u amt onTime s1 = (Inr answer, s2)"
  shows "fst (getScoreBreakdown R Up Up True t2 events' u s2) = Inr old \<and>
    field ''score'' old = Some (JNum (let n = stored_score (scores s) u in if n = 0 then 500 else n)) \<and>
    (\<exists>new. fst (getScore R Up Up True t2 u s2) = Inr new \<and>
       field ''score'' new = Some (JNum (stored_score (upsert_score u (if onTime then 15 else - 30) (scores s)) u)))"
proof -
  obtain c1 where g: "cache_get R Up t (breakdown_key u) (score_cache s) = (None, c1)"
    using get_held [OF assms(1), of Up t "breakdown_key u" "score_cache s"] assms(3) by (metis prod.collapse)
  let ?data = "breakdown_data (scores s) events u"
  have f: "old = JObj ((''success'', JBool True) # ?data)" "scores s1 = scores s"
    "score_cache s1 = cache_set R Up t (breakdown_key u) (JObj ?data) 300 c1"
    using assms(6) by (auto simp: getScoreBreakdown_def g Let_def)
  have s2: "scores s2 = upsert_score u (if onTime then 15 else - 30) (scores s)" "score_cache s2 = cache_delete R Up (score_key u) (score_cache s1)"
    using assms(7) f(2) by (auto simp: updateScore_def Let_def ON_TIME_DELTA_def LATE_DELTA_def)
  have h: "held view t2 (breakdown_key u) (score_cache s2) = Some (JObj ?data)"
    using assms(5) by (simp add: s2 f(3) held_delete [OF assms(1)] held_set [OF assms(1)])
  obtain c2 where g2: "cache_get R Up t2 (breakdown_key u) (score_cache s2) = (Some (JObj ?data), c2)"
    using get_held [OF assms(1), of Up t2 "breakdown_key u" "score_cache s2"] h by (metis prod.collapse)
  have "fst (getScoreBreakdown R Up Up True t2 events' u s2) = Inr old"
    by (simp add: getScoreBreakdown_def g2 f(1) spread_def Let_def)
  moreover have "field ''score'' old = Some (JNum (let n = stored_score (scores s) u in if n = 0 then 500 else n))"
    unfolding f(1) breakdown_data_def
    by (cases "streaks 0 0 (history_from 500 (history_rows u events))")
      (simp add: field_def of_row_def breakdown_summary_def stored_score_def Let_def split: option.split)
  moreover have "coherent view s2"
  proof -
    have "coherent view (snd (getScoreBreakdown R Up Up True t events u s))"
      using run_score_op_coherent [OF assms(1,2), of "ReadBreakdown Up Up True t events u"] by (simp add: run_score_op_def)
    then have "coherent view s1" using assms(6) by simp
    then show ?thesis using run_score_op_coherent [OF assms(1), of s1 "UpdateScore True u amt onTime"] assms(7) by (simp add: run_score_op_def)
  qed
  then have "fst (getScore R Up Up True t2 u s2) =
      Inr (score_answer u (Some (JNum (stored_score (scores s2) u))) (Some (JStr (getCreditBand (stored_score (scores s2) u)))))"
    by (rule getScore_coherent(3) [OF assms(1)]) simp
  moreover have "field ''score'' (score_answer u (Some x) y) = Some x" for x y
    by (cases y) (simp_all add: score_answer_def field_def List.map_filter_def)
  ultimately show ?thesis using s2(1) by simp
qed

section \<open>A concrete borrower\<close>

definition demo_event :: "string \<Rightarrow> string \<Rightarrow> int \<Rightarrow> event_row" where
  "demo_event i t l = \<lparr>event_id = i, event_type = t, loan_id = Some 1, address = Some ''GB'', amount = Some 50, ledger = l,
     ledger_closed_at = 1000 * l, tx_hash = ''h'', contract_id = ''C'', interest_rate_bps = None, term_ledgers = Some 90\<rparr>"

definition demo_events :: "event_row list" where
  "demo_events = [demo_event ''e1'' ''LoanApproved'' 10, demo_event ''e2'' ''LoanRepaid'' 60, demo_event ''e3'' ''LoanRepaid'' 80]"

definition demo_score_sys :: "mem_state score_sys" where
  "demo_score_sys = \<lparr>scores = [(''GB'', 600)], score_cache = \<lparr>client = (\<lambda>_. None), isConnected = True\<rparr>\<rparr>"

lemma demo_scores_coherent: "coherent mem_view demo_score_sys"
  by (simp add: coherent_def demo_score_sys_def held_def mem_view_def)

lemma demo_loan_unique: "unique_rows demo_events"
  by (simp add: unique_rows_def demo_events_def demo_event_def conflicts_def less_Suc_eq numeral_2_eq_2)


theorem score_breakdown_counts_witness:
  "\<exists>r. breakdown_summary [(''GB'', 600)] demo_events ''GB'' = Some r \<and> current_score r = 600"
  using score_breakdown_counts [OF demo_loan_unique, of "[(''GB'', 600)]" "''GB''" 600] by auto

theorem score_timeline_witness:
  "fst (streaks 0 0 (history_from 500 (history_rows ''GB'' demo_events))) = 2 \<and>
   has_run repaid_item 2 (history_from 500 (history_rows ''GB'' demo_events))"
proof -
  have "fst (streaks 0 0 (history_from 500 (history_rows ''GB'' demo_events))) = 2"
    by (simp add: history_rows_def demo_events_def demo_event_def Let_def)
  then show ?thesis using score_timeline [of "''GB''" demo_events] unfolding Let_def by simp
qed

theorem unscored_borrower_shown_empty_witness:
  "\<exists>h. field ''history'' (JObj (breakdown_data [] demo_events ''GB'')) = Some (JArr h) \<and> length h = 2"
proof -
  have "length (filter (\<lambda>e. address e = Some ''GB'' \<and> event_type e \<in> {''LoanRepaid'', ''LoanDefaulted''}) demo_events) = 2"
    by (simp add: demo_events_def demo_event_def)
  then show ?thesis using unscored_borrower_shown_empty [of "[]" "''GB''" demo_events] by (auto simp: field_def)
qed

theorem breakdown_outlives_update_witness:
  "\<exists>old s1 answer s2 new.
     getScoreBreakdown mem_redis Up Up True 0 demo_events ''GB'' demo_score_sys = (Inr old, s1) \<and>
     updateScore mem_redis Up True ''GB'' (JNum 50) True s1 = (Inr answer, s2) \<and>
     fst (getScoreBreakdown mem_redis Up Up True 1000 demo_events ''GB'' s2) = Inr old \<and> field ''score'' old = Some (JNum 600) \<and>
     fst (getScore mem_redis Up Up True 1000 ''GB'' s2) = Inr new \<and> field ''score'' new = Some (JNum 615)"
proof -
  have h: "held mem_view 0 (breakdown_key ''GB'') (score_cache demo_score_sys) = None"
    by (simp add: demo_score_sys_def held_def mem_view_def)
  then obtain c where "cache_get mem_redis Up 0 (breakdown_key ''GB'') (score_cache demo_score_sys) = (None, c)"
    using get_held [OF redis_server_mem, of Up 0 "breakdown_key ''GB''" "score_cache demo_score_sys"] by (metis prod.collapse)
  then obtain old s1 where 1: "getScoreBreakdown mem_redis Up Up True 0 demo_events ''GB'' demo_score_sys = (Inr old, s1)"
    by (auto simp: getScoreBreakdown_def Let_def split: prod.splits)
  obtain answer s2 where 2: "updateScore mem_redis Up True ''GB'' (JNum 50) True s1 = (Inr answer, s2)"
    by (auto simp: updateScore_def Let_def)
  have "stored_score (scores demo_score_sys) ''GB'' = 600" "stored_score (upsert_score ''GB'' 15 (scores demo_score_sys)) ''GB'' = 615"
    by (simp_all add: stored_score_def upsert_score_def demo_score_sys_def clamp_def)
  then show ?thesis
    using breakdown_outlives_update [OF redis_server_mem demo_scores_coherent h _ _ 1 2, of 1000 demo_events] 1 2 by auto
qed

end
