(* ===== verification/ErrorCodes.thy ===== *)
theory ErrorCodes
  imports AppErrors Json
begin

text \<open>
  Errors from the place that raises them to the answer: the codes and their registry in
  \<open>src/backend/src/errors/errorCodes.ts\<close>, the class of \<open>AppError.ts\<close> with all its fields, \<open>asyncHandler\<close> and the middleware
  \<open>errorHandler\<close>, and the messages of the browser (\<open>src/frontend/src/app/utils/transactionErrors.ts\<close>). The other
  theories use the shorter \<open>http_error\<close> of \<open>AppErrors\<close>, to which \<open>to_http\<close> relates the full class. What is logged is left out.
\<close>

section \<open>Codes\<close>

datatype error_code =
    INVALID_AMOUNT | INVALID_PUBLIC_KEY | INVALID_SIGNATURE | INVALID_CHALLENGE
  | MISSING_FIELD | VALIDATION_ERROR | UNAUTHORIZED | TOKEN_EXPIRED
  | TOKEN_INVALID | CHALLENGE_EXPIRED | FORBIDDEN | ACCESS_DENIED
  | NOT_FOUND | LOAN_NOT_FOUND | USER_NOT_FOUND | POOL_NOT_FOUND
  | CONFLICT | DUPLICATE_REQUEST | RATE_LIMIT_EXCEEDED | INTERNAL_ERROR
  | DATABASE_ERROR | EXTERNAL_SERVICE_ERROR | BLOCKCHAIN_ERROR | SERVICE_UNAVAILABLE
  | BORROWER_MISMATCH | INSUFFICIENT_BALANCE | LOAN_ALREADY_REPAID | LOAN_NOT_ACTIVE
  | INVALID_LOAN_ID | INVALID_TX_XDR

primrec code_text :: "error_code \<Rightarrow> string" where
  "code_text INVALID_AMOUNT = ''INVALID_AMOUNT''"
| "code_text INVALID_PUBLIC_KEY = ''INVALID_PUBLIC_KEY''"
| "code_text INVALID_SIGNATURE = ''INVALID_SIGNATURE''"
| "code_text INVALID_CHALLENGE = ''INVALID_CHALLENGE''"
| "code_text MISSING_FIELD = ''MISSING_FIELD''"
| "code_text VALIDATION_ERROR = ''VALIDATION_ERROR''"
| "code_text UNAUTHORIZED = ''UNAUTHORIZED''"
| "code_text TOKEN_EXPIRED = ''TOKEN_EXPIRED''"
| "code_text TOKEN_INVALID = ''TOKEN_INVALID''"
| "code_text CHALLENGE_EXPIRED = ''CHALLENGE_EXPIRED''"
| "code_text FORBIDDEN = ''FORBIDDEN''"
| "code_text ACCESS_DENIED = ''ACCESS_DENIED''"
| "code_text NOT_FOUND = ''NOT_FOUND''"
| "code_text LOAN_NOT_FOUND = ''LOAN_NOT_FOUND''"
| "code_text USER_NOT_FOUND = ''USER_NOT_FOUND''"
| "code_text POOL_NOT_FOUND = ''POOL_NOT_FOUND''"
| "code_text CONFLICT = ''CONFLICT''"
| "code_text DUPLICATE_REQUEST = ''DUPLICATE_REQUEST''"
| "code_text RATE_LIMIT_EXCEEDED = ''RATE_LIMIT_EXCEEDED''"
| "code_text INTERNAL_ERROR = ''INTERNAL_ERROR''"
| "code_text DATABASE_ERROR = ''DATABASE_ERROR''"
| "code_text EXTERNAL_SERVICE_ERROR = ''EXTERNAL_SERVICE_ERROR''"
| "code_text BLOCKCHAIN_ERROR = ''BLOCKCHAIN_ERROR''"
| "code_text SERVICE_UNAVAILABLE = ''SERVICE_UNAVAILABLE''"
| "code_text BORROWER_MISMATCH = ''BORROWER_MISMATCH''"
| "code_text INSUFFICIENT_BALANCE = ''INSUFFICIENT_BALANCE''"
| "code_text LOAN_ALREADY_REPAID = ''LOAN_ALREADY_REPAID''"
| "code_text LOAN_NOT_ACTIVE = ''LOAN_NOT_ACTIVE''"
| "code_text INVALID_LOAN_ID = ''INVALID_LOAN_ID''"
| "code_text INVALID_TX_XDR = ''INVALID_TX_XDR''"

record error_metadata =
  md_code :: error_code
  md_message :: string
  httpStatus :: nat
  description :: string
  suggestedAction :: "string option"

primrec ERROR_CODE_REGISTRY :: "error_code \<Rightarrow> error_metadata" where
  "ERROR_CODE_REGISTRY INVALID_AMOUNT =
     \<lparr>md_code = INVALID_AMOUNT, md_message = ''Amount must be a positive number'', httpStatus = 400,
      description = ''The provided amount is invalid or not a positive number'', suggestedAction = Some ''Provide a valid positive number for the amount field''\<rparr>"
| "ERROR_CODE_REGISTRY INVALID_PUBLIC_KEY =
     \<lparr>md_code = INVALID_PUBLIC_KEY, md_message = ''Invalid Stellar public key'', httpStatus = 400,
      description = ''The provided Stellar public key format is invalid'', suggestedAction = Some ''Provide a valid Stellar public key (starts with 'G')''\<rparr>"
| "ERROR_CODE_REGISTRY INVALID_SIGNATURE =
     \<lparr>md_code = INVALID_SIGNATURE, md_message = ''Invalid signature'', httpStatus = 400,
      description = ''The provided cryptographic signature is invalid'', suggestedAction = Some ''Sign the challenge message with your wallet and retry''\<rparr>"
| "ERROR_CODE_REGISTRY INVALID_CHALLENGE =
     \<lparr>md_code = INVALID_CHALLENGE, md_message = ''Invalid challenge format'', httpStatus = 400,
      description = ''The challenge message format is invalid'', suggestedAction = Some ''Request a new challenge and retry''\<rparr>"
| "ERROR_CODE_REGISTRY MISSING_FIELD =
     \<lparr>md_code = MISSING_FIELD, md_message = ''Required field is missing'', httpStatus = 400,
      description = ''A required field was not provided in the request'', suggestedAction = Some ''Check the request body and include all required fields''\<rparr>"
| "ERROR_CODE_REGISTRY VALIDATION_ERROR =
     \<lparr>md_code = VALIDATION_ERROR, md_message = ''Validation failed'', httpStatus = 400,
      description = ''Request validation failed'', suggestedAction = Some ''Review the validation errors and correct the input''\<rparr>"
| "ERROR_CODE_REGISTRY UNAUTHORIZED =
     \<lparr>md_code = UNAUTHORIZED, md_message = ''Unauthorized'', httpStatus = 401,
      description = ''Authentication is required to access this resource'', suggestedAction = Some ''Provide valid authentication credentials''\<rparr>"
| "ERROR_CODE_REGISTRY TOKEN_EXPIRED =
     \<lparr>md_code = TOKEN_EXPIRED, md_message = ''Token has expired'', httpStatus = 401,
      description = ''The JWT token has expired'', suggestedAction = Some ''Log in again to obtain a new token''\<rparr>"
| "ERROR_CODE_REGISTRY TOKEN_INVALID =
     \<lparr>md_code = TOKEN_INVALID, md_message = ''Invalid token'', httpStatus = 401,
      description = ''The JWT token is invalid or malformed'', suggestedAction = Some ''Log in again to obtain a new token''\<rparr>"
| "ERROR_CODE_REGISTRY CHALLENGE_EXPIRED =
     \<lparr>md_code = CHALLENGE_EXPIRED, md_message = ''Challenge has expired'', httpStatus = 401,
      description = ''The challenge message has expired (valid for 5 minutes)'', suggestedAction = Some ''Request a new challenge and sign it''\<rparr>"
| "ERROR_CODE_REGISTRY FORBIDDEN =
     \<lparr>md_code = FORBIDDEN, md_message = ''Forbidden'', httpStatus = 403,
      description = ''You do not have permission to access this resource'', suggestedAction = Some ''Ensure you have the required permissions''\<rparr>"
| "ERROR_CODE_REGISTRY ACCESS_DENIED =
     \<lparr>md_code = ACCESS_DENIED, md_message = ''Access denied'', httpStatus = 403,
      description = ''Access to this resource is denied'', suggestedAction = Some ''Contact support if you believe this is an error''\<rparr>"
| "ERROR_CODE_REGISTRY NOT_FOUND =
     \<lparr>md_code = NOT_FOUND, md_message = ''Resource not found'', httpStatus = 404,
      description = ''The requested resource does not exist'', suggestedAction = Some ''Verify the resource ID and try again''\<rparr>"
| "ERROR_CODE_REGISTRY LOAN_NOT_FOUND =
     \<lparr>md_code = LOAN_NOT_FOUND, md_message = ''Loan not found'', httpStatus = 404,
      description = ''The specified loan does not exist'', suggestedAction = Some ''Verify the loan ID and try again''\<rparr>"
| "ERROR_CODE_REGISTRY USER_NOT_FOUND =
     \<lparr>md_code = USER_NOT_FOUND, md_message = ''User not found'', httpStatus = 404,
      description = ''The specified user does not exist'', suggestedAction = Some ''Verify the user ID and try again''\<rparr>"
| "ERROR_CODE_REGISTRY POOL_NOT_FOUND =
     \<lparr>md_code = POOL_NOT_FOUND, md_message = ''Pool not found'', httpStatus = 404,
      description = ''The specified pool does not exist'', suggestedAction = Some ''Verify the pool address and try again''\<rparr>"
| "ERROR_CODE_REGISTRY CONFLICT =
     \<lparr>md_code = CONFLICT, md_message = ''Conflict'', httpStatus = 409,
      description = ''The request conflicts with the current state of the resource'', suggestedAction = Some ''Review the resource state and retry''\<rparr>"
| "ERROR_CODE_REGISTRY DUPLICATE_REQUEST =
     \<lparr>md_code = DUPLICATE_REQUEST, md_message = ''Duplicate request'', httpStatus = 409,
      description = ''This request has already been processed'', suggestedAction = Some ''Check if the operation was already completed''\<rparr>"
| "ERROR_CODE_REGISTRY RATE_LIMIT_EXCEEDED =
     \<lparr>md_code = RATE_LIMIT_EXCEEDED, md_message = ''Rate limit exceeded'', httpStatus = 429,
      description = ''Too many requests. Please try again later'', suggestedAction = Some ''Wait before making another request''\<rparr>"
| "ERROR_CODE_REGISTRY INTERNAL_ERROR =
     \<lparr>md_code = INTERNAL_ERROR, md_message = ''Internal server error'', httpStatus = 500,
      description = ''An unexpected error occurred on the server'', suggestedAction = Some ''Please try again later or contact support''\<rparr>"
| "ERROR_CODE_REGISTRY DATABASE_ERROR =
     \<lparr>md_code = DATABASE_ERROR, md_message = ''Database error'', httpStatus = 500,
      description = ''A database error occurred'', suggestedAction = Some ''Please try again later or contact support''\<rparr>"
| "ERROR_CODE_REGISTRY EXTERNAL_SERVICE_ERROR =
     \<lparr>md_code = EXTERNAL_SERVICE_ERROR, md_message = ''External service error'', httpStatus = 500,
      description = ''An external service failed to respond'', suggestedAction = Some ''Please try again later or contact support''\<rparr>"
| "ERROR_CODE_REGISTRY BLOCKCHAIN_ERROR =
     \<lparr>md_code = BLOCKCHAIN_ERROR, md_message = ''Blockchain error'', httpStatus = 500,
      description = ''A blockchain operation failed'', suggestedAction = Some ''Please try again later or contact support''\<rparr>"
| "ERROR_CODE_REGISTRY SERVICE_UNAVAILABLE =
     \<lparr>md_code = SERVICE_UNAVAILABLE, md_message = ''Service unavailable'', httpStatus = 503,
      description = ''The service is temporarily unavailable'', suggestedAction = Some ''Please try again later''\<rparr>"
| "ERROR_CODE_REGISTRY BORROWER_MISMATCH =
     \<lparr>md_code = BORROWER_MISMATCH, md_message = ''Borrower public key must match your authenticated wallet'', httpStatus = 403,
      description = ''The borrower public key does not match the authenticated user'', suggestedAction = Some ''Ensure the borrower public key matches your wallet''\<rparr>"
| "ERROR_CODE_REGISTRY INSUFFICIENT_BALANCE =
     \<lparr>md_code = INSUFFICIENT_BALANCE, md_message = ''Insufficient balance'', httpStatus = 400,
      description = ''The account has insufficient balance for this operation'', suggestedAction = Some ''Deposit more funds or reduce the amount''\<rparr>"
| "ERROR_CODE_REGISTRY LOAN_ALREADY_REPAID =
     \<lparr>md_code = LOAN_ALREADY_REPAID, md_message = ''Loan already repaid'', httpStatus = 400,
      description = ''This loan has already been fully repaid'', suggestedAction = Some ''No further action is needed for this loan''\<rparr>"
| "ERROR_CODE_REGISTRY LOAN_NOT_ACTIVE =
     \<lparr>md_code = LOAN_NOT_ACTIVE, md_message = ''Loan is not active'', httpStatus = 400,
      description = ''This loan is not in an active state'', suggestedAction = Some ''Verify the loan status and try again''\<rparr>"
| "ERROR_CODE_REGISTRY INVALID_LOAN_ID =
     \<lparr>md_code = INVALID_LOAN_ID, md_message = ''Invalid loan ID'', httpStatus = 400,
      description = ''The provided loan ID is invalid'', suggestedAction = Some ''Provide a valid numeric loan ID''\<rparr>"
| "ERROR_CODE_REGISTRY INVALID_TX_XDR =
     \<lparr>md_code = INVALID_TX_XDR, md_message = ''Invalid transaction XDR'', httpStatus = 400,
      description = ''The provided transaction XDR is invalid or malformed'', suggestedAction = Some ''Provide a valid signed transaction XDR''\<rparr>"

definition getErrorCodeMetadata :: "error_code \<Rightarrow> error_metadata" where
  "getErrorCodeMetadata code = ERROR_CODE_REGISTRY code"

definition getDefaultErrorCodeForStatus :: "nat \<Rightarrow> error_code" where
  "getDefaultErrorCodeForStatus status =
     (if status = 400 then VALIDATION_ERROR
      else if status = 401 then UNAUTHORIZED
      else if status = 403 then FORBIDDEN
      else if status = 404 then NOT_FOUND
      else if status = 409 then CONFLICT
      else if status = 429 then RATE_LIMIT_EXCEEDED
      else if status = 503 then SERVICE_UNAVAILABLE
      else INTERNAL_ERROR)"

definition ERROR_CODE_MESSAGES :: "(string \<times> string) list" where
  "ERROR_CODE_MESSAGES =
     [(''INVALID_AMOUNT'', ''Amount must be a positive number''),
      (''INVALID_PUBLIC_KEY'', ''Invalid Stellar public key''),
      (''INVALID_SIGNATURE'', ''Invalid cryptographic signature''),
      (''INVALID_CHALLENGE'', ''Invalid challenge format''),
      (''MISSING_FIELD'', ''Required field is missing''),
      (''VALIDATION_ERROR'', ''Validation failed''),
      (''UNAUTHORIZED'', ''Unauthorized access''),
      (''TOKEN_EXPIRED'', ''Session token has expired''),
      (''TOKEN_INVALID'', ''Invalid session token''),
      (''CHALLENGE_EXPIRED'', ''Authentication challenge has expired''),
      (''FORBIDDEN'', ''Forbidden access''),
      (''ACCESS_DENIED'', ''Access to resource denied''),
      (''NOT_FOUND'', ''Resource not found''),
      (''LOAN_NOT_FOUND'', ''Loan not found''),
      (''USER_NOT_FOUND'', ''User account not found''),
      (''POOL_NOT_FOUND'', ''Lending pool not found''),
      (''CONFLICT'', ''Resource conflict occurred''),
      (''DUPLICATE_REQUEST'', ''Duplicate request ignored''),
      (''RATE_LIMIT_EXCEEDED'', ''Rate limit exceeded. Please wait''),
      (''INTERNAL_ERROR'', ''Internal server error occurred''),
      (''DATABASE_ERROR'', ''Database error occurred''),
      (''EXTERNAL_SERVICE_ERROR'', ''External service error occurred''),
      (''BLOCKCHAIN_ERROR'', ''Blockchain operation failed''),
      (''BORROWER_MISMATCH'', ''Borrower wallet mismatch''),
      (''INSUFFICIENT_BALANCE'', ''Insufficient account balance''),
      (''LOAN_ALREADY_REPAID'', ''Loan has already been repaid''),
      (''LOAN_NOT_ACTIVE'', ''Loan is not active''),
      (''INVALID_LOAN_ID'', ''Invalid loan ID provided''),
      (''INVALID_TX_XDR'', ''Invalid transaction XDR format'')]"

section \<open>The class\<close>

record app_error =
  ae_message :: string
  ae_statusCode :: nat
  ae_status :: string
  isOperational :: bool
  errorCode :: error_code
  ae_field :: "string option"
  details :: "json option"

definition new_AppError :: "string \<Rightarrow> nat \<Rightarrow> bool \<Rightarrow> error_code option \<Rightarrow> string option \<Rightarrow> json option \<Rightarrow> app_error" where
  "new_AppError msg code operational ec fld det =
     \<lparr>ae_message = msg, ae_statusCode = code, ae_status = (if code \<ge> 400 \<and> code < 500 then ''fail'' else ''error''),
      isOperational = operational, errorCode = (case ec of None \<Rightarrow> getDefaultErrorCodeForStatus code | Some c \<Rightarrow> c),
      ae_field = fld, details = det\<rparr>"

definition default_code :: "error_code \<Rightarrow> error_code option \<Rightarrow> error_code option" where
  "default_code d ec = (case ec of None \<Rightarrow> Some d | Some c \<Rightarrow> Some c)"

definition AppError_badRequest :: "string \<Rightarrow> error_code option \<Rightarrow> string option \<Rightarrow> app_error" where
  "AppError_badRequest m ec fld = new_AppError m 400 True (default_code INVALID_AMOUNT ec) fld None"

definition AppError_unauthorized :: "string \<Rightarrow> error_code option \<Rightarrow> app_error" where
  "AppError_unauthorized m ec = new_AppError m 401 True (default_code UNAUTHORIZED ec) None None"

definition AppError_forbidden :: "string \<Rightarrow> error_code option \<Rightarrow> app_error" where
  "AppError_forbidden m ec = new_AppError m 403 True (default_code FORBIDDEN ec) None None"

definition AppError_notFound :: "string \<Rightarrow> error_code option \<Rightarrow> string option \<Rightarrow> app_error" where
  "AppError_notFound m ec fld = new_AppError m 404 True (default_code NOT_FOUND ec) fld None"

definition AppError_conflict :: "string \<Rightarrow> error_code option \<Rightarrow> app_error" where
  "AppError_conflict m ec = new_AppError m 409 True (default_code CONFLICT ec) None None"

definition AppError_internal :: "string \<Rightarrow> error_code option \<Rightarrow> app_error" where
  "AppError_internal m ec = new_AppError m 500 False (default_code INTERNAL_ERROR ec) None None"

definition AppError_serviceUnavailable :: "string \<Rightarrow> error_code option \<Rightarrow> app_error" where
  "AppError_serviceUnavailable m ec = new_AppError m 503 True (default_code SERVICE_UNAVAILABLE ec) None None"

definition AppError_validation :: "string \<Rightarrow> string option \<Rightarrow> json option \<Rightarrow> app_error" where
  "AppError_validation m fld det = new_AppError m 400 True (Some VALIDATION_ERROR) fld det"

definition AppError_withCode :: "error_code \<Rightarrow> string option \<Rightarrow> string option \<Rightarrow> json option \<Rightarrow> app_error" where
  "AppError_withCode ec m fld det =
     (let metadata = ERROR_CODE_REGISTRY ec
      in new_AppError (case m of None \<Rightarrow> md_message metadata | Some x \<Rightarrow> x) (httpStatus metadata) True (Some ec) fld det)"

definition to_http :: "app_error \<Rightarrow> http_error" where
  "to_http e = AppError (ae_statusCode e) (ae_message e) (code_text (errorCode e)) (ae_field e)"

section \<open>The middleware\<close>

record zod_issue =
  issue_path :: "string list"
  issue_message :: string
  issue_code :: string

text \<open>A plain \<open>Error\<close> may carry a \<open>type\<close>, as those of the body parser do.\<close>

record plain_error =
  pe_message :: string
  pe_stack :: "string option"
  pe_type :: "string option"

datatype caught = ZodError "zod_issue list" | Known app_error | Plain plain_error

text \<open>What a handler throws or its promise is rejected with: an \<open>Error\<close>, or something else with its text.\<close>

datatype rejection = RejectedWith caught | NonError string

definition normalizeError :: "string option \<Rightarrow> rejection \<Rightarrow> caught" where
  "normalizeError stack r =
     (case r of
        RejectedWith e \<Rightarrow> e
      | NonError text \<Rightarrow> Plain \<lparr>pe_message = ''Non-Error rejection: '' @ text, pe_stack = stack, pe_type = None\<rparr>)"

definition object :: "(string \<times> json option) list \<Rightarrow> json" where
  "object kvs = JObj (List.map_filter (\<lambda>(k, v). map_option (Pair k) v) kvs)"

definition zod_answer :: "zod_issue list \<Rightarrow> json" where
  "zod_answer issues =
     object
       [(''success'', Some (JBool False)), (''message'', Some (JStr ''Validation failed'')),
        (''errors'', Some (JArr (map (\<lambda>i. JObj [(''path'', JStr (js_join ''.'' (issue_path i))), (''message'', JStr (issue_message i))]) issues))),
        (''error'', Some (object
          [(''code'', Some (JStr (code_text VALIDATION_ERROR))), (''message'', Some (JStr ''Validation failed'')),
           (''field'', case issues of [] \<Rightarrow> None | i # is \<Rightarrow> Some (JStr (js_join ''.'' (issue_path i)))),
           (''details'', Some (JArr (map (\<lambda>i. JObj [(''field'', JStr (js_join ''.'' (issue_path i))), (''message'', JStr (issue_message i)),
              (''code'', JStr (issue_code i))]) issues)))]))]"

definition app_answer :: "app_error \<Rightarrow> json" where
  "app_answer e =
     (let m = JStr (if isOperational e then ae_message e else ''Internal server error''); fld = map_option JStr (env_set (ae_field e)) in
      object
        [(''success'', Some (JBool False)), (''message'', Some m),
         (''error'', Some (object [(''code'', Some (JStr (code_text (errorCode e)))), (''message'', Some m), (''field'', fld), (''details'', details e)])),
         (''field'', fld)])"

definition errorHandler :: "string option \<Rightarrow> string option \<Rightarrow> caught \<Rightarrow> nat \<times> json" where
  "errorHandler nodeEnv exposeStackTraces err =
     (case err of
        ZodError issues \<Rightarrow> (400, zod_answer issues)
      | Known e \<Rightarrow> (ae_statusCode e, app_answer e)
      | Plain e \<Rightarrow>
          if pe_type e = Some ''entity.too.large'' then
            (413, JObj [(''success'', JBool False), (''message'', JStr ''Request payload too large''),
               (''error'', JObj [(''code'', JStr (code_text VALIDATION_ERROR)), (''message'', JStr ''Request payload too large'')])])
          else
            (500, object
              [(''success'', Some (JBool False)), (''message'', Some (JStr ''Internal server error'')),
               (''error'', Some (JObj [(''code'', JStr (code_text INTERNAL_ERROR)), (''message'', JStr ''Internal server error'')])),
               (''stack'', if nodeEnv = Some ''development'' \<and> exposeStackTraces = Some ''true'' then map_option JStr (pe_stack e) else None)]))"

section \<open>Lemmas\<close>

text \<open>The factories of the shorter class are those of the full one.\<close>

lemmas factory_defs = AppError_badRequest_def AppError_unauthorized_def AppError_forbidden_def AppError_notFound_def AppError_conflict_def
  AppError_internal_def AppError_serviceUnavailable_def AppError_validation_def AppError_withCode_def new_AppError_def default_code_def

lemma to_http_factories:
  "to_http (AppError_badRequest m ec fld) = badRequest m (map_option code_text ec) fld"
  "to_http (AppError_unauthorized m ec) = unauthorized m (map_option code_text ec)"
  "to_http (AppError_forbidden m ec) = forbidden m (map_option code_text ec)"
  "to_http (AppError_notFound m ec fld) = notFound m (map_option code_text ec) fld"
  "to_http (AppError_conflict m ec) = conflict m (map_option code_text ec)"
  "to_http (AppError_internal m ec) = internal m (map_option code_text ec)"
  "to_http (AppError_serviceUnavailable m ec) = serviceUnavailable m (map_option code_text ec)"
  by (cases ec; simp add: to_http_def factory_defs app_error_defs)+

lemma field_object: "field k (object ((k', v) # kvs)) = (if k = k' \<and> v \<noteq> None then v else field k (object kvs))"
  by (cases v) (auto simp: field_def object_def List.map_filter_def)

section \<open>Properties\<close>

text \<open>Every error is answered with \<open>success: false\<close>, with a code of the enumeration and with the same message in the old and in
  the new format; and nothing internal leaks: the answer does not depend on the message of an error that is not
  operational, nor on the message or, but in development with the stack traces exposed, on the stack of an unexpected
  error.\<close>

theorem errors_leak_nothing:
  "field ''success'' (snd (errorHandler ne ex c)) = Some (JBool False) \<and>
   (\<exists>ec d. field ''error'' (snd (errorHandler ne ex c)) = Some d \<and> field ''code'' d = Some (JStr (code_text ec)) \<and>
      field ''message'' d = field ''message'' (snd (errorHandler ne ex c))) \<and>
   (\<not> isOperational e \<longrightarrow> errorHandler ne ex (Known (e\<lparr>ae_message := m\<rparr>)) = errorHandler ne ex (Known e)) \<and>
   (ne \<noteq> Some ''development'' \<or> ex \<noteq> Some ''true'' \<longrightarrow>
      errorHandler ne ex (normalizeError st (NonError m)) = errorHandler ne ex (Plain \<lparr>pe_message = m', pe_stack = None, pe_type = None\<rparr>))"
proof (intro conjI)
  note fo = errorHandler_def zod_answer_def app_answer_def field_object Let_def
  have fj: "field k (JObj ((k', v) # kvs)) = (if k = k' then Some v else field k (JObj kvs))" for k k' v kvs by (simp add: field_def)
  show "field ''success'' (snd (errorHandler ne ex c)) = Some (JBool False)"
    by (cases c) (simp_all add: fo fj)
  show "\<exists>ec d. field ''error'' (snd (errorHandler ne ex c)) = Some d \<and> field ''code'' d = Some (JStr (code_text ec)) \<and>
      field ''message'' d = field ''message'' (snd (errorHandler ne ex c))"
  proof (cases c)
    case (ZodError issues)
    then show ?thesis by (intro exI [of _ VALIDATION_ERROR]) (simp add: fo)
  next
    case (Known a)
    then show ?thesis by (intro exI [of _ "errorCode a"]) (simp add: fo)
  next
    case (Plain p)
    then show ?thesis
      by (cases "pe_type p = Some ''entity.too.large''"; intro exI [of _ "if pe_type p = Some ''entity.too.large'' then VALIDATION_ERROR else INTERNAL_ERROR"])
        (simp_all add: fo fj)
  qed
  show "\<not> isOperational e \<longrightarrow> errorHandler ne ex (Known (e\<lparr>ae_message := m\<rparr>)) = errorHandler ne ex (Known e)"
    by (simp add: errorHandler_def app_answer_def)
  show "ne \<noteq> Some ''development'' \<or> ex \<noteq> Some ''true'' \<longrightarrow>
      errorHandler ne ex (normalizeError st (NonError m)) = errorHandler ne ex (Plain \<lparr>pe_message = m', pe_stack = None, pe_type = None\<rparr>)"
    by (auto simp: errorHandler_def normalizeError_def object_def)
qed

text \<open>The tables agree: the registry holds each code under itself, \<open>withCode\<close> answers with the registered status, the default
  code of a registered status is registered with that status, and the browser has a message for every code but
  \<open>SERVICE_UNAVAILABLE\<close>.\<close>

theorem error_tables_agree:
  "md_code (getErrorCodeMetadata c) = c \<and> ae_statusCode (AppError_withCode c m fld det) = httpStatus (getErrorCodeMetadata c) \<and>
   httpStatus (getErrorCodeMetadata (getDefaultErrorCodeForStatus (httpStatus (getErrorCodeMetadata c)))) = httpStatus (getErrorCodeMetadata c) \<and>
   (map_of ERROR_CODE_MESSAGES (code_text c) = None \<longleftrightarrow> c = SERVICE_UNAVAILABLE)"
proof (intro conjI)
  show "md_code (getErrorCodeMetadata c) = c" by (cases c) (simp_all add: getErrorCodeMetadata_def)
  show "ae_statusCode (AppError_withCode c m fld det) = httpStatus (getErrorCodeMetadata c)"
    by (simp add: AppError_withCode_def new_AppError_def getErrorCodeMetadata_def Let_def)
  show "httpStatus (getErrorCodeMetadata (getDefaultErrorCodeForStatus (httpStatus (getErrorCodeMetadata c)))) = httpStatus (getErrorCodeMetadata c)"
    by (cases c) (simp_all add: getErrorCodeMetadata_def getDefaultErrorCodeForStatus_def)
  show "map_of ERROR_CODE_MESSAGES (code_text c) = None \<longleftrightarrow> c = SERVICE_UNAVAILABLE"
    by (cases c) (simp_all add: ERROR_CODE_MESSAGES_def)
qed

section \<open>A concrete error\<close>

theorem errors_leak_nothing_witness:
  "errorHandler (Some ''production'') None (Known (AppError_internal ''password of the pool'' None)) =
     errorHandler (Some ''production'') None (Known (AppError_internal [] None))"
  using errors_leak_nothing [of "Some ''production''" None "ZodError []" "AppError_internal [] None" "''password of the pool''" None "[]"]
  by (simp add: factory_defs)

end
