(* ===== verification/Gamification.thy ===== *)
theory Gamification
  imports Complex_Main Runs
begin

text \<open>
  The store of the kingdom in the browser, \<open>src/frontend/src/app/stores/useGamificationStore.ts\<close>: levels, achievements and
  settings. Numbers that need not be whole are rationals; the icons of the achievements are left out, and \<open>now\<close> is the
  text of the moment of a call.
\<close>

section \<open>Levels\<close>

datatype KingdomLevel = Peasant | Merchant | Knight | Baron | Duke | Prince | King

record LevelUpReward =
  lu_level :: int
  lu_title :: KingdomLevel
  xpRequired :: int
  rewards :: "string list"

definition LEVEL_THRESHOLDS :: "LevelUpReward list" where
  "LEVEL_THRESHOLDS =
     [\<lparr>lu_level = 1, lu_title = Peasant, xpRequired = 0, rewards = [''Welcome to the Kingdom!'']\<rparr>,
      \<lparr>lu_level = 2, lu_title = Merchant, xpRequired = 100, rewards = [''Unlock basic trading'', ''5% fee discount'']\<rparr>,
      \<lparr>lu_level = 3, lu_title = Knight, xpRequired = 300, rewards = [''Priority loan processing'', ''10% fee discount'']\<rparr>,
      \<lparr>lu_level = 4, lu_title = Baron, xpRequired = 600, rewards = [''Access to premium loans'', ''15% fee discount'']\<rparr>,
      \<lparr>lu_level = 5, lu_title = Duke, xpRequired = 1000, rewards = [''VIP support'', ''20% fee discount'', ''Exclusive badges'']\<rparr>,
      \<lparr>lu_level = 6, lu_title = Prince, xpRequired = 1500, rewards = [''Governance voting rights'', ''25% fee discount'']\<rparr>,
      \<lparr>lu_level = 7, lu_title = King, xpRequired = 2500,
       rewards = [''Maximum benefits'', ''30% fee discount'', ''Kingdom crown NFT'']\<rparr>]"

definition getKingdomTitle :: "int \<Rightarrow> KingdomLevel" where
  "getKingdomTitle l = (case find (\<lambda>t. lu_level t = l) LEVEL_THRESHOLDS of None \<Rightarrow> Peasant | Some t \<Rightarrow> lu_title t)"

definition calculateLevel :: "int \<Rightarrow> int" where
  "calculateLevel xp = (case find (\<lambda>t. xp \<ge> xpRequired t) (rev LEVEL_THRESHOLDS) of None \<Rightarrow> 1 | Some t \<Rightarrow> lu_level t)"

section \<open>State\<close>

record achievement =
  ac_id :: string
  ac_title :: string
  ac_description :: string
  unlockedAt :: "string option"
  progress :: "rat option"
  maxProgress :: "rat option"

definition new_achievement :: "string \<Rightarrow> string \<Rightarrow> string \<Rightarrow> rat \<Rightarrow> achievement" where
  "new_achievement i t d m = \<lparr>ac_id = i, ac_title = t, ac_description = d, unlockedAt = None, progress = Some 0, maxProgress = Some m\<rparr>"

definition INITIAL_ACHIEVEMENTS :: "achievement list" where
  "INITIAL_ACHIEVEMENTS =
     [new_achievement ''first_loan'' ''First Steps'' ''Request your first loan'' 1,
      new_achievement ''first_repayment'' ''Trustworthy'' ''Make your first loan repayment'' 1,
      new_achievement ''perfect_score'' ''Credit Master'' ''Reach a credit score of 800+'' 800,
      new_achievement ''five_loans'' ''Experienced Borrower'' ''Complete 5 loans successfully'' 5,
      new_achievement ''early_bird'' ''Early Bird'' ''Repay a loan before the due date'' 1,
      new_achievement ''streak_master'' ''Streak Master'' ''Maintain a 10-payment streak'' 10]"

record gamification =
  level :: int
  xp :: int
  kingdomTitle :: KingdomLevel
  achievements :: "achievement list"
  soundEnabled :: bool
  animationsEnabled :: bool
  soundVolume :: rat
  showLevelUpModal :: bool
  pendingLevelUp :: "LevelUpReward option"
  recentXPGain :: "(int \<times> string \<times> ms) option"

definition initialState :: gamification where
  "initialState =
     \<lparr>level = 1, xp = 0, kingdomTitle = Peasant, achievements = INITIAL_ACHIEVEMENTS, soundEnabled = True, animationsEnabled = True,
      soundVolume = 1 / 2, showLevelUpModal = False, pendingLevelUp = None, recentXPGain = None\<rparr>"

section \<open>Operations\<close>

definition checkLevelUp :: "gamification \<Rightarrow> gamification" where
  "checkLevelUp s =
     (let newLevel = calculateLevel (xp s)
      in if newLevel > level s then
           (case find (\<lambda>t. lu_level t = newLevel) LEVEL_THRESHOLDS of
              None \<Rightarrow> s
            | Some r \<Rightarrow> s\<lparr>level := newLevel, kingdomTitle := lu_title r, showLevelUpModal := True, pendingLevelUp := Some r\<rparr>)
         else s)"

definition addXP :: "ms \<Rightarrow> int \<Rightarrow> string option \<Rightarrow> gamification \<Rightarrow> gamification" where
  "addXP now amount reason s =
     checkLevelUp (s\<lparr>xp := xp s + amount, recentXPGain := Some (amount, case reason of None \<Rightarrow> [] | Some r \<Rightarrow> r, now)\<rparr>)"

definition clearRecentXPGain :: "gamification \<Rightarrow> gamification" where
  "clearRecentXPGain s = s\<lparr>recentXPGain := None\<rparr>"

definition setLevel :: "int \<Rightarrow> gamification \<Rightarrow> gamification" where
  "setLevel l s = s\<lparr>level := l, kingdomTitle := getKingdomTitle l\<rparr>"

definition dismissLevelUp :: "gamification \<Rightarrow> gamification" where
  "dismissLevelUp s = s\<lparr>showLevelUpModal := False, pendingLevelUp := None\<rparr>"

definition unlockAchievement :: "string \<Rightarrow> string \<Rightarrow> gamification \<Rightarrow> gamification" where
  "unlockAchievement now i s =
     s\<lparr>achievements := map (\<lambda>a. if ac_id a = i then a\<lparr>unlockedAt := Some now, progress := maxProgress a\<rparr> else a) (achievements s)\<rparr>"

text \<open>An undefined or zero maximum is falsy.\<close>

definition or_else :: "rat option \<Rightarrow> rat \<Rightarrow> rat" where
  "or_else m d = (case m of None \<Rightarrow> d | Some v \<Rightarrow> if v = 0 then d else v)"

definition set_progress :: "string \<Rightarrow> rat \<Rightarrow> achievement \<Rightarrow> achievement" where
  "set_progress now p a =
     (let newProgress = min p (or_else (maxProgress a) p); isUnlocked = (newProgress \<ge> or_else (maxProgress a) 1)
      in a\<lparr>progress := Some newProgress,
           unlockedAt := (if isUnlocked \<and> (unlockedAt a = None \<or> unlockedAt a = Some []) then Some now else unlockedAt a)\<rparr>)"

definition updateAchievementProgress :: "string \<Rightarrow> string \<Rightarrow> rat \<Rightarrow> gamification \<Rightarrow> gamification" where
  "updateAchievementProgress now i p s =
     s\<lparr>achievements := map (\<lambda>a. if ac_id a = i then set_progress now p a else a) (achievements s)\<rparr>"

definition toggleSound :: "gamification \<Rightarrow> gamification" where
  "toggleSound s = s\<lparr>soundEnabled := \<not> soundEnabled s\<rparr>"

definition toggleAnimations :: "gamification \<Rightarrow> gamification" where
  "toggleAnimations s = s\<lparr>animationsEnabled := \<not> animationsEnabled s\<rparr>"

definition setSoundVolume :: "rat \<Rightarrow> gamification \<Rightarrow> gamification" where
  "setSoundVolume v s = s\<lparr>soundVolume := max 0 (min 1 v)\<rparr>"

definition resetGamification :: "gamification \<Rightarrow> gamification" where
  "resetGamification s = initialState"

record next_level =
  currentLevel :: int
  nextLevel :: int
  xpToNext :: int
  level_progress :: rat

definition getNextLevelInfo :: "int \<Rightarrow> next_level" where
  "getNextLevelInfo currentXP =
     (let cur = calculateLevel currentXP;
          have_xp = (case find (\<lambda>t. lu_level t = cur) LEVEL_THRESHOLDS of None \<Rightarrow> 0 | Some t \<Rightarrow> xpRequired t)
      in case find (\<lambda>t. lu_level t = cur + 1) LEVEL_THRESHOLDS of
           None \<Rightarrow> \<lparr>currentLevel = cur, nextLevel = cur, xpToNext = 0, level_progress = 100\<rparr>
         | Some n \<Rightarrow>
             \<lparr>currentLevel = cur, nextLevel = lu_level n, xpToNext = xpRequired n - currentXP,
              level_progress = min 100 (max 0 (of_int (currentXP - have_xp) / of_int (xpRequired n - have_xp) * 100))\<rparr>)"

section \<open>Histories\<close>

text \<open>The calls of the application; nothing calls \<open>setLevel\<close>.\<close>

datatype gami_call =
    AddXP ms int "string option" | ClearRecentXPGain | CheckLevelUp | DismissLevelUp | UnlockAchievement string string
  | UpdateAchievementProgress string string rat | ToggleSound | ToggleAnimations | SetSoundVolume rat | ResetGamification

fun gami_run :: "gami_call \<Rightarrow> gamification \<Rightarrow> gamification" where
  "gami_run (AddXP now amount reason) = addXP now amount reason"
| "gami_run ClearRecentXPGain = clearRecentXPGain"
| "gami_run CheckLevelUp = checkLevelUp"
| "gami_run DismissLevelUp = dismissLevelUp"
| "gami_run (UnlockAchievement now i) = unlockAchievement now i"
| "gami_run (UpdateAchievementProgress now i p) = updateAchievementProgress now i p"
| "gami_run ToggleSound = toggleSound"
| "gami_run ToggleAnimations = toggleAnimations"
| "gami_run (SetSoundVolume v) = setSoundVolume v"
| "gami_run ResetGamification = resetGamification"

definition achievement_ok :: "achievement \<Rightarrow> bool" where
  "achievement_ok a \<longleftrightarrow> (\<exists>p m. progress a = Some p \<and> maxProgress a = Some m \<and> 0 < m \<and> p \<le> m \<and> (p = m \<longrightarrow> unlockedAt a \<noteq> None))"

definition gami_inv :: "gamification \<Rightarrow> bool" where
  "gami_inv s \<longleftrightarrow>
     1 \<le> level s \<and> level s \<le> 7 \<and> calculateLevel (xp s) \<le> level s \<and> kingdomTitle s = getKingdomTitle (level s) \<and>
     (showLevelUpModal s \<longleftrightarrow> pendingLevelUp s \<noteq> None) \<and>
     (\<forall>r. pendingLevelUp s = Some r \<longrightarrow> r \<in> set LEVEL_THRESHOLDS \<and> lu_level r = level s \<and> lu_title r = kingdomTitle s) \<and>
     0 \<le> soundVolume s \<and> soundVolume s \<le> 1 \<and>
     map ac_id (achievements s) = map ac_id INITIAL_ACHIEVEMENTS \<and> list_all achievement_ok (achievements s)"

lemma calculateLevel_cases:
  "calculateLevel x =
     (if x \<ge> 2500 then 7 else if x \<ge> 1500 then 6 else if x \<ge> 1000 then 5 else if x \<ge> 600 then 4 else if x \<ge> 300 then 3
      else if x \<ge> 100 then 2 else 1)"
  by (simp add: calculateLevel_def LEVEL_THRESHOLDS_def)

lemma find_level:
  "1 \<le> l \<Longrightarrow> l \<le> 7 \<Longrightarrow> \<exists>r. find (\<lambda>t. lu_level t = l) LEVEL_THRESHOLDS = Some r \<and> r \<in> set LEVEL_THRESHOLDS \<and> lu_level r = l \<and>
     lu_title r = getKingdomTitle l"
  by (auto simp: LEVEL_THRESHOLDS_def getKingdomTitle_def)

lemma calculateLevel_range: "1 \<le> calculateLevel x \<and> calculateLevel x \<le> 7"
  by (simp add: calculateLevel_cases)

text \<open>All of the invariant but the relation between level and experience.\<close>

lemma checkLevelUp_inv:
  assumes "1 \<le> level s" "level s \<le> 7" "kingdomTitle s = getKingdomTitle (level s)" "showLevelUpModal s \<longleftrightarrow> pendingLevelUp s \<noteq> None"
    and "\<forall>r. pendingLevelUp s = Some r \<longrightarrow> r \<in> set LEVEL_THRESHOLDS \<and> lu_level r = level s \<and> lu_title r = kingdomTitle s"
    and "0 \<le> soundVolume s" "soundVolume s \<le> 1" "map ac_id (achievements s) = map ac_id INITIAL_ACHIEVEMENTS" "list_all achievement_ok (achievements s)"
  shows "gami_inv (checkLevelUp s)"
proof -
  obtain r where r: "find (\<lambda>t. lu_level t = calculateLevel (xp s)) LEVEL_THRESHOLDS = Some r" "r \<in> set LEVEL_THRESHOLDS"
      "lu_level r = calculateLevel (xp s)" "lu_title r = getKingdomTitle (calculateLevel (xp s))"
    using find_level calculateLevel_range by metis
  show ?thesis
  proof (cases "calculateLevel (xp s) > level s")
    case True
    then show ?thesis using assms r calculateLevel_range [of "xp s"] by (simp add: checkLevelUp_def gami_inv_def Let_def)
  next
    case False
    then show ?thesis using assms by (simp add: checkLevelUp_def gami_inv_def Let_def)
  qed
qed

lemma set_progress_ok: "achievement_ok a \<Longrightarrow> achievement_ok (set_progress now p a)"
  by (auto simp: achievement_ok_def set_progress_def or_else_def Let_def min_def)

lemma set_progress_id [simp]: "ac_id (set_progress now p a) = ac_id a"
  by (simp add: set_progress_def Let_def)

lemma list_all_map_if: "list_all P xs \<Longrightarrow> (\<And>x. P x \<Longrightarrow> P (f x)) \<Longrightarrow> list_all P (map (\<lambda>x. if b x then f x else x) xs)"
  by (auto simp: list_all_iff)

lemma initial_inv: "gami_inv initialState"
  by (simp add: gami_inv_def initialState_def getKingdomTitle_def calculateLevel_cases
      LEVEL_THRESHOLDS_def INITIAL_ACHIEVEMENTS_def new_achievement_def achievement_ok_def)

lemma gami_run_inv: "gami_inv s \<Longrightarrow> gami_inv (gami_run c s)"
proof (cases c)
  case (AddXP now amount reason)
  assume "gami_inv s"
  then show ?thesis unfolding AddXP gami_run.simps addXP_def by (intro checkLevelUp_inv) (simp_all add: gami_inv_def)
next
  case CheckLevelUp
  assume "gami_inv s"
  then show ?thesis unfolding CheckLevelUp gami_run.simps by (intro checkLevelUp_inv) (simp_all add: gami_inv_def)
next
  case (UnlockAchievement now i)
  assume a: "gami_inv s"
  have "list_all achievement_ok (map (\<lambda>a. if ac_id a = i then a\<lparr>unlockedAt := Some now, progress := maxProgress a\<rparr> else a) (achievements s))"
    using a by (intro list_all_map_if) (auto simp: gami_inv_def achievement_ok_def)
  then show ?thesis using a by (simp add: UnlockAchievement gami_inv_def unlockAchievement_def o_def if_distrib cong: if_cong)
next
  case (UpdateAchievementProgress now i p)
  assume a: "gami_inv s"
  have "list_all achievement_ok (map (\<lambda>a. if ac_id a = i then set_progress now p a else a) (achievements s))"
    using a by (intro list_all_map_if) (auto simp: gami_inv_def set_progress_ok)
  then show ?thesis using a
    by (simp add: UpdateAchievementProgress gami_inv_def updateAchievementProgress_def o_def if_distrib cong: if_cong)
next
  case ResetGamification
  show ?thesis using initial_inv by (simp add: ResetGamification resetGamification_def)
qed (auto simp: gami_inv_def clearRecentXPGain_def dismissLevelUp_def toggleSound_def toggleAnimations_def setSoundVolume_def)

interpretation kingdom: preserved gami_run gami_inv
  by unfold_locales (rule gami_run_inv)

text \<open>The experience a level asks for.\<close>

definition level_xp :: "int \<Rightarrow> int option" where
  "level_xp l = map_option xpRequired (find (\<lambda>t. lu_level t = l) LEVEL_THRESHOLDS)"

lemma level_xp_values:
  "level_xp 1 = Some 0" "level_xp 2 = Some 100" "level_xp 3 = Some 300" "level_xp 4 = Some 600" "level_xp 5 = Some 1000"
  "level_xp 6 = Some 1500" "level_xp 7 = Some 2500" "level_xp 8 = None"
  by (simp_all add: level_xp_def LEVEL_THRESHOLDS_def)

lemma next_level_at:
  assumes "calculateLevel x = l" "level_xp l = Some a" "level_xp (l + 1) = Some b" "x < b" "calculateLevel b = l + 1" "l \<noteq> 7"
  shows "let n = getNextLevelInfo x in currentLevel n = calculateLevel x \<and> 0 \<le> level_progress n \<and> level_progress n \<le> 100 \<and>
      (if currentLevel n = 7 then nextLevel n = 7 \<and> xpToNext n = 0
       else nextLevel n = currentLevel n + 1 \<and> 0 < xpToNext n \<and> calculateLevel (x + xpToNext n) = nextLevel n)"
proof -
  obtain s r where s: "find (\<lambda>t. lu_level t = l) LEVEL_THRESHOLDS = Some s" "xpRequired s = a"
    and r: "find (\<lambda>t. lu_level t = l + 1) LEVEL_THRESHOLDS = Some r" "xpRequired r = b"
    using assms(2,3) by (auto simp: level_xp_def)
  have "lu_level r = l + 1" using r(1) by (auto simp: find_Some_iff)
  then show ?thesis using assms s r by (simp add: getNextLevelInfo_def Let_def)
qed

lemma next_level_info:
  "let n = getNextLevelInfo x in currentLevel n = calculateLevel x \<and> 0 \<le> level_progress n \<and> level_progress n \<le> 100 \<and>
      (if currentLevel n = 7 then nextLevel n = 7 \<and> xpToNext n = 0
       else nextLevel n = currentLevel n + 1 \<and> 0 < xpToNext n \<and> calculateLevel (x + xpToNext n) = nextLevel n)"
proof -
  consider "x \<ge> 2500" | "x \<ge> 1500" "x < 2500" | "x \<ge> 1000" "x < 1500" | "x \<ge> 600" "x < 1000" | "x \<ge> 300" "x < 600"
    | "x \<ge> 100" "x < 300" | "x < 100" by linarith
  then show ?thesis
  proof cases
    case 1
    then have "calculateLevel x = 7" by (simp add: calculateLevel_cases)
    moreover have "find (\<lambda>t. lu_level t = 7 + 1) LEVEL_THRESHOLDS = None" by (simp add: LEVEL_THRESHOLDS_def)
    ultimately show ?thesis by (simp add: getNextLevelInfo_def Let_def)
  next
    case 2
    then show ?thesis by (intro next_level_at [of x 6 1500 2500]) (simp_all add: calculateLevel_cases level_xp_values)
  next
    case 3
    then show ?thesis by (intro next_level_at [of x 5 1000 1500]) (simp_all add: calculateLevel_cases level_xp_values)
  next
    case 4
    then show ?thesis by (intro next_level_at [of x 4 600 1000]) (simp_all add: calculateLevel_cases level_xp_values)
  next
    case 5
    then show ?thesis by (intro next_level_at [of x 3 300 600]) (simp_all add: calculateLevel_cases level_xp_values)
  next
    case 6
    then show ?thesis by (intro next_level_at [of x 2 100 300]) (simp_all add: calculateLevel_cases level_xp_values)
  next
    case 7
    then show ?thesis by (intro next_level_at [of x 1 0 100]) (simp_all add: calculateLevel_cases level_xp_values)
  qed
qed

section \<open>Properties\<close>

text \<open>After any sequence of the application's calls the level is one of the seven and at least what the experience gives, the
  title is that of the level, the celebration is shown exactly while a reward for this level is pending, the volume lies
  between 0 and 1, and every achievement has a progress of at most its maximum and is unlocked when it reaches it. What is
  still missing to the next level is positive and its progress lies between 0 and 100.\<close>

theorem kingdom_consistent:
  "gami_inv (fold gami_run cs initialState) \<and>
   (let n = getNextLevelInfo x in currentLevel n = calculateLevel x \<and> 0 \<le> level_progress n \<and> level_progress n \<le> 100 \<and>
      (if currentLevel n = 7 then nextLevel n = 7 \<and> xpToNext n = 0
       else nextLevel n = currentLevel n + 1 \<and> 0 < xpToNext n \<and> calculateLevel (x + xpToNext n) = nextLevel n))"
proof
  show "gami_inv (fold gami_run cs initialState)" by (rule kingdom.after_all [OF initial_inv])
qed (rule next_level_info)

end
