(* ===== verification/BorrowerLoans.thy ===== *)
theory BorrowerLoans
  imports Pagination LoanAccrual
begin

text \<open>
  The list of a borrower's loans from the table to the browser: \<open>getBorrowerLoans\<close> of
  \<open>src/backend/src/controllers/loanController.ts\<close>, whose row for one loan is \<open>loan_list_view\<close>, behind the schema of its
  query (\<open>src/backend/src/schemas/loanSchemas.ts\<close>), and the loop of \<open>fetchAllBorrowerLoans\<close> in
  \<open>src/frontend/src/app/hooks/useApi.ts\<close>. The table is the list of its rows in the order of their ids; a loan with a term of
  zero makes the query fail.
\<close>

section \<open>The query\<close>

record loan_query =
  q_status :: "string option"
  q_from :: "ms option"
  q_to :: "ms option"
  q_limit :: "int option"
  q_cursor :: "string option"

text \<open>The schema lets nothing else through, so that the ranges of the shared parser are never set.\<close>

definition borrowerLoansQuerySchema :: "loan_query \<Rightarrow> bool" where
  "borrowerLoansQuerySchema q \<longleftrightarrow>
     (case q_status q of None \<Rightarrow> True
      | Some s \<Rightarrow> s \<in> {''active'', ''repaid'', ''defaulted'', ''liquidated'', ''pending'', ''all''}) \<and>
     (case q_limit q of None \<Rightarrow> True | Some l \<Rightarrow> 1 \<le> l \<and> l \<le> 100)"

definition validated :: "loan_query \<Rightarrow> query_params" where
  "validated q k =
     (let text = (\<lambda>v. case v of None \<Rightarrow> QOther | Some s \<Rightarrow> QStr s) in
      if k = ''status'' then text (q_status q)
      else if k = ''limit'' then (case q_limit q of None \<Rightarrow> QOther | Some l \<Rightarrow> QNum (Some (of_int l)))
      else if k = ''cursor'' then text (q_cursor q)
      else QOther)"

definition effectiveDateRange :: "ms \<Rightarrow> loan_query \<Rightarrow> pagination_params \<Rightarrow> (ms \<times> ms) option" where
  "effectiveDateRange now q p =
     (if q_from q \<noteq> None \<or> q_to q \<noteq> None
      then Some (case q_from q of None \<Rightarrow> 0 | Some t \<Rightarrow> t, case q_to q of None \<Rightarrow> now | Some t \<Rightarrow> t)
      else dateRange p)"

section \<open>The rows\<close>

definition loan_ids :: "string \<Rightarrow> event_row list \<Rightarrow> int list" where
  "loan_ids u events = sort (remdups (List.map_filter loan_id (filter (\<lambda>e. address e = Some u) events)))"

definition loan_group :: "string \<Rightarrow> int \<Rightarrow> event_row list \<Rightarrow> event_row list" where
  "loan_group u l events = filter (\<lambda>e. address e = Some u \<and> loan_id e = Some l) events"

definition LEDGER_CLOSE_SECONDS :: int where "LEDGER_CLOSE_SECONDS = 5"

text \<open>The event of the highest ledger, then of the latest moment, then of the highest id.\<close>

fun latest_event :: "event_row \<Rightarrow> event_row list \<Rightarrow> event_row" where
  "latest_event b [] = b"
| "latest_event b (e # es) =
     latest_event (if ledger b < ledger e \<or> (ledger b = ledger e \<and> ledger_closed_at b \<le> ledger_closed_at e) then e else b) es"

record listed_loan =
  ll_id :: int
  ll_row :: loan_list_row
  ll_approved_at :: "ms option"
  ll_deadline :: ms
  ll_latest :: "string option"

definition listed_of :: "ms \<Rightarrow> int \<Rightarrow> event_row list \<Rightarrow> loan_list_row \<Rightarrow> listed_loan" where
  "listed_of now l evs row =
     (let approved_at = column ''LoanApproved'' (\<lambda>e. Some (ledger_closed_at e)) evs;
          term_l = (case column ''LoanApproved'' term_ledgers evs of None \<Rightarrow> DEFAULT_TERM_LEDGERS | Some t \<Rightarrow> t)
      in \<lparr>ll_id = l, ll_row = row, ll_approved_at = approved_at,
          ll_deadline = (case approved_at of None \<Rightarrow> now | Some t \<Rightarrow> t + 1000 * (term_l * LEDGER_CLOSE_SECONDS)),
          ll_latest = (case evs of [] \<Rightarrow> None | e # es \<Rightarrow> Some (event_type (latest_event e es)))\<rparr>)"

definition loan_final :: "ms \<Rightarrow> string \<Rightarrow> event_row list \<Rightarrow> ledger \<Rightarrow> listed_loan list option" where
  "loan_final now u events currentLedger =
     those (map (\<lambda>l. case loan_list_view (loan_group u l events) currentLedger of
              Inl e \<Rightarrow> None
            | Inr row \<Rightarrow> Some (listed_of now l (loan_group u l events) row)) (loan_ids u events))"

fun status_text :: "loan_status \<Rightarrow> string" where
  "status_text pending_indexing = ''pending_indexing''"
| "status_text defaulted = ''defaulted''"
| "status_text active = ''active''"
| "status_text repaid = ''repaid''"

definition in_range :: "(rat \<times> rat) option \<Rightarrow> int option \<Rightarrow> bool" where
  "in_range r v = (case r of None \<Rightarrow> True | Some (a, b) \<Rightarrow> (case v of None \<Rightarrow> False | Some x \<Rightarrow> a \<le> of_int x \<and> of_int x \<le> b))"

definition in_dates :: "(ms \<times> ms) option \<Rightarrow> ms option \<Rightarrow> bool" where
  "in_dates r v = (case r of None \<Rightarrow> True | Some (a, b) \<Rightarrow> (case v of None \<Rightarrow> False | Some x \<Rightarrow> a \<le> x \<and> x \<le> b))"

definition listed_where :: "string option \<Rightarrow> (rat \<times> rat) option \<Rightarrow> (ms \<times> ms) option \<Rightarrow> int option \<Rightarrow> listed_loan \<Rightarrow> bool" where
  "listed_where st amounts dates c x \<longleftrightarrow>
     (st = None \<or> st = Some (status_text (rowStatus (ll_row x)))) \<and> in_range amounts (rowPrincipal (ll_row x)) \<and>
     in_dates dates (ll_approved_at x) \<and> (case c of None \<Rightarrow> True | Some k \<Rightarrow> k < ll_id x)"

section \<open>The endpoint\<close>

text \<open>A cursor that is no number, or no integer of PostgreSQL, makes the query fail.\<close>

definition cursor_value :: "string option \<Rightarrow> http_error + int option" where
  "cursor_value c =
     (case env_set c of
        None \<Rightarrow> Inr None
      | Some t \<Rightarrow>
          (case js_parseInt t of
             None \<Rightarrow> Inl (Thrown ''invalid input syntax for type integer'')
           | Some n \<Rightarrow> if - (2 ^ 31) \<le> n \<and> n < 2 ^ 31 then Inr (Some n) else Inl (Thrown ''integer out of range'')))"

definition requested_status :: "string option \<Rightarrow> string option" where
  "requested_status st = (case env_set st of None \<Rightarrow> None | Some s \<Rightarrow> if s = ''all'' then None else Some s)"

record loan_entry =
  le_id :: int
  le_loan :: borrower_loan
  le_deadline :: ms
  le_approved :: "ms option"
  le_latest :: "string option"

definition loan_entry_of :: "listed_loan \<Rightarrow> loan_entry" where
  "loan_entry_of x = \<lparr>le_id = ll_id x, le_loan = borrower_loan_of (ll_row x), le_deadline = ll_deadline x,
     le_approved = ll_approved_at x, le_latest = ll_latest x\<rparr>"

definition getBorrowerLoans ::
  "host \<Rightarrow> ms \<Rightarrow> string \<Rightarrow> event_row list \<Rightarrow> ledger \<Rightarrow> loan_query \<Rightarrow> http_error + loan_entry list cursor_page" where
  "getBorrowerLoans H now borrower events currentLedger q =
     (let p = parseCursorQueryParams H (validated q); dates = effectiveDateRange now q p in
      and_then (cursor_value (page_cursor p)) (\<lambda>cursorValue.
        case loan_final now borrower events currentLedger of
          None \<Rightarrow> Inl (Thrown ''division by zero'')
        | Some final \<Rightarrow>
            (let matching = filter (listed_where (requested_status (status p)) (amountRange p) dates cursorValue) final;
                 rows = take (nat (limit p + 1)) matching;
                 totalCount = (if rows = [] then 0 else int (length matching));
                 hasNext = (int (length rows) > limit p);
                 trimmedRows = (if hasNext then take (nat (limit p)) rows else rows);
                 loans = map loan_entry_of trimmedRows;
                 nextCursor = (if hasNext \<and> loans \<noteq> [] then Some (show_int (le_id (last loans))) else None)
             in Inr (createCursorPaginatedResponse loans (Some totalCount) (limit p) (int (length loans)) nextCursor
                  (env_set (page_cursor p) \<noteq> None)))))"

section \<open>The browser\<close>

text \<open>A parameter that is absent or empty is left out of the address.\<close>

definition fetchBorrowerLoansPage ::
  "(loan_query \<Rightarrow> http_error + loan_entry list cursor_page) \<Rightarrow> string option \<Rightarrow> string option \<Rightarrow> http_error + loan_entry list \<times> string option" where
  "fetchBorrowerLoansPage backend cursor st =
     and_then (backend \<lparr>q_status = env_set st, q_from = None, q_to = None, q_limit = Some 100, q_cursor = env_set cursor\<rparr>)
       (\<lambda>page. Inr (cpData page, next_cursor page))"

text \<open>The loop ends with the first page that has no cursor, or an empty one.\<close>

partial_function (option) fetchAllBorrowerLoans ::
  "(loan_query \<Rightarrow> http_error + loan_entry list cursor_page) \<Rightarrow> string option \<Rightarrow> string option \<Rightarrow> loan_entry list \<Rightarrow> (http_error + loan_entry list) option" where
  "fetchAllBorrowerLoans backend st cursor got =
     (case fetchBorrowerLoansPage backend cursor st of
        Inl e \<Rightarrow> Some (Inl e)
      | Inr (loans, next) \<Rightarrow>
          (if env_set next = None then Some (Inr (got @ loans))
           else fetchAllBorrowerLoans backend st next (got @ loans)))"

section \<open>Lemmas\<close>

lemma show_int_nonempty: "show_int n \<noteq> []"
  using show_int_hd [of n] by auto

lemma those_map_ids:
  "those (map (\<lambda>l. case f l of Inl e \<Rightarrow> None | Inr r \<Rightarrow> Some (g l r)) ls) = Some xs \<Longrightarrow> (\<And>l r. ll_id (g l r) = l) \<Longrightarrow> map ll_id xs = ls"
proof (induction ls arbitrary: xs)
  case (Cons l ls)
  then obtain r ys where "f l = Inr r" "those (map (\<lambda>l. case f l of Inl e \<Rightarrow> None | Inr r \<Rightarrow> Some (g l r)) ls) = Some ys" "xs = g l r # ys"
    by (auto split: sum.splits option.splits)
  then show ?case using Cons.IH [of ys] Cons.prems(2) by simp
qed simp

lemma ll_id_listed [simp]: "ll_id (listed_of now l evs row) = l"
  unfolding listed_of_def Let_def by simp

lemma loan_final_ids:
  assumes "loan_final now u events currentLedger = Some xs"
  shows "map ll_id xs = loan_ids u events"
  using assms [unfolded loan_final_def] by (rule those_map_ids) (rule ll_id_listed)

lemma loan_ids_strict: "sorted_wrt (<) (loan_ids u events)"
  by (simp add: loan_ids_def strict_sorted_iff)

lemma filter_strict: "sorted_wrt (<) (map ll_id xs) \<Longrightarrow> sorted_wrt (<) (map ll_id (filter P xs))"
  by (induction xs) auto

text \<open>What follows the last row of a page.\<close>

lemma rows_after_page:
  assumes "sorted_wrt (<) (map ll_id xs)" "0 < n" "n \<le> length xs"
  shows "filter (\<lambda>x. ll_id (last (take n xs)) < ll_id x) xs = drop n xs"
proof -
  let ?k = "ll_id (last (take n xs))"
  have s: "sorted_wrt (<) (map ll_id (take n xs @ drop n xs))" using assms(1) by simp
  have l: "last (take n xs) \<in> set (take n xs)" using assms(2,3) by (intro last_in_set) auto
  have "\<forall>x \<in> set (drop n xs). ?k < ll_id x"
    using s l unfolding map_append sorted_wrt_append by auto
  moreover have "\<forall>x \<in> set (take n xs). \<not> ?k < ll_id x"
  proof
    fix x assume x: "x \<in> set (take n xs)"
    have t: "take n xs = butlast (take n xs) @ [last (take n xs)]" using assms(2,3) by (intro append_butlast_last_id [symmetric]) auto
    have "sorted_wrt (<) (map ll_id (butlast (take n xs) @ [last (take n xs)]))"
      using s unfolding map_append sorted_wrt_append t [symmetric] by simp
    then have "\<forall>y \<in> set (butlast (take n xs)). ll_id y < ?k" unfolding map_append sorted_wrt_append by simp
    then show "\<not> ?k < ll_id x" using x t by (metis Un_iff empty_iff less_asym' list.set(1) set_ConsD set_append less_irrefl)
  qed
  ultimately have "filter (\<lambda>x. ?k < ll_id x) (take n xs @ drop n xs) = drop n xs" unfolding filter_append by simp
  then show ?thesis by simp
qed

lemma env_set_show [simp]: "env_set (Some (show_int n)) = Some (show_int n)"
  using show_int_nonempty by (simp add: env_set_def)

text \<open>The validated query as the endpoint reads it.\<close>

lemma parsed_query:
  assumes "q_limit q = Some l" "1 \<le> l" "l \<le> 100"
  shows "limit (parseCursorQueryParams H (validated q)) = l" "amountRange (parseCursorQueryParams H (validated q)) = None"
    "dateRange (parseCursorQueryParams H (validated q)) = None"
    "page_cursor (parseCursorQueryParams H (validated q)) = (case q_cursor q of None \<Rightarrow> None | Some s \<Rightarrow> trimmed (QStr s))"
    "status (parseCursorQueryParams H (validated q)) = (case q_status q of None \<Rightarrow> None | Some s \<Rightarrow> trimmed (QStr s))"
  using assms
  by (simp_all add: parseCursorQueryParams_def validated_def parsePositiveInteger_def MAX_LIMIT_def parseAmountRange_def parseDateRange_def
      range_parts_def trimmed_def Let_def split: option.splits)

lemma trim_show_int: "js_trim (show_int n) = show_int n"
proof (rule js_trim_id)
  have "\<not> is_space (hd (show_int n))" by (simp add: show_int_def hd_digits, simp add: is_space_def)
  moreover have "\<not> is_space (last (show_int n))" by (simp add: show_int_def last_digits)
  ultimately show "show_int n = [] \<or> \<not> is_space (hd (show_int n)) \<and> \<not> is_space (last (show_int n))" by simp
qed

lemma cursor_value_show:
  "- (2 ^ 31) \<le> n \<Longrightarrow> n < 2 ^ 31 \<Longrightarrow> cursor_value (Some (show_int n)) = Inr (Some n)" "cursor_value None = Inr None"
  by (simp_all add: cursor_value_def js_parseInt_show_int, simp add: env_set_def)

definition statuses :: "string option set" where
  "statuses = {None, Some ''active'', Some ''repaid'', Some ''defaulted'', Some ''liquidated'', Some ''pending'', Some ''all''}"

lemma statuses_trimmed:
  "st \<in> statuses \<Longrightarrow> env_set st = st \<and> (case st of None \<Rightarrow> None | Some s \<Rightarrow> trimmed (QStr s)) = st"
  by (auto simp: statuses_def env_set_def trimmed_def js_trim_def is_space_def)

definition asked :: "string option \<Rightarrow> listed_loan \<Rightarrow> bool" where
  "asked st x \<longleftrightarrow> st \<in> {None, Some ''all''} \<or> st = Some (status_text (rowStatus (ll_row x)))"

lemma requested_statuses: "st \<in> statuses \<Longrightarrow> requested_status st = (if st \<in> {None, Some ''all''} then None else st)"
  by (auto simp: statuses_def requested_status_def env_set_def)

lemma asked_where: "st \<in> statuses \<Longrightarrow>
    listed_where (requested_status st) None None c x \<longleftrightarrow> asked st x \<and> (case c of None \<Rightarrow> True | Some k \<Rightarrow> k < ll_id x)"
  by (cases "st \<in> {None, Some ''all''}") (simp_all only: listed_where_def requested_statuses asked_def in_range_def in_dates_def if_True if_False option.case simp_thms, auto)

definition in_int4 :: "int \<Rightarrow> bool" where "in_int4 n \<longleftrightarrow> - (2 ^ 31) \<le> n \<and> n < 2 ^ 31"

lemma one_page:
  assumes "loan_final now u events led = Some final" "st \<in> statuses" "case c of None \<Rightarrow> True | Some k \<Rightarrow> in_int4 k"
    and "rest = filter (\<lambda>x. asked st x \<and> (case c of None \<Rightarrow> True | Some k \<Rightarrow> k < ll_id x)) final"
  shows "fetchBorrowerLoansPage (getBorrowerLoans H now u events led) (map_option show_int c) st =
    Inr (map loan_entry_of (take 100 rest), if length rest > 100 then Some (show_int (ll_id (last (take 100 rest)))) else None)"
proof -
  let ?q = "\<lparr>q_status = env_set st, q_from = None, q_to = None, q_limit = Some 100, q_cursor = env_set (map_option show_int c)\<rparr>"
  have e: "env_set (map_option show_int c) = map_option show_int c"
    by (cases c) (simp_all add: env_set_def show_int_nonempty)
  have cur: "page_cursor (parseCursorQueryParams H (validated ?q)) = map_option show_int c"
    by (subst parsed_query(4) [of ?q 100]) (auto simp: e trimmed_def trim_show_int show_int_nonempty split: option.splits)
  have stat: "status (parseCursorQueryParams H (validated ?q)) = st"
    by (subst parsed_query(5) [of ?q 100]) (use statuses_trimmed [OF assms(2)] in \<open>simp_all del: trimmed_def\<close>)
  have lim: "limit (parseCursorQueryParams H (validated ?q)) = 100" "amountRange (parseCursorQueryParams H (validated ?q)) = None"
    "effectiveDateRange now ?q (parseCursorQueryParams H (validated ?q)) = None"
    using parsed_query(1-3) [of ?q 100 H] by (simp_all add: effectiveDateRange_def)
  have cv: "cursor_value (map_option show_int c) = Inr c"
    using assms(3) cursor_value_show by (cases c) (simp_all add: in_int4_def)
  have m: "filter (listed_where (requested_status st) None None c) final = rest"
    unfolding assms(4) using asked_where [OF assms(2)] by (intro filter_cong) auto
  have b: "getBorrowerLoans H now u events led ?q =
      Inr (createCursorPaginatedResponse (map loan_entry_of (take 100 rest)) (Some (if rest = [] then 0 else int (length rest))) 100
        (int (length (take 100 rest))) (if length rest > 100 then Some (show_int (ll_id (last (take 100 rest)))) else None) (map_option show_int c \<noteq> None))"
    unfolding getBorrowerLoans_def Let_def cur stat lim cv assms(1)
    by (auto simp: and_then_def m e loan_entry_of_def last_map min_def)
  show ?thesis unfolding fetchBorrowerLoansPage_def b by (simp add: and_then_def createCursorPaginatedResponse_def)
qed

lemma fetch_rest:
  assumes "loan_final now u events led = Some final" "st \<in> statuses" "\<forall>x \<in> set final. in_int4 (ll_id x)"
    and "case c of None \<Rightarrow> True | Some k \<Rightarrow> in_int4 k"
    and "rest = filter (\<lambda>x. asked st x \<and> (case c of None \<Rightarrow> True | Some k \<Rightarrow> k < ll_id x)) final"
  shows "fetchAllBorrowerLoans (getBorrowerLoans H now u events led) st (map_option show_int c) got = Some (Inr (got @ map loan_entry_of rest))"
  using assms(4,5)
proof (induction "length rest" arbitrary: c rest got rule: less_induct)
  case less
  note page = one_page [OF assms(1,2) less.prems]
  show ?case
  proof (cases "length rest > 100")
    case False
    then show ?thesis using page by (subst fetchAllBorrowerLoans.simps) (simp add: env_set_def)
  next
    case True
    let ?k = "ll_id (last (take 100 rest))"
    have strict: "sorted_wrt (<) (map ll_id rest)"
      unfolding less.prems(2) by (rule filter_strict) (simp add: loan_final_ids [OF assms(1)] loan_ids_strict)
    have l: "last (take 100 rest) \<in> set rest" using True by (metis in_set_takeD last_in_set less_nat_zero_code list.size(3) take_eq_Nil zero_neq_numeral)
    have k: "in_int4 ?k" using l assms(3) less.prems(2) by simp
    have after_k: "case c of None \<Rightarrow> True | Some k \<Rightarrow> k < ?k"
      using l [unfolded less.prems(2)] unfolding less.prems(2) by simp
    have d: "drop 100 rest = filter (\<lambda>x. asked st x \<and> ?k < ll_id x) final"
    proof -
      have "drop 100 rest = filter (\<lambda>x. ?k < ll_id x) rest" using rows_after_page [OF strict, of 100] True by simp
      also have "\<dots> = filter (\<lambda>x. asked st x \<and> ?k < ll_id x) final"
        unfolding less.prems(2) filter_filter using after_k
        by (intro filter_cong) (auto split: option.splits simp: less.prems(2) [symmetric])
      finally show ?thesis .
    qed
    have "fetchAllBorrowerLoans (getBorrowerLoans H now u events led) st (map_option show_int (Some ?k)) (got @ map loan_entry_of (take 100 rest)) =
        Some (Inr ((got @ map loan_entry_of (take 100 rest)) @ map loan_entry_of (drop 100 rest)))"
    proof (rule less.hyps)
      have "length (drop 100 rest) < length rest" using True by simp
      then show "length (drop 100 rest) < length rest" .
    qed (use k d in simp_all)
    moreover have "map loan_entry_of (take 100 rest) @ map loan_entry_of (drop 100 rest) = map loan_entry_of rest"
      by (metis append_take_drop_id map_append)
    ultimately show ?thesis using page True by (subst fetchAllBorrowerLoans.simps) simp
  qed
qed

section \<open>Properties\<close>


text \<open>The total that comes with a page counts the loans from that page on only: on every page after the first it is
  less than the number of loans.\<close>

theorem later_totals_shrink:
  assumes "loan_final now u events led = Some final" "in_int4 k" "x \<in> set final" "ll_id x \<le> k"
    and "getBorrowerLoans H now u events led \<lparr>q_status = None, q_from = None, q_to = None, q_limit = Some 100, q_cursor = Some (show_int k)\<rparr> = Inr page"
  shows "\<exists>n. cpTotal page = Some n \<and> n < int (length final)"
proof -
  let ?q = "\<lparr>q_status = None, q_from = None, q_to = None, q_limit = Some 100, q_cursor = Some (show_int k)\<rparr>"
  have p: "page_cursor (parseCursorQueryParams H (validated ?q)) = Some (show_int k)" "status (parseCursorQueryParams H (validated ?q)) = None"
    using parsed_query(4,5) [of ?q 100 H] by (simp_all add: trimmed_def trim_show_int show_int_nonempty)
  have cv: "cursor_value (Some (show_int k)) = Inr (Some k)" using assms(2) by (simp add: cursor_value_show in_int4_def)
  let ?m = "filter (listed_where (requested_status None) (amountRange (parseCursorQueryParams H (validated ?q)))
      (effectiveDateRange now ?q (parseCursorQueryParams H (validated ?q))) (Some k)) final"
  have "length ?m < length final"
    using assms(3,4) by (intro length_filter_less [of x]) (simp_all add: listed_where_def)
  moreover have "cpTotal page = Some (int (length ?m)) \<or> cpTotal page = Some 0"
    using assms(5) unfolding getBorrowerLoans_def Let_def p cv assms(1) by (auto simp: createCursorPaginatedResponse_def split: if_splits)
  ultimately show ?thesis using assms(3) length_pos_if_in_set [OF assms(3)] by auto
qed

section \<open>A concrete borrower\<close>

definition demo_loan :: "int \<Rightarrow> event_row" where
  "demo_loan l = \<lparr>event_id = ''e'' @ show_int l, event_type = ''LoanRequested'', loan_id = Some l, address = Some ''GB'', amount = Some 500, ledger = 5,
     ledger_closed_at = 1000, tx_hash = ''h'', contract_id = ''C'', interest_rate_bps = None, term_ledgers = None\<rparr>"

definition no_host :: host where
  "no_host = \<lparr>date_of = (\<lambda>_. None), iso = show_int, float_of = (\<lambda>_. None), json_of = Inl\<rparr>"


theorem later_totals_shrink_witness:
  "\<exists>page n. getBorrowerLoans no_host 0 ''GB'' [demo_loan 7, demo_loan 3] 9
     \<lparr>q_status = None, q_from = None, q_to = None, q_limit = Some 100, q_cursor = Some (show_int 3)\<rparr> = Inr page \<and> cpTotal page = Some n \<and> n < 2"
proof -
  have ids: "loan_ids ''GB'' [demo_loan 7, demo_loan 3] = [3, 7]"
    by (simp add: loan_ids_def demo_loan_def List.map_filter_def)
  have "loan_final 0 ''GB'' [demo_loan 7, demo_loan 3] 9 \<noteq> None"
    unfolding loan_final_def ids
    by (simp add: loan_list_view_def loan_group_def demo_loan_def column_def sql_max_def DEFAULT_TERM_LEDGERS_def Let_def List.map_filter_def)
  then obtain final where f: "loan_final 0 ''GB'' [demo_loan 7, demo_loan 3] 9 = Some final" by auto
  have m: "map ll_id final = [3, 7]" using loan_final_ids [OF f] ids by simp
  then have "ll_id (hd final) = 3" "hd final \<in> set final" by (cases final; simp)+
  then obtain x where x: "x \<in> set final" "ll_id x \<le> 3" by (metis order_refl)
  have "length final = 2" using m by (metis length_map list.size(3,4) One_nat_def add_Suc_right plus_1_eq_Suc Suc_1 add_0_right)
  moreover obtain page where "getBorrowerLoans no_host 0 ''GB'' [demo_loan 7, demo_loan 3] 9
     \<lparr>q_status = None, q_from = None, q_to = None, q_limit = Some 100, q_cursor = Some (show_int 3)\<rparr> = Inr page"
    using f parsed_query(4) [of "\<lparr>q_status = None, q_from = None, q_to = None, q_limit = Some 100, q_cursor = Some (show_int 3)\<rparr>" 100 no_host]
    by (auto simp: getBorrowerLoans_def Let_def trimmed_def trim_show_int show_int_nonempty cursor_value_show)
  ultimately show ?thesis using later_totals_shrink [OF f _ x] by (fastforce simp: in_int4_def)
qed

end
