(* ===== verification/PrivateData.thy ===== *)
theory PrivateData
  imports AppErrors Json
begin

text \<open>
  Personal data and what is written about requests: the envelope encryption of \<open>src/backend/src/services/piiCrypto.ts\<close> with
  its access log and its masks, and the audit log of \<open>src/backend/src/middleware/auditLog.ts\<close>. The cipher, the key server and
  random bytes are parameters; a buffer is the list of its bytes.
\<close>

section \<open>Encryption\<close>

text \<open>AES-256-GCM: key, nonce and text give a cipher text and its tag; opening checks the tag. Both throw on bad keys or tags.\<close>

record aead =
  seal :: "string \<Rightarrow> string \<Rightarrow> string \<Rightarrow> (string \<times> string) option"
  unseal :: "string \<Rightarrow> string \<Rightarrow> string \<Rightarrow> string \<Rightarrow> string option"

text \<open>The key server answers with a status that is no success or with the bytes.\<close>

record pii_env =
  KEK_ID :: string
  KMS_ENDPOINT :: string
  PII_KEK_KEY :: "string option"
  kms_encrypt :: "string \<Rightarrow> string \<Rightarrow> int + string"
  kms_decrypt :: "string \<Rightarrow> string \<Rightarrow> int + string"

text \<open>\<open>Buffer.from(s, 'hex')\<close> stops at the first pair that is no hexadecimal number.\<close>

fun from_hex :: "string \<Rightarrow> string" where
  "from_hex (a # b # s) =
     (case (hex_val a, hex_val b) of
        (Some x, Some y) \<Rightarrow> char_of (16 * x + y) # from_hex s
      | _ \<Rightarrow> [])"
| "from_hex s = []"

definition cipher_error :: http_error where
  "cipher_error = Thrown ''Unsupported state or unable to authenticate data''"

definition unwrapDek :: "aead \<Rightarrow> pii_env \<Rightarrow> string \<Rightarrow> string \<Rightarrow> http_error + string" where
  "unwrapDek A E dekWrapped kekId =
     (if KMS_ENDPOINT E \<noteq> [] then
        (case kms_decrypt E kekId dekWrapped of
           Inl st \<Rightarrow> Inl (Thrown (''KMS unwrap failed: '' @ show_int st))
         | Inr plaintext \<Rightarrow> Inr plaintext)
      else
        (case env_set (PII_KEK_KEY E) of
           None \<Rightarrow> Inl (Thrown ''PII_KEK_KEY is required for local KEK unwrapping but is not set'')
         | Some kekHex \<Rightarrow>
             (case unseal A (from_hex kekHex) (take 12 dekWrapped) (take 16 (drop 12 dekWrapped)) (drop 28 dekWrapped) of
                None \<Rightarrow> Inl cipher_error
              | Some dek \<Rightarrow> Inr dek)))"

definition wrapDek :: "aead \<Rightarrow> pii_env \<Rightarrow> string \<Rightarrow> string \<Rightarrow> http_error + string" where
  "wrapDek A E iv dek =
     (if KMS_ENDPOINT E \<noteq> [] then
        (case kms_encrypt E (KEK_ID E) dek of
           Inl st \<Rightarrow> Inl (Thrown (''KMS wrap failed: '' @ show_int st))
         | Inr wrapped_key \<Rightarrow> Inr wrapped_key)
      else
        (case env_set (PII_KEK_KEY E) of
           None \<Rightarrow> Inl (Thrown ''PII_KEK_KEY is required for local KEK wrapping but is not set'')
         | Some kekHex \<Rightarrow>
             (case seal A (from_hex kekHex) iv dek of
                None \<Rightarrow> Inl cipher_error
              | Some (encrypted, tag) \<Rightarrow> Inr (iv @ tag @ encrypted))))"

record encrypted_field =
  ciphertext :: string
  gcm_nonce :: string
  dek_wrapped :: string
  dek_kek_id :: string

definition encryptField :: "aead \<Rightarrow> pii_env \<Rightarrow> string \<Rightarrow> string \<Rightarrow> string \<Rightarrow> string \<Rightarrow> http_error + encrypted_field" where
  "encryptField A E dek iv wrap_iv plaintext =
     (case seal A dek iv plaintext of
        None \<Rightarrow> Inl cipher_error
      | Some (encrypted, tag) \<Rightarrow>
          and_then (wrapDek A E wrap_iv dek) (\<lambda>dekWrapped.
            Inr \<lparr>ciphertext = encrypted @ tag, gcm_nonce = iv, dek_wrapped = dekWrapped, dek_kek_id = KEK_ID E\<rparr>))"

record pii_access =
  pa_actor :: string
  pa_record :: string
  pa_field :: string
  pa_reason :: string
  pa_request :: string

text \<open>Where the tag begins; a negative index counts from the end.\<close>

definition tag_start :: "string \<Rightarrow> nat" where
  "tag_start c =
     (let i = int (length c) - 16 in nat (if i < 0 then max 0 (int (length c) + i) else i))"

text \<open>The text is only returned when the access has been logged.\<close>

definition decryptField ::
  "aead \<Rightarrow> pii_env \<Rightarrow> bool \<Rightarrow> encrypted_field \<Rightarrow> pii_access \<Rightarrow> pii_access list \<Rightarrow> (http_error + string) \<times> pii_access list" where
  "decryptField A E db_up f access log =
     (case unwrapDek A E (dek_wrapped f) (dek_kek_id f) of
        Inl e \<Rightarrow> (Inl e, log)
      | Inr dek \<Rightarrow>
          (let c = ciphertext f; i = tag_start c in
           case unseal A dek (gcm_nonce f) (drop i c) (take i c) of
             None \<Rightarrow> (Inl cipher_error, log)
           | Some decrypted \<Rightarrow>
               if db_up then (Inr decrypted, log @ [access]) else (Inl (Thrown ''database error''), log)))"

section \<open>Masks\<close>

text \<open>The first character of an empty string is printed as \<open>undefined\<close>.\<close>

definition first_char :: "string \<Rightarrow> string" where
  "first_char s = (case s of [] \<Rightarrow> ''undefined'' | c # _ \<Rightarrow> [c])"

definition maskValue :: "string \<Rightarrow> string \<Rightarrow> string" where
  "maskValue v fld =
     (if fld = ''email'' then
        (case js_split CHR ''@'' v of
           loc # domain # _ \<Rightarrow>
             if domain = [] then ''***''
             else
               (let maskedLocal = (if loc \<noteq> [] then first_char loc @ ''***'' else ''***'');
                    domainParts = js_split CHR ''.'' domain;
                    maskedDomain = (if length domainParts > 1 then first_char (hd domainParts) @ ''***.'' @ js_join ''.'' (tl domainParts) else ''***'')
                in maskedLocal @ ''@'' @ maskedDomain)
         | _ \<Rightarrow> ''***'')
      else if fld = ''phone'' then
        (if length v \<le> 4 then ''****'' else ''+xx...****'' @ drop (length v - 2) v)
      else if fld = ''name'' then
        (if length v \<le> 1 then ''*'' else first_char v @ ''***'' @ drop (length v - 1) v)
      else ''***'')"

section \<open>The audit log\<close>

definition sensitiveFields :: "string list" where
  "sensitiveFields = [''secret'', ''apiKey'', ''password'', ''token'', ''signedTx'', ''signedTxXdr'', ''x-api-key'']"

fun sanitizePayload :: "json \<Rightarrow> json" where
  "sanitizePayload (JArr vs) = JArr (map sanitizePayload vs)"
| "sanitizePayload (JObj kvs) =
     JObj (map (\<lambda>(k, v). (k, if k \<in> set sensitiveFields then JStr ''[REDACTED]'' else sanitizePayload v)) kvs)"
| "sanitizePayload v = v"

text \<open>A value in a template.\<close>

fun template_text :: "json \<Rightarrow> string" where
  "template_text JNull = ''null''"
| "template_text (JBool b) = (if b then ''true'' else ''false'')"
| "template_text (JNum n) = show_int n"
| "template_text (JStr s) = s"
| "template_text (JArr vs) = js_join '','' (map (\<lambda>v. if v = JNull then [] else template_text v) vs)"
| "template_text (JObj kvs) = ''[object Object]''"

text \<open>The first of the named fields that is truthy, with its label.\<close>

fun first_target :: "(string \<Rightarrow> string option) \<Rightarrow> (string \<times> string) list \<Rightarrow> string option" where
  "first_target get [] = None"
| "first_target get ((k, label) # ks) = (case get k of Some t \<Rightarrow> Some (label @ t) | None \<Rightarrow> first_target get ks)"

definition body_text :: "json option \<Rightarrow> string \<Rightarrow> string option" where
  "body_text body k =
     (case Option.bind body (field k) of
        None \<Rightarrow> None
      | Some v \<Rightarrow>
          if k = ''loanIds'' then (case v of JArr vs \<Rightarrow> Some (template_text v @ '']'') | _ \<Rightarrow> None)
          else if js_truthy v then Some (template_text v) else None)"

definition extractTarget :: "(string \<Rightarrow> string option) \<Rightarrow> json option \<Rightarrow> string option" where
  "extractTarget params body =
     (case first_target (\<lambda>k. env_set (params k))
        [(''id'', ''ID:''), (''loanId'', ''LoanID:''), (''address'', ''Address:''), (''userId'', ''UserID:''), (''borrower'', ''Borrower:'')] of
        Some t \<Rightarrow> Some t
      | None \<Rightarrow> first_target (body_text body)
          [(''loanId'', ''LoanID:''), (''loanIds'', ''LoanIDs:[''), (''address'', ''Address:''), (''userId'', ''UserID:''),
           (''publicKey'', ''PublicKey:''), (''borrowerPublicKey'', ''Borrower:'')])"

record audit_request =
  ar_user :: "string option"
  ar_api_key :: "string option"
  ar_method :: string
  ar_path :: string
  ar_params :: "string \<Rightarrow> string option"
  ar_body :: "json option"
  ar_ip :: "string option"
  ar_forwarded :: "string option"
  ar_remote :: "string option"

record audit_row =
  au_actor :: string
  au_action :: string
  au_target :: "string option"
  au_payload :: "string option"
  au_ip :: "string option"
  au_status :: nat

definition audit_ip :: "string option \<Rightarrow> string option \<Rightarrow> string option \<Rightarrow> string option" where
  "audit_ip ip forwarded remote =
     (case env_set ip of
        Some i \<Rightarrow> Some i
      | None \<Rightarrow>
          (case env_set (map_option (\<lambda>x. hd (js_split CHR '','' x)) forwarded) of Some i \<Rightarrow> Some i | None \<Rightarrow> remote))"

definition audit_actor :: "string option \<Rightarrow> string option \<Rightarrow> string" where
  "audit_actor user key = (case user of Some pk \<Rightarrow> pk | None \<Rightarrow> if env_set key \<noteq> None then ''INTERNAL_API_KEY'' else ''unknown'')"

definition audit_payload :: "json option \<Rightarrow> string option" where
  "audit_payload body = (case map_option sanitizePayload body of None \<Rightarrow> None | Some v \<Rightarrow> if js_truthy v then Some (stringify v) else None)"

definition audit_row_of :: "audit_request \<Rightarrow> nat \<Rightarrow> audit_row" where
  "audit_row_of r st =
     \<lparr>au_actor = audit_actor (ar_user r) (ar_api_key r), au_action = ar_method r @ '' '' @ ar_path r,
      au_target = extractTarget (ar_params r) (ar_body r), au_payload = audit_payload (ar_body r),
      au_ip = audit_ip (ar_ip r) (ar_forwarded r) (ar_remote r), au_status = st\<rparr>"

text \<open>Once the answer is sent; a failure is only logged.\<close>

definition auditLog :: "bool \<Rightarrow> audit_request \<Rightarrow> nat \<Rightarrow> audit_row list \<Rightarrow> audit_row list" where
  "auditLog db_up r st log = (if db_up then log @ [audit_row_of r st] else log)"

section \<open>Lemmas\<close>

definition aead_laws :: "aead \<Rightarrow> bool" where
  "aead_laws A \<longleftrightarrow> (\<forall>k n t c g. seal A k n t = Some (c, g) \<longrightarrow> length g = 16 \<and> unseal A k n g c = Some t)"

definition kms_laws :: "pii_env \<Rightarrow> bool" where
  "kms_laws E \<longleftrightarrow> (\<forall>i d w. kms_encrypt E i d = Inr w \<longrightarrow> kms_decrypt E i w = Inr d)"

lemma unwrap_wrap:
  assumes "aead_laws A" "kms_laws E" "length iv = 12" "wrapDek A E iv dek = Inr w"
  shows "unwrapDek A E w (KEK_ID E) = Inr dek"
  using assms by (auto simp: wrapDek_def unwrapDek_def aead_laws_def kms_laws_def split: if_splits sum.splits option.splits)

text \<open>Other values in the sensitive fields.\<close>

fun with_secrets :: "(string \<Rightarrow> json \<Rightarrow> json) \<Rightarrow> json \<Rightarrow> json" where
  "with_secrets f (JArr vs) = JArr (map (with_secrets f) vs)"
| "with_secrets f (JObj kvs) = JObj (map (\<lambda>(k, v). (k, if k \<in> set sensitiveFields then f k v else with_secrets f v)) kvs)"
| "with_secrets f v = v"

lemma sanitize_secrets: "sanitizePayload (with_secrets f v) = sanitizePayload v"
  by (induction f v rule: with_secrets.induct) auto

lemma with_secrets_null: "with_secrets f v = JNull \<longleftrightarrow> v = JNull"
  by (cases v) auto

lemma template_secrets: "template_text (with_secrets f v) = template_text v"
proof (induction v rule: template_text.induct)
  case (5 vs)
  have "map (\<lambda>v. if v = JNull then [] else template_text v) (map (with_secrets f) vs) = map (\<lambda>v. if v = JNull then [] else template_text v) vs"
    using 5 by (auto simp: with_secrets_null)
  then show ?case by (simp del: map_map)
qed simp_all

lemma truthy_secrets: "js_truthy (with_secrets f v) = js_truthy v"
  by (cases v) auto

lemma map_of_second: "map_of (map (\<lambda>(k, v). (k, g k v)) kvs) k = map_option (g k) (map_of kvs k)"
  by (induction kvs) auto

lemma field_secrets: "k \<notin> set sensitiveFields \<Longrightarrow> field k (with_secrets f v) = map_option (with_secrets f) (field k v)"
  by (cases v) (auto simp: field_def map_of_second)

lemma body_text_secrets:
  assumes "k \<notin> set sensitiveFields"
  shows "body_text (map_option (with_secrets f) b) k = body_text b k"
proof (cases "Option.bind b (field k)")
  case None
  then show ?thesis using field_secrets [OF assms] by (cases b) (simp_all add: body_text_def)
next
  case (Some v)
  then have "Option.bind (map_option (with_secrets f) b) (field k) = Some (with_secrets f v)"
    using field_secrets [OF assms] by (cases b) simp_all
  moreover have "(case with_secrets f v of JArr vs \<Rightarrow> Some (template_text (with_secrets f v) @ '']'') | _ \<Rightarrow> None) =
      (case v of JArr vs \<Rightarrow> Some (template_text v @ '']'') | _ \<Rightarrow> None)"
    using template_secrets [of f v] by (cases v) simp_all
  ultimately show ?thesis using Some by (simp add: body_text_def template_secrets truthy_secrets)
qed

lemma first_target_cong: "(\<And>k. k \<in> set (map fst ks) \<Longrightarrow> g k = h k) \<Longrightarrow> first_target g ks = first_target h ks"
  by (induction g ks rule: first_target.induct) (simp_all split: option.split)

lemma extractTarget_secrets: "extractTarget ps (map_option (with_secrets f) b) = extractTarget ps b"
proof -
  have "first_target (body_text (map_option (with_secrets f) b))
          [(''loanId'', ''LoanID:''), (''loanIds'', ''LoanIDs:[''), (''address'', ''Address:''), (''userId'', ''UserID:''),
           (''publicKey'', ''PublicKey:''), (''borrowerPublicKey'', ''Borrower:'')] =
        first_target (body_text b)
          [(''loanId'', ''LoanID:''), (''loanIds'', ''LoanIDs:[''), (''address'', ''Address:''), (''userId'', ''UserID:''),
           (''publicKey'', ''PublicKey:''), (''borrowerPublicKey'', ''Borrower:'')]"
    by (rule first_target_cong) (rule body_text_secrets, auto simp: sensitiveFields_def)
  then show ?thesis by (simp only: extractTarget_def)
qed

section \<open>Properties\<close>

text \<open>A personal field that was encrypted is decrypted to itself, with the local key or with the key server, and the access is
  logged exactly once; when the log cannot be written the text is not returned.\<close>

theorem pii_roundtrip:
  assumes "aead_laws A" "kms_laws E" "length wrap_iv = 12" "encryptField A E dek iv wrap_iv plaintext = Inr f"
  shows "decryptField A E True f access log = (Inr plaintext, log @ [access]) \<and>
    \<not> is_ok (fst (decryptField A E False f access log)) \<and> snd (decryptField A E False f access log) = log"
proof -
  obtain c g w where s: "seal A dek iv plaintext = Some (c, g)" "wrapDek A E wrap_iv dek = Inr w"
    and f: "f = \<lparr>ciphertext = c @ g, gcm_nonce = iv, dek_wrapped = w, dek_kek_id = KEK_ID E\<rparr>"
    using assms(4) by (auto simp: encryptField_def and_then_eq_Inr split: option.splits)
  have g: "length g = 16" "unseal A dek iv g c = Some plaintext" using assms(1) s(1) by (auto simp: aead_laws_def)
  have "tag_start (c @ g) = length c" using g(1) by (simp add: tag_start_def)
  then show ?thesis using unwrap_wrap [OF assms(1-3) s(2)] g(2) by (simp add: f decryptField_def)
qed

text \<open>No secret reaches the audit log: the row of a request is the same whatever values the sensitive fields of its body hold, at
  any depth.\<close>

theorem audit_hides_secrets:
  "auditLog db_up (r\<lparr>ar_body := map_option (with_secrets f) (ar_body r)\<rparr>) st log = auditLog db_up r st log"
proof -
  have "map_option sanitizePayload (map_option (with_secrets f) (ar_body r)) = map_option sanitizePayload (ar_body r)"
    by (cases "ar_body r") (simp_all add: sanitize_secrets)
  then show ?thesis by (simp add: auditLog_def audit_row_of_def audit_payload_def extractTarget_secrets)
qed

section \<open>A concrete cipher\<close>

definition toy_aead :: aead where
  "toy_aead = \<lparr>seal = (\<lambda>k n t. Some (t, replicate 16 CHR ''0'')),
     unseal = (\<lambda>k n g c. if g = replicate 16 CHR ''0'' then Some c else None)\<rparr>"

definition toy_env :: pii_env where
  "toy_env = \<lparr>KEK_ID = ''default-kek'', KMS_ENDPOINT = [], PII_KEK_KEY = Some ''00ff'', kms_encrypt = (\<lambda>i d. Inr d), kms_decrypt = (\<lambda>i w. Inr w)\<rparr>"

theorem pii_roundtrip_witness:
  "\<exists>f. encryptField toy_aead toy_env ''k'' ''n'' (replicate 12 CHR ''i'') ''ann@lend.org'' = Inr f \<and>
     (\<forall>access. decryptField toy_aead toy_env True f access [] = (Inr ''ann@lend.org'', [access]))"
proof -
  obtain f where f: "encryptField toy_aead toy_env ''k'' ''n'' (replicate 12 CHR ''i'') ''ann@lend.org'' = Inr f"
    by (simp add: encryptField_def toy_aead_def toy_env_def wrapDek_def env_set_def)
  have "aead_laws toy_aead" "kms_laws toy_env" by (simp_all add: aead_laws_def kms_laws_def toy_aead_def toy_env_def)
  then show ?thesis using pii_roundtrip [OF _ _ _ f] f by simp
qed

end
