(* ===== verification/Spec2Isabelle.thy ===== *)
theory Spec2Isabelle
  imports LoanAccrual RateLimit AuthService Idempotency CrossReconciler Webhook DefaultChecker Listings Notifications EventStream FrontendMoney Disputes LoanTx ApiClient SseClient TxFlow ScoreViews ErrorCodes Gamification BorrowerLoans PrivateData
begin

text \<open>
  Lend is a protocol for loans against remittances on Stellar. Its contracts emit events; the backend
  (\<open>src/backend/src\<close>) indexes them into PostgreSQL, serves views of loans, scores and remittances, builds unsigned
  transactions for the wallets, submits signed ones, marks overdue loans and pushes events to browsers and webhooks; the
  browser (\<open>src/frontend\<close>) calls that API, signs with the wallet and shows what became of it. This development models
  the logic of the backend and the parts of the browser that interpret its answers, and proves what they promise and, where
  the code does something else, what it does.

  \<^bold>\<open>Conventions.\<close> A handler or a service is a function from the request, its environment and the state to a result and
  a state; a failure is \<open>Inl\<close> of an \<open>http_error\<close>, a missing value \<open>None\<close>. Times are integers in milliseconds, amounts
  are integers in stroops, a table is the list of its rows in the order of their insertion or a map, a JavaScript string is a list of
  characters. What can interleave is an inductive relation between states, with a predicate for the reachable ones. Code that
  is not in the repository is a parameter: Redis, the Stellar SDK and network, \<open>jsonwebtoken\<close>, HMAC and random values,
  \<open>Date\<close>, \<open>parseFloat\<close> and \<open>JSON.parse\<close>; the laws a theorem needs of it are its hypotheses, and its witness
  instantiates them. Dates are only printed where a property depends on the text.

  \<^bold>\<open>Shared vocabulary.\<close> \<open>Prelude\<close>: results, the string and number functions of JavaScript with their inverses
  (\<open>js_parseInt_show_int\<close>), insertion-ordered maps, chunks, \<open>config/envHelpers\<close>. \<open>Runs\<close>: the locale \<open>preserved\<close> of
  operations that keep an invariant. \<open>Json\<close>: values and \<open>JSON.stringify\<close>, which is injective. \<open>JsNumber\<close>: \<open>Number(...)\<close>
  with the rounding to doubles. \<open>AppErrors\<close> and \<open>ErrorCodes\<close>: the errors of \<open>errors/\<close>, the registry of codes and the
  middleware \<open>errorHandler\<close>, which leaks nothing internal. \<open>EventStore\<close>: the table \<open>contract_events\<close> with its unique
  constraints. \<open>CacheService\<close>: \<open>services/cacheService.ts\<close> over the locale \<open>redis_server\<close>, whose consequence
  \<open>lease_store\<close> is what the locks rest on.

  \<^bold>\<open>Money.\<close> \<open>MoneyDecimal\<close> (\<open>money/decimal.ts\<close>): division in four rounding modes against the locale
  \<open>rounding_division\<close>, parsing and printing of stroops, \<open>splitProRata\<close>, which loses nothing. \<open>LoanAccrual\<close>
  (\<open>money/loanAccrual.ts\<close>, \<open>controllers/loanController.ts\<close>): interest, and the agreement of the detail of a loan with its row
  in the list. \<open>BorrowerLoans\<close>: the whole list with its filters and cursors, and the loop of the browser that collects it.
  \<open>FrontendMoney\<close> (\<open>frontend/lib/money\<close>, \<open>utils/amount.ts\<close>): the copies of the policy in the browser agree with
  the backend, displayed amounts are exact up to the display unit, input fields round-trip.

  \<^bold>\<open>Access.\<close> \<open>Rbac\<close> (\<open>auth/rbac.ts\<close>, \<open>middleware/\<close>): roles, scopes, ownership. \<open>AuthService\<close>
  (\<open>services/authService.ts\<close>, \<open>controllers/authController.ts\<close>, \<open>middleware/jwtAuth.ts\<close>): challenges are used once,
  a logout revokes. \<open>RateLimit\<close>, \<open>Idempotency\<close> (one execution per key and body, replays give the stored answer),
  \<open>PauseGuard\<close>. \<open>ApiRoutes\<close>: every router of \<open>routes/\<close> as a table of guards, run as Express runs it, and who can
  reach a changing handler. \<open>PrivateData\<close> (\<open>services/piiCrypto.ts\<close>, \<open>middleware/auditLog.ts\<close>): what is encrypted is
  decrypted to itself and every access is logged; no secret reaches the audit log.

  \<^bold>\<open>Indexing.\<close> \<open>EventParser\<close> and \<open>IndexerStore\<close> (\<open>services/eventIndexer.ts\<close>, \<open>db/transaction.ts\<close>): decoding,
  quarantine, and the batch that stores events, audits and scores in one transaction or not at all, however often it is retried.
  \<open>IndexerPoll\<close>: the polling loop from a cursor with pages, gaps and reindexing; nothing behind the cursor is lost and the
  cursor advances. \<open>Scores\<close> and \<open>CrossReconciler\<close>: bulk updates, decay, reconciliation with the chain. \<open>ScoreViews\<close>:
  the endpoints of \<open>controllers/scoreController.ts\<close>, whose cache never answers an old score, and whose breakdown counts loans.
  \<open>WorkerPool\<close> and \<open>DefaultChecker\<close>: which loans are overdue, the run that submits them under a lock.

  \<^bold>\<open>Services.\<close> \<open>Webhook\<close> (deliveries and their retries), \<open>Notifications\<close> and \<open>EventStream\<close> (what a stream
  receives and that it is its owner's), \<open>Pagination\<close> and \<open>Listings\<close> (opaque cursors, pinned snapshots, the SQL of the
  listings as clauses with their parameters), \<open>Remittance\<close> (creation and the submission of signed envelopes as a machine of
  steps), \<open>Disputes\<close>, \<open>SorobanTx\<close> and \<open>LoanTx\<close> (what a transaction that is built or handed out from the cache
  calls).

  \<^bold>\<open>Browser.\<close> \<open>WireTypes\<close>, \<open>ApiTypes\<close> and \<open>ApiClient\<close>: the interfaces and calls of \<open>hooks/useApi.ts\<close> against the
  answers and the routes of the backend: which handler a call reaches and whether the answer has the declared type.
  \<open>SseClient\<close>: how a stream is cut into messages and when it is given up. \<open>TxFlow\<close>: from the button to the
  confirmation, with the submission handlers. \<open>Gamification\<close>: the store of levels and achievements.

  \<^bold>\<open>Bounds and fuel.\<close> \<open>withTransaction\<close> tries three times, as the code does. The pages of a fetch are read with fuel,
  and a fuel of two more than the length of the chain is enough; reindexing takes at most as many steps as the range has
  ledgers; following the cursors of a listing takes more fuel than there are rows. \<open>poll_loop\<close> and \<open>fetchAllBorrowerLoans\<close>
  are partial functions, and are proved to return. Integers are unbounded as \<open>bigint\<close> is; the 128 bits of an argument of
  a contract, the \<open>int4\<close> and \<open>int8\<close> columns and the 53 bits of a double are checked where the code meets them.

  \<^bold>\<open>Not modelled.\<close> The contracts in Rust. Logging, metrics and tracing, Swagger, seeds, scripts and the start of the
  processes: no logic of the protocol. Pages and components of React, styles, translations, sound and themes: they show what the
  hooks return. The cache of TanStack Query: a library whose invalidations the hooks only name. Yield history, amortization and the
  simulation of scores compute with floating-point numbers throughout; a model over the rationals would not be the code. The listings of transactions and of governance
  actions repeat the shape of those in \<open>Listings\<close>. The manifest names the files of each of these parts.
\<close>

end
